(* ===== verification/JsPrelude.thy ===== *)
theory JsPrelude
  imports Complex_Main "HOL-Library.Word" "HOL-Library.List_Lexorder"
    "HOL-Library.Product_Lexorder" "HOL-Library.Multiset"
begin

text \<open>
  Shared vocabulary of the development: JavaScript strings as lists of UTF-16 code units with
  their UTF-8 encoding, JavaScript numbers as far as the code looks at them, the stable
  comparator sort of \<open>Array.prototype.sort\<close>, and SQLite tables as lists of rows with the
  \<open>SELECT\<close>, \<open>UPDATE\<close> and \<open>ORDER BY\<close> forms the data helpers use. The generic lemmas
  on them are collected in \<open>sql_simps\<close> and \<open>text_simps\<close>.
\<close>

named_theorems sql_simps \<open>rewriting of queries over tables as lists of rows\<close>
named_theorems text_simps \<open>rewriting of UTF-16 text and its UTF-8 encoding\<close>

section \<open>Text\<close>

type_synonym u16 = "16 word"
type_synonym jsstr = "u16 list"
type_synonym bytes = "nat list"

text \<open>A string literal of the source.\<close>

definition js :: "string \<Rightarrow> jsstr" where
  "js s = map of_char s"

definition is_high :: "u16 \<Rightarrow> bool" where
  "is_high c \<longleftrightarrow> 0xD800 \<le> c \<and> c \<le> 0xDBFF"

definition is_low :: "u16 \<Rightarrow> bool" where
  "is_low c \<longleftrightarrow> 0xDC00 \<le> c \<and> c \<le> 0xDFFF"

definition is_surrogate :: "u16 \<Rightarrow> bool" where
  "is_surrogate c \<longleftrightarrow> is_high c \<or> is_low c"

text \<open>\<open>String.prototype.toWellFormed\<close>: every unpaired surrogate becomes U+FFFD.\<close>

fun to_well_formed :: "jsstr \<Rightarrow> jsstr" where
  "to_well_formed [] = []"
| "to_well_formed [c] = [if is_surrogate c then 0xFFFD else c]"
| "to_well_formed (c # d # s) =
     (if is_high c \<and> is_low d then c # d # to_well_formed s
      else (if is_surrogate c then 0xFFFD else c) # to_well_formed (d # s))"

text \<open>\<open>String.prototype.isWellFormed\<close>.\<close>

fun is_well_formed :: "jsstr \<Rightarrow> bool" where
  "is_well_formed [] \<longleftrightarrow> True"
| "is_well_formed [c] \<longleftrightarrow> \<not> is_surrogate c"
| "is_well_formed (c # d # s) \<longleftrightarrow>
     (if is_high c \<and> is_low d then is_well_formed s
      else \<not> is_surrogate c \<and> is_well_formed (d # s))"

text \<open>The Unicode scalar values \<open>TextEncoder\<close> reads, unpaired surrogates as U+FFFD.\<close>

fun code_points :: "jsstr \<Rightarrow> nat list" where
  "code_points [] = []"
| "code_points [c] = [if is_surrogate c then 0xFFFD else unat c]"
| "code_points (c # d # s) =
     (if is_high c \<and> is_low d
      then (0x10000 + (unat c - 0xD800) * 0x400 + (unat d - 0xDC00)) # code_points s
      else (if is_surrogate c then 0xFFFD else unat c) # code_points (d # s))"

text \<open>The inverse of \<open>code_points\<close> on well-formed text, for the injectivity proof.\<close>

fun of_code_points :: "nat list \<Rightarrow> jsstr" where
  "of_code_points [] = []"
| "of_code_points (n # ns) =
     (if n < 0x10000 then of_nat n # of_code_points ns
      else of_nat (0xD800 + (n - 0x10000) div 0x400) # of_nat (0xDC00 + (n - 0x10000) mod 0x400)
        # of_code_points ns)"

definition utf8_cp :: "nat \<Rightarrow> bytes" where
  "utf8_cp n =
     (if n < 0x80 then [n]
      else if n < 0x800 then [0xC0 + n div 0x40, 0x80 + n mod 0x40]
      else if n < 0x10000 then
        [0xE0 + n div 0x1000, 0x80 + n div 0x40 mod 0x40, 0x80 + n mod 0x40]
      else [0xF0 + n div 0x40000, 0x80 + n div 0x1000 mod 0x40, 0x80 + n div 0x40 mod 0x40,
            0x80 + n mod 0x40])"

text \<open>\<open>new TextEncoder().encode(s)\<close>, and the bytes SQLite stores and compares.\<close>

definition utf8 :: "jsstr \<Rightarrow> bytes" where
  "utf8 s = concat (map utf8_cp (code_points s))"

text \<open>\<open>String(n)\<close> of a non-negative integer: its decimal digits.\<close>

fun dec_digits :: "nat \<Rightarrow> nat list" where
  "dec_digits n = (if n < 10 then [n] else dec_digits (n div 10) @ [n mod 10])"

declare dec_digits.simps [simp del]

definition js_of_nat :: "nat \<Rightarrow> jsstr" where
  "js_of_nat n = map (\<lambda>d. of_nat (48 + d)) (dec_digits n)"

definition is_digit :: "u16 \<Rightarrow> bool" where
  "is_digit c \<longleftrightarrow> 48 \<le> c \<and> c \<le> 57"

text \<open>The value of a run of decimal digits.\<close>

definition nat_of_digits :: "jsstr \<Rightarrow> nat" where
  "nat_of_digits s = foldl (\<lambda>a c. 10 * a + (unat c - 48)) 0 s"

text \<open>ASCII text, on which the UTF-16 order of JavaScript and the UTF-8 order of SQLite agree.\<close>

definition ascii :: "jsstr \<Rightarrow> bool" where
  "ascii s \<longleftrightarrow> (\<forall>c \<in> set s. unat c < 0x80)"

section \<open>Numbers\<close>

text \<open>A JavaScript number value, and any value that is not a number at all.\<close>

datatype jsnum = Fin rat | NaN | PosInf | NegInf | NotNumber

fun is_finite_num :: "jsnum \<Rightarrow> bool" where
  "is_finite_num (Fin _) = True"
| "is_finite_num _ = False"

definition max_safe :: int where
  "max_safe = 9007199254740991"

definition integral :: "rat \<Rightarrow> bool" where
  "integral q \<longleftrightarrow> of_int \<lfloor>q\<rfloor> = q"

fun is_safe_integer :: "jsnum \<Rightarrow> bool" where
  "is_safe_integer (Fin q) \<longleftrightarrow> integral q \<and> \<bar>q\<bar> \<le> of_int max_safe"
| "is_safe_integer _ \<longleftrightarrow> False"

fun num_val :: "jsnum \<Rightarrow> rat" where
  "num_val (Fin q) = q"
| "num_val _ = 0"

abbreviation JInt :: "int \<Rightarrow> jsnum" where
  "JInt i \<equiv> Fin (of_int i)"

text \<open>
  The double-precision sum of two non-negative safe integers: exact up to \<open>2^53\<close>; above it
  representable integers are even, and an odd sum goes to the neighbour divisible by four
  (round half to even).
\<close>

definition dbl_add :: "int \<Rightarrow> int \<Rightarrow> int" where
  "dbl_add a b =
     (let s = a + b in
      if s \<le> 9007199254740992 \<or> even s then s
      else if (s - 1) mod 4 = 0 then s - 1 else s + 1)"

text \<open>A value \<open>JSON.parse\<close> can give; object members in insertion order.\<close>

datatype json = JNull | JBool bool | JNum jsnum | JStr jsstr | JArr "json list"
  | JObj "(jsstr \<times> json) list"

section \<open>Errors and sorting\<close>

text \<open>Running a body that may throw: the first error ends it.\<close>

definition try_bind :: "'e + 'a \<Rightarrow> ('a \<Rightarrow> 'e + 'b) \<Rightarrow> 'e + 'b" where
  "try_bind m f = (case m of Inl e \<Rightarrow> Inl e | Inr x \<Rightarrow> f x)"

text \<open>\<open>Array.prototype.sort\<close> with a comparator: stable, a negative or zero result keeps order.\<close>

fun insert_by :: "('a \<Rightarrow> 'a \<Rightarrow> rat) \<Rightarrow> 'a \<Rightarrow> 'a list \<Rightarrow> 'a list" where
  "insert_by cmp x [] = [x]"
| "insert_by cmp x (y # ys) = (if cmp x y \<le> 0 then x # y # ys else y # insert_by cmp x ys)"

fun js_sort :: "('a \<Rightarrow> 'a \<Rightarrow> rat) \<Rightarrow> 'a list \<Rightarrow> 'a list" where
  "js_sort cmp [] = []"
| "js_sort cmp (x # xs) = insert_by cmp x (js_sort cmp xs)"

section \<open>Tables\<close>

text \<open>\<open>UPDATE t SET u WHERE p\<close>.\<close>

definition update_where :: "('r \<Rightarrow> bool) \<Rightarrow> ('r \<Rightarrow> 'r) \<Rightarrow> 'r list \<Rightarrow> 'r list" where
  "update_where p u rows = map (\<lambda>r. if p r then u r else r) rows"

text \<open>\<open>DELETE FROM t WHERE p\<close>.\<close>

definition delete_where :: "('r \<Rightarrow> bool) \<Rightarrow> 'r list \<Rightarrow> 'r list" where
  "delete_where p rows = filter (\<lambda>r. \<not> p r) rows"

text \<open>A constraint violation, and \<open>INSERT\<close> into a table with uniqueness constraints: \<open>clash r row\<close>
  says that the stored row \<open>r\<close> and the new one agree on a PRIMARY KEY or UNIQUE index.\<close>

datatype sql_error = UniqueViolation | StorageFault

definition insert_row :: "('r \<Rightarrow> 'r \<Rightarrow> bool) \<Rightarrow> 'r \<Rightarrow> 'r list \<Rightarrow> sql_error + 'r list" where
  "insert_row clash row rows =
     (if \<exists>r \<in> set rows. clash r row then Inl UniqueViolation else Inr (rows @ [row]))"

text \<open>\<open>ORDER BY key ASC\<close>.\<close>

definition order_asc :: "('r \<Rightarrow> 'k::linorder) \<Rightarrow> 'r list \<Rightarrow> 'r list" where
  "order_asc key rows = sort_key key rows"

text \<open>\<open>ORDER BY key DESC\<close>; SQLite leaves the order of equal keys open, the model takes one.\<close>

definition order_desc :: "('r \<Rightarrow> 'k::linorder) \<Rightarrow> 'r list \<Rightarrow> 'r list" where
  "order_desc key rows = rev (sort_key key rows)"

text \<open>\<open>rows[0] ?? null\<close>.\<close>

definition first_row :: "'r list \<Rightarrow> 'r option" where
  "first_row rows = (case rows of [] \<Rightarrow> None | r # _ \<Rightarrow> Some r)"

text \<open>
  Following a keyset cursor page by page, \<open>page rows n cursor\<close> with the cursor of the last row
  read; a page shorter than the limit is the last one. The fuel bounds the number of pages.
\<close>

fun walk_pages :: "('r \<Rightarrow> 'k) \<Rightarrow> ('t \<Rightarrow> nat \<Rightarrow> 'k option \<Rightarrow> 'r list) \<Rightarrow> nat \<Rightarrow> nat
    \<Rightarrow> 'k option \<Rightarrow> 't \<Rightarrow> 'r list option" where
  "walk_pages key page n 0 cursor rows = None"
| "walk_pages key page n (Suc fuel) cursor rows =
     (let p = page rows n cursor in
      if length p < n then Some p
      else map_option (append p) (walk_pages key page n fuel (Some (key (last p))) rows))"

section \<open>Lemmas\<close>

lemma is_high_not_low: "is_high c \<Longrightarrow> \<not> is_low c"
  by (auto simp: is_high_def is_low_def word_le_nat_alt)

lemma not_surrogate_FFFD [text_simps]: "\<not> is_surrogate 0xFFFD" "\<not> is_low 0xFFFD"
  by (simp_all add: is_surrogate_def is_high_def is_low_def)

lemma is_well_formed_Cons: "\<not> is_surrogate c \<Longrightarrow> is_well_formed (c # s) = is_well_formed s"
  by (cases s) (auto simp: is_surrogate_def)

lemma code_points_Cons: "\<not> is_surrogate c \<Longrightarrow> code_points (c # s) = unat c # code_points s"
  by (cases s) (auto simp: is_surrogate_def)

lemma hd_to_well_formed:
  "\<exists>t. to_well_formed (c # s) = (if is_surrogate c \<and> \<not> (\<exists>d s'. s = d # s' \<and> is_high c \<and> is_low d)
     then 0xFFFD else c) # t"
  by (cases s) auto

lemma is_well_formed_to_well_formed [text_simps]: "is_well_formed (to_well_formed s)"
proof (induction s rule: to_well_formed.induct)
  case (3 c d s)
  then show ?case
    by (auto simp: is_well_formed_Cons not_surrogate_FFFD)
qed (auto simp: not_surrogate_FFFD)

lemma to_well_formed_id [text_simps]: "is_well_formed s \<Longrightarrow> to_well_formed s = s"
  by (induction s rule: to_well_formed.induct) (auto split: if_splits)

lemma unat_FFFD: "unat (0xFFFD :: u16) = 0xFFFD"
  by simp

lemma code_points_to_well_formed: "code_points (to_well_formed s) = code_points s"
proof (induction s rule: to_well_formed.induct)
  case (3 c d s)
  then show ?case
    by (auto simp: code_points_Cons not_surrogate_FFFD unat_FFFD)
qed (auto simp: not_surrogate_FFFD unat_FFFD)

text \<open>Conditioning never changes what is hashed: the encoder substitutes the same way.\<close>

lemma utf8_to_well_formed [text_simps]: "utf8 (to_well_formed s) = utf8 s"
  by (simp add: utf8_def code_points_to_well_formed)

lemma unat_u16: "unat (c :: u16) < 65536"
  using unsigned_less[of c] by simp

lemma utf8_cp_neq_Nil: "utf8_cp n \<noteq> []"
  by (simp add: utf8_cp_def)

lemma utf8_cp_prefix_free:
  assumes "utf8_cp m @ xs = utf8_cp n @ ys" "m < 0x110000" "n < 0x110000"
  shows "m = n \<and> xs = ys"
proof -
  have hd_eq: "hd (utf8_cp m) = hd (utf8_cp n)"
    using assms(1) by (metis hd_append2 utf8_cp_neq_Nil)
  have len: "length (utf8_cp k) =
      (if hd (utf8_cp k) < 0x80 then 1 else if hd (utf8_cp k) < 0xE0 then 2
       else if hd (utf8_cp k) < 0xF0 then 3 else 4)" if "k < 0x110000" for k
    using that by (auto simp: utf8_cp_def less_mult_imp_div_less)
  have "length (utf8_cp m) = length (utf8_cp n)"
    using hd_eq len assms(2,3) by simp
  then have eq: "utf8_cp m = utf8_cp n" and tl: "xs = ys"
    using assms(1) by auto
  define dec where "dec b = (case b of [a] \<Rightarrow> a
     | [a, b] \<Rightarrow> (a - 0xC0) * 0x40 + (b - 0x80)
     | [a, b, c] \<Rightarrow> (a - 0xE0) * 0x1000 + (b - 0x80) * 0x40 + (c - 0x80)
     | [a, b, c, d] \<Rightarrow> (a - 0xF0) * 0x40000 + (b - 0x80) * 0x1000 + (c - 0x80) * 0x40 + (d - 0x80)
     | _ \<Rightarrow> 0)" for b :: "nat list"
  have "dec (utf8_cp k) = k" for k
  proof -
    have a: "k = k div 0x40 * 0x40 + k mod 0x40" by simp
    have b: "k div 0x40 = k div 0x1000 * 0x40 + k div 0x40 mod 0x40"
      using div_mod_decomp[of "k div 0x40" "0x40"] div_mult2_eq[of k "0x40" "0x40"] by simp
    have c: "k div 0x1000 = k div 0x40000 * 0x40 + k div 0x1000 mod 0x40"
      using div_mod_decomp[of "k div 0x1000" "0x40"] div_mult2_eq[of k "0x1000" "0x40"] by simp
    have "k div 0x1000 * 0x1000 + k div 0x40 mod 0x40 * 0x40 + k mod 0x40 = k"
      using a b by linarith
    moreover have "k div 0x40000 * 0x40000 + k div 0x1000 mod 0x40 * 0x1000
        + k div 0x40 mod 0x40 * 0x40 + k mod 0x40 = k"
      using a b c by linarith
    ultimately show ?thesis by (simp add: utf8_cp_def dec_def)
  qed
  then show ?thesis using eq tl by metis
qed

lemma code_points_bound: "n \<in> set (code_points s) \<Longrightarrow> n < 0x110000"
proof (induction s rule: code_points.induct)
  case (2 c)
  then show ?case using unat_u16[of c] by (auto split: if_splits)
next
  case (3 c d s)
  have "unat c < 0x10000" using unat_u16[of c] by simp
  moreover have "is_high c \<Longrightarrow> unat c \<le> 0xDBFF" "is_low d \<Longrightarrow> unat d \<le> 0xDFFF"
    by (auto simp: is_high_def is_low_def word_le_nat_alt)
  ultimately show ?case using 3 by (auto split: if_splits)
qed simp

lemma concat_utf8_cp_inj:
  "concat (map utf8_cp ms) = concat (map utf8_cp ns) \<Longrightarrow>
   (\<forall>n \<in> set ms \<union> set ns. n < 0x110000) \<Longrightarrow> ms = ns"
proof (induction ms arbitrary: ns)
  case Nil
  then show ?case by (cases ns) (auto simp: utf8_cp_neq_Nil)
next
  case (Cons m ms)
  then show ?case
  proof (cases ns)
    case Nil
    then show ?thesis using Cons.prems by (auto simp: utf8_cp_neq_Nil)
  next
    case (Cons n ns')
    have "m = n \<and> concat (map utf8_cp ms) = concat (map utf8_cp ns')"
      using Cons.prems Cons by (intro utf8_cp_prefix_free) auto
    then show ?thesis using Cons.IH[of ns'] Cons.prems Cons by auto
  qed
qed

lemma unat_surrogates:
  "is_high c \<longleftrightarrow> 0xD800 \<le> unat c \<and> unat c \<le> 0xDBFF"
  "is_low c \<longleftrightarrow> 0xDC00 \<le> unat c \<and> unat c \<le> 0xDFFF"
  by (auto simp: is_high_def is_low_def word_le_nat_alt)

lemma of_code_points_code_points: "is_well_formed s \<Longrightarrow> of_code_points (code_points s) = s"
proof (induction s rule: is_well_formed.induct)
  case (2 c)
  then show ?case using unat_u16[of c] by simp
next
  case (3 c d s)
  show ?case
  proof (cases "is_high c \<and> is_low d")
    case True
    obtain a where a: "unat c = 0xD800 + a" using True
      by (auto simp: unat_surrogates nat_le_iff_add)
    obtain b where b: "unat d = 0xDC00 + b" "b < 0x400" using True
      by (auto simp: unat_surrogates nat_le_iff_add)
    have c: "of_nat (0xD800 + a) = c" by (simp only: a[symmetric] of_nat_unat ucast_id)
    have d: "of_nat (0xDC00 + b) = d" by (simp only: b(1)[symmetric] of_nat_unat ucast_id)
    have "(a * 0x400 + b) div 0x400 = a" "(a * 0x400 + b) mod 0x400 = b" using b(2) by simp_all
    then show ?thesis using True 3 a b(1) c d by (simp del: of_nat_add)
  next
    case False
    then have "code_points (c # d # s) = unat c # code_points (d # s)" using 3 by auto
    then show ?thesis using 3 False unat_u16[of c] by auto
  qed
qed simp

lemma utf8_inj: "is_well_formed s \<Longrightarrow> is_well_formed t \<Longrightarrow> utf8 s = utf8 t \<Longrightarrow> s = t"
  by (metis UnE code_points_bound concat_utf8_cp_inj of_code_points_code_points utf8_def)

lemma utf8_append:
  "t = [] \<or> \<not> is_low (hd t) \<Longrightarrow> utf8 (s @ t) = utf8 s @ utf8 t"
proof -
  assume a: "t = [] \<or> \<not> is_low (hd t)"
  have "code_points (s @ t) = code_points s @ code_points t"
    using a
  proof (induction s rule: code_points.induct)
    case (2 c)
    then show ?case by (cases t) auto
  qed auto
  then show ?thesis by (simp add: utf8_def)
qed

lemma is_well_formed_append: "is_well_formed s \<Longrightarrow> is_well_formed t \<Longrightarrow> is_well_formed (s @ t)"
proof (induction s rule: is_well_formed.induct)
  case (2 c)
  then show ?case by (simp add: is_well_formed_Cons)
qed (auto split: if_splits)

lemma dec_digits_bound: "d \<in> set (dec_digits n) \<Longrightarrow> d < 10"
proof (induction n rule: dec_digits.induct)
  case (1 n)
  then show ?case by (cases "n < 10") (auto simp: dec_digits.simps[of n])
qed

lemma dec_digits_neq_Nil: "dec_digits n \<noteq> []"
  by (simp add: dec_digits.simps)

lemma unat_digit: "d < 10 \<Longrightarrow> unat (of_nat (48 + d) :: u16) = 48 + d"
  using unat_of_nat[where 'a = 16, of "48 + d"] by (simp del: of_nat_add)

lemma nat_of_digits_js_of_nat [text_simps]: "nat_of_digits (js_of_nat n) = n"
proof -
  have *: "foldl (\<lambda>a c. 10 * a + (unat c - 48)) 0 (map (\<lambda>d. of_nat (48 + d) :: u16) ds)
      = foldl (\<lambda>a d. 10 * a + d) 0 ds" if "\<forall>d \<in> set ds. d < 10" for ds
    using that by (induction ds rule: rev_induct) (auto simp: unat_digit simp del: of_nat_add)
  have "foldl (\<lambda>a d. 10 * a + d) 0 (dec_digits n) = n"
  proof (induction n rule: dec_digits.induct)
    case (1 n)
    then show ?case by (cases "n < 10") (auto simp: dec_digits.simps[of n])
  qed
  then show ?thesis
    using * dec_digits_bound by (simp add: nat_of_digits_def js_of_nat_def)
qed

lemma digits_js_of_nat: "c \<in> set (js_of_nat n) \<Longrightarrow> is_digit c"
  by (auto simp: js_of_nat_def is_digit_def word_le_nat_alt unat_digit dest: dec_digits_bound
      simp del: of_nat_add)

lemma js_of_nat_neq_Nil: "js_of_nat n \<noteq> []"
  by (simp add: js_of_nat_def dec_digits_neq_Nil)

lemma js_of_nat_inj: "js_of_nat m = js_of_nat n \<Longrightarrow> m = n"
  by (metis nat_of_digits_js_of_nat)

lemma digit_not_surrogate: "is_digit c \<Longrightarrow> \<not> is_surrogate c" "is_digit c \<Longrightarrow> c \<noteq> 58"
  by (auto simp: is_digit_def is_surrogate_def unat_surrogates word_le_nat_alt)

lemma is_well_formed_no_surrogates: "\<forall>c \<in> set s. \<not> is_surrogate c \<Longrightarrow> is_well_formed s"
  by (induction s) (auto simp: is_well_formed_Cons)

lemma utf8_ascii: "\<forall>c \<in> set s. unat c < 0x80 \<Longrightarrow> utf8 s = map unat s"
proof (induction s)
  case (Cons c s)
  have "\<not> is_surrogate c" using Cons.prems by (auto simp: is_surrogate_def unat_surrogates)
  then have "utf8 (c # s) = utf8_cp (unat c) @ utf8 s"
    by (simp add: utf8_def code_points_Cons)
  then show ?case using Cons by (simp add: utf8_cp_def)
qed (simp add: utf8_def)

lemma map_unat_less: "map unat s < map unat t \<longleftrightarrow> s < (t :: jsstr)"
proof (induction s arbitrary: t)
  case Nil
  then show ?case by (cases t) auto
next
  case (Cons c s)
  then show ?case
    by (cases t) (simp_all add: word_less_nat_alt word_unat_eq_iff del: unsigned_less)
qed

lemma utf8_less_ascii: "ascii s \<Longrightarrow> ascii t \<Longrightarrow> utf8 s < utf8 t \<longleftrightarrow> s < t"
  by (simp add: ascii_def utf8_ascii map_unat_less)

lemma utf8_le_ascii: "ascii s \<Longrightarrow> ascii t \<Longrightarrow> utf8 s \<le> utf8 t \<longleftrightarrow> s \<le> t"
  using utf8_less_ascii[of t s] by (meson linorder_not_less)

lemma ascii_well_formed: "ascii s \<Longrightarrow> is_well_formed s"
  by (rule is_well_formed_no_surrogates) (auto simp: ascii_def is_surrogate_def unat_surrogates)

lemma dbl_add_gt: "0 \<le> a \<Longrightarrow> 0 \<le> b \<Longrightarrow> c \<le> max_safe \<Longrightarrow> dbl_add a b > c \<longleftrightarrow> a + b > c"
  by (auto simp: dbl_add_def max_safe_def Let_def)

lemma set_insert_by: "set (insert_by cmp x ys) = insert x (set ys)"
  by (induction ys) auto

lemma mset_insert_by: "mset (insert_by cmp x ys) = add_mset x (mset ys)"
  by (induction ys) auto

lemma mset_js_sort [simp]: "mset (js_sort cmp xs) = mset xs"
  by (induction xs) (auto simp: mset_insert_by)

lemma set_js_sort [simp]: "set (js_sort cmp xs) = set xs"
  by (induction xs) (auto simp: set_insert_by)

text \<open>The head of a sorted array is below every element, for a total preorder comparator.\<close>

lemma hd_insert_by_le:
  assumes "\<And>a b. cmp a b \<le> 0 \<or> cmp b a \<le> 0" "\<And>a b c. cmp a b \<le> 0 \<Longrightarrow> cmp b c \<le> 0 \<Longrightarrow> cmp a c \<le> 0"
    and "\<forall>y \<in> set ys. cmp (hd ys) y \<le> 0" and "z \<in> insert x (set ys)"
  shows "cmp (hd (insert_by cmp x ys)) z \<le> 0"
proof (cases ys)
  case Nil
  then show ?thesis using assms(1)[of x x] assms(4) by auto
next
  case (Cons y ys')
  have "cmp x x \<le> 0" using assms(1)[of x x] by auto
  moreover have "cmp x y \<le> 0 \<Longrightarrow> w \<in> set ys \<Longrightarrow> cmp x w \<le> 0" for w
    using assms(2)[of x y w] assms(3) Cons by auto
  moreover have "\<not> cmp x y \<le> 0 \<Longrightarrow> cmp y x \<le> 0" using assms(1)[of x y] by auto
  ultimately show ?thesis using Cons assms(3,4) by auto
qed

lemma hd_js_sort_le:
  assumes "\<And>a b. cmp a b \<le> 0 \<or> cmp b a \<le> 0" "\<And>a b c. cmp a b \<le> 0 \<Longrightarrow> cmp b c \<le> 0 \<Longrightarrow> cmp a c \<le> 0"
    and "z \<in> set xs"
  shows "cmp (hd (js_sort cmp xs)) z \<le> 0"
  using assms(3)
proof (induction xs arbitrary: z)
  case (Cons x xs)
  then show ?case
    using hd_insert_by_le[of cmp "js_sort cmp xs" z x, OF assms(1,2)] by auto
qed simp

lemma unat_of_char: "unat (of_char c :: u16) = of_char c"
proof -
  have "(of_char c :: u16) = of_nat (of_char c)" by (simp add: of_nat_of_char)
  moreover have "(of_char c :: nat) < 65536" using nat_of_char_less_256[of c] by linarith
  ultimately show ?thesis by (simp only: unat_of_nat) simp
qed

lemma js_eq_iff: "js a = js b \<longleftrightarrow> a = b"
proof -
  have "inj (of_char :: char \<Rightarrow> u16)"
    by (rule injI) (metis unat_of_char of_char_eq_iff)
  then show ?thesis unfolding js_def by (simp add: inj_map_eq_map)
qed

subsection \<open>Tables\<close>

lemma set_update_where [sql_simps]:
  "set (update_where p u rows) = (\<lambda>r. if p r then u r else r) ` set rows"
  by (simp add: update_where_def)

lemma length_update_where [sql_simps]: "length (update_where p u rows) = length rows"
  by (simp add: update_where_def)

lemma map_update_where [sql_simps]:
  "(\<And>r. f (u r) = f r) \<Longrightarrow> map f (update_where p u rows) = map f rows"
  by (auto simp: update_where_def)

lemma update_where_none: "\<forall>r \<in> set rows. \<not> p r \<Longrightarrow> update_where p u rows = rows"
  by (auto simp: update_where_def intro: map_idI)

lemma set_delete_where [sql_simps]: "set (delete_where p rows) = {r \<in> set rows. \<not> p r}"
  by (auto simp: delete_where_def)

lemma set_order_desc [sql_simps]: "set (order_desc key rows) = set rows"
  by (simp add: order_desc_def)

lemma order_desc_Nil [sql_simps]: "order_desc key rows = [] \<longleftrightarrow> rows = []"
  using set_order_desc[of key rows] by (metis set_empty)

lemma mset_order_desc [sql_simps]: "mset (order_desc key rows) = mset rows"
  by (simp add: order_desc_def)

lemma sorted_order_desc: "sorted_wrt (\<lambda>a b. key b \<le> key a) (order_desc key rows)"
proof -
  have "sorted (map key (sort_key key rows))" by (rule sorted_sort_key)
  then show ?thesis
    by (simp add: order_desc_def sorted_wrt_rev sorted_wrt_map)
qed

lemma first_row_Some: "first_row rows = Some r \<Longrightarrow> r \<in> set rows"
  by (auto simp: first_row_def split: list.splits)

lemma first_row_None [sql_simps]: "first_row rows = None \<longleftrightarrow> rows = []"
  by (auto simp: first_row_def split: list.splits)

text \<open>The first row of a descending order is a maximal one.\<close>

lemma first_row_order_desc:
  "first_row (order_desc key rows) = Some r \<Longrightarrow> r \<in> set rows \<and> (\<forall>x \<in> set rows. key x \<le> key r)"
  using sorted_order_desc[of key rows] set_order_desc[of key rows]
  by (cases "order_desc key rows") (auto simp: first_row_def)

lemma mem_filter_first_row:
  "distinct (map key rows) \<Longrightarrow> r \<in> set rows \<Longrightarrow> first_row (filter (\<lambda>x. key x = key r) rows) = Some r"
proof (induction rows)
  case (Cons x rows)
  then show ?case by (cases "key x = key r") (auto simp: first_row_def)
qed simp

lemma sorted_wrt_strict:
  fixes key :: "'r \<Rightarrow> 'k::linorder"
  shows "sorted_wrt (\<lambda>a b. key b \<le> key a) xs \<Longrightarrow> distinct (map key xs) \<Longrightarrow>
   sorted_wrt (\<lambda>a b. key b < key a) xs"
  by (induction xs) (auto simp: less_le image_iff)

lemma order_desc_strict:
  "distinct (map key rows) \<Longrightarrow> sorted_wrt (\<lambda>a b. key b < key a) (order_desc key rows)"
  by (rule sorted_wrt_strict[OF sorted_order_desc])
    (simp add: order_desc_def distinct_map flip: rev_map)

lemma order_desc_filter: "order_desc key (filter p rows) = filter p (order_desc key rows)"
  by (simp add: order_desc_def filter_sort[symmetric] rev_filter)

text \<open>A list already in ascending order is its own descending order, reversed.\<close>

lemma order_desc_sorted: "sorted (map key rows) \<Longrightarrow> order_desc key rows = rev rows"
  by (simp add: order_desc_def sort_key_id_if_sorted)

section \<open>Keyset pagination\<close>

text \<open>
  The interface of a paged listing: the order key, and a page that is a prefix of the rows below
  the cursor in descending key order. Its client follows the cursor (\<open>walk_pages\<close>).
\<close>

locale keyset_listing =
  fixes key :: "'r \<Rightarrow> 'k::linorder"
    and view :: "'t \<Rightarrow> 'r list"
    and page :: "'t \<Rightarrow> nat \<Rightarrow> 'k option \<Rightarrow> 'r list"
  assumes first_page: "page rows n None = take n (order_desc key (view rows))"
    and next_page: "page rows n (Some b) = take n (order_desc key (filter (\<lambda>r. key r < b) (view rows)))"
begin

definition below :: "'k option \<Rightarrow> 't \<Rightarrow> 'r list" where
  "below c rows = filter (\<lambda>r. case c of None \<Rightarrow> True | Some b \<Rightarrow> key r < b) (order_desc key (view rows))"

lemma page_below: "page rows n c = take n (below c rows)"
  by (cases c) (simp_all add: first_page next_page below_def order_desc_filter)

lemma below_last:
  assumes "distinct (map key (view rows))" "below c rows = p @ q" "p \<noteq> []"
  shows "below (Some (key (last p))) rows = q"
proof -
  let ?k = "key (last p)"
  have s: "sorted_wrt (\<lambda>a b. key b < key a) (p @ q)"
    using order_desc_strict[OF assms(1)] assms(2) unfolding below_def by (metis sorted_wrt_filter)
  have "last p \<in> set (below c rows)" using assms(2,3) by simp
  then have c: "case c of None \<Rightarrow> True | Some b \<Rightarrow> ?k < b" by (simp add: below_def)
  have "below (Some ?k) rows = filter (\<lambda>r. key r < ?k) (below c rows)"
    unfolding below_def filter_filter
    by (rule filter_cong) (use c in \<open>auto split: option.splits\<close>)
  also have "\<dots> = filter (\<lambda>r. key r < ?k) p @ filter (\<lambda>r. key r < ?k) q"
    using assms(2) by simp
  also have "filter (\<lambda>r. key r < ?k) p = []"
  proof -
    obtain p' l where p: "p = p' @ [l]" using assms(3) by (metis rev_exhaust)
    then show ?thesis using s by (auto simp: sorted_wrt_append filter_empty_conv)
  qed
  also have "filter (\<lambda>r. key r < ?k) q = q"
    using s assms(3) by (auto simp: sorted_wrt_append)
  finally show ?thesis by simp
qed

text \<open>Following the cursor reads every row once, in order, and stops.\<close>

lemma walk_below:
  assumes "distinct (map key (view rows))" "0 < n"
  shows "length (below c rows) < fuel \<Longrightarrow> walk_pages key page n fuel c rows = Some (below c rows)"
proof (induction fuel arbitrary: c)
  case (Suc fuel)
  show ?case
  proof (cases "length (page rows n c) < n")
    case True
    then have "page rows n c = below c rows" by (auto simp: page_below)
    then show ?thesis using True by simp
  next
    case False
    let ?p = "take n (below c rows)" and ?q = "drop n (below c rows)"
    have len: "length ?p = n" using False by (simp add: page_below)
    then have ne: "?p \<noteq> []" using assms(2) by auto
    have q: "below (Some (key (last ?p))) rows = ?q"
      by (rule below_last[OF assms(1) _ ne]) simp
    have "length ?q < fuel" using Suc.prems assms(2) len by simp
    then have "walk_pages key page n fuel (Some (key (last ?p))) rows = Some ?q"
      using Suc.IH[of "Some (key (last ?p))"] q by simp
    moreover have "page rows n c = ?p" by (rule page_below)
    ultimately show ?thesis using len by (simp add: Let_def)
  qed
qed simp

lemma walk_all:
  "distinct (map key (view rows)) \<Longrightarrow> 0 < n \<Longrightarrow>
   walk_pages key page n (Suc (length (view rows))) None rows = Some (order_desc key (view rows))"
  using walk_below[of rows n None "Suc (length (view rows))"]
  by (simp add: below_def order_desc_def)

end

subsection \<open>Reading a row by its primary key\<close>

lemma insert_row_Inr:
  "insert_row clash row rows = Inr rows' \<longleftrightarrow> rows' = rows @ [row] \<and> (\<forall>r \<in> set rows. \<not> clash r row)"
  by (auto simp: insert_row_def)

lemma set_order_asc [sql_simps]: "set (order_asc key rows) = set rows"
  by (simp add: order_asc_def)

lemma sorted_order_asc: "sorted (map key (order_asc key rows))"
  by (simp add: order_asc_def)

text \<open>
  A table with a primary key and the helper that reads one row by it. The laws of the statements
  against the reader are proved once here.
\<close>

locale pk_table =
  fixes key :: "'r \<Rightarrow> 'k"
    and read :: "'r list \<Rightarrow> 'k \<Rightarrow> 'r option"
  assumes read: "read rows k = first_row (filter (\<lambda>r. key r = k) rows)"
begin

lemma read_Nil: "read [] k = None"
  by (simp add: read first_row_def)

lemma read_Cons: "read (r # rows) k = (if key r = k then Some r else read rows k)"
  by (simp add: read first_row_def)

lemma read_SomeD: "read rows k = Some r \<Longrightarrow> r \<in> set rows \<and> key r = k"
  by (auto simp: read dest: first_row_Some)

lemma read_None: "read rows k = None \<longleftrightarrow> k \<notin> key ` set rows"
  by (auto simp: read sql_simps filter_empty_conv)

lemma read_unique: "distinct (map key rows) \<Longrightarrow> r \<in> set rows \<Longrightarrow> read rows (key r) = Some r"
  by (induction rows) (auto simp: read_Cons read_None image_iff)

lemma read_append: "read (rows @ rows') k = (case read rows k of None \<Rightarrow> read rows' k | Some r \<Rightarrow> Some r)"
  by (induction rows) (auto simp: read_Cons read_Nil)

lemma read_insert:
  assumes "insert_row clash row rows = Inr rows'" "\<And>r. key r = key row \<Longrightarrow> clash r row"
  shows "read rows' k = (if k = key row then Some row else read rows k)"
proof -
  have "rows' = rows @ [row]" "key row \<notin> key ` set rows"
    using assms by (auto simp: insert_row_Inr)
  then show ?thesis using read_None[of rows "key row"]
    by (simp add: read_append read_Cons read_Nil split: option.split)
qed

lemma read_update:
  "(\<And>r. key (u r) = key r) \<Longrightarrow>
   read (update_where p u rows) k = map_option (\<lambda>r. if p r then u r else r) (read rows k)"
  by (induction rows) (auto simp: update_where_def read_Cons read_Nil)

lemma read_delete:
  "distinct (map key rows) \<Longrightarrow>
   read (delete_where p rows) k = (case read rows k of None \<Rightarrow> None | Some r \<Rightarrow> if p r then None else Some r)"
proof (induction rows)
  case (Cons r rows)
  then have "read rows (key r) = None" by (simp add: read_None)
  then show ?case using Cons by (auto simp: delete_where_def read_Cons)
qed (simp add: delete_where_def read_Nil)

lemma distinct_insert:
  "insert_row clash row rows = Inr rows' \<Longrightarrow> (\<And>r. key r = key row \<Longrightarrow> clash r row) \<Longrightarrow>
   distinct (map key rows) \<Longrightarrow> distinct (map key rows')"
  by (auto simp: insert_row_Inr)

lemma distinct_update:
  "(\<And>r. key (u r) = key r) \<Longrightarrow> distinct (map key rows) \<Longrightarrow> distinct (map key (update_where p u rows))"
  by (simp add: update_where_def comp_def if_distrib cong: if_cong)

lemma distinct_delete: "distinct (map key rows) \<Longrightarrow> distinct (map key (delete_where p rows))"
  by (simp add: delete_where_def distinct_map_filter)

end

end
