(* ===== verification/AuditHash.thy ===== *)
theory AuditHash
  imports JsPrelude
begin

text \<open>
  The entry hash of \<open>packages/audit/src/hash.ts\<close>. SHA-256 (\<open>node:crypto\<close>) is an argument
  \<open>sha\<close> from bytes to the hex digest, and \<open>show_frac\<close> prints the numbers that are not
  integers of ordinary size. The lemmas show that the framing can be parsed back, so two rows
  with the same hash input have the same field texts.
\<close>

section \<open>hash.ts\<close>

definition GENESIS_SENTINEL :: jsstr where
  "GENESIS_SENTINEL = js ''GENESIS''"

definition wellFormed :: "jsstr \<Rightarrow> jsstr" where
  "wellFormed value = to_well_formed value"

definition frameField :: "jsstr \<Rightarrow> jsstr" where
  "frameField s = js_of_nat (length (utf8 s)) @ js '':'' @ s"

record entry_hash_fields =
  epochId :: jsstr
  sequenceNum :: nat
  prevHash :: jsstr
  entryId :: jsstr
  timestamp :: jsstr
  userId :: jsstr
  agentId :: jsstr
  sessionId :: jsstr
  origin :: jsstr
  service :: jsstr
  verb :: jsstr
  noun :: jsstr
  toolName :: jsstr
  parametersMetadata :: jsstr
  decision :: jsstr
  outcome :: jsstr
  errorMessage :: "jsstr option"
  decisionEntryId :: "jsstr option"
  latencyMs :: jsnum
  costUsd :: "jsnum option"

text \<open>\<open>String(value)\<close> of a number: integers of ordinary size in decimal.\<close>

definition num_to_string :: "(rat \<Rightarrow> jsstr) \<Rightarrow> jsnum \<Rightarrow> jsstr" where
  "num_to_string show_frac n =
     (case n of Fin q \<Rightarrow>
        (if integral q \<and> 0 \<le> q \<and> q < 10 ^ 21 then js_of_nat (nat \<lfloor>q\<rfloor>)
         else if integral q \<and> - (10 ^ 21) < q \<and> q < 0 then js ''-'' @ js_of_nat (nat (- \<lfloor>q\<rfloor>))
         else show_frac q)
      | NaN \<Rightarrow> js ''NaN'' | PosInf \<Rightarrow> js ''Infinity'' | NegInf \<Rightarrow> js ''-Infinity''
      | NotNumber \<Rightarrow> js ''undefined'')"

text \<open>The array of \<open>computeEntryHash\<close> after \<open>String\<close>, absent values as the empty string.\<close>

definition hash_field_texts ::
  "(rat \<Rightarrow> jsstr) \<Rightarrow> 'a entry_hash_fields_scheme \<Rightarrow> jsstr list" where
  "hash_field_texts show_frac flds =
     [epochId flds, js_of_nat (sequenceNum flds), prevHash flds, entryId flds,
      timestamp flds, userId flds, agentId flds, sessionId flds, origin flds,
      service flds, verb flds, noun flds, toolName flds, parametersMetadata flds,
      decision flds, outcome flds,
      (case errorMessage flds of None \<Rightarrow> [] | Some m \<Rightarrow> m),
      (case decisionEntryId flds of None \<Rightarrow> [] | Some d \<Rightarrow> d),
      num_to_string show_frac (latencyMs flds),
      (case costUsd flds of None \<Rightarrow> [] | Some c \<Rightarrow> num_to_string show_frac c)]"

definition hash_input :: "(rat \<Rightarrow> jsstr) \<Rightarrow> 'a entry_hash_fields_scheme \<Rightarrow> bytes" where
  "hash_input show_frac flds = utf8 (concat (map frameField (hash_field_texts show_frac flds)))"

definition computeEntryHash ::
  "(rat \<Rightarrow> jsstr) \<Rightarrow> (bytes \<Rightarrow> jsstr) \<Rightarrow> 'a entry_hash_fields_scheme \<Rightarrow> jsstr" where
  "computeEntryHash show_frac sha flds = sha (hash_input show_frac flds)"

section \<open>Reading frames back\<close>

text \<open>
  The decoder the comment of \<open>frameField\<close> describes: decimal digits up to the first colon,
  then exactly that many bytes. The fuel is the number of frames.
\<close>

fun parse_frames :: "nat \<Rightarrow> bytes \<Rightarrow> bytes list option" where
  "parse_frames 0 bs = (if bs = [] then Some [] else None)"
| "parse_frames (Suc k) bs =
     (let ds = takeWhile (\<lambda>b. b \<noteq> 58) bs; rest = dropWhile (\<lambda>b. b \<noteq> 58) bs;
          n = foldl (\<lambda>a d. 10 * a + (d - 48)) 0 ds in
      if rest = [] \<or> length (tl rest) < n then None
      else map_option (Cons (take n (tl rest))) (parse_frames k (drop n (tl rest))))"

text \<open>Every text the row carries is well-formed: what the writer's conditioning guarantees.\<close>

definition texts_well_formed :: "(rat \<Rightarrow> jsstr) \<Rightarrow> 'a entry_hash_fields_scheme \<Rightarrow> bool" where
  "texts_well_formed show_frac e \<longleftrightarrow> (\<forall>s \<in> set (hash_field_texts show_frac e). is_well_formed s)"

section \<open>Lemmas\<close>

lemma js_single [simp]: "js [c] = [of_char c]" "js [] = []"
  by (simp_all add: js_def)

lemma colon_code: "(of_char CHR '':'' :: u16) = 58"
  by (simp add: of_char_def)

lemma digit_ascii: "is_digit c \<Longrightarrow> unat c < 0x80"
  by (auto simp: is_digit_def word_le_nat_alt)

lemma utf8_js_of_nat: "utf8 (js_of_nat n) = map unat (js_of_nat n)"
  by (rule utf8_ascii) (auto dest: digits_js_of_nat digit_ascii)

lemma utf8_frameField:
  "utf8 (frameField s) = map unat (js_of_nat (length (utf8 s))) @ 58 # utf8 s"
proof -
  let ?n = "js_of_nat (length (utf8 s))"
  have c: "\<not> is_surrogate 58" "utf8_cp 58 = [58]"
    by (simp_all add: is_surrogate_def is_high_def is_low_def utf8_cp_def)
  have "utf8 (58 # s) = 58 # utf8 s"
    using c by (simp add: utf8_def code_points_Cons)
  moreover have "utf8 (?n @ 58 # s) = utf8 ?n @ utf8 (58 # s)"
    using c by (intro utf8_append) (simp add: is_surrogate_def)
  ultimately show ?thesis by (simp add: frameField_def colon_code utf8_js_of_nat)
qed

lemma hd_frameField: "frameField s \<noteq> []" "\<not> is_low (hd (frameField s))"
proof -
  show "frameField s \<noteq> []" by (simp add: frameField_def js_of_nat_neq_Nil)
  have "hd (frameField s) \<in> set (js_of_nat (length (utf8 s)))"
    by (simp add: frameField_def js_of_nat_neq_Nil hd_append)
  then show "\<not> is_low (hd (frameField s))"
    using digits_js_of_nat digit_not_surrogate by (auto simp: is_surrogate_def)
qed

lemma utf8_concat_frames:
  "utf8 (concat (map frameField ss)) = concat (map (\<lambda>s. utf8 (frameField s)) ss)"
proof (induction ss)
  case (Cons s ss)
  have "concat (map frameField ss) = [] \<or> \<not> is_low (hd (concat (map frameField ss)))"
    using hd_frameField by (cases ss) (simp_all add: hd_append)
  then show ?case using Cons by (simp add: utf8_append)
qed (simp add: utf8_def)

lemma digits_value:
  "foldl (\<lambda>a d. 10 * a + (d - 48)) 0 (map unat (js_of_nat n)) = n"
  using nat_of_digits_js_of_nat[of n]
  by (simp add: nat_of_digits_def foldl_map)

lemma digits_no_colon: "b \<in> set (map unat (js_of_nat n)) \<Longrightarrow> b \<noteq> 58"
  by (auto dest!: digits_js_of_nat simp: is_digit_def word_le_nat_alt)

lemma parse_frames_frames:
  "parse_frames (length ss) (concat (map (\<lambda>s. utf8 (frameField s)) ss)) = Some (map utf8 ss)"
proof (induction ss)
  case (Cons s ss)
  let ?r = "concat (map (\<lambda>s. utf8 (frameField s)) ss)"
  let ?d = "map unat (js_of_nat (length (utf8 s)))"
  have f: "utf8 (frameField s) @ ?r = ?d @ 58 # utf8 s @ ?r" by (simp add: utf8_frameField)
  have d: "\<And>b. b \<in> set ?d \<Longrightarrow> b \<noteq> 58" using digits_no_colon by blast
  have "takeWhile (\<lambda>b. b \<noteq> 58) (?d @ 58 # utf8 s @ ?r) = ?d"
    using d by (subst takeWhile_append2) auto
  moreover have "dropWhile (\<lambda>b. b \<noteq> 58) (?d @ 58 # utf8 s @ ?r) = 58 # utf8 s @ ?r"
    using d by (subst dropWhile_append2) auto
  ultimately have "parse_frames (Suc (length ss)) (?d @ 58 # utf8 s @ ?r) = Some (utf8 s # map utf8 ss)"
    unfolding parse_frames.simps Let_def using Cons.IH by (simp add: digits_value)
  then show ?case using f by simp
qed simp

lemma length_hash_field_texts: "length (hash_field_texts show_frac e) = 20"
  by (simp add: hash_field_texts_def)

lemma parse_hash_input:
  "parse_frames 20 (hash_input show_frac e) = Some (map utf8 (hash_field_texts show_frac e))"
  using parse_frames_frames[of "hash_field_texts show_frac e"]
  unfolding hash_input_def utf8_concat_frames by (simp add: length_hash_field_texts)

lemma hash_input_inj:
  assumes "texts_well_formed show_frac e" "texts_well_formed show_frac f"
    and "hash_input show_frac e = hash_input show_frac f"
  shows "hash_field_texts show_frac e = hash_field_texts show_frac f"
proof -
  have "map utf8 (hash_field_texts show_frac e) = map utf8 (hash_field_texts show_frac f)"
    using parse_hash_input[of show_frac e] parse_hash_input[of show_frac f] assms(3) by simp
  moreover have "inj_on utf8 (set (hash_field_texts show_frac e) \<union> set (hash_field_texts show_frac f))"
    by (rule inj_onI, rule utf8_inj) (use assms(1,2) in \<open>auto simp: texts_well_formed_def\<close>)
  ultimately show ?thesis by (rule map_inj_on)
qed

lemma hash_field_texts_eqD:
  assumes "hash_field_texts show_frac e = hash_field_texts show_frac f"
  shows "epochId e = epochId f" "sequenceNum e = sequenceNum f" "prevHash e = prevHash f"
    "entryId e = entryId f" "decision e = decision f" "noun e = noun f"
  using assms by (auto simp: hash_field_texts_def dest: js_of_nat_inj)

section \<open>Properties\<close>

text \<open>Framing loses nothing: from the bytes of any sequence of framed fields, whatever characters
  the fields contain, the decoder recovers exactly the UTF-8 bytes of each field.\<close>

theorem frames_roundtrip:
  "parse_frames (length ss) (utf8 (concat (map frameField ss))) = Some (map utf8 ss)"
  by (simp add: utf8_concat_frames parse_frames_frames)

text \<open>The entry hash binds every hashed field: two rows of well-formed text whose hash inputs do
  not collide under SHA-256 and whose entry hashes agree have the same twenty field texts.\<close>

theorem entry_hash_binds_fields:
  assumes "texts_well_formed sf e" "texts_well_formed sf f"
    and "inj_on sha {hash_input sf e, hash_input sf f}"
    and "computeEntryHash sf sha e = computeEntryHash sf sha f"
  shows "hash_field_texts sf e = hash_field_texts sf f"
proof -
  have "hash_input sf e = hash_input sf f"
    using inj_onD[OF assms(3) assms(4)[unfolded computeEntryHash_def]] by simp
  then show ?thesis using assms(1,2) by (intro hash_input_inj)
qed

definition ex_fields :: entry_hash_fields where
  "ex_fields = \<lparr>epochId = js ''2026-01-02'', sequenceNum = 3, prevHash = js ''ab'', entryId = js ''e1'',
     timestamp = js ''t'', userId = js ''u'', agentId = js ''a'', sessionId = js ''s'',
     origin = js ''human'', service = js ''gmail'', verb = js ''send'', noun = js ''m'',
     toolName = js ''gmail.send'', parametersMetadata = js ''{}'', decision = js ''allow'',
     outcome = js ''success'', errorMessage = None, decisionEntryId = None,
     latencyMs = JInt 5, costUsd = None\<rparr>"

theorem entry_hash_binds_fields_witness:
  "texts_well_formed (\<lambda>_. []) ex_fields \<and>
   hash_field_texts (\<lambda>_. []) ex_fields = hash_field_texts (\<lambda>_. []) (ex_fields\<lparr>errorMessage := Some []\<rparr>)"
proof -
  let ?f = "ex_fields\<lparr>errorMessage := Some []\<rparr>"
  have w: "texts_well_formed (\<lambda>_. []) ex_fields" by code_simp
  have t: "hash_field_texts (\<lambda>_. []) ex_fields = hash_field_texts (\<lambda>_. []) ?f"
    by (simp add: hash_field_texts_def ex_fields_def)
  then have wf: "texts_well_formed (\<lambda>_. []) ?f" using w by (simp add: texts_well_formed_def)
  have "hash_field_texts (\<lambda>_. []) ex_fields = hash_field_texts (\<lambda>_. []) ?f"
    by (rule entry_hash_binds_fields[where sha = "map of_nat", OF w wf])
      (simp_all add: t hash_input_def computeEntryHash_def)
  then show ?thesis using w by blast
qed

end
