(* ===== verification/VerifyChain.thy ===== *)
theory VerifyChain
  imports AuditHash
begin

text \<open>
  The chain verifier of \<open>packages/audit/src/verify-chain.ts\<close>: its types, the three rules of the
  loop as one definition each, the upper seam, and \<open>verifyChainRange\<close>. The lemmas relate the
  list of breaks to a declarative notion of an intact range, split a range into pages, and show
  what an intact range's newest hash commits to.
\<close>

section \<open>verify-chain.ts\<close>

record chain_entry = entry_hash_fields +
  hash :: jsstr
  epochPrevHash :: "jsstr option"

datatype lower_edge = LowerClosed | GenesisShaped | LowerUnchecked "(jsstr \<times> nat) option"

datatype upper_edge = UpperClosed | UpperUnchecked "(jsstr \<times> nat) option"

datatype break_kind = BEntryHash | BPrevHash | BGenesisSentinel | BEpochLink | BEpochLinkNull

record chain_break =
  b_kind :: break_kind
  b_epochId :: jsstr
  b_sequenceNum :: nat
  b_expected :: "jsstr option"
  b_actual :: "jsstr option"
  b_rowsMissing :: bool

record chain_verdict =
  entriesChecked :: nat
  epochsCovered :: "jsstr list"
  lowerEdge :: lower_edge
  upperEdge :: upper_edge
  breaks :: "chain_break list"

definition break_at ::
  "break_kind \<Rightarrow> chain_entry \<Rightarrow> jsstr option \<Rightarrow> jsstr option \<Rightarrow> bool \<Rightarrow> chain_break" where
  "break_at k e expected actual missing =
     \<lparr>b_kind = k, b_epochId = epochId e, b_sequenceNum = sequenceNum e, b_expected = expected,
      b_actual = actual, b_rowsMissing = missing\<rparr>"

text \<open>Rule 1: recompute the entry hash from the stored fields.\<close>

definition hash_rule ::
  "(rat \<Rightarrow> jsstr) \<Rightarrow> (bytes \<Rightarrow> jsstr) \<Rightarrow> chain_entry \<Rightarrow> chain_break list" where
  "hash_rule sf sha e =
     (let recomputed = computeEntryHash sf sha e in
      if recomputed \<noteq> hash e
      then [break_at BEntryHash e (Some recomputed) (Some (hash e)) False] else [])"

text \<open>Rule 2: a genesis row carries the sentinel.\<close>

definition sentinel_rule :: "chain_entry \<Rightarrow> chain_break list" where
  "sentinel_rule e =
     (if sequenceNum e = 0 \<and> prevHash e \<noteq> GENESIS_SENTINEL
      then [break_at BGenesisSentinel e (Some GENESIS_SENTINEL) (Some (prevHash e)) False] else [])"

text \<open>The link to the predecessor in the range: within an epoch, and rule 3 across epochs.\<close>

definition link_rule :: "chain_entry \<Rightarrow> chain_entry \<Rightarrow> chain_break list" where
  "link_rule prev e =
     (if epochId prev = epochId e then
        (let gap = (sequenceNum prev + 1 \<noteq> sequenceNum e) in
         if sequenceNum e \<noteq> 0 \<and> prevHash e \<noteq> hash prev
         then [break_at BPrevHash e (Some (hash prev)) (Some (prevHash e)) gap] else [])
      else if sequenceNum e = 0 then
        (case epochPrevHash e of
           None \<Rightarrow> [break_at BEpochLinkNull e (Some (hash prev)) None False]
         | Some h \<Rightarrow> if h \<noteq> hash prev
             then [break_at BEpochLink e (Some (hash prev)) (Some h) False] else [])
      else [break_at BPrevHash e None (Some (prevHash e)) True])"

text \<open>The loop: the previous entry, the epochs covered so far, the breaks found so far.\<close>

fun verify_loop ::
  "(rat \<Rightarrow> jsstr) \<Rightarrow> (bytes \<Rightarrow> jsstr) \<Rightarrow> chain_entry option \<Rightarrow> jsstr list \<Rightarrow> chain_break list
   \<Rightarrow> chain_entry list \<Rightarrow> chain_entry option \<times> jsstr list \<times> chain_break list" where
  "verify_loop sf sha prev epochs brks [] = (prev, epochs, brks)"
| "verify_loop sf sha prev epochs brks (e # es) =
     verify_loop sf sha (Some e)
       (if epochs = [] \<or> last epochs \<noteq> epochId e then epochs @ [epochId e] else epochs)
       (brks @ hash_rule sf sha e @ sentinel_rule e
          @ (case prev of None \<Rightarrow> [] | Some p \<Rightarrow> link_rule p e)) es"

text \<open>The upper seam, against the entry that follows the range.\<close>

definition seam_rule :: "chain_entry \<Rightarrow> chain_entry \<Rightarrow> chain_break list" where
  "seam_rule newest boundary =
     (if epochId boundary = epochId newest then
        (let gap = (sequenceNum newest + 1 \<noteq> sequenceNum boundary) in
         if prevHash boundary \<noteq> hash newest
         then [break_at BPrevHash boundary (Some (hash newest)) (Some (prevHash boundary)) gap]
         else [])
      else if sequenceNum boundary = 0 then
        (case epochPrevHash boundary of
           None \<Rightarrow> [break_at BEpochLinkNull boundary (Some (hash newest)) None False]
         | Some h \<Rightarrow> if h \<noteq> hash newest
             then [break_at BEpochLink boundary (Some (hash newest)) (Some h) False] else [])
      else [break_at BPrevHash boundary None (Some (prevHash boundary)) True])"

definition verifyChainRange ::
  "(rat \<Rightarrow> jsstr) \<Rightarrow> (bytes \<Rightarrow> jsstr) \<Rightarrow> chain_entry list \<Rightarrow> chain_entry option \<Rightarrow> chain_verdict" where
  "verifyChainRange sf sha entries boundaryEntry =
     (case entries of
        [] \<Rightarrow> \<lparr>entriesChecked = 0, epochsCovered = [], lowerEdge = LowerUnchecked None,
               upperEdge = UpperUnchecked None, breaks = []\<rparr>
      | oldest # _ \<Rightarrow>
        (let lower = (if sequenceNum oldest = 0 \<and> epochPrevHash oldest = None then GenesisShaped
               else LowerUnchecked (Some (epochId oldest, sequenceNum oldest)));
             (prev, epochs, brks) = verify_loop sf sha None [] [] entries;
             newest = the prev;
             (upper, seam) = (case boundaryEntry of
                 Some boundary \<Rightarrow> (UpperClosed, seam_rule newest boundary)
               | None \<Rightarrow> (UpperUnchecked (Some (epochId newest, sequenceNum newest)), []))
         in \<lparr>entriesChecked = length entries, epochsCovered = epochs, lowerEdge = lower,
             upperEdge = upper, breaks = brks @ seam\<rparr>))"

section \<open>The declarative notion of an intact range\<close>

definition row_ok :: "(rat \<Rightarrow> jsstr) \<Rightarrow> (bytes \<Rightarrow> jsstr) \<Rightarrow> chain_entry \<Rightarrow> bool" where
  "row_ok sf sha e \<longleftrightarrow> computeEntryHash sf sha e = hash e
     \<and> (sequenceNum e = 0 \<longrightarrow> prevHash e = GENESIS_SENTINEL)"

definition linked :: "chain_entry \<Rightarrow> chain_entry \<Rightarrow> bool" where
  "linked p e \<longleftrightarrow>
     (if epochId p = epochId e then sequenceNum e = 0 \<or> prevHash e = hash p
      else sequenceNum e = 0 \<and> epochPrevHash e = Some (hash p))"

fun intact :: "(rat \<Rightarrow> jsstr) \<Rightarrow> (bytes \<Rightarrow> jsstr) \<Rightarrow> chain_entry list \<Rightarrow> bool" where
  "intact sf sha [] \<longleftrightarrow> True"
| "intact sf sha [e] \<longleftrightarrow> row_ok sf sha e"
| "intact sf sha (p # e # es) \<longleftrightarrow> row_ok sf sha p \<and> linked p e \<and> intact sf sha (e # es)"

text \<open>A range of one epoch from its genesis row on, in ascending order.\<close>

definition genesis_range :: "jsstr \<Rightarrow> chain_entry list \<Rightarrow> bool" where
  "genesis_range E es \<longleftrightarrow> es \<noteq> [] \<and> sequenceNum (hd es) = 0 \<and> (\<forall>e \<in> set es. epochId e = E)
     \<and> sorted_wrt (\<lambda>a b. sequenceNum a < sequenceNum b) es"

text \<open>The breaks the loop reports, without its accumulators.\<close>

fun range_breaks ::
  "(rat \<Rightarrow> jsstr) \<Rightarrow> (bytes \<Rightarrow> jsstr) \<Rightarrow> chain_entry option \<Rightarrow> chain_entry list \<Rightarrow> chain_break list" where
  "range_breaks sf sha prev [] = []"
| "range_breaks sf sha prev (e # es) =
     hash_rule sf sha e @ sentinel_rule e @ (case prev of None \<Rightarrow> [] | Some p \<Rightarrow> link_rule p e)
     @ range_breaks sf sha (Some e) es"

section \<open>Lemmas\<close>

lemma verify_loop_breaks:
  "snd (snd (verify_loop sf sha prev epochs brks es)) = brks @ range_breaks sf sha prev es"
  by (induction es arbitrary: prev epochs brks) auto

lemma verify_loop_prev:
  "fst (verify_loop sf sha prev epochs brks es) = (if es = [] then prev else Some (last es))"
  by (induction es arbitrary: prev epochs brks) auto

lemma verify_breaks:
  "breaks (verifyChainRange sf sha es b) = range_breaks sf sha None es
     @ (case b of Some bd \<Rightarrow> if es = [] then [] else seam_rule (last es) bd | None \<Rightarrow> [])"
proof (cases es)
  case (Cons e es')
  obtain p ep br where l: "verify_loop sf sha None [] [] es = (p, ep, br)" by (metis prod_cases3)
  have "br = range_breaks sf sha None es" "p = Some (last es)"
    using verify_loop_breaks[of sf sha None "[]" "[]" es] l
      verify_loop_prev[of sf sha None "[]" "[]" es] Cons by auto
  then show ?thesis using l Cons
    by (auto simp: verifyChainRange_def Let_def split: option.splits)
qed (simp add: verifyChainRange_def split: option.splits)

lemma rules_empty:
  "hash_rule sf sha e @ sentinel_rule e = [] \<longleftrightarrow> row_ok sf sha e"
  "link_rule p e = [] \<longleftrightarrow> linked p e"
  by (auto simp: hash_rule_def sentinel_rule_def row_ok_def link_rule_def linked_def Let_def
      split: option.splits)

lemma range_breaks_empty:
  "range_breaks sf sha prev es = [] \<longleftrightarrow> intact sf sha es
     \<and> (\<forall>p e es'. prev = Some p \<longrightarrow> es = e # es' \<longrightarrow> linked p e)"
proof (induction es arbitrary: prev)
  case (Cons e es)
  have "range_breaks sf sha prev (e # es) = [] \<longleftrightarrow> row_ok sf sha e
      \<and> (\<forall>p. prev = Some p \<longrightarrow> linked p e) \<and> range_breaks sf sha (Some e) es = []"
    using rules_empty(1)[of sf sha e] rules_empty(2) by (cases prev) auto
  then show ?case using Cons.IH[of "Some e"] by (cases es) auto
qed simp

lemma no_breaks_open: "breaks (verifyChainRange sf sha es None) = [] \<longleftrightarrow> intact sf sha es"
  by (simp add: verify_breaks range_breaks_empty)

lemma intact_append:
  "intact sf sha (xs @ ys) \<longleftrightarrow> intact sf sha xs \<and> intact sf sha ys
     \<and> (xs \<noteq> [] \<longrightarrow> ys \<noteq> [] \<longrightarrow> linked (last xs) (hd ys))"
proof (induction sf sha xs rule: intact.induct)
  case (2 sf sha e)
  then show ?case by (cases ys) auto
qed auto

lemma range_breaks_append:
  "range_breaks sf sha prev (xs @ ys) = range_breaks sf sha prev xs
     @ range_breaks sf sha (if xs = [] then prev else Some (last xs)) ys"
  by (induction xs arbitrary: prev) auto

text \<open>A seam and an inner link agree except on a second genesis row of one epoch.\<close>

lemma seam_rule_link_rule:
  "\<not> (epochId b = epochId p \<and> sequenceNum b = 0) \<Longrightarrow> seam_rule p b = link_rule p b"
  by (auto simp: seam_rule_def link_rule_def)

lemma mset_range_breaks_Some:
  "mset (range_breaks sf sha (Some p) (y # ys)) =
   mset (link_rule p y) + mset (range_breaks sf sha None (y # ys))"
  by simp

lemma mset_breaks_pages:
  assumes "xs \<noteq> []" "\<not> (epochId y = epochId (last xs) \<and> sequenceNum y = 0)"
  shows "mset (breaks (verifyChainRange sf sha (xs @ y # ys) b)) =
     mset (breaks (verifyChainRange sf sha xs (Some y)))
     + mset (breaks (verifyChainRange sf sha (y # ys) b))"
  using assms
  by (simp add: verify_breaks range_breaks_append mset_range_breaks_Some seam_rule_link_rule
      split: option.splits)

text \<open>
  The newest hash of an intact range that starts at a genesis row fixes every row of its epoch:
  walk back along the equal hashes.
\<close>

lemma intact_row_ok: "intact sf sha es \<Longrightarrow> e \<in> set es \<Longrightarrow> row_ok sf sha e"
  by (induction sf sha es rule: intact.induct) auto

lemma genesis_range_snoc:
  "xs \<noteq> [] \<Longrightarrow> genesis_range E (xs @ [x]) \<longleftrightarrow> genesis_range E xs \<and> epochId x = E
     \<and> (\<forall>y \<in> set xs. sequenceNum y < sequenceNum x)"
  by (auto simp: genesis_range_def sorted_wrt_append)

lemma equal_hash_bytes:
  assumes "row_ok sf sha x" "row_ok sf sha y" "hash x = hash y"
    and "inj_on sha {hash_input sf x, hash_input sf y}"
  shows "map utf8 (hash_field_texts sf x) = map utf8 (hash_field_texts sf y)"
proof -
  have "sha (hash_input sf x) = sha (hash_input sf y)"
    using assms(1-3) by (simp add: row_ok_def computeEntryHash_def)
  then have "hash_input sf x = hash_input sf y" using inj_onD[OF assms(4)] by blast
  then show ?thesis using parse_hash_input[of sf x] parse_hash_input[of sf y] by simp
qed

lemma field_bytes_eqD:
  assumes "map utf8 (hash_field_texts sf x) = map utf8 (hash_field_texts sf y)"
  shows "sequenceNum x = sequenceNum y" "utf8 (prevHash x) = utf8 (prevHash y)"
proof -
  have "ascii (js_of_nat n)" for n using digits_js_of_nat digit_ascii by (fastforce simp: ascii_def)
  moreover have "utf8 (js_of_nat (sequenceNum x)) = utf8 (js_of_nat (sequenceNum y))"
    using assms by (simp add: hash_field_texts_def)
  ultimately show "sequenceNum x = sequenceNum y" by (metis ascii_well_formed utf8_inj js_of_nat_inj)
  show "utf8 (prevHash x) = utf8 (prevHash y)" using assms by (simp add: hash_field_texts_def)
qed

lemma genesis_seq_0: "genesis_range E [x] \<Longrightarrow> sequenceNum x = 0"
  by (simp add: genesis_range_def)

lemma genesis_seq_pos: "xs \<noteq> [] \<Longrightarrow> genesis_range E (xs @ [x]) \<Longrightarrow> 0 < sequenceNum x"
  using genesis_range_snoc[of xs E x] hd_in_set[of xs] by fastforce

lemma head_commits:
  assumes "genesis_range E xs" "genesis_range E ys" "intact sf sha xs" "intact sf sha ys"
    and "\<forall>bs. is_well_formed (sha bs)"
    and "inj_on sha (hash_input sf ` (set xs \<union> set ys))"
    and "hash (last xs) = hash (last ys)"
  shows "map (\<lambda>e. map utf8 (hash_field_texts sf e)) xs = map (\<lambda>e. map utf8 (hash_field_texts sf e)) ys"
  using assms
proof (induction xs arbitrary: ys rule: rev_induct)
  case Nil
  then show ?case by (simp add: genesis_range_def)
next
  case (snoc x xs)
  obtain y zs where ys: "ys = zs @ [y]"
    using snoc.prems(2) by (metis genesis_range_def rev_exhaust)
  have eq: "map utf8 (hash_field_texts sf x) = map utf8 (hash_field_texts sf y)"
  proof (rule equal_hash_bytes)
    show "row_ok sf sha x" "row_ok sf sha y"
      using intact_row_ok snoc.prems(3,4) ys by (metis in_set_conv_decomp)+
    show "inj_on sha {hash_input sf x, hash_input sf y}"
      by (rule inj_on_subset[OF snoc.prems(6)]) (use ys in auto)
  qed (use snoc.prems ys in auto)
  then have seq: "sequenceNum x = sequenceNum y" and ph: "utf8 (prevHash x) = utf8 (prevHash y)"
    using field_bytes_eqD by blast+
  show ?case
  proof (cases "xs = [] \<or> zs = []")
    case True
    then have "xs = [] \<and> zs = []"
      using seq snoc.prems(1,2) ys genesis_seq_0 genesis_seq_pos
      by (metis append_self_conv2 less_irrefl)
    then show ?thesis using eq ys by simp
  next
    case False
    then have g: "genesis_range E xs" "genesis_range E zs" "epochId x = E" "epochId y = E"
      and pos: "0 < sequenceNum x" "0 < sequenceNum y"
      using snoc.prems(1,2) ys genesis_range_snoc genesis_seq_pos by metis+
    have l: "intact sf sha xs" "intact sf sha zs" "linked (last xs) x" "linked (last zs) y"
      using snoc.prems(3,4) ys False by (auto simp: intact_append)
    have "epochId (last xs) = E" "epochId (last zs) = E"
      using g False by (auto simp: genesis_range_def)
    then have p: "prevHash x = hash (last xs)" "prevHash y = hash (last zs)" using l g pos by (simp_all add: linked_def)
    have "row_ok sf sha (last xs)" "row_ok sf sha (last zs)" using intact_row_ok l(1,2) False by (meson last_in_set)+
    then have "is_well_formed (hash (last xs))" "is_well_formed (hash (last zs))"
      using snoc.prems(5) by (metis computeEntryHash_def row_ok_def)+
    then have "hash (last xs) = hash (last zs)" using ph unfolding p by (rule utf8_inj)
    moreover have "inj_on sha (hash_input sf ` (set xs \<union> set zs))"
      by (rule inj_on_subset[OF snoc.prems(6)]) (use ys in auto)
    ultimately have "map (\<lambda>e. map utf8 (hash_field_texts sf e)) xs = map (\<lambda>e. map utf8 (hash_field_texts sf e)) zs"
      using snoc.IH[of zs] snoc.prems(5) ys g l by auto
    then show ?thesis using eq ys by simp
  qed
qed

section \<open>Properties\<close>

text \<open>The verifier reports no break exactly when the range is intact: every row's recomputed hash is
  the stored one, every genesis row carries the sentinel, every row is linked to its predecessor
  (by \<open>prev_hash\<close> within an epoch, by a non-null \<open>epoch_prev_hash\<close> across epochs), and the
  boundary entry, if given, follows the newest row.\<close>

theorem verify_no_breaks_iff:
  "breaks (verifyChainRange sf sha es bd) = [] \<longleftrightarrow>
     intact sf sha es
     \<and> (case bd of None \<Rightarrow> True
        | Some b \<Rightarrow> es = []
            \<or> (if epochId b = epochId (last es) then prevHash b = hash (last es)
               else sequenceNum b = 0 \<and> epochPrevHash b = Some (hash (last es))))"
  by (auto simp: verify_breaks range_breaks_empty seam_rule_def Let_def split: option.splits)


definition ex_genesis :: chain_entry where
  "ex_genesis = entry_hash_fields.extend (ex_fields\<lparr>sequenceNum := 0, prevHash := GENESIS_SENTINEL\<rparr>)
     (chain_entry.fields [] None)"

definition ex_digest :: "bytes \<Rightarrow> jsstr" where
  "ex_digest bs = map (\<lambda>b. of_nat (b mod 128)) (take 40 bs)"

lemma ex_digest_wf: "is_well_formed (ex_digest bs)"
  by (rule ascii_well_formed) (auto simp: ex_digest_def ascii_def unat_of_nat take_bit_nat_eq_self)

definition ex_sealed :: chain_entry where
  "ex_sealed = ex_genesis\<lparr>hash := computeEntryHash (\<lambda>_. []) ex_digest ex_genesis\<rparr>"

lemma ex_sealed_ok: "row_ok (\<lambda>_. []) ex_digest ex_sealed"
  by (simp add: ex_sealed_def row_ok_def ex_genesis_def entry_hash_fields.defs chain_entry.defs
      computeEntryHash_def hash_input_def hash_field_texts_def)

lemma ex_sealed_wf: "texts_well_formed (\<lambda>_. []) ex_sealed"
proof -
  have "texts_well_formed (\<lambda>_. []) ex_genesis" by code_simp
  then show ?thesis by (simp add: ex_sealed_def texts_well_formed_def hash_field_texts_def)
qed


text \<open>Checking a chain page by page finds the same breaks as checking it whole: split anywhere (except
  before a second genesis row of one epoch, which the unique index excludes), the breaks of the
  older page closed against the newer page's first row, together with those of the newer page, are
  the breaks of the whole range.\<close>

theorem verify_by_pages:
  assumes "xs \<noteq> []" "\<not> (epochId y = epochId (last xs) \<and> sequenceNum y = 0)"
  shows "mset (breaks (verifyChainRange sf sha (xs @ y # ys) b)) =
     mset (breaks (verifyChainRange sf sha xs (Some y)))
     + mset (breaks (verifyChainRange sf sha (y # ys) b))"
  using assms by (rule mset_breaks_pages)

theorem verify_by_pages_witness:
  "mset (breaks (verifyChainRange (\<lambda>_. []) (\<lambda>_. []) ([ex_genesis] @ [ex_genesis\<lparr>sequenceNum := 2\<rparr>]) None)) =
     mset (breaks (verifyChainRange (\<lambda>_. []) (\<lambda>_. []) [ex_genesis] (Some (ex_genesis\<lparr>sequenceNum := 2\<rparr>))))
     + mset (breaks (verifyChainRange (\<lambda>_. []) (\<lambda>_. []) [ex_genesis\<lparr>sequenceNum := 2\<rparr>] None))"
  using verify_by_pages[of "[ex_genesis]" "ex_genesis\<lparr>sequenceNum := 2\<rparr>" "\<lambda>_. []" "\<lambda>_. []" "[]" None]
  by simp

end
