(* ===== verification/Policy.thy ===== *)
theory Policy
  imports JsPrelude
begin

text \<open>
  The policy evaluator of \<open>packages/governance\<close>: \<open>policy.ts\<close> and
  \<open>evaluate-policy.ts\<close>. \<open>toLowerCase\<close> is an argument of the definitions, since its
  table is Unicode data: every statement holds for any case mapping. The central lemma
  characterises the answer \<open>allow\<close>; order independence and the fail-closed cases follow.
\<close>

section \<open>policy.ts\<close>

record policy_action =
  a_agent :: jsstr
  a_service :: jsstr
  a_verb :: jsstr
  a_noun :: jsstr
  a_toolName :: jsstr
  a_params :: "(jsstr \<times> json) list"

datatype policy_source = Session | Task | Standing

datatype entry_decision = EAllow | EDeny

record policy_entry =
  e_id :: jsstr
  e_source :: policy_source
  e_sessionId :: "jsstr option"
  e_service :: jsstr
  e_verb :: jsstr
  e_noun :: jsstr
  e_decision :: entry_decision
  e_priority :: jsnum
  e_createdAt :: jsstr
  e_expiresAt :: "jsstr option"

datatype decision = Allow | Deny | Pending

datatype decision_source = FromEntry policy_source | Malformed | Implicit

record policy_decision =
  pd_decision :: decision
  pd_source :: decision_source
  pd_entryId :: "jsstr option"

definition WILDCARD_DENY_ID :: jsstr where
  "WILDCARD_DENY_ID = js ''default-deny''"

section \<open>evaluate-policy.ts\<close>

abbreviation star :: jsstr where
  "star \<equiv> js ''*''"

definition entryMatch :: "(jsstr \<Rightarrow> jsstr) \<Rightarrow> policy_entry \<Rightarrow> policy_action \<Rightarrow> bool" where
  "entryMatch toLowerCase entry action =
     (let allowsWildcard = (e_decision entry = EDeny) in
      if (if e_service entry = star then \<not> allowsWildcard
          else e_service entry \<noteq> a_service action) then False
      else if (if e_verb entry = star then \<not> allowsWildcard
          else e_verb entry \<noteq> a_verb action) then False
      else if (if e_noun entry = star then \<not> allowsWildcard
          else toLowerCase (e_noun entry) \<noteq> toLowerCase (a_noun action)) then False
      else True)"

definition denyRank :: "policy_entry \<Rightarrow> rat" where
  "denyRank e = (if e_decision e = EDeny then 0 else 1)"

text \<open>The comparator of the sort; it is only used on finite priorities.\<close>

definition compareEntries :: "policy_entry \<Rightarrow> policy_entry \<Rightarrow> rat" where
  "compareEntries a b =
     (if num_val (e_priority b) \<noteq> num_val (e_priority a)
      then num_val (e_priority b) - num_val (e_priority a)
      else denyRank a - denyRank b)"

fun decision_of :: "entry_decision \<Rightarrow> decision" where
  "decision_of EAllow = Allow"
| "decision_of EDeny = Deny"

definition evaluatePolicy ::
  "(jsstr \<Rightarrow> jsstr) \<Rightarrow> policy_entry list \<Rightarrow> policy_action \<Rightarrow> policy_decision" where
  "evaluatePolicy toLowerCase entries action =
     (let matched = filter (\<lambda>e. entryMatch toLowerCase e action) entries in
      if \<exists>e \<in> set matched. \<not> is_finite_num (e_priority e)
      then \<lparr>pd_decision = Deny, pd_source = Malformed, pd_entryId = None\<rparr>
      else (case js_sort compareEntries matched of
        [] \<Rightarrow> \<lparr>pd_decision = Deny, pd_source = Implicit, pd_entryId = None\<rparr>
      | match # _ \<Rightarrow> \<lparr>pd_decision = decision_of (e_decision match),
          pd_source = FromEntry (e_source match), pd_entryId = Some (e_id match)\<rparr>))"

text \<open>What an allow entry has to be to cover an action: the same scope, no wildcard.\<close>

definition exact_scope :: "(jsstr \<Rightarrow> jsstr) \<Rightarrow> policy_entry \<Rightarrow> policy_action \<Rightarrow> bool" where
  "exact_scope lc e a \<longleftrightarrow>
     e_service e = a_service a \<and> e_verb e = a_verb a \<and> lc (e_noun e) = lc (a_noun a)
     \<and> e_service e \<noteq> star \<and> e_verb e \<noteq> star \<and> e_noun e \<noteq> star"

text \<open>The specification of the answer: no matching entry is corrupt, and some exact allow outranks
  every matching deny.\<close>

definition allow_wins :: "(jsstr \<Rightarrow> jsstr) \<Rightarrow> policy_entry list \<Rightarrow> policy_action \<Rightarrow> bool" where
  "allow_wins lc es a \<longleftrightarrow>
     (\<forall>e \<in> set es. entryMatch lc e a \<longrightarrow> is_finite_num (e_priority e)) \<and>
     (\<exists>e \<in> set es. e_decision e = EAllow \<and> exact_scope lc e a \<and>
        (\<forall>d \<in> set es. e_decision d = EDeny \<longrightarrow> entryMatch lc d a
           \<longrightarrow> num_val (e_priority d) < num_val (e_priority e)))"

section \<open>Lemmas\<close>

lemma entryMatch_allow:
  "e_decision e = EAllow \<Longrightarrow> entryMatch lc e a \<longleftrightarrow> exact_scope lc e a"
  by (auto simp: entryMatch_def exact_scope_def)

lemma entryMatch_deny:
  "e_decision e = EDeny \<Longrightarrow> entryMatch lc e a \<longleftrightarrow>
     (e_service e = star \<or> e_service e = a_service a) \<and> (e_verb e = star \<or> e_verb e = a_verb a)
     \<and> (e_noun e = star \<or> lc (e_noun e) = lc (a_noun a))"
  by (auto simp: entryMatch_def)

lemma compareEntries_total: "compareEntries a b \<le> 0 \<or> compareEntries b a \<le> 0"
  by (auto simp: compareEntries_def denyRank_def)

lemma compareEntries_trans:
  "compareEntries a b \<le> 0 \<Longrightarrow> compareEntries b c \<le> 0 \<Longrightarrow> compareEntries a c \<le> 0"
  by (auto simp: compareEntries_def denyRank_def split: if_splits)

lemma compareEntries_le_iff:
  "compareEntries a b \<le> 0 \<longleftrightarrow>
     num_val (e_priority b) < num_val (e_priority a)
     \<or> num_val (e_priority b) = num_val (e_priority a)
       \<and> (e_decision a = EDeny \<or> e_decision b = EAllow)"
  by (cases "e_decision a"; cases "e_decision b") (auto simp: compareEntries_def denyRank_def)

lemma hd_sorted_entries:
  "e \<in> set ms \<Longrightarrow> compareEntries (hd (js_sort compareEntries ms)) e \<le> 0"
  using compareEntries_total compareEntries_trans by (rule hd_js_sort_le)

text \<open>The winning entry: it matches, its priority is maximal, and a deny wins a tie.\<close>

lemma evaluatePolicy_cases:
  obtains (malformed) e where "e \<in> set es" "entryMatch lc e a" "\<not> is_finite_num (e_priority e)"
      "evaluatePolicy lc es a = \<lparr>pd_decision = Deny, pd_source = Malformed, pd_entryId = None\<rparr>"
  | (implicit) "\<forall>e \<in> set es. \<not> entryMatch lc e a"
      "evaluatePolicy lc es a = \<lparr>pd_decision = Deny, pd_source = Implicit, pd_entryId = None\<rparr>"
  | (matched) m where "m \<in> set es" "entryMatch lc m a"
      "\<forall>e \<in> set es. entryMatch lc e a \<longrightarrow> is_finite_num (e_priority e)"
      "\<forall>e \<in> set es. entryMatch lc e a \<longrightarrow> compareEntries m e \<le> 0"
      "evaluatePolicy lc es a = \<lparr>pd_decision = decision_of (e_decision m),
          pd_source = FromEntry (e_source m), pd_entryId = Some (e_id m)\<rparr>"
proof -
  let ?ms = "filter (\<lambda>e. entryMatch lc e a) es"
  consider "\<exists>e \<in> set ?ms. \<not> is_finite_num (e_priority e)"
    | "\<forall>e \<in> set ?ms. is_finite_num (e_priority e)" "?ms = []"
    | "\<forall>e \<in> set ?ms. is_finite_num (e_priority e)" "?ms \<noteq> []"
    by blast
  then show ?thesis
  proof cases
    case 1
    then show ?thesis using malformed by (auto simp: evaluatePolicy_def)
  next
    case 2
    then show ?thesis using implicit by (auto simp: evaluatePolicy_def filter_empty_conv)
  next
    case 3
    let ?s = "js_sort compareEntries ?ms"
    have "?s \<noteq> []" using 3 by (metis set_empty set_js_sort)
    then obtain m s where ms: "?s = m # s" by (meson neq_Nil_conv)
    then have "m \<in> set ?ms" by (metis list.set_intros(1) set_js_sort)
    moreover have "compareEntries m e \<le> 0" if "e \<in> set ?ms" for e
      using hd_sorted_entries[OF that] ms by simp
    moreover have "evaluatePolicy lc es a = \<lparr>pd_decision = decision_of (e_decision m),
          pd_source = FromEntry (e_source m), pd_entryId = Some (e_id m)\<rparr>"
      using 3 ms by (simp add: evaluatePolicy_def)
    ultimately show ?thesis using matched 3(1) by auto
  qed
qed

lemma evaluatePolicy_allow_wins:
  "pd_decision (evaluatePolicy lc es a) = Allow \<longleftrightarrow> allow_wins lc es a"
proof (cases lc es a rule: evaluatePolicy_cases)
  case (malformed e)
  then show ?thesis by (auto simp: allow_wins_def)
next
  case implicit
  then show ?thesis by (auto simp: allow_wins_def entryMatch_allow)
next
  case (matched m)
  show ?thesis
  proof (cases "e_decision m")
    case EAllow
    have "\<forall>d \<in> set es. e_decision d = EDeny \<longrightarrow> entryMatch lc d a
        \<longrightarrow> num_val (e_priority d) < num_val (e_priority m)"
      using matched(4) EAllow by (auto simp: compareEntries_le_iff)
    then have "allow_wins lc es a"
      using matched(1-3) EAllow entryMatch_allow[of m lc a] unfolding allow_wins_def by blast
    then show ?thesis using matched EAllow by simp
  next
    case EDeny
    have "\<not> allow_wins lc es a"
      using matched EDeny entryMatch_allow compareEntries_le_iff
      unfolding allow_wins_def by (metis entry_decision.distinct(1) less_asym less_irrefl)
    then show ?thesis using matched EDeny by simp
  qed
qed

section \<open>Properties\<close>

text \<open>C32: An action is allowed exactly when no matching entry has a corrupt priority and some allow
  entry with exactly the action's scope (no wildcard) outranks every matching deny entry.\<close>

theorem policy_allow_iff:
  "pd_decision (evaluatePolicy lc es a) = Allow \<longleftrightarrow>
     (\<forall>e \<in> set es. entryMatch lc e a \<longrightarrow> is_finite_num (e_priority e)) \<and>
     (\<exists>e \<in> set es. e_decision e = EAllow
        \<and> e_service e = a_service a \<and> e_verb e = a_verb a \<and> lc (e_noun e) = lc (a_noun a)
        \<and> e_service e \<noteq> star \<and> e_verb e \<noteq> star \<and> e_noun e \<noteq> star
        \<and> (\<forall>d \<in> set es. e_decision d = EDeny \<longrightarrow> entryMatch lc d a
              \<longrightarrow> num_val (e_priority d) < num_val (e_priority e)))"
  unfolding evaluatePolicy_allow_wins allow_wins_def exact_scope_def by blast

definition ex_floor :: policy_entry where
  "ex_floor = \<lparr>e_id = WILDCARD_DENY_ID, e_source = Standing, e_sessionId = None, e_service = star,
     e_verb = star, e_noun = star, e_decision = EDeny, e_priority = JInt 0,
     e_createdAt = js ''t0'', e_expiresAt = None\<rparr>"

definition ex_grant :: policy_entry where
  "ex_grant = \<lparr>e_id = js ''g1'', e_source = Task, e_sessionId = Some (js ''s1''),
     e_service = js ''gmail'', e_verb = js ''send'', e_noun = js ''mail'', e_decision = EAllow,
     e_priority = JInt 10, e_createdAt = js ''t1'', e_expiresAt = None\<rparr>"

definition ex_action :: policy_action where
  "ex_action = \<lparr>a_agent = js ''main'', a_service = js ''gmail'', a_verb = js ''send'',
     a_noun = js ''mail'', a_toolName = js ''gmail.send'', a_params = []\<rparr>"

theorem policy_allow_iff_witness:
  "pd_decision (evaluatePolicy id [ex_floor, ex_grant] ex_action) = Allow
   \<and> (\<exists>e \<in> set [ex_floor, ex_grant]. e_decision e = EAllow \<and> e_service e = a_service ex_action)"
proof -
  have "pd_decision (evaluatePolicy id [ex_floor, ex_grant] ex_action) = Allow" by code_simp
  then show ?thesis using policy_allow_iff[of id "[ex_floor, ex_grant]" ex_action] by blast
qed

text \<open>The decision does not depend on the order in which the caller lists the entries.\<close>

theorem policy_order_independent:
  assumes "mset es = mset es'"
  shows "pd_decision (evaluatePolicy lc es a) = pd_decision (evaluatePolicy lc es' a)"
proof -
  have s: "set es = set es'" using assms by (metis set_mset_mset)
  have "pd_decision (evaluatePolicy lc xs a) \<in> {Allow, Deny}" for xs
    by (cases lc xs a rule: evaluatePolicy_cases)
      (auto, metis decision_of.simps entry_decision.exhaust)
  then show ?thesis
    using evaluatePolicy_allow_wins[of lc es a] evaluatePolicy_allow_wins[of lc es' a] s
    unfolding allow_wins_def by (metis insertE singletonD)
qed

theorem policy_order_independent_witness:
  "mset [ex_floor, ex_grant] = mset [ex_grant, ex_floor]
   \<and> pd_decision (evaluatePolicy id [ex_grant, ex_floor] ex_action) = Allow"
proof -
  have m: "mset [ex_floor, ex_grant] = mset [ex_grant, ex_floor]" by simp
  have "pd_decision (evaluatePolicy id [ex_floor, ex_grant] ex_action) = Allow" by code_simp
  then show ?thesis using policy_order_independent[OF m, of id ex_action] m by simp
qed

end
