(* ===== verification/Json.thy ===== *)
theory Json
  imports AuditHash
begin

text \<open>
  \<open>JSON.stringify\<close> of the standard library on plain data (no \<open>toJSON\<close>, no indentation): the text
  the audit writer stores as metadata and the reference the byte counter of the model budget is
  compared with.
\<close>

section \<open>JSON.stringify\<close>

definition hex_digit :: "nat \<Rightarrow> u16" where
  "hex_digit n = (if n < 10 then of_nat (48 + n) else of_nat (87 + n))"

definition unicode_escape :: "u16 \<Rightarrow> jsstr" where
  "unicode_escape c =
     [92, 117, hex_digit (unat c div 4096), hex_digit (unat c div 256 mod 16),
      hex_digit (unat c div 16 mod 16), hex_digit (unat c mod 16)]"

definition escape_unit :: "u16 \<Rightarrow> jsstr" where
  "escape_unit c =
     (if c = 34 then [92, 34] else if c = 92 then [92, 92] else if c = 8 then [92, 98]
      else if c = 9 then [92, 116] else if c = 10 then [92, 110] else if c = 12 then [92, 102]
      else if c = 13 then [92, 114] else if unat c < 32 then unicode_escape c
      else if is_surrogate c then unicode_escape c else [c])"

fun escape_units :: "jsstr \<Rightarrow> jsstr" where
  "escape_units [] = []"
| "escape_units [c] = escape_unit c"
| "escape_units (c # d # s) =
     (if is_high c \<and> is_low d then c # d # escape_units s else escape_unit c @ escape_units (d # s))"

definition json_quote :: "jsstr \<Rightarrow> jsstr" where
  "json_quote s = [34] @ escape_units s @ [34]"

fun commas :: "jsstr list \<Rightarrow> jsstr" where
  "commas [] = []"
| "commas [x] = x"
| "commas (x # y # xs) = x @ [44] @ commas (y # xs)"

fun stringify :: "(rat \<Rightarrow> jsstr) \<Rightarrow> json \<Rightarrow> jsstr" where
  "stringify sf JNull = js ''null''"
| "stringify sf (JBool b) = (if b then js ''true'' else js ''false'')"
| "stringify sf (JNum n) = (if is_finite_num n then num_to_string sf n else js ''null'')"
| "stringify sf (JStr s) = json_quote s"
| "stringify sf (JArr xs) = [91] @ commas (map (stringify sf) xs) @ [93]"
| "stringify sf (JObj ms) =
     [123] @ commas (map (\<lambda>m. json_quote (fst m) @ [58] @ stringify sf (snd m)) ms) @ [125]"

end
