(* ===== verification/AuditLog.thy ===== *)
theory AuditLog
  imports VerifyChain Policy Json
begin

text \<open>
  The \<open>audit_log\<close> table and its helpers, \<open>packages/engine/src/data/helpers/audit-log.ts\<close>. The
  table is the list of its rows in insertion order; \<open>parameters_content\<close> is always NULL and no
  query reads it, so a row is a \<open>chain_entry\<close>. SQLite compares TEXT by its UTF-8 bytes, JavaScript
  by UTF-16 code units: both orders occur in the code and in the model. The clock and
  \<open>crypto.randomUUID()\<close> are arguments. The lemmas show that the writer keeps the chain intact
  under a clock that may run backwards, and that an inferred closer is never a second one.
\<close>

section \<open>audit-log.ts\<close>

datatype audit_origin = Human | McpCommission

datatype audit_outcome = Success | ErrorOutcome | Timeout

record audit_params =
  p_userId :: jsstr
  p_agentId :: jsstr
  p_sessionId :: jsstr
  p_toolName :: jsstr
  p_service :: jsstr
  p_verb :: jsstr
  p_noun :: jsstr
  p_decision :: decision
  p_origin :: "audit_origin option"
  p_parametersMetadata :: "(jsstr \<times> json) list"
  p_outcome :: audit_outcome
  p_errorMessage :: "jsstr option"
  p_latencyMs :: jsnum
  p_costUsd :: "jsnum option"
  p_epochId :: "jsstr option"
  p_timestamp :: "jsstr option"

datatype closer_basis = Observed | Inferred

record audit_entry_result =
  r_id :: jsstr
  r_hash :: jsstr
  r_epochId :: jsstr
  r_sequenceNum :: nat

text \<open>What the writer takes from outside: number printing, SHA-256, the date, the instant, a UUID.\<close>

record audit_env =
  show_frac :: "rat \<Rightarrow> jsstr"
  sha :: "bytes \<Rightarrow> jsstr"
  today :: jsstr
  now :: jsstr
  uuid :: jsstr

type_synonym audit_log = "chain_entry list"

fun decision_text :: "decision \<Rightarrow> jsstr" where
  "decision_text Allow = js ''allow''"
| "decision_text Deny = js ''deny''"
| "decision_text Pending = js ''pending''"

fun outcome_text :: "audit_outcome \<Rightarrow> jsstr" where
  "outcome_text Success = js ''success''"
| "outcome_text ErrorOutcome = js ''error''"
| "outcome_text Timeout = js ''timeout''"

fun origin_text :: "audit_origin \<Rightarrow> jsstr" where
  "origin_text Human = js ''human''"
| "origin_text McpCommission = js ''mcp_commission''"

text \<open>\<open>SELECT MAX(epoch_id)\<close>: the largest by SQLite's order.\<close>

definition max_epoch :: "audit_log \<Rightarrow> jsstr option" where
  "max_epoch rows = map_option epochId (first_row (order_desc (\<lambda>r. utf8 (epochId r)) rows))"

definition deriveMonotonicEpochId :: "audit_env \<Rightarrow> audit_log \<Rightarrow> jsstr" where
  "deriveMonotonicEpochId env rows =
     (case max_epoch rows of
        Some maxStored \<Rightarrow> if maxStored > today env then maxStored else today env
      | None \<Rightarrow> today env)"

text \<open>The chain's own total order \<open>(epoch_id, sequence_num)\<close>.\<close>

definition chain_key :: "'a entry_hash_fields_scheme \<Rightarrow> bytes \<times> nat" where
  "chain_key r = (utf8 (epochId r), sequenceNum r)"

text \<open>Lines 133-163: every string conditioned once, with the prior row still to be read.\<close>

definition conditioned_row ::
  "audit_env \<Rightarrow> audit_params \<Rightarrow> jsstr option \<Rightarrow> jsstr \<Rightarrow> chain_entry" where
  "conditioned_row env params decisionEntry epoch =
     \<lparr>epochId = wellFormed epoch, sequenceNum = 0, prevHash = GENESIS_SENTINEL,
      entryId = wellFormed (uuid env),
      timestamp = wellFormed (case p_timestamp params of Some t \<Rightarrow> t | None \<Rightarrow> now env),
      userId = wellFormed (p_userId params), agentId = wellFormed (p_agentId params),
      sessionId = wellFormed (p_sessionId params),
      origin = wellFormed (origin_text (case p_origin params of Some u \<Rightarrow> u | None \<Rightarrow> Human)),
      service = wellFormed (p_service params), verb = wellFormed (p_verb params),
      noun = wellFormed (p_noun params), toolName = wellFormed (p_toolName params),
      parametersMetadata =
        wellFormed (stringify (show_frac env) (JObj (p_parametersMetadata params))),
      decision = wellFormed (decision_text (p_decision params)),
      outcome = wellFormed (outcome_text (p_outcome params)),
      errorMessage = map_option wellFormed (p_errorMessage params),
      decisionEntryId = map_option wellFormed decisionEntry,
      latencyMs = p_latencyMs params, costUsd = p_costUsd params,
      hash = [], epochPrevHash = None\<rparr>"

text \<open>The INSERT with the table's constraints: PRIMARY KEY id, UNIQUE (epoch_id, sequence_num).\<close>

definition insert_audit_row :: "chain_entry \<Rightarrow> audit_log \<Rightarrow> sql_error + audit_log" where
  "insert_audit_row =
     insert_row (\<lambda>r row. entryId r = entryId row
         \<or> epochId r = epochId row \<and> sequenceNum r = sequenceNum row)"

text \<open>Lines 165-186: the last row of the epoch, or a new epoch linked to the last row overall.\<close>

definition link_to_prior :: "audit_log \<Rightarrow> chain_entry \<Rightarrow> chain_entry" where
  "link_to_prior rows text =
     (case first_row (order_desc sequenceNum (filter (\<lambda>r. epochId r = epochId text) rows)) of
        Some l \<Rightarrow> text\<lparr>prevHash := hash l, sequenceNum := sequenceNum l + 1\<rparr>
      | None \<Rightarrow> text\<lparr>prevHash := GENESIS_SENTINEL, sequenceNum := 0,
          epochPrevHash := map_option hash (first_row (order_desc chain_key rows))\<rparr>)"

definition new_row :: "audit_env \<Rightarrow> audit_params \<Rightarrow> jsstr option \<Rightarrow> audit_log \<Rightarrow> chain_entry" where
  "new_row env params decisionEntry rows =
     (let epoch = (case p_epochId params of Some e \<Rightarrow> e | None \<Rightarrow> deriveMonotonicEpochId env rows);
          row = link_to_prior rows (conditioned_row env params decisionEntry epoch)
      in row\<lparr>hash := computeEntryHash (show_frac env) (sha env) row\<rparr>)"

definition insertRow ::
  "audit_env \<Rightarrow> audit_params \<Rightarrow> jsstr option \<Rightarrow> audit_log
   \<Rightarrow> sql_error + audit_entry_result \<times> audit_log" where
  "insertRow env params decisionEntry rows =
     (let row = new_row env params decisionEntry rows in
      try_bind (insert_audit_row row rows)
        (\<lambda>rows'. Inr (\<lparr>r_id = entryId row, r_hash = hash row, r_epochId = epochId row,
                        r_sequenceNum = sequenceNum row\<rparr>, rows')))"

definition insertAuditEntryInTxn ::
  "audit_env \<Rightarrow> audit_params \<Rightarrow> audit_log \<Rightarrow> sql_error + audit_entry_result \<times> audit_log" where
  "insertAuditEntryInTxn env params rows = insertRow env params None rows"

definition hasCloserInTxn :: "audit_log \<Rightarrow> jsstr \<Rightarrow> bool" where
  "hasCloserInTxn rows d \<longleftrightarrow> length (take 1 (filter (\<lambda>r. decisionEntryId r = Some d) rows)) > 0"

definition closeDecisionEntryInTxn ::
  "audit_env \<Rightarrow> audit_params \<Rightarrow> jsstr \<Rightarrow> closer_basis \<Rightarrow> audit_log
   \<Rightarrow> sql_error + audit_entry_result option \<times> audit_log" where
  "closeDecisionEntryInTxn env params d basis rows =
     (if basis = Inferred \<and> hasCloserInTxn rows d then Inr (None, rows)
      else try_bind (insertRow env params (Some d) rows) (\<lambda>(r, rows'). Inr (Some r, rows')))"

record audit_identity =
  i_userId :: jsstr
  i_agentId :: jsstr
  i_sessionId :: jsstr
  i_toolName :: jsstr
  i_service :: jsstr
  i_verb :: jsstr
  i_noun :: jsstr
  i_origin :: jsstr

definition readAuditEntryIdentity :: "audit_log \<Rightarrow> jsstr \<Rightarrow> audit_identity option" where
  "readAuditEntryIdentity rows entry =
     map_option (\<lambda>r. \<lparr>i_userId = userId r, i_agentId = agentId r, i_sessionId = sessionId r,
         i_toolName = toolName r, i_service = service r, i_verb = verb r, i_noun = noun r,
         i_origin = origin r\<rparr>)
       (first_row (filter (\<lambda>r. entryId r = entry) rows))"

definition selectRecentAuditEntries :: "audit_log \<Rightarrow> nat \<Rightarrow> chain_entry list" where
  "selectRecentAuditEntries rows limit = take limit (order_desc chain_key rows)"

definition selectAuditChainPage ::
  "audit_log \<Rightarrow> nat \<Rightarrow> (bytes \<times> nat) option \<Rightarrow> chain_entry list" where
  "selectAuditChainPage rows limit before =
     (case before of
        Some b \<Rightarrow> take limit (order_desc chain_key (filter (\<lambda>r. chain_key r < b) rows))
      | None \<Rightarrow> take limit (order_desc chain_key rows))"

definition readSessionStartIdentity :: "audit_log \<Rightarrow> jsstr \<Rightarrow> (jsstr \<times> jsstr \<times> jsstr) option" where
  "readSessionStartIdentity rows s =
     map_option (\<lambda>r. (userId r, agentId r, origin r))
       (first_row (filter (\<lambda>r. sessionId r = s \<and> toolName r = js ''session.start'') rows))"

section \<open>Logs the two exported writes can produce\<close>

text \<open>
  One write under any clock reading and UUID; printing and hash function stay the same. The test
  affordance of an explicit epoch is left out.
\<close>

inductive audit_write ::
  "(rat \<Rightarrow> jsstr) \<Rightarrow> (bytes \<Rightarrow> jsstr) \<Rightarrow> audit_log \<Rightarrow> audit_log \<Rightarrow> bool" for sf h where
  entry: "show_frac env = sf \<Longrightarrow> sha env = h \<Longrightarrow> ascii (today env) \<Longrightarrow> p_epochId ps = None \<Longrightarrow>
     insertAuditEntryInTxn env ps rows = Inr (r, rows') \<Longrightarrow> audit_write sf h rows rows'"
| close: "show_frac env = sf \<Longrightarrow> sha env = h \<Longrightarrow> ascii (today env) \<Longrightarrow> p_epochId ps = None \<Longrightarrow>
     closeDecisionEntryInTxn env ps d basis rows = Inr (res, rows') \<Longrightarrow> audit_write sf h rows rows'"

inductive audit_reachable :: "(rat \<Rightarrow> jsstr) \<Rightarrow> (bytes \<Rightarrow> jsstr) \<Rightarrow> audit_log \<Rightarrow> bool" for sf h where
  no_rows: "audit_reachable sf h []"
| more: "audit_reachable sf h rows \<Longrightarrow> audit_write sf h rows rows' \<Longrightarrow> audit_reachable sf h rows'"

definition log_inv :: "(rat \<Rightarrow> jsstr) \<Rightarrow> (bytes \<Rightarrow> jsstr) \<Rightarrow> audit_log \<Rightarrow> bool" where
  "log_inv sf h rows \<longleftrightarrow> intact sf h rows \<and> sorted_wrt (\<lambda>a b. chain_key a < chain_key b) rows
     \<and> distinct (map entryId rows) \<and> (\<forall>r \<in> set rows. ascii (epochId r))"

text \<open>How many rows close a decision entry.\<close>

definition closer_count :: "audit_log \<Rightarrow> jsstr \<Rightarrow> nat" where
  "closer_count rows d = length (filter (\<lambda>r. decisionEntryId r = Some d) rows)"

section \<open>Lemmas\<close>

subsection \<open>Dates\<close>

lemma wellFormed_ascii: "ascii s \<Longrightarrow> wellFormed s = s"
  by (simp add: wellFormed_def ascii_well_formed to_well_formed_id)

lemma max_epoch_ge:
  "max_epoch rows = Some m \<Longrightarrow> m \<in> epochId ` set rows \<and> (\<forall>r \<in> set rows. utf8 (epochId r) \<le> utf8 m)"
  by (auto simp: max_epoch_def dest!: first_row_order_desc)

lemma max_epoch_None: "max_epoch rows = None \<longleftrightarrow> rows = []"
  by (simp add: max_epoch_def sql_simps)

text \<open>The epoch of a write is at or after every stored epoch, whatever the clock says.\<close>

lemma derived_epoch:
  assumes "ascii (today env)" "\<forall>r \<in> set rows. ascii (epochId r)"
  shows "ascii (deriveMonotonicEpochId env rows)"
    and "\<forall>r \<in> set rows. utf8 (epochId r) \<le> utf8 (deriveMonotonicEpochId env rows)"
proof -
  have "ascii (deriveMonotonicEpochId env rows)
    \<and> (\<forall>r \<in> set rows. utf8 (epochId r) \<le> utf8 (deriveMonotonicEpochId env rows))"
  proof (cases "max_epoch rows")
    case None
    then have "rows = []" by (simp add: max_epoch_None)
    then show ?thesis using None assms(1) by (simp add: deriveMonotonicEpochId_def)
  next
    case (Some m)
    have m: "ascii m" "\<forall>r \<in> set rows. utf8 (epochId r) \<le> utf8 m"
      using max_epoch_ge[OF Some] assms(2) by auto
    moreover have "\<not> m > today env \<Longrightarrow> utf8 m \<le> utf8 (today env)"
      using m(1) assms(1) by (simp add: utf8_le_ascii)
    ultimately show ?thesis
      using Some assms(1) by (auto simp: deriveMonotonicEpochId_def intro: order_trans)
  qed
  then show "ascii (deriveMonotonicEpochId env rows)"
    and "\<forall>r \<in> set rows. utf8 (epochId r) \<le> utf8 (deriveMonotonicEpochId env rows)" by auto
qed

subsection \<open>One write\<close>

lemma computeEntryHash_hash_update [simp]:
  "computeEntryHash sf h (r\<lparr>hash := x\<rparr>) = computeEntryHash sf h r"
  by (simp add: computeEntryHash_def hash_input_def hash_field_texts_def)

lemma insertRow_Inr:
  assumes "insertRow env ps d rows = Inr (res, rows')"
  shows "rows' = rows @ [new_row env ps d rows]"
    and "entryId (new_row env ps d rows) \<notin> entryId ` set rows"
    and "r_id res = entryId (new_row env ps d rows)"
  using assms by (auto simp: insertRow_def Let_def try_bind_def insert_audit_row_def insert_row_def split: if_splits)

lemma link_to_prior_fields [simp]:
  "epochId (link_to_prior rows t) = epochId t" "entryId (link_to_prior rows t) = entryId t"
  "decisionEntryId (link_to_prior rows t) = decisionEntryId t"
  by (simp_all add: link_to_prior_def split: option.split)

lemma link_to_prior_link:
  "epochPrevHash t = None \<Longrightarrow> sequenceNum (link_to_prior rows t) =
     (case first_row (order_desc sequenceNum (filter (\<lambda>r. epochId r = epochId t) rows)) of
        Some l \<Rightarrow> sequenceNum l + 1 | None \<Rightarrow> 0)"
  "epochPrevHash t = None \<Longrightarrow> prevHash (link_to_prior rows t) =
     (case first_row (order_desc sequenceNum (filter (\<lambda>r. epochId r = epochId t) rows)) of
        Some l \<Rightarrow> hash l | None \<Rightarrow> GENESIS_SENTINEL)"
  "epochPrevHash t = None \<Longrightarrow> epochPrevHash (link_to_prior rows t) =
     (case first_row (order_desc sequenceNum (filter (\<lambda>r. epochId r = epochId t) rows)) of
        Some l \<Rightarrow> None | None \<Rightarrow> map_option hash (first_row (order_desc chain_key rows)))"
  by (simp_all add: link_to_prior_def split: option.split)

lemma conditioned_row_prev [simp]: "epochPrevHash (conditioned_row env ps d e) = None"
  by (simp add: conditioned_row_def)

lemma new_row_link:
  fixes env ps d rows
  defines "row \<equiv> new_row env ps d rows"
  shows "sequenceNum row =
     (case first_row (order_desc sequenceNum (filter (\<lambda>r. epochId r = epochId row) rows)) of
        Some l \<Rightarrow> sequenceNum l + 1 | None \<Rightarrow> 0)"
  "prevHash row =
     (case first_row (order_desc sequenceNum (filter (\<lambda>r. epochId r = epochId row) rows)) of
        Some l \<Rightarrow> hash l | None \<Rightarrow> GENESIS_SENTINEL)"
  "epochPrevHash row =
     (case first_row (order_desc sequenceNum (filter (\<lambda>r. epochId r = epochId row) rows)) of
        Some l \<Rightarrow> None | None \<Rightarrow> map_option hash (first_row (order_desc chain_key rows)))"
  unfolding row_def by (simp_all add: new_row_def Let_def link_to_prior_link)

lemma new_row_fields [simp]:
  "p_epochId ps = None \<Longrightarrow> epochId (new_row env ps d rows) = wellFormed (deriveMonotonicEpochId env rows)"
  "entryId (new_row env ps d rows) = wellFormed (uuid env)"
  "decisionEntryId (new_row env ps d rows) = map_option wellFormed d"
  by (simp_all add: new_row_def conditioned_row_def Let_def)

lemma new_row_hash:
  "hash (new_row env ps d rows) = computeEntryHash (show_frac env) (sha env) (new_row env ps d rows)"
  by (simp add: new_row_def Let_def)

lemma row_ok_new_row: "row_ok (show_frac env) (sha env) (new_row env ps d rows)"
  using new_row_link(1,2)[of env ps d rows]
  by (auto simp: row_ok_def new_row_hash[symmetric] split: option.splits)

lemma last_maximal:
  fixes key :: "'r \<Rightarrow> 'k::linorder"
  assumes "sorted_wrt (\<lambda>a b. key a < key b) rows" "r \<in> set rows" "\<forall>x \<in> set rows. key x \<le> key r"
  shows "r = last rows"
proof -
  obtain ys l where rows: "rows = ys @ [l]" using assms(2) by (metis empty_iff empty_set rev_exhaust)
  then show ?thesis using assms by (auto simp: sorted_wrt_append leD)
qed

text \<open>
  Where a write lands: after the last row, in its epoch with the next sequence number and its
  hash, or at the start of a later epoch with the link to its hash.
\<close>

lemma new_row_position:
  fixes d
  assumes inv: "log_inv sf h rows" and t: "ascii (today env)" and e: "p_epochId ps = None"
  defines "row \<equiv> new_row env ps d rows"
  shows "rows = [] \<and> sequenceNum row = 0 \<and> epochPrevHash row = None
     \<or> rows \<noteq> [] \<and> epochId row = epochId (last rows) \<and> prevHash row = hash (last rows)
        \<and> sequenceNum row = sequenceNum (last rows) + 1
     \<or> rows \<noteq> [] \<and> utf8 (epochId (last rows)) < utf8 (epochId row) \<and> sequenceNum row = 0
        \<and> epochPrevHash row = Some (hash (last rows))"
proof -
  let ?E = "deriveMonotonicEpochId env rows" and ?in = "filter (\<lambda>r. epochId r = epochId row) rows"
  have srt: "sorted_wrt (\<lambda>a b. chain_key a < chain_key b) rows"
    and asc: "\<forall>r \<in> set rows. ascii (epochId r)" using inv by (auto simp: log_inv_def)
  have E: "epochId row = ?E" "ascii ?E" "\<forall>r \<in> set rows. utf8 (epochId r) \<le> utf8 ?E"
    using derived_epoch[OF t asc] e by (simp_all add: row_def wellFormed_ascii)
  note link = new_row_link[of env ps d rows, folded row_def]
  show ?thesis
  proof (cases "first_row (order_desc sequenceNum ?in)")
    case (Some l)
    have l: "l \<in> set rows" "epochId l = ?E"
      and max: "\<forall>x \<in> set rows. epochId x = ?E \<longrightarrow> sequenceNum x \<le> sequenceNum l"
      using first_row_order_desc[OF Some] E(1) by auto
    have "\<forall>x \<in> set rows. chain_key x \<le> chain_key l"
    proof
      fix x assume x: "x \<in> set rows"
      have "utf8 (epochId x) = utf8 ?E \<Longrightarrow> epochId x = ?E"
        using asc x E(2) ascii_well_formed utf8_inj by blast
      then show "chain_key x \<le> chain_key l"
        using E(3) x l(2) max by (auto simp: chain_key_def less_eq_prod_def less_le)
    qed
    then have "l = last rows" using last_maximal[OF srt l(1)] by simp
    moreover have "sequenceNum row = sequenceNum l + 1" "prevHash row = hash l"
      using link Some by simp_all
    ultimately show ?thesis using l E(1) by auto
  next
    case None
    then have none: "\<forall>r \<in> set rows. epochId r \<noteq> ?E"
      using E(1) by (simp add: sql_simps filter_empty_conv)
    show ?thesis
    proof (cases "first_row (order_desc chain_key rows)")
      case first: None
      then have "rows = []" by (simp add: sql_simps)
      then show ?thesis using link None first by simp
    next
      case first: (Some l)
      have l: "l = last rows" "l \<in> set rows"
        using first_row_order_desc[OF first] last_maximal[OF srt] by auto
      have "utf8 (epochId l) \<noteq> utf8 ?E"
        using none l asc E(2) ascii_well_formed utf8_inj by blast
      then have "utf8 (epochId l) < utf8 ?E" using E(3) l(2) by (simp add: less_le)
      moreover have "sequenceNum row = 0 \<and> epochPrevHash row = Some (hash l)"
        using link None first by simp
      ultimately show ?thesis using l E(1) by auto
    qed
  qed
qed

lemma log_inv_snoc:
  assumes inv: "log_inv (show_frac env) (sha env) rows" and t: "ascii (today env)"
    and e: "p_epochId ps = None" and fresh: "entryId (new_row env ps d rows) \<notin> entryId ` set rows"
  shows "log_inv (show_frac env) (sha env) (rows @ [new_row env ps d rows])"
proof -
  let ?row = "new_row env ps d rows"
  have asc: "\<forall>r \<in> set rows. ascii (epochId r)" using inv by (simp add: log_inv_def)
  have ascE: "ascii (epochId ?row)"
    using derived_epoch[OF t asc] e by (simp add: wellFormed_ascii)
  have pos: "rows = [] \<or> rows \<noteq> [] \<and> linked (last rows) ?row \<and> chain_key (last rows) < chain_key ?row"
    using new_row_position[OF inv t e, of d]
    by (auto simp: linked_def chain_key_def less_prod_def)
  have srt: "sorted_wrt (\<lambda>a b. chain_key a < chain_key b) rows" using inv by (simp add: log_inv_def)
  have "chain_key r < chain_key ?row" if "r \<in> set rows" for r
  proof -
    have "r = last rows \<or> chain_key r < chain_key (last rows)"
      using that srt by (cases rows rule: rev_cases) (auto simp: sorted_wrt_append)
    moreover have "chain_key (last rows) < chain_key ?row" using pos that by (metis list.distinct(1) list.set_cases)
    ultimately show ?thesis by (metis order.strict_trans)
  qed
  then have "sorted_wrt (\<lambda>a b. chain_key a < chain_key b) (rows @ [?row])"
    using srt by (auto simp: sorted_wrt_append)
  moreover have "intact (show_frac env) (sha env) (rows @ [?row])"
    using inv pos row_ok_new_row[of env ps d rows] unfolding intact_append log_inv_def by auto
  moreover have "distinct (map entryId (rows @ [?row]))"
    using inv fresh unfolding log_inv_def by (auto simp del: new_row_fields)
  moreover have "\<forall>r \<in> set (rows @ [?row]). ascii (epochId r)"
    using asc ascE by (auto simp del: new_row_fields)
  ultimately show ?thesis unfolding log_inv_def by blast
qed

lemma insertRow_log_inv:
  "insertRow env ps d rows = Inr (res, rows') \<Longrightarrow> log_inv (show_frac env) (sha env) rows \<Longrightarrow>
   ascii (today env) \<Longrightarrow> p_epochId ps = None \<Longrightarrow> log_inv (show_frac env) (sha env) rows'"
  using insertRow_Inr[of env ps d rows res rows'] log_inv_snoc[of env rows ps d] by simp

text \<open>On an intact log only a repeated id can make a write fail: its position is always free.\<close>

lemma insertRow_total:
  assumes "log_inv (show_frac env) (sha env) rows" "ascii (today env)" "p_epochId ps = None"
    "entryId (new_row env ps d rows) \<notin> entryId ` set rows"
  shows "\<exists>res rows'. insertRow env ps d rows = Inr (res, rows')"
proof -
  let ?row = "new_row env ps d rows"
  have "\<forall>r \<in> set rows. chain_key r < chain_key ?row"
    using log_inv_snoc[OF assms] by (simp add: log_inv_def sorted_wrt_append)
  then have "\<not> (epochId r = epochId ?row \<and> sequenceNum r = sequenceNum ?row)" if "r \<in> set rows" for r
    using that by (force simp: chain_key_def simp del: new_row_fields)
  moreover have "entryId r \<noteq> entryId ?row" if "r \<in> set rows" for r using assms(4) that by (metis imageI)
  ultimately have "\<not> (\<exists>r \<in> set rows. entryId r = entryId ?row
      \<or> epochId r = epochId ?row \<and> sequenceNum r = sequenceNum ?row)" by blast
  then have "insert_audit_row ?row rows = Inr (rows @ [?row])"
    by (simp only: insert_audit_row_def insert_row_def if_False)
  then show ?thesis by (simp add: insertRow_def Let_def try_bind_def)
qed

lemma closeDecisionEntry_cases:
  assumes "closeDecisionEntryInTxn env ps d basis rows = Inr (res, rows')"
  obtains (skipped) "basis = Inferred" "hasCloserInTxn rows d" "res = None" "rows' = rows"
  | (wrote) r where "\<not> (basis = Inferred \<and> hasCloserInTxn rows d)" "res = Some r"
      "insertRow env ps (Some d) rows = Inr (r, rows')"
  using assms
  by (auto simp: closeDecisionEntryInTxn_def try_bind_def split: if_splits sum.splits prod.splits)

lemma audit_write_log_inv: "audit_write sf h rows rows' \<Longrightarrow> log_inv sf h rows \<Longrightarrow> log_inv sf h rows'"
proof (induction rule: audit_write.induct)
  case (entry env ps rows r rows')
  then show ?case using insertRow_log_inv by (auto simp: insertAuditEntryInTxn_def)
next
  case (close env ps d basis rows res rows')
  from close(5) show ?case
    by (cases rule: closeDecisionEntry_cases) (use close insertRow_log_inv in auto)
qed

lemma log_inv_Nil: "log_inv sf h []"
  by (simp add: log_inv_def)

lemma reachable_log_inv: "audit_reachable sf h rows \<Longrightarrow> log_inv sf h rows"
  by (induction rule: audit_reachable.induct) (auto intro: log_inv_Nil audit_write_log_inv)

subsection \<open>Closers\<close>

lemma hasCloserInTxn_count: "hasCloserInTxn rows d \<longleftrightarrow> closer_count rows d > 0"
  by (auto simp: hasCloserInTxn_def closer_count_def)

lemma insertRow_closer_count:
  "insertRow env ps e rows = Inr (res, rows') \<Longrightarrow>
   closer_count rows' d = closer_count rows d + (if map_option wellFormed e = Some d then 1 else 0)"
  using insertRow_Inr(1)[of env ps e rows res rows'] by (auto simp: closer_count_def)

subsection \<open>Pages of the chain\<close>

interpretation audit_pages: keyset_listing chain_key "\<lambda>rows. rows" selectAuditChainPage
  by unfold_locales (simp_all add: selectAuditChainPage_def)

lemma log_inv_keys: "log_inv sf h rows \<Longrightarrow> distinct (map chain_key rows) \<and> sorted (map chain_key rows)"
proof -
  assume "log_inv sf h rows"
  then have "sorted_wrt (<) (map chain_key rows)" by (simp add: log_inv_def sorted_wrt_map)
  then show ?thesis by (simp add: strict_sorted_iff)
qed

lemma log_inv_order: "log_inv sf h rows \<Longrightarrow> order_desc chain_key rows = rev rows"
  using log_inv_keys order_desc_sorted by blast

section \<open>Properties\<close>

text \<open>C3: Every log the two exported writes can produce verifies without a break, oldest row first in
  \<open>(epoch_id, sequence_num)\<close> order, whatever the clock did between the writes (also when it ran
  backwards over midnight) and whatever hash function is used; row ids stay unique.\<close>

theorem written_log_verifies:
  assumes "audit_reachable sf h rows"
  shows "breaks (verifyChainRange sf h rows None) = []
     \<and> rev (order_desc chain_key rows) = rows \<and> distinct (map entryId rows)"
  using reachable_log_inv[OF assms] log_inv_order[OF reachable_log_inv[OF assms]]
  by (simp add: no_breaks_open log_inv_def)

definition ex_params :: audit_params where
  "ex_params = \<lparr>p_userId = js ''u'', p_agentId = js ''a'', p_sessionId = js ''s'',
     p_toolName = js ''gmail.send'', p_service = js ''gmail'', p_verb = js ''send'',
     p_noun = js ''mail'', p_decision = Pending, p_origin = None, p_parametersMetadata = [],
     p_outcome = Success, p_errorMessage = None, p_latencyMs = JInt 1, p_costUsd = None,
     p_epochId = None, p_timestamp = None\<rparr>"

definition ex_env :: "string \<Rightarrow> string \<Rightarrow> audit_env" where
  "ex_env day i = \<lparr>show_frac = (\<lambda>_. []), sha = (\<lambda>bs. map of_nat bs), today = js day,
     now = js (day @ ''T00:00:00.000Z''), uuid = js i\<rparr>"

definition ex_row :: chain_entry where
  "ex_row = new_row (ex_env ''2026-03-02'' ''e1'') ex_params None []"

lemma ex_row_reachable: "audit_reachable (\<lambda>_. []) (\<lambda>bs. map of_nat bs) [ex_row]"
proof (rule audit_reachable.more[OF audit_reachable.no_rows])
  have "insertAuditEntryInTxn (ex_env ''2026-03-02'' ''e1'') ex_params [] =
      Inr (\<lparr>r_id = entryId ex_row, r_hash = hash ex_row, r_epochId = epochId ex_row,
            r_sequenceNum = sequenceNum ex_row\<rparr>, [ex_row])"
    by (simp add: insertAuditEntryInTxn_def insertRow_def insert_audit_row_def insert_row_def try_bind_def Let_def
        ex_row_def)
  moreover have "ascii (today (ex_env ''2026-03-02'' ''e1''))" by code_simp
  ultimately show "audit_write (\<lambda>_. []) (\<lambda>bs. map of_nat bs) [] [ex_row]"
    by (intro audit_write.entry[where env = "ex_env ''2026-03-02'' ''e1''" and ps = ex_params])
      (simp_all add: ex_env_def ex_params_def)
qed

theorem written_log_verifies_witness:
  "audit_reachable (\<lambda>_. []) (\<lambda>bs. map of_nat bs) [ex_row]
   \<and> breaks (verifyChainRange (\<lambda>_. []) (\<lambda>bs. map of_nat bs) [ex_row] None) = []"
  using written_log_verifies[OF ex_row_reachable] ex_row_reachable by blast

text \<open>Reading the chain by keyset pages of any positive size returns every row exactly once, newest
  first, and stops.\<close>

theorem audit_pages_complete:
  assumes "audit_reachable sf h rows" "0 < limit"
  shows "walk_pages chain_key selectAuditChainPage limit (Suc (length rows)) None rows = Some (rev rows)"
  using audit_pages.walk_all[of rows limit] log_inv_keys[OF reachable_log_inv[OF assms(1)]]
    log_inv_order[OF reachable_log_inv[OF assms(1)]] assms(2) by simp

theorem audit_pages_complete_witness:
  "walk_pages chain_key selectAuditChainPage 1 (Suc (length [ex_row])) None [ex_row] = Some [ex_row]"
  using audit_pages_complete[OF ex_row_reachable, of 1] by simp

text \<open>The asymmetric closer rule: closing a decision on an inferred basis writes nothing when a closer
  already exists and otherwise writes the first one, so inference never makes a second closer; on an
  observed basis it always writes exactly one; no other decision gains a closer.\<close>

theorem closer_rule:
  assumes "closeDecisionEntryInTxn env ps d basis rows = Inr (res, rows')" "is_well_formed d"
  shows "(if basis = Inferred \<and> closer_count rows d > 0 then res = None \<and> rows' = rows
      else res \<noteq> None \<and> closer_count rows' d = closer_count rows d + 1)
     \<and> (\<forall>d'. d' \<noteq> d \<longrightarrow> closer_count rows' d' = closer_count rows d')"
  using assms(1)
proof (cases rule: closeDecisionEntry_cases)
  case skipped
  then show ?thesis by (simp add: hasCloserInTxn_count)
next
  case (wrote r)
  have "wellFormed d = d" using assms(2) by (simp add: wellFormed_def to_well_formed_id)
  then show ?thesis
    using wrote insertRow_closer_count[OF wrote(3)] by (simp add: hasCloserInTxn_count)
qed

theorem closer_rule_witness:
  "\<exists>res rows'. closeDecisionEntryInTxn (ex_env ''2026-03-02'' ''e2'') ex_params (js ''d'') Inferred [] = Inr (res, rows')
     \<and> closer_count rows' (js ''d'') = 1"
proof -
  obtain res rows' where c: "closeDecisionEntryInTxn (ex_env ''2026-03-02'' ''e2'') ex_params (js ''d'') Inferred []
      = Inr (res, rows')"
    by (simp add: closeDecisionEntryInTxn_def hasCloserInTxn_def insertRow_def insert_audit_row_def insert_row_def
        try_bind_def Let_def)
  have "is_well_formed (js ''d'')" by code_simp
  then have "closer_count rows' (js ''d'') = 1"
    using closer_rule[OF c] by (simp add: closer_count_def)
  then show ?thesis using c by blast
qed

end
