(* ===== verification/IsoDate.thy ===== *)
theory IsoDate
  imports JsPrelude
begin

text \<open>
  \<open>Date.prototype.toISOString\<close> as ECMAScript defines it, on time values in milliseconds. The code
  compares such texts instead of instants, in SQL and in JavaScript; the main lemma shows that the
  order of the texts is the order of the instants for the years 0 to 9999, in both collations.
\<close>

section \<open>Time values\<close>

definition msPerDay :: int where
  "msPerDay = 86400000"

text \<open>\<open>DayFromYear\<close>: the day number of the first day of a year, day 0 being 1970-01-01.\<close>

definition day_from_year :: "int \<Rightarrow> int" where
  "day_from_year y = 365 * (y - 1970) + (y - 1969) div 4 - (y - 1901) div 100 + (y - 1601) div 400"

definition year_from_day :: "int \<Rightarrow> int" where
  "year_from_day d =
     (let y = 1970 + (400 * d) div 146097 in
      if d < day_from_year y then y - 1 else if day_from_year (y + 1) \<le> d then y + 1 else y)"

definition leap :: "int \<Rightarrow> bool" where
  "leap y \<longleftrightarrow> day_from_year (y + 1) - day_from_year y = 366"

text \<open>The days before each month of the year, January being month 0.\<close>

definition month_start :: "bool \<Rightarrow> int \<Rightarrow> int" where
  "month_start lp m =
     ([0, 31, 59, 90, 120, 151, 181, 212, 243, 273, 304, 334] ! nat m) + (if lp \<and> m \<ge> 2 then 1 else 0)"

definition month_from_day :: "bool \<Rightarrow> int \<Rightarrow> int" where
  "month_from_day lp k =
     (let l = (if lp then 1 else 0) in
      if k < 31 then 0 else if k < 59 + l then 1 else if k < 90 + l then 2
      else if k < 120 + l then 3 else if k < 151 + l then 4 else if k < 181 + l then 5
      else if k < 212 + l then 6 else if k < 243 + l then 7 else if k < 273 + l then 8
      else if k < 304 + l then 9 else if k < 334 + l then 10 else 11)"

text \<open>Zero-padded decimal digits of a fixed width.\<close>

fun pad :: "nat \<Rightarrow> int \<Rightarrow> jsstr" where
  "pad 0 n = []"
| "pad (Suc w) n = pad w (n div 10) @ [of_nat (48 + nat (n mod 10))]"

definition year_text :: "int \<Rightarrow> jsstr" where
  "year_text y =
     (if 0 \<le> y \<and> y \<le> 9999 then pad 4 y
      else (if y < 0 then js ''-'' else js ''+'') @ pad 6 \<bar>y\<bar>)"

definition time_text :: "int \<Rightarrow> jsstr" where
  "time_text r =
     pad 2 (r div 3600000) @ js '':'' @ pad 2 (r div 60000 mod 60) @ js '':''
     @ pad 2 (r div 1000 mod 60) @ js ''.'' @ pad 3 (r mod 1000) @ js ''Z''"

definition date_text :: "int \<Rightarrow> jsstr" where
  "date_text d =
     (let y = year_from_day d; k = d - day_from_year y; m = month_from_day (leap y) k in
      year_text y @ js ''-'' @ pad 2 (m + 1) @ js ''-'' @ pad 2 (k - month_start (leap y) m + 1))"

text \<open>The text of a time value, and \<open>toISOString\<close>, which throws a RangeError out of range.\<close>

definition iso :: "int \<Rightarrow> jsstr" where
  "iso t = date_text (t div msPerDay) @ js ''T'' @ time_text (t mod msPerDay)"

definition toISOString :: "int \<Rightarrow> jsstr option" where
  "toISOString t = (if \<bar>t\<bar> \<le> 8640000000000000 then Some (iso t) else None)"

text \<open>The years 0 to 9999, written with four digits.\<close>

definition four_digit_year :: "int \<Rightarrow> bool" where
  "four_digit_year t \<longleftrightarrow> 0 \<le> year_from_day (t div msPerDay) \<and> year_from_day (t div msPerDay) \<le> 9999"

section \<open>Lemmas\<close>

lemma div_bounds: "0 < k \<Longrightarrow> k * (x div k) \<le> x \<and> x < k * (x div k) + k" for k x :: int
  using mult_div_mod_eq[of k x] pos_mod_sign[of k x] pos_mod_bound[of k x] by linarith

lemma day_from_year_bounds:
  "146097 * n - 506 \<le> 400 * day_from_year (1970 + n) \<and> 400 * day_from_year (1970 + n) \<le> 146097 * n + 589"
proof -
  define a b c where "a = (n + 1) div 4" and "b = (n + 69) div 100" and "c = (n + 369) div 400"
  have "4 * a \<le> n + 1" "n + 1 \<le> 4 * a + 3" "100 * b \<le> n + 69" "n + 69 \<le> 100 * b + 99"
    "400 * c \<le> n + 369" "n + 369 \<le> 400 * c + 399"
    unfolding a_def b_def c_def
    using div_bounds[of 4 "n + 1"] div_bounds[of 100 "n + 69"] div_bounds[of 400 "n + 369"] by linarith+
  moreover have "day_from_year (1970 + n) = 365 * n + a - b + c"
    by (simp add: day_from_year_def a_def b_def c_def algebra_simps)
  ultimately show ?thesis by linarith
qed

lemma year_from_day_spec:
  "day_from_year (year_from_day d) \<le> d \<and> d < day_from_year (year_from_day d + 1)"
proof -
  define n where "n = (400 * d) div 146097"
  have n: "146097 * n \<le> 400 * d" "400 * d < 146097 * n + 146097"
    unfolding n_def using div_bounds[of 146097 "400 * d"] by linarith+
  define a b where "a = day_from_year (1970 + (n - 1))" and "b = day_from_year (1970 + (n + 2))"
  have "400 * a \<le> 146097 * (n - 1) + 589" "146097 * (n + 2) - 506 \<le> 400 * b"
    using day_from_year_bounds[of "n - 1"] day_from_year_bounds[of "n + 2"] by (auto simp: a_def b_def)
  then have "a \<le> d" "d < b" using n by simp_all
  then have "day_from_year (1970 + (n - 1)) \<le> d" "d < day_from_year (1970 + (n + 2))"
    by (simp_all only: a_def b_def)
  then have "day_from_year (1970 + n - 1) \<le> d" "d < day_from_year (1970 + n + 1 + 1)"
    by (simp_all add: algebra_simps)
  then show ?thesis by (auto simp: year_from_day_def Let_def n_def[symmetric])
qed

lemma div_Suc_cases: "0 < k \<Longrightarrow> (x + 1) div k = x div k \<or> (x + 1) div k = x div k + 1 \<and> (x + 1) mod k = 0"
  for k x :: int
proof -
  assume k: "0 < k"
  have q: "x = k * (x div k) + x mod k" by simp
  show ?thesis
  proof (cases "x mod k = k - 1")
    case True
    then have "x + 1 = k * (x div k) + k" using q by linarith
    then have "x + 1 = k * (x div k + 1)" by (simp add: distrib_left)
    then show ?thesis using k by (metis mod_mult_self1_is_0 nonzero_mult_div_cancel_left less_irrefl)
  next
    case False
    then have "x + 1 = k * (x div k) + (x mod k + 1)" "0 \<le> x mod k + 1" "x mod k + 1 < k"
      using q k pos_mod_sign[of k x] pos_mod_bound[of k x] by linarith+
    then have "(x + 1) div k = x div k" using div_pos_pos_trivial[of "x mod k + 1" k] k
      by (metis add.right_neutral add.commute div_mult_self2 less_irrefl)
    then show ?thesis by simp
  qed
qed

lemma div_step:
  fixes z k :: int
  assumes "0 < k"
  shows "z div k - (z - 1) div k = (if k dvd z then 1 else 0)"
proof (cases "k dvd z")
  case True
  then obtain q where q: "z = k * q" by blast
  then have "z div k = q" using assms by simp
  moreover have "(z - 1) div k \<noteq> q" using q div_bounds[OF assms, of "z - 1"] by auto
  ultimately show ?thesis using True div_Suc_cases[OF assms, of "z - 1"] by auto
next
  case False
  then have "z mod k \<noteq> 0" by (simp add: dvd_eq_mod_eq_0)
  then show ?thesis using False div_Suc_cases[OF assms, of "z - 1"] by simp
qed

lemma dvd_shift: "k dvd c \<Longrightarrow> k dvd y - c \<longleftrightarrow> k dvd y" for k y c :: int
  by (metis dvd_add_left_iff diff_add_cancel)

text \<open>The Gregorian rule.\<close>

lemma day_from_year_step:
  "day_from_year (y + 1) - day_from_year y =
     365 + (if 4 dvd y then 1 else 0) - (if 100 dvd y then 1 else 0) + (if 400 dvd y then 1 else 0)"
proof -
  have "day_from_year (y + 1) - day_from_year y
     = 365 + ((y - 1968) div 4 - (y - 1968 - 1) div 4) - ((y - 1900) div 100 - (y - 1900 - 1) div 100)
       + ((y - 1600) div 400 - (y - 1600 - 1) div 400)"
    by (simp add: day_from_year_def algebra_simps)
  then show ?thesis
    unfolding div_step[of 4, simplified] div_step[of 100, simplified] div_step[of 400, simplified]
    using dvd_shift[of 4 1968 y] dvd_shift[of 100 1900 y] dvd_shift[of 400 1600 y] by simp
qed

lemma day_from_year_Suc:
  "day_from_year (y + 1) - day_from_year y = 365 \<or> day_from_year (y + 1) - day_from_year y = 366"
proof -
  have "400 dvd y \<Longrightarrow> 100 dvd y" "100 dvd y \<Longrightarrow> 4 dvd y"
    by (erule dvd_trans[rotated], simp)+
  then show ?thesis by (auto simp: day_from_year_step)
qed

lemma day_from_year_mono: "x \<le> y \<Longrightarrow> day_from_year x \<le> day_from_year y"
proof (induction "nat (y - x)" arbitrary: y)
  case (Suc n)
  then have "day_from_year x \<le> day_from_year (y - 1)" by simp
  then show ?case using day_from_year_Suc[of "y - 1"] by auto
qed simp

lemma year_from_day_mono: "d < d' \<Longrightarrow> year_from_day d \<le> year_from_day d'"
proof (rule ccontr)
  assume "d < d'" "\<not> year_from_day d \<le> year_from_day d'"
  then have "day_from_year (year_from_day d' + 1) \<le> day_from_year (year_from_day d)"
    by (intro day_from_year_mono) simp
  then show False using year_from_day_spec[of d] year_from_day_spec[of d'] \<open>d < d'\<close> by simp
qed

subsection \<open>Fixed-width fields\<close>

lemma length_pad [simp]: "length (pad w n) = w"
  by (induction w n rule: pad.induct) simp_all

lemma digit_unit: "d < 10 \<Longrightarrow> d' < 10 \<Longrightarrow>
   (of_nat (48 + d) :: u16) < of_nat (48 + d') \<longleftrightarrow> d < d'"
  using unat_digit[of d] unat_digit[of d'] by (simp add: word_less_nat_alt)

lemma append_less_iff:
  "length s = length (s' :: jsstr) \<Longrightarrow> s @ t < s' @ t' \<longleftrightarrow> s < s' \<or> s = s' \<and> t < t'"
  by (induction s s' rule: list_induct2) auto

lemma pad_less:
  "0 \<le> m \<Longrightarrow> m < 10 ^ w \<Longrightarrow> 0 \<le> n \<Longrightarrow> n < 10 ^ w \<Longrightarrow> m < n \<Longrightarrow> pad w m < pad w n"
proof (induction w arbitrary: m n)
  case (Suc w)
  have lt: "m div 10 < 10 ^ w" "n div 10 < 10 ^ w" using Suc.prems by (simp_all add: less_mult_imp_div_less mult.commute)
  have le: "m div 10 \<le> n div 10" using Suc.prems by (simp add: zdiv_mono1)
  have dm: "nat (m mod 10) < 10" "nat (n mod 10) < 10" by (simp_all add: nat_less_iff)
  show ?case
  proof (cases "m div 10 = n div 10")
    case True
    then have "m mod 10 < n mod 10"
      using Suc.prems(5) mult_div_mod_eq[of 10 m] mult_div_mod_eq[of 10 n] by linarith
    then have "nat (m mod 10) < nat (n mod 10)" by simp
    then show ?thesis using True digit_unit[OF dm] by (simp add: append_less_iff)
  next
    case False
    then have "pad w (m div 10) < pad w (n div 10)" using Suc le lt by simp
    then show ?thesis by (simp add: append_less_iff)
  qed
qed simp

lemma pad_eq_less:
  "0 \<le> m \<Longrightarrow> m < 10 ^ w \<Longrightarrow> 0 \<le> n \<Longrightarrow> n < 10 ^ w \<Longrightarrow>
   m < n \<or> m = n \<and> s < t \<Longrightarrow> pad w m @ s < pad w n @ (t :: jsstr)"
  using pad_less[of m w n] by (auto simp: append_less_iff)

lemma pad_sep_less:
  "0 \<le> m \<Longrightarrow> m < 10 ^ w \<Longrightarrow> 0 \<le> n \<Longrightarrow> n < 10 ^ w \<Longrightarrow>
   m < n \<or> m = n \<and> s < t \<Longrightarrow> pad w m @ c @ s < pad w n @ c @ (t :: jsstr)"
  by (rule pad_eq_less) (auto simp: append_less_iff)

lemma ascii_pad: "ascii (pad w n)"
proof (induction w n rule: pad.induct)
  case (2 w n)
  have u: "unat (of_nat (48 + d) :: u16) < 0x80" if "d < 10" for d
    using unat_digit[OF that] that by simp
  have "unat (of_nat (48 + nat (n mod 10)) :: u16) < 0x80" by (rule u) (simp add: nat_less_iff)
  then show ?case using 2 by (simp add: ascii_def)
qed (simp add: ascii_def)

lemma ascii_append [simp]: "ascii (s @ t) \<longleftrightarrow> ascii s \<and> ascii t"
  by (auto simp: ascii_def)

lemma ascii_iso: "ascii (iso t)"
proof -
  have "ascii (js ''-'')" "ascii (js ''+'')" "ascii (js ''T'')" "ascii (js '':'')" "ascii (js ''.'')"
    "ascii (js ''Z'')" by code_simp+
  then show ?thesis by (simp add: iso_def date_text_def time_text_def year_text_def Let_def ascii_pad)
qed

subsection \<open>The order of the texts\<close>

lemma month_from_day_spec:
  assumes "0 \<le> k" "k < (if lp then 366 else 365)"
  defines "m \<equiv> month_from_day lp k"
  shows "0 \<le> m \<and> m < 12 \<and> month_start lp m \<le> k \<and> k - month_start lp m < 31"
  using assms by (cases lp) (auto simp: month_from_day_def month_start_def)

lemma month_from_day_mono: "k \<le> k' \<Longrightarrow> month_from_day lp k \<le> month_from_day lp k'"
  unfolding month_from_day_def Let_def by (simp split: if_split)

lemma day_of_year_bound:
  "0 \<le> d - day_from_year (year_from_day d)
   \<and> d - day_from_year (year_from_day d) < (if leap (year_from_day d) then 366 else 365)"
  using year_from_day_spec[of d] day_from_year_Suc[of "year_from_day d"] by (auto simp: leap_def)

lemma date_text_less:
  assumes "d < d'" "0 \<le> year_from_day d" "year_from_day d \<le> 9999" "0 \<le> year_from_day d'"
    "year_from_day d' \<le> 9999"
  shows "date_text d @ s < date_text d' @ s'"
proof -
  define y y' where "y = year_from_day d" and "y' = year_from_day d'"
  define k k' where "k = d - day_from_year y" and "k' = d' - day_from_year y'"
  define m m' where "m = month_from_day (leap y) k" and "m' = month_from_day (leap y') k'"
  note ms = month_from_day_spec[OF day_of_year_bound[THEN conjunct1] day_of_year_bound[THEN conjunct2]]
  have m: "0 \<le> m" "m < 12" "0 \<le> k - month_start (leap y) m" "k - month_start (leap y) m < 31"
    using ms[of d] by (auto simp: m_def k_def y_def)
  have m': "0 \<le> m'" "m' < 12" "0 \<le> k' - month_start (leap y') m'" "k' - month_start (leap y') m' < 31"
    using ms[of d'] by (auto simp: m'_def k'_def y'_def)
  have yy: "y < y' \<or> y = y' \<and> k < k'"
    using year_from_day_mono[OF assms(1)] assms(1) by (auto simp: y_def y'_def k_def k'_def)
  have kk: "y = y' \<Longrightarrow> m < m' \<or> m = m' \<and> k - month_start (leap y) m < k' - month_start (leap y') m'"
    using yy month_from_day_mono[of k k' "leap y"] by (auto simp: m_def m'_def)
  let ?r = "\<lambda>m k y s. pad 2 (m + 1) @ js ''-'' @ pad 2 (k - month_start (leap y) m + 1) @ s"
  have "?r m k y s < ?r m' k' y' s'" if "y = y'"
    using kk[OF that] m m' pad_eq_less[of "k - month_start (leap y) m + 1" 2 "k' - month_start (leap y') m' + 1" s s']
    by (intro pad_sep_less) auto
  then have "pad 4 y @ js ''-'' @ ?r m k y s < pad 4 y' @ js ''-'' @ ?r m' k' y' s'"
    using yy assms(2-5) by (intro pad_sep_less) (auto simp: y_def y'_def)
  then show ?thesis using assms(2-5)
    by (simp add: date_text_def Let_def year_text_def y_def[symmetric] y'_def[symmetric]
        k_def[symmetric] k'_def[symmetric] m_def[symmetric] m'_def[symmetric])
qed

lemma time_text_less:
  assumes "0 \<le> r" "r < r'" "r' < msPerDay"
  shows "time_text r < time_text r'"
proof -
  have b: "0 \<le> x div 3600000" "x div 3600000 < 10 ^ 2" "0 \<le> x div 60000 mod 60"
    "x div 60000 mod 60 < 10 ^ 2" "0 \<le> x div 1000 mod 60" "x div 1000 mod 60 < 10 ^ 2" "0 \<le> x mod 1000"
    "x mod 1000 < 10 ^ 3"
    if "0 \<le> x" "x < msPerDay" for x :: int
    using that pos_mod_bound[of 60 "x div 60000"] pos_mod_bound[of 60 "x div 1000"]
      div_bounds[of 3600000 x] by (simp_all add: msPerDay_def)
  have h: "x div 3600000 = x div 60000 div 60" for x :: int by (simp add: zdiv_zmult2_eq[symmetric])
  have mi: "x div 60000 = x div 1000 div 60" for x :: int by (simp add: zdiv_zmult2_eq[symmetric])
  have lex: "a div c < a' div c \<or> a div c = a' div c \<and> a mod c < a' mod c" if "a < a'" "0 < c" for a a' c :: int
    using that zdiv_mono1[of a a' c] mult_div_mod_eq[of c a] mult_div_mod_eq[of c a']
    by (metis add_less_cancel_left order.order_iff_strict)
  define A A' B B' where "A = r div 1000" and "A' = r' div 1000" and "B = r div 60000" and "B' = r' div 60000"
  have AB: "B = A div 60" "B' = A' div 60" by (simp_all only: A_def A'_def B_def B'_def mi)
  have ms: "A < A' \<or> A = A' \<and> r mod 1000 < r' mod 1000"
    using lex[OF assms(2), of 1000] by (simp add: A_def A'_def)
  have sec: "B < B' \<or> B = B' \<and> A mod 60 < A' mod 60" if "A < A'"
    unfolding AB using lex[OF that, of 60] by simp
  have mins: "B div 60 < B' div 60 \<or> B div 60 = B' div 60 \<and> B mod 60 < B' mod 60" if "B < B'"
    using lex[OF that, of 60] by simp
  have "B div 60 < B' div 60 \<or> B div 60 = B' div 60 \<and> (B mod 60 < B' mod 60
    \<or> B mod 60 = B' mod 60 \<and> (A mod 60 < A' mod 60 \<or> A mod 60 = A' mod 60 \<and> r mod 1000 < r' mod 1000))"
  proof (cases "A < A'")
    case True
    then show ?thesis using sec mins by (cases "B < B'") auto
  next
    case False
    then have "A = A'" "r mod 1000 < r' mod 1000" using ms by auto
    then show ?thesis using AB by simp
  qed
  then have c: "r div 3600000 < r' div 3600000
    \<or> r div 3600000 = r' div 3600000 \<and> (r div 60000 mod 60 < r' div 60000 mod 60
    \<or> r div 60000 mod 60 = r' div 60000 mod 60 \<and> (r div 1000 mod 60 < r' div 1000 mod 60
    \<or> r div 1000 mod 60 = r' div 1000 mod 60 \<and> r mod 1000 < r' mod 1000))"
    by (simp only: h A_def A'_def B_def B'_def)
  have r: "0 \<le> r" "r < msPerDay" "0 \<le> r'" "r' < msPerDay" using assms by simp_all
  note b1 = b[OF r(1,2)] and b2 = b[OF r(3,4)]
  let ?a = "\<lambda>r. pad 3 (r mod 1000) @ js ''Z''"
  let ?b = "\<lambda>r. pad 2 (r div 1000 mod 60) @ js ''.'' @ ?a r"
  let ?c = "\<lambda>r. pad 2 (r div 60000 mod 60) @ js '':'' @ ?b r"
  note z = pad_eq_less[OF b1(7,8) b2(7,8), of "js ''Z''" "js ''Z''"]
  note y = pad_sep_less[OF b1(5,6) b2(5,6), of "?a r" "?a r'" "js ''.''"]
  note x = pad_sep_less[OF b1(3,4) b2(3,4), of "?b r" "?b r'" "js '':''"]
  show ?thesis
    unfolding time_text_def
    by (rule pad_sep_less[OF b1(1,2) b2(1,2), of "?c r" "?c r'" "js '':''"]) (use c x y z in metis)
qed

text \<open>The order of ISO texts is the order of the instants.\<close>

lemma iso_less_mono: "four_digit_year a \<Longrightarrow> four_digit_year b \<Longrightarrow> a < b \<Longrightarrow> iso a < iso b"
proof -
  assume y: "four_digit_year a" "four_digit_year b" and ab: "a < b"
  show ?thesis
  proof (cases "a div msPerDay < b div msPerDay")
    case True
    then show ?thesis using date_text_less[OF True] y by (simp add: iso_def four_digit_year_def)
  next
    case False
    then have e: "a div msPerDay = b div msPerDay" using ab zdiv_mono1[of a b msPerDay]
      by (simp add: msPerDay_def)
    then have "a mod msPerDay < b mod msPerDay"
      using ab mult_div_mod_eq[of msPerDay a] mult_div_mod_eq[of msPerDay b] by (metis add_less_cancel_left)
    then have "time_text (a mod msPerDay) < time_text (b mod msPerDay)"
      by (intro time_text_less) (simp_all add: msPerDay_def)
    then show ?thesis using e by (simp add: iso_def append_less_iff)
  qed
qed

lemma iso_less_iff: "four_digit_year a \<Longrightarrow> four_digit_year b \<Longrightarrow> iso a < iso b \<longleftrightarrow> a < b"
  using iso_less_mono[of a b] iso_less_mono[of b a] by (metis linorder_less_linear order.asym)

lemma iso_utf8_less_iff: "four_digit_year a \<Longrightarrow> four_digit_year b \<Longrightarrow> utf8 (iso a) < utf8 (iso b) \<longleftrightarrow> a < b"
  by (simp add: utf8_less_ascii ascii_iso iso_less_iff)

end
