(* ===== verification/PolicyTable.thy ===== *)
theory PolicyTable
  imports Policy IsoDate
begin

text \<open>
  The \<open>policy_entries\<close> table: the helpers of \<open>packages/engine/src/data/helpers/policy-entries.ts\<close>
  and the methods of \<open>UserAgent\<close> (\<open>packages/engine/src/agent/user-agent.ts\<close>) that seed the
  deny floor, mint grants, consume them and hand the active entries to the evaluator. The clock is
  the text SQLite's \<open>strftime('%Y-%m-%dT%H:%M:%fZ','now')\<close> gives, compared by UTF-8 bytes. The
  tables those methods can produce are described by rule induction; the lemmas say which rows can
  allow an action.
\<close>

section \<open>policy-entries.ts\<close>

text \<open>\<open>ActivePolicyEntryRow\<close>, and the full row with \<open>consumed_at\<close>.\<close>

record active_policy_row =
  pe_id :: jsstr
  pe_source :: policy_source
  pe_session_id :: "jsstr option"
  pe_service :: jsstr
  pe_verb :: jsstr
  pe_noun :: jsstr
  pe_decision :: entry_decision
  pe_priority :: jsnum
  pe_created_at :: jsstr
  pe_expires_at :: "jsstr option"

record policy_row = active_policy_row +
  pe_consumed_at :: "jsstr option"

type_synonym policy_table = "policy_row list"

text \<open>\<open>(expires_at IS NULL OR expires_at > now) AND consumed_at IS NULL\<close>.\<close>

definition live :: "jsstr \<Rightarrow> policy_row \<Rightarrow> bool" where
  "live now_text r \<longleftrightarrow>
     (case pe_expires_at r of None \<Rightarrow> True | Some t \<Rightarrow> utf8 now_text < utf8 t)
     \<and> pe_consumed_at r = None"

text \<open>\<open>session_id = ?\<close>: a comparison with NULL on either side is not true.\<close>

definition same_session :: "policy_row \<Rightarrow> jsstr option \<Rightarrow> bool" where
  "same_session r s \<longleftrightarrow> s \<noteq> None \<and> pe_session_id r = s"

definition selectActivePolicyEntries ::
  "jsstr \<Rightarrow> jsstr option \<Rightarrow> policy_table \<Rightarrow> active_policy_row list" where
  "selectActivePolicyEntries now_text s rows =
     map active_policy_row.truncate
       (order_desc (\<lambda>r. num_val (pe_priority r))
         (filter (\<lambda>r. pe_source r \<in> {Session, Task, Standing}
            \<and> (pe_session_id r = None \<or> same_session r s) \<and> live now_text r) rows))"

definition selectActiveGrants ::
  "jsstr \<Rightarrow> jsstr option \<Rightarrow> policy_table \<Rightarrow> active_policy_row list" where
  "selectActiveGrants now_text s rows =
     map active_policy_row.truncate
       (order_desc (\<lambda>r. (num_val (pe_priority r), utf8 (pe_created_at r)))
         (filter (\<lambda>r. pe_source r \<in> {Session, Task} \<and> same_session r s \<and> live now_text r) rows))"

text \<open>\<open>ORDER BY priority DESC, created_at ASC\<close>.\<close>

definition selectStandingEntries :: "policy_table \<Rightarrow> active_policy_row list" where
  "selectStandingEntries rows =
     map active_policy_row.truncate
       (order_asc (\<lambda>r. (- num_val (pe_priority r), utf8 (pe_created_at r)))
         (filter (\<lambda>r. pe_source r = Standing) rows))"

record policy_scope =
  sc_decision :: entry_decision
  sc_service :: jsstr
  sc_verb :: jsstr
  sc_noun :: jsstr
  sc_priority :: jsnum

definition readPolicyEntryScope :: "policy_table \<Rightarrow> jsstr \<Rightarrow> policy_scope option" where
  "readPolicyEntryScope rows i =
     map_option (\<lambda>r. \<lparr>sc_decision = pe_decision r, sc_service = pe_service r, sc_verb = pe_verb r,
         sc_noun = pe_noun r, sc_priority = pe_priority r\<rparr>)
       (first_row (filter (\<lambda>r. pe_id r = i) rows))"

abbreviation insert_policy :: "policy_row \<Rightarrow> policy_table \<Rightarrow> sql_error + policy_table" where
  "insert_policy \<equiv> insert_row (\<lambda>r row. pe_id r = pe_id row)"

record grant_scope =
  g_service :: jsstr
  g_verb :: jsstr
  g_noun :: jsstr
  g_decision :: entry_decision

definition insertSessionGrant ::
  "jsstr \<Rightarrow> jsstr \<Rightarrow> grant_scope \<Rightarrow> jsstr \<Rightarrow> jsstr \<Rightarrow> policy_table \<Rightarrow> sql_error + policy_table" where
  "insertSessionGrant i s g createdAt expiresAt =
     insert_policy \<lparr>pe_id = i, pe_source = Session, pe_session_id = Some s, pe_service = g_service g,
       pe_verb = g_verb g, pe_noun = g_noun g, pe_decision = g_decision g, pe_priority = JInt 10,
       pe_created_at = createdAt, pe_expires_at = Some expiresAt, pe_consumed_at = None\<rparr>"

definition insertTaskGrant ::
  "jsstr \<Rightarrow> jsstr \<Rightarrow> grant_scope \<Rightarrow> jsstr \<Rightarrow> policy_table \<Rightarrow> sql_error + policy_table" where
  "insertTaskGrant i s g createdAt =
     insert_policy \<lparr>pe_id = i, pe_source = Task, pe_session_id = Some s, pe_service = g_service g,
       pe_verb = g_verb g, pe_noun = g_noun g, pe_decision = g_decision g, pe_priority = JInt 10,
       pe_created_at = createdAt, pe_expires_at = None, pe_consumed_at = None\<rparr>"

definition consumeTaskGrant :: "jsstr \<Rightarrow> jsstr \<Rightarrow> policy_table \<Rightarrow> policy_table" where
  "consumeTaskGrant i consumedAt =
     update_where (\<lambda>r. pe_id r = i \<and> pe_source r = Task \<and> pe_consumed_at r = None)
       (\<lambda>r. r\<lparr>pe_consumed_at := Some consumedAt\<rparr>)"

definition deletePolicyEntriesExcept :: "jsstr \<Rightarrow> policy_table \<Rightarrow> policy_table" where
  "deletePolicyEntriesExcept keep = delete_where (\<lambda>r. pe_id r \<noteq> keep)"

section \<open>user-agent.ts: the floor and the grants\<close>

text \<open>The seed of \<open>migrate\<close>: \<open>INSERT OR IGNORE\<close> of the floor.\<close>

definition floor_row :: "jsstr \<Rightarrow> policy_row" where
  "floor_row created =
     \<lparr>pe_id = WILDCARD_DENY_ID, pe_source = Standing, pe_session_id = None, pe_service = star,
      pe_verb = star, pe_noun = star, pe_decision = EDeny, pe_priority = JInt 0,
      pe_created_at = created, pe_expires_at = None, pe_consumed_at = None\<rparr>"

definition seed_floor :: "jsstr \<Rightarrow> policy_table \<Rightarrow> policy_table" where
  "seed_floor created rows =
     (case insert_policy (floor_row created) rows of Inl _ \<Rightarrow> rows | Inr rows' \<Rightarrow> rows')"

datatype grant_error = FloorMissing | FloorCorrupted "string list" | WildcardGrant | NoSession
  | RangeError | Sql sql_error

definition assertDenyFloor :: "policy_table \<Rightarrow> grant_error + unit" where
  "assertDenyFloor rows =
     (case readPolicyEntryScope rows WILDCARD_DENY_ID of
        None \<Rightarrow> Inl FloorMissing
      | Some f \<Rightarrow>
        (let mismatches =
           (if sc_decision f \<noteq> EDeny then [''decision''] else [])
           @ (if sc_service f \<noteq> star then [''service''] else [])
           @ (if sc_verb f \<noteq> star then [''verb''] else [])
           @ (if sc_noun f \<noteq> star then [''noun''] else [])
           @ (if sc_priority f \<noteq> JInt 0 then [''priority''] else [])
         in if length mismatches > 0 then Inl (FloorCorrupted mismatches) else Inr ()))"

definition toPolicyEntry :: "active_policy_row \<Rightarrow> policy_entry" where
  "toPolicyEntry r =
     \<lparr>e_id = pe_id r, e_source = pe_source r, e_sessionId = pe_session_id r,
      e_service = pe_service r, e_verb = pe_verb r, e_noun = pe_noun r,
      e_decision = pe_decision r, e_priority = pe_priority r, e_createdAt = pe_created_at r,
      e_expiresAt = pe_expires_at r\<rparr>"

definition queryPolicyEntries ::
  "jsstr \<Rightarrow> jsstr option \<Rightarrow> policy_table \<Rightarrow> policy_entry list" where
  "queryPolicyEntries now_text s rows = map toPolicyEntry (selectActivePolicyEntries now_text s rows)"

definition getStandingEntries :: "policy_table \<Rightarrow> policy_entry list" where
  "getStandingEntries rows = map toPolicyEntry (selectStandingEntries rows)"

definition assertScopedGrant :: "grant_scope \<Rightarrow> grant_error + unit" where
  "assertScopedGrant g =
     (if g_service g = star \<or> g_verb g = star \<or> g_noun g = star then Inl WildcardGrant else Inr ())"

definition lift_sql :: "sql_error + 'a \<Rightarrow> grant_error + 'a" where
  "lift_sql m = (case m of Inl e \<Rightarrow> Inl (Sql e) | Inr x \<Rightarrow> Inr x)"

definition SESSION_LIFETIME_MS :: int where
  "SESSION_LIFETIME_MS = 90 * 60 * 1000"

definition iso_or_throw :: "int \<Rightarrow> grant_error + jsstr" where
  "iso_or_throw t = (case toISOString t of None \<Rightarrow> Inl RangeError | Some s \<Rightarrow> Inr s)"

text \<open>\<open>started\<close> is what \<open>sessionStartedAt\<close> read for the session, \<open>now_ms\<close> the clock.\<close>

definition createSessionGrant ::
  "jsstr \<Rightarrow> int \<Rightarrow> int option \<Rightarrow> grant_scope \<Rightarrow> jsstr \<Rightarrow> policy_table
   \<Rightarrow> grant_error + jsstr \<times> policy_table" where
  "createSessionGrant new_id now_ms started g s rows =
     try_bind (assertScopedGrant g) (\<lambda>_.
     (let startedAt = (case started of Some t \<Rightarrow> t | None \<Rightarrow> now_ms) in
      try_bind (iso_or_throw (startedAt + SESSION_LIFETIME_MS)) (\<lambda>expiresAt.
      try_bind (iso_or_throw now_ms) (\<lambda>createdAt.
      try_bind (lift_sql (insertSessionGrant new_id s g createdAt expiresAt rows)) (\<lambda>rows'.
      Inr (new_id, rows'))))))"

definition createTaskGrant ::
  "jsstr \<Rightarrow> int \<Rightarrow> grant_scope \<Rightarrow> jsstr option \<Rightarrow> policy_table
   \<Rightarrow> grant_error + jsstr \<times> policy_table" where
  "createTaskGrant new_id now_ms g boundSession rows =
     try_bind (assertScopedGrant g) (\<lambda>_.
     (case boundSession of None \<Rightarrow> Inl NoSession
      | Some s \<Rightarrow> if s = [] then Inl NoSession
        else try_bind (iso_or_throw now_ms) (\<lambda>createdAt.
             try_bind (lift_sql (insertTaskGrant new_id s g createdAt rows)) (\<lambda>rows'.
             Inr (new_id, rows')))))"

section \<open>Tables the code can produce\<close>

text \<open>Any sequence of boots, grants, consumptions and kills, in which \<open>crypto.randomUUID()\<close>
  never returns an identifier of \<open>used\<close> again.\<close>

inductive grant_step :: "policy_table \<Rightarrow> policy_table \<Rightarrow> bool" where
  boot: "rows' = seed_floor created rows \<Longrightarrow> assertDenyFloor rows' = Inr () \<Longrightarrow> grant_step rows rows'"
| session_grant: "createSessionGrant i t started g s rows = Inr (j, rows') \<Longrightarrow> grant_step rows rows'"
| task_grant: "createTaskGrant i t g s rows = Inr (j, rows') \<Longrightarrow> grant_step rows rows'"
| consume: "grant_step rows (consumeTaskGrant i w rows)"
| kill: "grant_step rows (deletePolicyEntriesExcept WILDCARD_DENY_ID rows)"

inductive grant_run :: "jsstr set \<Rightarrow> policy_table \<Rightarrow> policy_table \<Rightarrow> bool" for used where
  stop: "grant_run used rows rows"
| step: "grant_run used rows rows' \<Longrightarrow> grant_step rows' rows'' \<Longrightarrow>
     used \<inter> pe_id ` set rows'' \<subseteq> pe_id ` set rows' \<Longrightarrow> grant_run used rows rows''"

text \<open>What every such table satisfies: one floor row, and otherwise fully scoped grants of
  priority 10 bound to a session.\<close>

definition is_grant :: "policy_row \<Rightarrow> bool" where
  "is_grant r \<longleftrightarrow> pe_source r \<in> {Session, Task} \<and> pe_session_id r \<noteq> None \<and> pe_service r \<noteq> star
     \<and> pe_verb r \<noteq> star \<and> pe_noun r \<noteq> star \<and> pe_priority r = JInt 10"

definition is_floor :: "policy_row \<Rightarrow> bool" where
  "is_floor r \<longleftrightarrow> (\<exists>created. r = floor_row created)"

definition grants_inv :: "policy_table \<Rightarrow> bool" where
  "grants_inv rows \<longleftrightarrow> (\<exists>r \<in> set rows. is_floor r) \<and> distinct (map pe_id rows)
     \<and> (\<forall>r \<in> set rows. is_floor r \<or> is_grant r)"

text \<open>A grant that speaks about the action in the session at the time.\<close>

definition speaks :: "(jsstr \<Rightarrow> jsstr) \<Rightarrow> jsstr \<Rightarrow> jsstr \<Rightarrow> policy_action \<Rightarrow> policy_row \<Rightarrow> bool" where
  "speaks lc now_text s a r \<longleftrightarrow> is_grant r \<and> pe_session_id r = Some s \<and> live now_text r
     \<and> pe_service r = a_service a \<and> pe_verb r = a_verb a \<and> lc (pe_noun r) = lc (a_noun a)"

section \<open>Lemmas\<close>

lemma floor_row_fields [simp]:
  "pe_id (floor_row c) = WILDCARD_DENY_ID" "pe_source (floor_row c) = Standing"
  "pe_session_id (floor_row c) = None" "pe_service (floor_row c) = star" "pe_verb (floor_row c) = star"
  "pe_noun (floor_row c) = star" "pe_decision (floor_row c) = EDeny" "pe_priority (floor_row c) = JInt 0"
  "pe_consumed_at (floor_row c) = None" "live t (floor_row c)" "is_floor (floor_row c)"
  by (auto simp: floor_row_def live_def is_floor_def)

lemma createSessionGrant_Inr:
  assumes "createSessionGrant i t started g s rows = Inr (j, rows')"
  obtains row where "rows' = rows @ [row]" "is_grant row" "pe_id row = i" "pe_id row \<notin> pe_id ` set rows"
    "pe_source row = Session" "pe_session_id row = Some s" "pe_consumed_at row = None"
    "pe_expires_at row = Some (iso ((case started of Some t \<Rightarrow> t | None \<Rightarrow> t) + SESSION_LIFETIME_MS))" "j = i"
proof -
  let ?row = "\<lparr>pe_id = i, pe_source = Session, pe_session_id = Some s, pe_service = g_service g,
       pe_verb = g_verb g, pe_noun = g_noun g, pe_decision = g_decision g, pe_priority = JInt 10,
       pe_created_at = iso t,
       pe_expires_at = Some (iso ((case started of Some t \<Rightarrow> t | None \<Rightarrow> t) + SESSION_LIFETIME_MS)),
       pe_consumed_at = None\<rparr>"
  have "rows' = rows @ [?row]" "is_grant ?row" "i \<notin> pe_id ` set rows" "j = i"
    using assms
    by (auto simp: createSessionGrant_def try_bind_def assertScopedGrant_def lift_sql_def Let_def
        insertSessionGrant_def insert_row_def is_grant_def iso_or_throw_def toISOString_def
        split: if_splits sum.splits option.splits)
  then show ?thesis by (intro that[of ?row]) simp_all
qed

lemma createTaskGrant_Inr:
  assumes "createTaskGrant i t g b rows = Inr (j, rows')"
  obtains row s where "rows' = rows @ [row]" "is_grant row" "pe_id row = i" "pe_id row \<notin> pe_id ` set rows"
    "pe_source row = Task" "b = Some s" "pe_session_id row = Some s" "pe_consumed_at row = None"
    "pe_expires_at row = None" "j = i"
proof -
  obtain s where s: "b = Some s"
    using assms by (auto simp: createTaskGrant_def try_bind_def split: sum.splits option.splits)
  let ?row = "\<lparr>pe_id = i, pe_source = Task, pe_session_id = Some s, pe_service = g_service g,
       pe_verb = g_verb g, pe_noun = g_noun g, pe_decision = g_decision g, pe_priority = JInt 10,
       pe_created_at = iso t, pe_expires_at = None, pe_consumed_at = None\<rparr>"
  have "rows' = rows @ [?row]" "is_grant ?row" "i \<notin> pe_id ` set rows" "j = i"
    using assms s
    by (auto simp: createTaskGrant_def try_bind_def assertScopedGrant_def lift_sql_def
        insertTaskGrant_def insert_row_def is_grant_def iso_or_throw_def toISOString_def
        split: if_splits sum.splits option.splits)
  then show ?thesis by (intro that[of ?row s]) (simp_all add: s)
qed

lemma is_floorD:
  "is_floor r \<Longrightarrow> pe_id r = WILDCARD_DENY_ID \<and> pe_source r = Standing \<and> pe_session_id r = None
     \<and> pe_service r = star \<and> pe_verb r = star \<and> pe_noun r = star \<and> pe_decision r = EDeny
     \<and> pe_priority r = JInt 0 \<and> live t r"
  by (auto simp: is_floor_def)

lemma is_grant_not_floor: "is_grant r \<Longrightarrow> \<not> is_floor r"
  by (auto simp: is_grant_def dest: is_floorD)

lemma is_grant_consume [simp]: "is_grant (r\<lparr>pe_consumed_at := c\<rparr>) = is_grant r"
  by (simp add: is_grant_def)

lemma grants_inv_append:
  "grants_inv rows \<Longrightarrow> is_grant row \<Longrightarrow> pe_id row \<notin> pe_id ` set rows \<Longrightarrow> grants_inv (rows @ [row])"
  by (auto simp: grants_inv_def)

lemma grants_inv_consume: "grants_inv rows \<Longrightarrow> grants_inv (consumeTaskGrant i w rows)"
proof -
  assume inv: "grants_inv rows"
  have "map pe_id (consumeTaskGrant i w rows) = map pe_id rows"
    by (simp add: consumeTaskGrant_def update_where_def)
  moreover have keep: "r \<in> set (consumeTaskGrant i w rows)" if "r \<in> set rows" "is_floor r" for r
    using that is_floorD[OF that(2)] unfolding consumeTaskGrant_def update_where_def
    by (auto intro!: rev_image_eqI)
  moreover have "is_floor r \<or> is_grant r" if mem: "r \<in> set (consumeTaskGrant i w rows)" for r
  proof -
    obtain q where q: "q \<in> set rows" "r = q \<or> r = q\<lparr>pe_consumed_at := Some w\<rparr> \<and> pe_source q = Task"
      using mem unfolding consumeTaskGrant_def update_where_def set_map image_iff by metis
    then have "is_floor q \<or> is_grant q" using inv by (simp add: grants_inv_def)
    then show ?thesis using q is_floorD[of q] by auto
  qed
  ultimately show ?thesis using inv unfolding grants_inv_def by metis
qed

lemma grants_inv_kill: "grants_inv rows \<Longrightarrow> grants_inv (deletePolicyEntriesExcept WILDCARD_DENY_ID rows)"
  by (auto simp: grants_inv_def deletePolicyEntriesExcept_def delete_where_def is_floor_def
      intro: distinct_map_filter)

lemma grant_step_inv: "grant_step rows rows' \<Longrightarrow> grants_inv rows \<Longrightarrow> grants_inv rows'"
proof (induction rule: grant_step.induct)
  case (boot rows' created rows)
  then have "\<exists>r \<in> set rows. pe_id r = WILDCARD_DENY_ID" using is_floorD unfolding grants_inv_def by blast
  then show ?case using boot by (simp add: seed_floor_def insert_row_def)
next
  case (session_grant i t started g s rows j rows')
  then show ?case by (auto elim!: createSessionGrant_Inr intro: grants_inv_append)
next
  case (task_grant i t g s rows j rows')
  then show ?case by (auto elim!: createTaskGrant_Inr intro: grants_inv_append)
qed (simp_all add: grants_inv_consume grants_inv_kill)

lemma grant_run_inv: "grant_run used rows rows' \<Longrightarrow> grants_inv rows \<Longrightarrow> grants_inv rows'"
  by (induction rule: grant_run.induct) (auto intro: grant_step_inv)

lemma grants_inv_first_boot: "grants_inv (seed_floor created [])"
  by (simp add: seed_floor_def insert_row_def grants_inv_def)

subsection \<open>Which rows decide\<close>

lemma truncate_fields [simp]:
  "pe_id (active_policy_row.truncate r) = pe_id r" "pe_source (active_policy_row.truncate r) = pe_source r"
  "pe_session_id (active_policy_row.truncate r) = pe_session_id r"
  "pe_service (active_policy_row.truncate r) = pe_service r"
  "pe_verb (active_policy_row.truncate r) = pe_verb r" "pe_noun (active_policy_row.truncate r) = pe_noun r"
  "pe_decision (active_policy_row.truncate r) = pe_decision r"
  "pe_priority (active_policy_row.truncate r) = pe_priority r"
  by (simp_all add: active_policy_row.truncate_def)

lemma toPolicyEntry_fields [simp]:
  "e_id (toPolicyEntry r) = pe_id r" "e_source (toPolicyEntry r) = pe_source r"
  "e_service (toPolicyEntry r) = pe_service r" "e_verb (toPolicyEntry r) = pe_verb r"
  "e_noun (toPolicyEntry r) = pe_noun r" "e_decision (toPolicyEntry r) = pe_decision r"
  "e_priority (toPolicyEntry r) = pe_priority r"
  by (simp_all add: toPolicyEntry_def)

definition entry_of :: "policy_row \<Rightarrow> policy_entry" where
  "entry_of r = toPolicyEntry (active_policy_row.truncate r)"

lemma entry_of_fields [simp]:
  "e_id (entry_of r) = pe_id r" "e_source (entry_of r) = pe_source r"
  "e_service (entry_of r) = pe_service r" "e_verb (entry_of r) = pe_verb r"
  "e_noun (entry_of r) = pe_noun r" "e_decision (entry_of r) = pe_decision r"
  "e_priority (entry_of r) = pe_priority r"
  by (simp_all add: entry_of_def)

lemma policy_source_all: "x \<in> {Session, Task, Standing}"
  by (cases x) simp_all

lemma set_queryPolicyEntries:
  "set (queryPolicyEntries t s rows) =
     entry_of ` {r \<in> set rows. (pe_session_id r = None \<or> same_session r s) \<and> live t r}"
  using policy_source_all
  by (force simp: queryPolicyEntries_def selectActivePolicyEntries_def entry_of_def sql_simps image_iff)

lemma entryMatch_grant:
  "is_grant r \<Longrightarrow> entryMatch lc (entry_of r) a \<longleftrightarrow>
     pe_service r = a_service a \<and> pe_verb r = a_verb a \<and> lc (pe_noun r) = lc (a_noun a)"
  by (auto simp: entryMatch_def is_grant_def)

lemma entryMatch_floor: "is_floor r \<Longrightarrow> entryMatch lc (entry_of r) a"
  by (auto simp: entryMatch_def dest!: is_floorD)

lemma exact_scope_grant: "is_grant r \<Longrightarrow> exact_scope lc (entry_of r) a \<longleftrightarrow>
     pe_service r = a_service a \<and> pe_verb r = a_verb a \<and> lc (pe_noun r) = lc (a_noun a)"
  by (auto simp: exact_scope_def is_grant_def)

text \<open>The entries handed to the evaluator for a session: the floor and the grants it may see.\<close>

lemma queried_cases:
  assumes "grants_inv rows" "e \<in> set (queryPolicyEntries t (Some s) rows)"
  obtains (floor) r where "r \<in> set rows" "is_floor r" "e = entry_of r"
  | (grant) r where "r \<in> set rows" "is_grant r" "e = entry_of r" "pe_session_id r = Some s" "live t r"
proof -
  obtain r where r: "r \<in> set rows" "pe_session_id r = None \<or> same_session r (Some s)" "live t r"
      "e = entry_of r" using assms(2) by (auto simp: set_queryPolicyEntries)
  then have "is_floor r \<or> is_grant r" using assms(1) by (simp add: grants_inv_def)
  then show ?thesis using r that by (auto simp: is_grant_def same_session_def)
qed

lemma grant_queried:
  "r \<in> set rows \<Longrightarrow> pe_session_id r = Some s \<Longrightarrow> live t r \<Longrightarrow> entry_of r \<in> set (queryPolicyEntries t (Some s) rows)"
  by (auto simp: set_queryPolicyEntries same_session_def)

lemma floor_queried:
  "r \<in> set rows \<Longrightarrow> is_floor r \<Longrightarrow> entry_of r \<in> set (queryPolicyEntries t s rows)"
  using is_floorD[of r t] by (auto simp: set_queryPolicyEntries)

lemma queried_allow_iff:
  assumes inv: "grants_inv rows"
  shows "pd_decision (evaluatePolicy lc (queryPolicyEntries t (Some s) rows) a) = Allow \<longleftrightarrow>
     (\<exists>r \<in> set rows. speaks lc t s a r) \<and> (\<forall>r \<in> set rows. speaks lc t s a r \<longrightarrow> pe_decision r = EAllow)"
    (is "?l \<longleftrightarrow> ?r")
proof
  assume ?l
  then obtain e where e: "e \<in> set (queryPolicyEntries t (Some s) rows)" "e_decision e = EAllow"
      "exact_scope lc e a"
      and top: "\<forall>d \<in> set (queryPolicyEntries t (Some s) rows). e_decision d = EDeny \<longrightarrow> entryMatch lc d a
        \<longrightarrow> num_val (e_priority d) < num_val (e_priority e)"
    unfolding evaluatePolicy_allow_wins allow_wins_def by blast
  obtain r where r: "r \<in> set rows" "is_grant r" "e = entry_of r" "pe_session_id r = Some s" "live t r"
    using e(2) by (cases rule: queried_cases[OF inv e(1)]) (auto dest: is_floorD)
  then have "speaks lc t s a r" using e(3) by (simp add: speaks_def exact_scope_grant)
  moreover have "pe_decision q = EAllow" if q: "q \<in> set rows" "speaks lc t s a q" for q
  proof (rule ccontr)
    assume "pe_decision q \<noteq> EAllow"
    then have "pe_decision q = EDeny" by (cases "pe_decision q") auto
    then have "num_val (pe_priority q) < num_val (pe_priority r)"
      using top grant_queried[of q rows s t] q r(3) by (auto simp: speaks_def entryMatch_grant)
    then show False using q(2) r(2) by (simp add: speaks_def is_grant_def)
  qed
  ultimately show ?r using r(1) by blast
next
  assume ?r
  then obtain r where r: "r \<in> set rows" "speaks lc t s a r" "pe_decision r = EAllow" by blast
  have "is_finite_num (e_priority e)" if "e \<in> set (queryPolicyEntries t (Some s) rows)" for e
    by (cases rule: queried_cases[OF inv that]) (auto simp: is_grant_def dest: is_floorD)
  moreover have "num_val (e_priority d) < num_val (e_priority (entry_of r))"
    if d: "d \<in> set (queryPolicyEntries t (Some s) rows)" "e_decision d = EDeny" "entryMatch lc d a" for d
  proof (cases rule: queried_cases[OF inv d(1)])
    case (1 q)
    then show ?thesis using r(2) is_floorD[of q] by (auto simp: speaks_def is_grant_def)
  next
    case (2 q)
    then have "speaks lc t s a q" using d(3) by (simp add: speaks_def entryMatch_grant)
    then have "pe_decision q = EAllow" using \<open>?r\<close> 2(1) by blast
    then show ?thesis using d(2) 2(3) by simp
  qed
  moreover have "exact_scope lc (entry_of r) a" using r(2) by (simp add: speaks_def exact_scope_grant)
  ultimately show ?l
    using grant_queried[of r rows s t] r unfolding evaluatePolicy_allow_wins allow_wins_def
    by (intro conjI ballI impI bexI[of _ "entry_of r"]) (auto simp: speaks_def)
qed

subsection \<open>Consumed grants\<close>

definition spent :: "jsstr \<Rightarrow> policy_table \<Rightarrow> bool" where
  "spent i rows \<longleftrightarrow> (\<forall>r \<in> set rows. pe_id r = i \<longrightarrow> pe_consumed_at r \<noteq> None)"

lemma spent_append: "spent i rows \<Longrightarrow> pe_id row \<noteq> i \<Longrightarrow> spent i (rows @ [row])"
  by (auto simp: spent_def)

lemma spent_consume: "spent i rows \<Longrightarrow> spent i (consumeTaskGrant j w rows)"
  unfolding spent_def consumeTaskGrant_def update_where_def by fastforce

lemma consume_spends:
  assumes "\<forall>r \<in> set rows. pe_id r = i \<longrightarrow> pe_source r = Task"
  shows "spent i (consumeTaskGrant i w rows)"
  unfolding spent_def
proof (intro ballI impI)
  fix r assume r: "r \<in> set (consumeTaskGrant i w rows)" "pe_id r = i"
  from r(1) obtain q where q: "q \<in> set rows"
      "r = (if pe_id q = i \<and> pe_source q = Task \<and> pe_consumed_at q = None
         then q\<lparr>pe_consumed_at := Some w\<rparr> else q)"
    unfolding consumeTaskGrant_def update_where_def set_map by (elim imageE)
  show "pe_consumed_at r \<noteq> None"
  proof (cases "pe_id q = i \<and> pe_source q = Task \<and> pe_consumed_at q = None")
    case True
    then show ?thesis using q(2) by simp
  next
    case False
    then have "r = q" using q(2) by (simp only: if_False)
    then show ?thesis using assms q(1) r(2) False by auto
  qed
qed

lemma grant_step_spent:
  assumes "grant_step rows rows'" "spent i rows" "{i} \<inter> pe_id ` set rows' \<subseteq> pe_id ` set rows"
    "i \<noteq> WILDCARD_DENY_ID"
  shows "spent i rows'"
  using assms
proof (induction rule: grant_step.induct)
  case (boot rows' created rows)
  then show ?case by (auto simp: seed_floor_def insert_row_def spent_def split: if_splits)
next
  case (session_grant j t started g s rows k rows')
  then show ?case by (auto elim!: createSessionGrant_Inr intro!: spent_append)
next
  case (task_grant j t g s rows k rows')
  then show ?case by (auto elim!: createTaskGrant_Inr intro!: spent_append)
next
  case (consume rows j w)
  then show ?case by (simp add: spent_consume)
next
  case (kill rows)
  then show ?case by (simp add: spent_def deletePolicyEntriesExcept_def delete_where_def)
qed

lemma grant_run_spent:
  "grant_run used rows rows' \<Longrightarrow> i \<in> used \<Longrightarrow> i \<noteq> WILDCARD_DENY_ID \<Longrightarrow> spent i rows \<Longrightarrow> spent i rows'"
proof (induction rule: grant_run.induct)
  case (step rows rows' rows'')
  then have "{i} \<inter> pe_id ` set rows'' \<subseteq> pe_id ` set rows'" by blast
  then show ?case using grant_step_spent[OF step.hyps(2)] step by blast
qed

text \<open>The evaluator answers with the id of an entry it was given.\<close>

lemma decided_by_queried:
  "pd_entryId (evaluatePolicy lc (queryPolicyEntries t s rows) a) = Some i \<Longrightarrow>
   \<exists>r \<in> set rows. pe_id r = i \<and> live t r"
  by (cases lc "queryPolicyEntries t s rows" a rule: evaluatePolicy_cases)
    (auto simp: set_queryPolicyEntries)

section \<open>Properties\<close>

text \<open>C34: In every table the engine can reach from its first boot, an action is allowed in a session at a
  time exactly when some grant of that session, unconsumed and unexpired at that time, names the
  action's service, verb and noun, and no such grant is a deny: neither another session's grant nor
  an expired or consumed one nor a wildcard ever allows.\<close>

theorem grant_decides:
  assumes "grant_run {} (seed_floor created []) rows"
  shows "pd_decision (evaluatePolicy lc (queryPolicyEntries t (Some s) rows) a) = Allow \<longleftrightarrow>
     (\<exists>r \<in> set rows. speaks lc t s a r) \<and> (\<forall>r \<in> set rows. speaks lc t s a r \<longrightarrow> pe_decision r = EAllow)"
  by (rule queried_allow_iff[OF grant_run_inv[OF assms grants_inv_first_boot]])

definition ex_scope :: grant_scope where
  "ex_scope = \<lparr>g_service = js ''gmail'', g_verb = js ''send'', g_noun = js ''mail'', g_decision = EAllow\<rparr>"

definition ex_task_row :: policy_row where
  "ex_task_row = \<lparr>pe_id = js ''g1'', pe_source = Task, pe_session_id = Some (js ''s1''),
     pe_service = js ''gmail'', pe_verb = js ''send'', pe_noun = js ''mail'', pe_decision = EAllow,
     pe_priority = JInt 10, pe_created_at = iso 0, pe_expires_at = None, pe_consumed_at = None\<rparr>"

lemma ex_task_run: "grant_run used (seed_floor [] []) [floor_row [], ex_task_row]" if "js ''g1'' \<notin> used"
proof -
  have "createTaskGrant (js ''g1'') 0 ex_scope (Some (js ''s1'')) (seed_floor [] [])
      = Inr (js ''g1'', [floor_row [], ex_task_row])"
    by code_simp
  then have "grant_step (seed_floor [] []) [floor_row [], ex_task_row]" by (rule grant_step.task_grant)
  moreover have "pe_id ex_task_row = js ''g1''" by (simp add: ex_task_row_def)
  moreover have "seed_floor [] [] = [floor_row []]" by (simp add: seed_floor_def insert_row_def)
  ultimately show ?thesis using that by (intro grant_run.step[OF grant_run.stop]) auto
qed

theorem grant_decides_witness:
  "pd_decision (evaluatePolicy id (queryPolicyEntries (iso 5) (Some (js ''s1'')) [floor_row [], ex_task_row])
     ex_action) = Allow"
proof -
  have "speaks id (iso 5) (js ''s1'') ex_action ex_task_row"
    by (simp add: speaks_def is_grant_def live_def ex_task_row_def ex_action_def js_def)
  moreover have "\<not> speaks id (iso 5) (js ''s1'') ex_action (floor_row [])"
    by (simp add: speaks_def is_grant_def)
  moreover have "pe_decision ex_task_row = EAllow" by (simp add: ex_task_row_def)
  ultimately show ?thesis
    using grant_decides[OF ex_task_run, of id "iso 5" "js ''s1''" ex_action] by simp
qed

text \<open>A task grant is single use: once \<open>consumeTaskGrant\<close> has run on it, no later evaluation, at any
  time, in any session and after any further boots, grants, consumptions and kills, is decided by
  it, as long as its UUID is not generated again.\<close>

theorem task_grant_single_use:
  assumes "r \<in> set rows" "pe_source r = Task" "pe_id r = i" "grants_inv rows"
    "grant_run {i} (consumeTaskGrant i w rows) rows'"
  shows "pd_entryId (evaluatePolicy lc (queryPolicyEntries t s rows') a) \<noteq> Some i"
proof
  assume "pd_entryId (evaluatePolicy lc (queryPolicyEntries t s rows') a) = Some i"
  then obtain q where q: "q \<in> set rows'" "pe_id q = i" "live t q" using decided_by_queried by blast
  have "q' = r" if "q' \<in> set rows" "pe_id q' = i" for q'
    using that assms(1,3,4) by (auto simp: grants_inv_def distinct_map dest: inj_onD)
  then have "spent i (consumeTaskGrant i w rows)" using assms(2) consume_spends by blast
  moreover have "is_grant r" using assms(1,2,4) is_floorD[of r] by (auto simp: grants_inv_def)
  moreover have "i \<noteq> WILDCARD_DENY_ID"
  proof
    obtain f where f: "f \<in> set rows" "is_floor f" using assms(4) by (auto simp: grants_inv_def)
    assume "i = WILDCARD_DENY_ID"
    then have "f = r" using f is_floorD[of f] \<open>\<And>q'. q' \<in> set rows \<Longrightarrow> pe_id q' = i \<Longrightarrow> q' = r\<close> by blast
    then show False using f is_floorD[of f] assms(2) by simp
  qed
  ultimately have "spent i rows'" using grant_run_spent[OF assms(5)] by blast
  then show False using q unfolding spent_def live_def by blast
qed

theorem task_grant_single_use_witness:
  "pd_entryId (evaluatePolicy id (queryPolicyEntries (iso 5) (Some (js ''s1''))
     (consumeTaskGrant (js ''g1'') (iso 3) [floor_row [], ex_task_row])) ex_action) \<noteq> Some (js ''g1'')"
proof (rule task_grant_single_use)
  show "grants_inv [floor_row [], ex_task_row]"
    using grant_run_inv[OF ex_task_run[of "{}"] grants_inv_first_boot] by simp
  show "ex_task_row \<in> set [floor_row [], ex_task_row]" by simp
  show "pe_source ex_task_row = Task" "pe_id ex_task_row = js ''g1''" by (simp_all add: ex_task_row_def)
  show "grant_run {js ''g1''} (consumeTaskGrant (js ''g1'') (iso 3) [floor_row [], ex_task_row])
     (consumeTaskGrant (js ''g1'') (iso 3) [floor_row [], ex_task_row])" by (rule grant_run.stop)
qed

text \<open>A session grant lives exactly until ninety minutes after its session started: minted in a table
  in which no grant speaks about the action, it allows the action at an instant if and only if the
  instant is before the session's start plus ninety minutes, however late it was minted.\<close>

theorem session_grant_expiry:
  assumes "grants_inv rows" "createSessionGrant i now_ms (Some start) g s rows = Inr (j, rows')"
    "g_decision g = EAllow" "g_service g = a_service a" "g_verb g = a_verb a" "g_noun g = a_noun a"
    "\<forall>r \<in> set rows. \<not> speaks lc (iso clock) s a r"
    "four_digit_year clock" "four_digit_year (start + SESSION_LIFETIME_MS)"
  shows "pd_decision (evaluatePolicy lc (queryPolicyEntries (iso clock) (Some s) rows') a) = Allow
     \<longleftrightarrow> clock < start + 90 * 60 * 1000"
proof -
  obtain row where row: "rows' = rows @ [row]" "is_grant row" "pe_id row \<notin> pe_id ` set rows"
      "pe_session_id row = Some s" "pe_consumed_at row = None"
      "pe_expires_at row = Some (iso (start + SESSION_LIFETIME_MS))"
    using assms(2) by (auto elim!: createSessionGrant_Inr)
  have scope: "pe_decision row = EAllow" "pe_service row = a_service a" "pe_verb row = a_verb a" "pe_noun row = a_noun a"
    using assms(2-6) row(1)
    by (auto simp: createSessionGrant_def try_bind_def assertScopedGrant_def lift_sql_def Let_def
        insertSessionGrant_def insert_row_def iso_or_throw_def toISOString_def
        split: if_splits sum.splits option.splits)
  have "live (iso clock) row \<longleftrightarrow> clock < start + SESSION_LIFETIME_MS"
    using row(5,6) iso_utf8_less_iff[OF assms(8,9)] by (simp add: live_def)
  then have "speaks lc (iso clock) s a row \<longleftrightarrow> clock < start + SESSION_LIFETIME_MS"
    using row scope by (simp add: speaks_def)
  moreover have "grants_inv rows'" using row grants_inv_append assms(1) by simp
  ultimately show ?thesis
    using queried_allow_iff[of rows' lc "iso clock" s a] assms(7) row(1) scope(1)
    by (auto simp: SESSION_LIFETIME_MS_def)
qed

theorem session_grant_expiry_witness:
  "\<exists>j rows'. createSessionGrant (js ''g1'') 1000 (Some 0) ex_scope (js ''s1'') [floor_row []] = Inr (j, rows')
     \<and> pd_decision (evaluatePolicy id (queryPolicyEntries (iso 5399999) (Some (js ''s1'')) rows') ex_action) = Allow
     \<and> pd_decision (evaluatePolicy id (queryPolicyEntries (iso 5400000) (Some (js ''s1'')) rows') ex_action) \<noteq> Allow"
proof -
  obtain j rows' where c: "createSessionGrant (js ''g1'') 1000 (Some 0) ex_scope (js ''s1'') [floor_row []] = Inr (j, rows')"
    by (simp add: createSessionGrant_def try_bind_def assertScopedGrant_def ex_scope_def js_def lift_sql_def
        insertSessionGrant_def insert_row_def iso_or_throw_def toISOString_def SESSION_LIFETIME_MS_def
        WILDCARD_DENY_ID_def)
  have inv: "grants_inv [floor_row []]" by (simp add: grants_inv_def)
  have y: "four_digit_year 5399999" "four_digit_year 5400000" "four_digit_year (0 + SESSION_LIFETIME_MS)"
    by code_simp+
  have g: "g_decision ex_scope = EAllow" "g_service ex_scope = a_service ex_action"
    "g_verb ex_scope = a_verb ex_action" "g_noun ex_scope = a_noun ex_action"
    by (simp_all add: ex_scope_def ex_action_def)
  have n: "\<forall>r \<in> set [floor_row []]. \<not> speaks id tx (js ''s1'') ex_action r" for tx
    by (simp add: speaks_def is_grant_def)
  show ?thesis
    using session_grant_expiry[OF inv c g n y(1,3)] session_grant_expiry[OF inv c g n y(2,3)] c by auto
qed

end
