(* ===== verification/Sessions.thy ===== *)
theory Sessions
  imports JsPrelude
begin

text \<open>
  The \<open>session_state\<close> table, \<open>packages/engine/src/data/helpers/session-state.ts\<close>. Establishing a
  session is \<open>INSERT OR IGNORE\<close>, the active session is the newest row without \<open>ended_at\<close>.
\<close>

section \<open>session-state.ts\<close>

record session_row =
  s_session_id :: jsstr
  s_started_at :: jsstr
  s_agent_id :: jsstr
  s_ended_at :: "jsstr option"

type_synonym session_table = "session_row list"

definition read_session :: "session_table \<Rightarrow> jsstr \<Rightarrow> session_row option" where
  "read_session rows s = first_row (filter (\<lambda>r. s_session_id r = s) rows)"

definition readSessionStartedAt :: "session_table \<Rightarrow> jsstr \<Rightarrow> jsstr option" where
  "readSessionStartedAt rows s = map_option s_started_at (read_session rows s)"

definition insertSessionState :: "jsstr \<Rightarrow> jsstr \<Rightarrow> jsstr \<Rightarrow> session_table \<Rightarrow> session_table" where
  "insertSessionState s startedAt agent rows =
     (case insert_row (\<lambda>r row. s_session_id r = s_session_id row)
         \<lparr>s_session_id = s, s_started_at = startedAt, s_agent_id = agent, s_ended_at = None\<rparr> rows of
        Inl _ \<Rightarrow> rows | Inr rows' \<Rightarrow> rows')"

definition selectOpenSessions :: "session_table \<Rightarrow> session_row list" where
  "selectOpenSessions rows = filter (\<lambda>r. s_ended_at r = None) rows"

definition selectActiveSession :: "session_table \<Rightarrow> session_row option" where
  "selectActiveSession rows =
     first_row (order_desc (\<lambda>r. utf8 (s_started_at r)) (filter (\<lambda>r. s_ended_at r = None) rows))"

definition markSessionEnded :: "jsstr \<Rightarrow> jsstr \<Rightarrow> session_table \<Rightarrow> session_table" where
  "markSessionEnded s endedAt = update_where (\<lambda>r. s_session_id r = s) (\<lambda>r. r\<lparr>s_ended_at := Some endedAt\<rparr>)"

definition readSessionEndedAt :: "session_table \<Rightarrow> jsstr \<Rightarrow> jsstr option" where
  "readSessionEndedAt rows s =
     (case read_session rows s of None \<Rightarrow> None | Some r \<Rightarrow> s_ended_at r)"

section \<open>Lemmas\<close>

interpretation session_pk: pk_table s_session_id read_session
  by unfold_locales (simp add: read_session_def)

lemma selectActiveSession_None: "selectActiveSession rows = None \<longleftrightarrow> selectOpenSessions rows = []"
  by (simp add: selectActiveSession_def selectOpenSessions_def sql_simps)

lemma selectActiveSession_Some:
  "selectActiveSession rows = Some r \<Longrightarrow>
   r \<in> set (selectOpenSessions rows) \<and> (\<forall>q \<in> set (selectOpenSessions rows). utf8 (s_started_at q) \<le> utf8 (s_started_at r))"
  unfolding selectActiveSession_def selectOpenSessions_def by (drule first_row_order_desc) auto

lemma open_markSessionEnded:
  "selectOpenSessions (markSessionEnded s e rows) = filter (\<lambda>r. s_session_id r \<noteq> s) (selectOpenSessions rows)"
  by (induction rows) (auto simp: selectOpenSessions_def markSessionEnded_def update_where_def)

lemma ids_markSessionEnded [simp]: "map s_session_id (markSessionEnded s e rows) = map s_session_id rows"
  by (simp add: markSessionEnded_def update_where_def)

lemma distinct_insertSessionState:
  "distinct (map s_session_id rows) \<Longrightarrow> distinct (map s_session_id (insertSessionState s t a rows))"
  by (auto simp: insertSessionState_def insert_row_def)

lemma insertSessionState_fresh:
  "s \<notin> s_session_id ` set rows \<Longrightarrow> insertSessionState s t a rows =
     rows @ [\<lparr>s_session_id = s, s_started_at = t, s_agent_id = a, s_ended_at = None\<rparr>]"
  by (auto simp: insertSessionState_def insert_row_def)

end
