(* ===== verification/HeldCalls.thy ===== *)
theory HeldCalls
  imports JsPrelude
begin

text \<open>
  The \<open>held_tool_calls\<close> table, \<open>packages/engine/src/data/helpers/held-tool-calls.ts\<close>. Queries that
  project columns return the row here. \<open>LIMIT 1\<close> without an order takes the first row of the
  table; the ordered reads sort by \<open>(held_at, id)\<close> in SQLite's collation.
\<close>

section \<open>held-tool-calls.ts\<close>

datatype hold_kind = ConfirmationHold | InputHold

record held_row =
  h_id :: jsstr
  h_session_id :: jsstr
  h_pending :: jsstr
  h_turn_state :: jsstr
  h_held_at :: jsstr
  h_run_id :: "jsstr option"
  h_hold_kind :: hold_kind
  h_awaited_slot_keys :: "jsstr option"
  h_spend_context :: "jsstr option"

type_synonym held_table = "held_row list"

definition insertHeldToolCall :: "held_row \<Rightarrow> held_table \<Rightarrow> sql_error + held_table" where
  "insertHeldToolCall = insert_row (\<lambda>r row. h_id r = h_id row)"

definition held_order :: "held_row \<Rightarrow> bytes \<times> bytes" where
  "held_order r = (utf8 (h_held_at r), utf8 (h_id r))"

definition selectHeldCalls :: "held_table \<Rightarrow> held_row list" where
  "selectHeldCalls rows = order_asc held_order rows"

definition readHeldCall :: "held_table \<Rightarrow> jsstr \<Rightarrow> held_row option" where
  "readHeldCall rows i = first_row (filter (\<lambda>r. h_id r = i) rows)"

definition selectInputHoldForTask :: "held_table \<Rightarrow> jsstr \<Rightarrow> held_row option" where
  "selectInputHoldForTask rows run =
     first_row (filter (\<lambda>r. h_run_id r = Some run \<and> h_hold_kind r = InputHold) rows)"

definition updateHeldTurnState :: "jsstr \<Rightarrow> jsstr \<Rightarrow> held_table \<Rightarrow> held_table" where
  "updateHeldTurnState i turnState = update_where (\<lambda>r. h_id r = i) (\<lambda>r. r\<lparr>h_turn_state := turnState\<rparr>)"

definition reholdForSpend :: "jsstr \<Rightarrow> jsstr \<Rightarrow> jsstr \<Rightarrow> held_table \<Rightarrow> held_table" where
  "reholdForSpend i pending context =
     update_where (\<lambda>r. h_id r = i) (\<lambda>r. r\<lparr>h_pending := pending, h_spend_context := Some context\<rparr>)"

definition selectHeldCallForRun :: "held_table \<Rightarrow> jsstr \<Rightarrow> held_row option" where
  "selectHeldCallForRun rows run = first_row (filter (\<lambda>r. h_run_id r = Some run) rows)"

definition deleteHeldToolCall :: "jsstr \<Rightarrow> held_table \<Rightarrow> held_table" where
  "deleteHeldToolCall i = delete_where (\<lambda>r. h_id r = i)"

definition selectHeldCallsForRun :: "held_table \<Rightarrow> jsstr \<Rightarrow> held_row list" where
  "selectHeldCallsForRun rows run = order_asc held_order (filter (\<lambda>r. h_run_id r = Some run) rows)"

definition selectHeldCallsForSession :: "held_table \<Rightarrow> jsstr \<Rightarrow> held_row list" where
  "selectHeldCallsForSession rows s = filter (\<lambda>r. h_session_id r = s) rows"

definition selectHeldCallAuditRefs :: "held_table \<Rightarrow> held_row list" where
  "selectHeldCallAuditRefs rows = rows"

definition deleteAllHeldToolCalls :: "held_table \<Rightarrow> held_table" where
  "deleteAllHeldToolCalls = delete_where (\<lambda>_. True)"

section \<open>Sequences of writes\<close>

inductive held_step :: "held_table \<Rightarrow> held_table \<Rightarrow> bool" where
  park: "insertHeldToolCall row rows = Inr rows' \<Longrightarrow> held_step rows rows'"
| turn: "held_step rows (updateHeldTurnState i t rows)"
| rehold: "held_step rows (reholdForSpend i p c rows)"
| unpark: "held_step rows (deleteHeldToolCall i rows)"
| unpark_all: "held_step rows (deleteAllHeldToolCalls rows)"

section \<open>Lemmas\<close>

interpretation held_pk: pk_table h_id readHeldCall
  by unfold_locales (simp add: readHeldCall_def)

lemma deleteAllHeldToolCalls_Nil [simp]: "deleteAllHeldToolCalls rows = []"
  by (simp add: deleteAllHeldToolCalls_def delete_where_def)

text \<open>Deleting a list of rows one by one.\<close>

lemma foldl_deleteHeldToolCall:
  "foldl (\<lambda>rs i. deleteHeldToolCall i rs) rows is = filter (\<lambda>r. h_id r \<notin> set is) rows"
  by (induction "is" arbitrary: rows) (auto simp: deleteHeldToolCall_def delete_where_def)

lemma held_step_distinct: "held_step rows rows' \<Longrightarrow> distinct (map h_id rows) \<Longrightarrow> distinct (map h_id rows')"
proof (induction rule: held_step.induct)
  case (park row rows rows')
  show ?case
    by (rule held_pk.distinct_insert[OF park(1)[unfolded insertHeldToolCall_def] _ park(2)])
qed (simp_all add: updateHeldTurnState_def reholdForSpend_def deleteHeldToolCall_def held_pk.distinct_update
      held_pk.distinct_delete)

section \<open>Properties\<close>

text \<open>The order in which held calls are listed is a total one: whatever order SQLite yields the rows
  in, also for holds parked in the same millisecond, the list is the same, sorted by \<open>held_at\<close>, and
  has every row.\<close>

theorem held_order_deterministic:
  assumes "mset rows = mset rows'" "distinct (map h_id rows)" "\<forall>r \<in> set rows. is_well_formed (h_id r)"
  shows "selectHeldCalls rows = selectHeldCalls rows' \<and> mset (selectHeldCalls rows) = mset rows
     \<and> sorted (map (\<lambda>r. utf8 (h_held_at r)) (selectHeldCalls rows))"
proof -
  have "inj_on held_order (set rows)"
  proof (rule inj_onI)
    fix x y assume m: "x \<in> set rows" "y \<in> set rows" and "held_order x = held_order y"
    then have "utf8 (h_id x) = utf8 (h_id y)" by (simp add: held_order_def)
    then have "h_id x = h_id y" using assms(3) m utf8_inj by blast
    moreover have "inj_on h_id (set rows)" using assms(2) by (simp add: distinct_map)
    ultimately show "x = y" using m by (meson inj_onD)
  qed
  then have "selectHeldCalls rows = selectHeldCalls rows'"
    unfolding selectHeldCalls_def order_asc_def
    using sort_key_inj_key_eq[of rows "sort_key held_order rows'" held_order] assms(1) by simp
  moreover have "sorted (map (\<lambda>r. utf8 (h_held_at r)) (selectHeldCalls rows))"
    using sorted_order_asc[of held_order rows]
    unfolding selectHeldCalls_def sorted_map held_order_def
    by (rule sorted_wrt_mono_rel[rotated]) (auto simp: less_eq_prod_def)
  moreover have "mset (selectHeldCalls rows) = mset rows" by (simp add: selectHeldCalls_def order_asc_def)
  ultimately show ?thesis by blast
qed

definition ex_hold :: "string \<Rightarrow> held_row" where
  "ex_hold i = \<lparr>h_id = js i, h_session_id = js ''s1'', h_pending = js ''p'', h_turn_state = [],
     h_held_at = js ''2026-03-02T00:00:00.000Z'', h_run_id = None, h_hold_kind = ConfirmationHold,
     h_awaited_slot_keys = None, h_spend_context = None\<rparr>"

theorem held_order_deterministic_witness:
  "selectHeldCalls [ex_hold ''b'', ex_hold ''a''] = selectHeldCalls [ex_hold ''a'', ex_hold ''b'']"
proof -
  have "mset [ex_hold ''b'', ex_hold ''a''] = mset [ex_hold ''a'', ex_hold ''b'']" by simp
  moreover have "distinct (map h_id [ex_hold ''b'', ex_hold ''a''])" by (simp add: ex_hold_def js_def)
  moreover have "\<forall>r \<in> set [ex_hold ''b'', ex_hold ''a'']. is_well_formed (h_id r)" by code_simp
  ultimately show ?thesis using held_order_deterministic by blast
qed

end
