(* ===== verification/CommissionRuns.thy ===== *)
theory CommissionRuns
  imports JsPrelude
begin

text \<open>
  The \<open>commission_runs\<close> table, \<open>packages/engine/src/data/helpers/commission-runs.ts\<close>: every
  statement with its guard. The writes form a step relation on tables; the lemmas give the status
  graph a run can follow and show that terminal states absorb.
\<close>

section \<open>commission-runs.ts\<close>

datatype run_status = Running | AwaitingConfirmation | Completed | Failed | Denied | Expired
  | NeedsInput | Cancelled

datatype run_origin = OMcpCommission | OHuman

text \<open>\<open>TaskListRow\<close>, and the full row.\<close>

record task_list_row =
  t_id :: jsstr
  t_origin :: run_origin
  t_goal :: jsstr
  t_status :: run_status
  t_label :: "jsstr option"
  t_created_at :: jsstr
  t_updated_at :: jsstr

record commission_row = task_list_row +
  t_data :: "jsstr option"
  t_session_id :: jsstr
  t_status_detail :: "jsstr option"
  t_awaited_slot_keys :: "jsstr option"

type_synonym commission_table = "commission_row list"

definition insertCommissionRun ::
  "jsstr \<Rightarrow> jsstr \<Rightarrow> jsstr option \<Rightarrow> jsstr \<Rightarrow> jsstr \<Rightarrow> commission_table
   \<Rightarrow> sql_error + commission_table" where
  "insertCommissionRun i goal data s createdAt =
     insert_row (\<lambda>r row. t_id r = t_id row)
       \<lparr>t_id = i, t_origin = OMcpCommission, t_goal = goal, t_status = Running, t_label = None,
        t_created_at = createdAt, t_updated_at = createdAt, t_data = data, t_session_id = s,
        t_status_detail = None, t_awaited_slot_keys = None\<rparr>"

definition readCommissionRun :: "commission_table \<Rightarrow> jsstr \<Rightarrow> commission_row option" where
  "readCommissionRun rows i = first_row (filter (\<lambda>r. t_id r = i) rows)"

definition run_key :: "'a task_list_row_scheme \<Rightarrow> bytes \<times> bytes" where
  "run_key r = (utf8 (t_created_at r), utf8 (t_id r))"

definition selectRecentCommissionRuns :: "commission_table \<Rightarrow> nat \<Rightarrow> commission_row list" where
  "selectRecentCommissionRuns rows limit = take limit (order_desc run_key rows)"

definition listTasks ::
  "commission_table \<Rightarrow> nat \<Rightarrow> (bytes \<times> bytes) option \<Rightarrow> task_list_row list" where
  "listTasks rows limit before =
     (let summary = map task_list_row.truncate rows in
      case before of
        Some b \<Rightarrow> take limit (order_desc run_key (filter (\<lambda>r. run_key r < b) summary))
      | None \<Rightarrow> take limit (order_desc run_key summary))"

definition updateTaskStatusDetail :: "jsstr \<Rightarrow> jsstr \<Rightarrow> jsstr \<Rightarrow> commission_table \<Rightarrow> commission_table" where
  "updateTaskStatusDetail i detail updatedAt =
     update_where (\<lambda>r. t_id r = i) (\<lambda>r. r\<lparr>t_status_detail := Some detail, t_updated_at := updatedAt\<rparr>)"

definition markNeedsInput :: "jsstr \<Rightarrow> jsstr \<Rightarrow> jsstr \<Rightarrow> commission_table \<Rightarrow> commission_table" where
  "markNeedsInput i slots updatedAt =
     update_where (\<lambda>r. t_id r = i \<and> t_status r \<in> {Running, AwaitingConfirmation})
       (\<lambda>r. r\<lparr>t_status := NeedsInput, t_awaited_slot_keys := Some slots, t_updated_at := updatedAt\<rparr>)"

definition clearNeedsInput :: "jsstr \<Rightarrow> jsstr \<Rightarrow> commission_table \<Rightarrow> commission_table" where
  "clearNeedsInput i updatedAt =
     update_where (\<lambda>r. t_id r = i \<and> t_status r = NeedsInput)
       (\<lambda>r. r\<lparr>t_status := Running, t_awaited_slot_keys := None, t_updated_at := updatedAt\<rparr>)"

definition updateRunData :: "jsstr \<Rightarrow> jsstr \<Rightarrow> jsstr \<Rightarrow> commission_table \<Rightarrow> commission_table" where
  "updateRunData i data updatedAt =
     update_where (\<lambda>r. t_id r = i) (\<lambda>r. r\<lparr>t_data := Some data, t_updated_at := updatedAt\<rparr>)"

definition updateCommissionStatus ::
  "jsstr \<Rightarrow> run_status \<Rightarrow> jsstr \<Rightarrow> commission_table \<Rightarrow> commission_table" where
  "updateCommissionStatus i status updatedAt =
     update_where (\<lambda>r. t_id r = i \<and> t_status r \<in> {Running, AwaitingConfirmation})
       (\<lambda>r. r\<lparr>t_status := status, t_updated_at := updatedAt\<rparr>)"

definition cancelRun :: "jsstr \<Rightarrow> jsstr \<Rightarrow> commission_table \<Rightarrow> commission_table" where
  "cancelRun i updatedAt =
     update_where (\<lambda>r. t_id r = i \<and> t_status r \<in> {AwaitingConfirmation, NeedsInput})
       (\<lambda>r. r\<lparr>t_status := Cancelled, t_updated_at := updatedAt\<rparr>)"

definition selectNonTerminalRuns :: "commission_table \<Rightarrow> commission_row list" where
  "selectNonTerminalRuns rows =
     filter (\<lambda>r. t_status r \<in> {Running, AwaitingConfirmation, NeedsInput}) rows"

definition markRunsExpiredForSession :: "jsstr \<Rightarrow> jsstr \<Rightarrow> commission_table \<Rightarrow> commission_table" where
  "markRunsExpiredForSession s updatedAt =
     update_where (\<lambda>r. t_session_id r = s \<and> t_status r \<in> {Running, AwaitingConfirmation, NeedsInput})
       (\<lambda>r. r\<lparr>t_status := Expired, t_updated_at := updatedAt\<rparr>)"

definition expireRun :: "jsstr \<Rightarrow> jsstr \<Rightarrow> commission_table \<Rightarrow> commission_table" where
  "expireRun i updatedAt =
     update_where (\<lambda>r. t_id r = i \<and> t_status r \<in> {Running, AwaitingConfirmation, NeedsInput})
       (\<lambda>r. r\<lparr>t_status := Expired, t_updated_at := updatedAt\<rparr>)"

section \<open>Sequences of writes\<close>

inductive run_step :: "commission_table \<Rightarrow> commission_table \<Rightarrow> bool" where
  insert: "insertCommissionRun i goal data s t rows = Inr rows' \<Longrightarrow> run_step rows rows'"
| detail: "run_step rows (updateTaskStatusDetail i d t rows)"
| park: "run_step rows (markNeedsInput i k t rows)"
| resume: "run_step rows (clearNeedsInput i t rows)"
| data: "run_step rows (updateRunData i d t rows)"
| status: "run_step rows (updateCommissionStatus i st t rows)"
| cancel: "run_step rows (cancelRun i t rows)"
| expire_session: "run_step rows (markRunsExpiredForSession s t rows)"
| expire: "run_step rows (expireRun i t rows)"

inductive runs :: "commission_table \<Rightarrow> commission_table \<Rightarrow> bool" where
  stop: "runs rows rows"
| step: "runs rows rows' \<Longrightarrow> run_step rows' rows'' \<Longrightarrow> runs rows rows''"

definition terminal :: "run_status \<Rightarrow> bool" where
  "terminal s \<longleftrightarrow> s \<in> {Completed, Failed, Denied, Expired, Cancelled}"

text \<open>The edges of the status graph.\<close>

definition status_edge :: "run_status \<Rightarrow> run_status \<Rightarrow> bool" where
  "status_edge a b \<longleftrightarrow> a = b \<or> a = Running \<or> a = AwaitingConfirmation
     \<or> a = NeedsInput \<and> b \<in> {Running, Cancelled, Expired}"

text \<open>Two versions of one run: the identity columns agree.\<close>

definition same_run :: "commission_row \<Rightarrow> commission_row \<Rightarrow> bool" where
  "same_run r r' \<longleftrightarrow> t_id r = t_id r' \<and> t_origin r = t_origin r' \<and> t_goal r = t_goal r'
     \<and> t_session_id r = t_session_id r' \<and> t_created_at r = t_created_at r'"

section \<open>Lemmas\<close>

interpretation run_pk: pk_table t_id readCommissionRun
  by unfold_locales (simp add: readCommissionRun_def)

lemma truncate_run [simp]:
  "t_id (task_list_row.truncate r) = t_id r" "t_created_at (task_list_row.truncate r) = t_created_at r"
  "run_key (task_list_row.truncate r) = run_key r"
  by (simp_all add: task_list_row.truncate_def run_key_def)

interpretation task_pages: keyset_listing run_key "map task_list_row.truncate" listTasks
  by unfold_locales (simp_all add: listTasks_def)

lemmas run_writes = updateTaskStatusDetail_def markNeedsInput_def clearNeedsInput_def updateRunData_def
  updateCommissionStatus_def cancelRun_def markRunsExpiredForSession_def expireRun_def

lemma terminal_edge: "terminal a \<Longrightarrow> status_edge a b \<Longrightarrow> b = a"
  by (auto simp: terminal_def status_edge_def)

lemma update_edge:
  assumes "readCommissionRun rows i = Some r" "\<And>r. t_id (u r) = t_id r"
    "p r \<Longrightarrow> same_run r (u r) \<and> status_edge (t_status r) (t_status (u r))"
  shows "\<exists>r'. readCommissionRun (update_where p u rows) i = Some r' \<and> same_run r r'
     \<and> status_edge (t_status r) (t_status r')"
  using assms run_pk.read_update[of u p rows i] by (auto simp: same_run_def status_edge_def)

lemma run_step_edge:
  assumes "run_step rows rows'" "readCommissionRun rows i = Some r"
  shows "\<exists>r'. readCommissionRun rows' i = Some r' \<and> same_run r r' \<and> status_edge (t_status r) (t_status r')"
  using assms
proof (induction rule: run_step.induct)
  case (insert j goal data s t rows rows')
  then have "readCommissionRun rows' i = Some r"
    unfolding insertCommissionRun_def insert_row_Inr by (auto simp: run_pk.read_append)
  then show ?case by (auto simp: same_run_def status_edge_def)
qed (unfold run_writes, (erule update_edge; auto simp: same_run_def status_edge_def)+)

lemma runs_read:
  assumes "runs rows rows'" "readCommissionRun rows i = Some r"
  shows "\<exists>r'. readCommissionRun rows' i = Some r' \<and> same_run r r' \<and> (terminal (t_status r) \<longrightarrow> t_status r' = t_status r)"
  using assms
proof (induction rule: runs.induct)
  case (stop rows)
  then show ?case by (auto simp: same_run_def)
next
  case (step rows rows' rows'')
  then obtain q where q: "readCommissionRun rows' i = Some q" "same_run r q"
      "terminal (t_status r) \<longrightarrow> t_status q = t_status r" by blast
  obtain r' where "readCommissionRun rows'' i = Some r'" "same_run q r'" "status_edge (t_status q) (t_status r')"
    using run_step_edge[OF step.hyps(2) q(1)] by blast
  then show ?case using q terminal_edge[of "t_status q" "t_status r'"] by (auto simp: same_run_def)
qed

lemma run_keys_distinct:
  assumes "distinct (map t_id rows)" "\<forall>r \<in> set rows. is_well_formed (t_id r)"
  shows "distinct (map run_key rows)"
proof -
  have "inj_on utf8 (t_id ` set rows)" using assms(2) by (auto intro!: inj_onI simp: utf8_inj)
  then have "distinct (map utf8 (map t_id rows))" using assms(1) by (simp only: distinct_map list.set_map simp_thms)
  then have "distinct (map (snd \<circ> run_key) rows)" by (simp add: run_key_def comp_def)
  then show ?thesis by (metis distinct_map map_map)
qed

section \<open>Properties\<close>

text \<open>A task record is never lost, its identity columns (origin, goal, session, creation time) never
  change, and a terminal status absorbs: once a run is completed, failed, denied, expired or
  cancelled, no sequence of writes of this module changes its status.\<close>

theorem terminal_absorbing:
  assumes "runs rows rows'" "readCommissionRun rows i = Some r"
  shows "\<exists>r'. readCommissionRun rows' i = Some r'
     \<and> t_origin r' = t_origin r \<and> t_goal r' = t_goal r \<and> t_session_id r' = t_session_id r
     \<and> t_created_at r' = t_created_at r
     \<and> (t_status r \<in> {Completed, Failed, Denied, Expired, Cancelled} \<longrightarrow> t_status r' = t_status r)"
  using runs_read[OF assms] by (auto simp: same_run_def terminal_def)

definition ex_run :: "run_status \<Rightarrow> commission_row" where
  "ex_run st = \<lparr>t_id = js ''r1'', t_origin = OMcpCommission, t_goal = js ''g'', t_status = st, t_label = None,
     t_created_at = js ''t0'', t_updated_at = js ''t0'', t_data = None, t_session_id = js ''s1'',
     t_status_detail = None, t_awaited_slot_keys = None\<rparr>"

theorem terminal_absorbing_witness:
  "\<exists>r'. readCommissionRun (updateCommissionStatus (js ''r1'') Completed (js ''t1'') [ex_run Expired]) (js ''r1'')
     = Some r' \<and> t_status r' = Expired"
proof -
  have "runs [ex_run Expired] (updateCommissionStatus (js ''r1'') Completed (js ''t1'') [ex_run Expired])"
    by (rule runs.step[OF runs.stop run_step.status])
  moreover have "readCommissionRun [ex_run Expired] (js ''r1'') = Some (ex_run Expired)"
    by (simp add: readCommissionRun_def first_row_def ex_run_def)
  ultimately show ?thesis using terminal_absorbing by (fastforce simp: ex_run_def)
qed

text \<open>One write moves a run only along the status graph: a run parked on missing input goes back to
  running, to cancelled or to expired and nowhere else, so a late completion or confirmation write
  of the turn that parked it is without effect.\<close>

theorem status_graph:
  assumes "run_step rows rows'" "readCommissionRun rows i = Some r" "readCommissionRun rows' i = Some r'"
    "t_status r' \<noteq> t_status r"
  shows "t_status r \<in> {Running, AwaitingConfirmation}
     \<or> t_status r = NeedsInput \<and> t_status r' \<in> {Running, Cancelled, Expired}"
  using run_step_edge[OF assms(1,2)] assms(3,4) by (auto simp: status_edge_def)

theorem status_graph_witness:
  "t_status (ex_run NeedsInput) = NeedsInput
   \<and> (\<exists>r'. readCommissionRun (cancelRun (js ''r1'') (js ''t1'') [ex_run NeedsInput]) (js ''r1'') = Some r'
        \<and> t_status r' = Cancelled)"
proof -
  let ?r = "(ex_run NeedsInput)\<lparr>t_status := Cancelled, t_updated_at := js ''t1''\<rparr>"
  have a: "readCommissionRun [ex_run NeedsInput] (js ''r1'') = Some (ex_run NeedsInput)"
    by (simp add: readCommissionRun_def first_row_def ex_run_def)
  have b: "readCommissionRun (cancelRun (js ''r1'') (js ''t1'') [ex_run NeedsInput]) (js ''r1'') = Some ?r"
    by (simp add: readCommissionRun_def first_row_def ex_run_def cancelRun_def update_where_def)
  have "t_status ?r \<noteq> t_status (ex_run NeedsInput)" by (simp add: ex_run_def)
  from status_graph[OF run_step.cancel a b this] show ?thesis using b by (simp add: ex_run_def)
qed

text \<open>Listing the tasks by keyset pages of any positive size returns the summary of every task exactly
  once, newest first, and stops.\<close>

theorem task_pages_complete:
  assumes "distinct (map t_id rows)" "\<forall>r \<in> set rows. is_well_formed (t_id r)" "0 < limit"
  shows "\<exists>tasks. walk_pages run_key listTasks limit (Suc (length rows)) None rows = Some tasks
     \<and> mset tasks = mset (map task_list_row.truncate rows)
     \<and> sorted_wrt (\<lambda>a b. run_key b < run_key a) tasks"
proof -
  have d: "distinct (map run_key (map task_list_row.truncate rows))"
    using run_keys_distinct[OF assms(1,2)] by (simp add: comp_def)
  show ?thesis
    using task_pages.walk_all[OF d assms(3)] order_desc_strict[OF d] by (simp add: sql_simps)
qed

theorem task_pages_complete_witness:
  "\<exists>tasks. walk_pages run_key listTasks 1 2 None [ex_run Running] = Some tasks
     \<and> mset tasks = {#task_list_row.truncate (ex_run Running)#}"
proof -
  have "distinct (map t_id [ex_run Running])" by simp
  moreover have "\<forall>r \<in> set [ex_run Running]. is_well_formed (t_id r)" by code_simp
  ultimately show ?thesis using task_pages_complete[of "[ex_run Running]" 1] by (auto simp: numeral_2_eq_2)
qed

end
