(* ===== verification/Spend.thy ===== *)
theory Spend
  imports JsPrelude
begin

text \<open>
  The spend evaluator of \<open>packages/governance/src/evaluate-spend.ts\<close>. Amounts are arbitrary
  JavaScript numbers, and the additions are the double-precision ones (\<open>dbl_add\<close>), so that the
  lemmas say what the rounding above \<open>2^53\<close> can and cannot change.
\<close>

section \<open>evaluate-spend.ts\<close>

definition DEFAULT_MONTHLY_LIMIT_CENTS :: int where
  "DEFAULT_MONTHLY_LIMIT_CENTS = 5000"

definition DEFAULT_SESSION_LIMIT_CENTS :: int where
  "DEFAULT_SESSION_LIMIT_CENTS = 2000"

datatype spend_window = SessionWindow | MonthWindow

record spend_limits =
  sessionLimitCents :: jsnum
  monthLimitCents :: jsnum

record spend_totals =
  sessionSpentCents :: jsnum
  monthSpentCents :: jsnum

record spend_check_input =
  amountCents :: jsnum
  limits :: spend_limits
  totals :: "spend_totals option"

record spend_breach =
  window :: spend_window
  limitCents :: jsnum
  spentCents :: jsnum

datatype spend_check_result = Within | Exceeds "spend_breach list" | Unavailable

text \<open>A number the evaluator accepts: \<open>Number.isSafeInteger(v)\<close> and \<open>v >= 0\<close>.\<close>

definition usable :: "jsnum \<Rightarrow> bool" where
  "usable v \<longleftrightarrow> is_safe_integer v \<and> \<not> num_val v < 0"

definition cents :: "jsnum \<Rightarrow> int" where
  "cents v = \<lfloor>num_val v\<rfloor>"

text \<open>\<open>spent + amount > limit\<close>, on numbers the guard accepted.\<close>

definition breached :: "jsnum \<Rightarrow> jsnum \<Rightarrow> jsnum \<Rightarrow> bool" where
  "breached spent amount limit \<longleftrightarrow> dbl_add (cents spent) (cents amount) > cents limit"

definition evaluateSpend :: "spend_check_input \<Rightarrow> spend_check_result" where
  "evaluateSpend input =
     (case totals input of None \<Rightarrow> Unavailable
      | Some tot \<Rightarrow>
        (let amount = amountCents input; lim = limits input;
             values = [amount, sessionLimitCents lim, monthLimitCents lim,
                       sessionSpentCents tot, monthSpentCents tot] in
         if \<exists>v \<in> set values. \<not> usable v then Unavailable
         else (let breaches =
             (if breached (sessionSpentCents tot) amount (sessionLimitCents lim)
              then [\<lparr>window = SessionWindow, limitCents = sessionLimitCents lim,
                     spentCents = sessionSpentCents tot\<rparr>] else [])
             @ (if breached (monthSpentCents tot) amount (monthLimitCents lim)
              then [\<lparr>window = MonthWindow, limitCents = monthLimitCents lim,
                     spentCents = monthSpentCents tot\<rparr>] else [])
           in if length breaches > 0 then Exceeds breaches else Within)))"

text \<open>The specification over unbounded integers.\<close>

definition within_limits :: "int \<Rightarrow> int \<Rightarrow> int \<Rightarrow> int \<Rightarrow> int \<Rightarrow> bool" where
  "within_limits amount sessionLimit monthLimit sessionSpent monthSpent \<longleftrightarrow>
     0 \<le> amount \<and> 0 \<le> sessionSpent \<and> 0 \<le> monthSpent
     \<and> sessionSpent + amount \<le> sessionLimit \<and> monthSpent + amount \<le> monthLimit"

section \<open>Lemmas\<close>

lemma usable_JInt: "usable v \<longleftrightarrow> (\<exists>i. v = JInt i \<and> 0 \<le> i \<and> i \<le> max_safe)"
proof (cases v)
  case (Fin q)
  show ?thesis
  proof
    assume u: "usable v"
    then obtain i where i: "q = of_int i" using Fin by (auto simp: usable_def integral_def dest: sym)
    have "\<bar>q\<bar> \<le> of_int max_safe" "\<not> q < 0"
      using u Fin by (auto simp: usable_def)
    then have "of_int \<bar>i\<bar> \<le> (of_int max_safe :: rat)" and nn: "\<not> (of_int i :: rat) < 0"
      by (simp_all only: i of_int_abs not_False_eq_True)
    then have "\<bar>i\<bar> \<le> max_safe" using of_int_le_iff by blast
    then show "\<exists>i. v = JInt i \<and> 0 \<le> i \<and> i \<le> max_safe"
      using Fin i nn by (intro exI[of _ i]) simp
  next
    assume "\<exists>i. v = JInt i \<and> 0 \<le> i \<and> i \<le> max_safe"
    then obtain i where i: "v = JInt i" "0 \<le> i" "i \<le> max_safe" by blast
    then have "of_int \<bar>i\<bar> \<le> (of_int max_safe :: rat)" using of_int_le_iff[of "\<bar>i\<bar>" max_safe] by simp
    then show "usable v" using i by (simp add: usable_def integral_def)
  qed
qed (simp_all add: usable_def)

lemma cents_JInt [simp]: "cents (JInt i) = i"
  by (simp add: cents_def)

lemma usable_cents: "usable v \<Longrightarrow> v = JInt (cents v) \<and> 0 \<le> cents v \<and> cents v \<le> max_safe"
  by (auto simp: usable_JInt)

text \<open>The rounded comparison agrees with exact integers: a limit is itself below \<open>2^53\<close>.\<close>

lemma breached_exact:
  "usable s \<Longrightarrow> usable a \<Longrightarrow> usable l \<Longrightarrow> breached s a l \<longleftrightarrow> cents s + cents a > cents l"
  unfolding breached_def using usable_cents dbl_add_gt by metis

lemma evaluateSpend_Within:
  "evaluateSpend \<lparr>amountCents = a, limits = \<lparr>sessionLimitCents = sl, monthLimitCents = ml\<rparr>,
      totals = Some \<lparr>sessionSpentCents = ss, monthSpentCents = ms\<rparr>\<rparr> = Within
   \<longleftrightarrow> (\<forall>v \<in> {a, sl, ml, ss, ms}. usable v)
      \<and> within_limits (cents a) (cents sl) (cents ml) (cents ss) (cents ms)"
  using usable_cents
  by (auto simp: evaluateSpend_def Let_def breached_exact within_limits_def)

section \<open>Properties\<close>

text \<open>The spend check computes in exact integer arithmetic: although the sums are rounded doubles
  above \<open>2^53\<close>, a quote is within both caps, over the session cap or over the month cap exactly
  when the integer sums are; any value that is not a non-negative safe integer, and an unreadable
  ledger, give \<open>unavailable\<close>, never \<open>within\<close>.\<close>

theorem spend_exact:
  "evaluateSpend \<lparr>amountCents = a, limits = \<lparr>sessionLimitCents = sl, monthLimitCents = ml\<rparr>, totals = tot\<rparr> =
     (case tot of None \<Rightarrow> Unavailable
      | Some t \<Rightarrow>
        if usable a \<and> usable sl \<and> usable ml \<and> usable (sessionSpentCents t) \<and> usable (monthSpentCents t)
        then (let overSession = cents (sessionSpentCents t) + cents a > cents sl;
                  overMonth = cents (monthSpentCents t) + cents a > cents ml;
                  bs = \<lparr>window = SessionWindow, limitCents = sl, spentCents = sessionSpentCents t\<rparr>;
                  bm = \<lparr>window = MonthWindow, limitCents = ml, spentCents = monthSpentCents t\<rparr> in
              if overSession \<and> overMonth then Exceeds [bs, bm]
              else if overSession then Exceeds [bs]
              else if overMonth then Exceeds [bm]
              else Within)
        else Unavailable)"
  by (cases tot) (auto simp: evaluateSpend_def Let_def breached_exact)

end
