(* ===== verification/SpendLedger.thy ===== *)
theory SpendLedger
  imports Spend IsoDate
begin

text \<open>
  The \<open>spend_ledger\<close> and \<open>user_settings\<close> tables:
  \<open>packages/engine/src/data/helpers/spend-ledger.ts\<close> and \<open>user-settings.ts\<close>, with the settings
  methods of \<open>UserAgent\<close>. Both spend windows are sums over the ledger. The lemmas cover replayed
  commits, what a commit adds to which window, and the settings round trip with its fail-safe
  defaults.
\<close>

section \<open>spend-ledger.ts\<close>

record ledger_row =
  l_id :: jsstr
  l_session_id :: jsstr
  l_created_at :: jsstr
  l_service :: jsstr
  l_verb :: jsstr
  l_amount_cents :: int
  l_quote_id :: jsstr
  l_idempotency_key :: jsstr
  l_settled_amount_cents :: "int option"
  l_audit_entry_id :: jsstr

type_synonym ledger = "ledger_row list"

record ledger_insert =
  li_id :: jsstr
  li_sessionId :: jsstr
  li_createdAt :: jsstr
  li_service :: jsstr
  li_verb :: jsstr
  li_amountCents :: jsnum
  li_quoteId :: jsstr
  li_idempotencyKey :: jsstr
  li_auditEntryId :: jsstr

text \<open>\<open>ISO_UTC_MILLIS\<close>: the regular expression, \<open>d\<close> standing for a digit.\<close>

definition ISO_UTC_MILLIS :: "jsstr \<Rightarrow> bool" where
  "ISO_UTC_MILLIS s \<longleftrightarrow>
     list_all2 (\<lambda>p c. if p = CHR ''d'' then is_digit c else c = of_char p)
       ''dddd-dd-ddTdd:dd:dd.dddZ'' s"

datatype ledger_error = BadAmount | BadCreatedAt | LedgerSql sql_error

text \<open>
  The upsert: a row with the same \<open>(idempotency_key, quote_id)\<close> makes the statement do nothing; any
  other clash, that is the primary key, throws.
\<close>

definition insertSpendInTxn :: "ledger_insert \<Rightarrow> ledger \<Rightarrow> ledger_error + ledger" where
  "insertSpendInTxn row rows =
     (if \<not> is_safe_integer (li_amountCents row) \<or> num_val (li_amountCents row) < 0 then Inl BadAmount
      else if \<not> ISO_UTC_MILLIS (li_createdAt row) then Inl BadCreatedAt
      else if \<exists>r \<in> set rows. l_idempotency_key r = li_idempotencyKey row \<and> l_quote_id r = li_quoteId row
      then Inr rows
      else (case insert_row (\<lambda>r row. l_id r = l_id row)
          \<lparr>l_id = li_id row, l_session_id = li_sessionId row, l_created_at = li_createdAt row,
           l_service = li_service row, l_verb = li_verb row, l_amount_cents = \<lfloor>num_val (li_amountCents row)\<rfloor>,
           l_quote_id = li_quoteId row, l_idempotency_key = li_idempotencyKey row,
           l_settled_amount_cents = None, l_audit_entry_id = li_auditEntryId row\<rparr> rows of
            Inl e \<Rightarrow> Inl (LedgerSql e) | Inr rows' \<Rightarrow> Inr rows'))"

text \<open>\<open>COALESCE(SUM(amount_cents), 0)\<close> over the rows of a window.\<close>

definition sum_cents :: "(ledger_row \<Rightarrow> bool) \<Rightarrow> ledger \<Rightarrow> int" where
  "sum_cents p rows = sum_list (map l_amount_cents (filter p rows))"

definition sumSessionSpendCents :: "ledger \<Rightarrow> jsstr \<Rightarrow> int" where
  "sumSessionSpendCents rows s = sum_cents (\<lambda>r. l_session_id r = s) rows"

definition sumMonthSpendCents :: "ledger \<Rightarrow> jsstr \<Rightarrow> int" where
  "sumMonthSpendCents rows monthStart = sum_cents (\<lambda>r. utf8 monthStart \<le> utf8 (l_created_at r)) rows"

section \<open>user-settings.ts\<close>

record setting_row =
  key :: jsstr
  val :: jsstr

type_synonym settings = "setting_row list"

definition SPEND_LIMIT_MONTHLY_KEY :: jsstr where
  "SPEND_LIMIT_MONTHLY_KEY = js ''spend_limit_monthly_cents''"

definition SPEND_LIMIT_SESSION_KEY :: jsstr where
  "SPEND_LIMIT_SESSION_KEY = js ''spend_limit_session_cents''"

record spend_limits_read =
  lr_sessionLimitCents :: int
  lr_monthLimitCents :: int
  lr_sessionIsDefault :: bool
  lr_monthIsDefault :: bool

definition read_setting :: "settings \<Rightarrow> jsstr \<Rightarrow> setting_row option" where
  "read_setting rows k = first_row (filter (\<lambda>r. key r = k) rows)"

definition getSetting :: "settings \<Rightarrow> jsstr \<Rightarrow> jsstr option" where
  "getSetting rows k = map_option val (read_setting rows k)"

definition setSetting :: "jsstr \<Rightarrow> jsstr \<Rightarrow> settings \<Rightarrow> settings" where
  "setSetting k v rows =
     (case insert_row (\<lambda>r row. key r = key row) \<lparr>key = k, val = v\<rparr> rows of
        Inl _ \<Rightarrow> update_where (\<lambda>r. key r = k) (\<lambda>r. r\<lparr>val := v\<rparr>) rows
      | Inr rows' \<Rightarrow> rows')"

text \<open>\<open>/^\d+$/\<close> and \<open>Number\<close> of a run of digits: exact up to \<open>2^53 - 1\<close>, and never a safe integer
  above it, since rounding to a double is monotone.\<close>

definition parseLimitCents :: "jsstr option \<Rightarrow> int option" where
  "parseLimitCents v =
     (case v of None \<Rightarrow> None
      | Some s \<Rightarrow>
        if \<not> (s \<noteq> [] \<and> (\<forall>c \<in> set s. is_digit c)) then None
        else if int (nat_of_digits s) > max_safe then None
        else Some (int (nat_of_digits s)))"

text \<open>The map of stored values: a later row of the same key overwrites an earlier one.\<close>

definition stored_limits :: "settings \<Rightarrow> jsstr \<rightharpoonup> jsstr" where
  "stored_limits rows =
     map_of (rev (map (\<lambda>r. (key r, val r))
       (filter (\<lambda>r. key r \<in> {SPEND_LIMIT_MONTHLY_KEY, SPEND_LIMIT_SESSION_KEY}) rows)))"

definition readSpendLimitsCents :: "settings \<Rightarrow> spend_limits_read" where
  "readSpendLimitsCents rows =
     (let stored = stored_limits rows;
          month = parseLimitCents (stored SPEND_LIMIT_MONTHLY_KEY);
          session = parseLimitCents (stored SPEND_LIMIT_SESSION_KEY)
      in \<lparr>lr_sessionLimitCents = (case session of Some n \<Rightarrow> n | None \<Rightarrow> DEFAULT_SESSION_LIMIT_CENTS),
          lr_monthLimitCents = (case month of Some n \<Rightarrow> n | None \<Rightarrow> DEFAULT_MONTHLY_LIMIT_CENTS),
          lr_sessionIsDefault = (session = None), lr_monthIsDefault = (month = None)\<rparr>)"

section \<open>user-agent.ts: month boundary and limit writes\<close>

text \<open>\<open>monthStartIso\<close>: the first instant of the clock's UTC month.\<close>

definition month_start_ms :: "int \<Rightarrow> int" where
  "month_start_ms now_ms =
     (let d = now_ms div msPerDay; y = year_from_day d;
          m = month_from_day (leap y) (d - day_from_year y)
      in (day_from_year y + month_start (leap y) m) * msPerDay)"

definition monthStartIso :: "int \<Rightarrow> jsstr" where
  "monthStartIso now_ms = iso (month_start_ms now_ms)"

text \<open>The writes of \<open>writeSpendLimits\<close>; the contract guarantees non-negative integer cents.\<close>

definition writeSpendLimits :: "nat option \<Rightarrow> nat option \<Rightarrow> settings \<Rightarrow> settings" where
  "writeSpendLimits month session rows =
     (let rows = (case month of Some n \<Rightarrow> setSetting SPEND_LIMIT_MONTHLY_KEY (js_of_nat n) rows | None \<Rightarrow> rows)
      in case session of Some n \<Rightarrow> setSetting SPEND_LIMIT_SESSION_KEY (js_of_nat n) rows | None \<Rightarrow> rows)"

text \<open>What every ledger the helper writes satisfies.\<close>

definition ledger_inv :: "ledger \<Rightarrow> bool" where
  "ledger_inv rows \<longleftrightarrow> (\<forall>r \<in> set rows. 0 \<le> l_amount_cents r \<and> ISO_UTC_MILLIS (l_created_at r))
     \<and> distinct (map (\<lambda>r. (l_idempotency_key r, l_quote_id r)) rows) \<and> distinct (map l_id rows)"

section \<open>Lemmas\<close>

interpretation setting_pk: pk_table key read_setting
  by unfold_locales (simp add: read_setting_def)

lemma insertSpendInTxn_cases:
  assumes "insertSpendInTxn row rows = Inr rows'"
  obtains (replay) r where "r \<in> set rows" "l_idempotency_key r = li_idempotencyKey row"
      "l_quote_id r = li_quoteId row" "rows' = rows" "usable (li_amountCents row)"
  | (counted) r where "rows' = rows @ [r]" "usable (li_amountCents row)" "l_amount_cents r = cents (li_amountCents row)"
      "l_session_id r = li_sessionId row" "l_created_at r = li_createdAt row" "ISO_UTC_MILLIS (li_createdAt row)"
      "l_idempotency_key r = li_idempotencyKey row" "l_quote_id r = li_quoteId row" "l_id r = li_id row"
      "l_id r \<notin> l_id ` set rows" "l_audit_entry_id r = li_auditEntryId row"
      "(l_idempotency_key r, l_quote_id r) \<notin> (\<lambda>r. (l_idempotency_key r, l_quote_id r)) ` set rows"
proof (cases "\<exists>r \<in> set rows. l_idempotency_key r = li_idempotencyKey row \<and> l_quote_id r = li_quoteId row")
  case True
  then obtain r where r: "r \<in> set rows" "l_idempotency_key r = li_idempotencyKey row" "l_quote_id r = li_quoteId row"
    by blast
  have "rows' = rows" "usable (li_amountCents row)"
    using assms True by (simp_all add: insertSpendInTxn_def usable_def split: if_splits)
  then show ?thesis using r replay by blast
next
  case False
  let ?r = "\<lparr>l_id = li_id row, l_session_id = li_sessionId row, l_created_at = li_createdAt row,
           l_service = li_service row, l_verb = li_verb row, l_amount_cents = \<lfloor>num_val (li_amountCents row)\<rfloor>,
           l_quote_id = li_quoteId row, l_idempotency_key = li_idempotencyKey row,
           l_settled_amount_cents = None, l_audit_entry_id = li_auditEntryId row\<rparr>"
  have "rows' = rows @ [?r]" "li_id row \<notin> l_id ` set rows" "usable (li_amountCents row)"
    "ISO_UTC_MILLIS (li_createdAt row)"
    using assms False by (auto simp: insertSpendInTxn_def insert_row_def usable_def split: if_splits)
  moreover have "(li_idempotencyKey row, li_quoteId row) \<notin> (\<lambda>r. (l_idempotency_key r, l_quote_id r)) ` set rows"
    using False by auto
  ultimately show ?thesis by (intro counted[of ?r]) (simp_all add: cents_def)
qed

lemma insertSpendInTxn_inv: "insertSpendInTxn row rows = Inr rows' \<Longrightarrow> ledger_inv rows \<Longrightarrow> ledger_inv rows'"
  by (erule insertSpendInTxn_cases) (auto simp: ledger_inv_def dest: usable_cents)

lemma sum_cents_append [simp]: "sum_cents p (rows @ [r]) = sum_cents p rows + (if p r then l_amount_cents r else 0)"
  by (simp add: sum_cents_def)

lemma sum_cents_nonneg: "ledger_inv rows \<Longrightarrow> 0 \<le> sum_cents p rows"
  by (auto simp: sum_cents_def ledger_inv_def intro!: sum_list_nonneg)

lemma getSetting_setSetting: "getSetting (setSetting k v rows) j = (if j = k then Some v else getSetting rows j)"
proof (cases "\<exists>r \<in> set rows. key r = k")
  case True
  then obtain r where r: "read_setting rows k = Some r"
    using setting_pk.read_None[of rows k] by (cases "read_setting rows k") auto
  have "setSetting k v rows = update_where (\<lambda>r. key r = k) (\<lambda>r. r\<lparr>val := v\<rparr>) rows"
    using True by (auto simp: setSetting_def insert_row_def)
  then show ?thesis
    using r setting_pk.read_update[of "\<lambda>r. r\<lparr>val := v\<rparr>" "\<lambda>r. key r = k" rows j]
    by (cases "read_setting rows j") (auto simp: getSetting_def dest: setting_pk.read_SomeD)
next
  case False
  then have i: "insert_row (\<lambda>r row. key r = key row) \<lparr>key = k, val = v\<rparr> rows = Inr (setSetting k v rows)"
    by (auto simp: setSetting_def insert_row_def)
  show ?thesis using setting_pk.read_insert[OF i, of j] by (auto simp: getSetting_def)
qed

lemma distinct_setSetting: "distinct (map key rows) \<Longrightarrow> distinct (map key (setSetting k v rows))"
  by (auto simp: setSetting_def insert_row_def update_where_def comp_def if_distrib cong: if_cong)

text \<open>With one row per key, the map of stored values is the lookup.\<close>

lemma stored_limits_getSetting:
  assumes "distinct (map key rows)" "k \<in> {SPEND_LIMIT_MONTHLY_KEY, SPEND_LIMIT_SESSION_KEY}"
  shows "stored_limits rows k = getSetting rows k"
proof -
  let ?p = "\<lambda>r. key r \<in> {SPEND_LIMIT_MONTHLY_KEY, SPEND_LIMIT_SESSION_KEY}"
  let ?kv = "map (\<lambda>r. (key r, val r)) (filter ?p rows)"
  have "map fst ?kv = map key (filter ?p rows)" by (simp add: comp_def)
  then have d: "distinct (map fst ?kv)" using assms(1) by (simp only: distinct_map_filter)
  then have "distinct (map fst (rev ?kv))" by (simp only: rev_map[symmetric] distinct_rev)
  then have "map_of (rev ?kv) = map_of ?kv" using d by (intro map_of_inject_set[THEN iffD2]) simp_all
  moreover have "map_of ?kv k = getSetting rows k"
    using assms(2) by (induction rows) (auto simp: getSetting_def read_setting_def first_row_def)
  ultimately show ?thesis by (simp add: stored_limits_def)
qed

lemma parseLimitCents_js_of_nat:
  "int n \<le> max_safe \<Longrightarrow> parseLimitCents (Some (js_of_nat n)) = Some (int n)"
  using digits_js_of_nat by (auto simp: parseLimitCents_def js_of_nat_neq_Nil nat_of_digits_js_of_nat)

lemma parseLimitCents_bounds: "parseLimitCents v = Some n \<Longrightarrow> 0 \<le> n \<and> n \<le> max_safe"
  by (auto simp: parseLimitCents_def split: option.splits if_splits)

lemma limit_keys_distinct: "SPEND_LIMIT_MONTHLY_KEY \<noteq> SPEND_LIMIT_SESSION_KEY"
  by (simp add: SPEND_LIMIT_MONTHLY_KEY_def SPEND_LIMIT_SESSION_KEY_def js_def)

lemma limits_usable:
  "usable (JInt (lr_sessionLimitCents (readSpendLimitsCents rows)))"
  "usable (JInt (lr_monthLimitCents (readSpendLimitsCents rows)))"
  by (auto simp: readSpendLimitsCents_def Let_def usable_JInt DEFAULT_SESSION_LIMIT_CENTS_def
      DEFAULT_MONTHLY_LIMIT_CENTS_def max_safe_def
      dest!: parseLimitCents_bounds[unfolded max_safe_def] split: option.split)

section \<open>Properties\<close>

text \<open>A committed spend is counted exactly once: recording it adds its amount to its own session's
  window and to every month window that begins at or before its timestamp, and to no other; recording
  the same idempotency key and quote again, whatever the other fields, changes nothing, while the
  same key under another quote is a new row.\<close>

theorem spend_counted_once:
  assumes "insertSpendInTxn row rows = Inr rows'"
  shows "(if \<exists>r \<in> set rows. l_idempotency_key r = li_idempotencyKey row \<and> l_quote_id r = li_quoteId row
          then rows' = rows
          else (\<forall>s. sumSessionSpendCents rows' s =
                  sumSessionSpendCents rows s + (if s = li_sessionId row then cents (li_amountCents row) else 0))
             \<and> (\<forall>m. sumMonthSpendCents rows' m =
                  sumMonthSpendCents rows m + (if utf8 m \<le> utf8 (li_createdAt row) then cents (li_amountCents row) else 0)))
     \<and> 0 \<le> cents (li_amountCents row)
     \<and> (\<forall>again rows''. li_idempotencyKey again = li_idempotencyKey row \<and> li_quoteId again = li_quoteId row
          \<and> insertSpendInTxn again rows' = Inr rows'' \<longrightarrow> rows'' = rows')"
  using assms
proof (cases rule: insertSpendInTxn_cases)
  case (replay r)
  have "rows'' = rows'" if "li_idempotencyKey again = li_idempotencyKey row" "li_quoteId again = li_quoteId row"
    "insertSpendInTxn again rows' = Inr rows''" for again rows''
    using that(3) by (cases rule: insertSpendInTxn_cases) (use that replay in force)+
  then show ?thesis using replay usable_cents by auto
next
  case (counted r)
  have "rows'' = rows'" if "li_idempotencyKey again = li_idempotencyKey row" "li_quoteId again = li_quoteId row"
    "insertSpendInTxn again rows' = Inr rows''" for again rows''
    using that(3) by (cases rule: insertSpendInTxn_cases) (use that counted in auto)
  moreover have "\<not> (\<exists>r \<in> set rows. l_idempotency_key r = li_idempotencyKey row \<and> l_quote_id r = li_quoteId row)"
    using counted(7,8,12) by force
  ultimately show ?thesis
    using counted usable_cents by (auto simp: sumSessionSpendCents_def sumMonthSpendCents_def)
qed

definition ex_spend :: "string \<Rightarrow> int \<Rightarrow> ledger_insert" where
  "ex_spend i n = \<lparr>li_id = js i, li_sessionId = js ''s1'', li_createdAt = js ''2026-03-02T00:00:00.000Z'',
     li_service = js ''shop'', li_verb = js ''buy'', li_amountCents = JInt n, li_quoteId = js ''q1'',
     li_idempotencyKey = js ''k1'', li_auditEntryId = js ''e1''\<rparr>"

theorem spend_counted_once_witness:
  "\<exists>rows'. insertSpendInTxn (ex_spend ''a'' 250) [] = Inr rows' \<and> sumSessionSpendCents rows' (js ''s1'') = 250
     \<and> insertSpendInTxn (ex_spend ''b'' 250) rows' = Inr rows'"
proof -
  have "ISO_UTC_MILLIS (js ''2026-03-02T00:00:00.000Z'')" by code_simp
  then have ok: "li_amountCents (ex_spend i 250) = JInt 250" "ISO_UTC_MILLIS (li_createdAt (ex_spend i 250))" for i
    by (simp_all add: ex_spend_def)
  have u: "usable (JInt 250)" by (simp add: usable_JInt max_safe_def)
  obtain rows' where r: "insertSpendInTxn (ex_spend ''a'' 250) [] = Inr rows'"
    using ok[of "''a''"] u by (simp add: insertSpendInTxn_def insert_row_def usable_def)
  note c = spend_counted_once[OF r]
  have s: "sumSessionSpendCents rows' (js ''s1'') = 250"
    using c by (simp add: ex_spend_def sumSessionSpendCents_def sum_cents_def cents_def)
  have "rows' \<noteq> []" using s by (auto simp: sumSessionSpendCents_def sum_cents_def)
  then obtain rows'' where b: "insertSpendInTxn (ex_spend ''b'' 250) rows' = Inr rows''"
    using r ok u by (auto simp: insertSpendInTxn_def insert_row_def usable_def ex_spend_def split: if_splits)
  moreover have "li_idempotencyKey (ex_spend ''b'' 250) = li_idempotencyKey (ex_spend ''a'' 250)"
    "li_quoteId (ex_spend ''b'' 250) = li_quoteId (ex_spend ''a'' 250)" by (simp_all add: ex_spend_def)
  ultimately have "rows'' = rows'" using c by blast
  then show ?thesis using b r s by blast
qed

text \<open>Writing spend limits and reading them back gives the written amounts; a field left out keeps its
  stored limit.\<close>

theorem limits_roundtrip:
  assumes "distinct (map key rows)" "\<forall>n. month = Some n \<longrightarrow> int n \<le> max_safe" "\<forall>n. session = Some n \<longrightarrow> int n \<le> max_safe"
  shows "readSpendLimitsCents (writeSpendLimits month session rows) =
     \<lparr>lr_sessionLimitCents = (case session of Some n \<Rightarrow> int n | None \<Rightarrow> lr_sessionLimitCents (readSpendLimitsCents rows)),
      lr_monthLimitCents = (case month of Some n \<Rightarrow> int n | None \<Rightarrow> lr_monthLimitCents (readSpendLimitsCents rows)),
      lr_sessionIsDefault = (session = None \<and> lr_sessionIsDefault (readSpendLimitsCents rows)),
      lr_monthIsDefault = (month = None \<and> lr_monthIsDefault (readSpendLimitsCents rows))\<rparr>"
proof -
  have d: "distinct (map key (writeSpendLimits month session rows))"
    using assms(1) by (auto simp: writeSpendLimits_def Let_def distinct_setSetting split: option.split)
  have g: "getSetting (writeSpendLimits month session rows) SPEND_LIMIT_MONTHLY_KEY =
      (case month of Some n \<Rightarrow> Some (js_of_nat n) | None \<Rightarrow> getSetting rows SPEND_LIMIT_MONTHLY_KEY)"
    "getSetting (writeSpendLimits month session rows) SPEND_LIMIT_SESSION_KEY =
      (case session of Some n \<Rightarrow> Some (js_of_nat n) | None \<Rightarrow> getSetting rows SPEND_LIMIT_SESSION_KEY)"
    using limit_keys_distinct
    by (auto simp: writeSpendLimits_def Let_def getSetting_setSetting split: option.split)
  have st: "stored_limits (writeSpendLimits month session rows) SPEND_LIMIT_MONTHLY_KEY =
      (case month of Some n \<Rightarrow> Some (js_of_nat n) | None \<Rightarrow> stored_limits rows SPEND_LIMIT_MONTHLY_KEY)"
    "stored_limits (writeSpendLimits month session rows) SPEND_LIMIT_SESSION_KEY =
      (case session of Some n \<Rightarrow> Some (js_of_nat n) | None \<Rightarrow> stored_limits rows SPEND_LIMIT_SESSION_KEY)"
    using g stored_limits_getSetting[OF d] stored_limits_getSetting[OF assms(1)]
    by (simp_all split: option.split)
  show ?thesis
    unfolding readSpendLimitsCents_def Let_def st using assms(2,3)
    by (cases month; cases session) (simp_all add: parseLimitCents_js_of_nat)
qed

theorem limits_roundtrip_witness:
  "lr_monthLimitCents (readSpendLimitsCents (writeSpendLimits (Some 7500) None [])) = 7500
   \<and> lr_sessionLimitCents (readSpendLimitsCents (writeSpendLimits (Some 7500) None [])) = 2000"
proof -
  have "lr_sessionLimitCents (readSpendLimitsCents []) = 2000"
    by (simp add: readSpendLimitsCents_def stored_limits_def parseLimitCents_def DEFAULT_SESSION_LIMIT_CENTS_def)
  then show ?thesis using limits_roundtrip[of "[]" "Some 7500" None] by (simp add: max_safe_def)
qed

end
