(* ===== verification/Services.thy ===== *)
theory Services
  imports JsPrelude
begin

text \<open>
  Connections: the \<open>connected_services\<close> and \<open>oauth_state\<close> tables
  (\<open>packages/engine/src/data/helpers/connected-services.ts\<close>, \<open>oauth-state.ts\<close>) and the connect-flow
  methods of \<open>UserAgent\<close> over them. Expiry is the JavaScript comparison of ISO texts, the clock's
  text is an argument. The lemmas show that an authorization state is consumed at most once, that a
  new flow supersedes only pending rows of its service, and that a credential refresh is a
  compare-and-swap.
\<close>

section \<open>connected-services.ts\<close>

record service_row =
  sv_service :: jsstr
  sv_connected_at :: jsstr
  sv_credential :: "jsstr option"

type_synonym service_table = "service_row list"

definition listConnectedServices :: "service_table \<Rightarrow> (jsstr \<times> jsstr) list" where
  "listConnectedServices rows =
     map (\<lambda>r. (sv_service r, sv_connected_at r)) (order_asc (\<lambda>r. utf8 (sv_connected_at r)) rows)"

definition listConnectedServicesWithCredentialPresence ::
  "service_table \<Rightarrow> (jsstr \<times> jsstr \<times> nat) list" where
  "listConnectedServicesWithCredentialPresence rows =
     map (\<lambda>r. (sv_service r, sv_connected_at r, if sv_credential r \<noteq> None then 1 else 0))
       (order_asc (\<lambda>r. utf8 (sv_connected_at r)) rows)"

definition connectService :: "jsstr \<Rightarrow> jsstr \<Rightarrow> jsstr option \<Rightarrow> service_table \<Rightarrow> service_table" where
  "connectService now_text service credential rows =
     (case insert_row (\<lambda>r row. sv_service r = sv_service row)
         \<lparr>sv_service = service, sv_connected_at = now_text, sv_credential = credential\<rparr> rows of
        Inr rows' \<Rightarrow> rows'
      | Inl _ \<Rightarrow> update_where (\<lambda>r. sv_service r = service) (\<lambda>r. r\<lparr>sv_credential := credential\<rparr>) rows)"

definition read_service :: "service_table \<Rightarrow> jsstr \<Rightarrow> service_row option" where
  "read_service rows service = first_row (filter (\<lambda>r. sv_service r = service) rows)"

text \<open>\<open>RETURNING service\<close> yields the matched rows.\<close>

definition disconnectService :: "jsstr \<Rightarrow> service_table \<Rightarrow> bool \<times> service_table" where
  "disconnectService service rows =
     (length (filter (\<lambda>r. sv_service r = service) rows) > 0, delete_where (\<lambda>r. sv_service r = service) rows)"

definition isServiceConnected :: "service_table \<Rightarrow> jsstr \<Rightarrow> bool" where
  "isServiceConnected rows service \<longleftrightarrow> length (take 1 (filter (\<lambda>r. sv_service r = service) rows)) > 0"

definition readCredential :: "service_table \<Rightarrow> jsstr \<Rightarrow> jsstr option" where
  "readCredential rows service =
     (case read_service rows service of None \<Rightarrow> None | Some r \<Rightarrow> sv_credential r)"

definition writeCredential ::
  "jsstr \<Rightarrow> jsstr \<Rightarrow> jsstr option \<Rightarrow> service_table \<Rightarrow> bool \<times> service_table" where
  "writeCredential service ciphertext expected rows =
     (let p = (case expected of
            None \<Rightarrow> (\<lambda>r. sv_service r = service)
          | Some c \<Rightarrow> (\<lambda>r. sv_service r = service \<and> sv_credential r = Some c))
      in (length (filter p rows) > 0, update_where p (\<lambda>r. r\<lparr>sv_credential := Some ciphertext\<rparr>) rows))"

section \<open>oauth-state.ts\<close>

datatype oauth_status = OAuthDenied

record oauth_data =
  o_code_verifier :: jsstr
  o_code_challenge :: jsstr
  o_service :: jsstr
  o_auth_code :: "jsstr option"
  o_created_at :: jsstr
  o_expires_at :: jsstr
  o_status :: "oauth_status option"

record oauth_row = oauth_data +
  o_state_key :: jsstr

type_synonym oauth_table = "oauth_row list"

definition insertOAuthState :: "jsstr \<Rightarrow> oauth_data \<Rightarrow> oauth_table \<Rightarrow> sql_error + oauth_table" where
  "insertOAuthState k d =
     insert_row (\<lambda>r row. o_state_key r = o_state_key row) (oauth_data.extend d (oauth_row.fields k))"

definition read_oauth_row :: "oauth_table \<Rightarrow> jsstr \<Rightarrow> oauth_row option" where
  "read_oauth_row rows k = first_row (filter (\<lambda>r. o_state_key r = k) rows)"

definition readOAuthState :: "oauth_table \<Rightarrow> jsstr \<Rightarrow> oauth_data option" where
  "readOAuthState rows k = map_option oauth_data.truncate (read_oauth_row rows k)"

definition deleteOAuthState :: "jsstr \<Rightarrow> oauth_table \<Rightarrow> oauth_table" where
  "deleteOAuthState k = delete_where (\<lambda>r. o_state_key r = k)"

definition markOAuthStateDenied :: "jsstr \<Rightarrow> oauth_table \<Rightarrow> oauth_table" where
  "markOAuthStateDenied k = update_where (\<lambda>r. o_state_key r = k) (\<lambda>r. r\<lparr>o_status := Some OAuthDenied\<rparr>)"

definition deleteOAuthStateByService :: "jsstr \<Rightarrow> oauth_table \<Rightarrow> oauth_table" where
  "deleteOAuthStateByService service = delete_where (\<lambda>r. o_service r = service \<and> o_status r = None)"

section \<open>user-agent.ts: connect flows\<close>

definition isOAuthStateExpired :: "jsstr \<Rightarrow> jsstr \<Rightarrow> bool" where
  "isOAuthStateExpired now_text expiresAt \<longleftrightarrow> expiresAt \<le> now_text"

text \<open>One transaction: a failing insert rolls the delete back.\<close>

definition storeOAuthState :: "jsstr \<Rightarrow> oauth_data \<Rightarrow> oauth_table \<Rightarrow> sql_error + oauth_table" where
  "storeOAuthState k d rows = insertOAuthState k d (deleteOAuthStateByService (o_service d) rows)"

definition loadOAuthState :: "jsstr \<Rightarrow> oauth_table \<Rightarrow> jsstr \<Rightarrow> oauth_data option" where
  "loadOAuthState now_text rows k =
     (case readOAuthState rows k of None \<Rightarrow> None
      | Some d \<Rightarrow> if isOAuthStateExpired now_text (o_expires_at d) then None else Some d)"

definition loadOAuthStateRaw :: "oauth_table \<Rightarrow> jsstr \<Rightarrow> oauth_data option" where
  "loadOAuthStateRaw rows k = readOAuthState rows k"

definition markOAuthFlowDenied :: "jsstr \<Rightarrow> oauth_table \<Rightarrow> oauth_table" where
  "markOAuthFlowDenied = markOAuthStateDenied"

definition cancelOAuthFlow :: "jsstr \<Rightarrow> oauth_table \<Rightarrow> bool \<times> oauth_table" where
  "cancelOAuthFlow k rows =
     (case readOAuthState rows k of None \<Rightarrow> (False, rows) | Some _ \<Rightarrow> (True, deleteOAuthState k rows))"

datatype flow_status = FPending | FConnected | FDenied | FExpired

definition readConnectFlowStatus ::
  "jsstr \<Rightarrow> oauth_table \<Rightarrow> service_table \<Rightarrow> jsstr \<Rightarrow> jsstr \<Rightarrow> flow_status" where
  "readConnectFlowStatus now_text rows services service k =
     (case readOAuthState rows k of
        Some d \<Rightarrow>
          if o_service d = service then
            (if o_status d = Some OAuthDenied then FDenied
             else if isOAuthStateExpired now_text (o_expires_at d) then FExpired else FPending)
          else if isServiceConnected services service then FConnected else FPending
      | None \<Rightarrow> if isServiceConnected services service then FConnected else FPending)"

definition consumeOAuthState :: "jsstr \<Rightarrow> jsstr \<Rightarrow> oauth_table \<Rightarrow> oauth_data option \<times> oauth_table" where
  "consumeOAuthState now_text k rows =
     (case readOAuthState rows k of None \<Rightarrow> (None, rows)
      | Some d \<Rightarrow> if isOAuthStateExpired now_text (o_expires_at d) then (None, deleteOAuthState k rows)
          else (Some d, deleteOAuthState k rows))"

section \<open>Lemmas\<close>

interpretation service_pk: pk_table sv_service read_service
  by unfold_locales (simp add: read_service_def)

interpretation oauth_pk: pk_table o_state_key read_oauth_row
  by unfold_locales (simp add: read_oauth_row_def)

lemma isServiceConnected_iff: "isServiceConnected rows s \<longleftrightarrow> s \<in> sv_service ` set rows"
  by (auto simp: isServiceConnected_def filter_empty_conv)

lemma oauth_data_truncate [simp]:
  "o_service (oauth_data.truncate r) = o_service r" "o_status (oauth_data.truncate r) = o_status r"
  "o_expires_at (oauth_data.truncate r) = o_expires_at r"
  by (simp_all add: oauth_data.truncate_def)

lemma readOAuthState_delete: "readOAuthState (deleteOAuthState k rows) j = (if j = k then None else readOAuthState rows j)"
proof -
  have "filter (\<lambda>r. o_state_key r = j) (deleteOAuthState k rows)
      = (if j = k then [] else filter (\<lambda>r. o_state_key r = j) rows)"
    by (induction rows) (auto simp: deleteOAuthState_def delete_where_def)
  then show ?thesis by (simp add: readOAuthState_def read_oauth_row_def first_row_def)
qed

lemma readOAuthState_None_mono:
  "readOAuthState rows k = None \<Longrightarrow> readOAuthState (delete_where p rows) k = None"
  by (auto simp: readOAuthState_def oauth_pk.read_None delete_where_def)

lemma read_connectService:
  "read_service (connectService t s c rows) x =
     (if x = s then Some (case read_service rows s of
          None \<Rightarrow> \<lparr>sv_service = s, sv_connected_at = t, sv_credential = c\<rparr>
        | Some r \<Rightarrow> r\<lparr>sv_credential := c\<rparr>)
      else read_service rows x)"
proof (cases "read_service rows s")
  case None
  then have i: "insert_row (\<lambda>r row. sv_service r = sv_service row)
      \<lparr>sv_service = s, sv_connected_at = t, sv_credential = c\<rparr> rows = Inr (connectService t s c rows)"
    by (auto simp: connectService_def insert_row_def service_pk.read_None)
  show ?thesis using service_pk.read_insert[OF i, of x] None by simp
next
  case (Some r)
  then have "connectService t s c rows = update_where (\<lambda>r. sv_service r = s) (\<lambda>r. r\<lparr>sv_credential := c\<rparr>) rows"
    using service_pk.read_None[of rows s] by (auto simp: connectService_def insert_row_def)
  then show ?thesis
    using Some service_pk.read_update[of "\<lambda>r. r\<lparr>sv_credential := c\<rparr>" "\<lambda>r. sv_service r = s" rows x]
    by (cases "read_service rows x") (auto dest: service_pk.read_SomeD)
qed

lemma distinct_connectService:
  "distinct (map sv_service rows) \<Longrightarrow> distinct (map sv_service (connectService t s c rows))"
  by (auto simp: connectService_def insert_row_def update_where_def comp_def if_distrib cong: if_cong)

lemma distinct_disconnectService:
  "distinct (map sv_service rows) \<Longrightarrow> distinct (map sv_service (snd (disconnectService s rows)))"
  by (simp add: disconnectService_def delete_where_def distinct_map_filter)

text \<open>The compare-and-swap in terms of the stored row.\<close>

lemma writeCredential_expected:
  assumes "distinct (map sv_service rows)"
  shows "writeCredential s new (Some c) rows =
     (if readCredential rows s = Some c
      then (True, update_where (\<lambda>r. sv_service r = s) (\<lambda>r. r\<lparr>sv_credential := Some new\<rparr>) rows)
      else (False, rows))"
proof (cases "readCredential rows s = Some c")
  case True
  then obtain r where r: "read_service rows s = Some r" "sv_credential r = Some c"
    by (auto simp: readCredential_def split: option.splits)
  have rs: "r \<in> set rows" "sv_service r = s" using r(1) service_pk.read_SomeD by blast+
  have one: "q = r" if "q \<in> set rows" "sv_service q = s" for q
    using that rs assms by (auto simp: distinct_map dest: inj_onD)
  then have "update_where (\<lambda>q. sv_service q = s \<and> sv_credential q = Some c) u rows
      = update_where (\<lambda>q. sv_service q = s) u rows" for u
    using r(2) unfolding update_where_def by (intro map_cong) auto
  moreover have "filter (\<lambda>q. sv_service q = s \<and> sv_credential q = Some c) rows \<noteq> []"
    using rs r(2) by (auto simp: filter_empty_conv)
  ultimately show ?thesis using True by (simp add: writeCredential_def)
next
  case False
  have none: "\<not> (sv_service q = s \<and> sv_credential q = Some c)" if "q \<in> set rows" for q
    using service_pk.read_unique[OF assms that] False by (auto simp: readCredential_def)
  then show ?thesis
    using False update_where_none[of rows] by (auto simp: writeCredential_def filter_empty_conv)
qed

section \<open>Properties\<close>

text \<open>An authorization state is single use: consuming returns it at most once, never when it has
  expired; afterwards the key reads as absent, so a second consume, a load or a cancel at any later
  time finds nothing, and no other flow's row changes.\<close>

theorem oauth_single_use:
  "(let (d, rows') = consumeOAuthState t k rows in
     d = loadOAuthState t rows k
     \<and> readOAuthState rows' k = None
     \<and> consumeOAuthState t' k rows' = (None, rows')
     \<and> cancelOAuthFlow k rows' = (False, rows')
     \<and> (\<forall>j. j \<noteq> k \<longrightarrow> readOAuthState rows' j = readOAuthState rows j))"
  by (auto simp: consumeOAuthState_def loadOAuthState_def cancelOAuthFlow_def readOAuthState_delete
      split: option.split)

definition ex_flow :: "string \<Rightarrow> oauth_status option \<Rightarrow> oauth_data" where
  "ex_flow v st = \<lparr>o_code_verifier = js v, o_code_challenge = js ''c'', o_service = js ''gmail'',
     o_auth_code = None, o_created_at = js ''t0'', o_expires_at = js ''t9'', o_status = st\<rparr>"

theorem oauth_single_use_witness:
  "consumeOAuthState (js ''t1'') (js ''k1'') [oauth_data.extend (ex_flow ''a'' None) (oauth_row.fields (js ''k1''))]
     = (Some (ex_flow ''a'' None), [])
   \<and> consumeOAuthState (js ''t2'') (js ''k1'') [] = (None, [])"
proof -
  let ?rows = "[oauth_data.extend (ex_flow ''a'' None) (oauth_row.fields (js ''k1''))]"
  have c: "consumeOAuthState (js ''t1'') (js ''k1'') ?rows = (Some (ex_flow ''a'' None), [])" by code_simp
  then show ?thesis using oauth_single_use[of "js ''t1''" "js ''k1''" ?rows "js ''t2''"] by simp
qed

text \<open>Starting a new connect flow replaces exactly the pending flows of the same service: flows of
  other services and flows already marked denied, which a client may still be polling, stay
  readable, and the new state can be read back.\<close>

theorem oauth_supersede:
  assumes "distinct (map o_state_key rows)" "storeOAuthState k d rows = Inr rows'"
  shows "readOAuthState rows' j =
     (if j = k then Some d
      else (case readOAuthState rows j of None \<Rightarrow> None
        | Some e \<Rightarrow> if o_service e = o_service d \<and> o_status e = None then None else Some e))"
proof -
  let ?rows = "deleteOAuthStateByService (o_service d) rows"
  have i: "insert_row (\<lambda>r row. o_state_key r = o_state_key row) (oauth_data.extend d (oauth_row.fields k)) ?rows
      = Inr rows'" using assms(2) by (simp add: storeOAuthState_def insertOAuthState_def)
  have k: "o_state_key (oauth_data.extend d (oauth_row.fields k)) = k"
    and t: "oauth_data.truncate (oauth_data.extend d (oauth_row.fields k)) = d"
    by (simp_all add: oauth_data.extend_def oauth_row.fields_def oauth_data.truncate_def)
  have "read_oauth_row rows' j =
      (if j = k then Some (oauth_data.extend d (oauth_row.fields k)) else read_oauth_row ?rows j)"
    using oauth_pk.read_insert[OF i, of j] by (simp add: k)
  moreover have "read_oauth_row ?rows j = (case read_oauth_row rows j of None \<Rightarrow> None
      | Some r \<Rightarrow> if o_service r = o_service d \<and> o_status r = None then None else Some r)"
    unfolding deleteOAuthStateByService_def by (rule oauth_pk.read_delete[OF assms(1)])
  ultimately show ?thesis by (simp add: readOAuthState_def t split: option.split)
qed

theorem oauth_supersede_witness:
  "\<exists>rows'. storeOAuthState (js ''k2'') (ex_flow ''b'' None)
        [oauth_data.extend (ex_flow ''a'' (Some OAuthDenied)) (oauth_row.fields (js ''k1''))] = Inr rows'
     \<and> readOAuthState rows' (js ''k1'') = Some (ex_flow ''a'' (Some OAuthDenied))
     \<and> readOAuthState rows' (js ''k2'') = Some (ex_flow ''b'' None)"
proof -
  let ?rows = "[oauth_data.extend (ex_flow ''a'' (Some OAuthDenied)) (oauth_row.fields (js ''k1''))]"
  obtain rows' where s: "storeOAuthState (js ''k2'') (ex_flow ''b'' None) ?rows = Inr rows'"
    by (simp add: storeOAuthState_def insertOAuthState_def deleteOAuthStateByService_def delete_where_def
        insert_row_def oauth_data.extend_def oauth_row.fields_def ex_flow_def js_def)
  have "distinct (map o_state_key ?rows)" by simp
  note r = oauth_supersede[OF this s]
  have "readOAuthState ?rows (js ''k1'') = Some (ex_flow ''a'' (Some OAuthDenied))"
    by (simp add: readOAuthState_def read_oauth_row_def first_row_def oauth_data.extend_def
        oauth_row.fields_def oauth_data.truncate_def ex_flow_def)
  then show ?thesis using r[of "js ''k1''"] r[of "js ''k2''"] s by (simp add: ex_flow_def js_def)
qed

text \<open>A credential refresh is a compare-and-swap: after the stored credential was read, a write-back
  that names it succeeds exactly when the row still holds it. A disconnect, or a reconnect with
  another credential, in between makes the write-back report failure and change nothing.\<close>

theorem credential_cas:
  assumes "distinct (map sv_service rows)" "readCredential rows s = Some c" "c' \<noteq> Some c"
  shows "fst (writeCredential s new (Some c) rows)
     \<and> readCredential (snd (writeCredential s new (Some c) rows)) s = Some new
     \<and> writeCredential s new (Some c) (snd (disconnectService s rows)) = (False, snd (disconnectService s rows))
     \<and> writeCredential s new (Some c) (connectService t s c' rows) = (False, connectService t s c' rows)"
proof -
  obtain r where r: "read_service rows s = Some r" "sv_credential r = Some c"
    using assms(2) by (auto simp: readCredential_def split: option.splits)
  have "read_service (snd (disconnectService s rows)) s = None"
    by (auto simp: service_pk.read_None disconnectService_def delete_where_def)
  then have dis: "readCredential (snd (disconnectService s rows)) s \<noteq> Some c" by (simp add: readCredential_def)
  have con: "readCredential (connectService t s c' rows) s \<noteq> Some c"
    using assms(3) by (simp add: readCredential_def read_connectService split: option.split)
  have "readCredential (snd (writeCredential s new (Some c) rows)) s = Some new"
    using assms(2) r service_pk.read_update[of "\<lambda>r. r\<lparr>sv_credential := Some new\<rparr>" "\<lambda>r. sv_service r = s" rows s]
      service_pk.read_SomeD[OF r(1)]
    by (simp add: writeCredential_expected[OF assms(1)] readCredential_def)
  then show ?thesis
    using assms(2) dis con writeCredential_expected[OF distinct_disconnectService[OF assms(1)]]
      writeCredential_expected[OF distinct_connectService[OF assms(1)]] writeCredential_expected[OF assms(1)]
    by simp
qed

theorem credential_cas_witness:
  "fst (writeCredential (js ''g'') (js ''c2'') (Some (js ''c1''))
      [\<lparr>sv_service = js ''g'', sv_connected_at = js ''t'', sv_credential = Some (js ''c1'')\<rparr>])"
proof -
  let ?rows = "[\<lparr>sv_service = js ''g'', sv_connected_at = js ''t'', sv_credential = Some (js ''c1'')\<rparr>]"
  have "distinct (map sv_service ?rows)" "readCredential ?rows (js ''g'') = Some (js ''c1'')"
    by (simp_all add: readCredential_def read_service_def first_row_def)
  then show ?thesis using credential_cas[of ?rows "js ''g''" "js ''c1''" None] by blast
qed

end
