(* ===== verification/Agent.thy ===== *)
theory Agent
  imports AuditLog PolicyTable Sessions HeldCalls CommissionRuns SpendLedger Services
begin

text \<open>
  The coordinator's state and the way its methods run
  (\<open>packages/engine/src/agent/user-agent.ts\<close>): a record of the tables, and actions that return a
  value or an error together with the state they leave behind. \<open>transactionSync\<close> restores the state
  on an error and passes the error on. One synchronous invocation reads one clock value; UUIDs come
  from a supply that a counter runs through, also over a rollback. The parsers of the host,
  \<open>new Date(text)\<close> and \<open>JSON.parse\<close>, its case mapping and its division \<open>n / 100\<close> are arguments. The rules on \<open>keeps\<close> lift an invariant from
  the statements to whole methods.
\<close>

named_theorems keeps_intros \<open>invariant rules for actions\<close>

section \<open>State and actions\<close>

text \<open>The two statements beside the row itself that the transaction of an outcome writes: the code reasons about a
  storage fault of each. \<open>ev_storage_fault\<close> says which fail; the point in the run is given by the number of UUIDs
  drawn so far. Other statements fail only by their constraints.\<close>

datatype outcome_statement = LedgerInsert | HeldTurnUpdate

record agent_env =
  ev_show_frac :: "rat \<Rightarrow> jsstr"
  ev_sha :: "bytes \<Rightarrow> jsstr"
  ev_uuid :: "nat \<Rightarrow> jsstr"
  ev_now :: int
  ev_parse_date :: "jsstr \<Rightarrow> int option"
  ev_json_parse :: "jsstr \<Rightarrow> json option"
  ev_lower :: "jsstr \<Rightarrow> jsstr"
  ev_div100 :: "jsnum \<Rightarrow> jsnum"
  ev_storage_fault :: "outcome_statement \<Rightarrow> nat \<Rightarrow> bool"

record agent =
  db_audit :: audit_log
  db_services :: service_table
  db_settings :: settings
  db_oauth :: oauth_table
  db_policy :: policy_table
  db_held :: held_table
  db_runs :: commission_table
  db_sessions :: session_table
  db_ledger :: ledger
  uuid_count :: nat
  turnInFlight :: bool

datatype agent_error = SqlError sql_error | DateRangeError | GrantError grant_error | SyntaxError
  | InvalidData jsstr | LoopError jsstr | TypeError

type_synonym 'a act = "agent \<Rightarrow> (agent_error + 'a) \<times> agent"

definition ret :: "'a \<Rightarrow> 'a act" where
  "ret x st = (Inr x, st)"

definition throw :: "agent_error \<Rightarrow> 'a act" where
  "throw e st = (Inl e, st)"

definition bind :: "'a act \<Rightarrow> ('a \<Rightarrow> 'b act) \<Rightarrow> 'b act" where
  "bind m f st = (case m st of (Inl e, st') \<Rightarrow> (Inl e, st') | (Inr x, st') \<Rightarrow> f x st')"

definition read :: "(agent \<Rightarrow> 'a) \<Rightarrow> 'a act" where
  "read f st = (Inr (f st), st)"

definition modify :: "(agent \<Rightarrow> agent) \<Rightarrow> unit act" where
  "modify f st = (Inr (), f st)"

fun for_each :: "'x list \<Rightarrow> ('x \<Rightarrow> unit act) \<Rightarrow> unit act" where
  "for_each [] body = ret ()"
| "for_each (x # xs) body = bind (body x) (\<lambda>_. for_each xs body)"

text \<open>\<open>ctx.storage.transactionSync\<close>.\<close>

definition txn :: "'a act \<Rightarrow> 'a act" where
  "txn m st = (case m st of (Inl e, st') \<Rightarrow> (Inl e, st\<lparr>uuid_count := uuid_count st'\<rparr>) | (Inr x, st') \<Rightarrow> (Inr x, st'))"

text \<open>\<open>try { m } catch {}\<close>.\<close>

definition swallow :: "unit act \<Rightarrow> unit act" where
  "swallow m st = (Inr (), snd (m st))"

definition fresh_uuid :: "agent_env \<Rightarrow> jsstr act" where
  "fresh_uuid env st = (Inr (ev_uuid env (uuid_count st)), st\<lparr>uuid_count := uuid_count st + 1\<rparr>)"

definition now_iso :: "agent_env \<Rightarrow> jsstr" where
  "now_iso env = iso (ev_now env)"

text \<open>The environment of one audit write.\<close>

definition audit_env_of :: "agent_env \<Rightarrow> jsstr \<Rightarrow> audit_env" where
  "audit_env_of env u =
     \<lparr>show_frac = ev_show_frac env, sha = ev_sha env, today = take 10 (now_iso env), now = now_iso env,
      uuid = u\<rparr>"

definition insert_audit :: "agent_env \<Rightarrow> audit_params \<Rightarrow> audit_entry_result act" where
  "insert_audit env ps =
     bind (fresh_uuid env) (\<lambda>u st.
       case insertAuditEntryInTxn (audit_env_of env u) ps (db_audit st) of
         Inl e \<Rightarrow> (Inl (SqlError e), st)
       | Inr (r, rows) \<Rightarrow> (Inr r, st\<lparr>db_audit := rows\<rparr>))"

definition close_decision ::
  "agent_env \<Rightarrow> audit_params \<Rightarrow> jsstr \<Rightarrow> closer_basis \<Rightarrow> audit_entry_result option act" where
  "close_decision env ps d basis =
     bind (fresh_uuid env) (\<lambda>u st.
       case closeDecisionEntryInTxn (audit_env_of env u) ps d basis (db_audit st) of
         Inl e \<Rightarrow> (Inl (SqlError e), st)
       | Inr (r, rows) \<Rightarrow> (Inr r, st\<lparr>db_audit := rows\<rparr>))"

definition writeAuditEntry :: "agent_env \<Rightarrow> audit_params \<Rightarrow> audit_entry_result act" where
  "writeAuditEntry env ps = txn (insert_audit env ps)"

text \<open>A value that is not \<open>undefined\<close> or an error is thrown by the SQL helper.\<close>

definition lift_table :: "(agent \<Rightarrow> sql_error + agent) \<Rightarrow> unit act" where
  "lift_table f st = (case f st of Inl e \<Rightarrow> (Inl (SqlError e), st) | Inr st' \<Rightarrow> (Inr (), st'))"

lemma bind_Inr: "m st = (Inr x, st1) \<Longrightarrow> bind m f st = f x st1"
  by (simp add: bind_def)

lemma bind_Inl: "m st = (Inl e, st1) \<Longrightarrow> bind m f st = (Inl e, st1)"
  by (simp add: bind_def)

lemma bind_InrE:
  assumes "bind m f st = (Inr y, st')"
  obtains x st1 where "m st = (Inr x, st1)" "f x st1 = (Inr y, st')"
  using assms by (auto simp: bind_def split: prod.splits sum.splits)

lemma read_Inr [simp]: "read f st = (Inr x, st') \<longleftrightarrow> x = f st \<and> st' = st"
  by (auto simp: read_def)

lemma ret_Inr [simp]: "ret x st = (Inr y, st') \<longleftrightarrow> y = x \<and> st' = st"
  by (auto simp: ret_def)

lemma txn_Inr: "m st = (Inr x, st1) \<Longrightarrow> txn m st = (Inr x, st1)"
  by (simp add: txn_def)

lemma snd_bind_ret [simp]: "snd (bind m (\<lambda>_. ret x) st) = snd (m st)"
  by (auto simp: bind_def ret_def split: prod.split sum.split)

section \<open>Invariants of actions\<close>

definition keeps :: "(agent \<Rightarrow> bool) \<Rightarrow> 'a act \<Rightarrow> bool" where
  "keeps P m \<longleftrightarrow> (\<forall>st. P st \<longrightarrow> P (snd (m st)))"

text \<open>An invariant that does not look at the UUID counter or the turn marker.\<close>

definition stable :: "(agent \<Rightarrow> bool) \<Rightarrow> bool" where
  "stable P \<longleftrightarrow> (\<forall>st n. P st \<longrightarrow> P (st\<lparr>uuid_count := n\<rparr>))"

lemma keepsD: "keeps P m \<Longrightarrow> P st \<Longrightarrow> P (snd (m st))"
  by (simp add: keeps_def)

lemma keeps_ret [keeps_intros]: "keeps P (ret x)"
  by (simp add: keeps_def ret_def)

lemma keeps_throw [keeps_intros]: "keeps P (throw e)"
  by (simp add: keeps_def throw_def)

lemma keeps_read [keeps_intros]: "keeps P (read f)"
  by (simp add: keeps_def read_def)

lemma keeps_bind [keeps_intros]: "keeps P m \<Longrightarrow> (\<And>x. keeps P (f x)) \<Longrightarrow> keeps P (bind m f)"
  by (auto simp: keeps_def bind_def split: prod.split sum.split)

lemma keeps_txn [keeps_intros]: "stable P \<Longrightarrow> keeps P m \<Longrightarrow> keeps P (txn m)"
  by (auto simp: keeps_def txn_def stable_def split: prod.split sum.split)

lemma keeps_swallow [keeps_intros]: "keeps P m \<Longrightarrow> keeps P (swallow m)"
  by (simp add: keeps_def swallow_def)

lemma keeps_for_each [keeps_intros]: "(\<And>x. keeps P (body x)) \<Longrightarrow> keeps P (for_each xs body)"
  by (induction xs) (auto intro: keeps_intros)

lemma keeps_modify: "(\<And>st. P st \<Longrightarrow> P (f st)) \<Longrightarrow> keeps P (modify f)"
  by (simp add: keeps_def modify_def)

lemma keeps_fresh_uuid [keeps_intros]: "stable P \<Longrightarrow> keeps P (fresh_uuid env)"
  by (simp add: keeps_def fresh_uuid_def stable_def)

lemma keeps_if [keeps_intros]: "(b \<Longrightarrow> keeps P m) \<Longrightarrow> (\<not> b \<Longrightarrow> keeps P m') \<Longrightarrow> keeps P (if b then m else m')"
  by simp

lemma keeps_option [keeps_intros]:
  "(x = None \<Longrightarrow> keeps P m) \<Longrightarrow> (\<And>y. x = Some y \<Longrightarrow> keeps P (f y)) \<Longrightarrow>
   keeps P (case x of None \<Rightarrow> m | Some y \<Rightarrow> f y)"
  by (cases x) simp_all

subsection \<open>Only some tables change\<close>

lemma keeps_insert_audit:
  assumes "stable P" "\<And>st rows u r. P st \<Longrightarrow>
     insertAuditEntryInTxn (audit_env_of env u) ps (db_audit st) = Inr (r, rows) \<Longrightarrow> P (st\<lparr>db_audit := rows\<rparr>)"
  shows "keeps P (insert_audit env ps)"
  unfolding insert_audit_def
  by (rule keeps_bind[OF keeps_fresh_uuid[OF assms(1)]])
    (auto simp: keeps_def assms(2) split: sum.split prod.split)

lemma keeps_close_decision:
  assumes "stable P" "\<And>st rows u r. P st \<Longrightarrow>
     closeDecisionEntryInTxn (audit_env_of env u) ps d basis (db_audit st) = Inr (r, rows) \<Longrightarrow> P (st\<lparr>db_audit := rows\<rparr>)"
  shows "keeps P (close_decision env ps d basis)"
  unfolding close_decision_def
  by (rule keeps_bind[OF keeps_fresh_uuid[OF assms(1)]])
    (auto simp: keeps_def assms(2) split: sum.split prod.split)

lemma keeps_prod [keeps_intros]: "(\<And>a b. keeps P (f a b)) \<Longrightarrow> keeps P (case x of (a, b) \<Rightarrow> f a b)"
  by (cases x) simp

lemma keeps_lift_table: "(\<And>st st'. P st \<Longrightarrow> f st = Inr st' \<Longrightarrow> P st') \<Longrightarrow> keeps P (lift_table f)"
  by (auto simp: keeps_def lift_table_def split: sum.split)

section \<open>Postconditions of actions that return\<close>

definition post :: "'a act \<Rightarrow> agent \<Rightarrow> ('a \<Rightarrow> agent \<Rightarrow> bool) \<Rightarrow> bool" where
  "post m st Q \<longleftrightarrow> (\<forall>x st'. m st = (Inr x, st') \<longrightarrow> Q x st')"

lemma postD: "post m st Q \<Longrightarrow> m st = (Inr x, st') \<Longrightarrow> Q x st'"
  by (simp add: post_def)

lemma post_ret [simp]: "post (ret x) st Q = Q x st"
  by (simp add: post_def ret_def)

lemma post_throw [simp]: "post (throw e) st Q"
  by (simp add: post_def throw_def)

lemma post_read [simp]: "post (read f) st Q = Q (f st) st"
  by (simp add: post_def read_def)

lemma post_modify [simp]: "post (modify f) st Q = Q () (f st)"
  by (simp add: post_def modify_def)

lemma post_bind [simp]: "post (bind m f) st Q = post m st (\<lambda>x st'. post (f x) st' Q)"
  by (auto simp: post_def bind_def split: prod.splits sum.splits)

lemma post_txn [simp]: "post (txn m) st Q = post m st Q"
  by (auto simp: post_def txn_def split: prod.splits sum.splits)

lemma post_fresh_uuid [simp]:
  "post (fresh_uuid env) st Q = Q (ev_uuid env (uuid_count st)) (st\<lparr>uuid_count := uuid_count st + 1\<rparr>)"
  by (simp add: post_def fresh_uuid_def)

lemma post_mono: "post m st Q \<Longrightarrow> (\<And>x st'. Q x st' \<Longrightarrow> R x st') \<Longrightarrow> post m st R"
  by (auto simp: post_def)

lemma post_conj: "post m st Q \<Longrightarrow> post m st R \<Longrightarrow> post m st (\<lambda>x st'. Q x st' \<and> R x st')"
  by (auto simp: post_def)

lemma post_keeps: "keeps P m \<Longrightarrow> P st \<Longrightarrow> post m st (\<lambda>_. P)"
  unfolding post_def keeps_def by (metis snd_conv)

lemma post_insert_audit:
  "post (insert_audit env ps) st (\<lambda>r st'. \<exists>rows. st' = st\<lparr>db_audit := rows, uuid_count := uuid_count st + 1\<rparr>
     \<and> insertAuditEntryInTxn (audit_env_of env (ev_uuid env (uuid_count st))) ps (db_audit st) = Inr (r, rows))"
  by (auto simp: post_def insert_audit_def bind_def fresh_uuid_def split: sum.splits)

lemma post_close_decision:
  "post (close_decision env ps d basis) st (\<lambda>r st'. \<exists>rows. st' = st\<lparr>db_audit := rows, uuid_count := uuid_count st + 1\<rparr>
     \<and> closeDecisionEntryInTxn (audit_env_of env (ev_uuid env (uuid_count st))) ps d basis (db_audit st)
         = Inr (r, rows))"
  by (auto simp: post_def close_decision_def bind_def fresh_uuid_def split: sum.splits)

subsection \<open>The audit chain\<close>

definition chain_ok :: "agent_env \<Rightarrow> agent \<Rightarrow> bool" where
  "chain_ok env st \<longleftrightarrow> log_inv (ev_show_frac env) (ev_sha env) (db_audit st)"

lemma ascii_today: "ascii (today (audit_env_of env u))"
  using ascii_iso[of "ev_now env"] set_take_subset[of 10 "iso (ev_now env)"]
  by (auto simp: audit_env_of_def now_iso_def ascii_def)

lemma audit_env_of_fields [simp]:
  "show_frac (audit_env_of env u) = ev_show_frac env" "sha (audit_env_of env u) = ev_sha env"
  "uuid (audit_env_of env u) = u"
  by (simp_all add: audit_env_of_def)

lemma stable_chain_ok: "stable (chain_ok env)"
  by (simp add: stable_def chain_ok_def)

lemma chain_ok_insert: "p_epochId ps = None \<Longrightarrow> keeps (chain_ok env) (insert_audit env ps)"
proof (rule keeps_insert_audit[OF stable_chain_ok])
  fix st rows u r
  assume "p_epochId ps = None" "chain_ok env st"
    "insertAuditEntryInTxn (audit_env_of env u) ps (db_audit st) = Inr (r, rows)"
  then show "chain_ok env (st\<lparr>db_audit := rows\<rparr>)"
    using insertRow_log_inv[of "audit_env_of env u" ps None "db_audit st" r rows] ascii_today
    by (simp add: chain_ok_def insertAuditEntryInTxn_def)
qed

lemma chain_ok_close: "p_epochId ps = None \<Longrightarrow> keeps (chain_ok env) (close_decision env ps d basis)"
proof (rule keeps_close_decision[OF stable_chain_ok])
  fix st rows u r
  assume a: "p_epochId ps = None" "chain_ok env st"
    and "closeDecisionEntryInTxn (audit_env_of env u) ps d basis (db_audit st) = Inr (r, rows)"
  from this(3) show "chain_ok env (st\<lparr>db_audit := rows\<rparr>)"
    by (cases rule: closeDecisionEntry_cases)
      (use a insertRow_log_inv[of "audit_env_of env u" ps "Some d" "db_audit st"] ascii_today in
        \<open>auto simp: chain_ok_def\<close>)
qed

end
