(* ===== verification/DecisionClosure.thy ===== *)
theory DecisionClosure
  imports VerifyChain
begin

text \<open>
  The decision-closure check of \<open>packages/audit/src/decision-closure.ts\<close>. The JavaScript
  \<open>Map\<close> of unmatched closers is an association list in insertion order, since the carry is read
  off its values in that order. The lemmas give the findings as functions of the range (who closes
  whom above a row), also where ids repeat, and show that a walk by pages with the carry equals one check
  of the whole range.
\<close>

section \<open>decision-closure.ts\<close>

definition LIFECYCLE_TOOLS :: "jsstr list" where
  "LIFECYCLE_TOOLS = map js [''session.start'', ''session.end'', ''task.cancel'',
     ''refinement.propose'', ''refinement.validate'', ''refinement.approve'',
     ''refinement.activate'', ''refinement.disable'', ''refinement.rollback'', ''refinement.use'']"

definition owesCloser :: "chain_entry \<Rightarrow> bool" where
  "owesCloser e =
     (if decisionEntryId e \<noteq> None then False
      else if toolName e \<in> set LIFECYCLE_TOOLS then False
      else if decision e = js ''deny'' then False
      else decision e = js ''pending'' \<or> decision e = js ''allow'')"

datatype closure_status = Clean | Conflicted | Unresolved | Unchecked

datatype closer_agreement = Duplicated | Contradictory

datatype open_kind = Dispatched | Awaiting

record closer_ref =
  c_id :: jsstr
  c_epochId :: jsstr
  c_sequenceNum :: nat
  c_decision :: jsstr
  c_outcome :: jsstr
  c_referentId :: jsstr

record decision_closure =
  d_id :: jsstr
  d_epochId :: jsstr
  d_sequenceNum :: nat
  d_status :: closure_status
  d_agreement :: "closer_agreement option"
  d_openKind :: "open_kind option"
  d_closers :: "closer_ref list"

record closure_verdict =
  decisionsChecked :: nat
  conflictedOnes :: "decision_closure list"
  unresolvedOnes :: "decision_closure list"
  uncheckedOnes :: "decision_closure list"
  carry :: "closer_ref list"

type_synonym unmatched_map = "(jsstr \<times> closer_ref list) list"

text \<open>\<open>unmatched.get(k) ?? []\<close>, and the get-then-set-or-push of a closer.\<close>

definition closers_for :: "unmatched_map \<Rightarrow> jsstr \<Rightarrow> closer_ref list" where
  "closers_for m k = (case map_of m k of None \<Rightarrow> [] | Some cs \<Rightarrow> cs)"

fun push_closer :: "unmatched_map \<Rightarrow> closer_ref \<Rightarrow> unmatched_map" where
  "push_closer [] c = [(c_referentId c, [c])]"
| "push_closer ((k, cs) # m) c =
     (if k = c_referentId c then (k, cs @ [c]) # m else (k, cs) # push_closer m c)"

definition delete_key :: "unmatched_map \<Rightarrow> jsstr \<Rightarrow> unmatched_map" where
  "delete_key m k = filter (\<lambda>p. fst p \<noteq> k) m"

definition closer_of :: "chain_entry \<Rightarrow> jsstr \<Rightarrow> closer_ref" where
  "closer_of e referent =
     \<lparr>c_id = entryId e, c_epochId = epochId e, c_sequenceNum = sequenceNum e,
      c_decision = decision e, c_outcome = outcome e, c_referentId = referent\<rparr>"

record closure_state =
  st_unmatched :: unmatched_map
  st_decisions :: nat
  st_conflicted :: "decision_closure list"
  st_unresolved :: "decision_closure list"
  st_unchecked :: "decision_closure list"

definition agreement_of :: "closer_ref list \<Rightarrow> closer_agreement" where
  "agreement_of closers =
     (if \<forall>c \<in> set closers. c_decision c = c_decision (hd closers) \<and> c_outcome c = c_outcome (hd closers)
      then Duplicated else Contradictory)"

definition base_closure :: "chain_entry \<Rightarrow> closer_ref list \<Rightarrow> decision_closure" where
  "base_closure e closers =
     \<lparr>d_id = entryId e, d_epochId = epochId e, d_sequenceNum = sequenceNum e, d_status = Clean,
      d_agreement = None, d_openKind = None, d_closers = closers\<rparr>"

text \<open>One round of the loop.\<close>

definition closure_step :: "bool \<Rightarrow> closure_state \<Rightarrow> chain_entry \<Rightarrow> closure_state" where
  "closure_step upperEdgeClosed st e =
     (let closers = closers_for (st_unmatched st) (entryId e);
          st = st\<lparr>st_unmatched := delete_key (st_unmatched st) (entryId e)\<rparr> in
      case decisionEntryId e of
        Some referentId \<Rightarrow>
          st\<lparr>st_unmatched := push_closer (st_unmatched st) (closer_of e referentId)\<rparr>
      | None \<Rightarrow>
        if \<not> owesCloser e then st
        else (let st = st\<lparr>st_decisions := st_decisions st + 1\<rparr>; base = base_closure e closers in
          if \<not> upperEdgeClosed then
            st\<lparr>st_unchecked := st_unchecked st @ [base\<lparr>d_status := Unchecked\<rparr>]\<rparr>
          else if length closers = 0 then
            st\<lparr>st_unresolved := st_unresolved st @ [base\<lparr>d_status := Unresolved,
              d_openKind := Some (if decision e = js ''pending'' then Awaiting else Dispatched)\<rparr>]\<rparr>
          else if length closers \<ge> 2 then
            st\<lparr>st_conflicted := st_conflicted st @ [base\<lparr>d_status := Conflicted,
              d_agreement := Some (agreement_of closers)\<rparr>]\<rparr>
          else st))"

definition seed_unmatched :: "closer_ref list \<Rightarrow> unmatched_map" where
  "seed_unmatched cs = foldl push_closer [] cs"

definition init_state :: "closer_ref list \<Rightarrow> closure_state" where
  "init_state cs = \<lparr>st_unmatched = seed_unmatched cs, st_decisions = 0, st_conflicted = [],
     st_unresolved = [], st_unchecked = []\<rparr>"

definition checkDecisionClosure ::
  "chain_entry list \<Rightarrow> closer_ref list \<Rightarrow> bool \<Rightarrow> closure_verdict" where
  "checkDecisionClosure entries carried upperEdgeClosed =
     (let st = foldl (closure_step upperEdgeClosed) (init_state carried) (rev entries) in
      \<lparr>decisionsChecked = st_decisions st,
       conflictedOnes = rev (st_conflicted st),
       unresolvedOnes = rev (st_unresolved st),
       uncheckedOnes = rev (st_unchecked st),
       carry = concat (map snd (st_unmatched st))\<rparr>)"

section \<open>What the findings should be\<close>

text \<open>The closers of a row: those carried from newer ranges, then the range's own rows above it,
  newest first.\<close>

definition closers_above :: "closer_ref list \<Rightarrow> chain_entry list \<Rightarrow> jsstr \<Rightarrow> closer_ref list" where
  "closers_above carried newer k =
     filter (\<lambda>c. c_referentId c = k) carried
     @ map (\<lambda>e. closer_of e k) (filter (\<lambda>e. decisionEntryId e = Some k) (rev newer))"

fun open_decisions :: "closer_ref list \<Rightarrow> chain_entry list \<Rightarrow> jsstr list" where
  "open_decisions carried [] = []"
| "open_decisions carried (e # newer) =
     (if owesCloser e \<and> closers_above carried newer (entryId e) = [] then [entryId e] else [])
     @ open_decisions carried newer"

fun conflicting_decisions :: "closer_ref list \<Rightarrow> chain_entry list \<Rightarrow> (jsstr \<times> closer_ref list) list" where
  "conflicting_decisions carried [] = []"
| "conflicting_decisions carried (e # newer) =
     (let cs = closers_above carried newer (entryId e) in
      if owesCloser e \<and> length cs \<ge> 2 then [(entryId e, cs)] else [])
     @ conflicting_decisions carried newer"

text \<open>Every key holds a non-empty list of closers that name it, and no key twice.\<close>

definition wf_unmatched :: "unmatched_map \<Rightarrow> bool" where
  "wf_unmatched m \<longleftrightarrow> distinct (map fst m)
     \<and> (\<forall>(k, cs) \<in> set m. cs \<noteq> [] \<and> (\<forall>c \<in> set cs. c_referentId c = k))"

text \<open>A step only appends to the findings; \<open>add_findings a b\<close> is \<open>b\<close> run after \<open>a\<close>.\<close>

definition add_findings :: "closure_state \<Rightarrow> closure_state \<Rightarrow> closure_state" where
  "add_findings a b = b\<lparr>st_decisions := st_decisions a + st_decisions b,
     st_conflicted := st_conflicted a @ st_conflicted b,
     st_unresolved := st_unresolved a @ st_unresolved b,
     st_unchecked := st_unchecked a @ st_unchecked b\<rparr>"

section \<open>Lemmas\<close>

subsection \<open>The map of unmatched closers\<close>

lemma fst_push_closer:
  "set (map fst (push_closer m c)) = insert (c_referentId c) (set (map fst m))"
  by (induction m c rule: push_closer.induct) auto

lemma wf_push_closer: "wf_unmatched m \<Longrightarrow> wf_unmatched (push_closer m c)"
proof (induction m c rule: push_closer.induct)
  case (2 k cs m c)
  then show ?case using fst_push_closer[of m c] by (auto simp: wf_unmatched_def)
qed (auto simp: wf_unmatched_def)

lemma wf_delete_key: "wf_unmatched m \<Longrightarrow> wf_unmatched (delete_key m k)"
  by (auto simp: wf_unmatched_def delete_key_def distinct_map_filter)

lemma wf_foldl_push: "wf_unmatched m \<Longrightarrow> wf_unmatched (foldl push_closer m cs)"
  by (induction cs arbitrary: m) (auto simp: wf_push_closer)

lemma wf_seed: "wf_unmatched (seed_unmatched cs)"
  unfolding seed_unmatched_def by (rule wf_foldl_push) (simp add: wf_unmatched_def)

lemma wf_closure_step:
  "wf_unmatched (st_unmatched st) \<Longrightarrow> wf_unmatched (st_unmatched (closure_step u st e))"
  by (auto simp: closure_step_def Let_def wf_push_closer wf_delete_key split: option.splits)

lemma wf_closure_fold:
  "wf_unmatched (st_unmatched st) \<Longrightarrow> wf_unmatched (st_unmatched (foldl (closure_step u) st es))"
  by (induction es arbitrary: st) (auto simp: wf_closure_step)

lemma push_same_key:
  "k \<notin> fst ` set m \<Longrightarrow> \<forall>c \<in> set cs. c_referentId c = k \<Longrightarrow>
   foldl push_closer (m @ [(k, ds)]) cs = m @ [(k, ds @ cs)]"
proof (induction cs arbitrary: ds)
  case (Cons c cs)
  have "push_closer (m @ [(k, ds)]) c = m @ [(k, ds @ [c])]" if "k \<notin> fst ` set m" "c_referentId c = k"
    using that by (induction m) auto
  then show ?case using Cons by simp
qed simp

lemma push_new_key: "c_referentId c \<notin> fst ` set m \<Longrightarrow> push_closer m c = m @ [(c_referentId c, [c])]"
  by (induction m) auto

text \<open>Seeding from a carry rebuilds the map it was read from.\<close>

lemma seed_carry_aux:
  "wf_unmatched (m @ m') \<Longrightarrow> foldl push_closer m (concat (map snd m')) = m @ m'"
proof (induction m' arbitrary: m)
  case (Cons p m')
  obtain k cs where p: "p = (k, cs)" by force
  then obtain c cs' where cs: "cs = c # cs'" "c_referentId c = k" "\<forall>d \<in> set cs'. c_referentId d = k"
    using Cons.prems by (cases cs) (auto simp: wf_unmatched_def)
  have k: "k \<notin> fst ` set m" using Cons.prems p by (auto simp: wf_unmatched_def)
  have "foldl push_closer m cs = m @ [(k, cs)]"
    using push_same_key[OF k cs(3), of "[c]"] push_new_key[of c m] cs k by simp
  then show ?case using Cons.IH[of "m @ [(k, cs)]"] Cons.prems p by simp
qed simp

lemma seed_carry: "wf_unmatched m \<Longrightarrow> seed_unmatched (concat (map snd m)) = m"
  using seed_carry_aux[of "[]" m] by (simp add: seed_unmatched_def)

subsection \<open>Walking by pages\<close>

lemma closure_step_add:
  "closure_step u (add_findings a b) e = add_findings a (closure_step u b e)"
  by (simp add: closure_step_def add_findings_def Let_def split: option.split)

lemma closure_fold_add:
  "foldl (closure_step u) (add_findings a b) es = add_findings a (foldl (closure_step u) b es)"
  by (induction es arbitrary: b) (auto simp: closure_step_add)

lemma add_findings_init:
  "wf_unmatched (st_unmatched st) \<Longrightarrow>
   add_findings st (init_state (concat (map snd (st_unmatched st)))) = st"
  by (simp add: add_findings_def init_state_def seed_carry)

lemma checkDecisionClosure_pages_fold:
  fixes older newer carried u
  defines "v \<equiv> checkDecisionClosure newer carried u"
  shows "checkDecisionClosure (older @ newer) carried u =
     (let w = checkDecisionClosure older (carry v) u in
      w\<lparr>decisionsChecked := decisionsChecked w + decisionsChecked v,
        conflictedOnes := conflictedOnes w @ conflictedOnes v,
        unresolvedOnes := unresolvedOnes w @ unresolvedOnes v,
        uncheckedOnes := uncheckedOnes w @ uncheckedOnes v\<rparr>)"
proof -
  let ?s = "foldl (closure_step u) (init_state carried) (rev newer)"
  have wf: "wf_unmatched (st_unmatched ?s)"
    by (rule wf_closure_fold) (simp add: init_state_def wf_seed)
  have "foldl (closure_step u) (init_state carried) (rev (older @ newer))
      = add_findings ?s (foldl (closure_step u) (init_state (concat (map snd (st_unmatched ?s)))) (rev older))"
    using closure_fold_add[of u ?s "init_state (concat (map snd (st_unmatched ?s)))" "rev older"]
      add_findings_init[OF wf] by simp
  then show ?thesis
    by (simp add: checkDecisionClosure_def v_def Let_def add_findings_def)
qed

subsection \<open>The findings of a closed range\<close>

lemma closers_for_push:
  "closers_for (push_closer m c) k = closers_for m k @ (if c_referentId c = k then [c] else [])"
  by (induction m c rule: push_closer.induct) (auto simp: closers_for_def)

lemma map_of_filter_neq: "map_of (filter (\<lambda>p. fst p \<noteq> j) m) k = (if k = j then None else map_of m k)"
  by (induction m) auto

lemma closers_for_delete: "closers_for (delete_key m j) k = (if k = j then [] else closers_for m k)"
  by (simp add: closers_for_def delete_key_def map_of_filter_neq)

lemma closers_for_foldl:
  "closers_for (foldl push_closer m cs) k = closers_for m k @ filter (\<lambda>c. c_referentId c = k) cs"
  by (induction cs arbitrary: m) (auto simp: closers_for_push)

lemma closers_for_seed: "closers_for (seed_unmatched cs) k = filter (\<lambda>c. c_referentId c = k) cs"
  by (simp add: seed_unmatched_def closers_for_foldl) (simp add: closers_for_def)

lemma unmatched_step:
  "closers_for (st_unmatched (closure_step u st e)) k =
     (if k = entryId e then [] else closers_for (st_unmatched st) k)
     @ (if decisionEntryId e = Some k then [closer_of e k] else [])"
  by (auto simp: closure_step_def Let_def closers_for_push closers_for_delete closer_of_def
      split: option.splits)

text \<open>After the rows of \<open>es\<close>, every id that is not one of theirs has its closers above.\<close>

lemma unmatched_fold:
  "k \<notin> entryId ` set es \<Longrightarrow>
   closers_for (st_unmatched (foldl (closure_step u) (init_state carried) (rev es))) k
   = closers_above carried es k"
  by (induction es)
    (auto simp: unmatched_step closers_above_def init_state_def closers_for_seed)

lemma closed_step:
  fixes st e
  defines "cs \<equiv> closers_for (st_unmatched st) (entryId e)"
  shows "map d_id (st_unresolved (closure_step True st e)) =
      map d_id (st_unresolved st) @ (if owesCloser e \<and> cs = [] then [entryId e] else [])"
    and "map (\<lambda>d. (d_id d, d_closers d)) (st_conflicted (closure_step True st e)) =
      map (\<lambda>d. (d_id d, d_closers d)) (st_conflicted st)
      @ (if owesCloser e \<and> length cs \<ge> 2 then [(entryId e, cs)] else [])"
    and "st_unchecked (closure_step True st e) = st_unchecked st"
    and "st_decisions (closure_step True st e) = st_decisions st + (if owesCloser e then 1 else 0)"
  unfolding cs_def
  by (auto simp: closure_step_def Let_def base_closure_def owesCloser_def split: option.splits)

lemma closed_findings:
  assumes "distinct (map entryId es)"
    and "st = foldl (closure_step True) (init_state carried) (rev es)"
  shows "rev (map d_id (st_unresolved st)) = open_decisions carried es
     \<and> rev (map (\<lambda>d. (d_id d, d_closers d)) (st_conflicted st)) = conflicting_decisions carried es
     \<and> st_unchecked st = []
     \<and> st_decisions st = length (filter owesCloser es)"
  using assms
proof (induction es arbitrary: st)
  case Nil
  then show ?case by (simp add: init_state_def)
next
  case (Cons e es)
  define s where "s = foldl (closure_step True) (init_state carried) (rev es)"
  have c: "closers_for (st_unmatched s) (entryId e) = closers_above carried es (entryId e)"
    using Cons.prems unfolding s_def by (intro unmatched_fold) simp
  have "st = closure_step True s e" using Cons.prems(2) by (simp add: s_def)
  then show ?case
    using Cons.IH[OF _ s_def] Cons.prems(1) closed_step[of s e] c by (simp add: Let_def)
qed

subsection \<open>Ranges with repeated ids\<close>

text \<open>Without assumptions on the ids: the closers a row can count are those above it up to the next row that carries
  its id, which takes the others. \<open>rows\<close> run oldest first, as everywhere here.\<close>

fun upto_same :: "jsstr \<Rightarrow> chain_entry list \<Rightarrow> chain_entry list" where
  "upto_same k [] = []"
| "upto_same k (e # newer) = e # (if entryId e = k then [] else upto_same k newer)"

definition closing_rows :: "jsstr \<Rightarrow> chain_entry list \<Rightarrow> chain_entry list" where
  "closing_rows k newer = filter (\<lambda>r. decisionEntryId r = Some k) (upto_same k newer)"

fun twice_closed :: "chain_entry list \<Rightarrow> chain_entry list" where
  "twice_closed [] = []"
| "twice_closed (e # newer) =
     (if owesCloser e \<and> length (closing_rows (entryId e) newer) \<ge> 2 then [e] else []) @ twice_closed newer"

text \<open>\<open>twice_closed\<close> in words, and for ranges whose ids are unique.\<close>

lemma twice_closed_iff:
  "e \<in> set (twice_closed rows) \<longleftrightarrow> (\<exists>older newer. rows = older @ e # newer \<and> owesCloser e
     \<and> length (closing_rows (entryId e) newer) \<ge> 2)"
proof (induction rows)
  case (Cons x rows)
  have "(\<exists>older newer. x # rows = older @ e # newer \<and> P newer)
      \<longleftrightarrow> (x = e \<and> P rows) \<or> (\<exists>older newer. rows = older @ e # newer \<and> P newer)" for P
    by (auto simp: Cons_eq_append_conv)
  then show ?case using Cons by auto
qed simp

lemma upto_same_all: "k \<notin> entryId ` set rows \<Longrightarrow> upto_same k rows = rows"
  by (induction rows) auto

lemma in_upto_same: "k \<notin> entryId ` set older \<Longrightarrow> r \<in> set (upto_same k (older @ r # newer))"
  by (induction older) auto

lemma unmatched_rows:
  "closers_for (st_unmatched (foldl (closure_step u) (init_state []) (rev es))) k
     = map (\<lambda>r. closer_of r k) (rev (closing_rows k es))"
  by (induction es) (auto simp: unmatched_step init_state_def closers_for_seed closing_rows_def)

lemma conflicted_rows:
  "map d_id (conflictedOnes (checkDecisionClosure es [] True)) = map entryId (twice_closed es)"
proof -
  have "map d_id (rev (st_conflicted (foldl (closure_step True) (init_state []) (rev es)))) = map entryId (twice_closed es)"
  proof (induction es)
    case (Cons e es)
    define s where "s = foldl (closure_step True) (init_state []) (rev es)"
    have "map fst (map (\<lambda>d. (d_id d, d_closers d)) (st_conflicted (closure_step True s e))) =
        map d_id (st_conflicted s) @ (if owesCloser e \<and> length (closing_rows (entryId e) es) \<ge> 2 then [entryId e] else [])"
      unfolding closed_step(2) unmatched_rows[of True es, folded s_def] by (simp add: comp_def)
    then have "map d_id (st_conflicted (closure_step True s e)) =
        map d_id (st_conflicted s) @ (if owesCloser e \<and> length (closing_rows (entryId e) es) \<ge> 2 then [entryId e] else [])"
      by (simp add: comp_def)
    then show ?case using Cons by (simp add: s_def[symmetric] rev_map[symmetric])
  qed (simp add: init_state_def)
  then show ?thesis by (simp add: checkDecisionClosure_def Let_def)
qed

lemma conflicted_Nil: "conflictedOnes (checkDecisionClosure es [] True) = [] \<longleftrightarrow> twice_closed es = []"
  using conflicted_rows[of es] by (metis map_is_Nil_conv)

text \<open>A closer with no row of its decision's id below it stays in the carry.\<close>

lemma carry_leftover:
  assumes "es = older @ r # newer" "decisionEntryId r = Some k" "k \<notin> entryId ` set older"
  shows "closer_of r k \<in> set (carry (checkDecisionClosure es [] u))"
proof -
  let ?m = "st_unmatched (foldl (closure_step u) (init_state []) (rev es))"
  have "closer_of r k \<in> set (closers_for ?m k)"
    unfolding unmatched_rows using assms(2) in_upto_same[OF assms(3)] by (auto simp: closing_rows_def assms(1))
  then have "\<exists>cs. map_of ?m k = Some cs \<and> closer_of r k \<in> set cs" by (cases "map_of ?m k") (simp_all add: closers_for_def)
  then show ?thesis by (force simp: checkDecisionClosure_def Let_def dest: map_of_SomeD)
qed

section \<open>Properties\<close>

text \<open>With the upper edge closed and row ids unique, the check is exact: it counts the rows that owe a
  closer, lists as unresolved exactly those no later row and no carried closer names, lists as
  conflicted, with all their closers, exactly those named twice or more, and leaves none
  unchecked.\<close>

theorem closure_findings_exact:
  assumes "distinct (map entryId es)"
  shows "decisionsChecked (checkDecisionClosure es carried True) = length (filter owesCloser es)
     \<and> map d_id (unresolvedOnes (checkDecisionClosure es carried True)) = open_decisions carried es
     \<and> map (\<lambda>d. (d_id d, d_closers d)) (conflictedOnes (checkDecisionClosure es carried True))
         = conflicting_decisions carried es
     \<and> uncheckedOnes (checkDecisionClosure es carried True) = []"
  using closed_findings[OF assms refl, of carried]
  by (simp add: checkDecisionClosure_def Let_def rev_map)

definition ex_decision :: "nat \<Rightarrow> string \<Rightarrow> string option \<Rightarrow> chain_entry" where
  "ex_decision n eid ref = ex_genesis\<lparr>sequenceNum := n, entryId := js eid,
     decisionEntryId := map_option js ref\<rparr>"

theorem closure_findings_exact_witness:
  "let es = [ex_decision 0 ''a'' None, ex_decision 1 ''b'' None, ex_decision 2 ''c'' (Some ''a'')] in
   decisionsChecked (checkDecisionClosure es [] True) = 2
   \<and> map d_id (unresolvedOnes (checkDecisionClosure es [] True)) = [js ''b'']"
proof -
  let ?es = "[ex_decision 0 ''a'' None, ex_decision 1 ''b'' None, ex_decision 2 ''c'' (Some ''a'')]"
  have d: "distinct (map entryId ?es)" by code_simp
  have "length (filter owesCloser ?es) = 2" "open_decisions [] ?es = [js ''b'']"
    by (code_simp)+
  then show ?thesis using closure_findings_exact[OF d, of "[]"] by simp
qed

text \<open>Walking a log by pages loses nothing: checking the newer part, handing its carry to the check
  of the older part and concatenating gives the verdict of one check of the whole range, carry
  included.\<close>

theorem closure_by_pages:
  "checkDecisionClosure (older @ newer) carried u =
     (let v = checkDecisionClosure newer carried u; w = checkDecisionClosure older (carry v) u in
      w\<lparr>decisionsChecked := decisionsChecked w + decisionsChecked v,
        conflictedOnes := conflictedOnes w @ conflictedOnes v,
        unresolvedOnes := unresolvedOnes w @ unresolvedOnes v,
        uncheckedOnes := uncheckedOnes w @ uncheckedOnes v\<rparr>)"
  by (simp add: checkDecisionClosure_pages_fold Let_def)

end
