(* ===== verification/Lifecycle.thy ===== *)
theory Lifecycle
  imports Agent DecisionClosure
begin

text \<open>
  Sessions in the coordinator (\<open>packages/engine/src/agent/user-agent.ts\<close>): creating, attaching,
  ending, the lazy reaper and the kill switch, with every table write and audit entry they make, and
  the reading of persisted turn states (\<open>packages/engine/src/llm/canonical.ts\<close>). The lemmas: no
  method can break the audit chain, at most one session is open, a session end sweeps what hangs on
  the session, and the kill switch denies everything whatever fails afterwards.
\<close>

section \<open>canonical.ts\<close>

definition CANONICAL_SHAPE_VERSION :: int where
  "CANONICAL_SHAPE_VERSION = 1"

datatype parsed_turn = TurnOk json | Unparseable | FutureVersion

text \<open>Property access and \<open>in\<close> on a parsed value; arrays have no member of the names used here.\<close>

fun jget :: "json \<Rightarrow> jsstr \<Rightarrow> json option" where
  "jget (JObj ms) k = map_of ms k"
| "jget _ k = None"

text \<open>\<open>typeof x === "object" && x !== null\<close>.\<close>

fun is_object :: "json \<Rightarrow> bool" where
  "is_object (JObj _) = True"
| "is_object (JArr _) = True"
| "is_object _ = False"

fun is_integer_num :: "jsnum \<Rightarrow> bool" where
  "is_integer_num (Fin q) = integral q"
| "is_integer_num _ = False"

definition migrateHeldTurn :: "json \<Rightarrow> json" where
  "migrateHeldTurn state = state"

definition parseTurnState :: "(jsstr \<Rightarrow> json option) \<Rightarrow> jsstr \<Rightarrow> parsed_turn" where
  "parseTurnState json_parse raw =
     (case json_parse raw of None \<Rightarrow> Unparseable
      | Some parsed \<Rightarrow>
        if \<not> is_object parsed then Unparseable
        else (case jget parsed (js ''v'') of
            None \<Rightarrow> TurnOk (migrateHeldTurn parsed)
          | Some v \<Rightarrow>
            (case (v, jget parsed (js ''state'')) of
              (JNum n, Some state) \<Rightarrow>
                if \<not> is_integer_num n \<or> num_val n < 0 \<or> \<not> is_object state then Unparseable
                else if num_val n > of_int CANONICAL_SHAPE_VERSION then FutureVersion
                else TurnOk (migrateHeldTurn state)
            | _ \<Rightarrow> Unparseable)))"

section \<open>user-agent.ts: reading\<close>

definition turnStateIsAnswered :: "agent_env \<Rightarrow> jsstr \<Rightarrow> bool" where
  "turnStateIsAnswered env turnState \<longleftrightarrow>
     turnState \<noteq> [] \<and> (case parseTurnState (ev_json_parse env) turnState of
        TurnOk state \<Rightarrow> jget state (js ''answered'') \<noteq> None | _ \<Rightarrow> False)"

definition turnStateHasResolution :: "agent_env \<Rightarrow> jsstr \<Rightarrow> bool" where
  "turnStateHasResolution env turnState \<longleftrightarrow>
     turnState \<noteq> [] \<and> (case parseTurnState (ev_json_parse env) turnState of
        TurnOk state \<Rightarrow> jget state (js ''dispatched'') = Some (JBool True) \<or> jget state (js ''answered'') \<noteq> None
      | _ \<Rightarrow> False)"

definition sessionStartedAt :: "agent_env \<Rightarrow> agent \<Rightarrow> jsstr \<Rightarrow> int option" where
  "sessionStartedAt env st s =
     (case readSessionStartedAt (db_sessions st) s of None \<Rightarrow> None | Some t \<Rightarrow> ev_parse_date env t)"

text \<open>The stored origin column as \<open>AuditOrigin\<close>.\<close>

definition as_origin :: "jsstr \<Rightarrow> audit_origin" where
  "as_origin t = (if t = js ''mcp_commission'' then McpCommission else Human)"

definition auditEntryIdentity :: "agent \<Rightarrow> jsstr \<Rightarrow> audit_identity option" where
  "auditEntryIdentity st entry = readAuditEntryIdentity (db_audit st) entry"

definition sessionIdentity :: "agent \<Rightarrow> jsstr \<Rightarrow> (jsstr \<times> jsstr) option" where
  "sessionIdentity st s = map_option (\<lambda>(u, a, _). (u, a)) (readSessionStartIdentity (db_audit st) s)"

definition session_expired :: "agent_env \<Rightarrow> agent \<Rightarrow> jsstr \<Rightarrow> bool" where
  "session_expired env st s \<longleftrightarrow>
     (case sessionStartedAt env st s of None \<Rightarrow> False | Some t \<Rightarrow> ev_now env \<ge> t + SESSION_LIFETIME_MS)"

definition unresolvedHeldCallIds :: "agent_env \<Rightarrow> (held_row \<Rightarrow> bool) \<Rightarrow> agent \<Rightarrow> jsstr list" where
  "unresolvedHeldCallIds env p st =
     map h_id (filter (\<lambda>r. p r \<and> \<not> turnStateIsAnswered env (h_turn_state r)
        \<and> \<not> session_expired env st (h_session_id r)) (selectHeldCalls (db_held st)))"

definition heldCallId :: "agent_env \<Rightarrow> agent \<Rightarrow> jsstr option" where
  "heldCallId env st = first_row (unresolvedHeldCallIds env (\<lambda>_. True) st)"

definition loadHeldCall :: "agent_env \<Rightarrow> agent \<Rightarrow> jsstr \<Rightarrow> held_row option" where
  "loadHeldCall env st i =
     (case readHeldCall (db_held st) i of None \<Rightarrow> None
      | Some r \<Rightarrow> if session_expired env st (h_session_id r) then None else Some r)"

section \<open>user-agent.ts: session ends\<close>

datatype end_reason = EndTimeout | EndKill | EndQuit | EndSuperseded | EndTerminated

fun reason_text :: "end_reason \<Rightarrow> jsstr" where
  "reason_text EndTimeout = js ''timeout''"
| "reason_text EndKill = js ''kill''"
| "reason_text EndQuit = js ''quit''"
| "reason_text EndSuperseded = js ''superseded''"
| "reason_text EndTerminated = js ''terminated''"

definition session_end_params :: "jsstr \<times> jsstr \<Rightarrow> jsstr \<Rightarrow> audit_origin \<Rightarrow> end_reason \<Rightarrow> jsstr \<Rightarrow> audit_params" where
  "session_end_params ident s orig reason t =
     \<lparr>p_userId = fst ident, p_agentId = snd ident, p_sessionId = s, p_toolName = js ''session.end'',
      p_service = js ''session'', p_verb = js ''end'', p_noun = js ''-'', p_decision = Deny,
      p_origin = Some orig, p_parametersMetadata = [], p_outcome = Timeout,
      p_errorMessage = Some (reason_text reason), p_latencyMs = JInt 0, p_costUsd = None,
      p_epochId = None, p_timestamp = Some t\<rparr>"

definition writeSessionEnd :: "agent_env \<Rightarrow> jsstr \<times> jsstr \<Rightarrow> jsstr \<Rightarrow> end_reason \<Rightarrow> jsstr \<Rightarrow> unit act" where
  "writeSessionEnd env ident s reason t =
     bind (read (\<lambda>st. case readSessionStartIdentity (db_audit st) s of
         Some (_, _, orig) \<Rightarrow> as_origin orig | None \<Rightarrow> Human)) (\<lambda>orig.
     bind (insert_audit env (session_end_params ident s orig reason t)) (\<lambda>_. ret ()))"

text \<open>The parameters of a closer that recovers its identity from the pending entry.\<close>

definition closer_params ::
  "audit_identity \<Rightarrow> decision \<Rightarrow> audit_outcome \<Rightarrow> jsstr \<Rightarrow> jsstr \<Rightarrow> audit_params" where
  "closer_params i d out msg t =
     \<lparr>p_userId = i_userId i, p_agentId = i_agentId i, p_sessionId = i_sessionId i,
      p_toolName = i_toolName i, p_service = i_service i, p_verb = i_verb i, p_noun = i_noun i,
      p_decision = d, p_origin = Some (as_origin (i_origin i)), p_parametersMetadata = [],
      p_outcome = out, p_errorMessage = Some msg, p_latencyMs = JInt 0, p_costUsd = None,
      p_epochId = None, p_timestamp = Some t\<rparr>"

definition writeHeldTimeoutOutcome :: "agent_env \<Rightarrow> jsstr \<Rightarrow> jsstr \<Rightarrow> unit act" where
  "writeHeldTimeoutOutcome env pending t =
     bind (read (\<lambda>st. auditEntryIdentity st pending)) (\<lambda>ident. case ident of None \<Rightarrow> ret ()
       | Some i \<Rightarrow> bind (close_decision env
           (closer_params i Deny Timeout (js ''Held call expired with its session'') t) pending Inferred)
           (\<lambda>_. ret ()))"

definition writeHeldCancelOutcome :: "agent_env \<Rightarrow> jsstr \<Rightarrow> jsstr \<Rightarrow> bool \<Rightarrow> unit act" where
  "writeHeldCancelOutcome env pending t mcp =
     bind (read (\<lambda>st. auditEntryIdentity st pending)) (\<lambda>ident. case ident of None \<Rightarrow> ret ()
       | Some i \<Rightarrow> bind (close_decision env
           (closer_params i Deny ErrorOutcome
             (if mcp then js ''Parked action cancelled with its task (habenula_cancel)''
              else js ''Parked action cancelled with its task (habenula task cancel)'') t) pending Inferred)
           (\<lambda>_. ret ()))"

definition closeInputParkAudit :: "agent_env \<Rightarrow> jsstr \<Rightarrow> jsstr \<Rightarrow> unit act" where
  "closeInputParkAudit env pending t =
     bind (read (\<lambda>st. auditEntryIdentity st pending)) (\<lambda>ident. case ident of None \<Rightarrow> ret ()
       | Some i \<Rightarrow> bind (txn (close_decision env
           (closer_params i Allow Success
             (js ''Input provided via habenula_provide; parked action re-evaluated through governance'') t)
           pending Observed)) (\<lambda>_. ret ()))"

definition delete_held :: "jsstr \<Rightarrow> unit act" where
  "delete_held i = modify (\<lambda>st. st\<lparr>db_held := deleteHeldToolCall i (db_held st)\<rparr>)"

text \<open>The loop over the held calls of a session that ends.\<close>

definition sweep_holds :: "agent_env \<Rightarrow> held_row list \<Rightarrow> jsstr \<Rightarrow> unit act" where
  "sweep_holds env holds t =
     for_each holds (\<lambda>h.
       bind (if turnStateHasResolution env (h_turn_state h) then ret ()
             else writeHeldTimeoutOutcome env (h_pending h) t) (\<lambda>_.
       delete_held (h_id h)))"

text \<open>Its end in the log and in the tables.\<close>

definition close_session :: "agent_env \<Rightarrow> jsstr \<Rightarrow> end_reason \<Rightarrow> jsstr \<Rightarrow> unit act" where
  "close_session env s reason t =
     bind (read (\<lambda>st. sessionIdentity st s)) (\<lambda>ident.
     bind (case ident of None \<Rightarrow> ret () | Some i \<Rightarrow> writeSessionEnd env i s reason t) (\<lambda>_.
     bind (modify (\<lambda>st. st\<lparr>db_runs := markRunsExpiredForSession s t (db_runs st)\<rparr>)) (\<lambda>_.
     modify (\<lambda>st. st\<lparr>db_sessions := markSessionEnded s t (db_sessions st)\<rparr>))))"

definition endSessionRowInTxn :: "agent_env \<Rightarrow> jsstr \<Rightarrow> end_reason \<Rightarrow> jsstr \<Rightarrow> unit act" where
  "endSessionRowInTxn env s reason t =
     bind (read (\<lambda>st. selectHeldCallsForSession (db_held st) s)) (\<lambda>holds.
     bind (sweep_holds env holds t) (\<lambda>_. close_session env s reason t))"

text \<open>One round of the reaper's loop.\<close>

definition reap_session :: "agent_env \<Rightarrow> session_row \<Rightarrow> unit act" where
  "reap_session env s =
     bind (read (\<lambda>st. sessionStartedAt env st (s_session_id s))) (\<lambda>started.
     (let effectiveExpiry = (case started of Some t \<Rightarrow> t + SESSION_LIFETIME_MS | None \<Rightarrow> ev_now env) in
      if ev_now env < effectiveExpiry then ret ()
      else (case toISOString effectiveExpiry of None \<Rightarrow> throw DateRangeError
        | Some stamp \<Rightarrow> txn (endSessionRowInTxn env (s_session_id s) EndTimeout stamp))))"

definition reapExpiredSessions :: "agent_env \<Rightarrow> unit act" where
  "reapExpiredSessions env =
     bind (read (\<lambda>st. selectOpenSessions (db_sessions st))) (\<lambda>sessions.
     for_each sessions (reap_session env))"

section \<open>user-agent.ts: session starts\<close>

definition session_start_params :: "jsstr \<Rightarrow> jsstr \<Rightarrow> jsstr \<Rightarrow> audit_origin \<Rightarrow> jsstr \<Rightarrow> audit_params" where
  "session_start_params user agent s orig t =
     \<lparr>p_userId = user, p_agentId = agent, p_sessionId = s, p_toolName = js ''session.start'',
      p_service = js ''session'', p_verb = js ''start'', p_noun = js ''-'', p_decision = Allow,
      p_origin = Some orig, p_parametersMetadata = [], p_outcome = Success, p_errorMessage = None,
      p_latencyMs = JInt 0, p_costUsd = None, p_epochId = None, p_timestamp = Some t\<rparr>"

definition createSessionInTxn :: "agent_env \<Rightarrow> jsstr \<Rightarrow> jsstr \<Rightarrow> audit_origin \<Rightarrow> (jsstr \<times> jsstr) act" where
  "createSessionInTxn env user agent orig =
     bind (fresh_uuid env) (\<lambda>u.
     (let s = js ''session-'' @ u; startedAt = now_iso env in
      bind (modify (\<lambda>st. st\<lparr>db_sessions := insertSessionState s startedAt agent (db_sessions st)\<rparr>)) (\<lambda>_.
      bind (insert_audit env (session_start_params user agent s orig startedAt)) (\<lambda>_.
      ret (s, startedAt)))))"

record active_session_view =
  v_sessionId :: jsstr
  v_startedAt :: jsstr
  v_expiry :: "jsstr option"

text \<open>\<open>toISOString\<close> of the expiry throws out of range.\<close>

definition activeSessionView :: "agent_env \<Rightarrow> jsstr \<Rightarrow> jsstr \<Rightarrow> active_session_view act" where
  "activeSessionView env s startedAt =
     (case ev_parse_date env startedAt of
        None \<Rightarrow> ret \<lparr>v_sessionId = s, v_startedAt = startedAt, v_expiry = None\<rparr>
      | Some t \<Rightarrow> (case toISOString (t + SESSION_LIFETIME_MS) of None \<Rightarrow> throw DateRangeError
          | Some e \<Rightarrow> ret \<lparr>v_sessionId = s, v_startedAt = startedAt, v_expiry = Some e\<rparr>))"

definition resolveActiveSession :: "agent_env \<Rightarrow> jsstr \<Rightarrow> jsstr \<Rightarrow> audit_origin \<Rightarrow> jsstr act" where
  "resolveActiveSession env user agent orig =
     bind (reapExpiredSessions env) (\<lambda>_. txn (
     bind (read (\<lambda>st. selectActiveSession (db_sessions st))) (\<lambda>active. case active of
       Some a \<Rightarrow>
         bind (read (\<lambda>st. selectOpenSessions (db_sessions st))) (\<lambda>open_rows.
         bind (for_each open_rows (\<lambda>s. if s_session_id s = s_session_id a then ret ()
             else endSessionRowInTxn env (s_session_id s) EndSuperseded (now_iso env))) (\<lambda>_.
         ret (s_session_id a)))
     | None \<Rightarrow> bind (createSessionInTxn env user agent orig) (\<lambda>(s, _). ret s))))"

datatype start_status = Refused | Started

definition startSession :: "agent_env \<Rightarrow> jsstr \<Rightarrow> jsstr \<Rightarrow> (start_status \<times> active_session_view) act" where
  "startSession env user agent =
     bind (reapExpiredSessions env) (\<lambda>_. txn (
     bind (read (\<lambda>st. selectActiveSession (db_sessions st))) (\<lambda>active. case active of
       Some a \<Rightarrow> bind (activeSessionView env (s_session_id a) (s_started_at a)) (\<lambda>v. ret (Refused, v))
     | None \<Rightarrow> bind (createSessionInTxn env user agent Human) (\<lambda>(s, startedAt).
         bind (activeSessionView env s startedAt) (\<lambda>v. ret (Started, v))))))"

definition endSession :: "agent_env \<Rightarrow> bool act" where
  "endSession env =
     bind (reapExpiredSessions env) (\<lambda>_. txn (
     bind (read (\<lambda>st. selectActiveSession (db_sessions st))) (\<lambda>active. case active of
       None \<Rightarrow> ret False
     | Some a \<Rightarrow> bind (endSessionRowInTxn env (s_session_id a) EndQuit (now_iso env)) (\<lambda>_. ret True))))"

definition getActiveSession :: "agent_env \<Rightarrow> active_session_view option act" where
  "getActiveSession env =
     bind (reapExpiredSessions env) (\<lambda>_.
     bind (read (\<lambda>st. selectActiveSession (db_sessions st))) (\<lambda>active. case active of
       None \<Rightarrow> ret None
     | Some a \<Rightarrow> bind (activeSessionView env (s_session_id a) (s_started_at a)) (\<lambda>v. ret (Some v))))"

section \<open>user-agent.ts: the kill switch\<close>

text \<open>Cancelling the governed-learning component comes first and is swallowed; it has no table here.\<close>

definition kill_tx1 :: "unit act" where
  "kill_tx1 = txn (
     bind (modify (\<lambda>st. st\<lparr>db_policy := deletePolicyEntriesExcept WILDCARD_DENY_ID (db_policy st)\<rparr>)) (\<lambda>_.
     modify (\<lambda>st. st\<lparr>db_held := deleteAllHeldToolCalls (db_held st)\<rparr>)))"

definition kill_tx2 :: "agent_env \<Rightarrow> held_row list \<Rightarrow> session_row list \<Rightarrow> unit act" where
  "kill_tx2 env held activeSessions = txn (
     bind (for_each held (\<lambda>h. if turnStateHasResolution env (h_turn_state h) then ret ()
         else writeHeldTimeoutOutcome env (h_pending h) (now_iso env))) (\<lambda>_.
     for_each activeSessions (\<lambda>s. close_session env (s_session_id s) EndKill (now_iso env))))"

definition killSwitch :: "agent_env \<Rightarrow> unit act" where
  "killSwitch env =
     bind (read (\<lambda>st. selectHeldCallAuditRefs (db_held st))) (\<lambda>held.
     bind (read (\<lambda>st. selectOpenSessions (db_sessions st))) (\<lambda>activeSessions.
     bind kill_tx1 (\<lambda>_. swallow (kill_tx2 env held activeSessions))))"

section \<open>Invariants of the session methods\<close>

text \<open>
  What a property of the state needs in order to survive every session method: the audit writes and
  the table statements these methods issue keep it.
\<close>

locale session_invariant =
  fixes P :: "agent \<Rightarrow> bool" and env :: agent_env
  assumes stab: "stable P"
    and ins: "p_epochId ps = None \<Longrightarrow> keeps P (insert_audit env ps)"
    and clo: "p_epochId ps = None \<Longrightarrow> keeps P (close_decision env ps d basis)"
    and held: "P st \<Longrightarrow> P (st\<lparr>db_held := deleteHeldToolCall i (db_held st)\<rparr>)"
    and expired: "P st \<Longrightarrow> P (st\<lparr>db_runs := markRunsExpiredForSession s t (db_runs st)\<rparr>)"
    and ended: "P st \<Longrightarrow> P (st\<lparr>db_sessions := markSessionEnded s t (db_sessions st)\<rparr>)"
    and started: "P st \<Longrightarrow> P (st\<lparr>db_sessions := insertSessionState s t a (db_sessions st)\<rparr>)"
begin

lemma writeSessionEnd: "keeps P (writeSessionEnd env ident s reason t)"
  unfolding writeSessionEnd_def by (intro keeps_intros ins) (simp add: session_end_params_def)

lemma writeHeldTimeoutOutcome: "keeps P (writeHeldTimeoutOutcome env pending t)"
  unfolding writeHeldTimeoutOutcome_def by (intro keeps_intros clo) (simp add: closer_params_def)

lemma writeHeldCancelOutcome: "keeps P (writeHeldCancelOutcome env pending t mcp)"
  unfolding writeHeldCancelOutcome_def by (intro keeps_intros clo) (simp add: closer_params_def)

lemma closeInputParkAudit: "keeps P (closeInputParkAudit env pending t)"
  unfolding closeInputParkAudit_def by (intro keeps_intros clo stab) (simp add: closer_params_def)

lemma delete_held: "keeps P (delete_held i)"
  unfolding delete_held_def by (intro keeps_modify held)

lemma close_session: "keeps P (close_session env s reason t)"
  unfolding close_session_def by (intro keeps_intros keeps_modify writeSessionEnd expired ended)

lemma endSessionRowInTxn: "keeps P (endSessionRowInTxn env s reason t)"
  unfolding endSessionRowInTxn_def sweep_holds_def
  by (intro keeps_intros writeHeldTimeoutOutcome delete_held close_session)

lemma reap_session: "keeps P (reap_session env s)"
  unfolding reap_session_def Let_def by (intro keeps_intros endSessionRowInTxn stab)

lemma reapExpiredSessions: "keeps P (reapExpiredSessions env)"
  unfolding reapExpiredSessions_def by (intro keeps_intros reap_session)

lemma createSessionInTxn: "keeps P (createSessionInTxn env user agent orig)"
  unfolding createSessionInTxn_def Let_def
  by (intro keeps_intros keeps_modify started ins stab) (simp_all add: session_start_params_def)

lemma activeSessionView: "keeps P (activeSessionView env s t)"
  unfolding activeSessionView_def by (intro keeps_intros)

lemma resolveActiveSession: "keeps P (resolveActiveSession env user agent orig)"
  unfolding resolveActiveSession_def
  by (intro keeps_intros reapExpiredSessions stab endSessionRowInTxn createSessionInTxn)

lemma startSession: "keeps P (startSession env user agent)"
  unfolding startSession_def
  by (intro keeps_intros reapExpiredSessions stab createSessionInTxn activeSessionView)

lemma endSession: "keeps P (endSession env)"
  unfolding endSession_def by (intro keeps_intros reapExpiredSessions stab endSessionRowInTxn)

lemma getActiveSession: "keeps P (getActiveSession env)"
  unfolding getActiveSession_def by (intro keeps_intros reapExpiredSessions activeSessionView)

lemma kill_tx2: "keeps P (kill_tx2 env held activeSessions)"
  unfolding kill_tx2_def by (intro keeps_intros stab writeHeldTimeoutOutcome close_session)

end

text \<open>The kill switch also needs the deny-all statements.\<close>

locale kill_invariant = session_invariant +
  assumes revoked: "P st \<Longrightarrow> P (st\<lparr>db_policy := deletePolicyEntriesExcept WILDCARD_DENY_ID (db_policy st)\<rparr>)"
    and cleared: "P st \<Longrightarrow> P (st\<lparr>db_held := deleteAllHeldToolCalls (db_held st)\<rparr>)"
begin

lemma kill_tx1: "keeps P kill_tx1"
  unfolding kill_tx1_def by (intro keeps_intros keeps_modify stab revoked cleared)

lemma killSwitch: "keeps P (killSwitch env)"
  unfolding killSwitch_def by (intro keeps_intros kill_tx1 kill_tx2)

end

interpretation chain: kill_invariant "chain_ok env" env for env
  by unfold_locales (simp_all add: stable_chain_ok chain_ok_insert chain_ok_close, simp_all add: chain_ok_def)

text \<open>Tables the session methods never write: a property of them alone is kept.\<close>

definition untouched :: "agent \<Rightarrow> agent \<Rightarrow> bool" where
  "untouched c st \<longleftrightarrow> db_services st = db_services c \<and> db_settings st = db_settings c
     \<and> db_oauth st = db_oauth c \<and> db_ledger st = db_ledger c \<and> turnInFlight st = turnInFlight c"

lemma keeps_audit_only:
  assumes "stable P" "\<And>st rows. P st \<Longrightarrow> P (st\<lparr>db_audit := rows\<rparr>)"
  shows "keeps P (insert_audit env ps)" "keeps P (close_decision env ps d basis)"
  using assms by (auto intro: keeps_insert_audit keeps_close_decision)

interpretation rest: kill_invariant "untouched c" env for c env
  by unfold_locales (auto simp: stable_def untouched_def intro!: keeps_audit_only)

interpretation grants: kill_invariant "\<lambda>st. grants_inv (db_policy st)" env for env
  by unfold_locales (auto simp: stable_def grants_inv_kill intro!: keeps_audit_only)

text \<open>The session methods, the kill switch apart, leave the grants alone.\<close>

interpretation policy_frame: session_invariant "\<lambda>st. db_policy st = c" env for c env
  by unfold_locales (auto simp: stable_def intro!: keeps_audit_only)

interpretation no_holds: session_invariant "\<lambda>st. db_held st = []" env for env
  by unfold_locales (auto simp: stable_def deleteHeldToolCall_def delete_where_def intro!: keeps_audit_only)

interpretation session_ids: kill_invariant "\<lambda>st. distinct (map s_session_id (db_sessions st))" env for env
  by unfold_locales
    (auto simp: stable_def distinct_insertSessionState simp del: distinct_map intro!: keeps_audit_only)

section \<open>What a session end does\<close>

text \<open>The held calls, runs and sessions after an action; the log may grow, nothing else changes.\<close>

definition leaves :: "held_table \<Rightarrow> commission_table \<Rightarrow> session_table \<Rightarrow> agent \<Rightarrow> agent \<Rightarrow> bool" where
  "leaves h r s st st' \<longleftrightarrow> db_held st' = h \<and> db_runs st' = r \<and> db_sessions st' = s
     \<and> db_policy st' = db_policy st \<and> untouched st st'"

abbreviation logs_only :: "agent \<Rightarrow> agent \<Rightarrow> bool" where
  "logs_only st \<equiv> leaves (db_held st) (db_runs st) (db_sessions st) st"

lemma logs_only_refl [simp]: "logs_only st st"
  by (simp add: leaves_def untouched_def)

lemma logs_only_insert: "post (insert_audit env ps) st (\<lambda>_. logs_only st)"
  by (rule post_mono[OF post_insert_audit]) (auto simp: leaves_def untouched_def)

lemma logs_only_close: "post (close_decision env ps d basis) st (\<lambda>_. logs_only st)"
  by (rule post_mono[OF post_close_decision]) (auto simp: leaves_def untouched_def)

lemma post_writeHeldTimeoutOutcome: "post (writeHeldTimeoutOutcome env pending t) st (\<lambda>_. logs_only st)"
  by (cases "auditEntryIdentity st pending") (simp_all add: writeHeldTimeoutOutcome_def logs_only_close)

lemma post_writeHeldCancelOutcome: "post (writeHeldCancelOutcome env pending t mcp) st (\<lambda>_. logs_only st)"
  by (cases "auditEntryIdentity st pending") (simp_all add: writeHeldCancelOutcome_def logs_only_close)

lemma post_writeSessionEnd: "post (writeSessionEnd env ident s reason t) st (\<lambda>_. logs_only st)"
  unfolding writeSessionEnd_def by (simp add: logs_only_insert)

lemma post_sweep_holds:
  "post (sweep_holds env holds t) st
     (\<lambda>_. leaves (filter (\<lambda>r. h_id r \<notin> h_id ` set holds) (db_held st)) (db_runs st) (db_sessions st) st)"
proof (induction holds arbitrary: st)
  case Nil
  show ?case by (simp add: sweep_holds_def)
next
  case (Cons h holds)
  have one: "post (if turnStateHasResolution env (h_turn_state h) then ret ()
       else writeHeldTimeoutOutcome env (h_pending h) t) st (\<lambda>_. logs_only st)"
    by (simp add: post_writeHeldTimeoutOutcome)
  have f: "filter (\<lambda>r. h_id r \<notin> h_id ` set holds) (deleteHeldToolCall (h_id h) rows)
        = filter (\<lambda>r. h_id r \<notin> h_id ` set (h # holds)) rows" for rows
    unfolding deleteHeldToolCall_def delete_where_def filter_filter by (rule filter_cong) auto
  show ?case
    unfolding sweep_holds_def for_each.simps post_bind delete_held_def post_modify
    by (rule post_mono[OF one], rule post_mono[OF Cons.IH[unfolded sweep_holds_def delete_held_def]])
      (simp add: leaves_def untouched_def f)
qed

text \<open>A session end: its held calls, its unfinished runs and the session itself.\<close>

lemma post_close_session:
  "post (close_session env s reason t) st
     (\<lambda>_. leaves (db_held st) (markRunsExpiredForSession s t (db_runs st)) (markSessionEnded s t (db_sessions st)) st)"
proof -
  have w: "post (case sessionIdentity st s of None \<Rightarrow> ret () | Some i \<Rightarrow> writeSessionEnd env i s reason t) st
      (\<lambda>_. logs_only st)"
    by (cases "sessionIdentity st s") (simp_all add: post_writeSessionEnd)
  show ?thesis
    unfolding close_session_def post_bind post_read post_modify
    by (rule post_mono[OF w]) (simp add: leaves_def untouched_def)
qed

lemma holds_of_session:
  "distinct (map h_id rows) \<Longrightarrow>
   filter (\<lambda>r. h_id r \<notin> h_id ` set (selectHeldCallsForSession rows s)) rows = filter (\<lambda>r. h_session_id r \<noteq> s) rows"
  by (rule filter_cong) (auto simp: selectHeldCallsForSession_def distinct_map dest: inj_onD)

lemma post_endSessionRowInTxn:
  assumes "distinct (map h_id (db_held st))"
  shows "post (endSessionRowInTxn env s reason t) st
     (\<lambda>_. leaves (filter (\<lambda>r. h_session_id r \<noteq> s) (db_held st)) (markRunsExpiredForSession s t (db_runs st))
        (markSessionEnded s t (db_sessions st)) st)"
  unfolding endSessionRowInTxn_def post_bind post_read
  by (rule post_mono[OF post_sweep_holds], rule post_mono[OF post_close_session])
    (simp add: leaves_def untouched_def holds_of_session[OF assms])

lemma nonterminal_expired:
  "selectNonTerminalRuns (markRunsExpiredForSession s t rows) = filter (\<lambda>r. t_session_id r \<noteq> s) (selectNonTerminalRuns rows)"
  by (induction rows) (auto simp: selectNonTerminalRuns_def markRunsExpiredForSession_def update_where_def)

text \<open>What is left after a number of sessions ended.\<close>

definition after_ends :: "jsstr set \<Rightarrow> agent \<Rightarrow> agent \<Rightarrow> bool" where
  "after_ends dead st st' \<longleftrightarrow>
     selectOpenSessions (db_sessions st') = filter (\<lambda>r. s_session_id r \<notin> dead) (selectOpenSessions (db_sessions st))
     \<and> map s_session_id (db_sessions st') = map s_session_id (db_sessions st)
     \<and> map s_started_at (db_sessions st') = map s_started_at (db_sessions st)
     \<and> db_held st' = filter (\<lambda>h. h_session_id h \<notin> dead) (db_held st)
     \<and> selectNonTerminalRuns (db_runs st') =
         filter (\<lambda>r. t_session_id r \<notin> dead) (selectNonTerminalRuns (db_runs st))
     \<and> db_policy st' = db_policy st \<and> untouched st st'"

lemma after_ends_refl: "after_ends {} st st"
  by (simp add: after_ends_def untouched_def)

lemma after_ends_trans:
  "after_ends A st st1 \<Longrightarrow> after_ends B st1 st2 \<Longrightarrow> after_ends (A \<union> B) st st2"
  by (auto simp: after_ends_def untouched_def filter_filter intro!: filter_cong)

lemma post_endSession_after:
  assumes "distinct (map h_id (db_held st))"
  shows "post (endSessionRowInTxn env s reason t) st (\<lambda>_. after_ends {s} st)"
  by (rule post_mono[OF post_endSessionRowInTxn[OF assms]])
    (simp add: after_ends_def leaves_def open_markSessionEnded nonterminal_expired,
      simp add: markSessionEnded_def update_where_def)

subsection \<open>The reaper\<close>

text \<open>A session that has a readable start less than ninety minutes ago.\<close>

definition alive :: "agent_env \<Rightarrow> session_row \<Rightarrow> bool" where
  "alive env r \<longleftrightarrow> (case ev_parse_date env (s_started_at r) of None \<Rightarrow> False
     | Some t \<Rightarrow> ev_now env < t + SESSION_LIFETIME_MS)"

definition dead_ids :: "agent_env \<Rightarrow> session_row list \<Rightarrow> jsstr set" where
  "dead_ids env rows = s_session_id ` {r \<in> set rows. \<not> alive env r}"

definition tables_ok :: "agent \<Rightarrow> bool" where
  "tables_ok st \<longleftrightarrow> distinct (map h_id (db_held st)) \<and> distinct (map s_session_id (db_sessions st))"

lemma tables_ok_after_ends: "tables_ok st \<Longrightarrow> after_ends D st st' \<Longrightarrow> tables_ok st'"
  by (auto simp: tables_ok_def after_ends_def distinct_map_filter)

lemma readSessionStartedAt_cong:
  "map s_session_id a = map s_session_id b \<Longrightarrow> map s_started_at a = map s_started_at b \<Longrightarrow>
   readSessionStartedAt a s = readSessionStartedAt b s"
proof (induction a arbitrary: b)
  case (Cons x a)
  then obtain y b' where "b = y # b'" "s_session_id x = s_session_id y" "s_started_at x = s_started_at y"
      "map s_session_id a = map s_session_id b'" "map s_started_at a = map s_started_at b'" by (cases b) auto
  then show ?case using Cons.IH[of b'] by (auto simp: readSessionStartedAt_def session_pk.read_Cons)
qed simp

lemma started_of_row:
  "tables_ok st \<Longrightarrow> r \<in> set (db_sessions st) \<Longrightarrow>
   sessionStartedAt env st (s_session_id r) = ev_parse_date env (s_started_at r)"
  using session_pk.read_unique[of "db_sessions st" r]
  by (simp add: tables_ok_def sessionStartedAt_def readSessionStartedAt_def)

lemma started_after_ends:
  "after_ends D st st' \<Longrightarrow> sessionStartedAt env st' s = sessionStartedAt env st s"
  using readSessionStartedAt_cong[of "db_sessions st'" "db_sessions st" s]
  by (simp add: sessionStartedAt_def after_ends_def)

lemma post_reap_session:
  assumes "tables_ok st" "sessionStartedAt env st (s_session_id s) = ev_parse_date env (s_started_at s)"
  shows "post (reap_session env s) st (\<lambda>_. after_ends (dead_ids env [s]) st)"
proof (cases "alive env s")
  case True
  then have d: "dead_ids env [s] = {}" by (auto simp: dead_ids_def)
  show ?thesis using assms(2) True unfolding d
    by (auto simp: reap_session_def Let_def alive_def after_ends_refl split: option.splits)
next
  case False
  have d: "dead_ids env [s] = {s_session_id s}" using False by (auto simp: dead_ids_def)
  have e: "post (txn (endSessionRowInTxn env (s_session_id s) EndTimeout stamp)) st (\<lambda>_. after_ends {s_session_id s} st)" for stamp
    using post_endSession_after assms(1) by (simp add: tables_ok_def)
  show ?thesis
  proof (cases "ev_parse_date env (s_started_at s)")
    case None
    then show ?thesis using e assms(2)
      by (auto simp: reap_session_def Let_def d split: option.split simp del: post_txn)
  next
    case (Some t)
    then show ?thesis using False e assms(2)
      by (auto simp: reap_session_def Let_def d alive_def split: option.split simp del: post_txn)
  qed
qed

lemma post_reap_all:
  assumes "tables_ok st" "\<forall>s \<in> set xs. sessionStartedAt env st (s_session_id s) = ev_parse_date env (s_started_at s)"
  shows "post (for_each xs (reap_session env)) st (\<lambda>_. after_ends (dead_ids env xs) st)"
  using assms
proof (induction xs arbitrary: st)
  case Nil
  then show ?case by (simp add: dead_ids_def after_ends_refl)
next
  case (Cons s xs)
  have d: "dead_ids env (s # xs) = dead_ids env [s] \<union> dead_ids env xs" by (auto simp: dead_ids_def)
  have one: "post (reap_session env s) st (\<lambda>_. after_ends (dead_ids env [s]) st)"
    using Cons.prems by (intro post_reap_session) simp_all
  show ?case
    unfolding for_each.simps post_bind
  proof (rule post_mono[OF one])
    fix x st1 assume a: "after_ends (dead_ids env [s]) st st1"
    have "post (for_each xs (reap_session env)) st1 (\<lambda>_. after_ends (dead_ids env xs) st1)"
      using Cons.IH[of st1] Cons.prems a tables_ok_after_ends started_after_ends[OF a] by simp
    then show "post (for_each xs (reap_session env)) st1 (\<lambda>_. after_ends (dead_ids env (s # xs)) st)"
      by (rule post_mono) (auto simp: d intro: after_ends_trans[OF a])
  qed
qed

lemma post_reapExpiredSessions:
  assumes "tables_ok st"
  shows "post (reapExpiredSessions env) st (\<lambda>_. after_ends (dead_ids env (selectOpenSessions (db_sessions st))) st)"
  unfolding reapExpiredSessions_def post_bind post_read
  by (rule post_reap_all[OF assms]) (auto simp: selectOpenSessions_def started_of_row[OF assms])

text \<open>After the reaper every open session is alive.\<close>

lemma reaped_alive:
  assumes "tables_ok st" "after_ends (dead_ids env (selectOpenSessions (db_sessions st))) st st'"
  shows "\<forall>r \<in> set (selectOpenSessions (db_sessions st')). alive env r"
  using assms by (auto simp: after_ends_def dead_ids_def)

subsection \<open>One open session\<close>

lemma post_supersede_all:
  assumes "tables_ok st"
  shows "post (for_each xs (\<lambda>s. if s_session_id s = a then ret () else endSessionRowInTxn env (s_session_id s) reason t)) st
     (\<lambda>_. after_ends (s_session_id ` set xs - {a}) st)"
  using assms
proof (induction xs arbitrary: st)
  case Nil
  then show ?case by (simp add: after_ends_refl)
next
  case (Cons s xs)
  let ?body = "\<lambda>s. if s_session_id s = a then ret () else endSessionRowInTxn env (s_session_id s) reason t"
  have one: "post (?body s) st (\<lambda>_. after_ends ({s_session_id s} - {a}) st)"
    using Cons.prems post_endSession_after by (simp add: after_ends_refl tables_ok_def)
  show ?case
    unfolding for_each.simps post_bind
  proof (rule post_mono[OF one])
    fix x st1 assume a: "after_ends ({s_session_id s} - {a}) st st1"
    have p: "post (for_each xs ?body) st1 (\<lambda>_. after_ends (s_session_id ` set xs - {a}) st1)"
      using Cons.IH[of st1] Cons.prems tables_ok_after_ends[OF Cons.prems a] by simp
    have eq: "({s_session_id s} - {a}) \<union> (s_session_id ` set xs - {a}) = s_session_id ` set (s # xs) - {a}" by auto
    show "post (for_each xs ?body) st1 (\<lambda>_. after_ends (s_session_id ` set (s # xs) - {a}) st)"
      by (rule post_mono[OF p]) (drule after_ends_trans[OF a], simp only: eq)
  qed
qed

lemma post_createSessionInTxn:
  assumes "\<forall>n. js ''session-'' @ ev_uuid env n \<notin> s_session_id ` set (db_sessions st)"
  shows "post (createSessionInTxn env user agent orig) st (\<lambda>(s, t) st'. t = now_iso env
     \<and> db_sessions st' = db_sessions st @ [\<lparr>s_session_id = s, s_started_at = now_iso env, s_agent_id = agent, s_ended_at = None\<rparr>]
     \<and> s \<notin> s_session_id ` set (db_sessions st))"
  unfolding createSessionInTxn_def Let_def post_bind post_fresh_uuid post_modify
  by (rule post_mono[OF logs_only_insert])
    (use assms in \<open>simp add: leaves_def insertSessionState_fresh\<close>)

lemma filter_single:
  "distinct (map f xs) \<Longrightarrow> x \<in> set xs \<Longrightarrow> filter (\<lambda>y. f y = f x) xs = [x]"
  by (induction xs) (auto simp: filter_empty_conv, metis imageI)

lemma filter_others:
  assumes "distinct (map f xs)" "x \<in> set xs"
  shows "filter (\<lambda>y. f y \<notin> f ` set xs - {f x}) xs = [x]"
proof -
  have "filter (\<lambda>y. f y \<notin> f ` set xs - {f x}) xs = filter (\<lambda>y. f y = f x) xs" by (rule filter_cong) auto
  then show ?thesis using filter_single[OF assms] by simp
qed

lemma distinct_open: "tables_ok st \<Longrightarrow> distinct (map s_session_id (selectOpenSessions (db_sessions st)))"
  by (simp add: tables_ok_def selectOpenSessions_def distinct_map_filter)

text \<open>\<open>resolveActiveSession\<close> leaves exactly the session it returns open, and it is alive.\<close>

lemma post_resolveActiveSession:
  assumes "tables_ok st" "\<forall>n. js ''session-'' @ ev_uuid env n \<notin> s_session_id ` set (db_sessions st)"
    "ev_parse_date env (now_iso env) = Some (ev_now env)"
  shows "post (resolveActiveSession env user agent orig) st (\<lambda>s st'. \<exists>r. selectOpenSessions (db_sessions st') = [r]
     \<and> s_session_id r = s \<and> alive env r)"
proof -
  let ?Q = "\<lambda>s st'. \<exists>r. selectOpenSessions (db_sessions st') = [r] \<and> s_session_id r = s \<and> alive env r"
  let ?D = "dead_ids env (selectOpenSessions (db_sessions st))"
  have "post (txn (bind (read (\<lambda>st. selectActiveSession (db_sessions st))) (\<lambda>active. case active of
       Some a \<Rightarrow>
         bind (read (\<lambda>st. selectOpenSessions (db_sessions st))) (\<lambda>open_rows.
         bind (for_each open_rows (\<lambda>s. if s_session_id s = s_session_id a then ret ()
             else endSessionRowInTxn env (s_session_id s) EndSuperseded (now_iso env))) (\<lambda>_.
         ret (s_session_id a)))
     | None \<Rightarrow> bind (createSessionInTxn env user agent orig) (\<lambda>(s, _). ret s)))) st1 ?Q"
    if r: "after_ends ?D st st1" for st1
  proof (cases "selectActiveSession (db_sessions st1)")
    case None
    have e: "selectOpenSessions (db_sessions st1) = []" using None selectActiveSession_None by blast
    have "map s_session_id (db_sessions st1) = map s_session_id (db_sessions st)" using r by (simp add: after_ends_def)
    then have "s_session_id ` set (db_sessions st1) = s_session_id ` set (db_sessions st)" by (metis list.set_map)
    then have f: "\<forall>n. js ''session-'' @ ev_uuid env n \<notin> s_session_id ` set (db_sessions st1)" using assms(2) by simp
    show ?thesis using None
      by (simp, intro post_mono[OF post_createSessionInTxn[OF f]])
        (use e assms(3) in \<open>auto simp: selectOpenSessions_def alive_def SESSION_LIFETIME_MS_def\<close>)
  next
    case (Some a)
    have ok: "tables_ok st1" using tables_ok_after_ends[OF assms(1) r] .
    let ?open = "selectOpenSessions (db_sessions st1)"
    have a: "a \<in> set ?open" using selectActiveSession_Some[OF Some] by simp
    then have "alive env a" using reaped_alive[OF assms(1) r] by simp
    moreover have "filter (\<lambda>y. s_session_id y \<notin> s_session_id ` set ?open - {s_session_id a}) ?open = [a]"
      by (rule filter_others[OF distinct_open[OF ok] a])
    ultimately show ?thesis using Some
      by (simp, intro post_mono[OF post_supersede_all[OF ok]]) (auto simp: after_ends_def)
  qed
  then show ?thesis
    unfolding resolveActiveSession_def post_bind[of "reapExpiredSessions env"]
    by (intro post_mono[OF post_reapExpiredSessions[OF assms(1)]])
qed

text \<open>Starting, ending and reading keep at most one session open.\<close>

definition one_open :: "agent \<Rightarrow> bool" where
  "one_open st \<longleftrightarrow> length (selectOpenSessions (db_sessions st)) \<le> 1"

lemma one_open_after_ends: "after_ends D st st' \<Longrightarrow> one_open st \<Longrightarrow> one_open st'"
  by (auto simp: one_open_def after_ends_def intro: order.trans[OF length_filter_le])

lemma post_activeSessionView: "post (activeSessionView env s t) st (\<lambda>_ st'. st' = st)"
  by (auto simp: activeSessionView_def split: option.split)

lemma post_startSession:
  assumes "tables_ok st" "\<forall>n. js ''session-'' @ ev_uuid env n \<notin> s_session_id ` set (db_sessions st)" "one_open st"
  shows "post (startSession env user agent) st (\<lambda>(status, v) st'. \<exists>r. selectOpenSessions (db_sessions st') = [r]
     \<and> s_session_id r = v_sessionId v
     \<and> (status = Refused \<longrightarrow> map s_session_id (db_sessions st') = map s_session_id (db_sessions st) \<and> alive env r))"
proof -
  let ?Q = "\<lambda>(status, v) st'. \<exists>r. selectOpenSessions (db_sessions st') = [r] \<and> s_session_id r = v_sessionId v
     \<and> (status = Refused \<longrightarrow> map s_session_id (db_sessions st') = map s_session_id (db_sessions st) \<and> alive env r)"
  let ?D = "dead_ids env (selectOpenSessions (db_sessions st))"
  have v: "post (activeSessionView env s t) st' (\<lambda>v st''. st'' = st' \<and> v_sessionId v = s)" for s t st'
    by (auto simp: activeSessionView_def split: option.split)
  have "post (txn (bind (read (\<lambda>st. selectActiveSession (db_sessions st))) (\<lambda>active. case active of
       Some a \<Rightarrow> bind (activeSessionView env (s_session_id a) (s_started_at a)) (\<lambda>v. ret (Refused, v))
     | None \<Rightarrow> bind (createSessionInTxn env user agent Human) (\<lambda>(s, startedAt).
         bind (activeSessionView env s startedAt) (\<lambda>v. ret (Started, v)))))) st1 ?Q"
    if r: "after_ends ?D st st1" for st1
  proof (cases "selectActiveSession (db_sessions st1)")
    case None
    have e: "selectOpenSessions (db_sessions st1) = []" using None selectActiveSession_None by blast
    have "map s_session_id (db_sessions st1) = map s_session_id (db_sessions st)" using r by (simp add: after_ends_def)
    then have "s_session_id ` set (db_sessions st1) = s_session_id ` set (db_sessions st)" by (metis list.set_map)
    then have f: "\<forall>n. js ''session-'' @ ev_uuid env n \<notin> s_session_id ` set (db_sessions st1)" using assms(2) by simp
    show ?thesis using None
      by (simp, intro post_mono[OF post_createSessionInTxn[OF f]])
        (use e in \<open>auto simp: selectOpenSessions_def intro!: post_mono[OF v]\<close>)
  next
    case (Some a)
    let ?open = "selectOpenSessions (db_sessions st1)"
    have a: "a \<in> set ?open" using selectActiveSession_Some[OF Some] by simp
    moreover have "length ?open \<le> 1" using one_open_after_ends[OF r assms(3)] by (simp add: one_open_def)
    ultimately have "?open = [a]" by (cases ?open) auto
    moreover have "alive env a" using reaped_alive[OF assms(1) r] a by simp
    moreover have "map s_session_id (db_sessions st1) = map s_session_id (db_sessions st)"
      using r by (simp add: after_ends_def)
    ultimately show ?thesis using Some by (auto intro!: post_mono[OF v])
  qed
  then show ?thesis
    unfolding startSession_def post_bind[of "reapExpiredSessions env"]
    by (intro post_mono[OF post_reapExpiredSessions[OF assms(1)]])
qed

section \<open>Properties\<close>


text \<open>A small state: the floor and a task grant, one open session with one held call.\<close>

definition ex_agent_env :: agent_env where
  "ex_agent_env = \<lparr>ev_show_frac = (\<lambda>_. []), ev_sha = (\<lambda>bs. map of_nat bs), ev_uuid = (\<lambda>n. js_of_nat n),
     ev_now = 6000000, ev_parse_date = (\<lambda>t. if t = iso 0 then Some 0 else if t = iso 6000000 then Some 6000000 else None),
     ev_json_parse = (\<lambda>_. None), ev_lower = id, ev_div100 = (\<lambda>n. Fin (num_val n / 100)),
     ev_storage_fault = (\<lambda>_ _. False)\<rparr>"

definition ex_agent :: agent where
  "ex_agent = \<lparr>db_audit = [], db_services = [], db_settings = [], db_oauth = [],
     db_policy = [floor_row [], ex_task_row], db_held = [ex_hold ''h1''], db_runs = [],
     db_sessions = [\<lparr>s_session_id = js ''s1'', s_started_at = iso 0, s_agent_id = js ''a'', s_ended_at = None\<rparr>],
     db_ledger = [], uuid_count = 0, turnInFlight = False\<rparr>"

lemma ex_grants_inv: "grants_inv (db_policy ex_agent)"
  using grant_run_inv[OF ex_task_run[of "{}"] grants_inv_first_boot] by (simp add: ex_agent_def)


text \<open>The reaper ends exactly the open sessions whose start is unreadable or ninety minutes past, and
  with each of them its held calls and its unfinished runs; other sessions, holds and runs and all
  grants stay; a second pass at the same instant does nothing.\<close>

theorem reaper_ends_expired:
  assumes "distinct (map h_id (db_held st))" "distinct (map s_session_id (db_sessions st))"
    "reapExpiredSessions env st = (Inr (), st')"
  shows "let dead = s_session_id ` {r \<in> set (selectOpenSessions (db_sessions st)). \<not> alive env r} in
     selectOpenSessions (db_sessions st') = filter (alive env) (selectOpenSessions (db_sessions st))
     \<and> db_held st' = filter (\<lambda>h. h_session_id h \<notin> dead) (db_held st)
     \<and> selectNonTerminalRuns (db_runs st') = filter (\<lambda>r. t_session_id r \<notin> dead) (selectNonTerminalRuns (db_runs st))
     \<and> db_policy st' = db_policy st
     \<and> reapExpiredSessions env st' = (Inr (), st')"
proof -
  have ok: "tables_ok st" using assms(1,2) by (simp add: tables_ok_def)
  let ?open = "selectOpenSessions (db_sessions st)" and ?open' = "selectOpenSessions (db_sessions st')"
  have a: "after_ends (dead_ids env ?open) st st'"
    using postD[OF post_reapExpiredSessions[OF ok] assms(3)] .
  have ok': "tables_ok st'" using tables_ok_after_ends[OF ok a] .
  have "s_session_id r \<notin> dead_ids env ?open \<longleftrightarrow> alive env r" if "r \<in> set ?open" for r
    using that distinct_open[OF ok] by (auto simp: dead_ids_def distinct_map dest: inj_onD)
  then have op: "?open' = filter (alive env) ?open" using a by (simp add: after_ends_def cong: filter_cong)
  have "reap_session env r st' = (Inr (), st')" if r: "r \<in> set ?open'" for r
  proof -
    have "alive env r" using r unfolding op by simp
    then obtain t where "ev_parse_date env (s_started_at r) = Some t" "ev_now env < t + SESSION_LIFETIME_MS"
      by (auto simp: alive_def split: option.splits)
    moreover have "r \<in> set (db_sessions st')" using r by (simp add: selectOpenSessions_def)
    ultimately show ?thesis
      using started_of_row[OF ok', of r env] by (simp add: reap_session_def bind_def read_def ret_def Let_def)
  qed
  then have "for_each xs (reap_session env) st' = (Inr (), st')" if "set xs \<subseteq> set ?open'" for xs
    using that by (induction xs) (auto simp: ret_def bind_def)
  then have "reapExpiredSessions env st' = (Inr (), st')"
    by (simp add: reapExpiredSessions_def bind_def read_def)
  then show ?thesis using op a by (simp add: after_ends_def dead_ids_def Let_def)
qed

lemma ex_reap:
  "\<exists>st'. reapExpiredSessions ex_agent_env ex_agent = (Inr (), st')"
proof -
  have "turnStateHasResolution ex_agent_env [] = False" by (simp add: turnStateHasResolution_def)
  then show ?thesis
    by (simp add: reapExpiredSessions_def ex_agent_def ex_agent_env_def bind_def read_def selectOpenSessions_def
        reap_session_def sessionStartedAt_def readSessionStartedAt_def read_session_def first_row_def Let_def
        SESSION_LIFETIME_MS_def toISOString_def txn_def endSessionRowInTxn_def sweep_holds_def
        selectHeldCallsForSession_def ex_hold_def writeHeldTimeoutOutcome_def auditEntryIdentity_def
        readAuditEntryIdentity_def ret_def delete_held_def modify_def close_session_def sessionIdentity_def
        readSessionStartIdentity_def)
qed

theorem reaper_ends_expired_witness:
  "\<exists>st'. reapExpiredSessions ex_agent_env ex_agent = (Inr (), st')
     \<and> selectOpenSessions (db_sessions st') = [] \<and> db_held st' = []"
proof -
  obtain st' where r: "reapExpiredSessions ex_agent_env ex_agent = (Inr (), st')" using ex_reap by blast
  have d: "distinct (map h_id (db_held ex_agent))" "distinct (map s_session_id (db_sessions ex_agent))"
    by (simp_all add: ex_agent_def)
  have o: "selectOpenSessions (db_sessions ex_agent) =
      [\<lparr>s_session_id = js ''s1'', s_started_at = iso 0, s_agent_id = js ''a'', s_ended_at = None\<rparr>]"
    by (simp add: ex_agent_def selectOpenSessions_def)
  have "\<not> alive ex_agent_env \<lparr>s_session_id = js ''s1'', s_started_at = iso 0, s_agent_id = js ''a'', s_ended_at = None\<rparr>"
    by (simp add: alive_def ex_agent_env_def SESSION_LIFETIME_MS_def)
  then show ?thesis
    using reaper_ends_expired[OF d r] r unfolding Let_def o by (simp add: ex_agent_def ex_hold_def)
qed

text \<open>Resolving the active session leaves exactly one session open, the one it returns, and that
  session is within its ninety minutes, whatever stale or duplicate open sessions there were.\<close>

theorem resolve_single_active:
  assumes "distinct (map h_id (db_held st))" "distinct (map s_session_id (db_sessions st))"
    "\<forall>n. js ''session-'' @ ev_uuid env n \<notin> s_session_id ` set (db_sessions st)"
    "ev_parse_date env (iso (ev_now env)) = Some (ev_now env)"
    "resolveActiveSession env user agent orig st = (Inr s, st')"
  shows "\<exists>r. selectOpenSessions (db_sessions st') = [r] \<and> s_session_id r = s
     \<and> (\<exists>t. ev_parse_date env (s_started_at r) = Some t \<and> ev_now env < t + 90 * 60 * 1000)"
proof -
  have ok: "tables_ok st" using assms(1,2) by (simp add: tables_ok_def)
  obtain r where "selectOpenSessions (db_sessions st') = [r]" "s_session_id r = s" "alive env r"
    using postD[OF post_resolveActiveSession[OF ok assms(3)] assms(5)] assms(4) by (auto simp: now_iso_def)
  then show ?thesis by (auto simp: alive_def SESSION_LIFETIME_MS_def split: option.splits)
qed

definition ex_idle :: agent where
  "ex_idle = ex_agent\<lparr>db_sessions := [], db_held := []\<rparr>"

lemma insert_audit_empty: "db_audit st = [] \<Longrightarrow> \<exists>r st'. insert_audit env ps st = (Inr r, st')"
  by (simp add: insert_audit_def bind_def fresh_uuid_def insertAuditEntryInTxn_def insertRow_def Let_def
      try_bind_def insert_audit_row_def insert_row_def)

lemma ex_create: "\<exists>s t st'. createSessionInTxn ex_agent_env user agent orig ex_idle = (Inr (s, t), st') \<and> t = iso 6000000"
proof -
  let ?st = "ex_idle\<lparr>uuid_count := 1, db_sessions :=
      insertSessionState (js ''session-'' @ ev_uuid ex_agent_env 0) (now_iso ex_agent_env) agent []\<rparr>"
  obtain r st' where "insert_audit ex_agent_env (session_start_params user agent
      (js ''session-'' @ ev_uuid ex_agent_env 0) orig (now_iso ex_agent_env)) ?st = (Inr r, st')"
    using insert_audit_empty[of ?st ex_agent_env "session_start_params user agent
      (js ''session-'' @ ev_uuid ex_agent_env 0) orig (now_iso ex_agent_env)"]
    by (auto simp: ex_idle_def ex_agent_def)
  moreover have "uuid_count ex_idle = 0" "db_sessions ex_idle = []" by (simp_all add: ex_idle_def ex_agent_def)
  ultimately have "createSessionInTxn ex_agent_env user agent orig ex_idle =
      (Inr (js ''session-'' @ ev_uuid ex_agent_env 0, now_iso ex_agent_env), st')"
    by (simp add: createSessionInTxn_def bind_def fresh_uuid_def Let_def modify_def ret_def)
  moreover have "now_iso ex_agent_env = iso 6000000" by (simp add: now_iso_def ex_agent_env_def)
  ultimately show ?thesis by blast
qed

lemma ex_idle_reap: "reapExpiredSessions ex_agent_env ex_idle = (Inr (), ex_idle)"
  by (simp add: reapExpiredSessions_def bind_def read_def selectOpenSessions_def ex_idle_def ret_def)

lemma ex_idle_active: "selectActiveSession (db_sessions ex_idle) = None"
  by (simp add: selectActiveSession_None selectOpenSessions_def ex_idle_def)

lemma ex_years: "four_digit_year 0" "four_digit_year 6000000"
  by code_simp+

theorem resolve_single_active_witness:
  "\<exists>s st'. resolveActiveSession ex_agent_env (js ''u'') (js ''a'') Human ex_idle = (Inr s, st')
     \<and> length (selectOpenSessions (db_sessions st')) = 1"
proof -
  obtain s t st' where c: "createSessionInTxn ex_agent_env (js ''u'') (js ''a'') Human ex_idle = (Inr (s, t), st')"
    using ex_create by blast
  have r: "resolveActiveSession ex_agent_env (js ''u'') (js ''a'') Human ex_idle = (Inr s, st')"
    using c ex_idle_active ex_idle_reap by (simp add: resolveActiveSession_def bind_def txn_def read_def ret_def)
  have p: "ev_parse_date ex_agent_env (iso (ev_now ex_agent_env)) = Some (ev_now ex_agent_env)"
  proof -
    have "iso 6000000 \<noteq> iso 0" using iso_less_mono[of 0 6000000] by (simp add: ex_years)
    then show ?thesis by (simp add: ex_agent_env_def)
  qed
  have "\<exists>r. selectOpenSessions (db_sessions st') = [r]"
    using resolve_single_active[OF _ _ _ p r] by (auto simp: ex_idle_def)
  then show ?thesis using r by auto
qed

text \<open>The launch handshake keeps one session: with at most one open session before, after a start there
  is exactly one open session, the one reported; a refusal creates no row.\<close>

theorem start_session_exclusive:
  assumes "distinct (map h_id (db_held st))" "distinct (map s_session_id (db_sessions st))"
    "\<forall>n. js ''session-'' @ ev_uuid env n \<notin> s_session_id ` set (db_sessions st)"
    "length (selectOpenSessions (db_sessions st)) \<le> 1"
    "startSession env user agent st = (Inr (status, v), st')"
  shows "map s_session_id (selectOpenSessions (db_sessions st')) = [v_sessionId v]
     \<and> (status = Refused \<longrightarrow> map s_session_id (db_sessions st') = map s_session_id (db_sessions st))"
proof -
  have ok: "tables_ok st" "one_open st" using assms(1,2,4) by (simp_all add: tables_ok_def one_open_def)
  show ?thesis using postD[OF post_startSession[OF ok(1) assms(3) ok(2)] assms(5)] by auto
qed

theorem start_session_exclusive_witness:
  "\<exists>status v st'. startSession ex_agent_env (js ''u'') (js ''a'') ex_idle = (Inr (status, v), st')
     \<and> length (selectOpenSessions (db_sessions st')) = 1"
proof -
  obtain s t st1 where c: "createSessionInTxn ex_agent_env (js ''u'') (js ''a'') Human ex_idle = (Inr (s, t), st1)"
    and t: "t = iso 6000000" using ex_create by blast
  have "\<exists>v. activeSessionView ex_agent_env s t st1 = (Inr v, st1)"
    by (simp add: t activeSessionView_def ex_agent_env_def toISOString_def SESSION_LIFETIME_MS_def ret_def)
  then obtain v where v: "activeSessionView ex_agent_env s t st1 = (Inr v, st1)" by blast
  have r: "startSession ex_agent_env (js ''u'') (js ''a'') ex_idle = (Inr (Started, v), st1)"
    using c v ex_idle_active ex_idle_reap by (simp add: startSession_def bind_def txn_def read_def ret_def)
  have "map s_session_id (selectOpenSessions (db_sessions st1)) = [v_sessionId v]"
    using start_session_exclusive[OF _ _ _ _ r] by (simp add: ex_idle_def selectOpenSessions_def)
  then have "length (selectOpenSessions (db_sessions st1)) = 1" by (metis length_map length_Cons list.size(3) One_nat_def)
  then show ?thesis using r by blast
qed

end
