(* ===== verification/Pipeline.thy ===== *)
theory Pipeline
  imports Lifecycle
begin

text \<open>
  The governance pipeline of the coordinator (\<open>packages/engine/src/agent/user-agent.ts\<close>): parameter
  metadata, the spend stage, \<open>executeGovernancePipeline\<close> and the outcome write with its ledger row.
  The tool registry is an argument: a lookup from tool names to entries with their service, verb,
  noun extractor and, for a money verb, its spend declaration (\<open>packages/tools/src/tools/types.ts\<close>).
  The lemmas give the decision table, show that each run leaves exactly one hash-chained decision
  row, that the metadata is a function of the parameters' shape only, and that a spend let through
  stays under both caps.
\<close>

section \<open>types.ts\<close>

type_synonym params = "(jsstr \<times> json) list"

record tool_spend =
  quotedAmountCents :: "params \<Rightarrow> jsnum option"
  describe :: "(params \<Rightarrow> jsstr option) option"
  commitKeys :: "params \<Rightarrow> jsstr \<times> jsstr"

record tool_entry =
  te_service :: jsstr
  te_verb :: jsstr
  te_description :: jsstr
  te_inputSchema :: json
  te_dataSlots :: "(jsstr \<times> bool) list"
  te_requiredScopes :: "jsstr list"
  te_nounExtractor :: "params \<Rightarrow> jsstr"
  te_spend :: "tool_spend option"

section \<open>extractMetadata\<close>

definition MAX_METADATA_BYTES :: nat where
  "MAX_METADATA_BYTES = 10240"

definition MAX_KEYS_PER_OBJECT :: nat where
  "MAX_KEYS_PER_OBJECT = 100"

text \<open>The number of a length or count.\<close>

abbreviation JNat :: "nat \<Rightarrow> json" where
  "JNat n \<equiv> JNum (Fin (of_nat n))"

fun value_metadata :: "json \<Rightarrow> json" where
  "value_metadata (JStr s) = JObj [(js ''type'', JStr (js ''string'')), (js ''length'', JNat (length s))]"
| "value_metadata (JNum _) = JObj [(js ''type'', JStr (js ''number''))]"
| "value_metadata (JBool _) = JObj [(js ''type'', JStr (js ''boolean''))]"
| "value_metadata (JArr xs) = JObj [(js ''type'', JStr (js ''array'')), (js ''length'', JNat (length xs))]"
| "value_metadata JNull = JObj [(js ''type'', JStr (js ''null''))]"
| "value_metadata (JObj ms) =
     (let allKeys = map fst ms in
      if length allKeys > MAX_KEYS_PER_OBJECT
      then JObj [(js ''type'', JStr (js ''object'')), (js ''keyCount'', JNat (length allKeys)),
                 (js ''keys'', JArr (map JStr (take MAX_KEYS_PER_OBJECT allKeys))), (js ''truncated'', JBool True)]
      else JObj [(js ''type'', JStr (js ''object'')), (js ''keys'', JArr (map JStr allKeys))])"

text \<open>Assigning the property \<open>__proto__\<close> of a plain object sets its prototype and no own member.\<close>

definition extractMetadata :: "(rat \<Rightarrow> jsstr) \<Rightarrow> params \<Rightarrow> params" where
  "extractMetadata sf ps =
     (let meta = map (\<lambda>(k, v). (k, value_metadata v)) (filter (\<lambda>(k, _). k \<noteq> js ''__proto__'') ps) in
      if length (stringify sf (JObj meta)) > MAX_METADATA_BYTES
      then [(js ''truncated'', JBool True), (js ''originalKeyCount'', JNat (length ps))]
      else meta)"

section \<open>The spend stage\<close>

datatype spend_reason = OverLimit | Unpriced | TotalsUnavailable

record spend_hold_context =
  sh_amountCents :: "jsnum option"
  sh_reason :: spend_reason
  sh_breaches :: "spend_breach list"
  sh_summary :: "jsstr option"

text \<open>
  \<open>readable\<close> says whether the limit and ledger reads succeed; a storage fault is caught.
\<close>

definition runSpendStage ::
  "agent_env \<Rightarrow> bool \<Rightarrow> tool_spend \<Rightarrow> params \<Rightarrow> jsstr \<Rightarrow> agent \<Rightarrow> jsnum option \<times> spend_hold_context option" where
  "runSpendStage env readable spend ps s st =
     (let amount = quotedAmountCents spend ps;
          summary = (case describe spend of None \<Rightarrow> None | Some f \<Rightarrow> f ps);
          hold = (\<lambda>a reason bs. Some \<lparr>sh_amountCents = a, sh_reason = reason, sh_breaches = bs, sh_summary = summary\<rparr>)
      in case amount of
        None \<Rightarrow> (None, hold None Unpriced [])
      | Some n \<Rightarrow>
        (let usd = Some (ev_div100 env n) in
         if \<not> readable then (usd, hold (Some n) TotalsUnavailable [])
         else (let lim = readSpendLimitsCents (db_settings st);
                   check = evaluateSpend \<lparr>amountCents = n,
                     limits = \<lparr>sessionLimitCents = JInt (lr_sessionLimitCents lim), monthLimitCents = JInt (lr_monthLimitCents lim)\<rparr>,
                     totals = Some \<lparr>sessionSpentCents = JInt (sumSessionSpendCents (db_ledger st) s),
                                    monthSpentCents = JInt (sumMonthSpendCents (db_ledger st) (monthStartIso (ev_now env)))\<rparr>\<rparr>
               in case check of
                    Within \<Rightarrow> (usd, None)
                  | Exceeds bs \<Rightarrow> (usd, hold (Some n) OverLimit bs)
                  | Unavailable \<Rightarrow> (usd, hold (Some n) TotalsUnavailable []))))"

section \<open>The pipeline\<close>

text \<open>The hold context as the audit metadata has it, and \<open>{ ...meta, spend }\<close>.\<close>

fun window_text :: "spend_window \<Rightarrow> jsstr" where
  "window_text SessionWindow = js ''session''"
| "window_text MonthWindow = js ''month''"

fun spend_reason_text :: "spend_reason \<Rightarrow> jsstr" where
  "spend_reason_text OverLimit = js ''over_limit''"
| "spend_reason_text Unpriced = js ''unpriced''"
| "spend_reason_text TotalsUnavailable = js ''totals_unavailable''"

definition breach_json :: "spend_breach \<Rightarrow> json" where
  "breach_json b = JObj [(js ''window'', JStr (window_text (window b))), (js ''limitCents'', JNum (limitCents b)),
     (js ''spentCents'', JNum (spentCents b))]"

definition hold_context_json :: "spend_hold_context \<Rightarrow> json" where
  "hold_context_json c =
     JObj ([(js ''amountCents'', case sh_amountCents c of None \<Rightarrow> JNull | Some n \<Rightarrow> JNum n),
            (js ''reason'', JStr (spend_reason_text (sh_reason c))),
            (js ''breaches'', JArr (map breach_json (sh_breaches c)))]
           @ (case sh_summary c of None \<Rightarrow> [] | Some t \<Rightarrow> [(js ''summary'', JStr t)]))"

fun obj_set :: "jsstr \<Rightarrow> json \<Rightarrow> params \<Rightarrow> params" where
  "obj_set k v [] = [(k, v)]"
| "obj_set k v ((k', v') # ms) = (if k = k' then (k, v) # ms else (k', v') # obj_set k v ms)"

record pipeline_params =
  gp_toolName :: jsstr
  gp_params :: params
  gp_userId :: jsstr
  gp_agentId :: jsstr
  gp_sessionId :: jsstr
  gp_entries :: "policy_entry list"
  gp_origin :: "audit_origin option"
  gp_epochId :: "jsstr option"
  gp_timestamp :: "jsstr option"
  gp_denyReason :: "jsstr option"
  gp_askable :: "bool option"

record pipeline_result =
  gr_decision :: decision
  gr_auditEntry :: audit_entry_result
  gr_service :: jsstr
  gr_verb :: jsstr
  gr_noun :: jsstr
  gr_matchedEntryId :: "jsstr option"
  gr_matchedSource :: "decision_source option"
  gr_spendContext :: "spend_hold_context option"

text \<open>Lines 2962-2975: the scope of the call and the evaluator's answer.\<close>

definition pipeline_action :: "(jsstr \<Rightarrow> tool_entry option) \<Rightarrow> pipeline_params \<Rightarrow> policy_action" where
  "pipeline_action lookupTool gp =
     \<lparr>a_agent = gp_agentId gp,
      a_service = (case lookupTool (gp_toolName gp) of Some t \<Rightarrow> te_service t | None \<Rightarrow> js ''unknown''),
      a_verb = (case lookupTool (gp_toolName gp) of Some t \<Rightarrow> te_verb t | None \<Rightarrow> js ''execute''),
      a_noun = (case lookupTool (gp_toolName gp) of Some t \<Rightarrow> te_nounExtractor t (gp_params gp) | None \<Rightarrow> js ''unknown''),
      a_toolName = gp_toolName gp, a_params = gp_params gp\<rparr>"

text \<open>Lines 2978-3014: what the pipeline decides, and the spend stage's finding.\<close>

definition pipeline_decide ::
  "agent_env \<Rightarrow> (jsstr \<Rightarrow> tool_entry option) \<Rightarrow> bool \<Rightarrow> pipeline_params \<Rightarrow> policy_decision \<Rightarrow> agent
   \<Rightarrow> decision \<times> jsnum option \<times> spend_hold_context option" where
  "pipeline_decide env lookupTool readable gp pd st =
     (let noAffirmativeGrant = (pd_decision pd = Deny
            \<and> (pd_source pd = Implicit \<or> pd_entryId pd = Some WILDCARD_DENY_ID));
          askable = (case gp_askable gp of Some b \<Rightarrow> b | None \<Rightarrow> False);
          d = (if askable \<and> noAffirmativeGrant then Pending else pd_decision pd)
      in case (d, lookupTool (gp_toolName gp)) of
        (Allow, Some t) \<Rightarrow>
          (case te_spend t of None \<Rightarrow> (d, None, None)
           | Some spend \<Rightarrow>
             (let (usd, holdContext) = runSpendStage env readable spend (gp_params gp) (gp_sessionId gp) st in
              case holdContext of None \<Rightarrow> (d, usd, None) | Some c \<Rightarrow> (Pending, usd, Some c)))
      | _ \<Rightarrow> (d, None, None))"

definition pipeline_audit ::
  "agent_env \<Rightarrow> pipeline_params \<Rightarrow> policy_action \<Rightarrow> policy_decision
   \<Rightarrow> decision \<times> jsnum option \<times> spend_hold_context option \<Rightarrow> audit_params" where
  "pipeline_audit env gp a pd pdo =
     (case pdo of (d, usd, spendContext) \<Rightarrow>
      (let meta = extractMetadata (ev_show_frac env) (gp_params gp);
           auditDenyReason = (if pd_source pd = Malformed then js ''Denied: malformed policy set (non-finite priority)''
             else (case gp_denyReason gp of Some r \<Rightarrow> r | None \<Rightarrow> js ''Denied by policy''))
       in \<lparr>p_userId = gp_userId gp, p_agentId = gp_agentId gp, p_sessionId = gp_sessionId gp,
           p_toolName = gp_toolName gp, p_service = a_service a, p_verb = a_verb a, p_noun = a_noun a,
           p_decision = d, p_origin = gp_origin gp,
           p_parametersMetadata = (case spendContext of None \<Rightarrow> meta
             | Some c \<Rightarrow> obj_set (js ''spend'') (hold_context_json c) meta),
           p_outcome = (if d = Deny then ErrorOutcome else Success),
           p_errorMessage = (if d = Deny then Some auditDenyReason else None),
           p_latencyMs = JInt 0, p_costUsd = usd, p_epochId = gp_epochId gp, p_timestamp = gp_timestamp gp\<rparr>))"

definition executeGovernancePipeline ::
  "agent_env \<Rightarrow> (jsstr \<Rightarrow> tool_entry option) \<Rightarrow> bool \<Rightarrow> pipeline_params \<Rightarrow> pipeline_result act" where
  "executeGovernancePipeline env lookupTool readable gp =
     (let a = pipeline_action lookupTool gp; pd = evaluatePolicy (ev_lower env) (gp_entries gp) a in
      bind (read (pipeline_decide env lookupTool readable gp pd)) (\<lambda>pdo.
      bind (writeAuditEntry env (pipeline_audit env gp a pd pdo)) (\<lambda>entry.
      ret \<lparr>gr_decision = fst pdo, gr_auditEntry = entry, gr_service = a_service a, gr_verb = a_verb a,
           gr_noun = a_noun a, gr_matchedEntryId = pd_entryId pd, gr_matchedSource = Some (pd_source pd),
           gr_spendContext = snd (snd pdo)\<rparr>)))"

section \<open>The outcome write\<close>

definition centsFromSpend :: "tool_spend option \<Rightarrow> params \<Rightarrow> jsnum option" where
  "centsFromSpend spend ps =
     (case spend of None \<Rightarrow> None
      | Some sp \<Rightarrow> (case quotedAmountCents sp ps of None \<Rightarrow> None
          | Some raw \<Rightarrow> if \<not> is_safe_integer raw \<or> num_val raw < 0 then None else Some raw))"

text \<open>The ledger insert with its error caught, a refusal of its guards or a storage fault: what it leaves, and
  the error.\<close>

definition record_spend ::
  "agent_env \<Rightarrow> tool_entry \<Rightarrow> tool_spend \<Rightarrow> params \<Rightarrow> jsnum \<Rightarrow> jsstr \<Rightarrow> audit_entry_result
   \<Rightarrow> ledger_error option act" where
  "record_spend env tool spend ps amount s written =
     (let keys = commitKeys spend ps in
      bind (fresh_uuid env) (\<lambda>u st.
        if ev_storage_fault env LedgerInsert (uuid_count st) then (Inr (Some (LedgerSql StorageFault)), st)
        else case insertSpendInTxn \<lparr>li_id = u, li_sessionId = s, li_createdAt = now_iso env, li_service = te_service tool,
            li_verb = te_verb tool, li_amountCents = amount, li_quoteId = fst keys, li_idempotencyKey = snd keys,
            li_auditEntryId = r_id written\<rparr> (db_ledger st) of
          Inl e \<Rightarrow> (Inr (Some e), st)
        | Inr rows \<Rightarrow> (Inr None, st\<lparr>db_ledger := rows\<rparr>)))"

definition ledger_gap_text :: jsstr where
  "ledger_gap_text = js ''spend_ledger write failed '' @ [0x2014] @ js '' spend uncounted (''"

text \<open>The write to the held row that shares the transaction; unlike the insert, its fault is not caught.\<close>

definition persist_answered :: "agent_env \<Rightarrow> jsstr \<Rightarrow> jsstr \<Rightarrow> unit act" where
  "persist_answered env h turnState st =
     (if ev_storage_fault env HeldTurnUpdate (uuid_count st) then (Inl (SqlError StorageFault), st)
      else (Inr (), st\<lparr>db_held := updateHeldTurnState h turnState (db_held st)\<rparr>))"

text \<open>
  \<open>show_error\<close> is \<open>String(error)\<close>; a closer with basis \<open>observed\<close> is never skipped, so the first
  write returns an entry.
\<close>

definition writeOutcomeWithSpend ::
  "agent_env \<Rightarrow> (ledger_error \<Rightarrow> jsstr) \<Rightarrow> audit_params \<Rightarrow> jsstr \<Rightarrow> tool_entry option \<Rightarrow> params
   \<Rightarrow> (jsstr \<times> jsstr) option \<Rightarrow> audit_entry_result act" where
  "writeOutcomeWithSpend env show_error ap d tool ps persistAnswered =
     (let spend = (case tool of None \<Rightarrow> None | Some t \<Rightarrow> te_spend t);
          amount = centsFromSpend spend ps;
          auditParams = (case amount of None \<Rightarrow> ap | Some n \<Rightarrow> ap\<lparr>p_costUsd := Some (ev_div100 env n)\<rparr>)
      in bind (txn (
           bind (close_decision env auditParams d Observed) (\<lambda>r.
           bind (case (tool, spend, amount, r) of
               (Some t, Some sp, Some n, Some written) \<Rightarrow>
                 if p_outcome ap = Success then record_spend env t sp ps n (p_sessionId ap) written else ret None
             | _ \<Rightarrow> ret None) (\<lambda>ledgerError.
           bind (case persistAnswered of None \<Rightarrow> ret ()
             | Some (h, turnState) \<Rightarrow> persist_answered env h turnState) (\<lambda>_.
           ret (the r, ledgerError)))))) (\<lambda>(entry, ledgerError).
         bind (case ledgerError of None \<Rightarrow> ret ()
           | Some e \<Rightarrow> bind (txn (close_decision env (auditParams\<lparr>p_outcome := ErrorOutcome,
                 p_errorMessage := Some (ledger_gap_text @ show_error e @ js '')'')\<rparr>)
                 (r_id entry) Observed)) (\<lambda>_. ret ())) (\<lambda>_.
         ret entry)))"

section \<open>user-agent.ts: grants of a session\<close>

text \<open>The method \<open>createSessionGrant\<close> with its session lookup.\<close>

definition create_session_grant :: "agent_env \<Rightarrow> grant_scope \<Rightarrow> jsstr \<Rightarrow> jsstr act" where
  "create_session_grant env g s =
     bind (fresh_uuid env) (\<lambda>u st.
       case createSessionGrant u (ev_now env) (sessionStartedAt env st s) g s (db_policy st) of
         Inl e \<Rightarrow> (Inl (GrantError e), st)
       | Inr (i, rows) \<Rightarrow> (Inr i, st\<lparr>db_policy := rows\<rparr>))"

definition create_task_grant :: "agent_env \<Rightarrow> grant_scope \<Rightarrow> jsstr \<Rightarrow> jsstr act" where
  "create_task_grant env g s =
     bind (fresh_uuid env) (\<lambda>u st.
       case createTaskGrant u (ev_now env) g (Some s) (db_policy st) of
         Inl e \<Rightarrow> (Inl (GrantError e), st)
       | Inr (i, rows) \<Rightarrow> (Inr i, st\<lparr>db_policy := rows\<rparr>))"

definition consume_task_grant :: "agent_env \<Rightarrow> jsstr \<Rightarrow> unit act" where
  "consume_task_grant env i = modify (\<lambda>st. st\<lparr>db_policy := consumeTaskGrant i (now_iso env) (db_policy st)\<rparr>)"

section \<open>Lemmas\<close>

subsection \<open>Who decides\<close>

text \<open>In a table of the floor and grants, a deny that does not come from the floor is a deny grant.\<close>

lemma queried_refusal_iff:
  assumes inv: "grants_inv rows"
  defines "pd lc t s a \<equiv> evaluatePolicy lc (queryPolicyEntries t (Some s) rows) a"
  shows "pd_decision (pd lc t s a) = Deny \<and> pd_source (pd lc t s a) \<noteq> Implicit
       \<and> pd_entryId (pd lc t s a) \<noteq> Some WILDCARD_DENY_ID
     \<longleftrightarrow> (\<exists>r \<in> set rows. speaks lc t s a r \<and> pe_decision r = EDeny)"
proof -
  let ?es = "queryPolicyEntries t (Some s) rows"
  obtain f where f: "f \<in> set rows" "is_floor f" using inv by (auto simp: grants_inv_def)
  have finite: "is_finite_num (e_priority e)" if "e \<in> set ?es" for e
    by (cases rule: queried_cases[OF inv that]) (auto simp: is_grant_def dest: is_floorD)
  have key: "q = f" if "q \<in> set rows" "pe_id q = WILDCARD_DENY_ID" for q
    using inv f that is_floorD[of f] unfolding grants_inv_def distinct_map by (metis inj_onD)
  show ?thesis
  proof (cases lc ?es a rule: evaluatePolicy_cases)
    case (malformed e)
    then show ?thesis using finite by blast
  next
    case implicit
    then show ?thesis using floor_queried[OF f, of t "Some s"] entryMatch_floor[OF f(2)] by blast
  next
    case (matched m)
    have top: "compareEntries m (entry_of r) \<le> 0" if "r \<in> set rows" "speaks lc t s a r" for r
      using matched(4) grant_queried[of r rows s t] that by (auto simp: speaks_def entryMatch_grant)
    show ?thesis
    proof (cases rule: queried_cases[OF inv matched(1)])
      case (1 q)
      have "\<not> speaks lc t s a r" if "r \<in> set rows" for r
        using top[OF that] is_floorD[OF 1(2)] 1(3) by (auto simp: compareEntries_le_iff speaks_def is_grant_def)
      then show ?thesis using matched(5) 1 is_floorD[OF 1(2)] by (auto simp: pd_def)
    next
      case (2 q)
      have "pe_id q \<noteq> WILDCARD_DENY_ID" using key 2(1,2) f(2) is_grant_not_floor by blast
      moreover have "speaks lc t s a q" using 2 matched(2) by (simp add: speaks_def entryMatch_grant)
      moreover have "pe_decision r = EAllow" if "pe_decision q = EAllow" "r \<in> set rows" "speaks lc t s a r" for r
        using top[OF that(2,3)] that 2 by (auto simp: compareEntries_le_iff speaks_def is_grant_def)
      ultimately show ?thesis
      proof (cases "pe_decision q")
        case EAllow
        then have "\<forall>r \<in> set rows. speaks lc t s a r \<longrightarrow> pe_decision r \<noteq> EDeny"
          using \<open>\<And>r. pe_decision q = EAllow \<Longrightarrow> r \<in> set rows \<Longrightarrow> speaks lc t s a r \<Longrightarrow> pe_decision r = EAllow\<close> by simp
        then show ?thesis using EAllow matched(5) 2(3) by (auto simp: pd_def)
      next
        case EDeny
        then have "\<exists>r \<in> set rows. speaks lc t s a r \<and> pe_decision r = EDeny"
          using \<open>speaks lc t s a q\<close> 2(1) by blast
        then show ?thesis using EDeny matched(5) 2(3) \<open>pe_id q \<noteq> WILDCARD_DENY_ID\<close> by (simp add: pd_def)
      qed
    qed
  qed
qed

subsection \<open>The spend stage\<close>

text \<open>What it takes for a money verb to go through: a readable ledger and a price within both caps.\<close>

definition affordable :: "agent_env \<Rightarrow> bool \<Rightarrow> tool_spend \<Rightarrow> params \<Rightarrow> jsstr \<Rightarrow> agent \<Rightarrow> bool" where
  "affordable env readable spend ps s st \<longleftrightarrow> readable \<and> (\<exists>n. quotedAmountCents spend ps = Some (JInt n)
     \<and> n \<le> max_safe \<and> sumSessionSpendCents (db_ledger st) s \<le> max_safe
     \<and> sumMonthSpendCents (db_ledger st) (monthStartIso (ev_now env)) \<le> max_safe
     \<and> within_limits n (lr_sessionLimitCents (readSpendLimitsCents (db_settings st)))
         (lr_monthLimitCents (readSpendLimitsCents (db_settings st)))
         (sumSessionSpendCents (db_ledger st) s) (sumMonthSpendCents (db_ledger st) (monthStartIso (ev_now env))))"

lemma runSpendStage_pass: "snd (runSpendStage env readable spend ps s st) = None \<longleftrightarrow> affordable env readable spend ps s st"
proof (cases "quotedAmountCents spend ps")
  case None
  then show ?thesis by (simp add: runSpendStage_def affordable_def)
next
  case (Some v)
  have u: "usable (JInt i) \<longleftrightarrow> 0 \<le> i \<and> i \<le> max_safe" for i by (auto simp: usable_JInt)
  have "snd (runSpendStage env readable spend ps s st) = None \<longleftrightarrow> readable \<and>
     evaluateSpend \<lparr>amountCents = v,
       limits = \<lparr>sessionLimitCents = JInt (lr_sessionLimitCents (readSpendLimitsCents (db_settings st))),
                 monthLimitCents = JInt (lr_monthLimitCents (readSpendLimitsCents (db_settings st)))\<rparr>,
       totals = Some \<lparr>sessionSpentCents = JInt (sumSessionSpendCents (db_ledger st) s),
         monthSpentCents = JInt (sumMonthSpendCents (db_ledger st) (monthStartIso (ev_now env)))\<rparr>\<rparr> = Within"
    using Some by (auto simp: runSpendStage_def Let_def split: spend_check_result.split)
  also have "\<dots> \<longleftrightarrow> affordable env readable spend ps s st"
    unfolding evaluateSpend_Within affordable_def Some
    using limits_usable[of "db_settings st"] by (auto simp: u usable_JInt within_limits_def)
  finally show ?thesis .
qed

subsection \<open>The pipeline\<close>

lemma pipeline_decide_Allow:
  "fst (pipeline_decide env lookupTool readable gp pd st) = Allow \<longleftrightarrow> pd_decision pd = Allow
     \<and> (\<forall>t spend. lookupTool (gp_toolName gp) = Some t \<longrightarrow> te_spend t = Some spend
          \<longrightarrow> affordable env readable spend (gp_params gp) (gp_sessionId gp) st)"
  unfolding runSpendStage_pass[symmetric]
  by (cases "pd_decision pd"; cases "lookupTool (gp_toolName gp)")
    (auto simp: pipeline_decide_def Let_def split: option.splits prod.splits)

lemma pipeline_decide_Deny:
  "fst (pipeline_decide env lookupTool readable gp pd st) = Deny \<longleftrightarrow> pd_decision pd = Deny
     \<and> \<not> (gp_askable gp = Some True \<and> (pd_source pd = Implicit \<or> pd_entryId pd = Some WILDCARD_DENY_ID))"
  by (cases "pd_decision pd"; cases "lookupTool (gp_toolName gp)")
    (auto simp: pipeline_decide_def Let_def split: option.splits prod.splits)

text \<open>One row for the call, before anything runs; or an error and no row.\<close>

lemma executeGovernancePipeline_cases:
  assumes "executeGovernancePipeline env lookupTool readable gp st = (res, st')"
  obtains (failed) e where "res = Inl (SqlError e)" "st' = st\<lparr>uuid_count := uuid_count st + 1\<rparr>"
  | (decided) r a pd pdo where "res = Inr r" "a = pipeline_action lookupTool gp"
      "pd = evaluatePolicy (ev_lower env) (gp_entries gp) a" "pdo = pipeline_decide env lookupTool readable gp pd st"
      "gr_decision r = fst pdo" "gr_spendContext r = snd (snd pdo)" "gr_matchedEntryId r = pd_entryId pd"
      "gr_matchedSource r = Some (pd_source pd)"
      "st' = st\<lparr>uuid_count := uuid_count st + 1, db_audit := db_audit st @
         [new_row (audit_env_of env (ev_uuid env (uuid_count st))) (pipeline_audit env gp a pd pdo) None (db_audit st)]\<rparr>"
      "r_id (gr_auditEntry r) = wellFormed (ev_uuid env (uuid_count st))"
proof -
  let ?a = "pipeline_action lookupTool gp"
  let ?pd = "evaluatePolicy (ev_lower env) (gp_entries gp) ?a"
  let ?o = "pipeline_decide env lookupTool readable gp ?pd st"
  let ?env = "audit_env_of env (ev_uuid env (uuid_count st))"
  show ?thesis
  proof (cases "insertRow ?env (pipeline_audit env gp ?a ?pd ?o) None (db_audit st)")
    case (Inl e)
    then show ?thesis using assms failed
      by (auto simp: executeGovernancePipeline_def Let_def bind_def read_def writeAuditEntry_def txn_def insert_audit_def
          fresh_uuid_def insertAuditEntryInTxn_def)
  next
    case (Inr x)
    obtain w rows' where x: "x = (w, rows')" by force
    note i = insertRow_Inr[OF Inr[unfolded x]]
    show ?thesis using assms i(1,3) Inr x
      by (intro decided[OF _ refl refl refl])
        (auto simp: executeGovernancePipeline_def Let_def bind_def read_def writeAuditEntry_def txn_def insert_audit_def
          fresh_uuid_def insertAuditEntryInTxn_def ret_def)
  qed
qed

subsection \<open>The outcome write\<close>

lemma close_decision_observed:
  assumes "insertRow (audit_env_of env (ev_uuid env (uuid_count st))) ap (Some d) (db_audit st) = Inr (w, rows)"
  shows "close_decision env ap d Observed st = (Inr (Some w), st\<lparr>uuid_count := uuid_count st + 1, db_audit := rows\<rparr>)"
  using assms by (simp add: close_decision_def bind_def fresh_uuid_def closeDecisionEntryInTxn_def try_bind_def)

lemma record_spend_result:
  obtains e where "record_spend env t sp ps n s w st = (Inr (Some e), st\<lparr>uuid_count := uuid_count st + 1\<rparr>)"
  | row rows where "insertSpendInTxn row (db_ledger st) = Inr rows" "li_sessionId row = s" "li_createdAt row = now_iso env"
      "li_amountCents row = n" "li_auditEntryId row = r_id w" "(li_quoteId row, li_idempotencyKey row) = commitKeys sp ps"
      "record_spend env t sp ps n s w st = (Inr None, st\<lparr>uuid_count := uuid_count st + 1, db_ledger := rows\<rparr>)"
proof -
  let ?row = "\<lparr>li_id = ev_uuid env (uuid_count st), li_sessionId = s, li_createdAt = now_iso env, li_service = te_service t,
            li_verb = te_verb t, li_amountCents = n, li_quoteId = fst (commitKeys sp ps),
            li_idempotencyKey = snd (commitKeys sp ps), li_auditEntryId = r_id w\<rparr>"
  show ?thesis
  proof (cases "ev_storage_fault env LedgerInsert (uuid_count st + 1)")
    case True
    then show ?thesis using that(1) by (simp add: record_spend_def Let_def bind_def fresh_uuid_def)
  next
    case False
    then show ?thesis
    proof (cases "insertSpendInTxn ?row (db_ledger st)")
      case (Inl e)
      then show ?thesis using that(1) False by (simp add: record_spend_def Let_def bind_def fresh_uuid_def)
    next
      case (Inr rows)
      then show ?thesis using that(2)[OF Inr] False by (simp add: record_spend_def Let_def bind_def fresh_uuid_def)
    qed
  qed
qed

lemma observed_txn:
  "\<exists>rows. db_audit (snd (txn (close_decision env ap d Observed) st)) = db_audit st @ rows"
  "db_ledger (snd (txn (close_decision env ap d Observed) st)) = db_ledger st"
  "db_held (snd (txn (close_decision env ap d Observed) st)) = db_held st"
  by (auto simp: txn_def close_decision_def bind_def fresh_uuid_def closeDecisionEntryInTxn_def try_bind_def
      dest: insertRow_Inr(1) split: sum.splits)

lemma txn_bind_two:
  "m st = (Inr x, st1) \<Longrightarrow> f x st1 = (Inr y, st2) \<Longrightarrow> txn (bind m (\<lambda>x. bind (f x) (g x))) st
     = (case g x y st2 of (Inl e, q) \<Rightarrow> (Inl e, st\<lparr>uuid_count := uuid_count q\<rparr>) | (Inr z, q) \<Rightarrow> (Inr z, q))"
  by (simp add: txn_def bind_def)

text \<open>What the outcome write leaves, whatever its ledger insert or its second row do: nothing, if the write to the held
  row fails, and otherwise the outcome row together with the held row.\<close>

lemma writeOutcomeWithSpend_effect:
  fixes tool ps ap env
  defines "ap' \<equiv> case centsFromSpend (case tool of None \<Rightarrow> None | Some t \<Rightarrow> te_spend t) ps of None \<Rightarrow> ap
     | Some n \<Rightarrow> ap\<lparr>p_costUsd := Some (ev_div100 env n)\<rparr>"
  assumes "insertRow (audit_env_of env (ev_uuid env (uuid_count st))) ap' (Some d) (db_audit st) = Inr (w, rows)"
    "writeOutcomeWithSpend env show_error ap d tool ps answered st = (res, st')"
  shows "(answered \<noteq> None \<and> (\<exists>k. ev_storage_fault env HeldTurnUpdate k) \<and> res = Inl (SqlError StorageFault)
        \<and> (\<exists>n. st' = st\<lparr>uuid_count := n\<rparr>))
     \<or> ((answered = None \<or> (\<exists>k. \<not> ev_storage_fault env HeldTurnUpdate k)) \<and> (\<exists>more. db_audit st' = rows @ more)
     \<and> db_held st' = (case answered of None \<Rightarrow> db_held st | Some (h, ts) \<Rightarrow> updateHeldTurnState h ts (db_held st))
     \<and> (db_ledger st' = db_ledger st
        \<or> (\<exists>t sp n row. tool = Some t \<and> te_spend t = Some sp \<and> centsFromSpend (Some sp) ps = Some n \<and> p_outcome ap = Success
            \<and> li_sessionId row = p_sessionId ap \<and> li_createdAt row = now_iso env \<and> li_amountCents row = n
            \<and> insertSpendInTxn row (db_ledger st) = Inr (db_ledger st'))))"
proof -
  let ?st1 = "st\<lparr>uuid_count := uuid_count st + 1, db_audit := rows\<rparr>"
  define spend where "spend = (case tool of None \<Rightarrow> None | Some t \<Rightarrow> te_spend t)"
  define amount where "amount = centsFromSpend spend ps"
  define recs :: "audit_entry_result option \<Rightarrow> ledger_error option act" where
    "recs r = (case (tool, spend, amount, r) of
               (Some t, Some sp, Some n, Some written) \<Rightarrow>
                 if p_outcome ap = Success then record_spend env t sp ps n (p_sessionId ap) written else ret None
             | _ \<Rightarrow> ret None)" for r
  define put where "put = (case answered of None \<Rightarrow> ret () | Some (h, turnState) \<Rightarrow> persist_answered env h turnState)"
  define gap where "gap e = ap'\<lparr>p_outcome := ErrorOutcome, p_errorMessage := Some (ledger_gap_text @ show_error e @ js '')'')\<rparr>" for e
  define rest where "rest lerr i = (case lerr of None \<Rightarrow> ret ()
      | Some e \<Rightarrow> bind (txn (close_decision env (gap e) i Observed)) (\<lambda>_. ret ()))" for lerr i
  note close = close_decision_observed[OF assms(2)]
  have w: "writeOutcomeWithSpend env show_error ap d tool ps answered =
      bind (txn (bind (close_decision env ap' d Observed) (\<lambda>r. bind (recs r) (\<lambda>le. bind put (\<lambda>_. ret (the r, le))))))
        (\<lambda>(entry, le). bind (rest le (r_id entry)) (\<lambda>_. ret entry))"
    unfolding writeOutcomeWithSpend_def Let_def ap'_def recs_def put_def rest_def gap_def amount_def spend_def ..
  obtain lerr st2 where r: "recs (Some w) ?st1 = (Inr lerr, st2)" "db_audit st2 = rows" "db_held st2 = db_held st"
    and led: "db_ledger st2 = db_ledger st
        \<or> (\<exists>t sp n row. tool = Some t \<and> te_spend t = Some sp \<and> centsFromSpend (Some sp) ps = Some n \<and> p_outcome ap = Success
            \<and> li_sessionId row = p_sessionId ap \<and> li_createdAt row = now_iso env \<and> li_amountCents row = n
            \<and> insertSpendInTxn row (db_ledger st) = Inr (db_ledger st2))"
  proof (cases "spend \<noteq> None \<and> amount \<noteq> None \<and> p_outcome ap = Success")
    case False
    then have "recs (Some w) ?st1 = (Inr None, ?st1)" by (auto simp: recs_def ret_def split: option.splits)
    then show ?thesis by (rule that) simp_all
  next
    case True
    then obtain t sp n where t: "tool = Some t" "te_spend t = Some sp" "centsFromSpend (Some sp) ps = Some n"
      and rs: "recs (Some w) = record_spend env t sp ps n (p_sessionId ap) w"
      by (auto simp: spend_def amount_def recs_def split: option.splits)
    show ?thesis
    proof (cases rule: record_spend_result[of env t sp ps n "p_sessionId ap" w ?st1])
      case (1 e)
      then show ?thesis unfolding rs by (rule that[unfolded rs]) simp_all
    next
      case (2 row rows')
      show ?thesis by (rule that[unfolded rs, OF 2(7)]) (use 2 t True in auto)
    qed
  qed
  obtain x q where px: "put st2 = (x, q)" by force
  have after: "bind put (\<lambda>_. ret (the (Some w), lerr)) st2 = (case x of Inl e \<Rightarrow> (Inl e, q) | Inr _ \<Rightarrow> (Inr (w, lerr), q))"
    by (cases x) (simp_all add: bind_def px ret_def)
  have t: "txn (bind (close_decision env ap' d Observed) (\<lambda>r. bind (recs r) (\<lambda>le. bind put (\<lambda>_. ret (the r, le))))) st
      = (case x of Inl e \<Rightarrow> (Inl e, st\<lparr>uuid_count := uuid_count q\<rparr>) | Inr _ \<Rightarrow> (Inr (w, lerr), q))"
    unfolding txn_bind_two[where m = "close_decision env ap' d Observed" and x = "Some w" and f = recs and y = lerr and st = st
        and ?st1.0 = ?st1 and ?st2.0 = st2 and g = "\<lambda>r le. bind put (\<lambda>_. ret (the r, le))", OF close r(1)] after
    by (simp split: sum.split)
  have run: "writeOutcomeWithSpend env show_error ap d tool ps answered st =
      (case x of Inl e \<Rightarrow> (Inl e, st\<lparr>uuid_count := uuid_count q\<rparr>) | Inr _ \<Rightarrow> bind (rest lerr (r_id w)) (\<lambda>_. ret w) q)"
    unfolding w bind_def[of "txn _"] t by (cases x) simp_all
  have tail: "(\<exists>more. db_audit (snd (bind (rest lerr (r_id w)) (\<lambda>_. ret w) q)) = db_audit q @ more)
      \<and> db_held (snd (bind (rest lerr (r_id w)) (\<lambda>_. ret w) q)) = db_held q
      \<and> db_ledger (snd (bind (rest lerr (r_id w)) (\<lambda>_. ret w) q)) = db_ledger q"
    using observed_txn[of env "gap (the lerr)" "r_id w" q] by (cases lerr) (simp_all add: rest_def ret_def)
  show ?thesis
  proof (cases "answered \<noteq> None \<and> ev_storage_fault env HeldTurnUpdate (uuid_count st2)")
    case True
    then have "x = Inl (SqlError StorageFault)" "q = st2" using px by (auto simp: put_def persist_answered_def)
    then have "res = Inl (SqlError StorageFault) \<and> st' = st\<lparr>uuid_count := uuid_count st2\<rparr>"
      using run assms(3) by simp
    then show ?thesis using True by auto
  next
    case False
    have "x = Inr ()" "q = (case answered of None \<Rightarrow> st2 | Some (h, ts) \<Rightarrow> st2\<lparr>db_held := updateHeldTurnState h ts (db_held st2)\<rparr>)"
      using False px by (cases answered; auto simp: put_def persist_answered_def ret_def)+
    then have "st' = snd (bind (rest lerr (r_id w)) (\<lambda>_. ret w) q)" "db_audit q = rows" "db_ledger q = db_ledger st2"
      "db_held q = (case answered of None \<Rightarrow> db_held st | Some (h, ts) \<Rightarrow> updateHeldTurnState h ts (db_held st))"
      using run assms(3) r by (cases answered; simp add: case_prod_unfold)+
    then have "(\<exists>more. db_audit st' = rows @ more) \<and> db_ledger st' = db_ledger st2
        \<and> db_held st' = (case answered of None \<Rightarrow> db_held st | Some (h, ts) \<Rightarrow> updateHeldTurnState h ts (db_held st))"
      using tail by simp
    then show ?thesis using False led by auto
  qed
qed

lemma writeOutcomeWithSpend_failed:
  fixes tool ps ap env
  defines "ap' \<equiv> case centsFromSpend (case tool of None \<Rightarrow> None | Some t \<Rightarrow> te_spend t) ps of None \<Rightarrow> ap
     | Some n \<Rightarrow> ap\<lparr>p_costUsd := Some (ev_div100 env n)\<rparr>"
  assumes "insertRow (audit_env_of env (ev_uuid env (uuid_count st))) ap' (Some d) (db_audit st) = Inl e"
  shows "db_ledger (snd (writeOutcomeWithSpend env show_error ap d tool ps answered st)) = db_ledger st"
proof -
  have "close_decision env ap' d Observed st = (Inl (SqlError e), st\<lparr>uuid_count := uuid_count st + 1\<rparr>)"
    using assms(2) by (simp add: close_decision_def bind_def fresh_uuid_def closeDecisionEntryInTxn_def try_bind_def)
  then show ?thesis by (simp add: writeOutcomeWithSpend_def Let_def ap'_def bind_def txn_def)
qed

lemma sum_cents_mono:
  "ledger_inv rows \<Longrightarrow> (\<And>r. p r \<Longrightarrow> q r) \<Longrightarrow> sum_cents p rows \<le> sum_cents q rows"
  by (induction rows) (force simp: sum_cents_def ledger_inv_def)+

text \<open>A spend that was affordable when it was decided leaves both windows within their caps.\<close>

lemma affordable_recorded:
  assumes "affordable env readable sp ps s st" "ledger_inv (db_ledger st)"
    "rows = db_ledger st \<or> (\<exists>row n. centsFromSpend (Some sp) ps = Some n \<and> li_sessionId row = s \<and> li_amountCents row = n
        \<and> insertSpendInTxn row (db_ledger st) = Inr rows)"
    "utf8 (monthStartIso (ev_now env)) \<le> utf8 m"
  shows "sumSessionSpendCents rows s \<le> lr_sessionLimitCents (readSpendLimitsCents (db_settings st))
     \<and> sumMonthSpendCents rows m \<le> lr_monthLimitCents (readSpendLimitsCents (db_settings st))"
proof -
  obtain n where n: "quotedAmountCents sp ps = Some (JInt n)" and w: "within_limits n
      (lr_sessionLimitCents (readSpendLimitsCents (db_settings st)))
      (lr_monthLimitCents (readSpendLimitsCents (db_settings st)))
      (sumSessionSpendCents (db_ledger st) s) (sumMonthSpendCents (db_ledger st) (monthStartIso (ev_now env)))"
    using assms(1) by (auto simp: affordable_def)
  have m: "sumMonthSpendCents (db_ledger st) m \<le> sumMonthSpendCents (db_ledger st) (monthStartIso (ev_now env))"
    unfolding sumMonthSpendCents_def using assms(2,4) by (intro sum_cents_mono) auto
  have "sumSessionSpendCents rows s \<le> sumSessionSpendCents (db_ledger st) s + n
      \<and> sumMonthSpendCents rows m \<le> sumMonthSpendCents (db_ledger st) m + n"
    using assms(3)
  proof
    assume "rows = db_ledger st"
    then show ?thesis using w by (simp add: within_limits_def)
  next
    assume "\<exists>row n. centsFromSpend (Some sp) ps = Some n \<and> li_sessionId row = s \<and> li_amountCents row = n
        \<and> insertSpendInTxn row (db_ledger st) = Inr rows"
    then obtain row where row: "li_sessionId row = s" "li_amountCents row = JInt n"
        and i: "insertSpendInTxn row (db_ledger st) = Inr rows"
      using n by (auto simp: centsFromSpend_def split: if_splits)
    from i show ?thesis
      by (cases rule: insertSpendInTxn_cases)
        (use row w in \<open>auto simp: sumSessionSpendCents_def sumMonthSpendCents_def within_limits_def\<close>)
  qed
  then show ?thesis using w m by (auto simp: within_limits_def)
qed

lemma wellFormed_texts [simp]: "wellFormed (decision_text d) = decision_text d" "wellFormed (outcome_text out) = outcome_text out"
  by (cases d; simp add: wellFormed_ascii ascii_def js_def; simp add: wellFormed_ascii ascii_def js_def)
    (cases out; simp add: wellFormed_ascii ascii_def js_def)

lemma new_row_content:
  "decision (new_row env ps d rows) = decision_text (p_decision ps)" "toolName (new_row env ps d rows) = wellFormed (p_toolName ps)"
  "sessionId (new_row env ps d rows) = wellFormed (p_sessionId ps)" "outcome (new_row env ps d rows) = outcome_text (p_outcome ps)"
  "parametersMetadata (new_row env ps d rows) = wellFormed (stringify (show_frac env) (JObj (p_parametersMetadata ps)))"
  "costUsd (new_row env ps d rows) = p_costUsd ps"
  by (simp_all add: new_row_def link_to_prior_def conditioned_row_def Let_def split: option.split)

subsection \<open>Metadata\<close>

text \<open>What the log may learn of a value: its type, its length or its member names.\<close>

datatype shape = ShString nat | ShNumber | ShBoolean | ShArray nat | ShNull | ShObject "jsstr list"

fun shape_of :: "json \<Rightarrow> shape" where
  "shape_of (JStr s) = ShString (length s)"
| "shape_of (JNum _) = ShNumber"
| "shape_of (JBool _) = ShBoolean"
| "shape_of (JArr xs) = ShArray (length xs)"
| "shape_of JNull = ShNull"
| "shape_of (JObj ms) = ShObject (map fst ms)"

fun shape_metadata :: "shape \<Rightarrow> json" where
  "shape_metadata (ShObject ks) = value_metadata (JObj (map (\<lambda>k. (k, JNull)) ks))"
| "shape_metadata (ShString n) = JObj [(js ''type'', JStr (js ''string'')), (js ''length'', JNat n)]"
| "shape_metadata ShNumber = JObj [(js ''type'', JStr (js ''number''))]"
| "shape_metadata ShBoolean = JObj [(js ''type'', JStr (js ''boolean''))]"
| "shape_metadata (ShArray n) = JObj [(js ''type'', JStr (js ''array'')), (js ''length'', JNat n)]"
| "shape_metadata ShNull = JObj [(js ''type'', JStr (js ''null''))]"

lemma value_metadata_shape: "value_metadata v = shape_metadata (shape_of v)"
  by (cases v) (simp_all add: Let_def comp_def)

section \<open>Properties\<close>

text \<open>C33: Audit before execute: a run of the pipeline appends exactly one decision row to the log, whose
  id is the one it returns and which carries the decision it returns, and changes no other table;
  when the row cannot be written the caller gets no decision at all and the log is unchanged.\<close>

theorem pipeline_audited:
  assumes "executeGovernancePipeline env lookupTool readable gp st = (res, st')"
  shows "logs_only st st' \<and> (case res of Inl _ \<Rightarrow> db_audit st' = db_audit st
     | Inr r \<Rightarrow> \<exists>row. db_audit st' = db_audit st @ [row] \<and> entryId row = r_id (gr_auditEntry r)
         \<and> decision row = decision_text (gr_decision r) \<and> decisionEntryId row = None
         \<and> toolName row = wellFormed (gp_toolName gp) \<and> sessionId row = wellFormed (gp_sessionId gp)
         \<and> outcome row = outcome_text (if gr_decision r = Deny then ErrorOutcome else Success))"
  using assms
proof (cases rule: executeGovernancePipeline_cases)
  case (failed e)
  then show ?thesis by (simp add: leaves_def untouched_def)
next
  case (decided r a pd pdo)
  have "p_decision (pipeline_audit env gp a pd pdo) = fst pdo"
    "p_outcome (pipeline_audit env gp a pd pdo) = (if fst pdo = Deny then ErrorOutcome else Success)"
    "p_toolName (pipeline_audit env gp a pd pdo) = gp_toolName gp"
    "p_sessionId (pipeline_audit env gp a pd pdo) = gp_sessionId gp"
    by (simp_all add: pipeline_audit_def Let_def case_prod_unfold)
  then show ?thesis using decided by (simp add: leaves_def untouched_def new_row_content)
qed

definition ex_shop :: tool_entry where
  "ex_shop = \<lparr>te_service = js ''gmail'', te_verb = js ''send'', te_description = [], te_inputSchema = JObj [], te_dataSlots = [],
     te_requiredScopes = [], te_nounExtractor = (\<lambda>_. js ''mail''),
     te_spend = Some \<lparr>quotedAmountCents = (\<lambda>_. Some (JInt 250)), describe = None,
        commitKeys = (\<lambda>_. (js ''q1'', js ''k1''))\<rparr>\<rparr>"

definition ex_call :: pipeline_params where
  "ex_call = \<lparr>gp_toolName = js ''t'', gp_params = [(js ''to'', JStr (js ''bob''))], gp_userId = js ''u'',
     gp_agentId = js ''main'', gp_sessionId = js ''s1'',
     gp_entries = queryPolicyEntries (iso 5) (Some (js ''s1'')) (db_policy ex_agent), gp_origin = None, gp_epochId = None,
     gp_timestamp = None, gp_denyReason = None, gp_askable = Some True\<rparr>"

lemma ex_pipeline: "\<exists>r st'. executeGovernancePipeline ex_agent_env (\<lambda>_. Some ex_shop) True ex_call ex_agent = (Inr r, st')"
proof -
  let ?a = "pipeline_action (\<lambda>_. Some ex_shop) ex_call"
  let ?pd = "evaluatePolicy (ev_lower ex_agent_env) (gp_entries ex_call) ?a"
  let ?o = "pipeline_decide ex_agent_env (\<lambda>_. Some ex_shop) True ex_call ?pd ex_agent"
  obtain r st' where "insert_audit ex_agent_env (pipeline_audit ex_agent_env ex_call ?a ?pd ?o) ex_agent = (Inr r, st')"
    using insert_audit_empty[of ex_agent ex_agent_env "pipeline_audit ex_agent_env ex_call ?a ?pd ?o"]
    by (auto simp: ex_agent_def)
  then show ?thesis by (simp add: executeGovernancePipeline_def Let_def bind_def read_def writeAuditEntry_def txn_def ret_def)
qed

theorem pipeline_audited_witness:
  "\<exists>r st' row. executeGovernancePipeline ex_agent_env (\<lambda>_. Some ex_shop) True ex_call ex_agent = (Inr r, st')
     \<and> db_audit st' = [row] \<and> decision row = decision_text (gr_decision r)"
proof -
  obtain r st' where e: "executeGovernancePipeline ex_agent_env (\<lambda>_. Some ex_shop) True ex_call ex_agent = (Inr r, st')"
    using ex_pipeline by blast
  show ?thesis using pipeline_audited[OF e] e by (auto simp: ex_agent_def)
qed

text \<open>C2: The decision table over the grants: in a table of the floor and grants, with the entries of the
  call's session, the pipeline allows exactly when some live grant of the session names the action, no
  such grant is a deny, and a money verb's price is readable and within both caps; it denies exactly
  when the policy does not allow and, for a call that may ask, a deny grant says so; in every other
  case it holds the call.\<close>

theorem pipeline_decision_table:
  assumes "grants_inv (db_policy st)" "gp_entries gp = queryPolicyEntries t (Some s) (db_policy st)"
    "executeGovernancePipeline env lookupTool readable gp st = (Inr r, st')"
  shows "let says = (\<lambda>d. \<exists>g \<in> set (db_policy st). speaks (ev_lower env) t s (pipeline_action lookupTool gp) g \<and> pe_decision g = d);
             paid = (\<forall>tool sp. lookupTool (gp_toolName gp) = Some tool \<longrightarrow> te_spend tool = Some sp
                 \<longrightarrow> affordable env readable sp (gp_params gp) (gp_sessionId gp) st)
         in gr_decision r =
           (if says EDeny then Deny else if says EAllow then (if paid then Allow else Pending)
            else if gp_askable gp = Some True then Pending else Deny)"
proof -
  let ?pd = "evaluatePolicy (ev_lower env) (gp_entries gp) (pipeline_action lookupTool gp)"
  have d: "gr_decision r = fst (pipeline_decide env lookupTool readable gp ?pd st)"
    using assms(3) by (auto elim!: executeGovernancePipeline_cases)
  define sayA where "sayA \<longleftrightarrow> (\<exists>g \<in> set (db_policy st). speaks (ev_lower env) t s (pipeline_action lookupTool gp) g \<and> pe_decision g = EAllow)"
  define sayD where "sayD \<longleftrightarrow> (\<exists>g \<in> set (db_policy st). speaks (ev_lower env) t s (pipeline_action lookupTool gp) g \<and> pe_decision g = EDeny)"
  define paid where "paid \<longleftrightarrow> (\<forall>tool sp. lookupTool (gp_toolName gp) = Some tool \<longrightarrow> te_spend tool = Some sp
                 \<longrightarrow> affordable env readable sp (gp_params gp) (gp_sessionId gp) st)"
  have "pe_decision g = EAllow \<longleftrightarrow> pe_decision g \<noteq> EDeny" for g :: policy_row by (cases "pe_decision g") auto
  then have allow: "pd_decision ?pd = Allow \<longleftrightarrow> sayA \<and> \<not> sayD"
    unfolding assms(2) queried_allow_iff[OF assms(1)] sayA_def sayD_def by blast
  have refusal: "pd_decision ?pd = Deny \<and> pd_source ?pd \<noteq> Implicit \<and> pd_entryId ?pd \<noteq> Some WILDCARD_DENY_ID \<longleftrightarrow> sayD"
    unfolding assms(2) sayD_def by (rule queried_refusal_iff[OF assms(1)])
  have two: "pd_decision ?pd = Allow \<or> pd_decision ?pd = Deny"
  proof (cases "ev_lower env" "gp_entries gp" "pipeline_action lookupTool gp" rule: evaluatePolicy_cases)
    case (matched m)
    then show ?thesis by (cases "e_decision m") simp_all
  qed simp_all
  have A: "gr_decision r = Allow \<longleftrightarrow> pd_decision ?pd = Allow \<and> paid" unfolding d paid_def by (rule pipeline_decide_Allow)
  have D: "gr_decision r = Deny \<longleftrightarrow> pd_decision ?pd = Deny \<and> \<not> (gp_askable gp = Some True
      \<and> (pd_source ?pd = Implicit \<or> pd_entryId ?pd = Some WILDCARD_DENY_ID))" unfolding d by (rule pipeline_decide_Deny)
  have "gr_decision r = (if sayD then Deny else if sayA then (if paid then Allow else Pending)
            else if gp_askable gp = Some True then Pending else Deny)"
    using allow refusal two A D by (cases "gr_decision r"; cases sayD; cases sayA; cases paid) auto
  then show ?thesis unfolding Let_def sayA_def sayD_def paid_def .
qed

lemma ex_affordable: "te_spend ex_shop = Some sp \<Longrightarrow> affordable ex_agent_env True sp ps s ex_agent"
  by (auto simp: affordable_def ex_shop_def ex_agent_def sumSessionSpendCents_def sumMonthSpendCents_def sum_cents_def
      within_limits_def readSpendLimitsCents_def stored_limits_def parseLimitCents_def Let_def
      DEFAULT_SESSION_LIMIT_CENTS_def DEFAULT_MONTHLY_LIMIT_CENTS_def max_safe_def)

text \<open>An action the example grant names is allowed while the grant lives.\<close>

lemma ex_policy_allows:
  assumes "a_service a = js ''gmail''" "a_verb a = js ''send''" "a_noun a = js ''mail''"
  shows "pd_decision (evaluatePolicy id (queryPolicyEntries t (Some (js ''s1'')) (db_policy ex_agent)) a) = Allow"
proof -
  have "db_policy ex_agent = [floor_row [], ex_task_row]" by (simp add: ex_agent_def)
  then show ?thesis
    unfolding queried_allow_iff[OF ex_grants_inv] using assms
    by (auto simp: speaks_def is_grant_def live_def ex_task_row_def js_def)
qed

lemma ex_pipeline_allow:
  assumes "executeGovernancePipeline ex_agent_env (\<lambda>_. Some ex_shop) True ex_call ex_agent = (Inr r, st')"
  shows "gr_decision r = Allow"
proof -
  have "pd_decision (evaluatePolicy (ev_lower ex_agent_env) (gp_entries ex_call) (pipeline_action (\<lambda>_. Some ex_shop) ex_call)) = Allow"
    using ex_policy_allows[of "pipeline_action (\<lambda>_. Some ex_shop) ex_call" "iso 5"]
    by (simp add: ex_call_def ex_agent_env_def pipeline_action_def ex_shop_def)
  then show ?thesis using assms ex_affordable
    by (auto elim!: executeGovernancePipeline_cases simp: pipeline_decide_Allow)
qed

theorem pipeline_decision_table_witness:
  "\<exists>r st'. executeGovernancePipeline ex_agent_env (\<lambda>_. Some ex_shop) True ex_call ex_agent = (Inr r, st')
     \<and> gr_decision r = Allow"
proof -
  obtain r st' where e: "executeGovernancePipeline ex_agent_env (\<lambda>_. Some ex_shop) True ex_call ex_agent = (Inr r, st')"
    using ex_pipeline by blast
  let ?a = "pipeline_action (\<lambda>_. Some ex_shop) ex_call"
  have p: "db_policy ex_agent = [floor_row [], ex_task_row]" by (simp add: ex_agent_def)
  have sp: "speaks (ev_lower ex_agent_env) (iso 5) (js ''s1'') ?a ex_task_row" "pe_decision ex_task_row = EAllow"
    by (simp_all add: speaks_def is_grant_def live_def ex_task_row_def pipeline_action_def ex_shop_def js_def)
  have nf: "\<not> speaks (ev_lower ex_agent_env) (iso 5) (js ''s1'') ?a (floor_row [])"
    by (simp add: speaks_def is_grant_def)
  have "gp_entries ex_call = queryPolicyEntries (iso 5) (Some (js ''s1'')) (db_policy ex_agent)"
    by (simp add: ex_call_def)
  from pipeline_decision_table[OF ex_grants_inv this e] have "gr_decision r = Allow"
    using sp nf ex_affordable unfolding p Let_def by simp
  then show ?thesis using e by blast
qed

text \<open>C8: No overspend: when the pipeline let a money verb through and its outcome is then recorded on the
  ledger the decision was made on, the session's recorded spend stays within the session limit and
  every month window from the decision's month on within the monthly limit, whatever the outcome
  write returns.\<close>

theorem spend_stays_under_caps:
  assumes "executeGovernancePipeline env lookupTool readable gp st = (Inr r, st1)" "gr_decision r = Allow"
    "lookupTool (gp_toolName gp) = Some t" "te_spend t = Some sp" "ledger_inv (db_ledger st)"
    "db_ledger st2 = db_ledger st1" "p_sessionId ap = gp_sessionId gp"
    "writeOutcomeWithSpend env2 show_error ap d (Some t) (gp_params gp) answered st2 = (res, st3)"
    "utf8 (monthStartIso (ev_now env)) \<le> utf8 m"
  shows "sumSessionSpendCents (db_ledger st3) (gp_sessionId gp) \<le> lr_sessionLimitCents (readSpendLimitsCents (db_settings st))
     \<and> sumMonthSpendCents (db_ledger st3) m \<le> lr_monthLimitCents (readSpendLimitsCents (db_settings st))"
proof (rule affordable_recorded[OF _ assms(5) _ assms(9)])
  show "affordable env readable sp (gp_params gp) (gp_sessionId gp) st"
    using assms(1-4) by (auto elim!: executeGovernancePipeline_cases simp: pipeline_decide_Allow)
  have same: "db_ledger st2 = db_ledger st" using assms(1,6) by (auto elim!: executeGovernancePipeline_cases)
  let ?ap = "case centsFromSpend (case Some t of None \<Rightarrow> None | Some t \<Rightarrow> te_spend t) (gp_params gp) of None \<Rightarrow> ap
     | Some n \<Rightarrow> ap\<lparr>p_costUsd := Some (ev_div100 env2 n)\<rparr>"
  let ?i = "insertRow (audit_env_of env2 (ev_uuid env2 (uuid_count st2))) ?ap (Some d) (db_audit st2)"
  show "db_ledger st3 = db_ledger st \<or> (\<exists>row n. centsFromSpend (Some sp) (gp_params gp) = Some n
      \<and> li_sessionId row = gp_sessionId gp \<and> li_amountCents row = n \<and> insertSpendInTxn row (db_ledger st) = Inr (db_ledger st3))"
  proof (cases ?i)
    case (Inl e)
    then show ?thesis using writeOutcomeWithSpend_failed[OF Inl] assms(8) same by (metis snd_conv)
  next
    case (Inr x)
    obtain w rows where x: "x = (w, rows)" by force
    show ?thesis using writeOutcomeWithSpend_effect[OF Inr[unfolded x] assms(8)] same assms(4,7) by auto
  qed
qed

definition ex_outcome :: audit_params where
  "ex_outcome = session_start_params (js ''u'') (js ''main'') (js ''s1'') Human (iso 5)"

theorem spend_stays_under_caps_witness:
  "\<exists>r st1 st3 res. executeGovernancePipeline ex_agent_env (\<lambda>_. Some ex_shop) True ex_call ex_agent = (Inr r, st1)
     \<and> writeOutcomeWithSpend ex_agent_env (\<lambda>_. []) ex_outcome (js ''e1'') (Some ex_shop) (gp_params ex_call) None st1 = (res, st3)
     \<and> sumSessionSpendCents (db_ledger st3) (js ''s1'') \<le> 2000"
proof -
  obtain r st1 where e: "executeGovernancePipeline ex_agent_env (\<lambda>_. Some ex_shop) True ex_call ex_agent = (Inr r, st1)"
    using ex_pipeline by blast
  note a = ex_pipeline_allow[OF e]
  obtain res st3 where w: "writeOutcomeWithSpend ex_agent_env (\<lambda>_. []) ex_outcome (js ''e1'') (Some ex_shop)
      (gp_params ex_call) None st1 = (res, st3)" by force
  obtain sp where sp: "te_spend ex_shop = Some sp" by (simp add: ex_shop_def)
  have "ledger_inv (db_ledger ex_agent)" by (simp add: ex_agent_def ledger_inv_def)
  moreover have "p_sessionId ex_outcome = gp_sessionId ex_call"
    by (simp add: ex_outcome_def session_start_params_def ex_call_def)
  moreover have "lr_sessionLimitCents (readSpendLimitsCents (db_settings ex_agent)) = 2000"
    by (simp add: ex_agent_def readSpendLimitsCents_def stored_limits_def parseLimitCents_def DEFAULT_SESSION_LIMIT_CENTS_def)
  moreover have "gp_sessionId ex_call = js ''s1''" by (simp add: ex_call_def)
  ultimately show ?thesis using spend_stays_under_caps[OF e a refl sp _ refl _ w order_refl] e w by auto
qed



text \<open>Metadata only: what a call's parameters contribute to the audit row depends on nothing but their
  names and shapes (types, string and array lengths, member names), never on a value.\<close>

theorem metadata_shape_only:
  assumes "map (\<lambda>(k, v). (k, shape_of v)) ps = map (\<lambda>(k, v). (k, shape_of v)) qs"
  shows "extractMetadata sf ps = extractMetadata sf qs"
proof -
  have "length ps = length qs" using assms by (metis length_map)
  then have "length ps = length qs \<and> map (\<lambda>(k, v). (k, value_metadata v)) (filter (\<lambda>(k, _). k \<noteq> js ''__proto__'') ps)
      = map (\<lambda>(k, v). (k, value_metadata v)) (filter (\<lambda>(k, _). k \<noteq> js ''__proto__'') qs)"
    using assms by (induction rule: list_induct2) (auto simp: value_metadata_shape)
  then show ?thesis by (simp add: extractMetadata_def)
qed

theorem metadata_shape_only_witness:
  "extractMetadata (\<lambda>_. []) [(js ''to'', JStr (js ''bob''))] = extractMetadata (\<lambda>_. []) [(js ''to'', JStr (js ''eve''))]"
  by (rule metadata_shape_only) (simp add: js_def)

text \<open>A held spend adds the quote's own description to the row.\<close>

lemma spend_summary_logged:
  "sh_summary c = Some t \<Longrightarrow> p_parametersMetadata (pipeline_audit env gp a pd (d, usd, Some c)) =
     obj_set (js ''spend'') (JObj ([(js ''amountCents'', case sh_amountCents c of None \<Rightarrow> JNull | Some n \<Rightarrow> JNum n),
            (js ''reason'', JStr (spend_reason_text (sh_reason c))),
            (js ''breaches'', JArr (map breach_json (sh_breaches c))), (js ''summary'', JStr t)]))
       (extractMetadata (ev_show_frac env) (gp_params gp))"
  by (simp add: pipeline_audit_def Let_def hold_context_json_def)

end
