(* ===== verification/Tools.thy ===== *)
theory Tools
  imports Pipeline
begin

text \<open>
  Tool calls in the coordinator (\<open>packages/engine/src/agent/user-agent.ts\<close>): the dispatch boundary of
  the control plane (\<open>packages/engine/src/llm/control-plane.ts\<close>), verbatim data binding, the required
  slots of a commissioned call, and \<open>executeTool\<close> with its gates in the order of the code, through
  hold, consumption of the authorizing grant, dispatch and outcome. A method suspends at an
  \<open>await\<close>: what runs there, the decryption of a credential or an external tool together with any
  other request served meanwhile, is an action of the environment (\<open>tool_world\<close>), and the clock
  moves on. The lemmas show that no gate can be passed over: an external tool runs only after an
  audited allow.
\<close>

section \<open>control-plane.ts\<close>

text \<open>\<open>RunOrigin\<close>.\<close>

datatype run_surface = InternalRun | HumanRun | CommissionRun

definition CONTROL_PLANE_SERVICE :: jsstr where
  "CONTROL_PLANE_SERVICE = js ''habenula''"

definition controlPlaneAllowed :: "run_surface \<Rightarrow> bool" where
  "controlPlaneAllowed surface \<longleftrightarrow> surface = InternalRun"

definition isControlPlaneTool :: "(jsstr \<Rightarrow> tool_entry option) \<Rightarrow> jsstr \<Rightarrow> bool" where
  "isControlPlaneTool lookupTool tn \<longleftrightarrow>
     (case lookupTool tn of Some t \<Rightarrow> te_service t = CONTROL_PLANE_SERVICE | None \<Rightarrow> False)"

definition CONTROL_PLANE_REFUSAL :: jsstr where
  "CONTROL_PLANE_REFUSAL = js ''Refused: Habenula's control plane is reachable only from the trusted internal surface''"

section \<open>What a call takes and returns\<close>

record execute_params =
  ep_toolName :: jsstr
  ep_toolParams :: params
  ep_userId :: jsstr
  ep_agentId :: jsstr
  ep_origin :: "audit_origin option"
  ep_runOrigin :: "run_surface option"
  ep_runId :: "jsstr option"
  ep_epochId :: "jsstr option"
  ep_timestamp :: "jsstr option"

datatype deny_reason = NotConnected | NeedsAuthorization | PolicyDeny

record execution =
  x_success :: bool
  x_data :: "json option"
  x_error :: "jsstr option"

record execute_result =
  er_governance :: pipeline_result
  er_execution :: "execution option"
  er_denyReason :: "deny_reason option"
  er_boundaryRefused :: bool
  er_held :: "(jsstr \<times> jsstr) option"

text \<open>
  The registry, the readability of the ledger, \<open>String(error)\<close>, the decrypted scopes of a service, an
  external tool with its credential resolution (both catch every exception), the status snapshot and
  the wire form of the standing entries, and the clock after each of the two awaits.
\<close>

record tool_world =
  tw_lookup :: "jsstr \<Rightarrow> tool_entry option"
  tw_readable :: bool
  tw_show_error :: "ledger_error \<Rightarrow> jsstr"
  tw_scopes :: "jsstr \<Rightarrow> agent \<Rightarrow> jsstr list option \<times> agent"
  tw_execute :: "tool_entry \<Rightarrow> params \<Rightarrow> agent \<Rightarrow> execution \<times> agent"
  tw_status :: "agent \<Rightarrow> json"
  tw_standing :: "policy_entry list \<Rightarrow> json"
  tw_after_scopes :: int
  tw_after_execute :: int

text \<open>\<open>if (runId)\<close>: a null or empty id is false.\<close>

definition present :: "jsstr option \<Rightarrow> jsstr option" where
  "present r = (case r of Some i \<Rightarrow> if i = [] then None else Some i | None \<Rightarrow> None)"

text \<open>An await: the environment runs on the state.\<close>

definition await :: "(agent \<Rightarrow> 'a \<times> agent) \<Rightarrow> 'a act" where
  "await f st = (case f st of (x, st') \<Rightarrow> (Inr x, st'))"

section \<open>Data binding\<close>

text \<open>\<open>DATA_PLACEHOLDER\<close>: the key of a whole-string placeholder.\<close>

definition slot_char :: "u16 \<Rightarrow> bool" where
  "slot_char c \<longleftrightarrow> 65 \<le> c \<and> c \<le> 90 \<or> 97 \<le> c \<and> c \<le> 122 \<or> 48 \<le> c \<and> c \<le> 57 \<or> c = 95 \<or> c = 45"

definition data_placeholder :: "jsstr \<Rightarrow> jsstr option" where
  "data_placeholder s =
     (let opening = js ''{{data.''; closing = js ''}}'';
          ky = take (length s - length opening - length closing) (drop (length opening) s)
      in if ky \<noteq> [] \<and> list_all slot_char ky \<and> s = opening @ ky @ closing then Some ky else None)"

fun walk :: "params \<Rightarrow> json \<Rightarrow> json" where
  "walk data (JStr s) =
     (case data_placeholder s of
        Some k \<Rightarrow> (case map_of data k of Some v \<Rightarrow> v | None \<Rightarrow> JStr s)
      | None \<Rightarrow> JStr s)"
| "walk data (JArr xs) = JArr (map (walk data) xs)"
| "walk data (JObj ms) = JObj (map (\<lambda>m. (fst m, walk data (snd m))) ms)"
| "walk data JNull = JNull"
| "walk data (JBool b) = JBool b"
| "walk data (JNum n) = JNum n"

definition substituteDataPlaceholders :: "params \<Rightarrow> params \<Rightarrow> params" where
  "substituteDataPlaceholders ps data = map (\<lambda>m. (fst m, walk data (snd m))) ps"

text \<open>The own members of a stored data map; the engine only stores objects there.\<close>

fun own_members :: "json \<Rightarrow> params" where
  "own_members (JObj ms) = ms"
| "own_members _ = []"

text \<open>\<open>JSON.parse\<close> throws on a text that is not JSON.\<close>

definition parse_or_throw :: "agent_env \<Rightarrow> jsstr \<Rightarrow> json act" where
  "parse_or_throw env t = (case ev_json_parse env t of Some v \<Rightarrow> ret v | None \<Rightarrow> throw SyntaxError)"

definition substituteRunData :: "agent_env \<Rightarrow> jsstr \<Rightarrow> params \<Rightarrow> params act" where
  "substituteRunData env runId ps =
     bind (read (\<lambda>st. readCommissionRun (db_runs st) runId)) (\<lambda>run.
     case run of None \<Rightarrow> ret ps
     | Some r \<Rightarrow> (case present (t_data r) of None \<Rightarrow> ret ps
         | Some raw \<Rightarrow> bind (parse_or_throw env raw) (\<lambda>v. ret (substituteDataPlaceholders ps (own_members v)))))"

section \<open>Task records\<close>

fun json_array :: "json \<Rightarrow> json list option" where
  "json_array (JArr xs) = Some xs"
| "json_array _ = None"

definition parseStatusDetail :: "agent_env \<Rightarrow> jsstr option \<Rightarrow> json list option" where
  "parseStatusDetail env raw =
     (case raw of None \<Rightarrow> None
      | Some t \<Rightarrow> (case ev_json_parse env t of None \<Rightarrow> None | Some v \<Rightarrow> json_array v))"

definition action_detail :: "jsstr \<Rightarrow> jsstr \<Rightarrow> jsstr \<Rightarrow> jsstr \<Rightarrow> json" where
  "action_detail svc vb nn out =
     JObj [(js ''service'', JStr svc), (js ''verb'', JStr vb), (js ''noun'', JStr nn), (js ''outcome'', JStr out)]"

definition appendActionDetail :: "agent_env \<Rightarrow> jsstr option \<Rightarrow> json \<Rightarrow> unit act" where
  "appendActionDetail env runId detail =
     (case present runId of None \<Rightarrow> ret ()
      | Some i \<Rightarrow> bind (read (\<lambda>st. readCommissionRun (db_runs st) i)) (\<lambda>row.
          case row of None \<Rightarrow> ret ()
          | Some r \<Rightarrow>
            (let existing = (case parseStatusDetail env (t_status_detail r) of Some xs \<Rightarrow> xs | None \<Rightarrow> []) in
             modify (\<lambda>st. st\<lparr>db_runs := updateTaskStatusDetail i
               (stringify (ev_show_frac env) (JArr (existing @ [detail]))) (now_iso env) (db_runs st)\<rparr>))))"

section \<open>Required slots\<close>

text \<open>\<open>Object.keys\<close> of a parsed value; it throws on null, and the caller catches.\<close>

fun object_keys :: "json \<Rightarrow> jsstr list" where
  "object_keys (JObj ms) = map fst ms"
| "object_keys (JArr xs) = map js_of_nat [0..<length xs]"
| "object_keys (JStr s) = map js_of_nat [0..<length s]"
| "object_keys _ = []"

definition missingRequiredSlots :: "agent_env \<Rightarrow> (jsstr \<Rightarrow> tool_entry option) \<Rightarrow> jsstr \<Rightarrow> jsstr \<Rightarrow> agent \<Rightarrow> jsstr list" where
  "missingRequiredSlots env lookupTool tn runId st =
     (let required = (case lookupTool tn of None \<Rightarrow> [] | Some t \<Rightarrow> map fst (filter snd (te_dataSlots t))) in
      if required = [] then []
      else (let provided =
          (case readCommissionRun (db_runs st) runId of None \<Rightarrow> []
           | Some r \<Rightarrow> (case present (t_data r) of None \<Rightarrow> []
               | Some raw \<Rightarrow> (case ev_json_parse env raw of None \<Rightarrow> [] | Some v \<Rightarrow> object_keys v)))
        in filter (\<lambda>k. k \<notin> set provided) required))"

section \<open>Held turns\<close>

definition wrapTurnState :: "agent_env \<Rightarrow> json \<Rightarrow> jsstr" where
  "wrapTurnState env state =
     stringify (ev_show_frac env) (JObj [(js ''v'', JNum (JInt CANONICAL_SHAPE_VERSION)), (js ''state'', state)])"

definition seeded_turn :: "jsstr \<Rightarrow> jsstr \<Rightarrow> params \<Rightarrow> json" where
  "seeded_turn hid tn toolParams =
     JObj [(js ''messages'', JArr []),
           (js ''heldCall'', JObj [(js ''type'', JStr (js ''tool_use'')), (js ''id'', JStr hid),
              (js ''name'', JStr tn), (js ''input'', JObj toolParams)]),
           (js ''parkedCalls'', JArr []), (js ''producedResults'', JArr []), (js ''iterationsUsed'', JNat 0),
           (js ''toolCalls'', JArr []),
           (js ''usage'', JObj [(js ''inputTokens'', JNat 0), (js ''outputTokens'', JNat 0)]),
           (js ''directExecute'', JBool True)]"

definition insert_held :: "held_row \<Rightarrow> unit act" where
  "insert_held row = lift_table (\<lambda>st. case insertHeldToolCall row (db_held st) of
     Inl e \<Rightarrow> Inl e | Inr rows \<Rightarrow> Inr (st\<lparr>db_held := rows\<rparr>))"

text \<open>The audit row of an input park.\<close>

definition input_park_params :: "agent_env \<Rightarrow> execute_params \<Rightarrow> policy_action \<Rightarrow> jsstr \<Rightarrow> audit_params" where
  "input_park_params env ep a s =
     \<lparr>p_userId = ep_userId ep, p_agentId = ep_agentId ep, p_sessionId = s, p_toolName = ep_toolName ep,
      p_service = a_service a, p_verb = a_verb a, p_noun = a_noun a, p_decision = Pending, p_origin = ep_origin ep,
      p_parametersMetadata = extractMetadata (ev_show_frac env) (ep_toolParams ep), p_outcome = Success,
      p_errorMessage = None, p_latencyMs = JInt 0, p_costUsd = None, p_epochId = None, p_timestamp = None\<rparr>"

text \<open>The scope of a call as the pipeline derives it.\<close>

definition governance_params ::
  "execute_params \<Rightarrow> jsstr \<Rightarrow> policy_entry list \<Rightarrow> jsstr option \<Rightarrow> bool option \<Rightarrow> pipeline_params" where
  "governance_params ep s entries reason askable =
     \<lparr>gp_toolName = ep_toolName ep, gp_params = ep_toolParams ep, gp_userId = ep_userId ep, gp_agentId = ep_agentId ep,
      gp_sessionId = s, gp_entries = entries, gp_origin = ep_origin ep, gp_epochId = ep_epochId ep,
      gp_timestamp = ep_timestamp ep, gp_denyReason = reason, gp_askable = askable\<rparr>"

definition parkInputHold ::
  "agent_env \<Rightarrow> (jsstr \<Rightarrow> tool_entry option) \<Rightarrow> execute_params \<Rightarrow> jsstr \<Rightarrow> jsstr \<Rightarrow> jsstr list \<Rightarrow> execute_result act" where
  "parkInputHold env lookupTool ep s runId missing =
     (let a = pipeline_action lookupTool (governance_params ep s [] None None) in
      bind (writeAuditEntry env (input_park_params env ep a s)) (\<lambda>entry.
      bind (fresh_uuid env) (\<lambda>hid.
      (let awaitedSlotKeys = stringify (ev_show_frac env) (JArr (map JStr missing)) in
       bind (insert_held \<lparr>h_id = hid, h_session_id = s, h_pending = r_id entry,
           h_turn_state = wrapTurnState env (seeded_turn hid (ep_toolName ep) (ep_toolParams ep)),
           h_held_at = now_iso env, h_run_id = Some runId, h_hold_kind = InputHold,
           h_awaited_slot_keys = Some awaitedSlotKeys, h_spend_context = None\<rparr>) (\<lambda>_.
       bind (modify (\<lambda>st. st\<lparr>db_runs := markNeedsInput runId awaitedSlotKeys (now_iso env) (db_runs st)\<rparr>)) (\<lambda>_.
       ret \<lparr>er_governance = \<lparr>gr_decision = Pending, gr_auditEntry = entry, gr_service = a_service a, gr_verb = a_verb a,
              gr_noun = a_noun a, gr_matchedEntryId = None, gr_matchedSource = None, gr_spendContext = None\<rparr>,
            er_execution = None, er_denyReason = None, er_boundaryRefused = False,
            er_held = Some (hid, r_id entry)\<rparr>))))))"

section \<open>Dispatch\<close>

text \<open>\<open>String(v)\<close> of a parameter that may be absent.\<close>

fun js_string :: "(rat \<Rightarrow> jsstr) \<Rightarrow> json \<Rightarrow> jsstr" where
  "js_string sf (JStr s) = s"
| "js_string sf (JNum n) = num_to_string sf n"
| "js_string sf (JBool b) = (if b then js ''true'' else js ''false'')"
| "js_string sf JNull = js ''null''"
| "js_string sf (JArr xs) = commas (map (\<lambda>x. if x = JNull then [] else js_string sf x) xs)"
| "js_string sf (JObj _) = js ''[object Object]''"

definition param_string :: "agent_env \<Rightarrow> params \<Rightarrow> jsstr \<Rightarrow> jsstr" where
  "param_string env ps k = (case map_of ps k of Some v \<Rightarrow> js_string (ev_show_frac env) v | None \<Rightarrow> js ''undefined'')"

abbreviation ok_with :: "json \<Rightarrow> execution" where
  "ok_with v \<equiv> \<lparr>x_success = True, x_data = Some v, x_error = None\<rparr>"

abbreviation failed_with :: "jsstr \<Rightarrow> execution" where
  "failed_with e \<equiv> \<lparr>x_success = False, x_data = None, x_error = Some e\<rparr>"

definition disconnect_service :: "jsstr \<Rightarrow> bool act" where
  "disconnect_service svc st =
     (Inr (fst (disconnectService svc (db_services st))), st\<lparr>db_services := snd (disconnectService svc (db_services st))\<rparr>)"

definition dispatchControlPlane :: "agent_env \<Rightarrow> tool_world \<Rightarrow> jsstr \<Rightarrow> params \<Rightarrow> execution act" where
  "dispatchControlPlane env w vb ps =
     (if vb = js ''status'' then bind (getActiveSession env) (\<lambda>_. bind (read (tw_status w)) (\<lambda>v. ret (ok_with v)))
      else if vb = js ''kill'' then bind (killSwitch env) (\<lambda>_. ret (ok_with (JObj [(js ''killed'', JBool True)])))
      else if vb = js ''disconnect'' then
        (let svc = param_string env ps (js ''service'') in
         bind (disconnect_service svc) (\<lambda>gone.
         ret (ok_with (JObj [(js ''service'', JStr svc), (js ''disconnected'', JBool gone)]))))
      else if vb = js ''quit'' then bind (endSession env) (\<lambda>ended. ret (ok_with (JObj [(js ''ended'', JBool ended)])))
      else if vb = js ''read'' then
        bind (read (\<lambda>st. getStandingEntries (db_policy st))) (\<lambda>es. ret (ok_with (JObj [(js ''entries'', tw_standing w es)])))
      else ret (failed_with (js ''Unknown habenula control-plane verb: '' @ vb)))"

definition dispatchTool :: "agent_env \<Rightarrow> tool_world \<Rightarrow> jsstr \<Rightarrow> params \<Rightarrow> execution act" where
  "dispatchTool env w tn ps =
     (case tw_lookup w tn of
        None \<Rightarrow> ret (failed_with (js ''No implementation for tool: '' @ tn))
      | Some t \<Rightarrow> if te_service t = CONTROL_PLANE_SERVICE then dispatchControlPlane env w (te_verb t) ps
          else await (tw_execute w t ps))"

section \<open>executeTool\<close>

text \<open>The refusal of a control-plane call from a surface that may not make it; the console line is not modelled.\<close>

definition refuseControlPlane :: "agent_env \<Rightarrow> tool_world \<Rightarrow> execute_params \<Rightarrow> jsstr \<Rightarrow> execute_result act" where
  "refuseControlPlane env w ep s =
     bind (executeGovernancePipeline env (tw_lookup w) (tw_readable w)
       (governance_params ep s [] (Some CONTROL_PLANE_REFUSAL) None)) (\<lambda>g.
     bind (appendActionDetail env (ep_runId ep) (action_detail (gr_service g) (gr_verb g) (gr_noun g) (js ''denied''))) (\<lambda>_.
     ret \<lparr>er_governance = g, er_execution = None, er_denyReason = None, er_boundaryRefused = True, er_held = None\<rparr>))"

text \<open>A deny before policy: no entries, no question, the reason in the log.\<close>

definition force_deny ::
  "agent_env \<Rightarrow> tool_world \<Rightarrow> execute_params \<Rightarrow> jsstr \<Rightarrow> jsstr \<Rightarrow> deny_reason \<Rightarrow> execute_result act" where
  "force_deny env w ep s reason why =
     bind (executeGovernancePipeline env (tw_lookup w) (tw_readable w) (governance_params ep s [] (Some reason) None)) (\<lambda>g.
     ret \<lparr>er_governance = g, er_execution = None, er_denyReason = Some why, er_boundaryRefused = False, er_held = None\<rparr>)"

text \<open>The task grant that authorized a call is spent at the park and at the dispatch alike.\<close>

definition consume_matched :: "agent_env \<Rightarrow> pipeline_result \<Rightarrow> unit act" where
  "consume_matched env g =
     (case gr_matchedEntryId g of
        Some i \<Rightarrow> if gr_matchedSource g = Some (FromEntry Task) \<and> i \<noteq> [] then consume_task_grant env i else ret ()
      | None \<Rightarrow> ret ())"

definition hold_pending :: "agent_env \<Rightarrow> execute_params \<Rightarrow> jsstr \<Rightarrow> pipeline_result \<Rightarrow> execute_result act" where
  "hold_pending env ep s g =
     bind (fresh_uuid env) (\<lambda>hid.
     bind (insert_held \<lparr>h_id = hid, h_session_id = s, h_pending = r_id (gr_auditEntry g),
         h_turn_state = wrapTurnState env (seeded_turn hid (ep_toolName ep) (ep_toolParams ep)),
         h_held_at = now_iso env, h_run_id = ep_runId ep, h_hold_kind = ConfirmationHold, h_awaited_slot_keys = None,
         h_spend_context = map_option (\<lambda>c. stringify (ev_show_frac env) (hold_context_json c)) (gr_spendContext g)\<rparr>) (\<lambda>_.
     bind (consume_matched env g) (\<lambda>_.
     ret \<lparr>er_governance = g, er_execution = None, er_denyReason = None, er_boundaryRefused = False,
          er_held = Some (hid, r_id (gr_auditEntry g))\<rparr>)))"

definition outcome_params :: "agent_env \<Rightarrow> execute_params \<Rightarrow> jsstr \<Rightarrow> pipeline_result \<Rightarrow> execution \<Rightarrow> audit_params" where
  "outcome_params env ep s g x =
     \<lparr>p_userId = ep_userId ep, p_agentId = ep_agentId ep, p_sessionId = s, p_toolName = ep_toolName ep,
      p_service = gr_service g, p_verb = gr_verb g, p_noun = gr_noun g, p_decision = gr_decision g,
      p_origin = ep_origin ep, p_parametersMetadata = extractMetadata (ev_show_frac env) (ep_toolParams ep),
      p_outcome = (if x_success x then Success else ErrorOutcome), p_errorMessage = x_error x, p_latencyMs = JInt 0,
      p_costUsd = None, p_epochId = ep_epochId ep, p_timestamp = ep_timestamp ep\<rparr>"

text \<open>Consume, dispatch, record; the clock has moved when the tool returns.\<close>

definition dispatch_allowed :: "agent_env \<Rightarrow> tool_world \<Rightarrow> execute_params \<Rightarrow> jsstr \<Rightarrow> pipeline_result \<Rightarrow> execute_result act" where
  "dispatch_allowed env w ep s g =
     bind (consume_matched env g) (\<lambda>_.
     bind (dispatchTool env w (ep_toolName ep) (ep_toolParams ep)) (\<lambda>x.
     (let env' = env\<lparr>ev_now := tw_after_execute w\<rparr> in
      bind (writeOutcomeWithSpend env' (tw_show_error w) (outcome_params env' ep s g x) (r_id (gr_auditEntry g))
        (tw_lookup w (ep_toolName ep)) (ep_toolParams ep) None) (\<lambda>_.
      bind (appendActionDetail env' (ep_runId ep) (action_detail (gr_service g) (gr_verb g) (gr_noun g)
        (if x_success x then js ''executed'' else js ''errored''))) (\<lambda>_.
      ret \<lparr>er_governance = g, er_execution = Some x, er_denyReason = None, er_boundaryRefused = False, er_held = None\<rparr>)))))"

definition governed_call :: "agent_env \<Rightarrow> tool_world \<Rightarrow> execute_params \<Rightarrow> jsstr \<Rightarrow> execute_result act" where
  "governed_call env w ep s =
     bind (read (\<lambda>st. queryPolicyEntries (now_iso env) (Some s) (db_policy st))) (\<lambda>entries.
     bind (executeGovernancePipeline env (tw_lookup w) (tw_readable w) (governance_params ep s entries None (Some True))) (\<lambda>g.
     case gr_decision g of
       Pending \<Rightarrow> hold_pending env ep s g
     | Deny \<Rightarrow>
         bind (appendActionDetail env (ep_runId ep) (action_detail (gr_service g) (gr_verb g) (gr_noun g) (js ''denied''))) (\<lambda>_.
         ret \<lparr>er_governance = g, er_execution = None, er_denyReason = Some PolicyDeny, er_boundaryRefused = False, er_held = None\<rparr>)
     | Allow \<Rightarrow> dispatch_allowed env w ep s g))"

text \<open>The scope precondition of a connected service.\<close>

definition scope_gate :: "agent_env \<Rightarrow> tool_world \<Rightarrow> execute_params \<Rightarrow> jsstr \<Rightarrow> execute_result act" where
  "scope_gate env w ep s =
     (case tw_lookup w (ep_toolName ep) of None \<Rightarrow> governed_call env w ep s
      | Some t \<Rightarrow> if te_requiredScopes t = [] then governed_call env w ep s
          else bind (await (tw_scopes w (te_service t))) (\<lambda>granted.
            (let env' = env\<lparr>ev_now := tw_after_scopes w\<rparr> in
             case granted of
               None \<Rightarrow> governed_call env' w ep s
             | Some gs \<Rightarrow> if \<exists>scope \<in> set (te_requiredScopes t). scope \<in> set gs then governed_call env' w ep s
                 else force_deny env' w ep s (te_service t @ js '' is connected but not authorized to '' @ te_verb t
                   @ js ''; re-connect to grant it'') NeedsAuthorization)))"

definition connection_gate :: "agent_env \<Rightarrow> tool_world \<Rightarrow> execute_params \<Rightarrow> jsstr \<Rightarrow> execute_result act" where
  "connection_gate env w ep s =
     (let svc = (case tw_lookup w (ep_toolName ep) of Some t \<Rightarrow> te_service t | None \<Rightarrow> js ''unknown'') in
      bind (read (\<lambda>st. isServiceConnected (db_services st) svc)) (\<lambda>connected.
      if svc \<noteq> CONTROL_PLANE_SERVICE \<and> \<not> connected
      then force_deny env w ep s (js ''Service not connected: '' @ svc) NotConnected
      else scope_gate env w ep s))"

text \<open>The dispatch half of the boundary.\<close>

definition boundary_refuses :: "tool_world \<Rightarrow> execute_params \<Rightarrow> bool" where
  "boundary_refuses w ep \<longleftrightarrow> isControlPlaneTool (tw_lookup w) (ep_toolName ep)
     \<and> \<not> controlPlaneAllowed (case ep_runOrigin ep of Some u \<Rightarrow> u | None \<Rightarrow> HumanRun)"

definition executeTool :: "agent_env \<Rightarrow> tool_world \<Rightarrow> execute_params \<Rightarrow> execute_result act" where
  "executeTool env w ep =
     bind (reapExpiredSessions env) (\<lambda>_.
     bind (resolveActiveSession env (ep_userId ep) (ep_agentId ep) (case ep_origin ep of Some u \<Rightarrow> u | None \<Rightarrow> Human)) (\<lambda>s.
     if boundary_refuses w ep
     then refuseControlPlane env w ep s
     else bind (read (\<lambda>st. case present (ep_runId ep) of None \<Rightarrow> []
         | Some i \<Rightarrow> missingRequiredSlots env (tw_lookup w) (ep_toolName ep) i st)) (\<lambda>missing.
       case present (ep_runId ep) of
         Some i \<Rightarrow> if missing \<noteq> [] then parkInputHold env (tw_lookup w) ep s i missing else connection_gate env w ep s
       | None \<Rightarrow> connection_gate env w ep s)))"

text \<open>\<open>withTurnGate\<close>: the marker is set for the whole of the body and cleared on every exit.\<close>

definition withTurnGate :: "'a \<Rightarrow> 'a act \<Rightarrow> 'a act" where
  "withTurnGate busy body st =
     (if turnInFlight st then (Inr busy, st)
      else (case body (st\<lparr>turnInFlight := True\<rparr>) of (r, st') \<Rightarrow> (r, st'\<lparr>turnInFlight := False\<rparr>)))"

definition executeToolDirect :: "agent_env \<Rightarrow> tool_world \<Rightarrow> execute_params \<Rightarrow> execute_result option act" where
  "executeToolDirect env w ep = withTurnGate None (bind (executeTool env w ep) (\<lambda>r. ret (Some r)))"

record loop_result =
  lr_success :: bool
  lr_data :: "json option"
  lr_error :: "jsstr option"
  lr_denied :: bool
  lr_notConnected :: bool
  lr_needsAuthorization :: bool
  lr_boundaryRefused :: bool
  lr_held :: "(jsstr \<times> jsstr) option"

definition loop_result_of :: "execute_result \<Rightarrow> loop_result" where
  "loop_result_of r =
     (let denied = (gr_decision (er_governance r) = Deny) in
      if gr_decision (er_governance r) = Pending \<and> er_held r \<noteq> None
      then \<lparr>lr_success = False, lr_data = None, lr_error = None, lr_denied = False, lr_notConnected = False,
            lr_needsAuthorization = False, lr_boundaryRefused = False, lr_held = er_held r\<rparr>
      else \<lparr>lr_success = (case er_execution r of Some x \<Rightarrow> x_success x | None \<Rightarrow> False),
            lr_data = (case er_execution r of Some x \<Rightarrow> x_data x | None \<Rightarrow> None),
            lr_error = (case er_execution r of Some x \<Rightarrow> x_error x | None \<Rightarrow> None), lr_denied = denied,
            lr_notConnected = (denied \<and> er_denyReason r = Some NotConnected),
            lr_needsAuthorization = (denied \<and> er_denyReason r = Some NeedsAuthorization),
            lr_boundaryRefused = (denied \<and> er_boundaryRefused r), lr_held = None\<rparr>)"

definition executeToolForLoop :: "agent_env \<Rightarrow> tool_world \<Rightarrow> execute_params \<Rightarrow> loop_result act" where
  "executeToolForLoop env w ep =
     bind (case present (ep_runId ep) of None \<Rightarrow> ret ep
       | Some i \<Rightarrow> bind (substituteRunData env i (ep_toolParams ep)) (\<lambda>ps. ret (ep\<lparr>ep_toolParams := ps\<rparr>))) (\<lambda>ep'.
     bind (executeTool env w ep') (\<lambda>r. ret (loop_result_of r)))"

section \<open>Invariants of tool calls\<close>

text \<open>
  What a property of the state needs to survive a whole tool call: the audit writes at any clock
  reading, and every table statement. What runs at an await has to keep it too.
\<close>

locale call_invariant =
  fixes P :: "agent \<Rightarrow> bool" and env :: agent_env
  assumes stable_P: "stable P"
    and ins_at: "p_epochId ps = None \<Longrightarrow> keeps P (insert_audit (env\<lparr>ev_now := t\<rparr>) ps)"
    and clo_at: "p_epochId ps = None \<Longrightarrow> keeps P (close_decision (env\<lparr>ev_now := t\<rparr>) ps d basis)"
    and session_start: "P st \<Longrightarrow> P (st\<lparr>db_sessions := insertSessionState s tx a (db_sessions st)\<rparr>)"
    and session_end: "P st \<Longrightarrow> P (st\<lparr>db_sessions := markSessionEnded s tx (db_sessions st)\<rparr>)"
    and held_write: "P st \<Longrightarrow> held_step (db_held st) hs \<Longrightarrow> P (st\<lparr>db_held := hs\<rparr>)"
    and run_write: "P st \<Longrightarrow> run_step (db_runs st) rs \<Longrightarrow> P (st\<lparr>db_runs := rs\<rparr>)"
    and grant_used: "P st \<Longrightarrow> P (st\<lparr>db_policy := consumeTaskGrant i tx (db_policy st)\<rparr>)"
    and grants_killed: "P st \<Longrightarrow> P (st\<lparr>db_policy := deletePolicyEntriesExcept WILDCARD_DENY_ID (db_policy st)\<rparr>)"
    and ledger_write: "P st \<Longrightarrow> insertSpendInTxn row (db_ledger st) = Inr ls \<Longrightarrow> P (st\<lparr>db_ledger := ls\<rparr>)"
    and disconnected: "P st \<Longrightarrow> P (st\<lparr>db_services := snd (disconnectService svc (db_services st))\<rparr>)"
    and marker: "P st \<Longrightarrow> P (st\<lparr>turnInFlight := b\<rparr>)"

lemma later_clock: "env\<lparr>ev_now := t, ev_now := u\<rparr> = env\<lparr>ev_now := u\<rparr>"
  by simp

lemma held_step_Nil: "held_step rows []"
  using held_step.unpark_all[of rows] by simp

sublocale call_invariant \<subseteq> clock: kill_invariant P "env\<lparr>ev_now := t\<rparr>" for t
  by unfold_locales
    (simp_all add: stable_P ins_at clo_at session_start session_end held_write run_write grants_killed
      held_step.intros held_step_Nil run_step.intros)

context call_invariant
begin

lemma writeAuditEntry: "p_epochId ps = None \<Longrightarrow> keeps P (writeAuditEntry (env\<lparr>ev_now := t\<rparr>) ps)"
  unfolding writeAuditEntry_def by (intro keeps_intros stable_P ins_at)

lemma executeGovernancePipeline:
  "gp_epochId gp = None \<Longrightarrow> keeps P (executeGovernancePipeline (env\<lparr>ev_now := t\<rparr>) lt rd gp)"
  unfolding executeGovernancePipeline_def Let_def
  by (intro keeps_intros writeAuditEntry) (simp add: pipeline_audit_def Let_def case_prod_unfold)

lemma runs: "(\<And>st. run_step (db_runs st) (f st)) \<Longrightarrow> keeps P (modify (\<lambda>st. st\<lparr>db_runs := f st\<rparr>))"
  by (intro keeps_modify run_write)

lemma held: "(\<And>st. held_step (db_held st) (f st)) \<Longrightarrow> keeps P (modify (\<lambda>st. st\<lparr>db_held := f st\<rparr>))"
  by (intro keeps_modify held_write)

lemma consume_task_grant: "keeps P (consume_task_grant env' i)"
  unfolding consume_task_grant_def by (intro keeps_modify grant_used)

lemma consume_matched: "keeps P (consume_matched env' g)"
  unfolding consume_matched_def by (intro keeps_intros consume_task_grant)

lemma insert_held: "keeps P (insert_held row)"
  unfolding insert_held_def
  by (rule keeps_lift_table) (auto intro: held_write held_step.park split: sum.splits)

lemma record_spend: "keeps P (record_spend env' tool sp ps n s wr)"
  unfolding record_spend_def Let_def
  by (rule keeps_bind[OF keeps_fresh_uuid[OF stable_P]]) (auto simp: keeps_def ledger_write split: sum.split)

lemma persist_answered: "keeps P (persist_answered env' h ts)"
  by (simp add: keeps_def persist_answered_def held_write held_step.turn)

lemma writeOutcomeWithSpend:
  "p_epochId ap = None \<Longrightarrow> keeps P (writeOutcomeWithSpend (env\<lparr>ev_now := t\<rparr>) se ap d tool ps answered)"
  unfolding writeOutcomeWithSpend_def Let_def
  by (intro keeps_intros stable_P clo_at persist_answered)
    (auto intro!: keeps_intros record_spend persist_answered split: option.split)

lemma appendActionDetail: "keeps P (appendActionDetail env' r d)"
  unfolding appendActionDetail_def Let_def by (intro keeps_intros runs run_step.detail)

lemma parkInputHold: "keeps P (parkInputHold (env\<lparr>ev_now := t\<rparr>) lt ep s r missing)"
  unfolding parkInputHold_def Let_def
  by (intro keeps_intros writeAuditEntry stable_P insert_held runs run_step.park) (simp add: input_park_params_def)

lemma refuseControlPlane: "ep_epochId ep = None \<Longrightarrow> keeps P (refuseControlPlane (env\<lparr>ev_now := t\<rparr>) w ep s)"
  unfolding refuseControlPlane_def
  by (intro keeps_intros executeGovernancePipeline appendActionDetail) (simp add: governance_params_def)

lemma force_deny: "ep_epochId ep = None \<Longrightarrow> keeps P (force_deny (env\<lparr>ev_now := t\<rparr>) w ep s reason why)"
  unfolding force_deny_def by (intro keeps_intros executeGovernancePipeline) (simp add: governance_params_def)

lemma hold_pending: "keeps P (hold_pending env' ep s g)"
  unfolding hold_pending_def by (intro keeps_intros stable_P insert_held consume_matched)

lemma await: "(\<And>st. P st \<Longrightarrow> P (snd (f st))) \<Longrightarrow> keeps P (await f)"
  unfolding keeps_def await_def by (simp add: case_prod_unfold)

lemma disconnect_service: "keeps P (disconnect_service svc)"
  by (simp add: keeps_def disconnect_service_def disconnected)

lemma dispatchControlPlane: "keeps P (dispatchControlPlane (env\<lparr>ev_now := t\<rparr>) w vb ps)"
  unfolding dispatchControlPlane_def Let_def
  by (intro keeps_intros clock.getActiveSession clock.killSwitch clock.endSession disconnect_service)

lemma dispatchTool:
  assumes "\<And>tool ps st. P st \<Longrightarrow> P (snd (tw_execute w tool ps st))"
  shows "keeps P (dispatchTool (env\<lparr>ev_now := t\<rparr>) w tn ps)"
  unfolding dispatchTool_def by (intro keeps_intros dispatchControlPlane await assms)

lemma governed_call:
  assumes "\<And>tool ps st. P st \<Longrightarrow> P (snd (tw_execute w tool ps st))" "ep_epochId ep = None"
  shows "keeps P (governed_call (env\<lparr>ev_now := t\<rparr>) w ep s)"
proof -
  have "keeps P (dispatch_allowed (env\<lparr>ev_now := t\<rparr>) w ep s g)" for g
    unfolding dispatch_allowed_def Let_def later_clock
    by (intro keeps_intros consume_matched dispatchTool assms(1) writeOutcomeWithSpend appendActionDetail)
      (simp_all add: outcome_params_def assms(2))
  then have "keeps P (case gr_decision g of Pending \<Rightarrow> hold_pending (env\<lparr>ev_now := t\<rparr>) ep s g
     | Deny \<Rightarrow> bind (appendActionDetail (env\<lparr>ev_now := t\<rparr>) (ep_runId ep)
           (action_detail (gr_service g) (gr_verb g) (gr_noun g) (js ''denied''))) (\<lambda>_.
         ret \<lparr>er_governance = g, er_execution = None, er_denyReason = Some PolicyDeny, er_boundaryRefused = False, er_held = None\<rparr>)
     | Allow \<Rightarrow> dispatch_allowed (env\<lparr>ev_now := t\<rparr>) w ep s g)" for g
    by (cases "gr_decision g") (simp_all add: hold_pending keeps_bind[OF appendActionDetail keeps_ret])
  then show ?thesis
    unfolding governed_call_def
    by (intro keeps_intros executeGovernancePipeline) (simp_all add: governance_params_def assms(2))
qed

lemma scope_gate:
  assumes "\<And>tool ps st. P st \<Longrightarrow> P (snd (tw_execute w tool ps st))" "\<And>svc st. P st \<Longrightarrow> P (snd (tw_scopes w svc st))"
    "ep_epochId ep = None"
  shows "keeps P (scope_gate (env\<lparr>ev_now := t\<rparr>) w ep s)"
  unfolding scope_gate_def Let_def later_clock
  by (intro keeps_intros governed_call await force_deny assms)

lemma executeTool:
  assumes "\<And>tool ps st. P st \<Longrightarrow> P (snd (tw_execute w tool ps st))" "\<And>svc st. P st \<Longrightarrow> P (snd (tw_scopes w svc st))"
    "ep_epochId ep = None"
  shows "keeps P (executeTool (env\<lparr>ev_now := t\<rparr>) w ep)"
  unfolding executeTool_def connection_gate_def Let_def
  by (intro keeps_intros clock.reapExpiredSessions clock.resolveActiveSession refuseControlPlane parkInputHold force_deny
      scope_gate assms)

lemma withTurnGate: "keeps P body \<Longrightarrow> keeps P (withTurnGate busy body)"
  unfolding keeps_def withTurnGate_def by (auto simp: marker case_prod_unfold)

end

interpretation chain_calls: call_invariant "chain_ok env" env for env
proof -
  have c: "chain_ok (env\<lparr>ev_now := t\<rparr>) = chain_ok env" for env t by (rule ext) (simp add: chain_ok_def)
  show "call_invariant (chain_ok env) env" for env
    by unfold_locales
      (use stable_chain_ok chain_ok_insert[of _ "env\<lparr>ev_now := _\<rparr>"] chain_ok_close[of _ "env\<lparr>ev_now := _\<rparr>"] in \<open>simp_all add: c\<close>,
        simp_all add: chain_ok_def)
qed

interpretation grant_calls: call_invariant "\<lambda>st. grants_inv (db_policy st)" env for env
  by unfold_locales (auto simp: stable_def intro!: keeps_audit_only intro: grant_step_inv grant_step.consume grant_step.kill)

section \<open>Calls of the external tool\<close>

type_synonym tool_run = "tool_entry \<Rightarrow> params \<Rightarrow> agent \<Rightarrow> execution \<times> agent"

text \<open>A run in which the external tool is called at most once, and then as \<open>P\<close> says: the whole outcome is a fixed
  function of what the tool returns at that one point, its result and the state it leaves.\<close>

definition one_call :: "(tool_run \<Rightarrow> 'r) \<Rightarrow> (tool_entry \<Rightarrow> params \<Rightarrow> agent \<Rightarrow> bool) \<Rightarrow> bool" where
  "one_call run P \<longleftrightarrow> (\<exists>r. \<forall>ex. run ex = r) \<or> (\<exists>tool ps q k. P tool ps q \<and> (\<forall>ex. run ex = k (ex tool ps q)))"

lemma one_call_const [simp]: "one_call (\<lambda>_. r) P"
  by (simp add: one_call_def)

lemma one_call_comp: "one_call run P \<Longrightarrow> one_call (\<lambda>ex. g (run ex)) P"
  unfolding one_call_def
proof (elim disjE exE conjE)
  fix tool ps q k assume "P tool ps q" "\<forall>ex. run ex = k (ex tool ps q)"
  then show "(\<exists>r. \<forall>ex. g (run ex) = r) \<or> (\<exists>tool ps q k. P tool ps q \<and> (\<forall>ex. g (run ex) = k (ex tool ps q)))"
    by (intro disjI2 exI[of _ tool] exI[of _ ps] exI[of _ q] exI[of _ "\<lambda>x. g (k x)"]) simp
qed auto

lemma one_call_mono: "one_call run P \<Longrightarrow> (\<And>tool ps q. P tool ps q \<Longrightarrow> Q tool ps q) \<Longrightarrow> one_call run Q"
  unfolding one_call_def by meson

text \<open>Nothing is called before \<open>f\<close>, and nothing after \<open>m\<close>.\<close>

lemma one_call_bind:
  assumes "\<And>x st1. m st = (Inr x, st1) \<Longrightarrow> one_call (\<lambda>ex. f ex x st1) P"
  shows "one_call (\<lambda>ex. bind m (f ex) st) P"
  using assms by (cases "m st"; cases "fst (m st)") (auto simp: bind_def)

lemma one_call_bind_left: "one_call (\<lambda>ex. m ex st) P \<Longrightarrow> one_call (\<lambda>ex. bind (m ex) f st) P"
  unfolding bind_def by (rule one_call_comp[where run = "\<lambda>ex. m ex st"])

lemma other_tool_fields:
  "tw_lookup (w\<lparr>tw_execute := ex\<rparr>) = tw_lookup w" "tw_readable (w\<lparr>tw_execute := ex\<rparr>) = tw_readable w"
  "tw_show_error (w\<lparr>tw_execute := ex\<rparr>) = tw_show_error w" "tw_scopes (w\<lparr>tw_execute := ex\<rparr>) = tw_scopes w"
  "tw_status (w\<lparr>tw_execute := ex\<rparr>) = tw_status w" "tw_standing (w\<lparr>tw_execute := ex\<rparr>) = tw_standing w"
  "tw_after_scopes (w\<lparr>tw_execute := ex\<rparr>) = tw_after_scopes w" "tw_after_execute (w\<lparr>tw_execute := ex\<rparr>) = tw_after_execute w"
  by simp_all

lemma other_tool_gates [simp]:
  "refuseControlPlane env (w\<lparr>tw_execute := ex\<rparr>) ep s = refuseControlPlane env w ep s"
  "force_deny env (w\<lparr>tw_execute := ex\<rparr>) ep s reason why = force_deny env w ep s reason why"
  "dispatchControlPlane env (w\<lparr>tw_execute := ex\<rparr>) vb ps = dispatchControlPlane env w vb ps"
  "boundary_refuses (w\<lparr>tw_execute := ex\<rparr>) ep = boundary_refuses w ep"
  by (simp_all add: refuseControlPlane_def force_deny_def dispatchControlPlane_def boundary_refuses_def)

text \<open>The tools whose code is outside the engine.\<close>

definition external_tool :: "tool_world \<Rightarrow> jsstr \<Rightarrow> tool_entry \<Rightarrow> bool" where
  "external_tool w tn tool \<longleftrightarrow> tw_lookup w tn = Some tool \<and> te_service tool \<noteq> CONTROL_PLANE_SERVICE"

lemma one_call_dispatchTool:
  "one_call (\<lambda>ex. dispatchTool env (w\<lparr>tw_execute := ex\<rparr>) tn ps st) (\<lambda>tool ps' q. external_tool w tn tool \<and> ps' = ps \<and> q = st)"
proof (cases "\<exists>tool. external_tool w tn tool")
  case True
  then obtain tool where t: "external_tool w tn tool" by blast
  then have "dispatchTool env (w\<lparr>tw_execute := ex\<rparr>) tn ps st = (case ex tool ps st of (x, st') \<Rightarrow> (Inr x, st'))" for ex
    by (simp add: dispatchTool_def external_tool_def await_def)
  then show ?thesis unfolding one_call_def
    by (intro disjI2 exI[of _ tool] exI[of _ ps] exI[of _ st] exI[of _ "\<lambda>(x, st'). (Inr x, st')"]) (simp add: t)
next
  case False
  then have "dispatchTool env (w\<lparr>tw_execute := ex\<rparr>) tn ps st = dispatchTool env w tn ps st" for ex
    by (auto simp: dispatchTool_def external_tool_def split: option.split)
  then show ?thesis by simp
qed

section \<open>Mediation\<close>

definition call_action :: "tool_world \<Rightarrow> execute_params \<Rightarrow> policy_action" where
  "call_action w ep = pipeline_action (tw_lookup w) (governance_params ep [] [] None None)"

lemma pipeline_action_call: "pipeline_action (tw_lookup w) (governance_params ep s es reason ask) = call_action w ep"
  by (simp add: call_action_def pipeline_action_def governance_params_def split: option.split)

text \<open>What has to hold of a call before its tool may run, and what holds when it runs. In the state \<open>st0\<close> in which the
  policy is asked: a live grant of the session names the call's service, verb and noun, none that does so denies, and
  a spending call is within its caps. In the state \<open>q\<close> in which the tool starts: the log is that of \<open>st0\<close> with one
  more row, the allow of this very call, and the task grant that decided is spent.\<close>

definition authorized :: "agent_env \<Rightarrow> jsstr \<Rightarrow> policy_action \<Rightarrow> policy_table \<Rightarrow> bool" where
  "authorized env s a rows \<longleftrightarrow>
     (\<exists>r \<in> set rows. speaks (ev_lower env) (now_iso env) s a r)
     \<and> (\<forall>r \<in> set rows. speaks (ev_lower env) (now_iso env) s a r \<longrightarrow> pe_decision r = EAllow)"

definition allow_row :: "execute_params \<Rightarrow> jsstr \<Rightarrow> policy_action \<Rightarrow> chain_entry \<Rightarrow> bool" where
  "allow_row ep s a row \<longleftrightarrow> decision row = js ''allow'' \<and> decisionEntryId row = None
     \<and> sessionId row = wellFormed s \<and> toolName row = wellFormed (ep_toolName ep)
     \<and> service row = wellFormed (a_service a) \<and> verb row = wellFormed (a_verb a) \<and> noun row = wellFormed (a_noun a)"

definition after_use :: "agent_env \<Rightarrow> policy_decision \<Rightarrow> policy_table \<Rightarrow> policy_table" where
  "after_use env pd rows =
     (case pd_entryId pd of None \<Rightarrow> rows
      | Some i \<Rightarrow> if pd_source pd = FromEntry Task \<and> i \<noteq> [] then consumeTaskGrant i (now_iso env) rows else rows)"

definition dispatched_at :: "agent_env \<Rightarrow> tool_world \<Rightarrow> execute_params \<Rightarrow> jsstr \<Rightarrow> agent \<Rightarrow> agent \<Rightarrow> bool" where
  "dispatched_at env w ep s st0 q \<longleftrightarrow>
     (let a = call_action w ep;
          pd = evaluatePolicy (ev_lower env) (queryPolicyEntries (now_iso env) (Some s) (db_policy st0)) a in
      authorized env s a (db_policy st0)
      \<and> (\<forall>tool spend. tw_lookup w (ep_toolName ep) = Some tool \<and> te_spend tool = Some spend
           \<longrightarrow> affordable env (tw_readable w) spend (ep_toolParams ep) s st0)
      \<and> (\<exists>row. db_audit q = db_audit st0 @ [row] \<and> allow_row ep s a row)
      \<and> db_policy q = after_use env pd (db_policy st0)
      \<and> (\<forall>i. pd_source pd = FromEntry Task \<and> pd_entryId pd = Some i \<and> i \<noteq> [] \<longrightarrow> spent i (db_policy q)))"

text \<open>The state and the clock past the scope check, if it passes.\<close>

definition past_scopes :: "agent_env \<Rightarrow> tool_world \<Rightarrow> execute_params \<Rightarrow> agent \<Rightarrow> (agent_env \<times> agent) option" where
  "past_scopes env w ep st =
     (case tw_lookup w (ep_toolName ep) of None \<Rightarrow> Some (env, st)
      | Some t \<Rightarrow> if te_requiredScopes t = [] then Some (env, st)
          else (case tw_scopes w (te_service t) st of (granted, st0) \<Rightarrow>
            if (case granted of None \<Rightarrow> True | Some gs \<Rightarrow> \<exists>scope \<in> set (te_requiredScopes t). scope \<in> set gs)
            then Some (env\<lparr>ev_now := tw_after_scopes w\<rparr>, st0) else None))"

text \<open>The whole way of a call to its tool, from the state in which \<open>executeTool\<close> is entered.\<close>

definition cleared :: "agent_env \<Rightarrow> tool_world \<Rightarrow> execute_params \<Rightarrow> agent \<Rightarrow> agent_env \<Rightarrow> agent \<Rightarrow> bool" where
  "cleared env w ep st env' q \<longleftrightarrow>
     (\<exists>s st1 st0. resolveActiveSession env (ep_userId ep) (ep_agentId ep)
         (case ep_origin ep of Some u \<Rightarrow> u | None \<Rightarrow> Human) (snd (reapExpiredSessions env st)) = (Inr s, st1)
      \<and> (if isControlPlaneTool (tw_lookup w) (ep_toolName ep) then ep_runOrigin ep = Some InternalRun
         else isServiceConnected (db_services st) (a_service (call_action w ep)))
      \<and> (\<forall>i. present (ep_runId ep) = Some i \<longrightarrow> missingRequiredSlots env (tw_lookup w) (ep_toolName ep) i st1 = [])
      \<and> past_scopes env w ep st1 = Some (env', st0)
      \<and> dispatched_at env' w ep s st0 q)"

lemma force_deny_no_execution: "force_deny env w ep s reason why st = (Inr r, st') \<Longrightarrow> er_execution r = None"
  by (auto simp: force_deny_def elim!: bind_InrE)

lemma parkInputHold_no_execution: "parkInputHold env lt ep s i m st = (Inr r, st') \<Longrightarrow> er_execution r = None"
  by (auto simp: parkInputHold_def Let_def elim!: bind_InrE)

lemma executeTool_prefix:
  assumes "executeTool env w ep st = (Inr r, st')"
  obtains s st1 where "resolveActiveSession env (ep_userId ep) (ep_agentId ep)
      (case ep_origin ep of Some u \<Rightarrow> u | None \<Rightarrow> Human) (snd (reapExpiredSessions env st)) = (Inr s, st1)"
    "(if boundary_refuses w ep
     then refuseControlPlane env w ep s st1 = (Inr r, st')
     else connection_gate env w ep s st1 = (Inr r, st')
       \<or> (\<exists>i m. m \<noteq> [] \<and> parkInputHold env (tw_lookup w) ep s i m st1 = (Inr r, st')))"
proof -
  obtain u st0 s st1 where "reapExpiredSessions env st = (Inr u, st0)"
    and s: "resolveActiveSession env (ep_userId ep) (ep_agentId ep) (case ep_origin ep of Some u \<Rightarrow> u | None \<Rightarrow> Human) st0 = (Inr s, st1)"
    and k: "(if boundary_refuses w ep
     then refuseControlPlane env w ep s
     else bind (read (\<lambda>st. case present (ep_runId ep) of None \<Rightarrow> []
         | Some i \<Rightarrow> missingRequiredSlots env (tw_lookup w) (ep_toolName ep) i st)) (\<lambda>missing.
       case present (ep_runId ep) of
         Some i \<Rightarrow> if missing \<noteq> [] then parkInputHold env (tw_lookup w) ep s i missing else connection_gate env w ep s
       | None \<Rightarrow> connection_gate env w ep s)) st1 = (Inr r, st')"
    using assms unfolding executeTool_def by (elim bind_InrE) blast
  then have "snd (reapExpiredSessions env st) = st0" by simp
  moreover have "if boundary_refuses w ep then refuseControlPlane env w ep s st1 = (Inr r, st')
      else connection_gate env w ep s st1 = (Inr r, st')
       \<or> (\<exists>i m. m \<noteq> [] \<and> parkInputHold env (tw_lookup w) ep s i m st1 = (Inr r, st'))"
  proof (cases "boundary_refuses w ep")
    case True
    then show ?thesis using k by simp
  next
    case False
    then show ?thesis using k
      by (cases "present (ep_runId ep)") (simp_all add: bind_def read_def split: if_splits, blast)
  qed
  ultimately show ?thesis using s that by blast
qed

text \<open>The task grant that decided a call is spent when the call runs.\<close>

lemma consume_matched_effect:
  assumes "consume_matched env g st = (Inr (), st')"
  shows "db_audit st' = db_audit st"
    and "gr_matchedEntryId g = Some i \<Longrightarrow> gr_matchedSource g = Some (FromEntry Task) \<Longrightarrow> i \<noteq> [] \<Longrightarrow>
       db_policy st' = consumeTaskGrant i (now_iso env) (db_policy st)"
  using assms by (auto simp: consume_matched_def consume_task_grant_def modify_def ret_def split: option.splits if_splits)

lemma consume_matched_returns:
  "fst (consume_matched env g st) = Inr ()" "db_audit (snd (consume_matched env g st)) = db_audit st"
  "uuid_count (snd (consume_matched env g st)) = uuid_count st"
  by (auto simp: consume_matched_def consume_task_grant_def modify_def ret_def split: option.split)

lemma decided_task_unique:
  assumes "grants_inv rows" "evaluatePolicy lc (queryPolicyEntries t s rows) a = pd" "pd_entryId pd = Some i"
    "pd_source pd = FromEntry Task" "q \<in> set rows" "pe_id q = i"
  shows "pe_source q = Task"
proof -
  obtain q' where q': "q' \<in> set rows" "pe_id q' = i" "pe_source q' = Task"
    using assms(2-4)
    by (cases lc "queryPolicyEntries t s rows" a rule: evaluatePolicy_cases) (auto simp: set_queryPolicyEntries)
  have "inj_on pe_id (set rows)" using assms(1) by (simp add: grants_inv_def distinct_map)
  then have "q = q'" using q' assms(5,6) by (metis inj_onD)
  then show ?thesis using q' by simp
qed

lemma logged_row:
  "service (new_row env ps d rows) = wellFormed (p_service ps)" "verb (new_row env ps d rows) = wellFormed (p_verb ps)"
  "noun (new_row env ps d rows) = wellFormed (p_noun ps)" "decisionEntryId (new_row env ps d rows) = map_option wellFormed d"
  by (simp_all add: new_row_def link_to_prior_def conditioned_row_def Let_def split: option.split)

lemma allowed_dispatch:
  assumes g: "executeGovernancePipeline env (tw_lookup w) (tw_readable w) (governance_params ep s
       (queryPolicyEntries (now_iso env) (Some s) (db_policy st)) None (Some True)) st = (Inr g, st1)"
    and a: "gr_decision g = Allow" and c: "consume_matched env g st1 = (Inr (), st2)" and inv: "grants_inv (db_policy st)"
  shows "dispatched_at env w ep s st st2"
proof -
  let ?es = "queryPolicyEntries (now_iso env) (Some s) (db_policy st)"
  let ?gp = "governance_params ep s ?es None (Some True)" and ?a = "call_action w ep"
  let ?pd = "evaluatePolicy (ev_lower env) ?es ?a"
  have gp: "gp_entries ?gp = ?es" "gp_toolName ?gp = ep_toolName ep" "gp_params ?gp = ep_toolParams ep" "gp_sessionId ?gp = s"
    by (simp_all add: governance_params_def)
  from g obtain pdo where d: "gr_decision g = fst pdo" "pdo = pipeline_decide env (tw_lookup w) (tw_readable w) ?gp ?pd st"
      "gr_matchedEntryId g = pd_entryId ?pd" "gr_matchedSource g = Some (pd_source ?pd)" "db_policy st1 = db_policy st"
      "db_audit st1 = db_audit st @ [new_row (audit_env_of env (ev_uuid env (uuid_count st)))
         (pipeline_audit env ?gp ?a ?pd pdo) None (db_audit st)]"
    by (elim executeGovernancePipeline_cases) (auto simp: gp pipeline_action_call)
  have alw: "fst (pipeline_decide env (tw_lookup w) (tw_readable w) ?gp ?pd st) = Allow" using a d(1,2) by simp
  then have pd: "pd_decision ?pd = Allow"
    and af: "\<forall>tool spend. tw_lookup w (ep_toolName ep) = Some tool \<longrightarrow> te_spend tool = Some spend
       \<longrightarrow> affordable env (tw_readable w) spend (ep_toolParams ep) s st"
    unfolding pipeline_decide_Allow gp by blast+
  have "allow_row ep s ?a (new_row (audit_env_of env (ev_uuid env (uuid_count st))) (pipeline_audit env ?gp ?a ?pd pdo) None (db_audit st))"
    using a d(1) by (simp add: allow_row_def new_row_content logged_row pipeline_audit_def Let_def case_prod_unfold governance_params_def)
  then have "\<exists>row. db_audit st2 = db_audit st @ [row] \<and> allow_row ep s ?a row"
    using d(6) consume_matched_effect(1)[OF c] by auto
  moreover have "authorized env s ?a (db_policy st)"
    using pd unfolding queried_allow_iff[OF inv] authorized_def .
  moreover have pol: "db_policy st2 = after_use env ?pd (db_policy st)"
    using c d(3-5) by (auto simp: consume_matched_def consume_task_grant_def modify_def ret_def after_use_def split: option.splits if_splits)
  moreover have "spent i (db_policy st2)" if i: "pd_source ?pd = FromEntry Task" "pd_entryId ?pd = Some i" "i \<noteq> []" for i
  proof -
    have "\<forall>q \<in> set (db_policy st). pe_id q = i \<longrightarrow> pe_source q = Task" using decided_task_unique[OF inv refl i(2,1)] by blast
    then show ?thesis using consume_spends i pol by (simp add: after_use_def)
  qed
  ultimately show ?thesis
    using af unfolding dispatched_at_def Let_def by (intro conjI allI impI) (assumption | blast)+
qed

lemma governed_one_call:
  assumes "grants_inv (db_policy st)"
  shows "one_call (\<lambda>ex. governed_call env (w\<lparr>tw_execute := ex\<rparr>) ep s st)
     (\<lambda>tool ps q. external_tool w (ep_toolName ep) tool \<and> ps = ep_toolParams ep \<and> dispatched_at env w ep s st q)"
    (is "one_call _ ?P")
proof -
  have d: "one_call (\<lambda>ex. dispatch_allowed env (w\<lparr>tw_execute := ex\<rparr>) ep s g st1) ?P"
    if g: "executeGovernancePipeline env (tw_lookup w) (tw_readable w) (governance_params ep s
       (queryPolicyEntries (now_iso env) (Some s) (db_policy st)) None (Some True)) st = (Inr g, st1)" "gr_decision g = Allow" for g st1
    unfolding dispatch_allowed_def Let_def other_tool_fields
  proof (rule one_call_bind, rule one_call_bind_left)
    fix u st2 assume "consume_matched env g st1 = (Inr u, st2)"
    then have "dispatched_at env w ep s st st2" using allowed_dispatch[OF g] assms by simp
    then show "one_call (\<lambda>ex. dispatchTool env (w\<lparr>tw_execute := ex\<rparr>) (ep_toolName ep) (ep_toolParams ep) st2) ?P"
      by (intro one_call_mono[OF one_call_dispatchTool]) auto
  qed
  show ?thesis
    unfolding governed_call_def other_tool_fields
  proof (rule one_call_bind, rule one_call_bind)
    fix es st0 g st1 assume "read (\<lambda>st. queryPolicyEntries (now_iso env) (Some s) (db_policy st)) st = (Inr es, st0)"
      and "executeGovernancePipeline env (tw_lookup w) (tw_readable w) (governance_params ep s es None (Some True)) st0 = (Inr g, st1)"
    then show "one_call (\<lambda>ex. (case gr_decision g of Pending \<Rightarrow> hold_pending env ep s g
     | Deny \<Rightarrow> bind (appendActionDetail env (ep_runId ep) (action_detail (gr_service g) (gr_verb g) (gr_noun g) (js ''denied''))) (\<lambda>_.
         ret \<lparr>er_governance = g, er_execution = None, er_denyReason = Some PolicyDeny, er_boundaryRefused = False, er_held = None\<rparr>)
     | Allow \<Rightarrow> dispatch_allowed env (w\<lparr>tw_execute := ex\<rparr>) ep s g) st1) ?P"
      using d by (cases "gr_decision g") (auto simp: read_def)
  qed
qed

lemma governed_call_executed:
  assumes "governed_call env w ep s st = (Inr r, st')" "er_execution r = Some x" "grants_inv (db_policy st)"
  shows "\<exists>q. dispatched_at env w ep s st q \<and> fst (dispatchTool env w (ep_toolName ep) (ep_toolParams ep) q) = Inr x"
proof -
  obtain g st1 where g: "executeGovernancePipeline env (tw_lookup w) (tw_readable w) (governance_params ep s
       (queryPolicyEntries (now_iso env) (Some s) (db_policy st)) None (Some True)) st = (Inr g, st1)"
    and k: "(case gr_decision g of Pending \<Rightarrow> hold_pending env ep s g
     | Deny \<Rightarrow> bind (appendActionDetail env (ep_runId ep) (action_detail (gr_service g) (gr_verb g) (gr_noun g) (js ''denied''))) (\<lambda>_.
         ret \<lparr>er_governance = g, er_execution = None, er_denyReason = Some PolicyDeny, er_boundaryRefused = False, er_held = None\<rparr>)
     | Allow \<Rightarrow> dispatch_allowed env w ep s g) st1 = (Inr r, st')"
    using assms(1) unfolding governed_call_def by (auto elim!: bind_InrE)
  have a: "gr_decision g = Allow"
    using k assms(2) by (cases "gr_decision g") (auto simp: hold_pending_def elim!: bind_InrE)
  then obtain u st2 st3 y where c: "consume_matched env g st1 = (Inr u, st2)"
      "dispatchTool env w (ep_toolName ep) (ep_toolParams ep) st2 = (Inr y, st3)" "er_execution r = Some y"
    using k unfolding dispatch_allowed_def Let_def by (auto elim!: bind_InrE)
  moreover have "dispatched_at env w ep s st st2" using allowed_dispatch[OF g a _ assms(3)] c(1) by simp
  ultimately show ?thesis using assms(2) by (intro exI[of _ st2]) simp
qed

lemma scope_gate_cases:
  "past_scopes env w ep st = None \<longrightarrow> (\<exists>env' reason st0. \<forall>ex. scope_gate env (w\<lparr>tw_execute := ex\<rparr>) ep s st
      = force_deny env' w ep s reason NeedsAuthorization st0)"
  "past_scopes env w ep st = Some (env', st0) \<longrightarrow>
     scope_gate env (w\<lparr>tw_execute := ex\<rparr>) ep s st = governed_call env' (w\<lparr>tw_execute := ex\<rparr>) ep s st0"
  by (auto simp: past_scopes_def scope_gate_def Let_def bind_def await_def split: option.splits prod.splits if_splits)

lemma past_scopes_state:
  "past_scopes env w ep st = Some (env', st0) \<Longrightarrow> st0 = st \<or> (\<exists>svc. st0 = snd (tw_scopes w svc st))"
  by (auto simp: past_scopes_def split: option.splits prod.splits if_splits) (metis snd_conv)+

interpretation no_new_holds: session_invariant "\<lambda>st. set (db_held st) \<subseteq> H" env for H env
  by unfold_locales (auto simp: stable_def deleteHeldToolCall_def delete_where_def intro!: keeps_audit_only)

text \<open>Finding the session leaves the grants, the services and the ledger alone and adds no hold.\<close>

lemma session_prefix:
  assumes "resolveActiveSession env u a orig (snd (reapExpiredSessions env st)) = (Inr s, st1)"
  shows "db_policy st1 = db_policy st" "untouched st st1" "set (db_held st1) \<subseteq> set (db_held st)"
proof -
  let ?st0 = "snd (reapExpiredSessions env st)"
  have st1: "st1 = snd (resolveActiveSession env u a orig ?st0)" using assms by simp
  show "db_policy st1 = db_policy st"
    unfolding st1 by (rule keepsD[OF policy_frame.resolveActiveSession keepsD[OF policy_frame.reapExpiredSessions]]) simp
  show "untouched st st1"
    unfolding st1 by (rule keepsD[OF rest.resolveActiveSession keepsD[OF rest.reapExpiredSessions]]) (simp add: untouched_def)
  show "set (db_held st1) \<subseteq> set (db_held st)"
    unfolding st1 by (rule keepsD[OF no_new_holds.resolveActiveSession keepsD[OF no_new_holds.reapExpiredSessions]]) simp
qed

lemma refuseControlPlane_no_execution: "refuseControlPlane env w ep s st = (Inr r, st') \<Longrightarrow> er_execution r = None"
  by (auto simp: refuseControlPlane_def elim!: bind_InrE)

text \<open>The way from the entry of \<open>executeTool\<close> to the gates.\<close>

lemma after_gates:
  assumes pre: "resolveActiveSession env (ep_userId ep) (ep_agentId ep)
      (case ep_origin ep of Some u \<Rightarrow> u | None \<Rightarrow> Human) (snd (reapExpiredSessions env st)) = (Inr s, st1)"
    and nb: "\<not> boundary_refuses w ep"
    and slots: "\<forall>i. present (ep_runId ep) = Some i \<longrightarrow> missingRequiredSlots env (tw_lookup w) (ep_toolName ep) i st1 = []"
    and con: "a_service (call_action w ep) = CONTROL_PLANE_SERVICE \<or> isServiceConnected (db_services st1) (a_service (call_action w ep))"
    and ps: "past_scopes env w ep st1 = Some (env', st0)" and q: "dispatched_at env' w ep s st0 q"
  shows "cleared env w ep st env' q"
proof -
  have "if isControlPlaneTool (tw_lookup w) (ep_toolName ep) then ep_runOrigin ep = Some InternalRun
      else isServiceConnected (db_services st) (a_service (call_action w ep))"
    using nb con session_prefix(2)[OF pre]
    by (auto simp: boundary_refuses_def isControlPlaneTool_def controlPlaneAllowed_def untouched_def CONTROL_PLANE_SERVICE_def
        js_def call_action_def pipeline_action_def governance_params_def split: option.splits)
  then show ?thesis using pre slots ps q unfolding cleared_def by blast
qed

lemma connection_gate_service:
  "connection_gate env w ep s = bind (read (\<lambda>st. isServiceConnected (db_services st) (a_service (call_action w ep)))) (\<lambda>connected.
      if a_service (call_action w ep) \<noteq> CONTROL_PLANE_SERVICE \<and> \<not> connected
      then force_deny env w ep s (js ''Service not connected: '' @ a_service (call_action w ep)) NotConnected
      else scope_gate env w ep s)"
proof -
  have "a_service (call_action w ep) = (case tw_lookup w (ep_toolName ep) of Some t \<Rightarrow> te_service t | None \<Rightarrow> js ''unknown'')"
    by (simp add: call_action_def pipeline_action_def governance_params_def split: option.split)
  then show ?thesis unfolding connection_gate_def Let_def by (simp only:)
qed

lemma call_action_other [simp]: "call_action (w\<lparr>tw_execute := ex\<rparr>) ep = call_action w ep"
  by (simp add: call_action_def)

lemma grants_inv_scoped:
  assumes "past_scopes env w ep st1 = Some (env', st0)" "grants_inv (db_policy st1)"
    "\<forall>svc q. grants_inv (db_policy q) \<longrightarrow> grants_inv (db_policy (snd (tw_scopes w svc q)))"
  shows "grants_inv (db_policy st0)"
  using past_scopes_state[OF assms(1)] assms(2,3) by auto

lemma executeTool_one_call:
  assumes "grants_inv (db_policy st)"
    and sc: "\<forall>svc q. grants_inv (db_policy q) \<longrightarrow> grants_inv (db_policy (snd (tw_scopes w svc q)))"
  shows "one_call (\<lambda>ex. executeTool env (w\<lparr>tw_execute := ex\<rparr>) ep st)
    (\<lambda>tool ps q. external_tool w (ep_toolName ep) tool \<and> ps = ep_toolParams ep \<and> (\<exists>env'. cleared env w ep st env' q))"
    (is "one_call _ ?P")
proof -
  have gates: "one_call (\<lambda>ex. connection_gate env (w\<lparr>tw_execute := ex\<rparr>) ep s st1) ?P"
    if pre: "resolveActiveSession env (ep_userId ep) (ep_agentId ep)
        (case ep_origin ep of Some u \<Rightarrow> u | None \<Rightarrow> Human) (snd (reapExpiredSessions env st)) = (Inr s, st1)"
      and nb: "\<not> boundary_refuses w ep"
      and slots: "\<forall>i. present (ep_runId ep) = Some i \<longrightarrow> missingRequiredSlots env (tw_lookup w) (ep_toolName ep) i st1 = []" for s st1
  proof (cases "a_service (call_action w ep) = CONTROL_PLANE_SERVICE \<or> isServiceConnected (db_services st1) (a_service (call_action w ep))")
    case True
    then have c: "connection_gate env (w\<lparr>tw_execute := ex\<rparr>) ep s st1 = scope_gate env (w\<lparr>tw_execute := ex\<rparr>) ep s st1" for ex
      by (auto simp: connection_gate_service bind_def read_def)
    show ?thesis
    proof (cases "past_scopes env w ep st1")
      case None
      then obtain env' reason st0 where "\<forall>ex. scope_gate env (w\<lparr>tw_execute := ex\<rparr>) ep s st1
          = force_deny env' w ep s reason NeedsAuthorization st0"
        using scope_gate_cases(1) by blast
      then show ?thesis unfolding c by simp
    next
      case (Some y)
      then obtain env' st0 where y: "past_scopes env w ep st1 = Some (env', st0)" by force
      have e: "scope_gate env (w\<lparr>tw_execute := ex\<rparr>) ep s st1 = governed_call env' (w\<lparr>tw_execute := ex\<rparr>) ep s st0" for ex
        using scope_gate_cases(2) y by blast
      have "grants_inv (db_policy st0)" using grants_inv_scoped[OF y _ sc] session_prefix(1)[OF pre] assms(1) by simp
      then show ?thesis unfolding c e
        using after_gates[OF pre nb slots True y] by (intro one_call_mono[OF governed_one_call]) blast+
    qed
  next
    case False
    then show ?thesis by (simp add: connection_gate_service bind_def read_def)
  qed
  show ?thesis
    unfolding executeTool_def other_tool_fields other_tool_gates
  proof (rule one_call_bind, rule one_call_bind)
    fix u sta s st1
    assume "reapExpiredSessions env st = (Inr u, sta)" and r: "resolveActiveSession env (ep_userId ep) (ep_agentId ep)
        (case ep_origin ep of Some u \<Rightarrow> u | None \<Rightarrow> Human) sta = (Inr s, st1)"
    then have pre: "resolveActiveSession env (ep_userId ep) (ep_agentId ep)
        (case ep_origin ep of Some u \<Rightarrow> u | None \<Rightarrow> Human) (snd (reapExpiredSessions env st)) = (Inr s, st1)" by simp
    show "one_call (\<lambda>ex. (if boundary_refuses w ep then refuseControlPlane env w ep s
     else bind (read (\<lambda>st. case present (ep_runId ep) of None \<Rightarrow> []
         | Some i \<Rightarrow> missingRequiredSlots env (tw_lookup w) (ep_toolName ep) i st)) (\<lambda>missing.
       case present (ep_runId ep) of
         Some i \<Rightarrow> if missing \<noteq> [] then parkInputHold env (tw_lookup w) ep s i missing else connection_gate env (w\<lparr>tw_execute := ex\<rparr>) ep s
       | None \<Rightarrow> connection_gate env (w\<lparr>tw_execute := ex\<rparr>) ep s)) st1) ?P"
      using gates[OF pre] by (cases "boundary_refuses w ep"; cases "present (ep_runId ep)";
          cases "missingRequiredSlots env (tw_lookup w) (ep_toolName ep) (the (present (ep_runId ep))) st1 = []")
        (simp_all add: bind_def read_def)
  qed
qed

lemma executeTool_executed:
  assumes e: "executeTool env w ep st = (Inr r, st')" and x: "er_execution r = Some x" and inv: "grants_inv (db_policy st)"
    and sc: "\<forall>svc q. grants_inv (db_policy q) \<longrightarrow> grants_inv (db_policy (snd (tw_scopes w svc q)))"
  shows "\<exists>env' q. cleared env w ep st env' q \<and> fst (dispatchTool env' w (ep_toolName ep) (ep_toolParams ep) q) = Inr x"
proof -
  obtain u sta s st1 where "reapExpiredSessions env st = (Inr u, sta)"
    and "resolveActiveSession env (ep_userId ep) (ep_agentId ep) (case ep_origin ep of Some u \<Rightarrow> u | None \<Rightarrow> Human) sta = (Inr s, st1)"
    and k: "(if boundary_refuses w ep then refuseControlPlane env w ep s
     else bind (read (\<lambda>st. case present (ep_runId ep) of None \<Rightarrow> []
         | Some i \<Rightarrow> missingRequiredSlots env (tw_lookup w) (ep_toolName ep) i st)) (\<lambda>missing.
       case present (ep_runId ep) of
         Some i \<Rightarrow> if missing \<noteq> [] then parkInputHold env (tw_lookup w) ep s i missing else connection_gate env w ep s
       | None \<Rightarrow> connection_gate env w ep s)) st1 = (Inr r, st')"
    using e unfolding executeTool_def by (elim bind_InrE) blast
  then have pre: "resolveActiveSession env (ep_userId ep) (ep_agentId ep)
      (case ep_origin ep of Some u \<Rightarrow> u | None \<Rightarrow> Human) (snd (reapExpiredSessions env st)) = (Inr s, st1)" by simp
  have nb: "\<not> boundary_refuses w ep" using k x refuseControlPlane_no_execution by (auto split: if_splits)
  have cg: "connection_gate env w ep s st1 = (Inr r, st')"
    and slots: "\<forall>i. present (ep_runId ep) = Some i \<longrightarrow> missingRequiredSlots env (tw_lookup w) (ep_toolName ep) i st1 = []"
    using k nb x parkInputHold_no_execution by (auto simp: bind_def read_def split: option.splits if_splits)
  let ?a = "call_action w ep"
  have con: "a_service ?a = CONTROL_PLANE_SERVICE \<or> isServiceConnected (db_services st1) (a_service ?a)"
    and sg: "scope_gate env w ep s st1 = (Inr r, st')"
    using cg x force_deny_no_execution by (auto simp: connection_gate_service bind_def read_def split: if_splits)
  show ?thesis
  proof (cases "past_scopes env w ep st1")
    case None
    then obtain env' reason st0 where "\<forall>ex. scope_gate env (w\<lparr>tw_execute := ex\<rparr>) ep s st1
        = force_deny env' w ep s reason NeedsAuthorization st0"
      using scope_gate_cases(1) by blast
    then have "scope_gate env (w\<lparr>tw_execute := tw_execute w\<rparr>) ep s st1 = force_deny env' w ep s reason NeedsAuthorization st0" by blast
    then have "force_deny env' w ep s reason NeedsAuthorization st0 = (Inr r, st')" using sg by simp
    then have "er_execution r = None" by (rule force_deny_no_execution)
    then show ?thesis using x by simp
  next
    case (Some y)
    then obtain env' st0 where y: "past_scopes env w ep st1 = Some (env', st0)" by force
    have "scope_gate env (w\<lparr>tw_execute := tw_execute w\<rparr>) ep s st1 = governed_call env' (w\<lparr>tw_execute := tw_execute w\<rparr>) ep s st0"
      using scope_gate_cases(2) y by blast
    then have g: "governed_call env' w ep s st0 = (Inr r, st')" using sg by simp
    have "grants_inv (db_policy st0)" using grants_inv_scoped[OF y _ sc] session_prefix(1)[OF pre] inv by simp
    then obtain q where "dispatched_at env' w ep s st0 q" "fst (dispatchTool env' w (ep_toolName ep) (ep_toolParams ep) q) = Inr x"
      using governed_call_executed[OF g x] by blast
    then show ?thesis using after_gates[OF pre nb slots con y] by blast
  qed
qed

section \<open>Properties\<close>

text \<open>C1: Complete mediation: in a run of \<open>executeTool\<close> an external tool is called at most once (the whole outcome, result
  and state, is a fixed function of what the tool returns and leaves at one point), namely the tool the call names,
  with the parameters of the call, and only in a state \<open>q\<close> that this run has cleared: in the session the run resolved
  a live grant names the call's service, verb and noun and no deny grant does, a spending call is within its caps, the
  scopes and required slots are there, the service is connected; the log then has just grown by the allow row of this
  very call, and the task grant that decided is already spent. Whenever an execution is reported at all, also of a
  control-plane tool, the dispatch ran in such a state and reported it, and a control-plane call came from the
  internal surface. This holds whatever the tool and the requests served during an await do, as long as they issue
  their own policy writes through the engine.\<close>

theorem tool_needs_grant:
  assumes "grants_inv (db_policy st)"
    "\<forall>svc q. grants_inv (db_policy q) \<longrightarrow> grants_inv (db_policy (snd (tw_scopes w svc q)))"
  shows "one_call (\<lambda>ex. executeTool env (w\<lparr>tw_execute := ex\<rparr>) ep st)
       (\<lambda>tool ps q. external_tool w (ep_toolName ep) tool \<and> ps = ep_toolParams ep \<and> (\<exists>env'. cleared env w ep st env' q))
     \<and> (\<forall>r st' x. executeTool env w ep st = (Inr r, st') \<and> er_execution r = Some x \<longrightarrow>
          (\<exists>env' q. cleared env w ep st env' q
             \<and> fst (dispatchTool env' w (ep_toolName ep) (ep_toolParams ep) q) = Inr x))"
  using executeTool_one_call[OF assms] executeTool_executed[OF _ _ assms] by blast

subsection \<open>A call that goes through\<close>

definition ex_tool :: tool_entry where
  "ex_tool = ex_shop\<lparr>te_spend := None\<rparr>"

definition ex_world :: tool_world where
  "ex_world = \<lparr>tw_lookup = (\<lambda>_. Some ex_tool), tw_readable = True, tw_show_error = (\<lambda>_. []), tw_scopes = (\<lambda>_ st. (None, st)),
     tw_execute = (\<lambda>_ _ st. (ok_with JNull, st)), tw_status = (\<lambda>_. JNull), tw_standing = (\<lambda>_. JNull), tw_after_scopes = 1000,
     tw_after_execute = 2000\<rparr>"

definition ex_ep :: execute_params where
  "ex_ep = \<lparr>ep_toolName = js ''t'', ep_toolParams = [(js ''to'', JStr (js ''bob''))], ep_userId = js ''u'', ep_agentId = js ''main'',
     ep_origin = None, ep_runOrigin = None, ep_runId = None, ep_epochId = None, ep_timestamp = None\<rparr>"

definition ex_env1 :: agent_env where
  "ex_env1 = ex_agent_env\<lparr>ev_now := 1000\<rparr>"

definition ex_ready :: agent where
  "ex_ready = ex_agent\<lparr>db_services := [\<lparr>sv_service = js ''gmail'', sv_connected_at = iso 0, sv_credential = None\<rparr>]\<rparr>"

lemma ex_ready_session:
  "reapExpiredSessions ex_env1 ex_ready = (Inr (), ex_ready)"
  "resolveActiveSession ex_env1 u a orig ex_ready = (Inr (js ''s1''), ex_ready)"
  by (simp_all add: resolveActiveSession_def reapExpiredSessions_def reap_session_def bind_def read_def ret_def txn_def Let_def
      ex_ready_def ex_agent_def ex_env1_def ex_agent_env_def selectOpenSessions_def selectActiveSession_def sessionStartedAt_def
      readSessionStartedAt_def read_session_def first_row_def SESSION_LIFETIME_MS_def order_desc_def order_asc_def)

lemma pipeline_total:
  assumes "chain_ok env st" "gp_epochId gp = None" "wellFormed (ev_uuid env (uuid_count st)) \<notin> entryId ` set (db_audit st)"
  shows "\<exists>g st'. executeGovernancePipeline env lt rd gp st = (Inr g, st')"
proof -
  let ?a = "pipeline_action lt gp"
  let ?pd = "evaluatePolicy (ev_lower env) (gp_entries gp) ?a"
  let ?ap = "pipeline_audit env gp ?a ?pd (pipeline_decide env lt rd gp ?pd st)"
  let ?env = "audit_env_of env (ev_uuid env (uuid_count st))"
  have "p_epochId ?ap = None" by (simp add: pipeline_audit_def Let_def case_prod_unfold assms(2))
  then obtain w rows where "insertRow ?env ?ap None (db_audit st) = Inr (w, rows)"
    using insertRow_total[of ?env "db_audit st" ?ap None] assms(1,3) ascii_today[of env "ev_uuid env (uuid_count st)"]
    by (auto simp: chain_ok_def)
  then show ?thesis
    by (simp add: executeGovernancePipeline_def Let_def bind_def read_def writeAuditEntry_def txn_def insert_audit_def
        fresh_uuid_def insertAuditEntryInTxn_def ret_def)
qed

lemma outcome_total:
  assumes "chain_ok env st" "p_epochId ap = None" "wellFormed (ev_uuid env (uuid_count st)) \<notin> entryId ` set (db_audit st)"
    "te_spend t = None"
  shows "\<exists>w st'. writeOutcomeWithSpend env se ap d (Some t) ps None st = (Inr w, st')"
proof -
  let ?env = "audit_env_of env (ev_uuid env (uuid_count st))"
  obtain w rows where i: "insertRow ?env ap (Some d) (db_audit st) = Inr (w, rows)"
    using insertRow_total[of ?env "db_audit st" ap "Some d"] assms(1,2,3) ascii_today[of env "ev_uuid env (uuid_count st)"]
    by (auto simp: chain_ok_def)
  show ?thesis using close_decision_observed[OF i] assms(4)
    by (simp add: writeOutcomeWithSpend_def Let_def bind_def txn_def ret_def centsFromSpend_def)
qed

lemma ex_execute: "\<exists>r st'. executeTool ex_env1 ex_world ex_ep ex_ready = (Inr r, st') \<and> er_execution r = Some (ok_with JNull)"
proof -
  let ?gp = "governance_params ex_ep (js ''s1'') (queryPolicyEntries (now_iso ex_env1) (Some (js ''s1'')) (db_policy ex_ready)) None (Some True)"
  have st: "db_audit ex_ready = []" "uuid_count ex_ready = 0" "db_policy ex_ready = db_policy ex_agent"
    by (simp_all add: ex_ready_def ex_agent_def)
  have c: "chain_ok ex_env1 ex_ready" by (simp add: chain_ok_def st log_inv_Nil)
  have w: "tw_lookup ex_world = (\<lambda>_. Some ex_tool)" "te_spend ex_tool = None" "te_requiredScopes ex_tool = []"
      "te_service ex_tool = js ''gmail''" "te_verb ex_tool = js ''send''" "te_nounExtractor ex_tool = (\<lambda>_. js ''mail'')"
      "tw_execute ex_world = (\<lambda>_ _ st. (ok_with JNull, st))"
    by (simp_all add: ex_world_def ex_tool_def ex_shop_def)
  have ncp: "js ''gmail'' \<noteq> CONTROL_PLANE_SERVICE" by (simp add: CONTROL_PLANE_SERVICE_def js_def)
  have epoch: "gp_epochId ?gp = None" by (simp add: governance_params_def ex_ep_def)
  obtain g st1 where g: "executeGovernancePipeline ex_env1 (tw_lookup ex_world) (tw_readable ex_world) ?gp ex_ready = (Inr g, st1)"
    using pipeline_total[OF c epoch] st(1) by (metis empty_iff empty_set image_empty)
  have pd: "pd_decision (evaluatePolicy (ev_lower ex_env1) (gp_entries ?gp) (pipeline_action (tw_lookup ex_world) ?gp)) = Allow"
    using ex_policy_allows[of "pipeline_action (tw_lookup ex_world) ?gp"]
    by (simp add: governance_params_def pipeline_action_def w ex_env1_def ex_agent_env_def st)
  from g have a: "gr_decision g = Allow" and st1: "uuid_count st1 = 1" "\<exists>row. db_audit st1 = [row] \<and> entryId row = wellFormed (js_of_nat 0)"
    using pd w by (auto elim!: executeGovernancePipeline_cases simp: pipeline_decide_Allow st ex_env1_def ex_agent_env_def)
  have c1: "chain_ok ex_env1 st1"
    using keepsD[OF chain_calls.executeGovernancePipeline[of ?gp ex_env1 "ev_now ex_env1", OF epoch] c,
        of "tw_lookup ex_world" "tw_readable ex_world"] g by simp
  obtain st2 where st2: "consume_matched ex_env1 g st1 = (Inr (), st2)" "db_audit st2 = db_audit st1" "uuid_count st2 = uuid_count st1"
    using consume_matched_returns[of ex_env1 g st1] by (metis prod.collapse)
  let ?env = "ex_env1\<lparr>ev_now := tw_after_execute ex_world\<rparr>"
  have d: "dispatchTool ex_env1 ex_world (ep_toolName ex_ep) (ep_toolParams ex_ep) st2 = (Inr (ok_with JNull), st2)"
    by (simp add: dispatchTool_def w ncp await_def)
  have c2: "chain_ok ?env st2" using c1 st2 by (simp add: chain_ok_def)
  have "wellFormed (js_of_nat 1) \<noteq> wellFormed (js_of_nat 0)" by code_simp
  then have f: "wellFormed (ev_uuid ?env (uuid_count st2)) \<notin> entryId ` set (db_audit st2)"
    using st1 st2 by (auto simp: ex_env1_def ex_agent_env_def)
  obtain wr st3 where o: "writeOutcomeWithSpend ?env (tw_show_error ex_world) (outcome_params ?env ex_ep (js ''s1'') g (ok_with JNull))
      (r_id (gr_auditEntry g)) (Some ex_tool) (ep_toolParams ex_ep) None st2 = (Inr wr, st3)"
    using outcome_total[OF c2 _ f w(2)] by (metis (no_types, lifting) audit_params.select_convs(15) ex_ep_def execute_params.select_convs(8) outcome_params_def)
  have gc: "\<exists>r st'. governed_call ex_env1 ex_world ex_ep (js ''s1'') ex_ready = (Inr r, st') \<and> er_execution r = Some (ok_with JNull)"
    using g a st2 d o
    by (simp add: governed_call_def dispatch_allowed_def bind_def read_def Let_def ret_def w(1) appendActionDetail_def present_def ex_ep_def)
  have "connection_gate ex_env1 ex_world ex_ep (js ''s1'') ex_ready = governed_call ex_env1 ex_world ex_ep (js ''s1'') ex_ready"
    by (simp add: connection_gate_def scope_gate_def w bind_def read_def isServiceConnected_def ex_ready_def Let_def)
  moreover have "\<not> boundary_refuses ex_world ex_ep" by (simp add: boundary_refuses_def isControlPlaneTool_def w ncp)
  moreover have "present (ep_runId ex_ep) = None" by (simp add: present_def ex_ep_def)
  ultimately show ?thesis using gc by (simp add: executeTool_def bind_def read_def ex_ready_session)
qed

theorem tool_needs_grant_witness:
  "\<exists>r st' env' q. executeTool ex_env1 ex_world ex_ep ex_ready = (Inr r, st') \<and> er_execution r = Some (ok_with JNull)
     \<and> cleared ex_env1 ex_world ex_ep ex_ready env' q"
proof -
  obtain r st' where e: "executeTool ex_env1 ex_world ex_ep ex_ready = (Inr r, st')" "er_execution r = Some (ok_with JNull)"
    using ex_execute by blast
  have "grants_inv (db_policy ex_ready)" using ex_grants_inv by (simp add: ex_ready_def)
  moreover have "\<forall>svc q. grants_inv (db_policy q) \<longrightarrow> grants_inv (db_policy (snd (tw_scopes ex_world svc q)))"
    by (simp add: ex_world_def)
  ultimately show ?thesis using tool_needs_grant e by blast
qed

text \<open>C9: A call that reports no execution ran no external tool: its result and the whole state it leaves are
  the same for every behaviour the external tool could have had. This covers denials, holds, missing
  slots, unconnected services, missing scopes and the boundary refusal at once.\<close>

theorem refused_call_runs_nothing:
  assumes "executeTool env w ep st = (Inr r, st')" "er_execution r = None"
  shows "executeTool env (w\<lparr>tw_execute := f\<rparr>) ep st = (Inr r, st')"
proof -
  let ?w = "w\<lparr>tw_execute := f\<rparr>"
  have same: "refuseControlPlane env' ?w ep s = refuseControlPlane env' w ep s"
      "force_deny env' ?w ep s reason why = force_deny env' w ep s reason why" for env' s reason why
    by (simp_all add: refuseControlPlane_def force_deny_def)
  have gov: "governed_call env' ?w ep s q = (Inr r, st')" if k: "governed_call env' w ep s q = (Inr r, st')" for env' s q
  proof -
    obtain g st1 where g: "executeGovernancePipeline env' (tw_lookup w) (tw_readable w) (governance_params ep s
         (queryPolicyEntries (now_iso env') (Some s) (db_policy q)) None (Some True)) q = (Inr g, st1)"
      using k unfolding governed_call_def by (auto elim!: bind_InrE)
    have "gr_decision g \<noteq> Allow"
    proof
      assume "gr_decision g = Allow"
      then have "dispatch_allowed env' w ep s g st1 = (Inr r, st')" using k g by (simp add: governed_call_def bind_def read_def)
      then show False using assms(2) by (auto simp: dispatch_allowed_def Let_def elim!: bind_InrE)
    qed
    then show ?thesis using k g by (cases "gr_decision g") (simp_all add: governed_call_def bind_def read_def)
  qed
  have sg: "scope_gate env ?w ep s q = (Inr r, st')" if k: "scope_gate env w ep s q = (Inr r, st')" for s q
    using k gov by (auto simp: scope_gate_def Let_def bind_def await_def same split: option.splits if_splits prod.splits)
  have cg: "connection_gate env ?w ep s q = (Inr r, st')" if k: "connection_gate env w ep s q = (Inr r, st')" for s q
    using k sg by (auto simp: connection_gate_def Let_def bind_def read_def same split: if_splits)
  have b: "boundary_refuses ?w ep = boundary_refuses w ep" by (simp add: boundary_refuses_def)
  show ?thesis
  proof (cases "boundary_refuses w ep")
    case True
    then show ?thesis using assms(1) by (simp add: executeTool_def same b)
  next
    case False
    obtain u st0 s st1 where pre: "reapExpiredSessions env st = (Inr u, st0)"
        "resolveActiveSession env (ep_userId ep) (ep_agentId ep) (case ep_origin ep of Some u \<Rightarrow> u | None \<Rightarrow> Human) st0 = (Inr s, st1)"
      using assms(1) unfolding executeTool_def by (elim bind_InrE) blast
    show ?thesis
    proof (cases "present (ep_runId ep)")
      case None
      then show ?thesis using assms(1) False pre cg by (simp add: executeTool_def b bind_def read_def)
    next
      case (Some i)
      then show ?thesis using assms(1) False pre cg
        by (cases "missingRequiredSlots env (tw_lookup w) (ep_toolName ep) i st1 = []")
          (simp_all add: executeTool_def b bind_def read_def)
    qed
  qed
qed

text \<open>C10: The control plane is out of reach of every surface but the internal one: a call of a control-plane
  tool from elsewhere is refused, holds nothing, asks nothing and changes neither grants nor services
  nor the ledger, whatever grants there are.\<close>

theorem control_plane_boundary:
  assumes "isControlPlaneTool (tw_lookup w) (ep_toolName ep)" "ep_runOrigin ep \<noteq> Some InternalRun"
    "executeTool env w ep st = (Inr r, st')"
  shows "er_boundaryRefused r \<and> er_execution r = None \<and> er_held r = None \<and> gr_decision (er_governance r) = Deny
     \<and> db_policy st' = db_policy st \<and> db_services st' = db_services st \<and> db_ledger st' = db_ledger st
     \<and> set (db_held st') \<subseteq> set (db_held st)"
proof -
  have b: "boundary_refuses w ep"
    using assms(1,2) by (auto simp: boundary_refuses_def controlPlaneAllowed_def split: option.splits)
  then obtain s st1 where s: "resolveActiveSession env (ep_userId ep) (ep_agentId ep)
      (case ep_origin ep of Some u \<Rightarrow> u | None \<Rightarrow> Human) (snd (reapExpiredSessions env st)) = (Inr s, st1)"
    and k: "refuseControlPlane env w ep s st1 = (Inr r, st')"
    using executeTool_prefix[OF assms(3)] by metis
  let ?gp = "governance_params ep s [] (Some CONTROL_PLANE_REFUSAL) None"
  obtain g st2 st3 where g: "executeGovernancePipeline env (tw_lookup w) (tw_readable w) ?gp st1 = (Inr g, st2)"
    and d: "appendActionDetail env (ep_runId ep) (action_detail (gr_service g) (gr_verb g) (gr_noun g) (js ''denied'')) st2 = (Inr (), st')"
    and r: "r = \<lparr>er_governance = g, er_execution = None, er_denyReason = None, er_boundaryRefused = True, er_held = None\<rparr>"
    using k by (auto simp: refuseControlPlane_def elim!: bind_InrE)
  have "evaluatePolicy (ev_lower env) (gp_entries ?gp) a = \<lparr>pd_decision = Deny, pd_source = Implicit, pd_entryId = None\<rparr>" for a
    by (simp add: governance_params_def evaluatePolicy_def)
  moreover have "gp_askable ?gp = None" by (simp add: governance_params_def)
  ultimately have deny: "gr_decision g = Deny" and st2: "logs_only st1 st2"
    using g by (auto elim!: executeGovernancePipeline_cases simp: pipeline_decide_Deny leaves_def untouched_def)
  have st3: "db_policy st' = db_policy st2" "db_services st' = db_services st2" "db_ledger st' = db_ledger st2" "db_held st' = db_held st2"
    using d by (auto simp: appendActionDetail_def bind_def read_def modify_def ret_def Let_def split: option.splits)
  show ?thesis using session_prefix[OF s] deny st2 st3 r by (auto simp: leaves_def untouched_def)
qed

definition ex_control :: tool_world where
  "ex_control = ex_world\<lparr>tw_lookup := (\<lambda>_. Some (ex_tool\<lparr>te_service := CONTROL_PLANE_SERVICE, te_verb := js ''kill''\<rparr>))\<rparr>"

lemma ex_refused: "\<exists>r st'. executeTool ex_env1 ex_control ex_ep ex_ready = (Inr r, st') \<and> er_execution r = None"
proof -
  let ?gp = "governance_params ex_ep (js ''s1'') [] (Some CONTROL_PLANE_REFUSAL) None"
  have "chain_ok ex_env1 ex_ready" by (simp add: chain_ok_def ex_ready_def ex_agent_def log_inv_Nil)
  then obtain g st1 where g: "executeGovernancePipeline ex_env1 (tw_lookup ex_control) (tw_readable ex_control) ?gp ex_ready = (Inr g, st1)"
    using pipeline_total[of ex_env1 ex_ready ?gp "tw_lookup ex_control" "tw_readable ex_control"]
    by (auto simp: governance_params_def ex_ep_def ex_ready_def ex_agent_def)
  have "boundary_refuses ex_control ex_ep"
    by (simp add: boundary_refuses_def isControlPlaneTool_def ex_control_def controlPlaneAllowed_def ex_ep_def)
  then show ?thesis using g
    by (simp add: executeTool_def bind_def ex_ready_session refuseControlPlane_def appendActionDetail_def present_def ret_def ex_ep_def)
qed

theorem refused_call_runs_nothing_witness:
  "\<exists>r st'. executeTool ex_env1 ex_control ex_ep ex_ready = (Inr r, st')
     \<and> executeTool ex_env1 (ex_control\<lparr>tw_execute := (\<lambda>_ _ st. (failed_with [], st\<lparr>db_policy := []\<rparr>))\<rparr>) ex_ep ex_ready = (Inr r, st')"
  using ex_refused refused_call_runs_nothing by blast

theorem control_plane_boundary_witness:
  "\<exists>r st'. executeTool ex_env1 ex_control ex_ep ex_ready = (Inr r, st') \<and> er_boundaryRefused r
     \<and> db_policy st' = db_policy ex_ready"
proof -
  obtain r st' where e: "executeTool ex_env1 ex_control ex_ep ex_ready = (Inr r, st')" using ex_refused by blast
  have "isControlPlaneTool (tw_lookup ex_control) (ep_toolName ex_ep)" "ep_runOrigin ex_ep \<noteq> Some InternalRun"
    by (simp_all add: isControlPlaneTool_def ex_control_def ex_ep_def)
  then show ?thesis using control_plane_boundary[OF _ _ e] e by blast
qed

end
