(* ===== verification/Resolve.thy ===== *)
theory Resolve
  imports Tools
begin

text \<open>
  Answers to held calls (\<open>packages/engine/src/agent/user-agent.ts\<close>): \<open>resolveConfirmation\<close> with its choice
  restriction, the two recovery branches, denial, approval with its second spend check, dispatch
  behind the durable \<open>dispatched\<close> marker, the resumption of the turn and the record of the run; the
  repair of holds a crash stranded. A held turn is the parsed JSON value the row stores. The
  conversation loop that a resumption re-enters is an action of the environment, which may throw.
  The lemmas show that a held tool is dispatched at most once, only on an affirmative answer, and
  that a spending hold mints no grant.
\<close>

section \<open>Turn states\<close>

text \<open>JavaScript truth of a value.\<close>

fun truthy :: "json \<Rightarrow> bool" where
  "truthy JNull = False"
| "truthy (JBool b) = b"
| "truthy (JNum n) = (case n of Fin q \<Rightarrow> q \<noteq> 0 | NaN \<Rightarrow> False | _ \<Rightarrow> True)"
| "truthy (JStr s) = (s \<noteq> [])"
| "truthy (JArr _) = True"
| "truthy (JObj _) = True"

definition truthy_at :: "json \<Rightarrow> jsstr \<Rightarrow> bool" where
  "truthy_at v k = (case jget v k of Some w \<Rightarrow> truthy w | None \<Rightarrow> False)"

text \<open>A member that the canonical shape types as a string.\<close>

definition text_at :: "json \<Rightarrow> jsstr \<Rightarrow> jsstr" where
  "text_at v k = (case jget v k of Some (JStr s) \<Rightarrow> s | _ \<Rightarrow> [])"

definition member_at :: "json \<Rightarrow> jsstr \<Rightarrow> json" where
  "member_at v k = (case jget v k of Some w \<Rightarrow> w | None \<Rightarrow> JNull)"

text \<open>\<open>{ ...turnState, dispatched: true }\<close> and \<open>{ ...turnState, answered }\<close>; \<open>JSON.stringify\<close> leaves an
  undefined \<open>resolvedError\<close> out.\<close>

definition with_dispatched :: "json \<Rightarrow> json" where
  "with_dispatched state = JObj (obj_set (js ''dispatched'') (JBool True) (own_members state))"

record answer =
  an_result :: json
  an_outcome :: jsstr
  an_error :: "jsstr option"

definition answer_json :: "answer \<Rightarrow> json" where
  "answer_json a = JObj ([(js ''resolvedResult'', an_result a), (js ''resolvedOutcome'', JStr (an_outcome a))]
     @ (case an_error a of None \<Rightarrow> [] | Some e \<Rightarrow> [(js ''resolvedError'', JStr e)]))"

definition with_answered :: "json \<Rightarrow> answer \<Rightarrow> json" where
  "with_answered state a = JObj (obj_set (js ''answered'') (answer_json a) (own_members state))"

definition answer_of :: "json \<Rightarrow> answer" where
  "answer_of v = \<lparr>an_result = member_at v (js ''resolvedResult''), an_outcome = text_at v (js ''resolvedOutcome''),
     an_error = (case jget v (js ''resolvedError'') of Some (JStr e) \<Rightarrow> Some e | _ \<Rightarrow> None)\<rparr>"

definition tool_result :: "jsstr \<Rightarrow> jsstr \<Rightarrow> bool \<Rightarrow> json" where
  "tool_result useId content is_error =
     JObj [(js ''type'', JStr (js ''tool_result'')), (js ''tool_use_id'', JStr useId), (js ''content'', JStr content),
           (js ''is_error'', JBool is_error)]"

text \<open>Any surface other than \<open>internal\<close> is refused the control plane.\<close>

definition heldRunOrigin :: "json \<Rightarrow> jsstr option \<Rightarrow> run_surface" where
  "heldRunOrigin state runId =
     (case jget state (js ''origin'') of
        Some (JStr s) \<Rightarrow> if s = js ''internal'' then InternalRun else if s = js ''commission'' then CommissionRun else HumanRun
      | _ \<Rightarrow> if runId = None then HumanRun else CommissionRun)"

section \<open>untrusted-fence.ts and display text\<close>

definition UNTRUSTED_OPEN_PREFIX :: jsstr where
  "UNTRUSTED_OPEN_PREFIX = js ''<<habenula-untrusted-output ''"

definition UNTRUSTED_CLOSE_PREFIX :: jsstr where
  "UNTRUSTED_CLOSE_PREFIX = js ''<<end-habenula-untrusted-output ''"

definition fence_with :: "jsstr \<Rightarrow> jsstr \<Rightarrow> jsstr" where
  "fence_with nonce content =
     UNTRUSTED_OPEN_PREFIX @ nonce @ js ''>>'' @ [10] @ content @ [10] @ UNTRUSTED_CLOSE_PREFIX @ nonce @ js ''>>''"

definition fenceUntrusted :: "agent_env \<Rightarrow> jsstr \<Rightarrow> jsstr act" where
  "fenceUntrusted env content = bind (fresh_uuid env) (\<lambda>nonce. ret (fence_with nonce content))"

definition MAX_NOUN_LEN :: nat where
  "MAX_NOUN_LEN = 80"

text \<open>The white space of \<open>String.prototype.trim\<close>.\<close>

definition js_space :: "u16 \<Rightarrow> bool" where
  "js_space c \<longleftrightarrow> 9 \<le> c \<and> c \<le> 13 \<or> 0x2000 \<le> c \<and> c \<le> 0x200A
     \<or> c \<in> {32, 0xA0, 0x1680, 0x2028, 0x2029, 0x202F, 0x205F, 0x3000, 0xFEFF}"

definition js_trim :: "jsstr \<Rightarrow> jsstr" where
  "js_trim s = rev (dropWhile js_space (rev (dropWhile js_space s)))"

definition sanitizeNoun :: "jsstr \<Rightarrow> jsstr" where
  "sanitizeNoun nn =
     (let stripped = js_trim (map (\<lambda>c. if c \<le> 0x1F \<or> c = 0x7F then 32 else c) nn) in
      if length stripped > MAX_NOUN_LEN then take MAX_NOUN_LEN stripped @ [0x2026] else stripped)"

definition UNRECOGNIZED_TOOL_NAME :: jsstr where
  "UNRECOGNIZED_TOOL_NAME = js ''<unrecognized>''"

definition registry_name :: "tool_entry \<Rightarrow> jsstr" where
  "registry_name t = te_service t @ js ''_'' @ te_verb t"

definition recordToolName :: "(jsstr \<Rightarrow> tool_entry option) \<Rightarrow> jsstr \<Rightarrow> jsstr" where
  "recordToolName lookupTool raw =
     (case lookupTool raw of None \<Rightarrow> UNRECOGNIZED_TOOL_NAME | Some t \<Rightarrow> registry_name t)"

section \<open>Spend contexts\<close>

text \<open>\<open>None\<close> is \<open>undefined\<close> (an ordinary hold), \<open>Some None\<close> is \<open>null\<close> (a context that does not validate).\<close>

definition spend_reason_of :: "json \<Rightarrow> spend_reason option" where
  "spend_reason_of v =
     (case v of JStr s \<Rightarrow>
        if s = js ''over_limit'' then Some OverLimit else if s = js ''unpriced'' then Some Unpriced
        else if s = js ''totals_unavailable'' then Some TotalsUnavailable else None
      | _ \<Rightarrow> None)"

definition amount_of :: "json option \<Rightarrow> jsnum option option" where
  "amount_of v =
     (case v of Some JNull \<Rightarrow> Some None
      | Some (JNum n) \<Rightarrow> if is_safe_integer n then Some (Some n) else None
      | _ \<Rightarrow> None)"

definition summary_of :: "json option \<Rightarrow> jsstr option option" where
  "summary_of v =
     (case v of None \<Rightarrow> Some None
      | Some (JStr s) \<Rightarrow> if length s \<le> 120 then Some (Some s) else None
      | _ \<Rightarrow> None)"

definition safe_at :: "json \<Rightarrow> jsstr \<Rightarrow> jsnum option" where
  "safe_at v k = (case jget v k of Some (JNum n) \<Rightarrow> if is_safe_integer n then Some n else None | _ \<Rightarrow> None)"

definition breach_of :: "json \<Rightarrow> spend_breach option" where
  "breach_of raw =
     (if \<not> is_object raw then None
      else (case (jget raw (js ''window''), safe_at raw (js ''limitCents''), safe_at raw (js ''spentCents'')) of
         (Some (JStr w), Some cap, Some sofar) \<Rightarrow>
           if w = js ''session'' then Some \<lparr>window = SessionWindow, limitCents = cap, spentCents = sofar\<rparr>
           else if w = js ''month'' then Some \<lparr>window = MonthWindow, limitCents = cap, spentCents = sofar\<rparr>
           else None
       | _ \<Rightarrow> None))"

fun breaches_of :: "json list \<Rightarrow> spend_breach list option" where
  "breaches_of [] = Some []"
| "breaches_of (raw # raws) =
     (case breach_of raw of None \<Rightarrow> None
      | Some b \<Rightarrow> (case breaches_of raws of None \<Rightarrow> None | Some bs \<Rightarrow> Some (b # bs)))"

definition context_of :: "json \<Rightarrow> spend_hold_context option" where
  "context_of c =
     (case (amount_of (jget c (js ''amountCents'')), jget c (js ''reason''), summary_of (jget c (js ''summary'')),
            jget c (js ''breaches'')) of
        (Some amount, Some r, Some summary, Some (JArr raws)) \<Rightarrow>
          (case (spend_reason_of r, breaches_of raws) of
             (Some reason, Some bs) \<Rightarrow>
               Some \<lparr>sh_amountCents = amount, sh_reason = reason, sh_breaches = bs, sh_summary = summary\<rparr>
           | _ \<Rightarrow> None)
      | _ \<Rightarrow> None)"

definition parseSpendContext :: "agent_env \<Rightarrow> jsstr option \<Rightarrow> spend_hold_context option option" where
  "parseSpendContext env raw =
     (case present raw of None \<Rightarrow> None
      | Some t \<Rightarrow> Some (case ev_json_parse env t of None \<Rightarrow> None
          | Some parsed \<Rightarrow> if \<not> is_object parsed then None else context_of parsed))"

section \<open>Results\<close>

record tool_call_record =
  tc_name :: jsstr
  tc_id :: jsstr
  tc_outcome :: jsstr
  tc_error :: "jsstr option"

record conversation_result =
  cr_response :: jsstr
  cr_toolCalls :: "tool_call_record list"
  cr_usage :: "nat \<times> nat"
  cr_iterations :: nat
  cr_held :: "jsstr option"

datatype choice = ChooseDeny | TellMore | ForTask | ForSession | ApproveOnce

datatype resolution = NotFound | Busy | Info jsstr jsstr jsstr jsstr | Resumed conversation_result | InvalidChoice jsstr

text \<open>\<open>commissionTerminalStatus\<close>.\<close>

definition commissionTerminalStatus :: "tool_call_record list \<Rightarrow> run_status" where
  "commissionTerminalStatus calls =
     (let attempted = filter (\<lambda>c. tc_outcome c \<noteq> js ''held'') calls in
      if attempted = [] then Completed
      else if \<exists>c \<in> set attempted. tc_outcome c = js ''success'' then Completed
      else if \<exists>c \<in> set attempted. tc_outcome c = js ''error'' then Failed
      else Denied)"

definition recordRunAfterResolve :: "agent_env \<Rightarrow> jsstr option \<Rightarrow> resolution \<Rightarrow> unit act" where
  "recordRunAfterResolve env runId r =
     (case (present runId, r) of
        (Some i, Resumed res) \<Rightarrow>
          modify (\<lambda>st. st\<lparr>db_runs := updateCommissionStatus i
            (if cr_held res \<noteq> None then AwaitingConfirmation else commissionTerminalStatus (cr_toolCalls res))
            (now_iso env) (db_runs st)\<rparr>)
      | _ \<Rightarrow> ret ())"

section \<open>Resumption\<close>

text \<open>What \<open>resumeHeldTurn\<close> is given, and the world it runs in: its result or the error it throws, and the
  clock when it is done.\<close>

record resume_args =
  ra_turnState :: json
  ra_userId :: jsstr
  ra_agentId :: jsstr
  ra_origin :: audit_origin
  ra_runId :: "jsstr option"
  ra_answer :: answer

record resolve_world =
  rw_tools :: tool_world
  rw_resume :: "resume_args \<Rightarrow> agent \<Rightarrow> (agent_error + conversation_result) \<times> agent"
  rw_after_resume :: int

definition resumeHeldTurn :: "resolve_world \<Rightarrow> resume_args \<Rightarrow> resolution act" where
  "resumeHeldTurn rw ra =
     bind (await (rw_resume rw ra)) (\<lambda>r. case r of Inl e \<Rightarrow> throw e | Inr res \<Rightarrow> ret (Resumed res))"

definition directExecuteResolution :: "(jsstr \<Rightarrow> tool_entry option) \<Rightarrow> json \<Rightarrow> answer \<Rightarrow> resolution" where
  "directExecuteResolution lookupTool state a =
     (let heldCall = member_at state (js ''heldCall'') in
      Resumed \<lparr>cr_response = [],
        cr_toolCalls = [\<lparr>tc_name = recordToolName lookupTool (text_at heldCall (js ''name'')),
          tc_id = text_at heldCall (js ''id''), tc_outcome = an_outcome a, tc_error = an_error a\<rparr>],
        cr_usage = (0, 0), cr_iterations = 0, cr_held = None\<rparr>)"

definition resumeAndFinalize :: "resolve_world \<Rightarrow> jsstr \<Rightarrow> resume_args \<Rightarrow> resolution act" where
  "resumeAndFinalize rw hid ra =
     bind (if truthy_at (ra_turnState ra) (js ''directExecute'')
           then ret (directExecuteResolution (tw_lookup (rw_tools rw)) (ra_turnState ra) (ra_answer ra))
           else resumeHeldTurn rw ra) (\<lambda>r.
     bind (delete_held hid) (\<lambda>_. ret r))"

section \<open>The call that is resolved\<close>

text \<open>The values \<open>resolveConfirmation\<close> derives from the row before it branches.\<close>

record resolving =
  rc_row :: held_row
  rc_state :: json
  rc_name :: jsstr
  rc_useId :: jsstr
  rc_input :: params
  rc_tool :: "tool_entry option"
  rc_service :: jsstr
  rc_verb :: jsstr
  rc_noun :: jsstr
  rc_userId :: jsstr
  rc_agentId :: jsstr
  rc_origin :: audit_origin

definition resolving_of ::
  "(jsstr \<Rightarrow> tool_entry option) \<Rightarrow> held_row \<Rightarrow> json \<Rightarrow> params \<Rightarrow> jsstr \<Rightarrow> jsstr \<Rightarrow> resolving" where
  "resolving_of lookupTool row state heldInput user ag =
     (let heldCall = member_at state (js ''heldCall''); nm = text_at heldCall (js ''name''); registry = lookupTool nm in
      \<lparr>rc_row = row, rc_state = state, rc_name = nm, rc_useId = text_at heldCall (js ''id''), rc_input = heldInput,
       rc_tool = registry,
       rc_service = (case registry of Some t \<Rightarrow> te_service t | None \<Rightarrow> js ''unknown''),
       rc_verb = (case registry of Some t \<Rightarrow> te_verb t | None \<Rightarrow> js ''execute''),
       rc_noun = (case registry of Some t \<Rightarrow> te_nounExtractor t heldInput | None \<Rightarrow> js ''unknown''),
       rc_userId = user, rc_agentId = ag,
       rc_origin = (if present (h_run_id row) \<noteq> None then McpCommission else Human)\<rparr>)"

text \<open>The audit row of the resolved call, before decision and outcome are filled in.\<close>

definition call_audit ::
  "agent_env \<Rightarrow> resolving \<Rightarrow> decision \<Rightarrow> audit_outcome \<Rightarrow> jsstr option \<Rightarrow> audit_params" where
  "call_audit env rc d out msg =
     \<lparr>p_userId = rc_userId rc, p_agentId = rc_agentId rc, p_sessionId = h_session_id (rc_row rc),
      p_toolName = rc_name rc, p_service = rc_service rc, p_verb = rc_verb rc, p_noun = rc_noun rc,
      p_decision = d, p_origin = Some (rc_origin rc),
      p_parametersMetadata = extractMetadata (ev_show_frac env) (rc_input rc), p_outcome = out,
      p_errorMessage = msg, p_latencyMs = JInt 0, p_costUsd = None, p_epochId = None, p_timestamp = None\<rparr>"

definition rc_detail :: "resolving \<Rightarrow> jsstr \<Rightarrow> json" where
  "rc_detail rc out = action_detail (rc_service rc) (rc_verb rc) (rc_noun rc) out"

definition storeHeldTurnState :: "jsstr \<Rightarrow> jsstr \<Rightarrow> unit act" where
  "storeHeldTurnState hid turnState = modify (\<lambda>st. st\<lparr>db_held := updateHeldTurnState hid turnState (db_held st)\<rparr>)"

text \<open>The common tail: resume, finalize, record the run.\<close>

definition finish_resolve :: "agent_env \<Rightarrow> resolve_world \<Rightarrow> resolving \<Rightarrow> json \<Rightarrow> answer \<Rightarrow> resolution act" where
  "finish_resolve env rw rc state a =
     bind (resumeAndFinalize rw (h_id (rc_row rc)) \<lparr>ra_turnState = state, ra_userId = rc_userId rc,
       ra_agentId = rc_agentId rc, ra_origin = rc_origin rc, ra_runId = h_run_id (rc_row rc), ra_answer = a\<rparr>) (\<lambda>r.
     bind (recordRunAfterResolve (env\<lparr>ev_now := rw_after_resume rw\<rparr>) (h_run_id (rc_row rc)) r) (\<lambda>_. ret r))"

section \<open>Recovery\<close>

definition DISPATCH_RECOVERY_ERROR :: jsstr where
  "DISPATCH_RECOVERY_ERROR = js ''Recovered after interruption '' @ [0x2014] @ js '' outcome unknown''"

definition DISPATCH_RECOVERY_RESULT :: jsstr where
  "DISPATCH_RECOVERY_RESULT = js ''Tool completed (result unavailable after interruption).''"

definition dispatchRecoveryAuditParams :: "agent_env \<Rightarrow> resolving \<Rightarrow> audit_params" where
  "dispatchRecoveryAuditParams env rc =
     (call_audit env rc Allow ErrorOutcome (Some DISPATCH_RECOVERY_ERROR))
       \<lparr>p_costUsd := (case rc_tool rc of None \<Rightarrow> None
          | Some t \<Rightarrow> (case te_spend t of None \<Rightarrow> None
              | Some sp \<Rightarrow> map_option (ev_div100 env) (quotedAmountCents sp (rc_input rc))))\<rparr>"

definition recovered_answer :: "resolving \<Rightarrow> answer" where
  "recovered_answer rc = \<lparr>an_result = tool_result (rc_useId rc) DISPATCH_RECOVERY_RESULT False,
     an_outcome = js ''error'', an_error = Some DISPATCH_RECOVERY_ERROR\<rparr>"

definition recover_dispatched :: "agent_env \<Rightarrow> resolve_world \<Rightarrow> resolving \<Rightarrow> resolution act" where
  "recover_dispatched env rw rc =
     (let a = recovered_answer rc; state = with_answered (rc_state rc) a in
      bind (txn (
        bind (close_decision env (dispatchRecoveryAuditParams env rc) (h_pending (rc_row rc)) Observed) (\<lambda>_.
        storeHeldTurnState (h_id (rc_row rc)) (wrapTurnState env state)))) (\<lambda>_.
      finish_resolve env rw rc state a))"

section \<open>Denial\<close>

definition held_boundary :: "tool_world \<Rightarrow> resolving \<Rightarrow> bool" where
  "held_boundary w rc \<longleftrightarrow> isControlPlaneTool (tw_lookup w) (rc_name rc)
     \<and> \<not> controlPlaneAllowed (heldRunOrigin (rc_state rc) (h_run_id (rc_row rc)))"

text \<open>The deny branch; the console line is not modelled.\<close>

definition denied_answer :: "resolving \<Rightarrow> bool \<Rightarrow> answer" where
  "denied_answer rc refused =
     \<lparr>an_result = tool_result (rc_useId rc) (if refused then CONTROL_PLANE_REFUSAL else js ''Denied by user'') True,
      an_outcome = (if refused then js ''boundary_refused'' else js ''denied''), an_error = None\<rparr>"

definition deny_held :: "agent_env \<Rightarrow> resolve_world \<Rightarrow> resolving \<Rightarrow> bool \<Rightarrow> resolution act" where
  "deny_held env rw rc refused =
     (let a = denied_answer rc refused; state = with_answered (rc_state rc) a in
      bind (txn (close_decision env (call_audit env rc Deny ErrorOutcome
        (Some (if refused then CONTROL_PLANE_REFUSAL else js ''Denied by user''))) (h_pending (rc_row rc)) Observed)) (\<lambda>_.
      bind (appendActionDetail env (h_run_id (rc_row rc)) (rc_detail rc (js ''denied''))) (\<lambda>_.
      bind (storeHeldTurnState (h_id (rc_row rc)) (wrapTurnState env state)) (\<lambda>_.
      finish_resolve env rw rc state a))))"

section \<open>Approval\<close>

definition scope_of :: "resolving \<Rightarrow> grant_scope" where
  "scope_of rc = \<lparr>g_service = rc_service rc, g_verb = rc_verb rc, g_noun = rc_noun rc, g_decision = EAllow\<rparr>"

definition mint :: "agent_env \<Rightarrow> resolving \<Rightarrow> choice \<Rightarrow> jsstr option act" where
  "mint env rc ch =
     (case ch of
        ForTask \<Rightarrow> bind (create_task_grant env (scope_of rc) (h_session_id (rc_row rc))) (\<lambda>i. ret (Some i))
      | ForSession \<Rightarrow> bind (create_session_grant env (scope_of rc) (h_session_id (rc_row rc))) (\<lambda>_. ret None)
      | _ \<Rightarrow> ret None)"

text \<open>The spend check on resume: the context the hold has to be parked under again, with its cost.\<close>

definition repark_context ::
  "agent_env \<Rightarrow> tool_world \<Rightarrow> resolving \<Rightarrow> choice \<Rightarrow> spend_hold_context option option \<Rightarrow> agent
   \<Rightarrow> (jsnum option \<times> spend_hold_context) option" where
  "repark_context env w rc ch spendCtx st =
     (case rc_tool rc of None \<Rightarrow> None
      | Some t \<Rightarrow> (case te_spend t of None \<Rightarrow> None
        | Some sp \<Rightarrow> (case runSpendStage env (tw_readable w) sp (rc_input rc) (h_session_id (rc_row rc)) st of
             (usd, None) \<Rightarrow> None
           | (usd, Some c) \<Rightarrow>
             if ch = ApproveOnce \<and> (case spendCtx of Some (Some c') \<Rightarrow>
                  stringify (ev_show_frac env) (hold_context_json c) = stringify (ev_show_frac env) (hold_context_json c')
                | _ \<Rightarrow> False)
             then None else Some (usd, c))))"

definition spend_rehold :: "agent_env \<Rightarrow> tool_world \<Rightarrow> resolving \<Rightarrow> jsstr option \<Rightarrow> jsnum option \<times> spend_hold_context \<Rightarrow> resolution act" where
  "spend_rehold env w rc taskGrantId held =
     (let hid = h_id (rc_row rc);
          r = Resumed \<lparr>cr_response = [],
                cr_toolCalls = [\<lparr>tc_name = recordToolName (tw_lookup w) (rc_name rc), tc_id = rc_useId rc,
                  tc_outcome = js ''held'', tc_error = None\<rparr>],
                cr_usage = (0, 0), cr_iterations = 0, cr_held = Some hid\<rparr>
      in bind (txn (
           bind (close_decision env (call_audit env rc Pending Success (Some (js ''Superseded by a spending confirmation'')))
             (h_pending (rc_row rc)) Observed) (\<lambda>_.
           bind (insert_audit env ((call_audit env rc Pending Success None)
             \<lparr>p_parametersMetadata := obj_set (js ''spend'') (hold_context_json (snd held))
                (extractMetadata (ev_show_frac env) (rc_input rc)), p_costUsd := fst held\<rparr>)) (\<lambda>entry.
           bind (modify (\<lambda>st. st\<lparr>db_held := reholdForSpend hid (r_id entry)
             (stringify (ev_show_frac env) (hold_context_json (snd held))) (db_held st)\<rparr>)) (\<lambda>_.
           case present taskGrantId of None \<Rightarrow> ret () | Some i \<Rightarrow> consume_task_grant env i))))) (\<lambda>_.
         bind (recordRunAfterResolve env (h_run_id (rc_row rc)) r) (\<lambda>_. ret r)))"

text \<open>The dispatch, behind the marker that is committed before it.\<close>

definition executed_answer :: "resolving \<Rightarrow> execution \<Rightarrow> jsstr \<Rightarrow> answer" where
  "executed_answer rc x content =
     \<lparr>an_result = tool_result (rc_useId rc) content (\<not> x_success x),
      an_outcome = (if x_success x then js ''success'' else js ''error''),
      an_error = (if x_success x then None
        else Some (case x_error x of Some e \<Rightarrow> e | None \<Rightarrow> js ''Tool execution failed''))\<rparr>"

definition dispatch_held :: "agent_env \<Rightarrow> resolve_world \<Rightarrow> resolving \<Rightarrow> jsstr option \<Rightarrow> resolution act" where
  "dispatch_held env rw rc taskGrantId =
     (let w = rw_tools rw; hid = h_id (rc_row rc); env' = env\<lparr>ev_now := tw_after_execute w\<rparr> in
      bind (case present taskGrantId of None \<Rightarrow> ret () | Some i \<Rightarrow> consume_task_grant env i) (\<lambda>_.
      bind (storeHeldTurnState hid (wrapTurnState env (with_dispatched (rc_state rc)))) (\<lambda>_.
      bind (dispatchTool env w (rc_name rc) (rc_input rc)) (\<lambda>x.
      bind (fenceUntrusted env' (if x_success x
          then stringify (ev_show_frac env) (case x_data x of Some v \<Rightarrow> v | None \<Rightarrow> JNull)
          else (case x_error x of Some e \<Rightarrow> e | None \<Rightarrow> js ''Tool execution failed''))) (\<lambda>content.
      (let a = executed_answer rc x content; state = with_answered (rc_state rc) a in
       bind (writeOutcomeWithSpend env' (tw_show_error w)
         (call_audit env' rc Allow (if x_success x then Success else ErrorOutcome) (x_error x))
         (h_pending (rc_row rc)) (rc_tool rc) (rc_input rc) (Some (hid, wrapTurnState env state))) (\<lambda>_.
       bind (appendActionDetail env' (h_run_id (rc_row rc)) (rc_detail rc (if x_success x then js ''executed'' else js ''errored''))) (\<lambda>_.
       finish_resolve env' rw rc state a))))))))"

definition approve_held ::
  "agent_env \<Rightarrow> resolve_world \<Rightarrow> resolving \<Rightarrow> choice \<Rightarrow> spend_hold_context option option \<Rightarrow> resolution act" where
  "approve_held env rw rc ch spendCtx =
     bind (mint env rc ch) (\<lambda>taskGrantId.
     bind (read (repark_context env (rw_tools rw) rc ch spendCtx)) (\<lambda>rehold.
     case rehold of Some held \<Rightarrow> spend_rehold env (rw_tools rw) rc taskGrantId held
     | None \<Rightarrow> dispatch_held env rw rc taskGrantId))"

section \<open>resolveConfirmation\<close>

definition tell_more :: "resolving \<Rightarrow> resolution" where
  "tell_more rc = Info (rc_service rc) (rc_verb rc) (sanitizeNoun (rc_noun rc))
     (case rc_tool rc of Some t \<Rightarrow> te_description t | None \<Rightarrow> js ''No description available.'')"

definition choice_refusal :: "spend_hold_context option option \<Rightarrow> choice \<Rightarrow> jsstr option" where
  "choice_refusal spendCtx ch =
     (if spendCtx \<noteq> None \<and> (ch = ForTask \<or> ch = ForSession)
      then Some (js ''a spending hold accepts only deny, tell_more, or approve_once'')
      else if spendCtx = None \<and> ch = ApproveOnce then Some (js ''approve_once applies only to a spending hold'')
      else None)"

definition resolve_call ::
  "agent_env \<Rightarrow> resolve_world \<Rightarrow> resolving \<Rightarrow> choice \<Rightarrow> spend_hold_context option option \<Rightarrow> resolution act" where
  "resolve_call env rw rc ch spendCtx =
     (case choice_refusal spendCtx ch of Some reason \<Rightarrow> ret (InvalidChoice reason)
      | None \<Rightarrow>
        if truthy_at (rc_state rc) (js ''answered'')
        then finish_resolve env rw rc (rc_state rc) (answer_of (member_at (rc_state rc) (js ''answered'')))
        else if truthy_at (rc_state rc) (js ''dispatched'') then recover_dispatched env rw rc
        else if ch = TellMore then ret (tell_more rc)
        else if ch = ChooseDeny \<or> held_boundary (rw_tools rw) rc then deny_held env rw rc (held_boundary (rw_tools rw) rc)
        else approve_held env rw rc ch spendCtx)"

text \<open>The body under the gate: a run-linked hold binds the run's data first.\<close>

definition held_input :: "agent_env \<Rightarrow> held_row \<Rightarrow> json \<Rightarrow> params act" where
  "held_input env row state =
     (let raw = own_members (member_at (member_at state (js ''heldCall'')) (js ''input'')) in
      case present (h_run_id row) of None \<Rightarrow> ret raw | Some i \<Rightarrow> substituteRunData env i raw)"

definition resolve_gated :: "agent_env \<Rightarrow> resolve_world \<Rightarrow> held_row \<Rightarrow> json \<Rightarrow> choice \<Rightarrow> jsstr \<Rightarrow> jsstr \<Rightarrow> resolution act" where
  "resolve_gated env rw row state ch user ag =
     bind (held_input env row state) (\<lambda>heldInput.
     resolve_call env rw (resolving_of (tw_lookup (rw_tools rw)) row state heldInput user ag) ch
       (parseSpendContext env (h_spend_context row)))"

text \<open>A turn written by newer code: its entry is closed, its row deleted, its run denied.\<close>

definition refuse_future :: "agent_env \<Rightarrow> held_row \<Rightarrow> jsstr \<Rightarrow> jsstr \<Rightarrow> resolution act" where
  "refuse_future env row user ag =
     bind (txn (close_decision env
       \<lparr>p_userId = user, p_agentId = ag, p_sessionId = h_session_id row, p_toolName = js ''unknown'',
        p_service = js ''unknown'', p_verb = js ''execute'', p_noun = js ''unknown'', p_decision = Deny,
        p_origin = Some (if present (h_run_id row) \<noteq> None then McpCommission else Human),
        p_parametersMetadata = extractMetadata (ev_show_frac env) [], p_outcome = ErrorOutcome,
        p_errorMessage = Some (js ''Held call unresumable: turn_state was written by a newer engine version''),
        p_latencyMs = JInt 0, p_costUsd = None, p_epochId = None, p_timestamp = None\<rparr> (h_pending row) Observed)) (\<lambda>_.
     bind (delete_held (h_id row)) (\<lambda>_.
     bind (case present (h_run_id row) of None \<Rightarrow> ret ()
       | Some i \<Rightarrow> modify (\<lambda>st. st\<lparr>db_runs := updateCommissionStatus i Denied (now_iso env) (db_runs st)\<rparr>)) (\<lambda>_.
     ret NotFound)))"

definition resolveConfirmation ::
  "agent_env \<Rightarrow> resolve_world \<Rightarrow> jsstr \<Rightarrow> choice \<Rightarrow> jsstr \<Rightarrow> jsstr option \<Rightarrow> resolution act" where
  "resolveConfirmation env rw hid ch user agentIdOpt =
     (let ag = (case agentIdOpt of Some a \<Rightarrow> a | None \<Rightarrow> js ''default'') in
      bind (read (\<lambda>st. loadHeldCall env st hid)) (\<lambda>held. case held of
        None \<Rightarrow> ret NotFound
      | Some row \<Rightarrow>
        (case parseTurnState (ev_json_parse env) (h_turn_state row) of
           FutureVersion \<Rightarrow> if ch = TellMore then ret NotFound else refuse_future env row user ag
         | Unparseable \<Rightarrow> ret NotFound
         | TurnOk state \<Rightarrow>
             if \<not> truthy_at state (js ''heldCall'') then ret NotFound
             else withTurnGate Busy (resolve_gated env rw row state ch user ag))))"

section \<open>Holds stranded by a crash\<close>

text \<open>One round of \<open>healCrashedDispatchHolds\<close>: the tool-use id it healed.\<close>

definition heal_hold :: "agent_env \<Rightarrow> (jsstr \<Rightarrow> tool_entry option) \<Rightarrow> jsstr \<Rightarrow> jsstr \<Rightarrow> held_row \<Rightarrow> jsstr option act" where
  "heal_hold env lookupTool user ag row =
     (if h_run_id row \<noteq> None then ret None
      else (case parseTurnState (ev_json_parse env) (h_turn_state row) of
          TurnOk state \<Rightarrow>
            if \<not> truthy_at state (js ''heldCall'') \<or> jget state (js ''dispatched'') \<noteq> Some (JBool True)
               \<or> jget state (js ''answered'') \<noteq> None then ret None
            else bind (read (\<lambda>st. loadHeldCall env st (h_id row))) (\<lambda>held. case held of None \<Rightarrow> ret None
              | Some h \<Rightarrow>
                (let heldCall = member_at state (js ''heldCall'');
                     rc = resolving_of lookupTool h state (own_members (member_at heldCall (js ''input''))) user ag
                 in bind (txn (
                      bind (close_decision env ((dispatchRecoveryAuditParams env rc)\<lparr>p_origin := Some Human\<rparr>)
                        (h_pending h) Observed) (\<lambda>_.
                      delete_held (h_id row)))) (\<lambda>_. ret (Some (rc_useId rc)))))
        | _ \<Rightarrow> ret None))"

fun heal_all :: "agent_env \<Rightarrow> (jsstr \<Rightarrow> tool_entry option) \<Rightarrow> jsstr \<Rightarrow> jsstr \<Rightarrow> held_row list \<Rightarrow> jsstr list act" where
  "heal_all env lookupTool user ag [] = ret []"
| "heal_all env lookupTool user ag (row # rows) =
     bind (heal_hold env lookupTool user ag row) (\<lambda>h.
     bind (heal_all env lookupTool user ag rows) (\<lambda>hs. ret (case h of Some i \<Rightarrow> i # hs | None \<Rightarrow> hs)))"

definition healCrashedDispatchHolds :: "agent_env \<Rightarrow> (jsstr \<Rightarrow> tool_entry option) \<Rightarrow> jsstr \<Rightarrow> jsstr \<Rightarrow> jsstr list act" where
  "healCrashedDispatchHolds env lookupTool user ag =
     bind (read (\<lambda>st. selectHeldCalls (db_held st))) (heal_all env lookupTool user ag)"

definition discardResolvedHeldCalls :: "agent_env \<Rightarrow> jsstr set \<Rightarrow> unit act" where
  "discardResolvedHeldCalls env orphanIds =
     bind (read (\<lambda>st. selectHeldCalls (db_held st))) (\<lambda>rows. for_each rows (\<lambda>row.
       case parseTurnState (ev_json_parse env) (h_turn_state row) of
         TurnOk state \<Rightarrow>
           if jget state (js ''answered'') \<noteq> None \<and> truthy_at state (js ''heldCall'')
              \<and> text_at (member_at state (js ''heldCall'')) (js ''id'') \<in> orphanIds
           then delete_held (h_id row) else ret ()
       | _ \<Rightarrow> ret ()))"

section \<open>Invariants\<close>

text \<open>Approval also mints grants.\<close>

locale mint_invariant = call_invariant +
  assumes grant_write: "P st \<Longrightarrow> grant_step (db_policy st) gs \<Longrightarrow> P (st\<lparr>db_policy := gs\<rparr>)"
begin

lemma create_task_grant: "keeps P (create_task_grant env' g s)"
  unfolding create_task_grant_def
  by (rule keeps_bind[OF keeps_fresh_uuid[OF stable_P]])
    (auto simp: keeps_def intro!: grant_write grant_step.task_grant split: sum.split)

lemma create_session_grant: "keeps P (create_session_grant env' g s)"
  unfolding create_session_grant_def
  by (rule keeps_bind[OF keeps_fresh_uuid[OF stable_P]])
    (auto simp: keeps_def intro!: grant_write grant_step.session_grant split: sum.split)

lemma mint: "keeps P (mint env' rc ch)"
  unfolding mint_def by (cases ch) (auto intro!: keeps_intros create_task_grant create_session_grant)

end

context call_invariant
begin

lemma storeHeldTurnState: "keeps P (storeHeldTurnState hid ts)"
  unfolding storeHeldTurnState_def by (intro held held_step.turn)

lemma delete_held_keeps: "keeps P (delete_held hid)"
  unfolding delete_held_def by (intro held held_step.unpark)

lemma recordRunAfterResolve: "keeps P (recordRunAfterResolve env' r res)"
  unfolding recordRunAfterResolve_def
  by (cases "present r"; cases res) (auto intro!: keeps_intros runs run_step.status)

lemma resumeAndFinalize:
  assumes "\<And>ra st. P st \<Longrightarrow> P (snd (rw_resume rw ra st))"
  shows "keeps P (resumeAndFinalize rw hid ra)"
proof -
  have "keeps P (case r of Inl e \<Rightarrow> throw e | Inr res \<Rightarrow> ret (Resumed res))" for r
    by (cases r) (auto intro: keeps_intros)
  then show ?thesis
    unfolding resumeAndFinalize_def resumeHeldTurn_def
    by (intro keeps_intros await assms delete_held_keeps)
qed

lemma finish_resolve:
  assumes "\<And>ra st. P st \<Longrightarrow> P (snd (rw_resume rw ra st))"
  shows "keeps P (finish_resolve env' rw rc state a)"
  unfolding finish_resolve_def by (intro keeps_intros resumeAndFinalize recordRunAfterResolve assms)

lemma close_keeps:
  "p_epochId ps = None \<Longrightarrow> keeps P (txn (close_decision (env\<lparr>ev_now := t\<rparr>) ps d basis))"
  by (intro keeps_intros clo_at stable_P)

lemma recover_dispatched:
  assumes "\<And>ra st. P st \<Longrightarrow> P (snd (rw_resume rw ra st))"
  shows "keeps P (recover_dispatched (env\<lparr>ev_now := t\<rparr>) rw rc)"
  unfolding recover_dispatched_def Let_def
  by (intro keeps_intros clo_at stable_P storeHeldTurnState finish_resolve assms)
    (simp add: dispatchRecoveryAuditParams_def call_audit_def)

lemma deny_held:
  assumes "\<And>ra st. P st \<Longrightarrow> P (snd (rw_resume rw ra st))"
  shows "keeps P (deny_held (env\<lparr>ev_now := t\<rparr>) rw rc refused)"
  unfolding deny_held_def Let_def
  by (intro keeps_intros close_keeps appendActionDetail storeHeldTurnState finish_resolve assms) (simp add: call_audit_def)

lemma spend_rehold: "keeps P (spend_rehold (env\<lparr>ev_now := t\<rparr>) w rc g h)"
  unfolding spend_rehold_def Let_def
  by (intro keeps_intros stable_P clo_at ins_at held held_step.rehold consume_task_grant recordRunAfterResolve)
    (simp_all add: call_audit_def)

lemma dispatch_held:
  assumes "\<And>ra st. P st \<Longrightarrow> P (snd (rw_resume rw ra st))"
    "\<And>tool ps st. P st \<Longrightarrow> P (snd (tw_execute (rw_tools rw) tool ps st))"
  shows "keeps P (dispatch_held (env\<lparr>ev_now := t\<rparr>) rw rc g)"
  unfolding dispatch_held_def Let_def later_clock fenceUntrusted_def
  by (intro keeps_intros stable_P consume_task_grant storeHeldTurnState dispatchTool assms writeOutcomeWithSpend
      appendActionDetail finish_resolve) (simp_all add: call_audit_def)

text \<open>An approval keeps what its grant keeps.\<close>

lemma approve_held:
  assumes "\<And>ra st. P st \<Longrightarrow> P (snd (rw_resume rw ra st))"
    "\<And>tool ps st. P st \<Longrightarrow> P (snd (tw_execute (rw_tools rw) tool ps st))"
    and minted: "keeps P (mint (env\<lparr>ev_now := t\<rparr>) rc ch)"
  shows "keeps P (approve_held (env\<lparr>ev_now := t\<rparr>) rw rc ch spendCtx)"
  unfolding approve_held_def by (intro keeps_intros minted spend_rehold dispatch_held assms(1,2))

lemma substituteRunData: "keeps P (substituteRunData env' i ps)"
  unfolding substituteRunData_def parse_or_throw_def by (intro keeps_intros)

lemma held_input: "keeps P (held_input env' row state)"
  unfolding held_input_def Let_def by (intro keeps_intros substituteRunData)

lemma resolve_gated:
  assumes "\<And>ra st. P st \<Longrightarrow> P (snd (rw_resume rw ra st))"
    "\<And>tool ps st. P st \<Longrightarrow> P (snd (tw_execute (rw_tools rw) tool ps st))"
    and minted: "\<And>rc. choice_refusal (parseSpendContext env (h_spend_context row)) ch = None \<Longrightarrow>
      keeps P (mint (env\<lparr>ev_now := t\<rparr>) rc ch)"
  shows "keeps P (resolve_gated (env\<lparr>ev_now := t\<rparr>) rw row state ch u ag)"
proof -
  have ctx: "parseSpendContext (env\<lparr>ev_now := t\<rparr>) x = parseSpendContext env x" for x
    by (simp add: parseSpendContext_def split: option.split)
  have "keeps P (resolve_call (env\<lparr>ev_now := t\<rparr>) rw rc ch (parseSpendContext env (h_spend_context row)))" for rc
    unfolding resolve_call_def
    by (cases "choice_refusal (parseSpendContext env (h_spend_context row)) ch")
      (auto intro!: keeps_intros finish_resolve recover_dispatched deny_held approve_held assms)
  then show ?thesis
    unfolding resolve_gated_def ctx by (intro keeps_intros held_input)
qed

lemma refuse_future: "keeps P (refuse_future (env\<lparr>ev_now := t\<rparr>) row u ag)"
  unfolding refuse_future_def
  by (intro keeps_intros close_keeps delete_held_keeps runs run_step.status) simp

lemma resolveConfirmation:
  assumes "\<And>ra st. P st \<Longrightarrow> P (snd (rw_resume rw ra st))"
    "\<And>tool ps st. P st \<Longrightarrow> P (snd (tw_execute (rw_tools rw) tool ps st))"
    and minted: "\<And>rc. keeps P (mint (env\<lparr>ev_now := t\<rparr>) rc ch)"
  shows "keeps P (resolveConfirmation (env\<lparr>ev_now := t\<rparr>) rw hid ch u ag)"
proof -
  have "keeps P (case parseTurnState p raw of
           FutureVersion \<Rightarrow> if ch = TellMore then ret NotFound else refuse_future (env\<lparr>ev_now := t\<rparr>) row u a
         | Unparseable \<Rightarrow> ret NotFound
         | TurnOk state \<Rightarrow> if \<not> truthy_at state (js ''heldCall'') then ret NotFound
             else withTurnGate Busy (resolve_gated (env\<lparr>ev_now := t\<rparr>) rw row state ch u a))" for p raw row a
    by (cases "parseTurnState p raw")
      (auto intro!: keeps_intros refuse_future withTurnGate resolve_gated assms)
  then show ?thesis
    unfolding resolveConfirmation_def Let_def by (intro keeps_intros)
qed

lemma heal_hold: "keeps P (heal_hold (env\<lparr>ev_now := t\<rparr>) lt u ag row)"
proof -
  have "keeps P (heal_hold (env\<lparr>ev_now := t\<rparr>) lt u ag row)"
    if "parseTurnState (ev_json_parse env) (h_turn_state row) = TurnOk state" for state
    unfolding heal_hold_def Let_def
    by (simp add: that)
      (intro conjI impI keeps_intros stable_P clo_at delete_held_keeps,
        simp_all add: dispatchRecoveryAuditParams_def call_audit_def)
  moreover have "keeps P (heal_hold (env\<lparr>ev_now := t\<rparr>) lt u ag row)"
    if "\<forall>state. parseTurnState (ev_json_parse env) (h_turn_state row) \<noteq> TurnOk state"
    using that unfolding heal_hold_def
    by (cases "parseTurnState (ev_json_parse env) (h_turn_state row)") (auto intro: keeps_intros)
  ultimately show ?thesis by blast
qed

lemma healCrashedDispatchHolds: "keeps P (healCrashedDispatchHolds (env\<lparr>ev_now := t\<rparr>) lt u ag)"
proof -
  have "keeps P (heal_all (env\<lparr>ev_now := t\<rparr>) lt u ag rows)" for rows
    by (induction rows) (auto intro!: keeps_intros heal_hold)
  then show ?thesis unfolding healCrashedDispatchHolds_def by (intro keeps_intros)
qed

end

interpretation chain_mints: mint_invariant "chain_ok env" env for env
  by unfold_locales (simp add: chain_ok_def)

interpretation grant_mints: mint_invariant "\<lambda>st. grants_inv (db_policy st)" env for env
  by unfold_locales (auto dest: grant_step_inv)

section \<open>Who runs the tool\<close>

text \<open>The stored envelope, and the host's promise that a value it wrote parses back.\<close>

definition turn_envelope :: "json \<Rightarrow> json" where
  "turn_envelope state = JObj [(js ''v'', JNum (JInt CANONICAL_SHAPE_VERSION)), (js ''state'', state)]"

definition json_roundtrip :: "agent_env \<Rightarrow> json \<Rightarrow> bool" where
  "json_roundtrip env v \<longleftrightarrow> ev_json_parse env (stringify (ev_show_frac env) v) = Some v"

text \<open>A hold whose row says that its tool was dispatched or its answer produced.\<close>

definition settled :: "json \<Rightarrow> bool" where
  "settled state \<longleftrightarrow> truthy_at state (js ''answered'') \<or> truthy_at state (js ''dispatched'')"

definition committed :: "agent_env \<Rightarrow> jsstr \<Rightarrow> agent \<Rightarrow> bool" where
  "committed env hid st \<longleftrightarrow>
     (case readHeldCall (db_held st) hid of None \<Rightarrow> False
      | Some row \<Rightarrow> (case parseTurnState (ev_json_parse env) (h_turn_state row) of
          TurnOk state \<Rightarrow> settled state | _ \<Rightarrow> False))"

text \<open>The same world with other external tools.\<close>

definition with_execute :: "(tool_entry \<Rightarrow> params \<Rightarrow> agent \<Rightarrow> execution \<times> agent) \<Rightarrow> resolve_world \<Rightarrow> resolve_world" where
  "with_execute ex rw = rw\<lparr>rw_tools := (rw_tools rw)\<lparr>tw_execute := ex\<rparr>\<rparr>"

lemma bind_cong_at:
  assumes "m st = m' st" "\<And>x st'. m st = (Inr x, st') \<Longrightarrow> f x st' = f' x st'"
  shows "bind m f st = bind m' f' st"
  using assms by (auto simp: bind_def split: prod.split sum.split)

lemma with_execute_simps [simp]:
  "tw_lookup (rw_tools (with_execute ex rw)) = tw_lookup (rw_tools rw)"
  "tw_readable (rw_tools (with_execute ex rw)) = tw_readable (rw_tools rw)"
  "tw_show_error (rw_tools (with_execute ex rw)) = tw_show_error (rw_tools rw)"
  "tw_after_execute (rw_tools (with_execute ex rw)) = tw_after_execute (rw_tools rw)"
  "tw_status (rw_tools (with_execute ex rw)) = tw_status (rw_tools rw)"
  "tw_standing (rw_tools (with_execute ex rw)) = tw_standing (rw_tools rw)"
  "tw_execute (rw_tools (with_execute ex rw)) = ex"
  "rw_resume (with_execute ex rw) = rw_resume rw" "rw_after_resume (with_execute ex rw) = rw_after_resume rw"
  by (simp_all add: with_execute_def)

lemma finish_resolve_cong [simp]: "finish_resolve env (with_execute ex rw) = finish_resolve env rw"
  by (intro ext) (simp add: finish_resolve_def resumeAndFinalize_def resumeHeldTurn_def)

lemma recover_dispatched_cong [simp]: "recover_dispatched env (with_execute ex rw) = recover_dispatched env rw"
  by (intro ext) (simp add: recover_dispatched_def)

lemma deny_held_cong [simp]: "deny_held env (with_execute ex rw) = deny_held env rw"
  by (intro ext) (simp add: deny_held_def)

lemma spend_rehold_cong [simp]:
  "spend_rehold env (rw_tools (with_execute ex rw)) = spend_rehold env (rw_tools rw)"
  by (intro ext) (simp add: spend_rehold_def)

lemma repark_context_cong [simp]:
  "repark_context env (rw_tools (with_execute ex rw)) = repark_context env (rw_tools rw)"
  unfolding repark_context_def with_execute_simps ..

lemma held_boundary_cong [simp]: "held_boundary (rw_tools (with_execute ex rw)) = held_boundary (rw_tools rw)"
  by (intro ext) (simp add: held_boundary_def)

lemma dispatchTool_cong:
  assumes "\<And>t ps. ex t ps st = tw_execute (rw_tools rw) t ps st"
  shows "dispatchTool env (rw_tools (with_execute ex rw)) nm ps st = dispatchTool env (rw_tools rw) nm ps st"
  using assms by (auto simp: dispatchTool_def dispatchControlPlane_def await_def split: option.split)

text \<open>Reading the marker back.\<close>

lemma parse_wrapped:
  assumes "json_roundtrip env (turn_envelope (JObj ms))"
  shows "parseTurnState (ev_json_parse env) (wrapTurnState env (JObj ms)) = TurnOk (JObj ms)"
proof -
  have "ev_json_parse env (wrapTurnState env (JObj ms)) = Some (turn_envelope (JObj ms))"
    using assms unfolding json_roundtrip_def turn_envelope_def wrapTurnState_def .
  then show ?thesis
    by (simp add: turn_envelope_def parseTurnState_def CANONICAL_SHAPE_VERSION_def migrateHeldTurn_def integral_def js_def)
qed

lemma map_of_obj_set [simp]: "map_of (obj_set k v ms) k' = (if k' = k then Some v else map_of ms k')"
  by (induction ms) auto

lemma settled_with_dispatched [simp]: "settled (with_dispatched state)"
  by (simp add: settled_def with_dispatched_def truthy_at_def)

lemma settled_with_answered [simp]: "settled (with_answered state a)"
  by (simp add: settled_def with_answered_def truthy_at_def answer_json_def)

lemma marked_committed:
  assumes "readHeldCall (db_held st) hid = Some row" "json_roundtrip env (turn_envelope (with_dispatched state))"
    and st': "db_held st' = updateHeldTurnState hid (wrapTurnState env (with_dispatched state)) (db_held st)"
  shows "committed env hid st'"
proof -
  have "readHeldCall (db_held st') hid = Some (row\<lparr>h_turn_state := wrapTurnState env (with_dispatched state)\<rparr>)"
    using assms(1) held_pk.read_SomeD[OF assms(1)]
    by (simp add: st' updateHeldTurnState_def held_pk.read_update)
  moreover have "parseTurnState (ev_json_parse env) (wrapTurnState env (with_dispatched state)) = TurnOk (with_dispatched state)"
    using assms(2) unfolding with_dispatched_def by (rule parse_wrapped)
  ultimately show ?thesis by (simp add: committed_def)
qed

lemma dispatch_held_cong:
  assumes row: "readHeldCall (db_held st) (h_id (rc_row rc)) = Some row"
    and rt: "json_roundtrip env (turn_envelope (with_dispatched (rc_state rc)))"
    and ex: "\<And>t ps s. committed env (h_id (rc_row rc)) s \<Longrightarrow> ex t ps s = tw_execute (rw_tools rw) t ps s"
  shows "dispatch_held env (with_execute ex rw) rc g st = dispatch_held env rw rc g st"
  unfolding dispatch_held_def Let_def with_execute_simps finish_resolve_cong
proof (rule bind_cong_at[OF refl], rule bind_cong_at[OF refl], rule bind_cong_at[OF _ refl])
  fix u v st1 st2
  assume c: "(case present g of None \<Rightarrow> ret () | Some i \<Rightarrow> consume_task_grant env i) st = (Inr u, st1)"
    and s: "storeHeldTurnState (h_id (rc_row rc)) (wrapTurnState env (with_dispatched (rc_state rc))) st1 = (Inr v, st2)"
  have "db_held st1 = db_held st"
    using c by (auto simp: consume_task_grant_def modify_def split: option.splits)
  then have "committed env (h_id (rc_row rc)) st2"
    using s by (intro marked_committed[OF _ rt, of st1 _ row]) (auto simp: storeHeldTurnState_def modify_def row)
  then show "dispatchTool env (rw_tools (with_execute ex rw)) (rc_name rc) (rc_input rc) st2
    = dispatchTool env (rw_tools rw) (rc_name rc) (rc_input rc) st2"
    by (intro dispatchTool_cong ex)
qed

lemma mint_held: "mint env rc ch st = (Inr g, st') \<Longrightarrow> db_held st' = db_held st"
  by (cases ch) (auto simp: mint_def bind_def ret_def create_task_grant_def create_session_grant_def fresh_uuid_def
      split: sum.splits prod.splits)

lemma approve_held_cong:
  assumes row: "readHeldCall (db_held st) (h_id (rc_row rc)) = Some row"
    and rt: "json_roundtrip env (turn_envelope (with_dispatched (rc_state rc)))"
    and ex: "\<And>t ps s. committed env (h_id (rc_row rc)) s \<Longrightarrow> ex t ps s = tw_execute (rw_tools rw) t ps s"
  shows "approve_held env (with_execute ex rw) rc ch c st = approve_held env rw rc ch c st"
  unfolding approve_held_def
proof (rule bind_cong_at[OF refl])
  fix g st1 assume "mint env rc ch st = (Inr g, st1)"
  then have "readHeldCall (db_held st1) (h_id (rc_row rc)) = Some row" using mint_held row by metis
  then have "dispatch_held env (with_execute ex rw) rc g st1 = dispatch_held env rw rc g st1"
    by (rule dispatch_held_cong[OF _ rt ex])
  then show "bind (read (repark_context env (rw_tools (with_execute ex rw)) rc ch c)) (\<lambda>rehold.
       case rehold of Some held \<Rightarrow> spend_rehold env (rw_tools (with_execute ex rw)) rc g held
       | None \<Rightarrow> dispatch_held env (with_execute ex rw) rc g) st1
     = bind (read (repark_context env (rw_tools rw) rc ch c)) (\<lambda>rehold.
       case rehold of Some held \<Rightarrow> spend_rehold env (rw_tools rw) rc g held
       | None \<Rightarrow> dispatch_held env rw rc g) st1"
    by (auto simp: bind_def read_def split: option.split)
qed

lemma held_input_state: "held_input env row state st = (r, st') \<Longrightarrow> st' = st"
  by (auto simp: held_input_def substituteRunData_def parse_or_throw_def bind_def read_def ret_def throw_def Let_def
      split: option.splits prod.splits sum.splits if_splits)

lemma resolving_of_simps [simp]:
  "rc_row (resolving_of lt row state inp u ag) = row" "rc_state (resolving_of lt row state inp u ag) = state"
  by (simp_all add: resolving_of_def Let_def)

text \<open>The answers that leave the external tools alone, and the ones that reach them.\<close>

definition agrees :: "agent_env \<Rightarrow> jsstr \<Rightarrow> (tool_entry \<Rightarrow> params \<Rightarrow> agent \<Rightarrow> execution \<times> agent) \<Rightarrow> resolve_world \<Rightarrow> bool" where
  "agrees env hid ex rw \<longleftrightarrow> (\<forall>t ps s. committed env hid s \<longrightarrow> ex t ps s = tw_execute (rw_tools rw) t ps s)"

lemma resolve_call_cong:
  assumes "readHeldCall (db_held st) (h_id (rc_row rc)) = Some row"
    and "settled (rc_state rc) \<or> ch = ChooseDeny \<or> ch = TellMore
      \<or> json_roundtrip env (turn_envelope (with_dispatched (rc_state rc))) \<and> agrees env (h_id (rc_row rc)) ex rw"
  shows "resolve_call env (with_execute ex rw) rc ch c st = resolve_call env rw rc ch c st"
  using assms approve_held_cong[of st rc row env ex rw ch c]
  by (auto simp: resolve_call_def settled_def agrees_def split: option.split)

lemma resolveConfirmation_cong:
  assumes "\<And>row state. loadHeldCall env st hid = Some row \<Longrightarrow>
      parseTurnState (ev_json_parse env) (h_turn_state row) = TurnOk state \<Longrightarrow>
      settled state \<or> ch = ChooseDeny \<or> ch = TellMore
      \<or> json_roundtrip env (turn_envelope (with_dispatched state)) \<and> agrees env hid ex rw"
  shows "resolveConfirmation env (with_execute ex rw) hid ch u ag st = resolveConfirmation env rw hid ch u ag st"
proof (cases "loadHeldCall env st hid")
  case (Some row)
  then have row: "readHeldCall (db_held st) hid = Some row" "h_id row = hid"
    using held_pk.read_SomeD by (auto simp: loadHeldCall_def split: option.splits if_splits)
  have "resolve_gated env (with_execute ex rw) row state ch u a (st\<lparr>turnInFlight := True\<rparr>)
      = resolve_gated env rw row state ch u a (st\<lparr>turnInFlight := True\<rparr>)"
    if "parseTurnState (ev_json_parse env) (h_turn_state row) = TurnOk state" for state a
    unfolding resolve_gated_def with_execute_simps
    by (rule bind_cong_at[OF refl], rule resolve_call_cong, drule held_input_state)
      (use assms[OF Some that] row in auto)
  then show ?thesis
    by (simp add: resolveConfirmation_def Let_def bind_def read_def Some withTurnGate_def split: parsed_turn.split)
qed (simp add: resolveConfirmation_def Let_def bind_def read_def)

lemma loadHeldCall_read: "loadHeldCall env st hid = Some row \<Longrightarrow> readHeldCall (db_held st) hid = Some row \<and> h_id row = hid"
  using held_pk.read_SomeD by (auto simp: loadHeldCall_def split: option.splits if_splits)

lemma committedI:
  "loadHeldCall env st hid = Some row \<Longrightarrow> parseTurnState (ev_json_parse env) (h_turn_state row) = TurnOk state \<Longrightarrow>
   committed env hid st \<longleftrightarrow> settled state"
  by (auto dest!: loadHeldCall_read simp: committed_def)

subsection \<open>Answers that leave the hold alone\<close>

text \<open>The gate restores the state a body leaves unchanged.\<close>

lemma withTurnGate_same: "snd (body (st\<lparr>turnInFlight := True\<rparr>)) = st\<lparr>turnInFlight := True\<rparr> \<Longrightarrow> snd (withTurnGate busy body st) = st"
  by (cases st) (auto simp: withTurnGate_def split: prod.split)

lemma snd_bind_same: "snd (m st) = st \<Longrightarrow> (\<And>x. m st = (Inr x, st) \<Longrightarrow> snd (f x st) = st) \<Longrightarrow> snd (bind m f st) = st"
  by (auto simp: bind_def split: prod.splits sum.splits)

lemma snd_held_input [simp]: "snd (held_input env row state st) = st"
  using held_input_state by (metis prod.collapse)

lemma snd_ret [simp]: "snd (ret x st) = st"
  by (simp add: ret_def)

lemma tell_more_state:
  assumes "\<not> settled state"
  shows "snd (withTurnGate Busy (resolve_gated env rw row state TellMore u ag) st) = st"
  using assms
  by (auto simp: resolve_gated_def resolve_call_def settled_def choice_refusal_def intro!: withTurnGate_same snd_bind_same
      split: option.split)

subsection \<open>Answers that end it\<close>

lemma bind_result:
  assumes "bind m f st = (Inr y, st')"
  shows "\<exists>x st1. m st = (Inr x, st1) \<and> f x st1 = (Inr y, st')"
  using assms by (auto elim: bind_InrE)

lemma finish_resolve_Resumed:
  assumes "finish_resolve env rw rc state a st = (Inr r, st')"
  shows "\<exists>res. r = Resumed res \<and> readHeldCall (db_held st') (h_id (rc_row rc)) = None"
proof -
  let ?ra = "\<lparr>ra_turnState = state, ra_userId = rc_userId rc, ra_agentId = rc_agentId rc, ra_origin = rc_origin rc,
    ra_runId = h_run_id (rc_row rc), ra_answer = a\<rparr>"
  obtain r1 st1 where f: "resumeAndFinalize rw (h_id (rc_row rc)) ?ra st = (Inr r1, st1)"
    and g: "bind (recordRunAfterResolve (env\<lparr>ev_now := rw_after_resume rw\<rparr>) (h_run_id (rc_row rc)) r1) (\<lambda>_. ret r1) st1 = (Inr r, st')"
    using assms unfolding finish_resolve_def by (rule bind_InrE)
  have "r = r1" "db_held st' = db_held st1"
    using g by (auto elim!: bind_InrE simp: recordRunAfterResolve_def ret_def modify_def split: option.splits resolution.splits)
  moreover obtain r0 st2 where r0: "(if truthy_at (ra_turnState ?ra) (js ''directExecute'')
       then ret (directExecuteResolution (tw_lookup (rw_tools rw)) (ra_turnState ?ra) (ra_answer ?ra))
       else resumeHeldTurn rw ?ra) st = (Inr r0, st2)"
      and d: "bind (delete_held (h_id (rc_row rc))) (\<lambda>_. ret r0) st2 = (Inr r1, st1)"
    using f unfolding resumeAndFinalize_def by (rule bind_InrE)
  moreover have "r1 = r0" "readHeldCall (db_held st1) (h_id (rc_row rc)) = None"
    using d by (auto elim!: bind_InrE simp: delete_held_def modify_def deleteHeldToolCall_def delete_where_def held_pk.read_None)
  moreover have "\<exists>res. r0 = Resumed res"
    using r0 by (auto elim!: bind_InrE simp: resumeHeldTurn_def directExecuteResolution_def Let_def throw_def
        split: if_splits sum.splits)
  ultimately show ?thesis by auto
qed

lemma spend_rehold_Resumed:
  "spend_rehold env w rc g h st = (Inr r, st') \<Longrightarrow> \<exists>res. r = Resumed res \<and> cr_held res = Some (h_id (rc_row rc))"
  unfolding spend_rehold_def Let_def by (auto elim!: bind_InrE simp: ret_def)

lemma resolve_call_cases:
  assumes "resolve_call env rw rc ch c st = (Inr r, st')"
  obtains (finished) st1 env' state a where "finish_resolve env' rw rc state a st1 = (Inr r, st')"
    | (parked) st1 g h where "spend_rehold env (rw_tools rw) rc g h st1 = (Inr r, st')"
    | (nothing) "r \<noteq> Busy" "\<forall>res. r \<noteq> Resumed res" "st' = st"
  using assms
  unfolding resolve_call_def recover_dispatched_def deny_held_def approve_held_def dispatch_held_def Let_def
  by (auto simp: ret_def tell_more_def split: option.splits if_splits dest!: bind_result; blast)

lemma resolve_call_Resumed:
  assumes "resolve_call env rw rc ch c st = (Inr r, st')"
  shows "(\<exists>res. r = Resumed res \<and> (readHeldCall (db_held st') (h_id (rc_row rc)) = None \<or> cr_held res = Some (h_id (rc_row rc))))
     \<or> r \<noteq> Busy \<and> (\<forall>res. r \<noteq> Resumed res) \<and> st' = st"
  using assms by (cases rule: resolve_call_cases) (auto dest: finish_resolve_Resumed spend_rehold_Resumed)

lemma resolve_gated_outcome:
  assumes "resolve_gated env rw row state ch u ag st = (r, st')"
  shows "(\<exists>res. r = Inr (Resumed res) \<and> (readHeldCall (db_held st') (h_id row) = None \<or> cr_held res = Some (h_id row)))
     \<or> (\<exists>e. r = Inl e) \<or> r \<noteq> Inr Busy \<and> (\<forall>res. r \<noteq> Inr (Resumed res)) \<and> st' = st"
proof (cases r)
  case (Inr x)
  then show ?thesis
    using assms unfolding resolve_gated_def by (auto dest!: bind_result held_input_state resolve_call_Resumed)
qed auto

subsection \<open>Spending holds\<close>

interpretation no_new_grants: call_invariant "\<lambda>st. pe_id ` set (db_policy st) \<subseteq> I" env for I env
  by unfold_locales
    (auto simp: stable_def consumeTaskGrant_def update_where_def deletePolicyEntriesExcept_def delete_where_def
      intro!: keeps_audit_only split: if_splits)

lemma parseSpendContext_present: "present raw \<noteq> None \<Longrightarrow> parseSpendContext env raw \<noteq> None"
  by (auto simp: parseSpendContext_def)

lemma mint_nothing: "ch \<noteq> ForTask \<Longrightarrow> ch \<noteq> ForSession \<Longrightarrow> mint env rc ch = ret None"
  by (cases ch) (simp_all add: mint_def)

lemma choice_refusal_spending: "c \<noteq> None \<Longrightarrow> choice_refusal c ch = None \<Longrightarrow> ch \<noteq> ForTask \<and> ch \<noteq> ForSession"
  by (auto simp: choice_refusal_def split: if_splits)

text \<open>How an unresumable hold ends: one more row, which denies its pending entry, no row of the hold, and its run denied.\<close>

definition closed_unresumable :: "agent_env \<Rightarrow> held_row \<Rightarrow> agent \<Rightarrow> agent \<Rightarrow> bool" where
  "closed_unresumable env row st st' \<longleftrightarrow>
     (\<exists>e. db_audit st' = db_audit st @ [e] \<and> decision e = js ''deny'' \<and> decisionEntryId e = Some (wellFormed (h_pending row)))
     \<and> db_held st' = deleteHeldToolCall (h_id row) (db_held st)
     \<and> db_runs st' = (case present (h_run_id row) of None \<Rightarrow> db_runs st
         | Some i \<Rightarrow> updateCommissionStatus i Denied (now_iso env) (db_runs st))
     \<and> db_policy st' = db_policy st"

lemma refuse_future_result:
  assumes "refuse_future env row u ag st = (r, st')"
  shows "r = Inr NotFound \<and> closed_unresumable env row st st'
     \<or> (\<exists>e n. r = Inl (SqlError e) \<and> st' = st\<lparr>uuid_count := n\<rparr>)"
proof -
  define ps where "ps = \<lparr>p_userId = u, p_agentId = ag, p_sessionId = h_session_id row, p_toolName = js ''unknown'',
        p_service = js ''unknown'', p_verb = js ''execute'', p_noun = js ''unknown'', p_decision = Deny,
        p_origin = Some (if present (h_run_id row) \<noteq> None then McpCommission else Human),
        p_parametersMetadata = extractMetadata (ev_show_frac env) [], p_outcome = ErrorOutcome,
        p_errorMessage = Some (js ''Held call unresumable: turn_state was written by a newer engine version''),
        p_latencyMs = JInt 0, p_costUsd = None, p_epochId = None, p_timestamp = None\<rparr>"
  let ?aenv = "audit_env_of env (ev_uuid env (uuid_count st))"
  show ?thesis
  proof (cases "insertRow ?aenv ps (Some (h_pending row)) (db_audit st)")
    case (Inl e)
    then have "txn (close_decision env ps (h_pending row) Observed) st = (Inl (SqlError e), st\<lparr>uuid_count := uuid_count st + 1\<rparr>)"
      by (simp add: txn_def close_decision_def bind_def fresh_uuid_def closeDecisionEntryInTxn_def try_bind_def)
    then show ?thesis using assms unfolding refuse_future_def ps_def[symmetric] by (auto simp: bind_def)
  next
    case (Inr wr)
    then obtain w rows where i: "insertRow ?aenv ps (Some (h_pending row)) (db_audit st) = Inr (w, rows)" by (cases wr) auto
    have "txn (close_decision env ps (h_pending row) Observed) st
        = (Inr (Some w), st\<lparr>uuid_count := uuid_count st + 1, db_audit := rows\<rparr>)"
      using close_decision_observed[OF i] by (simp add: txn_def)
    moreover have "\<exists>e. rows = db_audit st @ [e] \<and> decision e = js ''deny'' \<and> decisionEntryId e = Some (wellFormed (h_pending row))"
      using insertRow_Inr(1)[OF i] by (simp add: new_row_content logged_row ps_def)
    ultimately show ?thesis
      using assms unfolding refuse_future_def ps_def[symmetric]
      by (auto simp: bind_def ret_def delete_held_def modify_def closed_unresumable_def split: option.split option.splits)
  qed
qed

text \<open>An answer for the task or the session, on a turn that can be read.\<close>

lemma fst_held_input_gate: "fst (held_input env row state (st\<lparr>turnInFlight := b\<rparr>)) = fst (held_input env row state st)"
  by (auto simp: held_input_def substituteRunData_def parse_or_throw_def bind_def read_def ret_def throw_def Let_def
      split: option.splits prod.splits sum.splits if_splits)

definition refused_choice :: "(agent_error + params) \<Rightarrow> agent_error + resolution" where
  "refused_choice input = (case input of Inl e \<Rightarrow> Inl e
     | Inr _ \<Rightarrow> Inr (InvalidChoice (js ''a spending hold accepts only deny, tell_more, or approve_once'')))"

lemma refused_choice_gated:
  assumes "ch = ForTask \<or> ch = ForSession" "parseSpendContext env (h_spend_context row) \<noteq> None"
  shows "withTurnGate Busy (resolve_gated env rw row state ch u ag) st
     = (if turnInFlight st then Inr Busy else refused_choice (fst (held_input env row state st)), st)"
proof (cases "turnInFlight st")
  case False
  then have same: "st\<lparr>turnInFlight := False\<rparr> = st" by (cases st) simp
  obtain x where h: "held_input env row state (st\<lparr>turnInFlight := True\<rparr>) = (x, st\<lparr>turnInFlight := True\<rparr>)"
    using held_input_state by (metis prod.collapse)
  then have "fst (held_input env row state st) = x" by (metis fst_conv fst_held_input_gate)
  moreover have "resolve_gated env rw row state ch u ag (st\<lparr>turnInFlight := True\<rparr>) = (refused_choice x, st\<lparr>turnInFlight := True\<rparr>)"
    using assms by (auto simp: resolve_gated_def bind_def h refused_choice_def resolve_call_def choice_refusal_def ret_def
        split: sum.split)
  ultimately show ?thesis using False same by (simp add: withTurnGate_def)
qed (simp add: withTurnGate_def)

lemma breach_roundtrip:
  "is_safe_integer (limitCents b) \<Longrightarrow> is_safe_integer (spentCents b) \<Longrightarrow> breach_of (breach_json b) = Some b"
  by (cases "window b") (simp_all add: breach_of_def breach_json_def safe_at_def js_def)

lemma breaches_roundtrip:
  "\<forall>b \<in> set bs. is_safe_integer (limitCents b) \<and> is_safe_integer (spentCents b) \<Longrightarrow>
   breaches_of (map breach_json bs) = Some bs"
  by (induction bs) (simp_all add: breach_roundtrip)

lemma reason_roundtrip: "spend_reason_of (JStr (spend_reason_text r)) = Some r"
  by (cases r) (simp_all add: spend_reason_of_def js_def)

definition storable_context :: "spend_hold_context \<Rightarrow> bool" where
  "storable_context c \<longleftrightarrow>
     (case sh_amountCents c of None \<Rightarrow> True | Some n \<Rightarrow> is_safe_integer n)
     \<and> (\<forall>b \<in> set (sh_breaches c). is_safe_integer (limitCents b) \<and> is_safe_integer (spentCents b))
     \<and> (case sh_summary c of None \<Rightarrow> True | Some t \<Rightarrow> length t \<le> 120)"

lemma context_roundtrip:
  assumes "storable_context c"
  shows "context_of (hold_context_json c) = Some c"
proof -
  have ks: "js ''reason'' \<noteq> js ''amountCents''" "js ''breaches'' \<noteq> js ''amountCents''" "js ''breaches'' \<noteq> js ''reason''"
    "js ''summary'' \<noteq> js ''amountCents''" "js ''summary'' \<noteq> js ''reason''" "js ''summary'' \<noteq> js ''breaches''"
    by (simp_all add: js_def)
  have "breaches_of (map breach_json (sh_breaches c)) = Some (sh_breaches c)"
    using assms by (intro breaches_roundtrip) (simp add: storable_context_def)
  then show ?thesis
    using assms ks
    by (cases c) (auto simp: context_of_def hold_context_json_def amount_of_def summary_of_def reason_roundtrip
        storable_context_def split: option.splits)
qed

section \<open>Properties\<close>



text \<open>An answer either ends a hold or leaves it: when \<open>resolveConfirmation\<close> reports a resumed turn, the
  row is gone, unless the result says that this very hold is pending again under a spending cap. An
  unknown, stale or expired id, an answer that the kind of hold does not accept and an answer while a
  turn is running change nothing, and neither does asking for more on a hold that is still open.\<close>

theorem answer_ends_hold:
  assumes out: "resolveConfirmation env rw hid ch u ag st = (r, st')"
  shows "(\<forall>res. r = Inr (Resumed res) \<longrightarrow> readHeldCall (db_held st') hid = None \<or> cr_held res = Some hid)
     \<and> (loadHeldCall env st hid = None \<longrightarrow> r = Inr NotFound \<and> st' = st)
     \<and> ((\<exists>reason. r = Inr (InvalidChoice reason)) \<or> r = Inr Busy \<or> ch = TellMore \<and> \<not> committed env hid st \<longrightarrow> st' = st)"
proof (cases "loadHeldCall env st hid")
  case None
  then have "r = Inr NotFound \<and> st' = st"
    using out by (simp add: resolveConfirmation_def Let_def bind_def read_def ret_def)
  then show ?thesis by simp
next
  case (Some row)
  note row = loadHeldCall_read[OF Some]
  show ?thesis
  proof (cases "parseTurnState (ev_json_parse env) (h_turn_state row)")
    case (TurnOk state)
    let ?g = "resolve_gated env rw row state ch u (case ag of Some a \<Rightarrow> a | None \<Rightarrow> js ''default'')"
    have o: "(r, st') = (if truthy_at state (js ''heldCall'') then withTurnGate Busy ?g st else (Inr NotFound, st))"
      using out Some TurnOk by (auto simp: resolveConfirmation_def Let_def bind_def read_def ret_def split: if_splits)
    obtain r1 st1 where g: "?g (st\<lparr>turnInFlight := True\<rparr>) = (r1, st1)" by force
    have "st' = st" if "ch = TellMore" "\<not> committed env hid st"
      using o that committedI[OF Some TurnOk] tell_more_state[of state env rw row u _ st] by (auto split: if_splits dest: arg_cong[of _ _ snd])
    moreover have "r1 = r \<and> st' = st1\<lparr>turnInFlight := False\<rparr>" if "truthy_at state (js ''heldCall'')" "\<not> turnInFlight st"
      using o that g by (simp add: withTurnGate_def)
    moreover have "st\<lparr>turnInFlight := False\<rparr> = st" if "\<not> turnInFlight st" using that by (cases st) simp
    ultimately show ?thesis
      using resolve_gated_outcome[OF g] o row Some
      by (cases "truthy_at state (js ''heldCall'')"; cases "turnInFlight st") (auto simp: withTurnGate_def)
  next
    case Unparseable
    then show ?thesis using out Some by (auto simp: resolveConfirmation_def Let_def bind_def read_def ret_def)
  next
    case FutureVersion
    then show ?thesis
      using out Some
      by (auto simp: resolveConfirmation_def Let_def bind_def read_def ret_def refuse_future_def split: if_splits prod.splits sum.splits)
  qed
qed

text \<open>The context of a spending hold survives storage: reading back the text that a hold or a re-hold
  wrote gives the context itself, for amounts that are safe integers and a description of at most 120
  units. Reading never turns a spending hold into an ordinary one: every non-empty text, also one
  that is no JSON or has the wrong shape, still counts as a spending hold. The hypothesis is the JSON
  round trip of the stored value.\<close>

theorem spend_context_roundtrip:
  assumes "storable_context c" "json_roundtrip env (hold_context_json c)"
  shows "parseSpendContext env (Some (stringify (ev_show_frac env) (hold_context_json c))) = Some (Some c)
     \<and> (\<forall>raw. present raw \<noteq> None \<longrightarrow> parseSpendContext env raw \<noteq> None)"
proof -
  have "stringify (ev_show_frac env) (hold_context_json c) \<noteq> []" by (simp add: hold_context_json_def)
  then have "present (Some (stringify (ev_show_frac env) (hold_context_json c)))
      = Some (stringify (ev_show_frac env) (hold_context_json c))" by (simp add: present_def)
  moreover have "is_object (hold_context_json c)" by (simp add: hold_context_json_def)
  ultimately show ?thesis
    using assms(2) context_roundtrip[OF assms(1)] parseSpendContext_present
    by (simp add: parseSpendContext_def json_roundtrip_def)
qed

text \<open>A context that does not validate cannot be approved: while the spend stage still holds the call,
  every approval parks it again. A description of more than 120 units is stored and then rejected.\<close>

lemma unreadable_context_reparks:
  assumes "rc_tool rc = Some t" "te_spend t = Some sp"
    "runSpendStage env (tw_readable w) sp (rc_input rc) (h_session_id (rc_row rc)) st = (usd, Some c)"
  shows "repark_context env w rc ApproveOnce (Some None) st = Some (usd, c)"
  using assms by (simp add: repark_context_def)

lemma long_summary_unreadable:
  assumes "sh_summary c = Some t" "length t > 120" "json_roundtrip env (hold_context_json c)"
  shows "parseSpendContext env (Some (stringify (ev_show_frac env) (hold_context_json c))) = Some None"
proof -
  have ks: "js ''summary'' \<noteq> js ''amountCents''" "js ''summary'' \<noteq> js ''reason''" "js ''summary'' \<noteq> js ''breaches''"
    by (simp_all add: js_def)
  have "context_of (hold_context_json c) = None"
    using assms(1,2) ks by (simp add: context_of_def hold_context_json_def summary_of_def split: option.split)
  moreover have "stringify (ev_show_frac env) (hold_context_json c) \<noteq> []" by (simp add: hold_context_json_def)
  ultimately show ?thesis
    using assms(3) by (simp add: parseSpendContext_def present_def json_roundtrip_def hold_context_json_def[THEN arg_cong, of is_object])
qed

section \<open>Witnesses\<close>

text \<open>A parked mail whose turn parses, and whose marked turn parses back.\<close>

definition ex_turn :: json where
  "ex_turn = seeded_turn (js ''h1'') (js ''t'') [(js ''to'', JStr (js ''bob''))]"

definition ex_renv :: agent_env where
  "ex_renv = ex_env1\<lparr>ev_json_parse := (\<lambda>t. Some (turn_envelope (if t = [] then ex_turn else with_dispatched ex_turn)))\<rparr>"

definition ex_rw :: resolve_world where
  "ex_rw = \<lparr>rw_tools = ex_world, rw_resume = (\<lambda>_ st. (Inl (LoopError []), st)), rw_after_resume = 3000\<rparr>"

lemma ex_turn_read: "loadHeldCall ex_renv ex_ready (js ''h1'') = Some (ex_hold ''h1'')"
  "parseTurnState (ev_json_parse ex_renv) (h_turn_state (ex_hold ''h1'')) = TurnOk ex_turn"
  by (simp_all add: loadHeldCall_def readHeldCall_def session_expired_def sessionStartedAt_def readSessionStartedAt_def
      read_session_def first_row_def ex_renv_def ex_env1_def ex_agent_env_def ex_ready_def ex_agent_def ex_hold_def
      SESSION_LIFETIME_MS_def parseTurnState_def turn_envelope_def CANONICAL_SHAPE_VERSION_def migrateHeldTurn_def
      integral_def js_def ex_turn_def seeded_turn_def)


definition ex_spending :: agent where
  "ex_spending = ex_ready\<lparr>db_held := [(ex_hold ''h1'')\<lparr>h_spend_context := Some (js ''?'')\<rparr>]\<rparr>"


theorem answer_ends_hold_witness:
  "resolveConfirmation ex_renv ex_rw (js ''h2'') ForTask (js ''u'') None ex_ready = (Inr NotFound, ex_ready)"
proof -
  let ?out = "resolveConfirmation ex_renv ex_rw (js ''h2'') ForTask (js ''u'') None ex_ready"
  have "loadHeldCall ex_renv ex_ready (js ''h2'') = None"
    by (simp add: loadHeldCall_def readHeldCall_def first_row_def ex_ready_def ex_agent_def ex_hold_def js_def)
  then show ?thesis
    using answer_ends_hold[of ex_renv ex_rw "js ''h2''" ForTask "js ''u''" None ex_ready "fst ?out" "snd ?out"]
    by (metis prod.collapse)
qed

definition ex_context :: spend_hold_context where
  "ex_context = \<lparr>sh_amountCents = Some (JInt 1500), sh_reason = OverLimit,
     sh_breaches = [\<lparr>window = MonthWindow, limitCents = JInt 1000, spentCents = JInt 0\<rparr>], sh_summary = Some (js ''2 items'')\<rparr>"

theorem spend_context_roundtrip_witness:
  "parseSpendContext (ex_env1\<lparr>ev_json_parse := \<lambda>_. Some (hold_context_json ex_context)\<rparr>)
     (Some (stringify (\<lambda>_. []) (hold_context_json ex_context))) = Some (Some ex_context)"
proof -
  let ?env = "ex_env1\<lparr>ev_json_parse := \<lambda>_. Some (hold_context_json ex_context)\<rparr>"
  have "storable_context ex_context"
    by (simp add: storable_context_def ex_context_def integral_def max_safe_def js_def)
  moreover have "json_roundtrip ?env (hold_context_json ex_context)" by (simp add: json_roundtrip_def)
  moreover have "ev_show_frac ?env = (\<lambda>_. [])" by (simp add: ex_env1_def ex_agent_env_def)
  ultimately show ?thesis using spend_context_roundtrip[of ex_context ?env] by simp
qed

end
