(* ===== verification/Conversation.thy ===== *)
theory Conversation
  imports Resolve
begin

text \<open>
  The conversation loop (\<open>packages/engine/src/llm/conversation.ts\<close>) and the tool surface a turn is offered
  (\<open>packages/engine/src/llm/tool-definitions.ts\<close>, \<open>packages/tools/src/tools/registry.ts\<close>). Messages and
  content blocks are JSON values of the canonical shape (\<open>llm/types.ts\<close>), as a held turn stores them.
  The model client, the executor and the persistence callback are arguments; the loop returns the
  buffer it leaves beside its result or the error it throws. The lemmas show that every tool call in
  the buffer is answered by the message after it, that a parked turn can be taken up again with no
  call lost, and that a turn makes at most \<open>MAX_ITERATIONS\<close> requests.
\<close>

section \<open>The registry\<close>

definition lookup_in :: "tool_entry list \<Rightarrow> jsstr \<Rightarrow> tool_entry option" where
  "lookup_in catalog nm = find (\<lambda>t. registry_name t = nm) catalog"

record tool_definition =
  td_name :: jsstr
  td_description :: jsstr
  td_input_schema :: json

definition CONNECTED_TAG :: jsstr where
  "CONNECTED_TAG = js ''[CONNECTED]''"

definition NOT_CONNECTED_TAG :: jsstr where
  "NOT_CONNECTED_TAG = js ''[NOT CONNECTED]''"

definition buildToolDefinitions :: "tool_entry list \<Rightarrow> jsstr list \<Rightarrow> bool \<Rightarrow> tool_definition list" where
  "buildToolDefinitions catalog services allowControlPlane =
     map (\<lambda>t. \<lparr>td_name = registry_name t,
            td_description = (if te_service t = CONTROL_PLANE_SERVICE \<or> te_service t \<in> set services
              then CONNECTED_TAG else NOT_CONNECTED_TAG) @ js '' '' @ te_description t,
            td_input_schema = te_inputSchema t\<rparr>)
       (filter (\<lambda>t. te_service t \<noteq> CONTROL_PLANE_SERVICE \<or> allowControlPlane) catalog)"

section \<open>Messages\<close>

definition MAX_ITERATIONS :: nat where
  "MAX_ITERATIONS = 10"

definition message :: "jsstr \<Rightarrow> json \<Rightarrow> json" where
  "message role content = JObj [(js ''role'', JStr role), (js ''content'', content)]"

definition items_at :: "json \<Rightarrow> jsstr \<Rightarrow> json list" where
  "items_at v k = (case jget v k of Some (JArr xs) \<Rightarrow> xs | _ \<Rightarrow> [])"

definition nat_at :: "json \<Rightarrow> jsstr \<Rightarrow> nat" where
  "nat_at v k = (case jget v k of Some (JNum n) \<Rightarrow> nat \<lfloor>num_val n\<rfloor> | _ \<Rightarrow> 0)"

definition is_tool_use :: "json \<Rightarrow> bool" where
  "is_tool_use b \<longleftrightarrow> jget b (js ''type'') = Some (JStr (js ''tool_use''))"

definition text_block :: "jsstr \<Rightarrow> json" where
  "text_block s = JObj [(js ''type'', JStr (js ''text'')), (js ''text'', JStr s)]"

definition block_input :: "json \<Rightarrow> params" where
  "block_input b = own_members (member_at b (js ''input''))"

record llm_request =
  lq_model :: jsstr
  lq_max_tokens :: nat
  lq_system :: "jsstr option"
  lq_messages :: "json list"
  lq_tools :: "tool_definition list option"

record llm_response =
  ls_content :: "json list"
  ls_stop_reason :: "jsstr option"
  ls_input_tokens :: nat
  ls_output_tokens :: nat

text \<open>What a run of the loop is given: the registry, the fixed part of a request, the client (which may
  throw), the executor for the \<open>n\<close>-th recorded call of the turn, and \<open>persistHeldTurn\<close>.\<close>

record loop_world =
  lw_lookup :: "jsstr \<Rightarrow> tool_entry option"
  lw_request :: llm_request
  lw_client :: "llm_request \<Rightarrow> agent \<Rightarrow> (jsstr + llm_response) \<times> agent"
  lw_execute :: "nat \<Rightarrow> jsstr \<Rightarrow> params \<Rightarrow> loop_result act"
  lw_persist :: "jsstr \<Rightarrow> json \<Rightarrow> unit act"

section \<open>classifyToolResult\<close>

definition not_connected_text :: jsstr where
  "not_connected_text = js ''The required service is not connected '' @ [0x2014] @
     js '' no credential is available. Tell the user the service needs to be connected before this tool can run.''"

definition needs_authorization_text :: jsstr where
  "needs_authorization_text = js ''The service is connected, but its stored authorization does not cover this action. Tell the user to re-connect the service (e.g. `habenula connect gmail`) to grant the additional access before this tool can run.''"

record classified =
  cl_content :: jsstr
  cl_isError :: bool
  cl_outcome :: jsstr
  cl_error :: "jsstr option"

definition classifyToolResult :: "agent_env \<Rightarrow> loop_result \<Rightarrow> classified act" where
  "classifyToolResult env r =
     (if lr_notConnected r then ret \<lparr>cl_content = not_connected_text, cl_isError = True, cl_outcome = js ''not_connected'', cl_error = None\<rparr>
      else if lr_needsAuthorization r
      then ret \<lparr>cl_content = needs_authorization_text, cl_isError = True, cl_outcome = js ''needs_authorization'', cl_error = None\<rparr>
      else if lr_boundaryRefused r
      then ret \<lparr>cl_content = CONTROL_PLANE_REFUSAL, cl_isError = True, cl_outcome = js ''boundary_refused'', cl_error = None\<rparr>
      else if lr_denied r
      then ret \<lparr>cl_content = js ''Denied by governance policy'', cl_isError = True, cl_outcome = js ''denied'', cl_error = None\<rparr>
      else if \<not> lr_success r then
        (let e = (case lr_error r of Some e \<Rightarrow> e | None \<Rightarrow> js ''Tool execution failed'') in
         bind (fenceUntrusted env e) (\<lambda>c.
         ret \<lparr>cl_content = c, cl_isError = True, cl_outcome = js ''error'', cl_error = Some e\<rparr>))
      else bind (fenceUntrusted env (stringify (ev_show_frac env) (case lr_data r of Some v \<Rightarrow> v | None \<Rightarrow> JNull))) (\<lambda>c.
        ret \<lparr>cl_content = c, cl_isError = False, cl_outcome = js ''success'', cl_error = None\<rparr>))"

section \<open>Held turns\<close>

definition record_json :: "tool_call_record \<Rightarrow> json" where
  "record_json c = JObj ([(js ''name'', JStr (tc_name c)), (js ''id'', JStr (tc_id c)), (js ''outcome'', JStr (tc_outcome c))]
     @ (case tc_error c of None \<Rightarrow> [] | Some e \<Rightarrow> [(js ''error'', JStr e)]))"

definition held_turn ::
  "json list \<Rightarrow> json \<Rightarrow> json list \<Rightarrow> json list \<Rightarrow> nat \<Rightarrow> tool_call_record list \<Rightarrow> nat \<times> nat \<Rightarrow> json" where
  "held_turn msgs call parked produced iters calls usage =
     JObj [(js ''messages'', JArr msgs), (js ''heldCall'', call), (js ''parkedCalls'', JArr parked),
           (js ''producedResults'', JArr produced), (js ''iterationsUsed'', JNat iters),
           (js ''toolCalls'', JArr (map record_json calls)),
           (js ''usage'', JObj [(js ''inputTokens'', JNat (fst usage)), (js ''outputTokens'', JNat (snd usage))])]"

section \<open>Running the calls of a turn\<close>

text \<open>An exception of a callback leaves the loop with the buffer as it is.\<close>

definition attempt :: "'a act \<Rightarrow> (agent_error + 'a) act" where
  "attempt m st = (Inr (fst (m st)), snd (m st))"

datatype calls_exit = Threw agent_error | Parked conversation_result | Answered "tool_call_record list" "json list"

text \<open>The loop over tool-use blocks, which a fresh turn and the drain of parked calls share: the first call
  that is held parks the ones behind it.\<close>

fun run_calls ::
  "agent_env \<Rightarrow> loop_world \<Rightarrow> json list \<Rightarrow> nat \<Rightarrow> nat \<times> nat \<Rightarrow> json list \<Rightarrow> tool_call_record list \<Rightarrow> json list
   \<Rightarrow> calls_exit act" where
  "run_calls env lw msgs iters usage [] calls results = ret (Answered calls results)"
| "run_calls env lw msgs iters usage (b # bs) calls results =
     (let nm = recordToolName (lw_lookup lw) (text_at b (js ''name'')); i = text_at b (js ''id'') in
      bind (attempt (lw_execute lw (length calls) (text_at b (js ''name'')) (block_input b))) (\<lambda>r. case r of
        Inl e \<Rightarrow> ret (Threw e)
      | Inr lr \<Rightarrow> (case lr_held lr of
          Some held \<Rightarrow>
            (let calls' = calls @ [\<lparr>tc_name = nm, tc_id = i, tc_outcome = js ''held'', tc_error = None\<rparr>] in
             bind (attempt (lw_persist lw (fst held) (held_turn msgs b bs results iters calls' usage))) (\<lambda>p. case p of
               Inl e \<Rightarrow> ret (Threw e)
             | Inr _ \<Rightarrow> ret (Parked \<lparr>cr_response = [], cr_toolCalls = calls', cr_usage = usage, cr_iterations = iters,
                 cr_held = Some (fst held)\<rparr>)))
        | None \<Rightarrow>
            bind (classifyToolResult env lr) (\<lambda>c.
            run_calls env lw msgs iters usage bs
              (calls @ [\<lparr>tc_name = nm, tc_id = i, tc_outcome = cl_outcome c, tc_error = cl_error c\<rparr>])
              (results @ [tool_result i (cl_content c) (cl_isError c)])))))"

section \<open>The loop\<close>

text \<open>\<open>messages.length = n\<close>; a larger length leaves empty slots.\<close>

definition set_length :: "nat \<Rightarrow> json list \<Rightarrow> json list" where
  "set_length n msgs = take n msgs @ replicate (n - length msgs) JNull"

definition response_text :: "json list \<Rightarrow> jsstr" where
  "response_text content =
     concat (map (\<lambda>b. text_at b (js ''text'')) (filter (\<lambda>b. jget b (js ''type'') = Some (JStr (js ''text''))) content))"

definition empty_response_text :: jsstr where
  "empty_response_text = js ''[the model returned an empty response]''"

fun loop_rounds ::
  "agent_env \<Rightarrow> loop_world \<Rightarrow> nat \<Rightarrow> nat \<Rightarrow> json list \<Rightarrow> tool_call_record list \<Rightarrow> nat \<times> nat
   \<Rightarrow> ((agent_error + conversation_result) \<times> json list) act" where
  "loop_rounds env lw rollbackLength 0 msgs calls usage =
     ret (Inr \<lparr>cr_response = js ''[max iterations reached]'', cr_toolCalls = calls, cr_usage = usage,
       cr_iterations = MAX_ITERATIONS, cr_held = None\<rparr>, msgs)"
| "loop_rounds env lw rollbackLength (Suc n) msgs calls usage =
     bind (await (lw_client lw ((lw_request lw)\<lparr>lq_messages := msgs\<rparr>))) (\<lambda>r. case r of
       Inl e \<Rightarrow> ret (Inl (LoopError e), set_length rollbackLength msgs)
     | Inr resp \<Rightarrow>
       (let usage' = (fst usage + ls_input_tokens resp, snd usage + ls_output_tokens resp);
            content = (if ls_content resp = [] then [text_block empty_response_text] else ls_content resp);
            msgs' = msgs @ [message (js ''assistant'') (JArr content)];
            uses = filter is_tool_use (ls_content resp)
        in if ls_stop_reason resp \<noteq> Some (js ''tool_use'') \<or> uses = []
           then ret (Inr \<lparr>cr_response = response_text (ls_content resp), cr_toolCalls = calls, cr_usage = usage',
             cr_iterations = MAX_ITERATIONS - n, cr_held = None\<rparr>, msgs')
           else bind (run_calls env lw msgs' (MAX_ITERATIONS - n) usage' uses calls []) (\<lambda>x. case x of
               Threw e \<Rightarrow> ret (Inl e, msgs')
             | Parked res \<Rightarrow> ret (Inr res, msgs')
             | Answered calls' results \<Rightarrow>
                 loop_rounds env lw rollbackLength n (msgs' @ [message (js ''user'') (JArr results)]) calls' usage')))"

section \<open>Resumption\<close>

definition persisted_call :: "(jsstr \<Rightarrow> tool_entry option) \<Rightarrow> json \<Rightarrow> tool_call_record" where
  "persisted_call lookupTool c =
     \<lparr>tc_name = recordToolName lookupTool (text_at c (js ''name'')), tc_id = text_at c (js ''id''),
      tc_outcome = text_at c (js ''outcome''),
      tc_error = (case jget c (js ''error'') of Some (JStr e) \<Rightarrow> Some e | _ \<Rightarrow> None)\<rparr>"

text \<open>The record of the resolved call takes the place of its \<open>held\<close> record.\<close>

fun settle_record :: "tool_call_record \<Rightarrow> tool_call_record list \<Rightarrow> tool_call_record list" where
  "settle_record new [] = [new]"
| "settle_record new (c # cs) =
     (if tc_id c = tc_id new \<and> tc_outcome c = js ''held'' then new # cs else c # settle_record new cs)"

definition answerAndDrainParkedCalls ::
  "agent_env \<Rightarrow> loop_world \<Rightarrow> json \<Rightarrow> answer \<Rightarrow> tool_call_record list \<Rightarrow> nat \<Rightarrow> nat \<times> nat \<Rightarrow> calls_exit act" where
  "answerAndDrainParkedCalls env lw base a calls iters usage =
     (let heldCall = member_at base (js ''heldCall'');
          resolved = \<lparr>tc_name = recordToolName (lw_lookup lw) (text_at heldCall (js ''name'')),
            tc_id = text_at heldCall (js ''id''), tc_outcome = an_outcome a, tc_error = an_error a\<rparr>
      in run_calls env lw (items_at base (js ''messages'')) iters usage (items_at base (js ''parkedCalls''))
           (settle_record resolved calls) (items_at base (js ''producedResults'') @ [an_result a]))"

datatype loop_input = UserMessage jsstr | Resume json answer

definition turn_usage :: "json \<Rightarrow> nat \<times> nat" where
  "turn_usage base = (nat_at (member_at base (js ''usage'')) (js ''inputTokens''),
     nat_at (member_at base (js ''usage'')) (js ''outputTokens''))"

definition runConversationLoop ::
  "agent_env \<Rightarrow> loop_world \<Rightarrow> json list \<Rightarrow> loop_input \<Rightarrow> ((agent_error + conversation_result) \<times> json list) act" where
  "runConversationLoop env lw messages inp =
     (case inp of
        UserMessage text \<Rightarrow>
          loop_rounds env lw (length messages) MAX_ITERATIONS (messages @ [message (js ''user'') (JStr text)]) [] (0, 0)
      | Resume base a \<Rightarrow>
          (let calls = map (persisted_call (lw_lookup lw)) (items_at base (js ''toolCalls''));
               start = nat_at base (js ''iterationsUsed''); usage = turn_usage base; msgs = items_at base (js ''messages'')
           in bind (answerAndDrainParkedCalls env lw base a calls start usage) (\<lambda>x. case x of
                Threw e \<Rightarrow> ret (Inl e, msgs)
              | Parked res \<Rightarrow> ret (Inr res, msgs)
              | Answered calls' results \<Rightarrow>
                  loop_rounds env lw (length messages) (MAX_ITERATIONS - start)
                    (msgs @ [message (js ''user'') (JArr results)]) calls' usage)))"

section \<open>Well-formed buffers\<close>

definition result_id :: "json \<Rightarrow> jsstr" where
  "result_id r = text_at r (js ''tool_use_id'')"

definition block_id :: "json \<Rightarrow> jsstr" where
  "block_id b = text_at b (js ''id'')"

text \<open>The calls a message makes and the calls it answers.\<close>

definition tool_use_ids :: "json \<Rightarrow> jsstr list" where
  "tool_use_ids m = (if text_at m (js ''role'') = js ''assistant''
     then map block_id (filter is_tool_use (items_at m (js ''content''))) else [])"

definition answer_ids :: "json \<Rightarrow> jsstr list" where
  "answer_ids m = (if text_at m (js ''role'') = js ''user'' then map result_id (items_at m (js ''content'')) else [])"

definition open_ids :: "json list \<Rightarrow> jsstr list" where
  "open_ids msgs = (if msgs = [] then [] else tool_use_ids (last msgs))"

text \<open>Every message with calls that is not the last is followed by their answers, in order.\<close>

fun paired :: "json list \<Rightarrow> bool" where
  "paired [] = True"
| "paired [m] = True"
| "paired (m # m' # ms) = ((tool_use_ids m \<noteq> [] \<longrightarrow> answer_ids m' = tool_use_ids m) \<and> paired (m' # ms))"

text \<open>A held turn that names every open call exactly once: answered, held, or parked behind it.\<close>

definition resumable :: "json \<Rightarrow> bool" where
  "resumable base \<longleftrightarrow> paired (items_at base (js ''messages''))
     \<and> open_ids (items_at base (js ''messages''))
       = map result_id (items_at base (js ''producedResults'')) @ [block_id (member_at base (js ''heldCall''))]
         @ map block_id (items_at base (js ''parkedCalls''))"

lemma paired_snoc: "paired (xs @ [y]) \<longleftrightarrow> paired xs \<and> (open_ids xs \<noteq> [] \<longrightarrow> answer_ids y = open_ids xs)"
  by (induction xs rule: paired.induct) (auto simp: open_ids_def)

lemma paired_prefix: "paired (xs @ ys) \<Longrightarrow> paired xs"
  by (induction ys rule: rev_induct) (simp_all add: paired_snoc flip: append_assoc)

lemma paired_take: "paired xs \<Longrightarrow> paired (take n xs)"
  by (rule paired_prefix[of _ "drop n xs"]) simp

lemma open_ids_snoc [simp]: "open_ids (xs @ [y]) = tool_use_ids y"
  by (simp add: open_ids_def)

lemma js_role: "js ''user'' \<noteq> js ''assistant''" "js ''content'' \<noteq> js ''role''"
  by (simp_all add: js_def)

lemma message_ids [simp]:
  "tool_use_ids (message (js ''user'') v) = []"
  "tool_use_ids (message (js ''assistant'') (JArr bs)) = map block_id (filter is_tool_use bs)"
  "answer_ids (message (js ''user'') (JArr rs)) = map result_id rs"
  using js_role by (simp_all add: message_def tool_use_ids_def answer_ids_def text_at_def items_at_def)

lemma text_block_no_use [simp]: "\<not> is_tool_use (text_block t)"
  by (simp add: is_tool_use_def text_block_def js_def)

lemma result_id_tool_result [simp]: "result_id (tool_result i c e) = i"
  by (simp add: result_id_def tool_result_def text_at_def js_def)

lemma held_turn_members [simp]:
  "items_at (held_turn msgs b bs rs n cs u) (js ''messages'') = msgs"
  "items_at (held_turn msgs b bs rs n cs u) (js ''producedResults'') = rs"
  "items_at (held_turn msgs b bs rs n cs u) (js ''parkedCalls'') = bs"
  "member_at (held_turn msgs b bs rs n cs u) (js ''heldCall'') = b"
  by (simp_all add: held_turn_def items_at_def member_at_def js_def)

section \<open>Lemmas\<close>

lemma lookup_in_Some:
  "distinct (map registry_name catalog) \<Longrightarrow> lookup_in catalog nm = Some t \<longleftrightarrow> t \<in> set catalog \<and> registry_name t = nm"
  unfolding lookup_in_def by (induction catalog) auto

lemma attempt_Inr: "attempt m st = (Inr (fst (m st)), snd (m st))"
  by (simp add: attempt_def)

lemma bind_attempt: "bind (attempt m) f st = f (fst (m st)) (snd (m st))"
  by (simp add: bind_def attempt_def)

lemma bind_await: "bind (await m) f st = f (fst (m st)) (snd (m st))"
  by (simp add: bind_def await_def case_prod_unfold)

lemma classify_total: "\<exists>c st'. classifyToolResult env r st = (Inr c, st')"
  by (auto simp: classifyToolResult_def fenceUntrusted_def bind_def ret_def fresh_uuid_def Let_def)

text \<open>A state that was handed to \<open>persistHeldTurn\<close> last.\<close>

definition persisted :: "loop_world \<Rightarrow> jsstr \<Rightarrow> json \<Rightarrow> agent \<Rightarrow> bool" where
  "persisted lw hid base st' \<longleftrightarrow> (\<exists>st. lw_persist lw hid base st = (Inr (), st'))"

lemma run_calls_exit:
  assumes "paired msgs" "open_ids msgs = map result_id results @ map block_id blocks"
  shows "\<exists>x st'. run_calls env lw msgs iters usage blocks calls results st = (Inr x, st')
    \<and> (case x of Threw e \<Rightarrow> True
       | Parked res \<Rightarrow> cr_iterations res = iters \<and> (\<exists>hid base. cr_held res = Some hid \<and> persisted lw hid base st' \<and> resumable base)
       | Answered calls' results' \<Rightarrow> map result_id results' = open_ids msgs)"
  using assms(2)
proof (induction blocks arbitrary: calls results st)
  case Nil
  then show ?case by (simp add: ret_def)
next
  case (Cons b bs)
  obtain r st1 where x: "lw_execute lw (length calls) (text_at b (js ''name'')) (block_input b) st = (r, st1)" by force
  show ?case
  proof (cases r)
    case (Inl e)
    then show ?thesis by (simp add: bind_attempt x ret_def Let_def)
  next
    case (Inr lr)
    show ?thesis
    proof (cases "lr_held lr")
      case None
      obtain c st2 where c: "classifyToolResult env lr st1 = (Inr c, st2)" using classify_total by blast
      show ?thesis
        using Cons.IH[of "results @ [tool_result (text_at b (js ''id'')) (cl_content c) (cl_isError c)]"
            "calls @ [\<lparr>tc_name = recordToolName (lw_lookup lw) (text_at b (js ''name'')), tc_id = text_at b (js ''id''),
               tc_outcome = cl_outcome c, tc_error = cl_error c\<rparr>]" st2] Cons.prems
        by (simp add: bind_attempt x Inr None c Let_def block_id_def) (simp add: bind_def c)
    next
      case (Some held)
      have "resumable (held_turn msgs b bs results iters cs usage)" for cs
        using assms(1) Cons.prems by (simp add: resumable_def)
      then show ?thesis
        by (auto simp: bind_attempt x Inr Some ret_def Let_def persisted_def split: sum.split) (metis prod.collapse)+
    qed
  qed
qed

text \<open>How a turn may end: on an error the buffer is the one before the turn, or ends in calls that are still
  open; a result has used at most the budget, and a held one was persisted.\<close>

definition sound_exit :: "loop_world \<Rightarrow> json list \<Rightarrow> (agent_error + conversation_result) \<times> json list \<Rightarrow> agent \<Rightarrow> bool" where
  "sound_exit lw before x st' \<longleftrightarrow> paired (snd x)
     \<and> (case fst x of
          Inl e \<Rightarrow> snd x = before \<or> open_ids (snd x) \<noteq> []
        | Inr res \<Rightarrow> cr_iterations res \<le> MAX_ITERATIONS
            \<and> (\<forall>hid. cr_held res = Some hid \<longrightarrow> (\<exists>base. persisted lw hid base st' \<and> resumable base)))"

lemma set_length_take: "n \<le> length msgs \<Longrightarrow> set_length n msgs = take n msgs"
  by (simp add: set_length_def)

lemma run_calls_fresh:
  assumes "paired msgs" "open_ids msgs = map block_id blocks"
  obtains x st' where "run_calls env lw msgs iters usage blocks calls [] st = (Inr x, st')"
    "case x of Threw e \<Rightarrow> True
     | Parked res \<Rightarrow> cr_iterations res = iters \<and> (\<exists>hid base. cr_held res = Some hid \<and> persisted lw hid base st' \<and> resumable base)
     | Answered calls' results' \<Rightarrow> map result_id results' = open_ids msgs"
  using run_calls_exit[of msgs "[]" blocks env lw iters usage calls st] assms by auto

lemma loop_rounds_exit:
  assumes "paired msgs" "open_ids msgs = []" "rb \<le> length msgs"
  shows "\<exists>x st'. loop_rounds env lw rb n msgs calls usage st = (Inr x, st') \<and> sound_exit lw (take rb msgs) x st'"
  using assms
proof (induction n arbitrary: msgs calls usage st)
  case 0
  then show ?case by (simp add: ret_def sound_exit_def)
next
  case (Suc n)
  obtain r st1 where c: "lw_client lw ((lw_request lw)\<lparr>lq_messages := msgs\<rparr>) st = (r, st1)" by force
  show ?case
  proof (cases r)
    case (Inl e)
    then show ?thesis using Suc.prems
      by (simp add: bind_def await_def c ret_def sound_exit_def set_length_take paired_take)
  next
    case (Inr resp)
    define content where "content = (if ls_content resp = [] then [text_block empty_response_text] else ls_content resp)"
    define msgs' where "msgs' = msgs @ [message (js ''assistant'') (JArr content)]"
    define uses where "uses = filter is_tool_use (ls_content resp)"
    define usage' where "usage' = (fst usage + ls_input_tokens resp, snd usage + ls_output_tokens resp)"
    note [simp del] = loop_rounds.simps
    have p': "paired msgs'" "open_ids msgs' = map block_id uses" "take rb msgs' = take rb msgs"
      using Suc.prems by (simp_all add: msgs'_def paired_snoc uses_def content_def)
    have l: "loop_rounds env lw rb (Suc n) msgs calls usage st
        = (if ls_stop_reason resp \<noteq> Some (js ''tool_use'') \<or> uses = []
           then ret (Inr \<lparr>cr_response = response_text (ls_content resp), cr_toolCalls = calls, cr_usage = usage',
             cr_iterations = MAX_ITERATIONS - n, cr_held = None\<rparr>, msgs')
           else bind (run_calls env lw msgs' (MAX_ITERATIONS - n) usage' uses calls []) (\<lambda>x. case x of
               Threw e \<Rightarrow> ret (Inl e, msgs')
             | Parked res \<Rightarrow> ret (Inr res, msgs')
             | Answered calls' results \<Rightarrow>
                 loop_rounds env lw rb n (msgs' @ [message (js ''user'') (JArr results)]) calls' usage')) st1"
      unfolding loop_rounds.simps Let_def msgs'_def content_def uses_def usage'_def
      by (simp only: bind_await c fst_conv snd_conv Inr sum.case)
    show ?thesis
    proof (cases "ls_stop_reason resp \<noteq> Some (js ''tool_use'') \<or> uses = []")
      case True
      then show ?thesis using p'(1) by (auto simp: l ret_def sound_exit_def)
    next
      case False
      obtain x st2 where x: "run_calls env lw msgs' (MAX_ITERATIONS - n) usage' uses calls [] st1 = (Inr x, st2)"
        and ex: "case x of Threw e \<Rightarrow> True
           | Parked res \<Rightarrow> cr_iterations res = MAX_ITERATIONS - n
               \<and> (\<exists>hid base. cr_held res = Some hid \<and> persisted lw hid base st2 \<and> resumable base)
           | Answered calls' results' \<Rightarrow> map result_id results' = open_ids msgs'"
        by (rule run_calls_fresh[OF p'(1,2)])
      show ?thesis
      proof (cases x)
        case (Answered calls' results)
        have "loop_rounds env lw rb (Suc n) msgs calls usage st
            = loop_rounds env lw rb n (msgs' @ [message (js ''user'') (JArr results)]) calls' usage' st2"
          using False by (simp add: l bind_def x Answered)
        moreover have "rb \<le> length msgs'" using Suc.prems(3) by (simp add: msgs'_def)
        ultimately show ?thesis
          using Suc.IH[of "msgs' @ [message (js ''user'') (JArr results)]" calls' usage' st2] p' ex
          by (simp add: paired_snoc Answered)
      qed (use False ex p' in \<open>auto simp: l bind_def x ret_def sound_exit_def\<close>)
    qed
  qed
qed

lemma resume_exit:
  assumes "resumable base" "result_id (an_result a) = block_id (member_at base (js ''heldCall''))"
    "length messages \<le> length (items_at base (js ''messages''))" "nat_at base (js ''iterationsUsed'') \<le> MAX_ITERATIONS"
  shows "\<exists>x st'. runConversationLoop env lw messages (Resume base a) st = (Inr x, st')
     \<and> sound_exit lw (take (length messages) (items_at base (js ''messages''))) x st'"
proof -
  let ?msgs = "items_at base (js ''messages'')"
  have p: "paired ?msgs" and o: "open_ids ?msgs = map result_id (items_at base (js ''producedResults'') @ [an_result a])
      @ map block_id (items_at base (js ''parkedCalls''))" and ne: "open_ids ?msgs \<noteq> []"
    using assms(1,2) by (simp_all add: resumable_def)
  have "\<exists>x st'. answerAndDrainParkedCalls env lw base a calls iters usage st = (Inr x, st')
      \<and> (case x of Threw e \<Rightarrow> True
       | Parked res \<Rightarrow> cr_iterations res = iters \<and> (\<exists>hid base. cr_held res = Some hid \<and> persisted lw hid base st' \<and> resumable base)
       | Answered calls' results' \<Rightarrow> map result_id results' = open_ids ?msgs)" for calls iters usage
    unfolding answerAndDrainParkedCalls_def Let_def by (rule run_calls_exit[OF p o])
  then obtain x st1 where x: "answerAndDrainParkedCalls env lw base a (map (persisted_call (lw_lookup lw)) (items_at base (js ''toolCalls'')))
        (nat_at base (js ''iterationsUsed'')) (turn_usage base) st = (Inr x, st1)"
      and ex: "case x of Threw e \<Rightarrow> True
       | Parked res \<Rightarrow> cr_iterations res = nat_at base (js ''iterationsUsed'')
           \<and> (\<exists>hid base. cr_held res = Some hid \<and> persisted lw hid base st1 \<and> resumable base)
       | Answered calls' results' \<Rightarrow> map result_id results' = open_ids ?msgs"
    by meson
  show ?thesis
  proof (cases x)
    case (Answered calls results)
    have "\<exists>y st'. loop_rounds env lw (length messages) (MAX_ITERATIONS - nat_at base (js ''iterationsUsed''))
        (?msgs @ [message (js ''user'') (JArr results)]) calls (turn_usage base) st1 = (Inr y, st')
        \<and> sound_exit lw (take (length messages) (?msgs @ [message (js ''user'') (JArr results)])) y st'"
      by (rule loop_rounds_exit) (use p ne ex Answered assms(3) in \<open>simp_all add: paired_snoc\<close>)
    then show ?thesis
      using assms(3) by (simp add: runConversationLoop_def Let_def bind_def x Answered)
  qed (use ex p ne assms(4) in \<open>auto simp: runConversationLoop_def Let_def bind_def x ret_def sound_exit_def\<close>)
qed

lemma conversation_exit:
  assumes "paired messages" "open_ids messages = []"
  shows "\<exists>x st'. runConversationLoop env lw messages (UserMessage text) st = (Inr x, st') \<and> sound_exit lw messages x st'"
proof -
  have "\<exists>x st'. loop_rounds env lw (length messages) MAX_ITERATIONS (messages @ [message (js ''user'') (JStr text)]) [] (0, 0) st
      = (Inr x, st') \<and> sound_exit lw (take (length messages) (messages @ [message (js ''user'') (JStr text)])) x st'"
    using assms by (intro loop_rounds_exit) (simp_all add: paired_snoc)
  then show ?thesis by (simp add: runConversationLoop_def)
qed

section \<open>Properties\<close>

text \<open>C11: Taking up a parked turn answers every call it left open: from any persisted state that accounts for
  its open calls, with an answer for the held one, the resumed turn ends within the rest of the budget
  and again leaves a buffer where every earlier call is answered by the next message, or has parked
  the next call in such a state.\<close>

theorem resumed_turn_sound:
  assumes "resumable base" "result_id (an_result a) = block_id (member_at base (js ''heldCall''))"
    "length messages \<le> length (items_at base (js ''messages''))" "nat_at base (js ''iterationsUsed'') \<le> MAX_ITERATIONS"
  shows "\<exists>x st'. runConversationLoop env lw messages (Resume base a) st = (Inr x, st')
     \<and> sound_exit lw (take (length messages) (items_at base (js ''messages''))) x st'"
  by (rule resume_exit[OF assms])

text \<open>The two halves of the trust boundary agree. On every surface the tools a turn is offered are exactly
  the registered tools whose calls the dispatch half lets past; a tool that is withheld is refused when
  the model names it anyway. Tool names are unique in the catalog.\<close>

theorem offer_matches_dispatch:
  assumes "distinct (map registry_name catalog)" "tw_lookup w = lookup_in catalog"
  shows "ep_toolName ep \<in> td_name ` set (buildToolDefinitions catalog services
       (controlPlaneAllowed (case ep_runOrigin ep of Some u \<Rightarrow> u | None \<Rightarrow> HumanRun)))
     \<longleftrightarrow> lookup_in catalog (ep_toolName ep) \<noteq> None \<and> \<not> boundary_refuses w ep"
proof -
  note lk = lookup_in_Some[OF assms(1)]
  let ?a = "controlPlaneAllowed (case ep_runOrigin ep of Some u \<Rightarrow> u | None \<Rightarrow> HumanRun)"
  have "ep_toolName ep \<in> td_name ` set (buildToolDefinitions catalog services ?a)
      \<longleftrightarrow> (\<exists>t. lookup_in catalog (ep_toolName ep) = Some t \<and> (te_service t \<noteq> CONTROL_PLANE_SERVICE \<or> ?a))"
    by (force simp: lk buildToolDefinitions_def)
  also have "\<dots> \<longleftrightarrow> lookup_in catalog (ep_toolName ep) \<noteq> None \<and> \<not> boundary_refuses w ep"
    by (auto simp: boundary_refuses_def isControlPlaneTool_def assms(2))
  finally show ?thesis .
qed

section \<open>Witnesses\<close>

text \<open>A model that asks for one call, and an executor that holds it.\<close>

definition ex_use :: json where
  "ex_use = JObj [(js ''type'', JStr (js ''tool_use'')), (js ''id'', JStr (js ''c1'')), (js ''name'', JStr (js ''t'')), (js ''input'', JObj [])]"

definition ex_loop :: loop_world where
  "ex_loop = \<lparr>lw_lookup = (\<lambda>_. None),
     lw_request = \<lparr>lq_model = [], lq_max_tokens = 1, lq_system = None, lq_messages = [], lq_tools = None\<rparr>,
     lw_client = (\<lambda>_ st. (Inr \<lparr>ls_content = [ex_use], ls_stop_reason = Some (js ''tool_use''), ls_input_tokens = 1,
       ls_output_tokens = 1\<rparr>, st)),
     lw_execute = (\<lambda>_ _ _. ret \<lparr>lr_success = False, lr_data = None, lr_error = None, lr_denied = False, lr_notConnected = False,
       lr_needsAuthorization = False, lr_boundaryRefused = False, lr_held = Some (js ''h1'', js ''p1'')\<rparr>),
     lw_persist = (\<lambda>_ _. ret ())\<rparr>"

definition ex_held_turn :: json where
  "ex_held_turn = held_turn [message (js ''assistant'') (JArr [ex_use])] ex_use [] [] 1 [] (1, 1)"

theorem resumed_turn_sound_witness:
  "\<exists>x st'. runConversationLoop ex_agent_env ex_loop []
       (Resume ex_held_turn \<lparr>an_result = tool_result (js ''c1'') [] False, an_outcome = js ''success'', an_error = None\<rparr>) ex_agent
     = (Inr x, st') \<and> sound_exit ex_loop [] x st'"
proof -
  let ?a = "\<lparr>an_result = tool_result (js ''c1'') [] False, an_outcome = js ''success'', an_error = None\<rparr>"
  have u: "is_tool_use ex_use" "block_id ex_use = js ''c1''"
    by (simp_all add: ex_use_def is_tool_use_def block_id_def text_at_def js_def)
  have "resumable ex_held_turn" using u by (simp add: resumable_def ex_held_turn_def open_ids_def)
  moreover have "result_id (an_result ?a) = block_id (member_at ex_held_turn (js ''heldCall''))"
    using u by (simp add: ex_held_turn_def)
  moreover have "nat_at ex_held_turn (js ''iterationsUsed'') \<le> MAX_ITERATIONS"
    by (simp add: ex_held_turn_def held_turn_def nat_at_def MAX_ITERATIONS_def js_def)
  ultimately show ?thesis
    using resumed_turn_sound[of ex_held_turn ?a "[]" ex_agent_env ex_loop ex_agent] by simp
qed

theorem offer_matches_dispatch_witness:
  "registry_name ex_tool \<in> td_name ` set (buildToolDefinitions [ex_tool] [] (controlPlaneAllowed HumanRun))
     \<longleftrightarrow> \<not> boundary_refuses (ex_world\<lparr>tw_lookup := lookup_in [ex_tool]\<rparr>) (ex_ep\<lparr>ep_toolName := registry_name ex_tool\<rparr>)"
  using offer_matches_dispatch[of "[ex_tool]" "ex_world\<lparr>tw_lookup := lookup_in [ex_tool]\<rparr>" "ex_ep\<lparr>ep_toolName := registry_name ex_tool\<rparr>" "[]"]
  by (simp add: ex_ep_def lookup_in_def)

end
