(* ===== verification/Turns.thy ===== *)
theory Turns
  imports Conversation
begin

text \<open>
  The turns of the coordinator (\<open>packages/engine/src/agent/user-agent.ts\<close>): \<open>chat\<close> with its repair of
  stranded holds and orphaned calls, \<open>commissionGoal\<close> with its bounded admission, and the resumption of
  a held turn, each running the conversation loop with the coordinator's own executor and persistence
  callback. The human conversation buffer is an argument and a result of a turn; what an error of the
  loop leaves in it is returned beside the error. The lemmas show that the queue of commissions stays
  bounded and that no turn creates a grant.
\<close>

section \<open>The loop of a turn\<close>

text \<open>The world of a turn: for the \<open>n\<close>-th call the clock when it starts and the world it runs in, the
  catalog, the model client with the deployment's parameters and prompts, and the clock at the end.\<close>

record turn_world =
  uw_tools :: "nat \<Rightarrow> tool_world"
  uw_clock :: "nat \<Rightarrow> int"
  uw_catalog :: "tool_entry list"
  uw_client :: "llm_request \<Rightarrow> agent \<Rightarrow> (jsstr + llm_response) \<times> agent"
  uw_model :: jsstr
  uw_max_tokens :: nat
  uw_prompt :: jsstr
  uw_notice :: jsstr
  uw_after :: int

fun surface_text :: "run_surface \<Rightarrow> jsstr" where
  "surface_text InternalRun = js ''internal''"
| "surface_text HumanRun = js ''human''"
| "surface_text CommissionRun = js ''commission''"

record turn_params =
  tp_userId :: jsstr
  tp_agentId :: jsstr
  tp_origin :: "audit_origin option"
  tp_surface :: run_surface
  tp_runId :: "jsstr option"

definition turn_call :: "turn_params \<Rightarrow> jsstr \<Rightarrow> params \<Rightarrow> execute_params" where
  "turn_call tp nm ps =
     \<lparr>ep_toolName = nm, ep_toolParams = ps, ep_userId = tp_userId tp, ep_agentId = tp_agentId tp, ep_origin = tp_origin tp,
      ep_runOrigin = Some (tp_surface tp), ep_runId = tp_runId tp, ep_epochId = None, ep_timestamp = None\<rparr>"

text \<open>\<open>persistHeldTurn\<close> records the run's surface on the held turn.\<close>

definition persist_turn :: "agent_env \<Rightarrow> run_surface \<Rightarrow> jsstr \<Rightarrow> json \<Rightarrow> unit act" where
  "persist_turn env surface hid state =
     storeHeldTurnState hid (wrapTurnState env
       (JObj (obj_set (js ''origin'') (JStr (surface_text surface)) (own_members state))))"

definition turn_request :: "turn_world \<Rightarrow> turn_params \<Rightarrow> jsstr list \<Rightarrow> llm_request" where
  "turn_request uw tp services =
     (let tools = buildToolDefinitions (uw_catalog uw) services (controlPlaneAllowed (tp_surface tp)) in
      \<lparr>lq_model = uw_model uw, lq_max_tokens = uw_max_tokens uw,
       lq_system = Some (if present (tp_runId tp) = None then uw_prompt uw else uw_prompt uw @ [10, 10] @ uw_notice uw),
       lq_messages = [], lq_tools = (if tools = [] then None else Some tools)\<rparr>)"

definition turn_loop :: "agent_env \<Rightarrow> turn_world \<Rightarrow> turn_params \<Rightarrow> jsstr list \<Rightarrow> loop_world" where
  "turn_loop env uw tp services =
     \<lparr>lw_lookup = lookup_in (uw_catalog uw), lw_request = turn_request uw tp services, lw_client = uw_client uw,
      lw_execute = (\<lambda>n nm ps. executeToolForLoop (env\<lparr>ev_now := uw_clock uw n\<rparr>) (uw_tools uw n) (turn_call tp nm ps)),
      lw_persist = persist_turn env (tp_surface tp)\<rparr>"

definition run_turn ::
  "agent_env \<Rightarrow> turn_world \<Rightarrow> turn_params \<Rightarrow> json list \<Rightarrow> loop_input \<Rightarrow> ((agent_error + conversation_result) \<times> json list) act" where
  "run_turn env uw tp messages inp =
     bind (read (\<lambda>st. map fst (listConnectedServices (db_services st)))) (\<lambda>services.
     runConversationLoop env (turn_loop env uw tp services) messages inp)"

section \<open>Resumption of a held turn\<close>

definition resume_params :: "resume_args \<Rightarrow> turn_params" where
  "resume_params ra = \<lparr>tp_userId = ra_userId ra, tp_agentId = ra_agentId ra, tp_origin = Some (ra_origin ra),
     tp_surface = heldRunOrigin (ra_turnState ra) (ra_runId ra), tp_runId = ra_runId ra\<rparr>"

text \<open>A commission resumes on a throwaway buffer, a human turn on the shared one.\<close>

definition loop_resume ::
  "agent_env \<Rightarrow> turn_world \<Rightarrow> json list \<Rightarrow> resume_args \<Rightarrow> agent \<Rightarrow> (agent_error + conversation_result) \<times> agent" where
  "loop_resume env uw buffer ra st =
     (case run_turn env uw (resume_params ra) (if ra_runId ra = None then buffer else []) (Resume (ra_turnState ra) (ra_answer ra)) st of
        (Inr (r, _), st') \<Rightarrow> (r, st')
      | (Inl e, st') \<Rightarrow> (Inl e, st'))"

definition resume_world :: "agent_env \<Rightarrow> turn_world \<Rightarrow> tool_world \<Rightarrow> json list \<Rightarrow> resolve_world" where
  "resume_world env uw w buffer =
     \<lparr>rw_tools = w, rw_resume = loop_resume env uw buffer, rw_after_resume = uw_after uw\<rparr>"

section \<open>chat\<close>

definition orphan_text :: jsstr where
  "orphan_text = js ''The session ended before this call was resolved; its result was not recorded and it may or may not have executed.''"

text \<open>The tool uses of a trailing assistant message with block content.\<close>

definition orphans :: "json list \<Rightarrow> json list" where
  "orphans buffer =
     (if buffer = [] then [] else
      (let lastm = last buffer in
       if text_at lastm (js ''role'') \<noteq> js ''assistant'' then []
       else filter is_tool_use (items_at lastm (js ''content''))))"

definition repair_answers :: "jsstr list \<Rightarrow> json list \<Rightarrow> json list" where
  "repair_answers healed uses =
     map (\<lambda>b. if block_id b \<in> set healed then tool_result (block_id b) DISPATCH_RECOVERY_RESULT False
              else tool_result (block_id b) orphan_text True) uses"

definition repairOrphanedToolUse :: "agent_env \<Rightarrow> jsstr list \<Rightarrow> json list \<Rightarrow> json list act" where
  "repairOrphanedToolUse env healed buffer =
     (let uses = orphans buffer in
      if uses = [] then ret buffer
      else bind (discardResolvedHeldCalls env (set (map block_id uses))) (\<lambda>_.
        ret (buffer @ [message (js ''user'') (JArr (repair_answers healed uses))])))"

datatype chat_reply = ChatBusy | ChatDone conversation_result | ChatFailed agent_error

definition held_notice :: jsstr where
  "held_notice = js ''A tool call is awaiting your confirmation. Please resolve the pending request before sending another message.''"

definition chat_params :: "jsstr \<Rightarrow> jsstr \<Rightarrow> run_surface \<Rightarrow> turn_params" where
  "chat_params user ag surface = \<lparr>tp_userId = user, tp_agentId = ag, tp_origin = None, tp_surface = surface, tp_runId = None\<rparr>"

definition chat_body ::
  "agent_env \<Rightarrow> turn_world \<Rightarrow> json list \<Rightarrow> jsstr \<Rightarrow> jsstr \<Rightarrow> jsstr \<Rightarrow> run_surface \<Rightarrow> (chat_reply \<times> json list) act" where
  "chat_body env uw buffer text user ag surface =
     bind (reapExpiredSessions env) (\<lambda>_.
     bind (healCrashedDispatchHolds env (lookup_in (uw_catalog uw)) user ag) (\<lambda>healed.
     bind (read (\<lambda>st. present (first_row (unresolvedHeldCallIds env (\<lambda>r. h_run_id r = None) st)))) (\<lambda>outstanding.
     case outstanding of
       Some hid \<Rightarrow> ret (ChatDone \<lparr>cr_response = held_notice, cr_toolCalls = [], cr_usage = (0, 0), cr_iterations = 0,
           cr_held = Some hid\<rparr>, buffer)
     | None \<Rightarrow>
       bind (repairOrphanedToolUse env healed buffer) (\<lambda>buffer'.
       bind (resolveActiveSession env user ag Human) (\<lambda>_.
       bind (run_turn env uw (chat_params user ag surface) buffer' (UserMessage text)) (\<lambda>(r, buffer'').
       ret (case r of Inr res \<Rightarrow> ChatDone res | Inl e \<Rightarrow> ChatFailed e, buffer'')))))))"

definition chat ::
  "agent_env \<Rightarrow> turn_world \<Rightarrow> json list \<Rightarrow> jsstr \<Rightarrow> jsstr \<Rightarrow> jsstr option \<Rightarrow> run_surface option \<Rightarrow> (chat_reply \<times> json list) act" where
  "chat env uw buffer text user agOpt surfaceOpt =
     withTurnGate (ChatBusy, buffer) (chat_body env uw buffer text user
       (case agOpt of Some a \<Rightarrow> a | None \<Rightarrow> js ''default'') (case surfaceOpt of Some u \<Rightarrow> u | None \<Rightarrow> HumanRun))"

section \<open>commissionGoal\<close>

definition COMMISSION_GOAL_MAX_CHARS :: nat where
  "COMMISSION_GOAL_MAX_CHARS = 4000"

definition COMMISSION_DATA_MAX_CHARS :: nat where
  "COMMISSION_DATA_MAX_CHARS = 16000"

definition MAX_PENDING_COMMISSIONS :: nat where
  "MAX_PENDING_COMMISSIONS = 8"

text \<open>The published slot vocabulary; a key that no placeholder can name throws.\<close>

definition publishedDataSlots :: "tool_entry list \<Rightarrow> jsstr + jsstr list" where
  "publishedDataSlots catalog =
     (let ks = concat (map (\<lambda>t. map fst (te_dataSlots t)) catalog) in
      case find (\<lambda>k. k = [] \<or> \<not> list_all slot_char k) ks of
        Some k \<Rightarrow> Inl (js ''unbindable dataSlot key: '' @ k)
      | None \<Rightarrow> Inr ks)"

fun comma_list :: "jsstr list \<Rightarrow> jsstr" where
  "comma_list [] = []"
| "comma_list [k] = k"
| "comma_list (k # ks) = k @ js '', '' @ comma_list ks"

type_synonym data_map = "(jsstr \<times> jsstr) list"

definition assertPublishedData :: "tool_entry list \<Rightarrow> jsstr \<Rightarrow> data_map \<Rightarrow> unit act" where
  "assertPublishedData catalog caller data =
     (case publishedDataSlots catalog of
        Inl e \<Rightarrow> throw (InvalidData e)
      | Inr published \<Rightarrow>
        (let strange = filter (\<lambda>k. k \<notin> set published) (map fst data) in
         if strange \<noteq> [] then throw (InvalidData (caller @ js '': unpublished data keys: '' @ comma_list strange))
         else if sum_list (map (\<lambda>kv. length (snd kv)) data) > COMMISSION_DATA_MAX_CHARS
         then throw (InvalidData (caller @ js '': data values exceed '' @ js_of_nat COMMISSION_DATA_MAX_CHARS @ js '' characters''))
         else ret ()))"

text \<open>One round of the admission loop: reconcile a run and count it if it still waits.\<close>

definition admit_run :: "agent_env \<Rightarrow> commission_row \<Rightarrow> nat act" where
  "admit_run env r =
     (let counted = (if t_origin r = OMcpCommission then 1 else 0) in
      if t_status r = Running then
        bind (read (\<lambda>st. selectHeldCallForRun (db_held st) (t_id r))) (\<lambda>liveHold.
        bind (modify (\<lambda>st. st\<lparr>db_runs := updateCommissionStatus (t_id r)
          (if liveHold \<noteq> None then AwaitingConfirmation else Failed) (now_iso env) (db_runs st)\<rparr>)) (\<lambda>_.
        ret (if liveHold \<noteq> None then counted else 0)))
      else bind (read (\<lambda>st. readSessionEndedAt (db_sessions st) (t_session_id r))) (\<lambda>ended.
        if ended \<noteq> None
        then bind (modify (\<lambda>st. st\<lparr>db_runs := expireRun (t_id r) (now_iso env) (db_runs st)\<rparr>)) (\<lambda>_. ret 0)
        else ret counted))"

fun admit_runs :: "agent_env \<Rightarrow> commission_row list \<Rightarrow> nat act" where
  "admit_runs env [] = ret 0"
| "admit_runs env (r # rs) = bind (admit_run env r) (\<lambda>n. bind (admit_runs env rs) (\<lambda>m. ret (n + m)))"

definition data_json :: "data_map \<Rightarrow> json" where
  "data_json data = JObj (map (\<lambda>(k, v). (k, JStr v)) data)"

text \<open>Admission: the run that was created, or none when the queue is full.\<close>

definition admit_commission :: "agent_env \<Rightarrow> jsstr \<Rightarrow> data_map option \<Rightarrow> jsstr \<Rightarrow> jsstr \<Rightarrow> jsstr option act" where
  "admit_commission env goal data user ag =
     bind (reapExpiredSessions env) (\<lambda>_.
     bind (read (\<lambda>st. selectNonTerminalRuns (db_runs st))) (\<lambda>nonTerminal.
     bind (admit_runs env nonTerminal) (\<lambda>pendingCount.
     if pendingCount \<ge> MAX_PENDING_COMMISSIONS then ret None
     else
       bind (resolveActiveSession env user ag McpCommission) (\<lambda>s.
       bind (fresh_uuid env) (\<lambda>runId.
       bind (lift_table (\<lambda>st. case insertCommissionRun runId goal
           (map_option (\<lambda>d. stringify (ev_show_frac env) (data_json d)) data) s (now_iso env) (db_runs st) of
         Inl e \<Rightarrow> Inl e | Inr rows \<Rightarrow> Inr (st\<lparr>db_runs := rows\<rparr>))) (\<lambda>_.
       ret (Some runId)))))))"

fun fence_data :: "agent_env \<Rightarrow> data_map \<Rightarrow> jsstr list act" where
  "fence_data env [] = ret []"
| "fence_data env ((k, v) # data) =
     bind (fenceUntrusted env v) (\<lambda>f.
     bind (fence_data env data) (\<lambda>ls.
     ret ((js ''data.'' @ k @ js '' (client-supplied verbatim value; pass unchanged with {{data.'' @ k @ js ''}}):'') # f # ls)))"

fun join_lines :: "jsstr list \<Rightarrow> jsstr" where
  "join_lines [] = []"
| "join_lines [l] = l"
| "join_lines (l # ls) = l @ [10] @ join_lines ls"

definition relay_notice :: jsstr where
  "relay_notice = js ''[Relayed from an external client via Habenula's commission surface '' @ [0x2014] @ js '' not typed by your user]''"

definition composeCommissionMessage :: "agent_env \<Rightarrow> jsstr \<Rightarrow> data_map \<Rightarrow> jsstr act" where
  "composeCommissionMessage env goal data =
     bind (fence_data env data) (\<lambda>ls.
     ret (join_lines ([relay_notice, js ''Goal (client-authored):'', goal] @ ls)))"

definition commissionOutcomeFor :: "jsstr \<Rightarrow> (jsstr \<times> run_status) act" where
  "commissionOutcomeFor runId =
     bind (read (\<lambda>st. readCommissionRun (db_runs st) runId)) (\<lambda>row.
     case row of Some r \<Rightarrow> ret (runId, t_status r) | None \<Rightarrow> throw TypeError)"

datatype commission_outcome = CommissionBusy jsstr | CommissionAt jsstr run_status

definition commission_params :: "jsstr \<Rightarrow> jsstr \<Rightarrow> jsstr \<Rightarrow> turn_params" where
  "commission_params user ag runId =
     \<lparr>tp_userId = user, tp_agentId = ag, tp_origin = Some McpCommission, tp_surface = CommissionRun, tp_runId = Some runId\<rparr>"

text \<open>The body of the \<open>try\<close>: the turn on a buffer of its own, and the status it earns.\<close>

definition commission_turn :: "agent_env \<Rightarrow> turn_world \<Rightarrow> jsstr \<Rightarrow> data_map \<Rightarrow> jsstr \<Rightarrow> jsstr \<Rightarrow> jsstr \<Rightarrow> (jsstr \<times> run_status) act" where
  "commission_turn env uw goal data user ag runId =
     bind (composeCommissionMessage env goal data) (\<lambda>text.
     bind (run_turn env uw (commission_params user ag runId) [] (UserMessage text)) (\<lambda>(r, _).
     case r of Inl e \<Rightarrow> throw e
     | Inr res \<Rightarrow>
       bind (modify (\<lambda>st. st\<lparr>db_runs := updateCommissionStatus runId
         (if cr_held res \<noteq> None then AwaitingConfirmation else commissionTerminalStatus (cr_toolCalls res))
         (iso (uw_after uw)) (db_runs st)\<rparr>)) (\<lambda>_.
       commissionOutcomeFor runId)))"

definition goal_bounds_text :: jsstr where
  "goal_bounds_text = js ''commissionGoal: goal length out of bounds (1..'' @ js_of_nat COMMISSION_GOAL_MAX_CHARS @ js '')''"

definition commissionGoal ::
  "agent_env \<Rightarrow> turn_world \<Rightarrow> jsstr \<Rightarrow> data_map option \<Rightarrow> jsstr \<Rightarrow> jsstr \<Rightarrow> commission_outcome act" where
  "commissionGoal env uw goal data user ag =
     (if goal = [] \<or> length goal > COMMISSION_GOAL_MAX_CHARS then throw (InvalidData goal_bounds_text)
      else bind (case data of None \<Rightarrow> ret () | Some d \<Rightarrow> assertPublishedData (uw_catalog uw) (js ''commissionGoal'') d) (\<lambda>_.
      withTurnGate (CommissionBusy (js ''turn_in_flight'')) (
        bind (admit_commission env goal data user ag) (\<lambda>admitted.
        case admitted of None \<Rightarrow> ret (CommissionBusy (js ''commission_pending''))
        | Some runId \<Rightarrow>
          bind (attempt (commission_turn env uw goal (case data of Some d \<Rightarrow> d | None \<Rightarrow> []) user ag runId)) (\<lambda>r.
          case r of Inr (i, status) \<Rightarrow> ret (CommissionAt i status)
          | Inl _ \<Rightarrow>
            bind (modify (\<lambda>st. st\<lparr>db_runs := updateCommissionStatus runId Failed (iso (uw_after uw)) (db_runs st)\<rparr>)) (\<lambda>_.
            bind (commissionOutcomeFor runId) (\<lambda>(i, status). ret (CommissionAt i status))))))))"

section \<open>Invariants\<close>

text \<open>What the environment of a call and of a turn keeps at its awaits.\<close>

definition calls_keep :: "(agent \<Rightarrow> bool) \<Rightarrow> tool_world \<Rightarrow> bool" where
  "calls_keep P w \<longleftrightarrow> (\<forall>tool ps st. P st \<longrightarrow> P (snd (tw_execute w tool ps st))) \<and> (\<forall>svc st. P st \<longrightarrow> P (snd (tw_scopes w svc st)))"

definition turns_keep :: "(agent \<Rightarrow> bool) \<Rightarrow> turn_world \<Rightarrow> bool" where
  "turns_keep P uw \<longleftrightarrow> (\<forall>q st. P st \<longrightarrow> P (snd (uw_client uw q st))) \<and> (\<forall>n. calls_keep P (uw_tools uw n))"

lemma keeps_attempt [keeps_intros]: "keeps P m \<Longrightarrow> keeps P (attempt m)"
  by (simp add: keeps_def attempt_def)

lemma keeps_sum [keeps_intros]:
  "(\<And>e. keeps P (f e)) \<Longrightarrow> (\<And>x. keeps P (g x)) \<Longrightarrow> keeps P (case r of Inl e \<Rightarrow> f e | Inr x \<Rightarrow> g x)"
  by (cases r) auto

lemma keeps_exit [keeps_intros]:
  "(\<And>e. keeps P (f e)) \<Longrightarrow> (\<And>x. keeps P (g x)) \<Longrightarrow> (\<And>c r. keeps P (h c r)) \<Longrightarrow>
   keeps P (case x of Threw e \<Rightarrow> f e | Parked res \<Rightarrow> g res | Answered c r \<Rightarrow> h c r)"
  by (cases x) auto

context call_invariant
begin

lemma classifyToolResult: "keeps P (classifyToolResult env' r)"
  unfolding classifyToolResult_def fenceUntrusted_def Let_def by (intro keeps_intros stable_P)

lemma executeToolForLoop:
  assumes "calls_keep P w" "ep_epochId ep = None"
  shows "keeps P (executeToolForLoop (env\<lparr>ev_now := t\<rparr>) w ep)"
proof -
  have e: "keeps P (executeTool (env\<lparr>ev_now := t\<rparr>) w (ep\<lparr>ep_toolParams := ps\<rparr>))" for ps
    by (rule executeTool) (use assms in \<open>auto simp: calls_keep_def\<close>)
  have "executeToolForLoop (env\<lparr>ev_now := t\<rparr>) w ep
      = (case present (ep_runId ep) of None \<Rightarrow> bind (executeTool (env\<lparr>ev_now := t\<rparr>) w (ep\<lparr>ep_toolParams := ep_toolParams ep\<rparr>)) (\<lambda>r. ret (loop_result_of r))
         | Some i \<Rightarrow> bind (substituteRunData (env\<lparr>ev_now := t\<rparr>) i (ep_toolParams ep)) (\<lambda>ps.
             bind (executeTool (env\<lparr>ev_now := t\<rparr>) w (ep\<lparr>ep_toolParams := ps\<rparr>)) (\<lambda>r. ret (loop_result_of r))))"
    by (auto simp: executeToolForLoop_def bind_def ret_def fun_eq_iff split: option.split prod.split sum.split)
  then show ?thesis by (simp only:) (intro keeps_intros substituteRunData e)
qed

lemma run_calls:
  assumes "\<And>n nm ps. keeps P (lw_execute lw n nm ps)" "\<And>hid base. keeps P (lw_persist lw hid base)"
  shows "keeps P (run_calls env' lw msgs iters usage blocks calls results)"
  by (induction blocks arbitrary: calls results)
    (auto simp only: run_calls.simps Let_def intro!: keeps_intros assms classifyToolResult)

lemma loop_rounds:
  assumes "\<And>n nm ps. keeps P (lw_execute lw n nm ps)" "\<And>hid base. keeps P (lw_persist lw hid base)"
    "\<And>q st. P st \<Longrightarrow> P (snd (lw_client lw q st))"
  shows "keeps P (loop_rounds env' lw rb n msgs calls usage)"
  by (induction n arbitrary: msgs calls usage)
    (auto simp only: loop_rounds.simps Let_def intro!: keeps_intros await assms run_calls)

lemma run_turn:
  assumes "turns_keep P uw"
  shows "keeps P (run_turn (env\<lparr>ev_now := t\<rparr>) uw tp messages inp)"
proof -
  have x: "keeps P (lw_execute (turn_loop (env\<lparr>ev_now := t\<rparr>) uw tp sv) n nm ps)" for sv n nm ps
    using assms by (auto simp: turn_loop_def turns_keep_def turn_call_def later_clock intro!: executeToolForLoop)
  have p: "keeps P (lw_persist (turn_loop (env\<lparr>ev_now := t\<rparr>) uw tp sv) hid base)" for sv hid base
    by (simp add: turn_loop_def persist_turn_def storeHeldTurnState)
  have c: "P (snd (lw_client (turn_loop (env\<lparr>ev_now := t\<rparr>) uw tp sv) q st))" if "P st" for sv q st
    using assms that by (simp add: turn_loop_def turns_keep_def)
  have "keeps P (runConversationLoop (env\<lparr>ev_now := t\<rparr>) (turn_loop (env\<lparr>ev_now := t\<rparr>) uw tp sv) messages inp)" for sv
    unfolding runConversationLoop_def Let_def answerAndDrainParkedCalls_def
    by (cases inp) (auto intro!: keeps_intros loop_rounds run_calls x p c)
  then show ?thesis unfolding run_turn_def by (intro keeps_intros)
qed

lemma loop_resume:
  assumes "turns_keep P uw" "P st"
  shows "P (snd (loop_resume (env\<lparr>ev_now := t\<rparr>) uw buffer ra st))"
  using keepsD[OF run_turn[OF assms(1)] assms(2)]
  by (auto simp: loop_resume_def split: prod.split sum.split) (metis snd_conv)+

lemma discardResolvedHeldCalls: "keeps P (discardResolvedHeldCalls env' ids)"
proof -
  have "keeps P (case parseTurnState p raw of TurnOk state \<Rightarrow>
      if jget state (js ''answered'') \<noteq> None \<and> truthy_at state (js ''heldCall'')
         \<and> text_at (member_at state (js ''heldCall'')) (js ''id'') \<in> ids
      then delete_held hid else ret () | _ \<Rightarrow> ret ())" for p raw hid
    by (cases "parseTurnState p raw") (auto intro!: keeps_intros delete_held_keeps)
  then show ?thesis unfolding discardResolvedHeldCalls_def by (intro keeps_intros)
qed

lemma chat:
  assumes "turns_keep P uw"
  shows "keeps P (chat (env\<lparr>ev_now := t\<rparr>) uw buffer text u ag sf)"
  unfolding chat_def chat_body_def repairOrphanedToolUse_def Let_def
  by (intro withTurnGate keeps_intros clock.reapExpiredSessions healCrashedDispatchHolds discardResolvedHeldCalls
      clock.resolveActiveSession run_turn assms)

lemma admit_runs: "keeps P (admit_runs env' rs)"
proof -
  have "keeps P (admit_run env' r)" for r
    unfolding admit_run_def Let_def by (intro keeps_intros runs run_step.status run_step.expire)
  then show ?thesis by (induction rs) (auto intro!: keeps_intros)
qed

lemma admit_commission: "keeps P (admit_commission (env\<lparr>ev_now := t\<rparr>) goal data u ag)"
  unfolding admit_commission_def
  by (intro keeps_intros clock.reapExpiredSessions admit_runs clock.resolveActiveSession stable_P keeps_lift_table)
    (auto intro: run_write run_step.insert split: sum.splits)

lemma fence_data: "keeps P (fence_data env' data)"
  by (induction env' data rule: fence_data.induct) (auto simp: fenceUntrusted_def intro!: keeps_intros stable_P)

lemma commissionGoal:
  assumes "turns_keep P uw"
  shows "keeps P (commissionGoal (env\<lparr>ev_now := t\<rparr>) uw goal data u ag)"
proof -
  have o: "keeps P (commissionOutcomeFor i)" for i
    unfolding commissionOutcomeFor_def by (intro keeps_intros)
  have "keeps P (commission_turn (env\<lparr>ev_now := t\<rparr>) uw goal d u ag i)" for d i
    unfolding commission_turn_def composeCommissionMessage_def
    by (intro keeps_intros fence_data run_turn assms runs run_step.status o)
  then show ?thesis
    unfolding commissionGoal_def assertPublishedData_def Let_def
    by (intro keeps_intros withTurnGate admit_commission runs run_step.status o)
qed

end

section \<open>The commission queue\<close>

definition waiting :: "commission_row \<Rightarrow> bool" where
  "waiting r \<longleftrightarrow> t_status r \<in> {Running, AwaitingConfirmation, NeedsInput} \<and> t_origin r = OMcpCommission"

definition waiting_count :: "commission_table \<Rightarrow> nat" where
  "waiting_count rows = length (filter waiting rows)"

text \<open>The same count by id.\<close>

definition waits :: "commission_table \<Rightarrow> jsstr \<Rightarrow> bool" where
  "waits rows i = (case readCommissionRun rows i of Some r \<Rightarrow> waiting r | None \<Rightarrow> False)"

lemma waiting_count_ids:
  assumes "distinct (map t_id rows)"
  shows "waiting_count rows = length (filter (waits rows) (map t_id rows))"
proof -
  have "waits rows (t_id r) = waiting r" if "r \<in> set rows" for r
    using run_pk.read_unique[OF assms that] by (simp add: waits_def)
  then show ?thesis by (simp add: waiting_count_def filter_map comp_def cong: filter_cong)
qed

lemma admit_run_effect:
  assumes "readCommissionRun (db_runs st) (t_id r) = Some r" "t_status r \<in> {Running, AwaitingConfirmation, NeedsInput}"
    "admit_run env r st = (Inr n, st')"
  shows "n = (if waits (db_runs st') (t_id r) then 1 else 0)"
    "i \<noteq> t_id r \<Longrightarrow> readCommissionRun (db_runs st') i = readCommissionRun (db_runs st) i"
    "map t_id (db_runs st') = map t_id (db_runs st)"
proof -
  have ids: "map t_id (update_where p u rows) = map t_id rows" if "\<And>r. t_id (u r) = t_id r" for p u and rows :: commission_table
    by (simp add: update_where_def that)
  note defs = admit_run_def Let_def bind_def read_def modify_def ret_def updateCommissionStatus_def expireRun_def
  show "n = (if waits (db_runs st') (t_id r) then 1 else 0)"
    using assms by (auto simp: defs waits_def waiting_def run_pk.read_update split: if_splits)
  show "map t_id (db_runs st') = map t_id (db_runs st)"
    using assms(3) by (auto simp: defs ids split: if_splits)
  show "readCommissionRun (db_runs st') i = readCommissionRun (db_runs st) i" if "i \<noteq> t_id r"
    using assms(3) that run_pk.read_SomeD[of "db_runs st" i]
    by (auto simp: defs run_pk.read_update split: if_splits) (cases "readCommissionRun (db_runs st) i"; simp)+
qed

lemma admit_runs_effect:
  assumes "\<forall>r \<in> set rs. readCommissionRun (db_runs st) (t_id r) = Some r \<and> t_status r \<in> {Running, AwaitingConfirmation, NeedsInput}"
    "distinct (map t_id rs)" "admit_runs env rs st = (Inr n, st')"
  shows "n = length (filter (waits (db_runs st')) (map t_id rs))
     \<and> (\<forall>i. i \<notin> t_id ` set rs \<longrightarrow> readCommissionRun (db_runs st') i = readCommissionRun (db_runs st) i)
     \<and> map t_id (db_runs st') = map t_id (db_runs st)"
  using assms
proof (induction rs arbitrary: st n)
  case Nil
  then show ?case by (simp add: ret_def)
next
  case (Cons r rs)
  obtain n1 st1 n2 where one: "admit_run env r st = (Inr n1, st1)" and rest: "admit_runs env rs st1 = (Inr n2, st')"
    and n: "n = n1 + n2"
    using Cons.prems(3) by (auto elim!: bind_InrE)
  have r: "readCommissionRun (db_runs st) (t_id r) = Some r" "t_status r \<in> {Running, AwaitingConfirmation, NeedsInput}"
    using Cons.prems(1) by auto
  note eff = admit_run_effect[OF r one]
  have "\<forall>q \<in> set rs. readCommissionRun (db_runs st1) (t_id q) = Some q \<and> t_status q \<in> {Running, AwaitingConfirmation, NeedsInput}"
    using Cons.prems(1,2) eff(2) by (auto simp: image_iff)
  then have ih: "n2 = length (filter (waits (db_runs st')) (map t_id rs))"
      "\<forall>i. i \<notin> t_id ` set rs \<longrightarrow> readCommissionRun (db_runs st') i = readCommissionRun (db_runs st1) i"
      "map t_id (db_runs st') = map t_id (db_runs st1)"
    using Cons.IH[OF _ _ rest] Cons.prems(2) by auto
  have "waits (db_runs st') (t_id r) = waits (db_runs st1) (t_id r)"
    using ih(2) Cons.prems(2) by (simp add: waits_def)
  then show ?case using eff ih n by auto
qed

lemma waiting_after_admission:
  assumes "distinct (map t_id (db_runs st))" "admit_runs env (selectNonTerminalRuns (db_runs st)) st = (Inr n, st')"
  shows "waiting_count (db_runs st') = n \<and> map t_id (db_runs st') = map t_id (db_runs st)"
proof -
  let ?rs = "selectNonTerminalRuns (db_runs st)"
  have "\<forall>r \<in> set ?rs. readCommissionRun (db_runs st) (t_id r) = Some r \<and> t_status r \<in> {Running, AwaitingConfirmation, NeedsInput}"
    using run_pk.read_unique[OF assms(1)] by (auto simp: selectNonTerminalRuns_def)
  moreover have d: "distinct (map t_id ?rs)" using assms(1) by (simp add: selectNonTerminalRuns_def distinct_map_filter)
  ultimately have eff: "n = length (filter (waits (db_runs st')) (map t_id ?rs))"
      "\<forall>i. i \<notin> t_id ` set ?rs \<longrightarrow> readCommissionRun (db_runs st') i = readCommissionRun (db_runs st) i"
      "map t_id (db_runs st') = map t_id (db_runs st)"
    using admit_runs_effect[OF _ d assms(2)] by blast+
  have "\<not> waits (db_runs st') (t_id r)" if r: "r \<in> set (db_runs st)" "r \<notin> set ?rs" for r
  proof -
    have "t_id r \<notin> t_id ` set ?rs"
      using r assms(1) by (auto simp: selectNonTerminalRuns_def distinct_map dest: inj_onD)
    then show ?thesis
      using eff(2) run_pk.read_unique[OF assms(1) r(1)] r(2) by (auto simp: waits_def waiting_def selectNonTerminalRuns_def r(1))
  qed
  then have "filter (\<lambda>r. waits (db_runs st') (t_id r)) (db_runs st) = filter (\<lambda>r. waits (db_runs st') (t_id r)) ?rs"
    by (auto simp: selectNonTerminalRuns_def intro!: filter_cong)
  then have "length (filter (waits (db_runs st')) (map t_id (db_runs st))) = n"
    by (simp add: eff(1) filter_map comp_def)
  then show ?thesis using waiting_count_ids[of "db_runs st'"] assms(1) eff(3) by simp
qed

interpretation queue_shrinks: session_invariant "\<lambda>st. waiting_count (db_runs st) \<le> k" env for k env
proof -
  have "waiting_count (markRunsExpiredForSession s t rows) \<le> waiting_count rows" for s t rows
    by (induction rows)
      (auto simp: waiting_count_def markRunsExpiredForSession_def update_where_def waiting_def)
  then show "session_invariant (\<lambda>st. waiting_count (db_runs st) \<le> k) env" for k env
    by unfold_locales (auto simp: stable_def intro!: keeps_audit_only intro: order_trans)
qed

lemma run_step_distinct: "run_step rows rows' \<Longrightarrow> distinct (map t_id rows) \<Longrightarrow> distinct (map t_id rows')"
proof (induction rule: run_step.induct)
  case (insert i goal data s t rows rows')
  show ?case
    by (rule run_pk.distinct_insert[OF insert(1)[unfolded insertCommissionRun_def] _ insert(2)])
qed (simp_all add: run_writes run_pk.distinct_update)

interpretation run_ids: call_invariant "\<lambda>st. distinct (map t_id (db_runs st))" env for env
  by unfold_locales (auto simp: stable_def intro!: keeps_audit_only dest: run_step_distinct)

subsection \<open>The human buffer\<close>

lemma open_ids_orphans: "open_ids buffer = map block_id (orphans buffer)"
  by (simp add: open_ids_def orphans_def tool_use_ids_def Let_def)

lemma repair_answers_ids: "map result_id (repair_answers healed uses) = map block_id uses"
  by (simp add: repair_answers_def comp_def)

lemma repair_paired:
  assumes "paired buffer" "repairOrphanedToolUse env healed buffer st = (Inr buffer', st')"
  shows "paired buffer' \<and> open_ids buffer' = []"
proof (cases "orphans buffer = []")
  case True
  then show ?thesis using assms by (simp add: repairOrphanedToolUse_def Let_def open_ids_orphans)
next
  case False
  then have "buffer' = buffer @ [message (js ''user'') (JArr (repair_answers healed (orphans buffer)))]"
    using assms(2) by (auto simp: repairOrphanedToolUse_def Let_def elim!: bind_InrE)
  then show ?thesis using assms(1) by (simp add: paired_snoc repair_answers_ids open_ids_orphans[of buffer])
qed

lemma chat_body_paired:
  assumes "paired buffer" "chat_body env uw buffer text u ag sf st = (Inr (reply, buffer'), st')"
  shows "paired buffer' \<and> (\<forall>res. reply = ChatDone res \<longrightarrow> cr_iterations res \<le> MAX_ITERATIONS)"
proof -
  from assms(2) obtain st1 healed st2 where
    k: "(case present (first_row (unresolvedHeldCallIds env (\<lambda>r. h_run_id r = None) st2)) of
       Some hid \<Rightarrow> ret (ChatDone \<lparr>cr_response = held_notice, cr_toolCalls = [], cr_usage = (0, 0), cr_iterations = 0,
           cr_held = Some hid\<rparr>, buffer)
     | None \<Rightarrow>
       bind (repairOrphanedToolUse env healed buffer) (\<lambda>buffer'.
       bind (resolveActiveSession env u ag Human) (\<lambda>_.
       bind (run_turn env uw (chat_params u ag sf) buffer' (UserMessage text)) (\<lambda>(r, buffer'').
       ret (case r of Inr res \<Rightarrow> ChatDone res | Inl e \<Rightarrow> ChatFailed e, buffer''))))) st2 = (Inr (reply, buffer'), st')"
    unfolding chat_body_def by (elim bind_InrE) auto
  show ?thesis
  proof (cases "present (first_row (unresolvedHeldCallIds env (\<lambda>r. h_run_id r = None) st2))")
    case (Some hid)
    then show ?thesis using k assms(1) by auto
  next
    case None
    then obtain b1 st3 st4 r where
      b1: "repairOrphanedToolUse env healed buffer st2 = (Inr b1, st3)"
      and t: "run_turn env uw (chat_params u ag sf) b1 (UserMessage text) st4 = (Inr (r, buffer'), st')"
      and reply: "reply = (case r of Inr res \<Rightarrow> ChatDone res | Inl e \<Rightarrow> ChatFailed e)"
      using k by (auto elim!: bind_InrE)
    let ?lw = "turn_loop env uw (chat_params u ag sf) (map fst (listConnectedServices (db_services st4)))"
    have "runConversationLoop env ?lw b1 (UserMessage text) st4 = (Inr (r, buffer'), st')"
      using t by (simp add: run_turn_def bind_def read_def)
    then have "sound_exit ?lw b1 (r, buffer') st'"
      using conversation_exit[of b1 env ?lw "text" st4] repair_paired[OF assms(1) b1] by auto
    then show ?thesis using reply by (auto simp: sound_exit_def split: sum.splits)
  qed
qed

section \<open>Properties\<close>

text \<open>C14: The queue of commissions is bounded. Admission counts the commissions that wait, after it has set
  the crashed and stranded ones right; it admits a new one only below \<open>MAX_PENDING_COMMISSIONS\<close>, so that at
  most that many wait once the new one is in, and it refuses only when that many wait.\<close>

theorem commission_queue_bounded:
  assumes "distinct (map t_id (db_runs st))" "admit_commission env goal data u ag st = (Inr r, st')"
  shows "(r \<noteq> None \<longrightarrow> waiting_count (db_runs st') \<le> MAX_PENDING_COMMISSIONS)
     \<and> (r = None \<longrightarrow> MAX_PENDING_COMMISSIONS \<le> waiting_count (db_runs st'))"
proof -
  obtain st1 n st2 where st1: "reapExpiredSessions env st = (Inr (), st1)"
    and n: "admit_runs env (selectNonTerminalRuns (db_runs st1)) st1 = (Inr n, st2)"
    and k: "(if n \<ge> MAX_PENDING_COMMISSIONS then ret None
       else bind (resolveActiveSession env u ag McpCommission) (\<lambda>s.
         bind (fresh_uuid env) (\<lambda>runId.
         bind (lift_table (\<lambda>st. case insertCommissionRun runId goal
             (map_option (\<lambda>d. stringify (ev_show_frac env) (data_json d)) data) s (now_iso env) (db_runs st) of
           Inl e \<Rightarrow> Inl e | Inr rows \<Rightarrow> Inr (st\<lparr>db_runs := rows\<rparr>))) (\<lambda>_. ret (Some runId))))) st2 = (Inr r, st')"
    using assms(2) unfolding admit_commission_def by (elim bind_InrE) auto
  have "distinct (map t_id (db_runs st1))"
    using keepsD[OF run_ids.clock.reapExpiredSessions[where env = env and t = "ev_now env"] assms(1)] st1 by simp
  then have w: "waiting_count (db_runs st2) = n" using waiting_after_admission[OF _ n] by blast
  show ?thesis
  proof (cases "n \<ge> MAX_PENDING_COMMISSIONS")
    case True
    then show ?thesis using k w by (auto simp: ret_def)
  next
    case False
    then obtain s st3 i st4 where s: "resolveActiveSession env u ag McpCommission st2 = (Inr s, st3)"
        and i: "fresh_uuid env st3 = (Inr i, st4)"
        and ins: "lift_table (\<lambda>st. case insertCommissionRun i goal
             (map_option (\<lambda>d. stringify (ev_show_frac env) (data_json d)) data) s (now_iso env) (db_runs st) of
           Inl e \<Rightarrow> Inl e | Inr rows \<Rightarrow> Inr (st\<lparr>db_runs := rows\<rparr>)) st4 = (Inr (), st')" "r = Some i"
      using k by (auto elim!: bind_InrE)
    have "waiting_count (db_runs st3) \<le> n"
      using keepsD[OF queue_shrinks.resolveActiveSession[where k = n and env = env and user = u and agent = ag and orig = McpCommission], of st2] s w
      by simp
    moreover have "db_runs st4 = db_runs st3" using i by (auto simp: fresh_uuid_def)
    moreover obtain row where "db_runs st' = db_runs st4 @ [row]"
      using ins(1) by (auto simp: lift_table_def insertCommissionRun_def insert_row_Inr split: sum.splits)
    ultimately show ?thesis using False ins(2) by (auto simp: waiting_count_def)
  qed
qed

text \<open>C12: The human conversation can never be wedged. If in the buffer every message with tool calls but the
  last is followed by exactly their answers, then it is so after every chat turn, whatever the model
  answers, whatever the tools and the client throw, and also when the turn starts on calls that a swept
  hold left open: these are answered first. A turn uses at most \<open>MAX_ITERATIONS\<close> rounds.\<close>

theorem chat_never_wedged:
  assumes "paired buffer" "chat env uw buffer text u ag sf st = (Inr (reply, buffer'), st')"
  shows "paired buffer' \<and> (\<forall>res. reply = ChatDone res \<longrightarrow> cr_iterations res \<le> MAX_ITERATIONS)"
  using assms chat_body_paired[OF assms(1)]
  by (auto simp: chat_def withTurnGate_def split: if_splits prod.splits)

section \<open>Witnesses\<close>

theorem commission_queue_bounded_witness:
  "\<exists>i st'. admit_commission ex_env1 (js ''goal'') None (js ''u'') (js ''a'') ex_ready = (Inr (Some i), st')
     \<and> waiting_count (db_runs st') \<le> MAX_PENDING_COMMISSIONS"
proof -
  have n: "db_runs ex_ready = []" by (simp add: ex_ready_def ex_agent_def)
  then have "\<exists>i st'. admit_commission ex_env1 (js ''goal'') None (js ''u'') (js ''a'') ex_ready = (Inr (Some i), st')"
    by (simp add: admit_commission_def bind_def read_def ret_def ex_ready_session selectNonTerminalRuns_def order_desc_def order_asc_def
       MAX_PENDING_COMMISSIONS_def fresh_uuid_def lift_table_def insertCommissionRun_def insert_row_def split: sum.split)
  then show ?thesis
    using commission_queue_bounded[of ex_ready ex_env1 "js ''goal''" None "js ''u''" "js ''a''"] n by fastforce
qed

definition ex_turn_world :: turn_world where
  "ex_turn_world = \<lparr>uw_tools = (\<lambda>_. ex_world), uw_clock = (\<lambda>_. 1000), uw_catalog = [ex_tool],
     uw_client = (\<lambda>_ st. (Inr \<lparr>ls_content = [text_block (js ''ok'')], ls_stop_reason = None, ls_input_tokens = 1,
       ls_output_tokens = 1\<rparr>, st)), uw_model = [], uw_max_tokens = 1, uw_prompt = [], uw_notice = [], uw_after = 2000\<rparr>"

text \<open>A state without holds, inside the turn gate.\<close>

abbreviation ex_calm :: agent where
  "ex_calm \<equiv> ex_ready\<lparr>db_held := [], turnInFlight := True\<rparr>"

lemma ex_calm_session:
  "reapExpiredSessions ex_env1 ex_calm = (Inr (), ex_calm)"
  "resolveActiveSession ex_env1 u a orig ex_calm = (Inr (js ''s1''), ex_calm)"
  "healCrashedDispatchHolds ex_env1 lt u a ex_calm = (Inr [], ex_calm)"
  "discardResolvedHeldCalls ex_env1 ids ex_calm = (Inr (), ex_calm)"
  "unresolvedHeldCallIds ex_env1 p ex_calm = []"
  by (simp_all add: resolveActiveSession_def reapExpiredSessions_def reap_session_def bind_def read_def ret_def txn_def Let_def
      ex_ready_def ex_agent_def ex_env1_def ex_agent_env_def selectOpenSessions_def selectActiveSession_def sessionStartedAt_def
      readSessionStartedAt_def read_session_def first_row_def SESSION_LIFETIME_MS_def order_desc_def order_asc_def
      healCrashedDispatchHolds_def discardResolvedHeldCalls_def unresolvedHeldCallIds_def selectHeldCalls_def)

lemma ex_run_turn: "\<exists>res b'. run_turn ex_env1 ex_turn_world tp b (UserMessage t) st = (Inr (Inr res, b'), st)"
proof -
  have m: "MAX_ITERATIONS = Suc 9" by (simp add: MAX_ITERATIONS_def)
  show ?thesis
    unfolding run_turn_def runConversationLoop_def loop_input.case m loop_rounds.simps
    by (simp add: bind_def read_def ret_def await_def turn_loop_def ex_turn_world_def Let_def)
qed

theorem chat_never_wedged_witness:
  "\<exists>res buffer' st'. chat ex_env1 ex_turn_world [message (js ''assistant'') (JArr [ex_use])] (js ''hi'') (js ''u'') None None
       (ex_ready\<lparr>db_held := []\<rparr>) = (Inr (ChatDone res, buffer'), st') \<and> paired buffer'"
proof -
  let ?b = "[message (js ''assistant'') (JArr [ex_use])]"
  have f: "\<not> turnInFlight ex_ready" by (simp add: ex_ready_def ex_agent_def)
  have rep: "\<exists>b. repairOrphanedToolUse ex_env1 [] ?b ex_calm = (Inr b, ex_calm)"
    by (simp add: repairOrphanedToolUse_def bind_def ret_def ex_calm_session Let_def)
  then obtain b where b: "repairOrphanedToolUse ex_env1 [] ?b ex_calm = (Inr b, ex_calm)" by blast
  obtain res buffer' where r: "run_turn ex_env1 ex_turn_world (chat_params (js ''u'') (js ''default'') HumanRun) b (UserMessage (js ''hi'')) ex_calm
     = (Inr (Inr res, buffer'), ex_calm)" using ex_run_turn by blast
  have "chat ex_env1 ex_turn_world ?b (js ''hi'') (js ''u'') None None (ex_ready\<lparr>db_held := []\<rparr>)
     = (Inr (ChatDone res, buffer'), ex_calm\<lparr>turnInFlight := False\<rparr>)"
    using r unfolding chat_def withTurnGate_def chat_body_def option.case
    by (simp add: f bind_def read_def ret_def ex_calm_session first_row_def present_def b)
  then show ?thesis using chat_never_wedged[of ?b] by auto
qed

end
