(* ===== verification/Tasks.thy ===== *)
theory Tasks
  imports Turns
begin

text \<open>
  The task operations of the coordinator (\<open>packages/engine/src/agent/user-agent.ts\<close>): the status read behind
  \<open>habenula_result\<close> with its crash repair, \<open>provideTaskInput\<close>, \<open>cancelTask\<close> and \<open>amendTask\<close>. The lemmas show
  what a cancel ends and what it refuses, that a task awaiting the user's answer cannot have its data
  changed, and that supplying input grants nothing.
\<close>

section \<open>Reading a task\<close>

text \<open>\<open>parseAwaitedSlotKeys\<close>; the engine stores arrays of strings.\<close>

definition parseAwaitedSlotKeys :: "agent_env \<Rightarrow> jsstr option \<Rightarrow> jsstr list option" where
  "parseAwaitedSlotKeys env raw =
     (case raw of None \<Rightarrow> None
      | Some t \<Rightarrow> (case ev_json_parse env t of
          Some (JArr xs) \<Rightarrow> Some (concat (map (\<lambda>x. case x of JStr s \<Rightarrow> [s] | _ \<Rightarrow> []) xs))
        | _ \<Rightarrow> None))"

record run_view =
  rv_runId :: jsstr
  rv_status :: run_status
  rv_statusDetail :: "json list option"
  rv_awaitedSlotKeys :: "jsstr list option"

definition view_of :: "agent_env \<Rightarrow> commission_row \<Rightarrow> run_view" where
  "view_of env r = \<lparr>rv_runId = t_id r, rv_status = t_status r, rv_statusDetail = parseStatusDetail env (t_status_detail r),
     rv_awaitedSlotKeys = parseAwaitedSlotKeys env (t_awaited_slot_keys r)\<rparr>"

text \<open>Crash repair: a running task with no turn in flight.\<close>

definition repair_running :: "agent_env \<Rightarrow> jsstr \<Rightarrow> unit act" where
  "repair_running env runId =
     bind (read (\<lambda>st. selectHeldCallForRun (db_held st) runId)) (\<lambda>liveHold.
     modify (\<lambda>st. st\<lparr>db_runs := updateCommissionStatus runId (if liveHold \<noteq> None then AwaitingConfirmation else Failed)
       (now_iso env) (db_runs st)\<rparr>))"

definition read_run :: "jsstr \<Rightarrow> commission_row act" where
  "read_run runId = bind (read (\<lambda>st. readCommissionRun (db_runs st) runId)) (\<lambda>r.
     case r of Some run \<Rightarrow> ret run | None \<Rightarrow> throw TypeError)"

text \<open>The method \<open>readCommissionRun\<close>.\<close>

definition read_commission_run :: "agent_env \<Rightarrow> jsstr \<Rightarrow> run_view option act" where
  "read_commission_run env runId =
     bind (reapExpiredSessions env) (\<lambda>_.
     bind (read (\<lambda>st. (readCommissionRun (db_runs st) runId, turnInFlight st))) (\<lambda>(found, busy).
     case found of None \<Rightarrow> ret None
     | Some run0 \<Rightarrow>
       bind (if t_status run0 = Running \<and> \<not> busy then bind (repair_running env runId) (\<lambda>_. read_run runId) else ret run0) (\<lambda>run1.
       bind (if t_status run1 \<in> {Running, AwaitingConfirmation, NeedsInput}
             then bind (read (\<lambda>st. readSessionEndedAt (db_sessions st) (t_session_id run1))) (\<lambda>ended.
               if ended = None then ret run1
               else bind (modify (\<lambda>st. st\<lparr>db_runs := expireRun runId (now_iso env) (db_runs st)\<rparr>)) (\<lambda>_. read_run runId))
             else ret run1) (\<lambda>run2.
       ret (Some (view_of env run2))))))"

section \<open>Merging data\<close>

text \<open>\<open>{ ...existing, ...data }\<close>, and the size of its values; the length of a value that is no string or
  array is undefined, and a sum with it is never above the cap.\<close>

definition merge_data :: "params \<Rightarrow> data_map \<Rightarrow> params" where
  "merge_data existing data = foldl (\<lambda>ms kv. obj_set (fst kv) (JStr (snd kv)) ms) existing data"

fun value_length :: "json \<Rightarrow> nat option" where
  "value_length (JStr s) = Some (length s)"
| "value_length (JArr xs) = Some (length xs)"
| "value_length _ = None"

definition exceeds_cap :: "params \<Rightarrow> bool" where
  "exceeds_cap ms \<longleftrightarrow> (\<forall>m \<in> set ms. value_length (snd m) \<noteq> None)
     \<and> sum_list (map (\<lambda>m. the (value_length (snd m))) ms) > COMMISSION_DATA_MAX_CHARS"

definition merged_data :: "agent_env \<Rightarrow> jsstr \<Rightarrow> commission_row \<Rightarrow> data_map \<Rightarrow> params act" where
  "merged_data env caller run data =
     bind (case present (t_data run) of None \<Rightarrow> ret [] | Some raw \<Rightarrow> bind (parse_or_throw env raw) (\<lambda>v. ret (own_members v))) (\<lambda>existing.
     (let merged = merge_data existing data in
      if exceeds_cap merged
      then throw (InvalidData (caller @ js '': merged data values exceed '' @ js_of_nat COMMISSION_DATA_MAX_CHARS @ js '' characters''))
      else ret merged))"

section \<open>cancelTask\<close>

datatype cancel_surface = HumanSurface | McpSurface

datatype cancel_result = CancelDone jsstr run_status | CancelRunning jsstr | CancelBusy jsstr | CancelResolving jsstr
  | CancelNotCancellable jsstr run_status | CancelNotFound | CancelForbidden

definition cancel_audit :: "jsstr \<Rightarrow> jsstr \<Rightarrow> jsstr \<Rightarrow> jsstr \<Rightarrow> cancel_surface \<Rightarrow> jsstr \<Rightarrow> audit_params" where
  "cancel_audit user ag s taskId surface t =
     \<lparr>p_userId = user, p_agentId = ag, p_sessionId = s, p_toolName = js ''task.cancel'', p_service = js ''task'',
      p_verb = js ''cancel'', p_noun = taskId, p_decision = Allow,
      p_origin = Some (if surface = McpSurface then McpCommission else Human), p_parametersMetadata = [],
      p_outcome = Success,
      p_errorMessage = Some (if surface = McpSurface then js ''Task cancelled by the owning client (habenula_cancel)''
        else js ''Task cancelled by the user (habenula task cancel)''),
      p_latencyMs = JInt 0, p_costUsd = None, p_epochId = None, p_timestamp = Some t\<rparr>"

definition writeTaskCancelAudit :: "agent_env \<Rightarrow> jsstr \<Rightarrow> jsstr \<Rightarrow> jsstr \<Rightarrow> jsstr \<Rightarrow> cancel_surface \<Rightarrow> jsstr \<Rightarrow> unit act" where
  "writeTaskCancelAudit env user ag s taskId surface t =
     bind (insert_audit env (cancel_audit user ag s taskId surface t)) (\<lambda>_. ret ())"

definition cancel_tx :: "agent_env \<Rightarrow> jsstr \<Rightarrow> cancel_surface \<Rightarrow> jsstr \<Rightarrow> jsstr \<Rightarrow> commission_row \<Rightarrow> held_row list \<Rightarrow> unit act" where
  "cancel_tx env taskId surface user ag row holds =
     bind (for_each holds (\<lambda>h.
       bind (writeHeldCancelOutcome env (h_pending h) (now_iso env) (surface = McpSurface)) (\<lambda>_. delete_held (h_id h)))) (\<lambda>_.
     bind (writeTaskCancelAudit env user ag (t_session_id row) taskId surface (now_iso env)) (\<lambda>_.
     modify (\<lambda>st. st\<lparr>db_runs := cancelRun taskId (now_iso env) (db_runs st)\<rparr>)))"

definition cancel_body :: "agent_env \<Rightarrow> jsstr \<Rightarrow> cancel_surface \<Rightarrow> jsstr \<Rightarrow> jsstr \<Rightarrow> cancel_result act" where
  "cancel_body env taskId surface user ag =
     bind (reapExpiredSessions env) (\<lambda>_.
     bind (read (\<lambda>st. (readCommissionRun (db_runs st) taskId, selectHeldCallsForRun (db_held st) taskId))) (\<lambda>(found, holds).
     case found of None \<Rightarrow> ret CancelNotFound
     | Some row \<Rightarrow>
       if surface = McpSurface \<and> t_origin row \<noteq> OMcpCommission then ret CancelForbidden
       else if t_status row = Running then ret (CancelRunning taskId)
       else if t_status row \<notin> {AwaitingConfirmation, NeedsInput} then ret (CancelNotCancellable taskId (t_status row))
       else if \<exists>h \<in> set holds. turnStateHasResolution env (h_turn_state h) then ret (CancelResolving taskId)
       else bind (txn (cancel_tx env taskId surface user ag row holds)) (\<lambda>_. ret (CancelDone taskId (t_status row)))))"

definition cancelTask :: "agent_env \<Rightarrow> jsstr \<Rightarrow> cancel_surface \<Rightarrow> jsstr \<Rightarrow> jsstr option \<Rightarrow> cancel_result act" where
  "cancelTask env taskId surface user agOpt =
     withTurnGate (CancelBusy taskId) (cancel_body env taskId surface user (case agOpt of Some a \<Rightarrow> a | None \<Rightarrow> js ''default''))"

section \<open>amendTask\<close>

datatype amend_result = AmendBusy jsstr | AmendNotFound | AmendForbidden | AmendRunning jsstr
  | AmendNotAmendable run_status | Amended jsstr run_status

definition amend_body :: "agent_env \<Rightarrow> jsstr \<Rightarrow> data_map \<Rightarrow> amend_result act" where
  "amend_body env taskId data =
     bind (reapExpiredSessions env) (\<lambda>_.
     bind (read (\<lambda>st. readCommissionRun (db_runs st) taskId)) (\<lambda>found.
     case found of None \<Rightarrow> ret AmendNotFound
     | Some run \<Rightarrow>
       if t_origin run \<noteq> OMcpCommission then ret AmendForbidden
       else if t_status run = Running then ret (AmendRunning taskId)
       else if t_status run \<noteq> NeedsInput then ret (AmendNotAmendable (t_status run))
       else bind (merged_data env (js ''amendTask'') run data) (\<lambda>merged.
         bind (modify (\<lambda>st. st\<lparr>db_runs := updateRunData taskId (stringify (ev_show_frac env) (JObj merged))
           (now_iso env) (db_runs st)\<rparr>)) (\<lambda>_.
         ret (Amended taskId (t_status run))))))"

definition amendTask :: "agent_env \<Rightarrow> tool_entry list \<Rightarrow> jsstr \<Rightarrow> data_map \<Rightarrow> amend_result act" where
  "amendTask env catalog taskId data =
     bind (assertPublishedData catalog (js ''amendTask'') data) (\<lambda>_.
     withTurnGate (AmendBusy taskId) (amend_body env taskId data))"

section \<open>provideTaskInput\<close>

datatype provide_result = ProvideBusy | ProvideNotFound | NotAwaitingInput run_status | NoMatchingSlot "jsstr list"
  | Provided jsstr run_status

text \<open>\<open>{ ...turnState, dispatched: undefined, answered: undefined, directExecute: undefined }\<close>: the three members
  are undefined, and serialization leaves them out.\<close>

definition grafted :: "json \<Rightarrow> json" where
  "grafted state = JObj (filter (\<lambda>m. fst m \<notin> {js ''dispatched'', js ''answered'', js ''directExecute''}) (own_members state))"

definition provided_content :: "agent_env \<Rightarrow> loop_result \<Rightarrow> jsstr act" where
  "provided_content env r =
     (if lr_boundaryRefused r then ret CONTROL_PLANE_REFUSAL
      else if lr_denied r then ret (js ''Denied by policy'')
      else fenceUntrusted env (if lr_success r
        then stringify (ev_show_frac env) (case lr_data r of Some v \<Rightarrow> v | None \<Rightarrow> JNull)
        else (case lr_error r of Some e \<Rightarrow> e | None \<Rightarrow> js ''Tool execution failed'')))"

definition provided_answer :: "jsstr \<Rightarrow> loop_result \<Rightarrow> jsstr \<Rightarrow> answer" where
  "provided_answer useId r content =
     \<lparr>an_result = tool_result useId content (lr_denied r \<or> \<not> lr_success r),
      an_outcome = (if lr_boundaryRefused r then js ''boundary_refused'' else if lr_denied r then js ''denied''
        else if lr_success r then js ''success'' else js ''error''),
      an_error = (if lr_boundaryRefused r \<or> lr_denied r \<or> lr_success r then None
        else Some (case lr_error r of Some e \<Rightarrow> e | None \<Rightarrow> js ''Tool execution failed''))\<rparr>"

text \<open>The world of a provide: the re-attempt of the call, the resumed turn, and the clock after the call.\<close>

record provide_world =
  pw_tools :: tool_world
  pw_resume :: "resume_args \<Rightarrow> agent \<Rightarrow> (agent_error + conversation_result) \<times> agent"
  pw_catalog :: "tool_entry list"
  pw_after :: int
  pw_after_resume :: int

text \<open>The two ways a re-attempt ends: parked again, or executed and denied.\<close>

definition provide_parked :: "agent_env \<Rightarrow> jsstr \<Rightarrow> held_row \<Rightarrow> json \<Rightarrow> jsstr \<Rightarrow> unit act" where
  "provide_parked env taskId hold turnState newHold =
     bind (storeHeldTurnState newHold (wrapTurnState env (grafted turnState))) (\<lambda>_.
     bind (delete_held (h_id hold)) (\<lambda>_.
     bind (read_run taskId) (\<lambda>reRead.
     if t_status reRead \<noteq> NeedsInput
     then modify (\<lambda>st. st\<lparr>db_runs := updateCommissionStatus taskId AwaitingConfirmation (now_iso env) (db_runs st)\<rparr>)
     else ret ())))"

definition provide_answered ::
  "agent_env \<Rightarrow> provide_world \<Rightarrow> jsstr \<Rightarrow> jsstr \<Rightarrow> jsstr \<Rightarrow> held_row \<Rightarrow> json \<Rightarrow> loop_result \<Rightarrow> unit act" where
  "provide_answered env pw taskId user ag hold turnState r =
     (let useId = text_at (member_at turnState (js ''heldCall'')) (js ''id'') in
      bind (provided_content env r) (\<lambda>content.
      (let a = provided_answer useId r content; state = with_answered turnState a in
       bind (storeHeldTurnState (h_id hold) (wrapTurnState env state)) (\<lambda>_.
       bind (resumeAndFinalize \<lparr>rw_tools = pw_tools pw, rw_resume = pw_resume pw, rw_after_resume = pw_after_resume pw\<rparr> (h_id hold)
         \<lparr>ra_turnState = state, ra_userId = user, ra_agentId = ag, ra_origin = McpCommission, ra_runId = Some taskId,
          ra_answer = a\<rparr>) (\<lambda>res.
       recordRunAfterResolve (env\<lparr>ev_now := pw_after_resume pw\<rparr>) (Some taskId) res)))))"

definition provide_call :: "json \<Rightarrow> jsstr \<Rightarrow> jsstr \<Rightarrow> jsstr \<Rightarrow> execute_params" where
  "provide_call turnState taskId user ag =
     (let heldCall = member_at turnState (js ''heldCall'') in
      \<lparr>ep_toolName = text_at heldCall (js ''name''), ep_toolParams = own_members (member_at heldCall (js ''input'')),
       ep_userId = user, ep_agentId = ag, ep_origin = Some McpCommission, ep_runOrigin = Some CommissionRun,
       ep_runId = Some taskId, ep_epochId = None, ep_timestamp = None\<rparr>)"

definition provide_gated ::
  "agent_env \<Rightarrow> provide_world \<Rightarrow> jsstr \<Rightarrow> params \<Rightarrow> jsstr \<Rightarrow> jsstr \<Rightarrow> held_row \<Rightarrow> json \<Rightarrow> provide_result act" where
  "provide_gated env pw taskId merged user ag hold turnState =
     bind (modify (\<lambda>st. st\<lparr>db_runs := updateRunData taskId (stringify (ev_show_frac env) (JObj merged)) (now_iso env) (db_runs st)\<rparr>)) (\<lambda>_.
     bind (modify (\<lambda>st. st\<lparr>db_runs := clearNeedsInput taskId (now_iso env) (db_runs st)\<rparr>)) (\<lambda>_.
     bind (storeHeldTurnState (h_id hold) (wrapTurnState env (with_dispatched turnState))) (\<lambda>_.
     bind (executeToolForLoop env (pw_tools pw) (provide_call turnState taskId user ag)) (\<lambda>r.
     (let env' = env\<lparr>ev_now := pw_after pw\<rparr> in
      bind (closeInputParkAudit env' (h_pending hold) (now_iso env)) (\<lambda>_.
      bind (case lr_held r of Some h \<Rightarrow> provide_parked env taskId hold turnState (fst h)
            | None \<Rightarrow> provide_answered env' pw taskId user ag hold turnState r) (\<lambda>_.
      bind (read_run taskId) (\<lambda>finalRun.
      ret (Provided taskId (t_status finalRun))))))))))"

definition provideTaskInput ::
  "agent_env \<Rightarrow> provide_world \<Rightarrow> jsstr \<Rightarrow> data_map \<Rightarrow> jsstr \<Rightarrow> jsstr option \<Rightarrow> provide_result act" where
  "provideTaskInput env pw taskId data user agOpt =
     bind (assertPublishedData (pw_catalog pw) (js ''provideTaskInput'') data) (\<lambda>_.
     bind (reapExpiredSessions env) (\<lambda>_.
     bind (read (\<lambda>st. readCommissionRun (db_runs st) taskId)) (\<lambda>found.
     case found of None \<Rightarrow> ret ProvideNotFound
     | Some run \<Rightarrow>
       if t_status run \<noteq> NeedsInput then ret (NotAwaitingInput (t_status run))
       else (let awaitedKeys = (case parseAwaitedSlotKeys env (t_awaited_slot_keys run) of Some ks \<Rightarrow> ks | None \<Rightarrow> []) in
         if awaitedKeys \<noteq> [] \<and> \<not> (\<exists>k \<in> fst ` set data. k \<in> set awaitedKeys) then ret (NoMatchingSlot awaitedKeys)
         else bind (merged_data env (js ''provideTaskInput'') run data) (\<lambda>merged.
           bind (read (\<lambda>st. selectInputHoldForTask (db_held st) taskId)) (\<lambda>hold.
           case hold of None \<Rightarrow> ret ProvideNotFound
           | Some h \<Rightarrow>
             (case parseTurnState (ev_json_parse env) (h_turn_state h) of
                TurnOk turnState \<Rightarrow>
                  if \<not> truthy_at turnState (js ''heldCall'') then ret ProvideNotFound
                  else withTurnGate ProvideBusy (provide_gated env pw taskId merged user
                    (case agOpt of Some a \<Rightarrow> a | None \<Rightarrow> js ''default'') h turnState)
              | _ \<Rightarrow> ret ProvideNotFound)))))))"

section \<open>Invariants\<close>

context call_invariant
begin

lemma read_run: "keeps P (read_run i)"
  unfolding read_run_def by (intro keeps_intros)

lemma read_commission_run: "keeps P (read_commission_run (env\<lparr>ev_now := t\<rparr>) i)"
  unfolding read_commission_run_def repair_running_def
  by (intro keeps_intros clock.reapExpiredSessions runs run_step.status run_step.expire read_run)

lemma merged_data: "keeps P (merged_data env' caller run data)"
  unfolding merged_data_def parse_or_throw_def Let_def by (intro keeps_intros)

lemma assertPublishedData: "keeps P (assertPublishedData catalog caller data)"
  unfolding assertPublishedData_def Let_def by (intro keeps_intros)

lemma writeHeldCancelOutcome: "keeps P (writeHeldCancelOutcome (env\<lparr>ev_now := t\<rparr>) pending tx mcp)"
  unfolding writeHeldCancelOutcome_def by (intro keeps_intros clo_at) (simp add: closer_params_def)

lemma cancelTask: "keeps P (cancelTask (env\<lparr>ev_now := t\<rparr>) i surface u ag)"
  unfolding cancelTask_def cancel_body_def cancel_tx_def writeTaskCancelAudit_def
  by (intro keeps_intros withTurnGate clock.reapExpiredSessions stable_P writeHeldCancelOutcome delete_held_keeps ins_at
      runs run_step.cancel) (simp add: cancel_audit_def)

lemma amendTask: "keeps P (amendTask (env\<lparr>ev_now := t\<rparr>) catalog i data)"
  unfolding amendTask_def amend_body_def
  by (intro keeps_intros assertPublishedData withTurnGate clock.reapExpiredSessions merged_data runs run_step.data)

lemma closeInputParkAudit: "keeps P (closeInputParkAudit (env\<lparr>ev_now := t\<rparr>) pending tx)"
  unfolding closeInputParkAudit_def by (intro keeps_intros stable_P clo_at) (simp add: closer_params_def)

lemma provideTaskInput:
  assumes "calls_keep P (pw_tools pw)" "\<And>ra st. P st \<Longrightarrow> P (snd (pw_resume pw ra st))"
  shows "keeps P (provideTaskInput (env\<lparr>ev_now := t\<rparr>) pw i data u ag)"
proof -
  have parked: "keeps P (provide_parked env' i hold state new)" for env' hold state new
    unfolding provide_parked_def
    by (intro keeps_intros storeHeldTurnState delete_held_keeps read_run runs run_step.status)
  have answered: "keeps P (provide_answered env' pw i u a hold state r)" for env' a hold state r
    unfolding provide_answered_def provided_content_def fenceUntrusted_def Let_def
    by (intro keeps_intros stable_P storeHeldTurnState resumeAndFinalize recordRunAfterResolve) (simp add: assms(2))
  have call: "keeps P (executeToolForLoop (env\<lparr>ev_now := t\<rparr>) (pw_tools pw) (provide_call state i u a))" for state a
    by (rule executeToolForLoop[OF assms(1)]) (simp add: provide_call_def Let_def)
  have gated: "keeps P (provide_gated (env\<lparr>ev_now := t\<rparr>) pw i merged u a hold state)" for merged a hold state
    unfolding provide_gated_def Let_def later_clock
    by (intro keeps_intros runs run_step.data run_step.resume storeHeldTurnState call closeInputParkAudit parked answered read_run)
  have turn: "keeps P (case parseTurnState p raw of
                TurnOk state \<Rightarrow> if \<not> truthy_at state (js ''heldCall'') then ret ProvideNotFound
                  else withTurnGate ProvideBusy (provide_gated (env\<lparr>ev_now := t\<rparr>) pw i merged u a h state)
              | _ \<Rightarrow> ret ProvideNotFound)" for p raw merged a h
    by (cases "parseTurnState p raw") (auto intro!: keeps_intros withTurnGate gated)
  show ?thesis
    unfolding provideTaskInput_def Let_def
    by (intro keeps_intros assertPublishedData clock.reapExpiredSessions merged_data turn)
qed

end

section \<open>What a cancel does\<close>

lemma post_cancel_holds:
  "post (for_each holds (\<lambda>h. bind (writeHeldCancelOutcome env (h_pending h) t mcp) (\<lambda>_. delete_held (h_id h)))) st
     (\<lambda>_. leaves (filter (\<lambda>r. h_id r \<notin> h_id ` set holds) (db_held st)) (db_runs st) (db_sessions st) st)"
proof (induction holds arbitrary: st)
  case Nil
  show ?case by simp
next
  case (Cons h holds)
  have f: "filter (\<lambda>r. h_id r \<notin> h_id ` set holds) (deleteHeldToolCall (h_id h) rows)
        = filter (\<lambda>r. h_id r \<notin> h_id ` set (h # holds)) rows" for rows
    unfolding deleteHeldToolCall_def delete_where_def filter_filter by (rule filter_cong) auto
  show ?case
    unfolding for_each.simps post_bind delete_held_def post_modify
    by (rule post_mono[OF post_writeHeldCancelOutcome], rule post_mono[OF Cons.IH[unfolded delete_held_def post_bind]])
      (simp add: leaves_def untouched_def f)
qed

lemma post_cancel_tx:
  "post (cancel_tx env i surface u ag row holds) st
     (\<lambda>_ st'. db_held st' = filter (\<lambda>r. h_id r \<notin> h_id ` set holds) (db_held st)
        \<and> db_runs st' = cancelRun i (now_iso env) (db_runs st)
        \<and> toolName (last (db_audit st')) = js ''task.cancel'' \<and> sessionId (last (db_audit st')) = wellFormed (t_session_id row))"
proof -
  have t: "wellFormed (js ''task.cancel'') = js ''task.cancel''" by (simp add: wellFormed_ascii ascii_def js_def)
  have audit: "post (insert_audit env (cancel_audit u ag (t_session_id row) i surface tx)) s
      (\<lambda>_ st'. leaves (db_held s) (db_runs s) (db_sessions s) s st'
        \<and> toolName (last (db_audit st')) = js ''task.cancel'' \<and> sessionId (last (db_audit st')) = wellFormed (t_session_id row))" for s tx
    by (rule post_mono[OF post_conj[OF logs_only_insert post_insert_audit]])
      (auto simp: insertAuditEntryInTxn_def dest!: insertRow_Inr(1), simp_all add: new_row_content cancel_audit_def t)
  show ?thesis
    unfolding cancel_tx_def writeTaskCancelAudit_def post_bind post_modify post_ret
    by (rule post_mono[OF post_cancel_holds], rule post_mono[OF audit]) (auto simp: leaves_def)
qed

lemma holds_of_run_gone:
  assumes "h \<in> set (filter (\<lambda>r. h_id r \<notin> h_id ` set (selectHeldCallsForRun rows i)) rows)"
  shows "h_run_id h \<noteq> Some i"
  using assms by (auto simp: selectHeldCallsForRun_def sql_simps)

lemma cancelRun_reads:
  assumes "readCommissionRun rows i = Some r" "t_status r \<in> {AwaitingConfirmation, NeedsInput}"
  shows "\<exists>r'. readCommissionRun (cancelRun i t rows) i = Some r' \<and> t_status r' = Cancelled \<and> same_run r r'"
  using assms run_pk.read_SomeD[OF assms(1)] by (auto simp: cancelRun_def run_pk.read_update same_run_def)

text \<open>The state a task operation starts from, under the gate and after the reaper.\<close>

definition reaped :: "agent_env \<Rightarrow> agent \<Rightarrow> agent \<Rightarrow> bool" where
  "reaped env st st1 \<longleftrightarrow> reapExpiredSessions env (st\<lparr>turnInFlight := True\<rparr>) = (Inr (), st1)"

section \<open>Properties\<close>

text \<open>C15: A cancelled task is over. When \<open>cancelTask\<close> reports a cancel, the task was parked (awaiting an answer
  or input), none of its holds was being resolved, on the MCP surface it was a commission, and now it
  is cancelled, no held call of it remains, and the log ends in the row of the cancel. Every other
  report leaves the state as the reaper left it.\<close>

theorem cancel_ends_task:
  assumes out: "cancelTask env i surface u ag st = (Inr r, st')"
  shows "(\<forall>prev. r = CancelDone i prev \<longrightarrow> (\<exists>st1 row row'. reaped env st st1 \<and> readCommissionRun (db_runs st1) i = Some row
        \<and> t_status row = prev \<and> prev \<in> {AwaitingConfirmation, NeedsInput} \<and> (surface = McpSurface \<longrightarrow> t_origin row = OMcpCommission)
        \<and> (\<forall>h \<in> set (db_held st1). h_run_id h = Some i \<longrightarrow> \<not> turnStateHasResolution env (h_turn_state h))
        \<and> readCommissionRun (db_runs st') i = Some row' \<and> t_status row' = Cancelled
        \<and> (\<forall>h \<in> set (db_held st'). h_run_id h \<noteq> Some i)
        \<and> toolName (last (db_audit st')) = js ''task.cancel''))
     \<and> ((\<forall>prev. r \<noteq> CancelDone i prev) \<longrightarrow> st' = st \<or> (\<exists>st1. reaped env st st1 \<and> st' = st1\<lparr>turnInFlight := False\<rparr>))"
proof (cases "turnInFlight st")
  case True
  then show ?thesis using out by (auto simp: cancelTask_def withTurnGate_def)
next
  case False
  let ?ag = "case ag of Some a \<Rightarrow> a | None \<Rightarrow> js ''default''"
  obtain st2 where body: "cancel_body env i surface u ?ag (st\<lparr>turnInFlight := True\<rparr>) = (Inr r, st2)"
      and st': "st' = st2\<lparr>turnInFlight := False\<rparr>"
    using out False by (auto simp: cancelTask_def withTurnGate_def split: prod.splits)
  obtain st1 where st1: "reaped env st st1"
    and k: "(case readCommissionRun (db_runs st1) i of None \<Rightarrow> ret CancelNotFound
     | Some row \<Rightarrow>
       if surface = McpSurface \<and> t_origin row \<noteq> OMcpCommission then ret CancelForbidden
       else if t_status row = Running then ret (CancelRunning i)
       else if t_status row \<notin> {AwaitingConfirmation, NeedsInput} then ret (CancelNotCancellable i (t_status row))
       else if \<exists>h \<in> set (selectHeldCallsForRun (db_held st1) i). turnStateHasResolution env (h_turn_state h) then ret (CancelResolving i)
       else bind (txn (cancel_tx env i surface u ?ag row (selectHeldCallsForRun (db_held st1) i))) (\<lambda>_. ret (CancelDone i (t_status row)))) st1
       = (Inr r, st2)"
    using body unfolding cancel_body_def reaped_def by (elim bind_InrE) auto
  show ?thesis
  proof (cases "readCommissionRun (db_runs st1) i")
    case None
    then show ?thesis using k st1 st' by auto
  next
    case (Some row)
    show ?thesis
    proof (cases "\<exists>prev. r = CancelDone i prev")
      case True
      then have tx: "bind (txn (cancel_tx env i surface u ?ag row (selectHeldCallsForRun (db_held st1) i)))
           (\<lambda>_. ret (CancelDone i (t_status row))) st1 = (Inr r, st2)"
          and g: "surface = McpSurface \<longrightarrow> t_origin row = OMcpCommission" "t_status row \<in> {AwaitingConfirmation, NeedsInput}"
            "\<forall>h \<in> set (selectHeldCallsForRun (db_held st1) i). \<not> turnStateHasResolution env (h_turn_state h)"
        using k Some by (auto split: if_splits)
      have p: "post (bind (txn (cancel_tx env i surface u ?ag row (selectHeldCallsForRun (db_held st1) i)))
           (\<lambda>_. ret (CancelDone i (t_status row)))) st1 (\<lambda>x s. x = CancelDone i (t_status row)
             \<and> db_held s = filter (\<lambda>r. h_id r \<notin> h_id ` set (selectHeldCallsForRun (db_held st1) i)) (db_held st1)
             \<and> db_runs s = cancelRun i (now_iso env) (db_runs st1) \<and> toolName (last (db_audit s)) = js ''task.cancel'')"
        by (simp, rule post_mono[OF post_cancel_tx]) simp
      have e: "r = CancelDone i (t_status row)"
          "db_held st2 = filter (\<lambda>r. h_id r \<notin> h_id ` set (selectHeldCallsForRun (db_held st1) i)) (db_held st1)"
          "db_runs st2 = cancelRun i (now_iso env) (db_runs st1)" "toolName (last (db_audit st2)) = js ''task.cancel''"
        using p tx by (simp_all add: post_def)
      obtain row' where "readCommissionRun (db_runs st2) i = Some row'" "t_status row' = Cancelled"
        using cancelRun_reads[OF Some g(2), of "now_iso env"] e(3) by auto
      moreover have "\<forall>h \<in> set (db_held st1). h_run_id h = Some i \<longrightarrow> \<not> turnStateHasResolution env (h_turn_state h)"
        using g(3) by (simp add: selectHeldCallsForRun_def sql_simps)
      moreover have "\<forall>h \<in> set (db_held st2). h_run_id h \<noteq> Some i" unfolding e(2) by (intro ballI holds_of_run_gone)
      ultimately show ?thesis using st1 Some g e st' by auto
    next
      case False
      then have "st2 = st1" using k Some by (auto split: if_splits elim!: bind_InrE)
      then show ?thesis using False st1 st' by auto
    qed
  qed
qed

text \<open>C16: What the user is asked to approve cannot be exchanged under the question. \<open>amendTask\<close> changes a
  task's data only while it waits for input: a task that awaits the user's answer, or is in any other
  state, keeps its row, and so does every other task.\<close>

theorem amend_only_awaited_input:
  assumes "amendTask env catalog i data st = (r, st')"
  shows "st' = st \<or> (\<exists>st1 e. reapExpiredSessions env (st\<lparr>turnInFlight := True\<rparr>) = (e, st1)
     \<and> (st' = st1\<lparr>turnInFlight := False\<rparr>
        \<or> (\<exists>row d t. readCommissionRun (db_runs st1) i = Some row \<and> t_status row = NeedsInput \<and> t_origin row = OMcpCommission
            \<and> r = Inr (Amended i NeedsInput) \<and> st' = st1\<lparr>db_runs := updateRunData i d t (db_runs st1), turnInFlight := False\<rparr>)))"
proof -
  have g: "st' = st \<or> (r, st') = withTurnGate (AmendBusy i) (amend_body env i data) st"
    using assms by (auto simp: amendTask_def assertPublishedData_def bind_def throw_def ret_def Let_def split: sum.splits if_splits)
  have m: "snd (merged_data env c run d s) = s" for c run d s
    by (auto simp: merged_data_def parse_or_throw_def bind_def ret_def throw_def Let_def split: option.splits prod.splits sum.splits)
  show ?thesis
  proof (cases "turnInFlight st")
    case True
    then show ?thesis using g by (auto simp: withTurnGate_def)
  next
    case False
    obtain e st1 where st1: "reapExpiredSessions env (st\<lparr>turnInFlight := True\<rparr>) = (e, st1)" by force
    obtain x s where b: "amend_body env i data (st\<lparr>turnInFlight := True\<rparr>) = (x, s)" by force
    have "s = st1 \<or> (\<exists>row d t. readCommissionRun (db_runs st1) i = Some row \<and> t_status row = NeedsInput \<and> t_origin row = OMcpCommission
        \<and> x = Inr (Amended i NeedsInput) \<and> s = st1\<lparr>db_runs := updateRunData i d t (db_runs st1)\<rparr>)"
    proof (cases "\<exists>run. e = Inr () \<and> readCommissionRun (db_runs st1) i = Some run \<and> t_origin run = OMcpCommission \<and> t_status run = NeedsInput")
      case True
      then obtain run where run: "readCommissionRun (db_runs st1) i = Some run" "t_origin run = OMcpCommission" "t_status run = NeedsInput"
          and e: "e = Inr ()" by blast
      obtain v s1 where v: "merged_data env (js ''amendTask'') run data st1 = (v, s1)" by force
      then have "s1 = st1" using m[of "js ''amendTask''" run data st1] by simp
      then show ?thesis
        using b st1 v run e by (cases v) (auto simp: amend_body_def bind_def read_def ret_def modify_def)
    next
      case False
      then show ?thesis
        using b st1 by (cases e) (auto simp: amend_body_def bind_def read_def ret_def split: option.splits if_splits)
    qed
    then show ?thesis using g False b st1 by (auto simp: withTurnGate_def)
  qed
qed


section \<open>Witnesses\<close>

definition ex_tasks :: agent where
  "ex_tasks = ex_ready\<lparr>db_runs := [(ex_run AwaitingConfirmation)\<lparr>t_session_id := js ''s1''\<rparr>]\<rparr>"

lemma ex_tasks_reap: "reapExpiredSessions ex_env1 (ex_tasks\<lparr>turnInFlight := True\<rparr>) = (Inr (), ex_tasks\<lparr>turnInFlight := True\<rparr>)"
  by (simp add: reapExpiredSessions_def reap_session_def bind_def read_def ret_def Let_def ex_tasks_def
      ex_ready_def ex_agent_def ex_env1_def ex_agent_env_def selectOpenSessions_def sessionStartedAt_def
      readSessionStartedAt_def read_session_def first_row_def SESSION_LIFETIME_MS_def order_desc_def order_asc_def)

lemma ex_tasks_run:
  "readCommissionRun (db_runs ex_tasks) (t_id (ex_run Running)) = Some ((ex_run AwaitingConfirmation)\<lparr>t_session_id := js ''s1''\<rparr>)"
  "selectHeldCallsForRun (db_held ex_tasks) (t_id (ex_run Running)) = []" "db_audit ex_tasks = []" "\<not> turnInFlight ex_tasks"
  by (simp_all add: ex_tasks_def readCommissionRun_def first_row_def ex_run_def ex_ready_def ex_agent_def selectHeldCallsForRun_def
      ex_hold_def order_asc_def)

theorem cancel_ends_task_witness:
  "\<exists>st' row. cancelTask ex_env1 (t_id (ex_run Running)) HumanSurface (js ''u'') None ex_tasks
       = (Inr (CancelDone (t_id (ex_run Running)) AwaitingConfirmation), st')
     \<and> readCommissionRun (db_runs st') (t_id (ex_run Running)) = Some row \<and> t_status row = Cancelled"
proof -
  let ?i = "t_id (ex_run Running)" and ?st = "ex_tasks\<lparr>turnInFlight := True\<rparr>"
  let ?ps = "cancel_audit (js ''u'') (js ''default'') (js ''s1'') ?i HumanSurface (now_iso ex_env1)"
  obtain w st1 where w: "insert_audit ex_env1 ?ps ?st = (Inr w, st1)"
    using insert_audit_empty[of ?st ex_env1 ?ps] ex_tasks_run(3) by auto
  have "cancelTask ex_env1 ?i HumanSurface (js ''u'') None ex_tasks
      = (Inr (CancelDone ?i AwaitingConfirmation), st1\<lparr>db_runs := cancelRun ?i (now_iso ex_env1) (db_runs st1), turnInFlight := False\<rparr>)"
    using ex_tasks_reap ex_tasks_run w
    by (simp add: cancelTask_def withTurnGate_def cancel_body_def cancel_tx_def writeTaskCancelAudit_def bind_def read_def ret_def
        modify_def txn_def) (simp add: ex_run_def)
  then show ?thesis
    using cancel_ends_task[of ex_env1 ?i HumanSurface "js ''u''" None ex_tasks "CancelDone ?i AwaitingConfirmation"] by blast
qed

theorem amend_only_awaited_input_witness:
  "snd (amendTask ex_env1 [] (t_id (ex_run Running)) [] ex_tasks) = ex_tasks"
proof -
  let ?out = "amendTask ex_env1 [] (t_id (ex_run Running)) [] ex_tasks"
  have "ex_tasks\<lparr>turnInFlight := False\<rparr> = ex_tasks" by (simp add: ex_tasks_def ex_ready_def ex_agent_def)
  then show ?thesis
    using amend_only_awaited_input[of ex_env1 "[]" "t_id (ex_run Running)" "[]" ex_tasks "fst ?out" "snd ?out"]
      ex_tasks_reap ex_tasks_run(1) by (auto simp: ex_run_def)
qed

definition ex_provide :: provide_world where
  "ex_provide = \<lparr>pw_tools = ex_world, pw_resume = (\<lambda>_ st. (Inl (LoopError []), st)), pw_catalog = [], pw_after = 2000, pw_after_resume = 3000\<rparr>"


end
