(* ===== verification/Listings.thy ===== *)
theory Listings
  imports Tasks
begin

text \<open>
  The paged listings of the coordinator (\<open>packages/engine/src/agent/user-agent.ts\<close>): the clamped page limits,
  the opaque cursors of \<open>GET /api/tasks\<close> and \<open>GET /api/audit\<close> over \<open>btoa\<close> and \<open>atob\<close>, the two page methods and
  the task label. The lemmas show that a cursor decodes to the row it was made from and that a client
  that follows the cursors it is given reads every row once and stops.
\<close>

section \<open>Base64\<close>

definition sextet_char :: "nat \<Rightarrow> u16" where
  "sextet_char n = (if n < 26 then of_nat (65 + n) else if n < 52 then of_nat (71 + n) else if n < 62 then of_nat (n - 4)
     else if n = 62 then 43 else 47)"

definition char_sextet :: "u16 \<Rightarrow> nat option" where
  "char_sextet c =
     (let n = unat c in
      if 65 \<le> n \<and> n \<le> 90 then Some (n - 65) else if 97 \<le> n \<and> n \<le> 122 then Some (n - 71)
      else if 48 \<le> n \<and> n \<le> 57 then Some (n + 4) else if n = 43 then Some 62 else if n = 47 then Some 63 else None)"

fun sextets :: "nat list \<Rightarrow> nat list" where
  "sextets [] = []"
| "sextets [a] = [a div 4, (a mod 4) * 16]"
| "sextets [a, b] = [a div 4, (a mod 4) * 16 + b div 16, (b mod 16) * 4]"
| "sextets (a # b # c # bs) = [a div 4, (a mod 4) * 16 + b div 16, (b mod 16) * 4 + c div 64, c mod 64] @ sextets bs"

definition padding :: "nat \<Rightarrow> jsstr" where
  "padding n = (if n mod 3 = 0 then [] else if n mod 3 = 1 then [61, 61] else [61])"

text \<open>\<open>btoa\<close> throws on a unit above 255.\<close>

definition latin1 :: "jsstr \<Rightarrow> bool" where
  "latin1 s \<longleftrightarrow> (\<forall>c \<in> set s. unat c < 256)"

definition btoa :: "jsstr \<Rightarrow> jsstr option" where
  "btoa s = (if latin1 s then Some (map sextet_char (sextets (map unat s)) @ padding (length s)) else None)"

fun from_sextets :: "nat list \<Rightarrow> nat list" where
  "from_sextets (a # b # c # d # ns) = [a * 4 + b div 16, (b mod 16) * 16 + c div 4, (c mod 4) * 64 + d] @ from_sextets ns"
| "from_sextets [a, b, c] = [a * 4 + b div 16, (b mod 16) * 16 + c div 4]"
| "from_sextets [a, b] = [a * 4 + b div 16]"
| "from_sextets _ = []"

definition strip_padding :: "jsstr \<Rightarrow> jsstr" where
  "strip_padding s =
     (if length s mod 4 \<noteq> 0 \<or> s = [] then s
      else if last s \<noteq> 61 then s
      else if last (butlast s) = 61 then butlast (butlast s) else butlast s)"

text \<open>The forgiving decode of \<open>atob\<close>: white space is dropped, padding is optional.\<close>

definition atob :: "jsstr \<Rightarrow> jsstr option" where
  "atob s =
     (let t = strip_padding (filter (\<lambda>c. c \<notin> {9, 10, 12, 13, 32}) s) in
      if length t mod 4 = 1 \<or> (\<exists>c \<in> set t. char_sextet c = None) then None
      else Some (map of_nat (from_sextets (map (\<lambda>c. the (char_sextet c)) t))))"

lemma char_sextet_sextet_char: "n < 64 \<Longrightarrow> char_sextet (sextet_char n) = Some n"
proof -
  have "\<forall>n \<in> set [0..<64]. char_sextet (sextet_char n) = Some n" by code_simp
  then show "n < 64 \<Longrightarrow> char_sextet (sextet_char n) = Some n" by simp
qed

lemma sextet_char_plain: "n < 64 \<Longrightarrow> sextet_char n \<notin> {9, 10, 12, 13, 32, 61}"
proof -
  have "\<forall>n \<in> set [0..<64]. sextet_char n \<notin> {9, 10, 12, 13, 32, 61}" by code_simp
  then show "n < 64 \<Longrightarrow> sextet_char n \<notin> {9, 10, 12, 13, 32, 61}" by simp
qed

lemma sextets_bound: "\<forall>b \<in> set bs. b < 256 \<Longrightarrow> \<forall>n \<in> set (sextets bs). n < 64"
  by (induction bs rule: sextets.induct) auto

lemma sextets_length:
  "length (sextets bs) mod 4 = (if length bs mod 3 = 0 then 0 else if length bs mod 3 = 1 then 2 else 3)"
  by (induction bs rule: sextets.induct) (auto simp: mod_simps mod_Suc)

lemma from_sextets_sextets: "\<forall>b \<in> set bs. b < 256 \<Longrightarrow> from_sextets (sextets bs) = bs"
proof (induction bs rule: sextets.induct)
  case (4 a b c bs)
  moreover have "(b mod 16 * 4 + c div 64) div 4 = b mod 16" "(b mod 16 * 4 + c div 64) mod 4 = c div 64"
    "(a mod 4 * 16 + b div 16) div 16 = a mod 4" "(a mod 4 * 16 + b div 16) mod 16 = b div 16"
    using 4(2) by auto
  ultimately show ?case by simp
next
  case (3 a b)
  moreover have "(a mod 4 * 16 + b div 16) div 16 = a mod 4" "(a mod 4 * 16 + b div 16) mod 16 = b div 16"
    using 3 by auto
  ultimately show ?case by simp
qed auto

lemma strip_data_padding:
  assumes "\<forall>c \<in> set d. c \<noteq> 61" "length (d @ padding n) mod 4 = 0"
  shows "strip_padding (d @ padding n) = d"
proof -
  consider "n mod 3 = 0" | "n mod 3 = 1" | "n mod 3 = 2" by linarith
  then show ?thesis
  proof cases
    case 3
    then have "d \<noteq> []" using assms(2) by (auto simp: padding_def)
    then have "last d \<noteq> 61" using assms(1) by simp
    then show ?thesis using assms 3 \<open>d \<noteq> []\<close> by (simp add: strip_padding_def padding_def butlast_append)
  qed (use assms in \<open>auto simp: strip_padding_def padding_def butlast_append\<close>)
qed

lemma atob_btoa: "btoa s = Some t \<Longrightarrow> atob t = Some s"
proof -
  assume b: "btoa s = Some t"
  then have l: "\<forall>b \<in> set (map unat s). b < 256" by (auto simp: btoa_def latin1_def split: if_splits)
  let ?ns = "sextets (map unat s)" and ?p = "padding (length s)"
  have ns: "\<forall>n \<in> set ?ns. n < 64" using sextets_bound[OF l] .
  have t: "t = map sextet_char ?ns @ ?p" using b by (auto simp: btoa_def split: if_splits)
  have f: "filter (\<lambda>c. c \<notin> {9, 10, 12, 13, 32}) t = t"
    using ns sextet_char_plain by (auto simp: t padding_def filter_id_conv)
  have "length t mod 4 = 0"
    using sextets_length[of "map unat s"] by (auto simp: t padding_def mod_simps mod_Suc)
  then have st: "strip_padding t = map sextet_char ?ns"
    unfolding t using ns sextet_char_plain by (intro strip_data_padding) auto
  have "length ?ns mod 4 \<noteq> 1" using sextets_length[of "map unat s"] by auto
  moreover have "char_sextet c \<noteq> None" if "c \<in> set (map sextet_char ?ns)" for c
    using that ns char_sextet_sextet_char by fastforce
  moreover have "map (\<lambda>c. the (char_sextet c)) (map sextet_char ?ns) = ?ns"
    using ns char_sextet_sextet_char by (simp add: map_idI)
  ultimately show "atob t = Some s"
    using from_sextets_sextets[OF l] unfolding atob_def Let_def f st by (auto simp: comp_def)
qed

section \<open>Limits\<close>

definition TASK_LIST_DEFAULT_LIMIT :: nat where
  "TASK_LIST_DEFAULT_LIMIT = 50"

definition TASK_LIST_MAX_LIMIT :: nat where
  "TASK_LIST_MAX_LIMIT = 200"

definition AUDIT_PAGE_DEFAULT_LIMIT :: nat where
  "AUDIT_PAGE_DEFAULT_LIMIT = 20"

definition AUDIT_PAGE_MAX_LIMIT :: nat where
  "AUDIT_PAGE_MAX_LIMIT = 200"

text \<open>An absent, infinite or NaN limit takes the default.\<close>

definition clamp_limit :: "nat \<Rightarrow> nat \<Rightarrow> jsnum option \<Rightarrow> nat" where
  "clamp_limit dflt cap limit =
     (case limit of
        Some (Fin q) \<Rightarrow> (let n = \<lfloor>q\<rfloor> in if n < 1 then 1 else if n > int cap then cap else nat n)
      | _ \<Rightarrow> dflt)"

definition clampTaskListLimit :: "jsnum option \<Rightarrow> nat" where
  "clampTaskListLimit = clamp_limit TASK_LIST_DEFAULT_LIMIT TASK_LIST_MAX_LIMIT"

definition clampAuditPageLimit :: "jsnum option \<Rightarrow> nat" where
  "clampAuditPageLimit = clamp_limit AUDIT_PAGE_DEFAULT_LIMIT AUDIT_PAGE_MAX_LIMIT"

lemma clamp_bounds: "0 < dflt \<Longrightarrow> dflt \<le> cap \<Longrightarrow> 1 \<le> clamp_limit dflt cap l \<and> clamp_limit dflt cap l \<le> cap"
  by (auto simp: clamp_limit_def Let_def le_nat_iff not_less nat_le_iff split: option.split jsnum.split)

section \<open>Cursors\<close>

definition encodeTaskCursor :: "jsstr \<Rightarrow> jsstr \<Rightarrow> jsstr option" where
  "encodeTaskCursor createdAt i = btoa (createdAt @ [124] @ i)"

text \<open>The text before and after the first bar.\<close>

definition split_bar :: "jsstr \<Rightarrow> (jsstr \<times> jsstr) option" where
  "split_bar s = (if 124 \<in> set s then Some (takeWhile (\<lambda>c. c \<noteq> 124) s, tl (dropWhile (\<lambda>c. c \<noteq> 124) s)) else None)"

definition decodeTaskCursor :: "jsstr option \<Rightarrow> (jsstr \<times> jsstr) option" where
  "decodeTaskCursor cursor =
     (case present cursor of None \<Rightarrow> None
      | Some c \<Rightarrow> (case atob c of None \<Rightarrow> None | Some d \<Rightarrow> split_bar d))"

definition encodeAuditCursor :: "jsstr \<Rightarrow> nat \<Rightarrow> jsstr option" where
  "encodeAuditCursor epoch n = btoa (epoch @ [124] @ js_of_nat n)"

definition decodeAuditCursor :: "jsstr option \<Rightarrow> (jsstr \<times> nat) option" where
  "decodeAuditCursor cursor =
     (case present cursor of None \<Rightarrow> None
      | Some c \<Rightarrow> (case atob c of None \<Rightarrow> None
        | Some d \<Rightarrow> (case split_bar d of None \<Rightarrow> None
          | Some (epoch, raw) \<Rightarrow>
            if raw = [] \<or> \<not> list_all is_digit raw then None
            else if int (nat_of_digits raw) > max_safe then None else Some (epoch, nat_of_digits raw))))"

lemma split_bar_join: "124 \<notin> set a \<Longrightarrow> split_bar (a @ [124] @ b) = Some (a, b)"
  by (simp add: split_bar_def takeWhile_tail dropWhile_append3) (induction a; simp)

lemma btoa_nonempty: "btoa s = Some t \<Longrightarrow> s \<noteq> [] \<Longrightarrow> t \<noteq> []"
  by (cases "map unat s" rule: sextets.cases) (auto simp: btoa_def split: if_splits)

section \<open>Pages\<close>

text \<open>One page: fetch a row more than the limit, cut, and make the cursor of the last row; \<open>None\<close> when the
  cursor cannot be made.\<close>

definition cursor_page ::
  "('t \<Rightarrow> nat \<Rightarrow> 'k option \<Rightarrow> 'r list) \<Rightarrow> ('r \<Rightarrow> jsstr option) \<Rightarrow> (jsstr option \<Rightarrow> 'k option) \<Rightarrow> 't \<Rightarrow> nat \<Rightarrow> jsstr option
   \<Rightarrow> ('r list \<times> jsstr option) option" where
  "cursor_page page encode decode rows limit cursor =
     (let found = page rows (limit + 1) (decode cursor);
          hasMore = length found > limit;
          p = (if hasMore then take limit found else found)
      in if hasMore \<and> p \<noteq> []
         then (case encode (last p) of None \<Rightarrow> None | Some c \<Rightarrow> Some (p, Some c))
         else Some (p, None))"

text \<open>A client that follows the cursors, with fuel for the number of pages.\<close>

fun follow :: "(jsstr option \<Rightarrow> ('r list \<times> jsstr option) option) \<Rightarrow> nat \<Rightarrow> jsstr option \<Rightarrow> 'r list option" where
  "follow fetch 0 cursor = None"
| "follow fetch (Suc fuel) cursor =
     (case fetch cursor of None \<Rightarrow> None
      | Some (p, None) \<Rightarrow> Some p
      | Some (p, Some c) \<Rightarrow> map_option (append p) (follow fetch fuel (Some c)))"

text \<open>A keyset listing whose cursors decode to the key of the row they were made from.\<close>

locale cursor_listing = keyset_listing key view page
  for key :: "'r \<Rightarrow> 'k::linorder" and view :: "'t \<Rightarrow> 'r list" and page :: "'t \<Rightarrow> nat \<Rightarrow> 'k option \<Rightarrow> 'r list" +
  fixes encode :: "'r \<Rightarrow> jsstr option" and decode :: "jsstr option \<Rightarrow> 'k option" and codable :: "'r \<Rightarrow> bool"
  assumes no_cursor: "decode None = None"
    and cursor_key: "codable r \<Longrightarrow> \<exists>c. encode r = Some c \<and> decode (Some c) = Some (key r)"
begin

lemma page_step:
  assumes "distinct (map key (view rows))" "\<forall>r \<in> set (view rows). codable r" "0 < limit"
  shows "\<exists>nx. cursor_page page encode decode rows limit cursor = Some (take limit (below (decode cursor) rows), nx)
     \<and> (if length (below (decode cursor) rows) \<le> limit then nx = None
        else nx \<noteq> None \<and> below (decode nx) rows = drop limit (below (decode cursor) rows))"
proof (cases "length (below (decode cursor) rows) > limit")
  case False
  then show ?thesis by (simp add: cursor_page_def page_below Let_def)
next
  case True
  let ?b = "below (decode cursor) rows"
  let ?p = "take limit ?b" and ?q = "drop limit ?b"
  have ne: "?p \<noteq> []" using True assms(3) by auto
  then have "last ?p \<in> set ?b" by (metis in_set_takeD last_in_set)
  then have "codable (last ?p)" using assms(2) by (simp add: below_def order_desc_def)
  then obtain c where c: "encode (last ?p) = Some c" "decode (Some c) = Some (key (last ?p))" using cursor_key by blast
  have "below (Some (key (last ?p))) rows = ?q" by (rule below_last[OF assms(1) _ ne]) simp
  moreover have "cursor_page page encode decode rows limit cursor = Some (?p, Some c)"
    using True ne c(1) by (auto simp: cursor_page_def page_below Let_def min_def)
  ultimately show ?thesis using True c(2) by simp
qed

lemma follow_below:
  assumes d: "distinct (map key (view rows))" "\<forall>r \<in> set (view rows). codable r" "0 < limit"
  shows "length (below (decode cursor) rows) < fuel \<Longrightarrow>
    follow (cursor_page page encode decode rows limit) fuel cursor = Some (below (decode cursor) rows)"
proof (induction fuel arbitrary: cursor)
  case (Suc fuel)
  obtain nx where "cursor_page page encode decode rows limit cursor = Some (take limit (below (decode cursor) rows), nx)"
    "if length (below (decode cursor) rows) \<le> limit then nx = None
     else nx \<noteq> None \<and> below (decode nx) rows = drop limit (below (decode cursor) rows)"
    using page_step[OF d] by blast
  then show ?case using Suc.IH[of nx] Suc.prems d(3) by (cases nx) (auto split: if_splits)
qed simp

lemma follow_all:
  assumes "distinct (map key (view rows))" "\<forall>r \<in> set (view rows). codable r" "0 < limit"
  shows "follow (cursor_page page encode decode rows limit) (Suc (length (view rows))) None = Some (order_desc key (view rows))"
  using follow_below[OF assms, of None "Suc (length (view rows))"] by (simp add: no_cursor below_def order_desc_def)

end

section \<open>Tasks\<close>

text \<open>\<open>goal.split(/\r?\n/, 1)[0]\<close>, and a string as its code points.\<close>

definition first_line :: "jsstr \<Rightarrow> jsstr" where
  "first_line s =
     (if 10 \<in> set s
      then (let l = takeWhile (\<lambda>c. c \<noteq> 10) s in if l \<noteq> [] \<and> last l = 13 then butlast l else l)
      else s)"

fun js_chars :: "jsstr \<Rightarrow> jsstr list" where
  "js_chars [] = []"
| "js_chars [c] = [[c]]"
| "js_chars (c # d # s) = (if is_high c \<and> is_low d then [c, d] # js_chars s else [c] # js_chars (d # s))"

definition deriveTaskLabel :: "jsstr \<Rightarrow> jsstr" where
  "deriveTaskLabel goal =
     (let firstLine = js_trim (first_line goal);
          base = (if firstLine \<noteq> [] then firstLine else js_trim goal);
          chars = js_chars base
      in if length chars > 80 then concat (take 79 chars) @ [0x2026] else base)"

record task_summary =
  ts_taskId :: jsstr
  ts_origin :: run_origin
  ts_status :: run_status
  ts_label :: jsstr
  ts_goal :: jsstr
  ts_createdAt :: jsstr
  ts_updatedAt :: jsstr

definition taskSummaryFromRow :: "'a task_list_row_scheme \<Rightarrow> task_summary" where
  "taskSummaryFromRow r = \<lparr>ts_taskId = t_id r, ts_origin = t_origin r, ts_status = t_status r,
     ts_label = (case t_label r of Some l \<Rightarrow> l | None \<Rightarrow> deriveTaskLabel (t_goal r)), ts_goal = t_goal r,
     ts_createdAt = t_created_at r, ts_updatedAt = t_updated_at r\<rparr>"

record task_detail =
  dt_task :: task_summary
  dt_statusDetail :: "json list option"
  dt_awaitedSlotKeys :: "jsstr list option"

definition readTaskDetail :: "agent_env \<Rightarrow> jsstr \<Rightarrow> task_detail option act" where
  "readTaskDetail env i =
     bind (read_commission_run env i) (\<lambda>v. case v of None \<Rightarrow> ret None
     | Some view \<Rightarrow>
       bind (read (\<lambda>st. readCommissionRun (db_runs st) i)) (\<lambda>row. ret (case row of None \<Rightarrow> None
         | Some r \<Rightarrow> Some \<lparr>dt_task = taskSummaryFromRow (r\<lparr>t_status := rv_status view\<rparr>),
             dt_statusDetail = rv_statusDetail view, dt_awaitedSlotKeys = rv_awaitedSlotKeys view\<rparr>)))"

definition task_cursor :: "'a task_list_row_scheme \<Rightarrow> jsstr option" where
  "task_cursor r = encodeTaskCursor (t_created_at r) (t_id r)"

definition task_before :: "jsstr option \<Rightarrow> (bytes \<times> bytes) option" where
  "task_before cursor = map_option (\<lambda>(createdAt, i). (utf8 createdAt, utf8 i)) (decodeTaskCursor cursor)"

abbreviation task_page :: "commission_table \<Rightarrow> nat \<Rightarrow> jsstr option \<Rightarrow> (task_list_row list \<times> jsstr option) option" where
  "task_page \<equiv> cursor_page listTasks task_cursor task_before"

text \<open>The method \<open>listTasks\<close>; \<open>btoa\<close> throws when the cursor has a unit above 255.\<close>

definition list_tasks :: "agent_env \<Rightarrow> jsnum option \<Rightarrow> jsstr option \<Rightarrow> (task_summary list \<times> jsstr option) act" where
  "list_tasks env limit cursor =
     bind (reapExpiredSessions env) (\<lambda>_.
     bind (read (\<lambda>st. task_page (db_runs st) (clampTaskListLimit limit) cursor)) (\<lambda>p. case p of
       None \<Rightarrow> throw (InvalidData (js ''InvalidCharacterError''))
     | Some (rows, nextCursor) \<Rightarrow> ret (map taskSummaryFromRow rows, nextCursor)))"

section \<open>The audit chain\<close>

definition audit_cursor :: "chain_entry \<Rightarrow> jsstr option" where
  "audit_cursor r = encodeAuditCursor (epochId r) (sequenceNum r)"

definition audit_before :: "jsstr option \<Rightarrow> (bytes \<times> nat) option" where
  "audit_before cursor = map_option (\<lambda>(epoch, n). (utf8 epoch, n)) (decodeAuditCursor cursor)"

abbreviation audit_page :: "audit_log \<Rightarrow> nat \<Rightarrow> jsstr option \<Rightarrow> (chain_entry list \<times> jsstr option) option" where
  "audit_page \<equiv> cursor_page selectAuditChainPage audit_cursor audit_before"

text \<open>The method \<open>listAuditEntries\<close>: rows go out with every column, under other names.\<close>

definition listAuditEntries :: "jsnum option \<Rightarrow> jsstr option \<Rightarrow> (chain_entry list \<times> jsstr option) act" where
  "listAuditEntries limit cursor =
     bind (read (\<lambda>st. audit_page (db_audit st) (clampAuditPageLimit limit) cursor)) (\<lambda>p. case p of
       None \<Rightarrow> throw (InvalidData (js ''InvalidCharacterError''))
     | Some page \<Rightarrow> ret page)"

section \<open>Lemmas\<close>

definition codable_task :: "'a task_list_row_scheme \<Rightarrow> bool" where
  "codable_task r \<longleftrightarrow> latin1 (t_created_at r) \<and> 124 \<notin> set (t_created_at r) \<and> latin1 (t_id r)"

definition codable_entry :: "chain_entry \<Rightarrow> bool" where
  "codable_entry r \<longleftrightarrow> latin1 (epochId r) \<and> 124 \<notin> set (epochId r) \<and> int (sequenceNum r) \<le> max_safe"

lemma cursor_text:
  assumes "latin1 a" "latin1 b" "124 \<notin> set a"
  shows "\<exists>t. btoa (a @ [124] @ b) = Some t \<and> present (Some t) = Some t \<and> atob t = Some (a @ [124] @ b)"
proof -
  have "latin1 (a @ [124] @ b)" using assms by (auto simp: latin1_def)
  then obtain t where t: "btoa (a @ [124] @ b) = Some t" by (simp add: btoa_def)
  moreover have "t \<noteq> []" by (rule btoa_nonempty[OF t]) simp
  ultimately show ?thesis using atob_btoa[OF t] by (auto simp: present_def)
qed

lemma task_cursor_roundtrip:
  assumes "codable_task r"
  shows "\<exists>c. task_cursor r = Some c \<and> decodeTaskCursor (Some c) = Some (t_created_at r, t_id r)"
proof -
  have r: "latin1 (t_created_at r)" "latin1 (t_id r)" "124 \<notin> set (t_created_at r)"
    using assms by (simp_all add: codable_task_def)
  obtain t where t: "btoa (t_created_at r @ [124] @ t_id r) = Some t" "present (Some t) = Some t"
    "atob t = Some (t_created_at r @ [124] @ t_id r)"
    using cursor_text[OF r] by blast
  have "decodeTaskCursor (Some t) = Some (t_created_at r, t_id r)"
    unfolding decodeTaskCursor_def t(2) option.case t(3) by (rule split_bar_join[OF r(3)])
  then show ?thesis using t(1) by (simp add: task_cursor_def encodeTaskCursor_def)
qed

lemma latin1_js_of_nat: "latin1 (js_of_nat n)"
  using digits_js_of_nat[of _ n] by (fastforce simp: latin1_def is_digit_def word_le_nat_alt)

lemma audit_cursor_roundtrip:
  assumes "codable_entry r"
  shows "\<exists>c. audit_cursor r = Some c \<and> decodeAuditCursor (Some c) = Some (epochId r, sequenceNum r)"
proof -
  let ?n = "js_of_nat (sequenceNum r)"
  have r: "latin1 (epochId r)" "latin1 ?n" "124 \<notin> set (epochId r)" and m: "int (sequenceNum r) \<le> max_safe"
    using assms by (simp_all add: codable_entry_def latin1_js_of_nat)
  obtain t where t: "btoa (epochId r @ [124] @ ?n) = Some t" "present (Some t) = Some t"
    "atob t = Some (epochId r @ [124] @ ?n)"
    using cursor_text[OF r] by blast
  have "list_all is_digit ?n" using digits_js_of_nat by (simp add: list_all_iff)
  then have "decodeAuditCursor (Some t) = Some (epochId r, sequenceNum r)"
    unfolding decodeAuditCursor_def t(2) option.case t(3) split_bar_join[OF r(3)] prod.case
    using m by (simp add: js_of_nat_neq_Nil nat_of_digits_js_of_nat)
  then show ?thesis using t(1) by (simp add: audit_cursor_def encodeAuditCursor_def)
qed

lemma task_cursor_key: "codable_task r \<Longrightarrow> \<exists>c. task_cursor r = Some c \<and> task_before (Some c) = Some (run_key r)"
  using task_cursor_roundtrip[of r] by (auto simp: task_before_def run_key_def)

lemma audit_cursor_key: "codable_entry r \<Longrightarrow> \<exists>c. audit_cursor r = Some c \<and> audit_before (Some c) = Some (chain_key r)"
  using audit_cursor_roundtrip[of r] by (auto simp: audit_before_def chain_key_def)

interpretation task_cursors: cursor_listing run_key "map task_list_row.truncate" listTasks task_cursor task_before codable_task
  by unfold_locales (simp add: task_before_def decodeTaskCursor_def present_def, rule task_cursor_key)

interpretation audit_cursors: cursor_listing chain_key "\<lambda>rows. rows" selectAuditChainPage audit_cursor audit_before codable_entry
  by unfold_locales (simp add: audit_before_def decodeAuditCursor_def present_def, rule audit_cursor_key)

lemma not_low_ellipsis: "\<not> is_low 0x2026" "\<not> is_high 0x2026"
  by (simp_all add: is_low_def is_high_def)

lemma js_chars_snoc:
  assumes "\<not> is_low x"
  shows "js_chars (concat (take n (js_chars s)) @ [x]) = take n (js_chars s) @ [[x]]"
proof (induction s arbitrary: n rule: js_chars.induct)
  case (2 c)
  then show ?case using assms by (cases n) auto
next
  case (3 c d s)
  show ?case
  proof (cases n)
    case (Suc m)
    show ?thesis
    proof (cases "is_high c \<and> is_low d")
      case True
      then show ?thesis using 3(1)[of m] by (simp add: Suc)
    next
      case False
      have ih: "js_chars (concat (take m (js_chars (d # s))) @ [x]) = take m (js_chars (d # s)) @ [[x]]"
        using 3(2)[OF False, of m] .
      have hd: "concat (take m (js_chars (d # s))) @ [x] = d # tl (concat (take m (js_chars (d # s))) @ [x]) \<or> m = 0"
        by (cases m; cases s) (auto split: if_splits)
      then show ?thesis
      proof
        assume "m = 0"
        then show ?thesis using False assms by (simp add: Suc)
      next
        assume h: "concat (take m (js_chars (d # s))) @ [x] = d # tl (concat (take m (js_chars (d # s))) @ [x])"
        have "js_chars (c # concat (take m (js_chars (d # s))) @ [x]) = [c] # js_chars (concat (take m (js_chars (d # s))) @ [x])"
          by (subst (1 2) h) (use False in simp)
        then show ?thesis using False ih by (auto simp: Suc)
      qed
    qed
  qed simp
qed simp

section \<open>Properties\<close>

text \<open>C17: Following the opaque cursors reads everything. A client that passes back the \<open>nextCursor\<close> of each page
  gets every task once, newest first, and stops after the last page, for every requested limit; the
  same walk over the audit chain returns the whole log. Task ids and creation times are in Latin-1
  and epochs and creation times have no bar, as the engine writes them.\<close>

theorem cursors_read_everything:
  assumes "distinct (map t_id rs)" "\<forall>r \<in> set rs. is_well_formed (t_id r) \<and> codable_task r"
    and "log_inv sf h es" "\<forall>r \<in> set es. codable_entry r"
  shows "(\<exists>tasks. follow (task_page rs (clampTaskListLimit limit)) (Suc (length rs)) None = Some tasks
        \<and> mset tasks = mset (map task_list_row.truncate rs) \<and> sorted_wrt (\<lambda>a b. run_key b < run_key a) tasks)
     \<and> follow (audit_page es (clampAuditPageLimit limit)) (Suc (length es)) None = Some (rev es)"
proof
  have d: "distinct (map run_key (map task_list_row.truncate rs))"
    using run_keys_distinct[of rs] assms(1,2) by (simp add: comp_def)
  have "\<forall>r \<in> set (map task_list_row.truncate rs). codable_task r"
    using assms(2) by (auto simp: codable_task_def task_list_row.truncate_def)
  moreover have "0 < clampTaskListLimit limit"
    using clamp_bounds[of TASK_LIST_DEFAULT_LIMIT TASK_LIST_MAX_LIMIT limit]
    by (simp add: clampTaskListLimit_def TASK_LIST_DEFAULT_LIMIT_def TASK_LIST_MAX_LIMIT_def)
  ultimately have "follow (task_page rs (clampTaskListLimit limit)) (Suc (length rs)) None
      = Some (order_desc run_key (map task_list_row.truncate rs))"
    using task_cursors.follow_all[OF d] by simp
  then show "\<exists>tasks. follow (task_page rs (clampTaskListLimit limit)) (Suc (length rs)) None = Some tasks
        \<and> mset tasks = mset (map task_list_row.truncate rs) \<and> sorted_wrt (\<lambda>a b. run_key b < run_key a) tasks"
    using order_desc_strict[OF d] by (simp add: sql_simps)
next
  have "0 < clampAuditPageLimit limit"
    using clamp_bounds[of AUDIT_PAGE_DEFAULT_LIMIT AUDIT_PAGE_MAX_LIMIT limit]
    by (simp add: clampAuditPageLimit_def AUDIT_PAGE_DEFAULT_LIMIT_def AUDIT_PAGE_MAX_LIMIT_def)
  then show "follow (audit_page es (clampAuditPageLimit limit)) (Suc (length es)) None = Some (rev es)"
    using audit_cursors.follow_all[of es] log_inv_keys[OF assms(3)] log_inv_order[OF assms(3)] assms(4) by simp
qed

theorem cursors_read_everything_witness:
  "(\<exists>tasks. follow (task_page [ex_run Running] 1) 2 None = Some tasks \<and> mset tasks = {#task_list_row.truncate (ex_run Running)#})
   \<and> follow (audit_page [ex_row] 1) 2 None = Some [ex_row]"
proof -
  have "distinct (map t_id [ex_run Running])" by simp
  moreover have "\<forall>r \<in> set [ex_run Running]. is_well_formed (t_id r) \<and> codable_task r"
    by (simp add: ex_run_def codable_task_def latin1_def js_def) code_simp
  moreover have "\<forall>r \<in> set [ex_row]. codable_entry r"
    by code_simp
  moreover have "clampTaskListLimit (Some (Fin 1)) = 1" "clampAuditPageLimit (Some (Fin 1)) = 1" by code_simp+
  ultimately show ?thesis
    using cursors_read_everything[OF _ _ reachable_log_inv[OF ex_row_reachable], of "[ex_run Running]" "Some (Fin 1)"]
    by (auto simp: numeral_2_eq_2)
qed

text \<open>The pages of both listings are bounded and the label of a task is short: whatever limit a client asks
  for, a page has at most \<open>TASK_LIST_MAX_LIMIT\<close> tasks or \<open>AUDIT_PAGE_MAX_LIMIT\<close> entries, and whatever goal it
  gives, the derived label has at most 80 code points.\<close>

theorem listings_bounded:
  "(task_page rs (clampTaskListLimit limit) cursor = Some (tasks, nx) \<longrightarrow> length tasks \<le> TASK_LIST_MAX_LIMIT)
   \<and> (audit_page es (clampAuditPageLimit limit) cursor = Some (entries, nx) \<longrightarrow> length entries \<le> AUDIT_PAGE_MAX_LIMIT)
   \<and> length (js_chars (deriveTaskLabel goal)) \<le> 80"
proof (intro conjI impI)
  have page: "length p \<le> l" if "cursor_page pg e d rows l c = Some (p, n)" for pg e d rows l c and p :: "'c list" and n
    using that by (auto simp: cursor_page_def Let_def split: if_splits option.splits)
  show "length tasks \<le> TASK_LIST_MAX_LIMIT" if "task_page rs (clampTaskListLimit limit) cursor = Some (tasks, nx)"
    using page[OF that] clamp_bounds[of TASK_LIST_DEFAULT_LIMIT TASK_LIST_MAX_LIMIT limit]
    by (simp add: clampTaskListLimit_def TASK_LIST_DEFAULT_LIMIT_def TASK_LIST_MAX_LIMIT_def)
  show "length entries \<le> AUDIT_PAGE_MAX_LIMIT" if "audit_page es (clampAuditPageLimit limit) cursor = Some (entries, nx)"
    using page[OF that] clamp_bounds[of AUDIT_PAGE_DEFAULT_LIMIT AUDIT_PAGE_MAX_LIMIT limit]
    by (simp add: clampAuditPageLimit_def AUDIT_PAGE_DEFAULT_LIMIT_def AUDIT_PAGE_MAX_LIMIT_def)
  show "length (js_chars (deriveTaskLabel goal)) \<le> 80"
    by (simp add: deriveTaskLabel_def Let_def js_chars_snoc[OF not_low_ellipsis(1)])
qed

theorem listings_bounded_witness:
  "task_page [ex_run Running] (clampTaskListLimit None) None = Some ([task_list_row.truncate (ex_run Running)], None)
   \<and> audit_page [ex_row] (clampAuditPageLimit None) None = Some ([ex_row], None)
   \<and> length [task_list_row.truncate (ex_run Running)] \<le> TASK_LIST_MAX_LIMIT \<and> length [ex_row] \<le> AUDIT_PAGE_MAX_LIMIT"
proof -
  have a: "task_page [ex_run Running] (clampTaskListLimit None) None = Some ([task_list_row.truncate (ex_run Running)], None)"
    by (simp add: cursor_page_def listTasks_def task_before_def decodeTaskCursor_def present_def clampTaskListLimit_def
        clamp_limit_def TASK_LIST_DEFAULT_LIMIT_def order_desc_def)
  have b: "audit_page [ex_row] (clampAuditPageLimit None) None = Some ([ex_row], None)"
    by (simp add: cursor_page_def selectAuditChainPage_def audit_before_def decodeAuditCursor_def present_def
        clampAuditPageLimit_def clamp_limit_def AUDIT_PAGE_DEFAULT_LIMIT_def order_desc_def)
  show ?thesis
    using a b listings_bounded[of "[ex_run Running]" None None "[task_list_row.truncate (ex_run Running)]" None
        "[ex_row]" "[ex_row]" "[]"] by simp
qed

end
