(* ===== verification/AuditWalk.thy ===== *)
theory AuditWalk
  imports Listings
begin

text \<open>
  The audit commands of the command line: the paged walk over the audit route and its summary
  (\<open>packages/cli/src/audit/walk.ts\<close>), the dump file and its verification (\<open>packages/cli/src/audit/dump.ts\<close>), and the
  commands \<open>log dump\<close> and \<open>log verify\<close> (\<open>packages/cli/src/commands/log.ts\<close>) without the rendering of their lines. The
  engine and \<open>JSON.parse\<close> are parameters. The lemmas show that the verdicts on pages or batches, put together, are those
  of one check of all rows seen.
\<close>

section \<open>Checking one page\<close>

text \<open>What both loops keep of the pages they have checked: the verdicts newest page first, the carry and the boundary
  for the next older page, and the flags raised on the first finding (\<open>onBreakFound\<close>, \<open>onConflictFound\<close>).\<close>

record check_state =
  ck_pages :: "chain_verdict list"
  ck_closures :: "closure_verdict list"
  ck_carry :: "closer_ref list"
  ck_boundary :: "chain_entry option"
  ck_breakFound :: bool
  ck_conflictFound :: bool

definition verify_page ::
  "(rat \<Rightarrow> jsstr) \<Rightarrow> (bytes \<Rightarrow> jsstr) \<Rightarrow> chain_entry list \<Rightarrow> 'a check_state_scheme \<Rightarrow> 'a check_state_scheme" where
  "verify_page sf h page st =
     (let ascending = rev page;
          verdict = verifyChainRange sf h ascending (ck_boundary st);
          closure = checkDecisionClosure ascending (ck_carry st) True
      in st\<lparr>ck_pages := ck_pages st @ [verdict],
            ck_breakFound := ck_breakFound st \<or> length (breaks verdict) > 0,
            ck_closures := ck_closures st @ [closure],
            ck_carry := carry closure,
            ck_conflictFound := ck_conflictFound st \<or> length (conflictedOnes closure) > 0,
            ck_boundary := Some (last page)\<rparr>)"

section \<open>walkAuditChain\<close>

definition EXIT_BROKEN_CHAIN :: nat where "EXIT_BROKEN_CHAIN = 3"

definition EXIT_UNCHECKED_EDGE :: nat where "EXIT_UNCHECKED_EDGE = 4"

definition EXIT_CONFLICTED_CLOSER :: nat where "EXIT_CONFLICTED_CLOSER = 5"

definition EXIT_CANCELLED :: nat where "EXIT_CANCELLED = 130"

definition AUDIT_MAX_PAGES :: nat where "AUDIT_MAX_PAGES = 10000"

definition WALK_REQUEST_LIMIT :: jsnum where "WALK_REQUEST_LIMIT = Fin 1000000"

datatype walk_stop = StopExhausted | StopPageCeiling | StopCursorStalled | StopCancelled | StopPartialFile

datatype unchecked_reason =
  UncheckedPageCeiling | UncheckedCursorStalled | UncheckedHead | UncheckedCancelled | UncheckedPartialFile

type_synonym chain_location = "jsstr \<times> nat"

definition chain_location :: "chain_entry \<Rightarrow> chain_location" where
  "chain_location e = (epochId e, sequenceNum e)"

definition sortsStrictlyBelow :: "chain_entry \<Rightarrow> chain_entry \<Rightarrow> bool" where
  "sortsStrictlyBelow a b \<longleftrightarrow>
     epochId a < epochId b \<or> epochId a = epochId b \<and> sequenceNum a < sequenceNum b"

text \<open>The state of the walk. The sink is what \<open>onPage\<close> writes to.\<close>

record 'w walk_state = check_state +
  wk_entriesSeen :: nat
  wk_pagesFetched :: nat
  wk_newest :: "chain_location option"
  wk_oldest :: "chain_location option"
  wk_previousOldest :: "chain_entry option"
  wk_cursor :: "jsstr option"
  wk_cursorExhausted :: bool
  wk_stopReason :: walk_stop
  wk_sink :: 'w

text \<open>
  The engine as the walk sees it: the answer to a request may depend on how many were made before, and be an error. The
  abort signal is a function of the same number, since it is read once in each round.
\<close>

type_synonym 'e audit_client = "nat \<Rightarrow> jsnum \<Rightarrow> jsstr option \<Rightarrow> 'e + chain_entry list \<times> jsstr option"

record ('e, 'w) walk_options =
  wo_verify :: bool
  wo_onPage :: "chain_entry list \<Rightarrow> 'w \<Rightarrow> 'e + 'w"
  wo_aborted :: "nat \<Rightarrow> bool"

text \<open>The counters and locations after a page was accepted.\<close>

definition count_page :: "chain_entry list \<Rightarrow> 'w walk_state \<Rightarrow> 'w walk_state" where
  "count_page page st =
     st\<lparr>wk_pagesFetched := wk_pagesFetched st + 1,
        wk_entriesSeen := wk_entriesSeen st + length page,
        wk_newest := (case wk_newest st of None \<Rightarrow> Some (chain_location (hd page)) | Some l \<Rightarrow> Some l),
        wk_oldest := Some (chain_location (last page))\<rparr>"

definition stalls :: "'w walk_state \<Rightarrow> chain_entry list \<Rightarrow> bool" where
  "stalls st page \<longleftrightarrow>
     (case wk_previousOldest st of None \<Rightarrow> False | Some p \<Rightarrow> \<not> sortsStrictlyBelow (hd page) p)"

text \<open>The loop. A walk that does not return is \<open>None\<close>; an error of the client or of the sink ends it.\<close>

partial_function (option) walk_loop ::
  "(rat \<Rightarrow> jsstr) \<Rightarrow> (bytes \<Rightarrow> jsstr) \<Rightarrow> 'e audit_client \<Rightarrow> ('e, 'w) walk_options \<Rightarrow> 'w walk_state
   \<Rightarrow> ('e + 'w walk_state) option" where
  "walk_loop sf h client opts st =
     (if wo_aborted opts (wk_pagesFetched st) then Some (Inr (st\<lparr>wk_stopReason := StopCancelled\<rparr>))
      else if wk_pagesFetched st \<ge> AUDIT_MAX_PAGES then Some (Inr (st\<lparr>wk_stopReason := StopPageCeiling\<rparr>))
      else (case client (wk_pagesFetched st) WALK_REQUEST_LIMIT (wk_cursor st) of
        Inl e \<Rightarrow> Some (Inl e)
      | Inr (page, nextCursor) \<Rightarrow>
        if page = [] then
          Some (Inr (st\<lparr>wk_cursorExhausted := (nextCursor = None \<or> wk_cursorExhausted st)\<rparr>))
        else if stalls st page then Some (Inr (st\<lparr>wk_stopReason := StopCursorStalled\<rparr>))
        else (case wo_onPage opts page (wk_sink st) of
          Inl e \<Rightarrow> Some (Inl e)
        | Inr w \<Rightarrow>
          let st = (count_page page st)\<lparr>wk_sink := w\<rparr>;
              st = (if wo_verify opts then verify_page sf h page st else st);
              st = st\<lparr>wk_previousOldest := Some (last page)\<rparr>
          in (case nextCursor of
                None \<Rightarrow> Some (Inr (st\<lparr>wk_cursorExhausted := True\<rparr>))
              | Some c \<Rightarrow> walk_loop sf h client opts (st\<lparr>wk_cursor := Some c\<rparr>)))))"

definition init_checks :: check_state where
  "init_checks = \<lparr>ck_pages = [], ck_closures = [], ck_carry = [], ck_boundary = None, ck_breakFound = False,
     ck_conflictFound = False\<rparr>"

definition init_walk :: "'w \<Rightarrow> 'w walk_state" where
  "init_walk w = check_state.extend init_checks
     (walk_state.fields 0 0 None None None None False StopExhausted w)"

definition walkAuditChain ::
  "(rat \<Rightarrow> jsstr) \<Rightarrow> (bytes \<Rightarrow> jsstr) \<Rightarrow> 'e audit_client \<Rightarrow> ('e, 'w) walk_options \<Rightarrow> 'w
   \<Rightarrow> ('e + 'w walk_state) option" where
  "walkAuditChain sf h client opts w = walk_loop sf h client opts (init_walk w)"

section \<open>summarizeWalk\<close>

record walk_summary =
  su_exitCode :: nat
  su_breaks :: "chain_break list"
  su_entriesChecked :: nat
  su_epochsCovered :: "jsstr list"
  su_genesisShapedHead :: bool
  su_uncheckedReasons :: "unchecked_reason list"
  su_conflicted :: "decision_closure list"
  su_unresolved :: "decision_closure list"
  su_uncheckedClosures :: "closer_ref list"

text \<open>The elements at their first index.\<close>

definition first_occurrences :: "'a list \<Rightarrow> 'a list" where
  "first_occurrences xs = rev (remdups (rev xs))"

fun is_unchecked :: "lower_edge \<Rightarrow> bool" where
  "is_unchecked (LowerUnchecked _) = True"
| "is_unchecked _ = False"

definition head_unchecked :: "chain_verdict list \<Rightarrow> bool" where
  "head_unchecked pages \<longleftrightarrow> pages \<noteq> [] \<and> is_unchecked (lowerEdge (last pages))"

definition unchecked_reasons :: "walk_stop \<Rightarrow> bool \<Rightarrow> unchecked_reason list" where
  "unchecked_reasons stop headUnchecked =
     (case stop of
        StopPageCeiling \<Rightarrow> [UncheckedPageCeiling]
      | StopCursorStalled \<Rightarrow> [UncheckedCursorStalled]
      | StopCancelled \<Rightarrow> [UncheckedCancelled]
      | StopPartialFile \<Rightarrow> [UncheckedPartialFile]
      | StopExhausted \<Rightarrow> if headUnchecked then [UncheckedHead] else [])"

definition exit_code :: "chain_break list \<Rightarrow> decision_closure list \<Rightarrow> walk_stop \<Rightarrow> bool \<Rightarrow> bool \<Rightarrow> nat" where
  "exit_code brks conflicted stop exhausted headUnchecked =
     (if length brks > 0 then EXIT_BROKEN_CHAIN
      else if length conflicted > 0 then EXIT_CONFLICTED_CLOSER
      else if stop = StopCancelled then EXIT_CANCELLED
      else if \<not> exhausted then EXIT_UNCHECKED_EDGE
      else if headUnchecked \<or> stop = StopPartialFile then EXIT_UNCHECKED_EDGE
      else 0)"

definition summarizeWalk ::
  "chain_verdict list \<Rightarrow> bool \<Rightarrow> walk_stop \<Rightarrow> closure_verdict list \<Rightarrow> walk_summary" where
  "summarizeWalk pages exhausted stop closures =
     (let oldestFirst = rev pages;
          brks = concat (map breaks oldestFirst);
          closuresOldestFirst = rev closures;
          conflicted = concat (map conflictedOnes closuresOldestFirst);
          headUnchecked = head_unchecked pages
      in \<lparr>su_exitCode = exit_code brks conflicted stop exhausted headUnchecked,
          su_breaks = brks,
          su_entriesChecked = foldl (\<lambda>s p. s + entriesChecked p) 0 pages,
          su_epochsCovered = first_occurrences (concat (map epochsCovered oldestFirst)),
          su_genesisShapedHead = (pages \<noteq> [] \<and> lowerEdge (last pages) = GenesisShaped),
          su_uncheckedReasons = unchecked_reasons stop headUnchecked,
          su_conflicted = conflicted,
          su_unresolved = concat (map unresolvedOnes closuresOldestFirst),
          su_uncheckedClosures = (if closures = [] then [] else carry (last closures))\<rparr>)"

text \<open>The exit code of the force exit, which sees only the two flags.\<close>

definition force_exit :: "'a check_state_scheme \<Rightarrow> nat" where
  "force_exit st =
     (if ck_breakFound st then EXIT_BROKEN_CHAIN
      else if ck_conflictFound st then EXIT_CONFLICTED_CLOSER else EXIT_CANCELLED)"

section \<open>Dump files\<close>

definition DUMP_FORMAT_VERSION :: int where "DUMP_FORMAT_VERSION = 1"

definition AUDIT_HASH_FORMAT :: jsstr where "AUDIT_HASH_FORMAT = js ''fieldwise-sha256-v1''"

datatype dump_error =
  ManifestNotJson | ManifestNotObject | UnknownVersion | UnknownHashFormat | InteriorMalformed | EmptyFile
| SequenceNotModelled

definition manifest_json :: json where
  "manifest_json = JObj [(js ''habenulaAuditDump'', JNum (JInt DUMP_FORMAT_VERSION)),
     (js ''hashFormat'', JStr AUDIT_HASH_FORMAT)]"

definition dumpManifestLine :: "(rat \<Rightarrow> jsstr) \<Rightarrow> jsstr" where
  "dumpManifestLine sf = stringify sf manifest_json"

definition nullable :: "jsstr option \<Rightarrow> json" where
  "nullable t = (case t of None \<Rightarrow> JNull | Some s \<Rightarrow> JStr s)"

text \<open>An entry on the wire, with its keys in the order the route writes them.\<close>

definition entry_members :: "chain_entry \<Rightarrow> (jsstr \<times> json) list" where
  "entry_members e =
     [(js ''epochId'', JStr (epochId e)), (js ''sequenceNum'', JNum (JInt (int (sequenceNum e)))),
      (js ''prevHash'', JStr (prevHash e)), (js ''id'', JStr (entryId e)),
      (js ''timestamp'', JStr (timestamp e)), (js ''userId'', JStr (userId e)),
      (js ''agentId'', JStr (agentId e)), (js ''sessionId'', JStr (sessionId e)),
      (js ''origin'', JStr (origin e)), (js ''service'', JStr (service e)),
      (js ''verb'', JStr (verb e)), (js ''noun'', JStr (noun e)), (js ''toolName'', JStr (toolName e)),
      (js ''parametersMetadata'', JStr (parametersMetadata e)),
      (js ''decision'', JStr (decision e)), (js ''outcome'', JStr (outcome e)),
      (js ''errorMessage'', nullable (errorMessage e)),
      (js ''decisionEntryId'', nullable (decisionEntryId e)),
      (js ''latencyMs'', JNum (latencyMs e)),
      (js ''costUsd'', (case costUsd e of None \<Rightarrow> JNull | Some c \<Rightarrow> JNum c)),
      (js ''hash'', JStr (hash e)), (js ''epochPrevHash'', nullable (epochPrevHash e))]"

definition dumpEntryLine :: "(rat \<Rightarrow> jsstr) \<Rightarrow> chain_entry \<Rightarrow> jsstr" where
  "dumpEntryLine sf e = stringify sf (JObj (entry_members e))"

definition STRING_FIELDS :: "jsstr list" where
  "STRING_FIELDS = map js [''epochId'', ''prevHash'', ''id'', ''timestamp'', ''userId'', ''agentId'', ''sessionId'',
     ''origin'', ''service'', ''verb'', ''noun'', ''toolName'', ''parametersMetadata'', ''decision'', ''outcome'',
     ''hash'']"

definition NULLABLE_STRING_FIELDS :: "jsstr list" where
  "NULLABLE_STRING_FIELDS = map js [''errorMessage'', ''decisionEntryId'', ''epochPrevHash'']"

definition INTEGER_FIELDS :: "jsstr list" where
  "INTEGER_FIELDS = map js [''sequenceNum'', ''latencyMs'']"

definition CHAIN_ENTRY_KEY_COUNT :: nat where
  "CHAIN_ENTRY_KEY_COUNT = length STRING_FIELDS + length NULLABLE_STRING_FIELDS + length INTEGER_FIELDS + 1"

fun is_string_value :: "json option \<Rightarrow> bool" where
  "is_string_value (Some (JStr _)) = True"
| "is_string_value _ = False"

fun is_integer_value :: "json option \<Rightarrow> bool" where
  "is_integer_value (Some (JNum n)) = is_integer_num n"
| "is_integer_value _ = False"

fun is_number_value :: "json option \<Rightarrow> bool" where
  "is_number_value (Some (JNum _)) = True"
| "is_number_value _ = False"

text \<open>The guard over the parsed line; \<open>None\<close> is the \<open>null\<close> of a malformed line.\<close>

definition readChainEntryLine :: "(jsstr \<Rightarrow> json option) \<Rightarrow> jsstr \<Rightarrow> (jsstr \<times> json) list option" where
  "readChainEntryLine parse line =
     (case parse line of
        Some (JObj members) \<Rightarrow>
          if length members \<noteq> CHAIN_ENTRY_KEY_COUNT then None
          else if \<exists>key \<in> set STRING_FIELDS. \<not> is_string_value (map_of members key) then None
          else if \<exists>key \<in> set NULLABLE_STRING_FIELDS.
              map_of members key \<noteq> Some JNull \<and> \<not> is_string_value (map_of members key) then None
          else if \<exists>key \<in> set INTEGER_FIELDS. \<not> is_integer_value (map_of members key) then None
          else if map_of members (js ''costUsd'') \<noteq> Some JNull
              \<and> \<not> is_number_value (map_of members (js ''costUsd'')) then None
          else Some members
      | _ \<Rightarrow> None)"

fun text_value :: "json option \<Rightarrow> jsstr" where
  "text_value (Some (JStr s)) = s"
| "text_value _ = []"

fun nullable_value :: "json option \<Rightarrow> jsstr option" where
  "nullable_value (Some (JStr s)) = Some s"
| "nullable_value _ = None"

fun number_value :: "json option \<Rightarrow> jsnum option" where
  "number_value (Some (JNum n)) = Some n"
| "number_value _ = None"

text \<open>A guarded record as an entry of the model, whose sequence numbers are natural numbers with a decimal text.\<close>

definition as_entry :: "(jsstr \<times> json) list \<Rightarrow> chain_entry option" where
  "as_entry members =
     (let str = (\<lambda>k. text_value (map_of members (js k))); opt = (\<lambda>k. nullable_value (map_of members (js k)));
          seq = \<lfloor>num_val (the (number_value (map_of members (js ''sequenceNum''))))\<rfloor>
      in if seq < 0 \<or> 10 ^ 21 \<le> seq then None
         else Some \<lparr>epochId = str ''epochId'', sequenceNum = nat seq, prevHash = str ''prevHash'',
           entryId = str ''id'', timestamp = str ''timestamp'', userId = str ''userId'', agentId = str ''agentId'',
           sessionId = str ''sessionId'', origin = str ''origin'', service = str ''service'', verb = str ''verb'',
           noun = str ''noun'', toolName = str ''toolName'', parametersMetadata = str ''parametersMetadata'',
           decision = str ''decision'', outcome = str ''outcome'', errorMessage = opt ''errorMessage'',
           decisionEntryId = opt ''decisionEntryId'',
           latencyMs = the (number_value (map_of members (js ''latencyMs''))),
           costUsd = number_value (map_of members (js ''costUsd'')),
           hash = str ''hash'', epochPrevHash = opt ''epochPrevHash''\<rparr>)"

definition readDumpManifest :: "(jsstr \<Rightarrow> json option) \<Rightarrow> jsstr \<Rightarrow> dump_error + unit" where
  "readDumpManifest parse line =
     (case parse line of
        None \<Rightarrow> Inl ManifestNotJson
      | Some manifest \<Rightarrow>
        if \<not> is_object manifest then Inl ManifestNotObject
        else if jget manifest (js ''habenulaAuditDump'') \<noteq> Some (JNum (JInt DUMP_FORMAT_VERSION))
        then Inl UnknownVersion
        else if jget manifest (js ''hashFormat'') \<noteq> Some (JStr AUDIT_HASH_FORMAT) then Inl UnknownHashFormat
        else Inr ())"

definition READ_BATCH_SIZE :: nat where "READ_BATCH_SIZE = 200"

record dump_state = check_state +
  ds_entriesSeen :: nat
  ds_newest :: "chain_location option"
  ds_oldest :: "chain_location option"
  ds_batch :: "chain_entry list"
  ds_sawManifest :: bool
  ds_pendingMalformed :: bool
  ds_stopReason :: walk_stop

definition flushBatch :: "(rat \<Rightarrow> jsstr) \<Rightarrow> (bytes \<Rightarrow> jsstr) \<Rightarrow> dump_state \<Rightarrow> dump_state" where
  "flushBatch sf h st =
     (if length (ds_batch st) = 0 then st else (verify_page sf h (ds_batch st) st)\<lparr>ds_batch := []\<rparr>)"

text \<open>One entry of the file, and the batch it may fill.\<close>

definition add_entry :: "(rat \<Rightarrow> jsstr) \<Rightarrow> (bytes \<Rightarrow> jsstr) \<Rightarrow> chain_entry \<Rightarrow> dump_state \<Rightarrow> dump_state" where
  "add_entry sf h entry st =
     (let st = st\<lparr>ds_entriesSeen := ds_entriesSeen st + 1,
            ds_newest := (case ds_newest st of None \<Rightarrow> Some (chain_location entry) | Some l \<Rightarrow> Some l),
            ds_oldest := Some (chain_location entry),
            ds_batch := ds_batch st @ [entry]\<rparr>
      in if length (ds_batch st) \<ge> READ_BATCH_SIZE then flushBatch sf h st else st)"

text \<open>The loop over the lines; the abort signal is read once for each line.\<close>

fun dump_loop ::
  "(rat \<Rightarrow> jsstr) \<Rightarrow> (bytes \<Rightarrow> jsstr) \<Rightarrow> (jsstr \<Rightarrow> json option) \<Rightarrow> (nat \<Rightarrow> bool) \<Rightarrow> nat \<Rightarrow> dump_state \<Rightarrow> jsstr list
   \<Rightarrow> dump_error + dump_state" where
  "dump_loop sf h parse aborted n st [] = Inr st"
| "dump_loop sf h parse aborted n st (line # lines) =
     (if aborted n then Inr ((flushBatch sf h st)\<lparr>ds_stopReason := StopCancelled\<rparr>)
      else if \<not> ds_sawManifest st then
        try_bind (readDumpManifest parse line) (\<lambda>_.
          dump_loop sf h parse aborted (n + 1) (st\<lparr>ds_sawManifest := True\<rparr>) lines)
      else if ds_pendingMalformed st then Inl InteriorMalformed
      else (case readChainEntryLine parse line of
        None \<Rightarrow> dump_loop sf h parse aborted (n + 1) (st\<lparr>ds_pendingMalformed := True\<rparr>) lines
      | Some members \<Rightarrow>
        (case as_entry members of
           None \<Rightarrow> Inl SequenceNotModelled
         | Some entry \<Rightarrow> dump_loop sf h parse aborted (n + 1) (add_entry sf h entry st) lines)))"

definition init_dump :: dump_state where
  "init_dump = check_state.extend init_checks (dump_state.fields 0 None None [] False False StopExhausted)"

definition verifyDumpLines ::
  "(rat \<Rightarrow> jsstr) \<Rightarrow> (bytes \<Rightarrow> jsstr) \<Rightarrow> (jsstr \<Rightarrow> json option) \<Rightarrow> (nat \<Rightarrow> bool) \<Rightarrow> jsstr list \<Rightarrow> dump_error + dump_state" where
  "verifyDumpLines sf h parse aborted lines =
     try_bind (dump_loop sf h parse aborted 0 init_dump lines) (\<lambda>st.
       if ds_stopReason st = StopCancelled then Inr st
       else
         let st = flushBatch sf h st in
         if \<not> ds_sawManifest st then Inl EmptyFile
         else Inr (if ds_pendingMalformed st then st\<lparr>ds_stopReason := StopPartialFile\<rparr> else st))"

section \<open>The commands\<close>

text \<open>\<open>log dump\<close>: the manifest, then each page as lines. The sink may throw; progress lines are left out.\<close>

definition as_lines :: "jsstr list \<Rightarrow> jsstr" where
  "as_lines ls = concat (map (\<lambda>l. l @ [10]) ls)"

definition dump_options :: "(rat \<Rightarrow> jsstr) \<Rightarrow> (nat \<Rightarrow> bool) \<Rightarrow> (jsstr \<Rightarrow> 'w \<Rightarrow> 'e + 'w) \<Rightarrow> ('e, 'w) walk_options" where
  "dump_options sf aborted put =
     \<lparr>wo_verify = False, wo_onPage = (\<lambda>page. put (as_lines (map (dumpEntryLine sf) page))), wo_aborted = aborted\<rparr>"

definition runLogDump ::
  "(rat \<Rightarrow> jsstr) \<Rightarrow> (bytes \<Rightarrow> jsstr) \<Rightarrow> 'e audit_client \<Rightarrow> (nat \<Rightarrow> bool) \<Rightarrow> (jsstr \<Rightarrow> 'w \<Rightarrow> 'e + 'w) \<Rightarrow> 'w
   \<Rightarrow> ('e + nat \<times> 'w) option" where
  "runLogDump sf h client aborted put w =
     (case put (as_lines [dumpManifestLine sf]) w of
        Inl e \<Rightarrow> Some (Inl e)
      | Inr w \<Rightarrow>
        map_option (\<lambda>r. case r of
            Inl e \<Rightarrow> Inl e
          | Inr st \<Rightarrow>
            if wk_stopReason st = StopCancelled then Inr (EXIT_CANCELLED, wk_sink st)
            else Inr (su_exitCode (summarizeWalk [] (wk_cursorExhausted st) (wk_stopReason st) []), wk_sink st))
          (walkAuditChain sf h client (dump_options sf aborted put) w))"

text \<open>What \<open>log verify\<close> reports, by its blocks; the number says how many entries were checked.\<close>

datatype closure_note = OpenDecision decision_closure | LeftoverCloser closer_ref

datatype log_report =
  ReportBroken bool chain_break nat nat
| ReportConflicted "decision_closure list" nat "unchecked_reason list" "closure_note list"
| ReportCancelled nat "closure_note list"
| ReportPartial "unchecked_reason list" nat "closure_note list"
| ReportEmpty
| ReportOk nat nat "closure_note list"

definition closureNotes :: "walk_summary \<Rightarrow> closure_note list" where
  "closureNotes s = map OpenDecision (su_unresolved s) @ map LeftoverCloser (su_uncheckedClosures s)"

definition log_verdict :: "walk_summary \<Rightarrow> nat \<Rightarrow> nat \<times> log_report" where
  "log_verdict s entriesSeen =
     (if length (su_breaks s) > 0 then
        (EXIT_BROKEN_CHAIN,
         ReportBroken (su_genesisShapedHead s \<and> length (su_uncheckedReasons s) = 0) (hd (su_breaks s))
           (length (su_breaks s) - 1) (su_entriesChecked s))
      else if length (su_conflicted s) > 0 then
        (su_exitCode s,
         ReportConflicted (su_conflicted s) (su_entriesChecked s) (su_uncheckedReasons s) (closureNotes s))
      else if su_exitCode s = EXIT_CANCELLED then
        (EXIT_CANCELLED, ReportCancelled (su_entriesChecked s) (closureNotes s))
      else if su_exitCode s \<noteq> 0 then
        (su_exitCode s, ReportPartial (su_uncheckedReasons s) (su_entriesChecked s) (closureNotes s))
      else if entriesSeen = 0 then (0, ReportEmpty)
      else (0, ReportOk (su_entriesChecked s) (length (su_epochsCovered s)) (closureNotes s)))"

definition walk_summary_of :: "'w walk_state \<Rightarrow> walk_summary" where
  "walk_summary_of st = summarizeWalk (ck_pages st) (wk_cursorExhausted st) (wk_stopReason st) (ck_closures st)"

definition dump_summary_of :: "dump_state \<Rightarrow> walk_summary" where
  "dump_summary_of st = summarizeWalk (ck_pages st) True (ds_stopReason st) (ck_closures st)"

definition verify_options :: "(nat \<Rightarrow> bool) \<Rightarrow> ('e, unit) walk_options" where
  "verify_options aborted = \<lparr>wo_verify = True, wo_onPage = (\<lambda>page. Inr), wo_aborted = aborted\<rparr>"

text \<open>\<open>log verify\<close> over the wire, and over the lines of a file.\<close>

definition runLogVerify ::
  "(rat \<Rightarrow> jsstr) \<Rightarrow> (bytes \<Rightarrow> jsstr) \<Rightarrow> 'e audit_client \<Rightarrow> (nat \<Rightarrow> bool) \<Rightarrow> ('e + nat \<times> log_report) option" where
  "runLogVerify sf h client aborted =
     map_option (\<lambda>r. case r of
         Inl e \<Rightarrow> Inl e
       | Inr st \<Rightarrow> Inr (log_verdict (walk_summary_of st) (wk_entriesSeen st)))
       (walkAuditChain sf h client (verify_options aborted) ())"

definition runLogVerifyFile ::
  "(rat \<Rightarrow> jsstr) \<Rightarrow> (bytes \<Rightarrow> jsstr) \<Rightarrow> (jsstr \<Rightarrow> json option) \<Rightarrow> (nat \<Rightarrow> bool) \<Rightarrow> jsstr list
   \<Rightarrow> dump_error + nat \<times> log_report" where
  "runLogVerifyFile sf h parse aborted lines =
     try_bind (verifyDumpLines sf h parse aborted lines) (\<lambda>st.
       Inr (log_verdict (dump_summary_of st) (ds_entriesSeen st)))"

section \<open>What the checks of the pages say of all rows\<close>

text \<open>
  \<open>checked sf h st rows\<close>: the verdicts in \<open>st\<close> are those of the rows seen so far, newest first, whatever the pages
  were. The closure findings are exactly those of one check; no break was found only if the rows are intact.
\<close>

abbreviation all_breaks :: "'a check_state_scheme \<Rightarrow> chain_break list" where
  "all_breaks st \<equiv> concat (map breaks (rev (ck_pages st)))"

definition checked ::
  "(rat \<Rightarrow> jsstr) \<Rightarrow> (bytes \<Rightarrow> jsstr) \<Rightarrow> 'a check_state_scheme \<Rightarrow> chain_entry list \<Rightarrow> bool" where
  "checked sf h st rows \<longleftrightarrow>
     (let whole = checkDecisionClosure (rev rows) [] True in
      ck_carry st = carry whole
      \<and> concat (map conflictedOnes (rev (ck_closures st))) = conflictedOnes whole
      \<and> concat (map unresolvedOnes (rev (ck_closures st))) = unresolvedOnes whole)
     \<and> ck_boundary st = (if rows = [] then None else Some (last rows))
     \<and> (ck_pages st = [] \<longleftrightarrow> rows = []) \<and> (ck_closures st = [] \<longleftrightarrow> rows = [])
     \<and> (rows \<noteq> [] \<longrightarrow> carry (last (ck_closures st)) = ck_carry st
         \<and> lowerEdge (last (ck_pages st)) = lowerEdge (verifyChainRange sf h (rev rows) None))
     \<and> foldl (\<lambda>s p. s + entriesChecked p) 0 (ck_pages st) = length rows
     \<and> first_occurrences (concat (map epochsCovered (rev (ck_pages st)))) = first_occurrences (map epochId (rev rows))
     \<and> (all_breaks st = [] \<longrightarrow> intact sf h (rev rows))
     \<and> ck_breakFound st = (all_breaks st \<noteq> [])
     \<and> ck_conflictFound st = (conflictedOnes (checkDecisionClosure (rev rows) [] True) \<noteq> [])"

lemma lowerEdge_hd:
  "es \<noteq> [] \<Longrightarrow> lowerEdge (verifyChainRange sf h es b) =
     (if sequenceNum (hd es) = 0 \<and> epochPrevHash (hd es) = None then GenesisShaped
      else LowerUnchecked (Some (epochId (hd es), sequenceNum (hd es))))"
  by (cases es) (auto simp: verifyChainRange_def Let_def split: prod.splits option.splits)

lemma entriesChecked_length: "entriesChecked (verifyChainRange sf h es b) = length es"
  by (cases es) (auto simp: verifyChainRange_def Let_def split: prod.splits option.splits)

text \<open>The epochs covered, up to repetitions.\<close>

lemma remdups_later: "x \<in> set ys \<Longrightarrow> remdups (xs @ x # ys) = remdups (xs @ ys)"
  by (induction xs) auto

lemma remdups_append_cong: "remdups xs = remdups xs' \<Longrightarrow> remdups ys = remdups ys' \<Longrightarrow> remdups (xs @ ys) = remdups (xs' @ ys')"
proof -
  have split: "remdups (as @ bs) = filter (\<lambda>x. x \<notin> set bs) (remdups as) @ remdups bs" for as bs :: "'a list"
    by (induction as) auto
  assume "remdups xs = remdups xs'" "remdups ys = remdups ys'"
  then show ?thesis using split[of xs ys] split[of xs' ys'] by (metis set_remdups)
qed

lemma first_occurrences_cong:
  "first_occurrences xs = first_occurrences xs' \<Longrightarrow> first_occurrences ys = first_occurrences ys' \<Longrightarrow>
   first_occurrences (xs @ ys) = first_occurrences (xs' @ ys')"
  by (auto simp: first_occurrences_def intro: remdups_append_cong)

lemma verify_loop_epochs:
  "first_occurrences (fst (snd (verify_loop sf h prev epochs brks es))) = first_occurrences (epochs @ map epochId es)"
proof (induction es arbitrary: prev epochs brks)
  case (Cons e es)
  have "first_occurrences (epochs @ map epochId es) = first_occurrences (epochs @ epochId e # map epochId es)"
    if "epochs \<noteq> []" "last epochs = epochId e"
    using that remdups_later[of "epochId e" "rev epochs" "rev (map epochId es)"] last_in_set[of epochs]
    by (simp add: first_occurrences_def)
  then show ?case using Cons.IH by auto
qed simp

lemma epochsCovered_rows:
  "first_occurrences (epochsCovered (verifyChainRange sf h es b)) = first_occurrences (map epochId es)"
  using verify_loop_epochs[of sf h None "[]" "[]" es]
  by (cases es) (auto simp: verifyChainRange_def Let_def split: prod.splits option.splits)

lemma seam_linked: "seam_rule p b = [] \<Longrightarrow> linked p b"
  by (auto simp: seam_rule_def linked_def Let_def split: if_splits option.splits)

lemma checked_init: "checked sf h init_checks []"
  by (simp add: checked_def init_checks_def checkDecisionClosure_def init_state_def seed_unmatched_def Let_def)

text \<open>Only the fields of the checks matter.\<close>

lemma checked_cong:
  "check_state.truncate st = check_state.truncate st' \<Longrightarrow> checked sf h st rows = checked sf h st' rows"
  by (cases st; cases st') (simp add: check_state.truncate_def checked_def)

lemma verify_page_fields:
  fixes st :: "'a check_state_scheme" and sf h
  defines "v \<equiv> \<lambda>page. verifyChainRange sf h (rev page) (ck_boundary st)"
    and "c \<equiv> \<lambda>page. checkDecisionClosure (rev page) (ck_carry st) True"
  shows "ck_pages (verify_page sf h page st) = ck_pages st @ [v page]"
    "ck_closures (verify_page sf h page st) = ck_closures st @ [c page]"
    "ck_carry (verify_page sf h page st) = carry (c page)"
    "ck_boundary (verify_page sf h page st) = Some (last page)"
    "ck_breakFound (verify_page sf h page st) \<longleftrightarrow> ck_breakFound st \<or> breaks (v page) \<noteq> []"
    "ck_conflictFound (verify_page sf h page st) \<longleftrightarrow> ck_conflictFound st \<or> conflictedOnes (c page) \<noteq> []"
  by (simp_all add: verify_page_def v_def c_def Let_def)

lemma closure_older:
  fixes page rows
  defines "v \<equiv> checkDecisionClosure (rev rows) [] True"
  shows "carry (checkDecisionClosure (rev page @ rev rows) [] True) = carry (checkDecisionClosure (rev page) (carry v) True)"
    "conflictedOnes (checkDecisionClosure (rev page @ rev rows) [] True)
       = conflictedOnes (checkDecisionClosure (rev page) (carry v) True) @ conflictedOnes v"
    "unresolvedOnes (checkDecisionClosure (rev page @ rev rows) [] True)
       = unresolvedOnes (checkDecisionClosure (rev page) (carry v) True) @ unresolvedOnes v"
  using checkDecisionClosure_pages_fold[of "rev page" "rev rows" "[]" True] by (simp_all add: v_def Let_def)

lemma intact_page:
  assumes "breaks (verifyChainRange sf h (rev page) (if rows = [] then None else Some (last rows))) = []"
    and "page \<noteq> []" "intact sf h (rev rows)"
  shows "intact sf h (rev (rows @ page))"
proof -
  have "intact sf h (rev page)" using assms(1) by (simp add: verify_breaks range_breaks_empty split: if_splits)
  moreover have "linked (hd page) (last rows)" if "rows \<noteq> []"
    using assms(1,2) that seam_linked by (simp add: verify_breaks last_rev)
  ultimately show ?thesis using assms(2,3) by (auto simp: intact_append last_rev hd_rev)
qed

lemma checked_page:
  assumes c: "checked sf h st rows" and "page \<noteq> []"
  shows "checked sf h (verify_page sf h page st) (rows @ page)"
proof -
  let ?v = "verifyChainRange sf h (rev page) (ck_boundary st)"
  have b: "ck_boundary st = (if rows = [] then None else Some (last rows))"
    and carry: "ck_carry st = carry (checkDecisionClosure (rev rows) [] True)"
    using c by (auto simp: checked_def Let_def)
  have "intact sf h (rev (rows @ page))" if "all_breaks (verify_page sf h page st) = []"
  proof -
    have "breaks ?v = []" "intact sf h (rev rows)"
      using that c by (auto simp: checked_def verify_page_fields)
    then show ?thesis using intact_page[of sf h page rows] assms(2) b by simp
  qed
  moreover have "lowerEdge ?v = lowerEdge (verifyChainRange sf h (rev (rows @ page)) None)"
    using assms(2) by (simp add: lowerEdge_hd)
  ultimately show ?thesis
    using c assms(2) unfolding checked_def Let_def
    by (intro conjI impI)
      (auto simp: verify_page_fields closure_older entriesChecked_length
        intro: first_occurrences_cong epochsCovered_rows)
qed

text \<open>When the pages descend, the breaks found are those of one check of all rows.\<close>

definition exact_breaks ::
  "(rat \<Rightarrow> jsstr) \<Rightarrow> (bytes \<Rightarrow> jsstr) \<Rightarrow> 'a check_state_scheme \<Rightarrow> chain_entry list \<Rightarrow> bool" where
  "exact_breaks sf h st rows \<longleftrightarrow> mset (all_breaks st) = mset (breaks (verifyChainRange sf h (rev rows) None))"

lemma exact_breaks_init: "exact_breaks sf h init_checks []"
  by (simp add: exact_breaks_def init_checks_def verifyChainRange_def)

lemma exact_breaks_page:
  assumes "checked sf h st rows" "exact_breaks sf h st rows" "page \<noteq> []"
    and below: "rows \<noteq> [] \<Longrightarrow> sortsStrictlyBelow (hd page) (last rows)"
  shows "exact_breaks sf h (verify_page sf h page st) (rows @ page)"
proof (cases "rows = []")
  case True
  then show ?thesis using assms(1) by (simp add: exact_breaks_def verify_page_fields checked_def)
next
  case False
  have b: "ck_boundary st = Some (last rows)" using assms(1) False by (simp add: checked_def)
  have r: "rev rows = last rows # rev (butlast rows)" using False by (metis append_butlast_last_id rev_eq_Cons_iff rev_rev_ident)
  have "\<not> (epochId (last rows) = epochId (last (rev page)) \<and> sequenceNum (last rows) = 0)"
    using below[OF False] assms(3) by (auto simp: sortsStrictlyBelow_def last_rev)
  then have "mset (breaks (verifyChainRange sf h (rev page @ rev rows) None)) =
      mset (breaks (verifyChainRange sf h (rev page) (Some (last rows))))
      + mset (breaks (verifyChainRange sf h (rev rows) None))"
    unfolding r using assms(3) by (intro mset_breaks_pages) auto
  then show ?thesis using assms(2) b by (simp add: exact_breaks_def verify_page_fields)
qed

lemma exact_intact: "exact_breaks sf h st rows \<Longrightarrow> all_breaks st = [] \<longleftrightarrow> intact sf h (rev rows)"
  unfolding exact_breaks_def by (metis mset_zero_iff no_breaks_open)

subsection \<open>The summary of checked rows\<close>

definition genesis_shaped :: "chain_entry \<Rightarrow> bool" where
  "genesis_shaped e \<longleftrightarrow> sequenceNum e = 0 \<and> epochPrevHash e = None"

lemma summary_checked:
  fixes st :: "'a check_state_scheme"
  assumes c: "checked sf h st rows" and s: "s = summarizeWalk (ck_pages st) ex stop (ck_closures st)"
  defines "whole \<equiv> checkDecisionClosure (rev rows) [] True"
    and "open_head \<equiv> rows \<noteq> [] \<and> \<not> genesis_shaped (last rows)"
  shows "su_breaks s = all_breaks st" "su_conflicted s = conflictedOnes whole" "su_unresolved s = unresolvedOnes whole"
    "su_uncheckedClosures s = carry whole" "su_entriesChecked s = length rows"
    "su_epochsCovered s = first_occurrences (map epochId (rev rows))"
    "su_genesisShapedHead s \<longleftrightarrow> rows \<noteq> [] \<and> genesis_shaped (last rows)"
    "su_uncheckedReasons s = unchecked_reasons stop open_head"
    "su_exitCode s = exit_code (all_breaks st) (conflictedOnes whole) stop ex open_head"
proof -
  have e: "rows \<noteq> [] \<Longrightarrow> lowerEdge (last (ck_pages st)) =
      (if genesis_shaped (last rows) then GenesisShaped else LowerUnchecked (Some (epochId (last rows), sequenceNum (last rows))))"
    using c by (auto simp: checked_def lowerEdge_hd hd_rev genesis_shaped_def)
  moreover have n: "ck_pages st = [] \<longleftrightarrow> rows = []" using c by (simp add: checked_def)
  ultimately have h: "head_unchecked (ck_pages st) = open_head" by (auto simp: head_unchecked_def open_head_def)
  have k: "carry (checkDecisionClosure [] [] True) = []" by code_simp
  show "su_breaks s = all_breaks st" "su_conflicted s = conflictedOnes whole" "su_unresolved s = unresolvedOnes whole"
    "su_entriesChecked s = length rows" "su_epochsCovered s = first_occurrences (map epochId (rev rows))"
    "su_uncheckedReasons s = unchecked_reasons stop open_head"
    "su_exitCode s = exit_code (all_breaks st) (conflictedOnes whole) stop ex open_head"
    using c h by (simp_all add: s summarizeWalk_def Let_def checked_def whole_def)
  show "su_uncheckedClosures s = carry whole"
    using c k by (auto simp: s summarizeWalk_def Let_def checked_def whole_def)
  show "su_genesisShapedHead s \<longleftrightarrow> rows \<noteq> [] \<and> genesis_shaped (last rows)"
    using n e by (auto simp: s summarizeWalk_def Let_def split: if_splits)
qed

section \<open>What a walk does\<close>

text \<open>The pages a client serves when its cursors are followed: the cursor of the \<open>n\<close>-th request, its page, and the
  rows of the first \<open>n\<close> pages, newest first.\<close>

primrec cursor_at :: "'e audit_client \<Rightarrow> nat \<Rightarrow> jsstr option" where
  "cursor_at client 0 = None"
| "cursor_at client (Suc n) =
     (case client n WALK_REQUEST_LIMIT (cursor_at client n) of Inl _ \<Rightarrow> None | Inr (_, nx) \<Rightarrow> nx)"

definition answer_at :: "'e audit_client \<Rightarrow> nat \<Rightarrow> 'e + chain_entry list \<times> jsstr option" where
  "answer_at client n = client n WALK_REQUEST_LIMIT (cursor_at client n)"

definition page_at :: "'e audit_client \<Rightarrow> nat \<Rightarrow> chain_entry list" where
  "page_at client n = (case answer_at client n of Inl _ \<Rightarrow> [] | Inr (p, _) \<Rightarrow> p)"

definition served :: "'e audit_client \<Rightarrow> nat \<Rightarrow> chain_entry list" where
  "served client n = concat (map (page_at client) [0..<n])"

text \<open>The cursor closed with the last of the first \<open>n\<close> pages.\<close>

definition ended :: "'e audit_client \<Rightarrow> nat \<Rightarrow> bool" where
  "ended client n \<longleftrightarrow> 0 < n \<and> cursor_at client n = None"

lemma served_Suc: "served client (Suc n) = served client n @ page_at client n"
  by (simp add: served_def)

lemma cursor_at_Suc: "answer_at client n = Inr (p, nx) \<Longrightarrow> cursor_at client (Suc n) = nx"
  by (simp add: answer_at_def)

text \<open>Nothing stops the walk before its request number \<open>n\<close>.\<close>

definition walk_reaches :: "'e audit_client \<Rightarrow> ('e, 'w) walk_options \<Rightarrow> nat \<Rightarrow> bool" where
  "walk_reaches client opts n \<longleftrightarrow>
     (\<forall>i < n. page_at client i \<noteq> [] \<and> \<not> wo_aborted opts i \<and> \<not> ended client i
        \<and> (served client i \<noteq> [] \<longrightarrow> sortsStrictlyBelow (hd (page_at client i)) (last (served client i))))"

text \<open>The invariant of the loop.\<close>

definition walk_inv ::
  "(rat \<Rightarrow> jsstr) \<Rightarrow> (bytes \<Rightarrow> jsstr) \<Rightarrow> 'e audit_client \<Rightarrow> ('e, 'w) walk_options \<Rightarrow> 'w \<Rightarrow> 'w walk_state \<Rightarrow> bool" where
  "walk_inv sf h client opts w st \<longleftrightarrow>
     (let n = wk_pagesFetched st; rows = served client n in
      n \<le> AUDIT_MAX_PAGES \<and> (\<not> ended client n \<longrightarrow> wk_cursor st = cursor_at client n)
      \<and> wk_entriesSeen st = length rows
      \<and> walk_reaches client opts n
      \<and> wk_previousOldest st = (if rows = [] then None else Some (last rows))
      \<and> (wo_verify opts \<longrightarrow> checked sf h st rows \<and> exact_breaks sf h st rows)
      \<and> Inr (wk_sink st) = foldl (\<lambda>r i. try_bind r (wo_onPage opts (page_at client i))) (Inr w) [0..<n])"

text \<open>Why it stopped.\<close>

definition walk_final :: "'e audit_client \<Rightarrow> ('e, 'w) walk_options \<Rightarrow> 'w walk_state \<Rightarrow> bool" where
  "walk_final client opts st \<longleftrightarrow>
     (let n = wk_pagesFetched st; rows = served client n in
      case wk_stopReason st of
        StopCancelled \<Rightarrow> wo_aborted opts n \<and> \<not> ended client n \<and> \<not> wk_cursorExhausted st
      | StopPageCeiling \<Rightarrow> n = AUDIT_MAX_PAGES \<and> \<not> wo_aborted opts n \<and> \<not> ended client n \<and> \<not> wk_cursorExhausted st
      | StopCursorStalled \<Rightarrow> n < AUDIT_MAX_PAGES \<and> \<not> wo_aborted opts n \<and> \<not> ended client n \<and> \<not> wk_cursorExhausted st
          \<and> page_at client n \<noteq> [] \<and> rows \<noteq> [] \<and> \<not> sortsStrictlyBelow (hd (page_at client n)) (last rows)
      | StopExhausted \<Rightarrow> ended client n \<and> wk_cursorExhausted st
          \<or> n < AUDIT_MAX_PAGES \<and> \<not> ended client n \<and> \<not> wo_aborted opts n
            \<and> (\<exists>nx. answer_at client n = Inr ([], nx) \<and> wk_cursorExhausted st = (nx = None))
      | StopPartialFile \<Rightarrow> False)"

lemma walk_inv_init: "walk_inv sf h client opts w (init_walk w)"
proof -
  have "check_state.truncate (init_walk w) = check_state.truncate init_checks"
    by (simp add: init_walk_def check_state.defs init_checks_def)
  then have "checked sf h (init_walk w) []" using checked_cong checked_init by blast
  moreover have "exact_breaks sf h (init_walk w) []"
    using exact_breaks_init[of sf h] by (simp add: exact_breaks_def init_walk_def check_state.defs init_checks_def)
  ultimately show ?thesis
    by (simp add: walk_inv_def served_def Let_def init_walk_def check_state.defs walk_state.defs walk_reaches_def)
qed

text \<open>The state after a page was taken.\<close>

definition take_page ::
  "(rat \<Rightarrow> jsstr) \<Rightarrow> (bytes \<Rightarrow> jsstr) \<Rightarrow> ('e, 'w) walk_options \<Rightarrow> chain_entry list \<Rightarrow> 'w \<Rightarrow> 'w walk_state \<Rightarrow> 'w walk_state" where
  "take_page sf h opts page w st =
     (let st = (count_page page st)\<lparr>wk_sink := w\<rparr>;
          st = (if wo_verify opts then verify_page sf h page st else st)
      in st\<lparr>wk_previousOldest := Some (last page)\<rparr>)"

lemma take_page_fields:
  "wk_pagesFetched (take_page sf h opts page w st) = Suc (wk_pagesFetched st)"
  "wk_entriesSeen (take_page sf h opts page w st) = wk_entriesSeen st + length page"
  "wk_previousOldest (take_page sf h opts page w st) = Some (last page)"
  "wk_cursor (take_page sf h opts page w st) = wk_cursor st"
  "wk_sink (take_page sf h opts page w st) = w"
  "wk_stopReason (take_page sf h opts page w st) = wk_stopReason st"
  "wk_cursorExhausted (take_page sf h opts page w st) = wk_cursorExhausted st"
  by (simp_all add: take_page_def Let_def count_page_def verify_page_def)

lemma take_page_checks:
  assumes "wo_verify opts"
  shows "check_state.truncate (take_page sf h opts page w st) = check_state.truncate (verify_page sf h page st)"
  using assms by (simp add: take_page_def Let_def count_page_def verify_page_def check_state.truncate_def)

lemma exact_breaks_cong:
  "check_state.truncate st = check_state.truncate st' \<Longrightarrow> exact_breaks sf h st rows = exact_breaks sf h st' rows"
  by (cases st; cases st') (simp add: check_state.truncate_def exact_breaks_def)

lemma walk_inv_take:
  assumes i: "walk_inv sf h client opts w st" and e: "\<not> ended client (wk_pagesFetched st)"
    and m: "wk_pagesFetched st < AUDIT_MAX_PAGES" and a: "\<not> wo_aborted opts (wk_pagesFetched st)"
    and p: "answer_at client (wk_pagesFetched st) = Inr (page, nx)" "page \<noteq> []" "\<not> stalls st page"
    and w: "wo_onPage opts page (wk_sink st) = Inr w'"
  shows "walk_inv sf h client opts w (take_page sf h opts page w' st\<lparr>wk_cursor := (case nx of None \<Rightarrow> wk_cursor st | Some c \<Rightarrow> Some c)\<rparr>)"
proof -
  let ?n = "wk_pagesFetched st" and ?t = "take_page sf h opts page w' st"
  have page: "page_at client ?n = page" using p(1) by (simp add: page_at_def)
  have below: "sortsStrictlyBelow (hd page) (last (served client ?n))" if "served client ?n \<noteq> []"
    using i p(3) that by (simp add: walk_inv_def Let_def stalls_def)
  have c: "checked sf h ?t (served client ?n @ page) \<and> exact_breaks sf h ?t (served client ?n @ page)" if v: "wo_verify opts"
  proof -
    have k: "checked sf h st (served client ?n)" "exact_breaks sf h st (served client ?n)"
      using i v by (auto simp: walk_inv_def Let_def)
    show ?thesis
      using checked_page[OF k(1) p(2)] exact_breaks_page[OF k p(2) below]
      by (simp add: checked_cong[OF take_page_checks[OF v]] exact_breaks_cong[OF take_page_checks[OF v]])
  qed
  have cc: "checked sf h (?t\<lparr>wk_cursor := x\<rparr>) rs = checked sf h ?t rs" "exact_breaks sf h (?t\<lparr>wk_cursor := x\<rparr>) rs = exact_breaks sf h ?t rs" for x rs
    by (simp_all add: checked_def exact_breaks_def)
  have "foldl (\<lambda>r i. try_bind r (wo_onPage opts (page_at client i))) (Inr w) [0..<?n] = Inr (wk_sink st)"
    using i by (simp add: walk_inv_def Let_def)
  then have s: "Inr w' = foldl (\<lambda>r i. try_bind r (wo_onPage opts (page_at client i))) (Inr w) [0..<Suc ?n]"
    using w page by (simp add: try_bind_def)
  show ?thesis
    using i m a e c s page p(2) below cursor_at_Suc[OF p(1)]
    by (auto simp: walk_inv_def Let_def take_page_fields served_Suc cc ended_def less_Suc_eq walk_reaches_def split: option.splits simp del: upt_Suc)
qed

text \<open>The loop with the state after a page named.\<close>

lemma walk_loop_unfold:
  "walk_loop sf h client opts st =
     (let n = wk_pagesFetched st in
      if wo_aborted opts n then Some (Inr (st\<lparr>wk_stopReason := StopCancelled\<rparr>))
      else if n \<ge> AUDIT_MAX_PAGES then Some (Inr (st\<lparr>wk_stopReason := StopPageCeiling\<rparr>))
      else (case client n WALK_REQUEST_LIMIT (wk_cursor st) of
        Inl e \<Rightarrow> Some (Inl e)
      | Inr (page, nx) \<Rightarrow>
        if page = [] then Some (Inr (st\<lparr>wk_cursorExhausted := (nx = None \<or> wk_cursorExhausted st)\<rparr>))
        else if stalls st page then Some (Inr (st\<lparr>wk_stopReason := StopCursorStalled\<rparr>))
        else (case wo_onPage opts page (wk_sink st) of
          Inl e \<Rightarrow> Some (Inl e)
        | Inr w \<Rightarrow> (case nx of
            None \<Rightarrow> Some (Inr (take_page sf h opts page w st\<lparr>wk_cursorExhausted := True\<rparr>))
          | Some c \<Rightarrow> walk_loop sf h client opts (take_page sf h opts page w st\<lparr>wk_cursor := Some c\<rparr>)))))"
  unfolding take_page_def Let_def by (rule walk_loop.simps[unfolded Let_def])

definition walk_ready :: "'e audit_client \<Rightarrow> 'w walk_state \<Rightarrow> bool" where
  "walk_ready client st \<longleftrightarrow> \<not> ended client (wk_pagesFetched st) \<and> wk_stopReason st = StopExhausted
     \<and> \<not> wk_cursorExhausted st"

definition walk_result_ok ::
  "(rat \<Rightarrow> jsstr) \<Rightarrow> (bytes \<Rightarrow> jsstr) \<Rightarrow> 'e audit_client \<Rightarrow> ('e, 'w) walk_options \<Rightarrow> 'w \<Rightarrow> 'e + 'w walk_state \<Rightarrow> bool" where
  "walk_result_ok sf h client opts w r \<longleftrightarrow>
     (case r of
        Inl e \<Rightarrow> (\<exists>n < AUDIT_MAX_PAGES. walk_reaches client opts n \<and> \<not> ended client n \<and> \<not> wo_aborted opts n
            \<and> answer_at client n = Inl e) \<or> (\<exists>page w. wo_onPage opts page w = Inl e)
      | Inr st \<Rightarrow> walk_inv sf h client opts w st \<and> walk_final client opts st)"

lemma walk_inv_cong:
  "walk_inv sf h client opts w (st\<lparr>wk_stopReason := x\<rparr>) = walk_inv sf h client opts w st"
  "walk_inv sf h client opts w (st\<lparr>wk_cursorExhausted := y\<rparr>) = walk_inv sf h client opts w st"
  by (simp_all add: walk_inv_def checked_def exact_breaks_def)

text \<open>The walk returns, and its result is as described, for every client.\<close>

lemma walk_loop_spec:
  assumes "walk_inv sf h client opts w st" "walk_ready client st"
  shows "\<exists>r. walk_loop sf h client opts st = Some r \<and> walk_result_ok sf h client opts w r"
  using assms
proof (induction "AUDIT_MAX_PAGES - wk_pagesFetched st" arbitrary: st rule: less_induct)
  case less
  let ?n = "wk_pagesFetched st"
  note i = less.prems(1) and r = less.prems(2)
  have e: "\<not> ended client ?n" and ready: "wk_stopReason st = StopExhausted" "\<not> wk_cursorExhausted st"
    using r by (auto simp: walk_ready_def)
  have cur: "client ?n WALK_REQUEST_LIMIT (wk_cursor st) = answer_at client ?n" and max: "?n \<le> AUDIT_MAX_PAGES"
    using i e by (auto simp: walk_inv_def answer_at_def Let_def)
  consider (stop) "wo_aborted opts ?n \<or> ?n = AUDIT_MAX_PAGES"
    | (error) x where "\<not> wo_aborted opts ?n" "?n < AUDIT_MAX_PAGES" "answer_at client ?n = Inl x"
    | (empty) nx where "\<not> wo_aborted opts ?n" "?n < AUDIT_MAX_PAGES" "answer_at client ?n = Inr ([], nx)"
    | (page) page nx where "\<not> wo_aborted opts ?n" "?n < AUDIT_MAX_PAGES" "answer_at client ?n = Inr (page, nx)" "page \<noteq> []"
    using max by (metis le_neq_implies_less sum.exhaust surj_pair)
  then show ?case
  proof cases
    case stop
    then show ?thesis using i e ready
      by (subst walk_loop_unfold) (auto simp: Let_def walk_result_ok_def walk_inv_cong walk_final_def)
  next
    case error
    moreover have "walk_reaches client opts ?n" using i by (simp add: walk_inv_def Let_def)
    ultimately show ?thesis using e by (subst walk_loop_unfold) (auto simp: cur Let_def walk_result_ok_def)
  next
    case empty
    then show ?thesis using i e ready
      by (subst walk_loop_unfold) (simp add: cur Let_def walk_result_ok_def walk_inv_cong walk_final_def)
  next
    case page
    note run = walk_loop_unfold[of sf h client opts st] page cur
    show ?thesis
    proof (cases "stalls st page")
      case True
      then have "walk_final client opts (st\<lparr>wk_stopReason := StopCursorStalled\<rparr>)"
        using i e ready page
        by (auto simp: walk_final_def Let_def page_at_def walk_inv_def stalls_def split: option.splits if_splits)
      then show ?thesis using i True run by (simp add: Let_def walk_result_ok_def walk_inv_cong)
    next
      case False
      show ?thesis
      proof (cases "wo_onPage opts page (wk_sink st)")
        case (Inl x)
        then show ?thesis using False run by (auto simp: Let_def walk_result_ok_def)
      next
        case (Inr w')
        let ?t = "take_page sf h opts page w' st"
        note t = walk_inv_take[OF i e page(2,1,3,4) False Inr]
        show ?thesis
        proof (cases nx)
          case None
          have en: "ended client (Suc ?n)" using cursor_at_Suc[OF page(3)] None by (simp add: ended_def)
          then have "walk_final client opts (?t\<lparr>wk_cursorExhausted := True\<rparr>)"
            using ready by (simp add: walk_final_def Let_def take_page_fields)
          moreover have "walk_inv sf h client opts w ?t" 
            using t en by (simp add: walk_inv_def Let_def take_page_fields checked_def exact_breaks_def)
          ultimately show ?thesis using False Inr None run by (simp add: Let_def walk_result_ok_def walk_inv_cong)
        next
          case (Some c)
          let ?u = "?t\<lparr>wk_cursor := Some c\<rparr>"
          have "walk_ready client ?u"
            using ready cursor_at_Suc[OF page(3)] Some by (simp add: walk_ready_def take_page_fields ended_def)
          moreover have "walk_inv sf h client opts w ?u" using t Some by simp
          moreover have "AUDIT_MAX_PAGES - wk_pagesFetched ?u < AUDIT_MAX_PAGES - ?n"
            using page(2) by (simp add: take_page_fields)
          ultimately show ?thesis using less.hyps[of ?u] False Inr Some run by (simp add: Let_def)
        qed
      qed
    qed
  qed
qed

lemma walk_ready_init: "walk_ready client (init_walk w)"
  by (simp add: walk_ready_def ended_def init_walk_def check_state.defs walk_state.defs)

lemma walkAuditChain_spec:
  "\<exists>r. walkAuditChain sf h client opts w = Some r \<and> walk_result_ok sf h client opts w r"
  unfolding walkAuditChain_def by (rule walk_loop_spec[OF walk_inv_init walk_ready_init])

text \<open>A walk cannot be on its way beyond the page where another one stopped with the same signal.\<close>

lemma final_stops:
  assumes "walk_final client opts st" "wo_aborted opts' = wo_aborted opts" "walk_reaches client opts' n" "n \<le> AUDIT_MAX_PAGES"
  shows "n \<le> wk_pagesFetched st"
proof (rule ccontr)
  let ?n = "wk_pagesFetched st"
  assume "\<not> ?thesis"
  then have "page_at client ?n \<noteq> []" "\<not> wo_aborted opts ?n" "\<not> ended client ?n" "?n < AUDIT_MAX_PAGES"
    "served client ?n \<noteq> [] \<longrightarrow> sortsStrictlyBelow (hd (page_at client ?n)) (last (served client ?n))"
    using assms(2-4) by (auto simp: walk_reaches_def)
  then show False using assms(1) by (cases "wk_stopReason st") (auto simp: walk_final_def Let_def page_at_def)
qed

lemma walk_inv_reaches:
  "walk_inv sf h client opts w st \<Longrightarrow> walk_reaches client opts (wk_pagesFetched st) \<and> wk_pagesFetched st \<le> AUDIT_MAX_PAGES"
  by (simp add: walk_inv_def Let_def)

text \<open>So two walks stop after the same page, and if one returns, no request of the other fails.\<close>

lemma walk_final_unique:
  assumes "walk_inv sf h client opts w st" "walk_final client opts st"
    and "walk_inv sf' h' client opts' w' st'" "walk_final client opts' st'" "wo_aborted opts' = wo_aborted opts"
  shows "wk_pagesFetched st = wk_pagesFetched st'"
  using final_stops[OF assms(2,5)] final_stops[OF assms(4) assms(5)[symmetric]] walk_inv_reaches[OF assms(1)]
    walk_inv_reaches[OF assms(3)] by (simp add: le_antisym)

lemma final_no_error:
  assumes "walk_final client opts st" "walk_inv sf h client opts w st" "wo_aborted opts' = wo_aborted opts"
    and "walk_reaches client opts' n" "n < AUDIT_MAX_PAGES" "\<not> ended client n" "\<not> wo_aborted opts' n"
  shows "answer_at client n \<noteq> Inl e"
proof
  assume e: "answer_at client n = Inl e"
  have "n = wk_pagesFetched st"
  proof (rule ccontr)
    assume "n \<noteq> wk_pagesFetched st"
    then have "n < wk_pagesFetched st" using final_stops[OF assms(1,3,4)] assms(5) by simp
    then have "page_at client n \<noteq> []" using walk_inv_reaches[OF assms(2)] by (simp add: walk_reaches_def)
    then show False using e by (simp add: page_at_def)
  qed
  then show False using assms e
    by (cases "wk_stopReason st") (auto simp: walk_final_def Let_def page_at_def)
qed

text \<open>Requests beyond the ceiling are never made: no answer there matters.\<close>

lemma walk_loop_requests:
  assumes "\<forall>n < AUDIT_MAX_PAGES. client n = client' n"
  shows "walk_loop sf h client opts st = walk_loop sf h client' opts st"
proof (induction "AUDIT_MAX_PAGES - wk_pagesFetched st" arbitrary: st rule: less_induct)
  case less
  have step: "walk_loop sf h client opts (take_page sf h opts page w st\<lparr>wk_cursor := Some c\<rparr>)
      = walk_loop sf h client' opts (take_page sf h opts page w st\<lparr>wk_cursor := Some c\<rparr>)"
    if "wk_pagesFetched st < AUDIT_MAX_PAGES" for page w c
    using that by (intro less) (simp add: take_page_fields)
  show ?case
    using assms step
    by (subst (1 2) walk_loop_unfold) (auto simp: Let_def not_le split: sum.split option.split)
qed

section \<open>What a file says\<close>

definition read_entry :: "(jsstr \<Rightarrow> json option) \<Rightarrow> jsstr \<Rightarrow> chain_entry option" where
  "read_entry parse line = Option.bind (readChainEntryLine parse line) as_entry"

text \<open>The invariant of the file loop: the rows before the batch have been checked.\<close>

definition dump_inv :: "(rat \<Rightarrow> jsstr) \<Rightarrow> (bytes \<Rightarrow> jsstr) \<Rightarrow> dump_state \<Rightarrow> chain_entry list \<Rightarrow> bool" where
  "dump_inv sf h st rows \<longleftrightarrow>
     (\<exists>before. rows = before @ ds_batch st \<and> checked sf h st before
        \<and> (sorted_wrt (\<lambda>a b. sortsStrictlyBelow b a) rows \<longrightarrow> exact_breaks sf h st before))
     \<and> ds_entriesSeen st = length rows"

lemma dump_inv_init: "dump_inv sf h init_dump []"
proof -
  have t: "check_state.truncate init_dump = check_state.truncate init_checks"
    by (simp add: init_dump_def check_state.defs init_checks_def)
  show ?thesis using checked_cong[OF t] checked_init exact_breaks_cong[OF t] exact_breaks_init
    by (simp add: dump_inv_def) (simp add: init_dump_def check_state.defs dump_state.defs)
qed

lemma descending_seam:
  "sorted_wrt (\<lambda>a b. sortsStrictlyBelow b a) (xs @ ys) \<Longrightarrow> xs \<noteq> [] \<Longrightarrow> ys \<noteq> [] \<Longrightarrow> sortsStrictlyBelow (hd ys) (last xs)"
  by (auto simp: sorted_wrt_append)

lemma dump_inv_flush:
  assumes "dump_inv sf h st rows"
  shows "dump_inv sf h (flushBatch sf h st) rows \<and> ds_batch (flushBatch sf h st) = []"
proof (cases "ds_batch st = []")
  case False
  obtain before where b: "rows = before @ ds_batch st" "checked sf h st before"
    "sorted_wrt (\<lambda>a b. sortsStrictlyBelow b a) rows \<longrightarrow> exact_breaks sf h st before"
    using assms by (auto simp: dump_inv_def)
  let ?v = "verify_page sf h (ds_batch st) st"
  have t: "check_state.truncate (?v\<lparr>ds_batch := []\<rparr>) = check_state.truncate ?v"
    by (simp add: check_state.truncate_def verify_page_def Let_def)
  have "checked sf h ?v rows" using checked_page[OF b(2) False] b(1) by simp
  moreover have "exact_breaks sf h ?v rows" if s: "sorted_wrt (\<lambda>a b. sortsStrictlyBelow b a) rows"
    using exact_breaks_page[OF b(2) _ False] b(1,3) s descending_seam[of before "ds_batch st"] False by simp
  ultimately show ?thesis
    using assms False
    by (simp add: dump_inv_def flushBatch_def checked_cong[OF t] exact_breaks_cong[OF t])
      (simp add: verify_page_def Let_def)
qed (use assms in \<open>simp add: flushBatch_def\<close>)

lemma dump_inv_add:
  assumes "dump_inv sf h st rows"
  shows "dump_inv sf h (add_entry sf h e st) (rows @ [e])"
proof -
  let ?s = "st\<lparr>ds_entriesSeen := ds_entriesSeen st + 1,
     ds_newest := (case ds_newest st of None \<Rightarrow> Some (chain_location e) | Some l \<Rightarrow> Some l),
     ds_oldest := Some (chain_location e), ds_batch := ds_batch st @ [e]\<rparr>"
  have t: "check_state.truncate ?s = check_state.truncate st" by (simp add: check_state.truncate_def)
  obtain before where b: "rows = before @ ds_batch st" "checked sf h st before"
    "sorted_wrt (\<lambda>a b. sortsStrictlyBelow b a) rows \<longrightarrow> exact_breaks sf h st before"
    and n: "ds_entriesSeen st = length rows"
    using assms by (auto simp: dump_inv_def)
  have "checked sf h ?s before" "sorted_wrt (\<lambda>a b. sortsStrictlyBelow b a) (rows @ [e]) \<longrightarrow> exact_breaks sf h ?s before"
    using b(2,3) unfolding checked_cong[OF t] exact_breaks_cong[OF t] by (auto simp: sorted_wrt_append)
  then have "dump_inv sf h ?s (rows @ [e])"
    unfolding dump_inv_def using b(1) n by (intro conjI exI[of _ before]) simp_all
  then show ?thesis using dump_inv_flush[of sf h ?s] by (simp add: add_entry_def Let_def)
qed

lemma dump_inv_cong:
  "dump_inv sf h (st\<lparr>ds_sawManifest := x\<rparr>) rows = dump_inv sf h st rows"
  "dump_inv sf h (st\<lparr>ds_pendingMalformed := x\<rparr>) rows = dump_inv sf h st rows"
  "dump_inv sf h (st\<lparr>ds_stopReason := y\<rparr>) rows = dump_inv sf h st rows"
  by (simp_all add: dump_inv_def checked_def exact_breaks_def)

lemma flushBatch_fields:
  "ds_sawManifest (flushBatch sf h st) = ds_sawManifest st"
  "ds_pendingMalformed (flushBatch sf h st) = ds_pendingMalformed st"
  "ds_stopReason (flushBatch sf h st) = ds_stopReason st"
  by (simp_all add: flushBatch_def verify_page_def Let_def)

lemma add_entry_fields:
  "ds_sawManifest (add_entry sf h e st) = ds_sawManifest st"
  "ds_pendingMalformed (add_entry sf h e st) = ds_pendingMalformed st"
  "ds_stopReason (add_entry sf h e st) = ds_stopReason st"
  by (simp_all add: add_entry_def Let_def flushBatch_fields)

text \<open>The entry lines of a file, after its manifest.\<close>

lemma dump_loop_reads:
  assumes "ds_sawManifest st" "\<not> ds_pendingMalformed st" "\<forall>i. \<not> aborted i" "dump_inv sf h st rows"
    and "map (read_entry parse) lines = map Some es"
  shows "\<exists>st'. dump_loop sf h parse aborted n st lines = Inr st' \<and> dump_inv sf h st' (rows @ es)
     \<and> ds_sawManifest st' \<and> \<not> ds_pendingMalformed st' \<and> ds_stopReason st' = ds_stopReason st"
  using assms
proof (induction lines arbitrary: n st rows es)
  case (Cons line lines)
  then obtain e es' where es: "es = e # es'" "read_entry parse line = Some e" "map (read_entry parse) lines = map Some es'"
    by (cases es) auto
  then obtain members where "readChainEntryLine parse line = Some members" "as_entry members = Some e"
    by (auto simp: read_entry_def Option.bind_eq_Some_conv)
  then show ?case
    using Cons.IH[of "add_entry sf h e st" "rows @ [e]" es' "n + 1"] Cons.prems(1-4) es dump_inv_add
    by (simp add: add_entry_fields)
qed simp

text \<open>Conversely, a loop that ends without a malformed last line and without a cancel read every line.\<close>

lemma dump_loop_sound:
  assumes "dump_loop sf h parse aborted n st lines = Inr st'" "ds_sawManifest st" "dump_inv sf h st rows"
    and "\<not> ds_pendingMalformed st'" "ds_stopReason st' \<noteq> StopCancelled"
  shows "\<exists>es. map (read_entry parse) lines = map Some es \<and> dump_inv sf h st' (rows @ es) \<and> ds_stopReason st' = ds_stopReason st"
  using assms
proof (induction lines arbitrary: n st rows)
  case (Cons line lines)
  show ?case
  proof (cases "ds_pendingMalformed st \<or> aborted n")
    case True
    then show ?thesis using Cons.prems by (auto split: if_splits)
  next
    case False
    show ?thesis
    proof (cases "readChainEntryLine parse line")
      case None
      have "dump_loop sf h parse aborted (n + 1) (st\<lparr>ds_pendingMalformed := True\<rparr>) lines = Inr st'"
        using Cons.prems(1,2) False None by simp
      then show ?thesis using Cons.prems by (cases lines) (auto split: if_splits)
    next
      case (Some members)
      then obtain e where e: "as_entry members = Some e"
        and l: "dump_loop sf h parse aborted (n + 1) (add_entry sf h e st) lines = Inr st'"
        using Cons.prems(1,2) False by (auto split: option.splits)
      obtain es where "map (read_entry parse) lines = map Some es" "dump_inv sf h st' ((rows @ [e]) @ es)"
        "ds_stopReason st' = ds_stopReason st"
        using Cons.IH[OF l _ dump_inv_add[OF Cons.prems(3)] Cons.prems(4,5)] Cons.prems(2) by (auto simp: add_entry_fields)
      moreover have "read_entry parse line = Some e" using Some e by (simp add: read_entry_def)
      ultimately show ?thesis by (intro exI[of _ "e # es"]) simp
    qed
  qed
qed simp

subsection \<open>Dumped lines read back\<close>

text \<open>A row \<open>JSON.parse\<close> gives back from its line, with an integral latency and a sequence number of ordinary size.\<close>

definition readable :: "(rat \<Rightarrow> jsstr) \<Rightarrow> (jsstr \<Rightarrow> json option) \<Rightarrow> chain_entry \<Rightarrow> bool" where
  "readable sf parse e \<longleftrightarrow> parse (dumpEntryLine sf e) = Some (JObj (entry_members e))
     \<and> is_integer_num (latencyMs e) \<and> sequenceNum e < 10 ^ 21"

lemma nullable_values [simp]:
  "nullable_value (Some (nullable t)) = t" "nullable t = JNull \<or> is_string_value (Some (nullable t))"
  by (cases t; simp add: nullable_def)+

lemma read_dumped_line:
  assumes "readable sf parse e"
  shows "read_entry parse (dumpEntryLine sf e) = Some e"
proof -
  have "readChainEntryLine parse (dumpEntryLine sf e) = Some (entry_members e)"
    using assms nullable_values(2)[of "errorMessage e"] nullable_values(2)[of "decisionEntryId e"]
      nullable_values(2)[of "epochPrevHash e"]
    by (auto simp: readable_def readChainEntryLine_def entry_members_def CHAIN_ENTRY_KEY_COUNT_def STRING_FIELDS_def
        NULLABLE_STRING_FIELDS_def INTEGER_FIELDS_def js_eq_iff integral_def split: option.splits)
  moreover have "as_entry (entry_members e) = Some e"
  proof -
    have "int (sequenceNum e) < 10 ^ 21" using assms by (simp add: readable_def)
    then show ?thesis
      by (cases "costUsd e") (simp_all add: as_entry_def entry_members_def js_eq_iff Let_def)
  qed
  ultimately show ?thesis by (simp add: read_entry_def)
qed

definition dump_lines :: "(rat \<Rightarrow> jsstr) \<Rightarrow> chain_entry list \<Rightarrow> jsstr list" where
  "dump_lines sf rows = dumpManifestLine sf # map (dumpEntryLine sf) rows"

lemma manifest_read: "parse (dumpManifestLine sf) = Some manifest_json \<Longrightarrow> readDumpManifest parse (dumpManifestLine sf) = Inr ()"
  by (simp add: readDumpManifest_def manifest_json_def js_eq_iff)

text \<open>The verdict on a complete file is that on its rows.\<close>

lemma verify_dump_lines:
  assumes m: "parse (dumpManifestLine sf) = Some manifest_json" and r: "\<forall>e \<in> set rows. readable sf parse e"
  shows "\<exists>st. verifyDumpLines sf h parse (\<lambda>_. False) (dump_lines sf rows) = Inr st \<and> dump_inv sf h st rows
     \<and> ds_batch st = [] \<and> ds_stopReason st = StopExhausted"
proof -
  let ?s = "init_dump\<lparr>ds_sawManifest := True\<rparr>"
  have i: "ds_stopReason init_dump = StopExhausted" "\<not> ds_pendingMalformed init_dump" "\<not> ds_sawManifest init_dump"
    by (simp_all add: init_dump_def check_state.defs dump_state.defs)
  have "map (read_entry parse) (map (dumpEntryLine sf) rows) = map Some rows"
    using r read_dumped_line by simp
  then obtain st where st: "dump_loop sf h parse (\<lambda>_. False) 1 ?s (map (dumpEntryLine sf) rows) = Inr st" "dump_inv sf h st rows"
    "ds_sawManifest st" "\<not> ds_pendingMalformed st" "ds_stopReason st = StopExhausted"
    using dump_loop_reads[of ?s "\<lambda>_. False" sf h "[]" parse "map (dumpEntryLine sf) rows" rows 1] i dump_inv_init[of sf h]
    by (auto simp: dump_inv_cong)
  then have "verifyDumpLines sf h parse (\<lambda>_. False) (dump_lines sf rows) = Inr (flushBatch sf h st)"
    using i manifest_read[of parse sf, OF m] by (simp add: verifyDumpLines_def dump_lines_def try_bind_def flushBatch_fields Let_def)
  then show ?thesis using dump_inv_flush[OF st(2)] st(5) by (simp add: flushBatch_fields)
qed

section \<open>Verdicts\<close>

text \<open>What a verdict says of the rows it covers.\<close>

definition row_code ::
  "(rat \<Rightarrow> jsstr) \<Rightarrow> (bytes \<Rightarrow> jsstr) \<Rightarrow> chain_entry list \<Rightarrow> bool \<Rightarrow> bool \<Rightarrow> nat" where
  "row_code sf h rows cancelled whole =
     (if \<not> intact sf h (rev rows) then EXIT_BROKEN_CHAIN
      else if conflictedOnes (checkDecisionClosure (rev rows) [] True) \<noteq> [] then EXIT_CONFLICTED_CLOSER
      else if cancelled then EXIT_CANCELLED
      else if \<not> whole \<or> rows \<noteq> [] \<and> \<not> genesis_shaped (last rows) then EXIT_UNCHECKED_EDGE
      else 0)"

lemmas exit_codes = EXIT_BROKEN_CHAIN_def EXIT_UNCHECKED_EDGE_def EXIT_CONFLICTED_CLOSER_def EXIT_CANCELLED_def

lemma fst_log_verdict:
  "su_exitCode s = exit_code (su_breaks s) (su_conflicted s) stop ex hd_open \<Longrightarrow> fst (log_verdict s n) = su_exitCode s"
  by (simp add: log_verdict_def exit_code_def)

lemma log_verdict_code:
  assumes "checked sf h st rows" "exact_breaks sf h st rows" "stop \<noteq> StopPartialFile"
    and "stop = StopCancelled \<or> ex = whole"
  shows "fst (log_verdict (summarizeWalk (ck_pages st) ex stop (ck_closures st)) n)
     = row_code sf h rows (stop = StopCancelled) whole"
proof -
  define s where "s = summarizeWalk (ck_pages st) ex stop (ck_closures st)"
  note f = summary_checked[OF assms(1) s_def]
  have "fst (log_verdict s n) = su_exitCode s" using f(1,2,9) by (intro fst_log_verdict) simp
  also have "\<dots> = row_code sf h rows (stop = StopCancelled) whole"
    unfolding f(9) exit_code_def row_code_def using exact_intact[OF assms(2)] assms(3,4) by auto
  finally show ?thesis unfolding s_def .
qed

text \<open>Verdicts on the same rows that stopped for the same reason agree, but for the order of the breaks.\<close>

lemma log_verdict_agree:
  assumes "checked sf h st rows" "exact_breaks sf h st rows" "checked sf h st' rows" "exact_breaks sf h st' rows"
    and s: "s = summarizeWalk (ck_pages st) ex stop (ck_closures st)" "s' = summarizeWalk (ck_pages st') ex stop (ck_closures st')"
  shows "intact sf h (rev rows) \<Longrightarrow> log_verdict s n = log_verdict s' n"
proof -
  assume i: "intact sf h (rev rows)"
  note f = summary_checked[OF assms(1) s(1)] and f' = summary_checked[OF assms(3) s(2)]
  have "all_breaks st = []" "all_breaks st' = []" using exact_intact[OF assms(2)] exact_intact[OF assms(4)] i by blast+
  then have "su_breaks s = su_breaks s'" "su_exitCode s = su_exitCode s'" by (simp_all only: f(1,9) f'(1,9))
  then have "s = s'" using f(2-8) f'(2-8) by (intro walk_summary.equality) simp_all
  then show ?thesis by simp
qed

text \<open>The closure finding, read off the rows.\<close>

lemma conflict_iff:
  "conflictedOnes (checkDecisionClosure es [] True) \<noteq> [] \<longleftrightarrow>
     (\<exists>older e newer. es = older @ e # newer \<and> owesCloser e
        \<and> length (filter (\<lambda>r. decisionEntryId r = Some (entryId e)) (upto_same (entryId e) newer)) \<ge> 2)"
  unfolding conflicted_Nil closing_rows_def[symmetric] using twice_closed_iff[of _ es] by (metis list.set_intros(1) neq_Nil_conv empty_iff empty_set)

text \<open>The complete walks: every row of the client was served.\<close>

definition complete_walk :: "'e audit_client \<Rightarrow> nat \<Rightarrow> bool" where
  "complete_walk client n \<longleftrightarrow> ended client n \<or> n < AUDIT_MAX_PAGES \<and> answer_at client n = Inr ([], None)"

lemma final_complete:
  assumes "walk_final client opts st" "n = wk_pagesFetched st"
  shows "wk_stopReason st = StopCancelled \<longleftrightarrow> wo_aborted opts n \<and> \<not> ended client n"
    "wk_stopReason st = StopCancelled \<or> wk_cursorExhausted st = complete_walk client n"
    "wk_stopReason st \<noteq> StopPartialFile"
    "wk_cursorExhausted st \<Longrightarrow> wk_stopReason st = StopExhausted"
  using assms
  by (cases "wk_stopReason st"; auto simp: walk_final_def Let_def complete_walk_def page_at_def)+

section \<open>Properties\<close>

text \<open>C36: The walk always ends: whatever the engine answers, also when its cursor never closes, \<open>walkAuditChain\<close> returns
  after at most \<open>AUDIT_MAX_PAGES\<close> pages, having seen exactly the rows the engine served up to there; it never makes a
  request beyond that number, so what the engine would answer there does not matter.\<close>

theorem walk_terminates:
  "(\<exists>r. walkAuditChain sf h client opts w = Some r
      \<and> (case r of Inl e \<Rightarrow> (\<exists>n < AUDIT_MAX_PAGES. answer_at client n = Inl e) \<or> (\<exists>page w. wo_onPage opts page w = Inl e)
         | Inr st \<Rightarrow> wk_pagesFetched st \<le> AUDIT_MAX_PAGES
             \<and> wk_entriesSeen st = length (served client (wk_pagesFetched st))))
   \<and> walkAuditChain sf h (\<lambda>n. if n < AUDIT_MAX_PAGES then client n else other n) opts w = walkAuditChain sf h client opts w"
proof
  obtain r where "walkAuditChain sf h client opts w = Some r" "walk_result_ok sf h client opts w r"
    using walkAuditChain_spec[of sf h client opts w] by blast
  then show "\<exists>r. walkAuditChain sf h client opts w = Some r
      \<and> (case r of Inl e \<Rightarrow> (\<exists>n < AUDIT_MAX_PAGES. answer_at client n = Inl e) \<or> (\<exists>page w. wo_onPage opts page w = Inl e)
         | Inr st \<Rightarrow> wk_pagesFetched st \<le> AUDIT_MAX_PAGES
             \<and> wk_entriesSeen st = length (served client (wk_pagesFetched st)))"
    by (cases r) (auto simp: walk_result_ok_def walk_inv_def Let_def)
next
  show "walkAuditChain sf h (\<lambda>n. if n < AUDIT_MAX_PAGES then client n else other n) opts w = walkAuditChain sf h client opts w"
    unfolding walkAuditChain_def by (rule walk_loop_requests) simp
qed

lemma runLogVerify_state:
  "\<exists>r. runLogVerify sf h client aborted = Some r
     \<and> (case r of
          Inl e \<Rightarrow> \<exists>n < AUDIT_MAX_PAGES. walk_reaches client (verify_options aborted) n \<and> \<not> ended client n \<and> \<not> aborted n
            \<and> answer_at client n = Inl e
        | Inr v \<Rightarrow> \<exists>st. walk_inv sf h client (verify_options aborted) () st
            \<and> walk_final client (verify_options aborted) st
            \<and> v = log_verdict (walk_summary_of st) (wk_entriesSeen st))"
proof -
  let ?o = "verify_options aborted :: ('a, unit) walk_options"
  obtain r where r: "walkAuditChain sf h client ?o () = Some r" "walk_result_ok sf h client ?o () r"
    using walkAuditChain_spec[of sf h client ?o "()"] by blast
  then show ?thesis by (cases r) (auto simp: runLogVerify_def walk_result_ok_def verify_options_def)
qed

text \<open>Where the walk of \<open>log verify\<close> stops: it reads page after page while it is not cancelled, the cursor is open and
  the pages descend, and stops before page \<open>n\<close>.\<close>

definition stops_at :: "'e audit_client \<Rightarrow> (nat \<Rightarrow> bool) \<Rightarrow> nat \<Rightarrow> bool" where
  "stops_at client aborted n \<longleftrightarrow>
     n \<le> AUDIT_MAX_PAGES \<and> walk_reaches client (verify_options aborted) n
     \<and> (ended client n \<or> aborted n \<or> n = AUDIT_MAX_PAGES \<or> (\<exists>nx. answer_at client n = Inr ([], nx))
        \<or> (page_at client n \<noteq> [] \<and> served client n \<noteq> []
           \<and> \<not> sortsStrictlyBelow (hd (page_at client n)) (last (served client n))))"

lemma final_stops_at:
  assumes "walk_inv sf h client (verify_options aborted) w st" "walk_final client (verify_options aborted) st"
  shows "stops_at client aborted (wk_pagesFetched st)"
  using assms walk_inv_reaches[OF assms(1)]
  by (cases "wk_stopReason st") (auto simp: stops_at_def walk_final_def Let_def verify_options_def)


text \<open>The hand-written ladder of the force exit agrees with the summary: at any end of a verifying walk the flags raised
  so far give the code a cancel would have given.\<close>

theorem force_exit_agrees:
  assumes "walkAuditChain sf h client opts w = Some (Inr st)" "wo_verify opts"
  shows "force_exit st = su_exitCode (summarizeWalk (ck_pages st) ex StopCancelled (ck_closures st))"
proof -
  have c: "checked sf h st (served client (wk_pagesFetched st))"
    using walkAuditChain_spec[of sf h client opts w] assms by (auto simp: walk_result_ok_def walk_inv_def Let_def)
  show ?thesis
    unfolding summary_checked(9)[OF c refl] using c by (simp add: checked_def force_exit_def exit_code_def)
qed

lemma fst_verdict_summary:
  "fst (log_verdict (summarizeWalk pages ex stop closures) n)
     = exit_code (concat (map breaks (rev pages))) (concat (map conflictedOnes (rev closures))) stop ex (head_unchecked pages)"
  by (subst fst_log_verdict) (simp_all add: summarizeWalk_def Let_def)

lemma exit_code_0:
  "exit_code brks confl stop ex hd_open = 0 \<longleftrightarrow>
     brks = [] \<and> confl = [] \<and> stop \<noteq> StopCancelled \<and> stop \<noteq> StopPartialFile \<and> ex \<and> \<not> hd_open"
  by (auto simp: exit_code_def exit_codes)

text \<open>Where another walk with the same signal returns, the verification returns a verdict.\<close>

lemma runLogVerify_returns:
  assumes "walk_final client opts st" "walk_inv sf' h' client opts w st"
    and "wo_aborted (verify_options aborted :: ('e, unit) walk_options) = wo_aborted opts"
  shows "\<exists>v st'. runLogVerify sf h (client :: 'e audit_client) aborted = Some (Inr v)
     \<and> v = log_verdict (walk_summary_of st') (wk_entriesSeen st')
     \<and> walk_inv sf h client (verify_options aborted) () st' \<and> walk_final client (verify_options aborted) st'"
proof -
  obtain r where r: "runLogVerify sf h client aborted = Some r" and c: "case r of
      Inl e \<Rightarrow> \<exists>n < AUDIT_MAX_PAGES. walk_reaches client (verify_options aborted) n \<and> \<not> ended client n \<and> \<not> aborted n
        \<and> answer_at client n = Inl e
    | Inr v \<Rightarrow> \<exists>st. walk_inv sf h client (verify_options aborted) () st
        \<and> walk_final client (verify_options aborted) st \<and> v = log_verdict (walk_summary_of st) (wk_entriesSeen st)"
    using runLogVerify_state[of sf h client aborted] by blast
  show ?thesis
  proof (cases r)
    case (Inl e)
    then obtain n where "n < AUDIT_MAX_PAGES" "walk_reaches client (verify_options aborted) n" "\<not> ended client n"
      "\<not> wo_aborted (verify_options aborted :: ('e, unit) walk_options) n" "answer_at client n = Inl e"
      using c by (auto simp: verify_options_def)
    then show ?thesis using final_no_error[OF assms] by blast
  next
    case (Inr v)
    then show ?thesis using r c by auto
  qed
qed

lemma dumped_text:
  "foldl (\<lambda>r i. try_bind r (wo_onPage (dump_options sf aborted (\<lambda>t s. Inr (s @ t))) (page_at client i))) (Inr w) [0..<n]
     = Inr (w @ as_lines (map (dumpEntryLine sf) (served client n)))"
  by (induction n) (simp_all add: served_def try_bind_def dump_options_def as_lines_def)


text \<open>C38: A dump is as good as the engine. When \<open>log dump\<close> reports 0, the file holds the manifest and then every row the
  engine served, one line each, newest first. If \<open>JSON.parse\<close> gives these lines back and the rows descend, as the route
  promises, then \<open>log verify --file\<close> on the file and \<open>log verify\<close> on the engine return the same code, and the same
  report unless the chain is broken, although the one checks batches of 200 lines and the other the pages of the engine.\<close>

theorem dump_verifies_as_wire:
  assumes "runLogDump sf h client (\<lambda>_. False) (\<lambda>t s. Inr (s @ t)) [] = Some (Inr (0, file))"
  shows "\<exists>n. file = as_lines (dump_lines sf (served client n)) \<and> complete_walk client n
     \<and> (\<forall>i < n. \<not> ended client i)
     \<and> (parse (dumpManifestLine sf) = Some manifest_json
        \<and> (\<forall>e \<in> set (served client n). readable sf parse e)
        \<and> sorted_wrt (\<lambda>a b. sortsStrictlyBelow b a) (served client n)
        \<longrightarrow> (\<exists>v v'. runLogVerifyFile sf h parse (\<lambda>_. False) (dump_lines sf (served client n)) = Inr v
              \<and> runLogVerify sf h client (\<lambda>_. False) = Some (Inr v')
              \<and> fst v = fst v' \<and> (fst v \<noteq> 3 \<longrightarrow> v = v')))"
proof -
  let ?put = "\<lambda>t s. Inr (s @ t) :: 'a + jsstr" and ?no = "\<lambda>_. False" and ?m = "as_lines [dumpManifestLine sf]"
  let ?d = "dump_options sf ?no ?put" and ?v = "verify_options ?no :: ('a, unit) walk_options"
  obtain r where w: "walkAuditChain sf h client ?d ?m = Some r" "walk_result_ok sf h client ?d ?m r"
    using walkAuditChain_spec[of sf h client ?d ?m] by blast
  obtain st where st: "r = Inr st" and fl: "file = wk_sink st"
    and code: "su_exitCode (summarizeWalk [] (wk_cursorExhausted st) (wk_stopReason st) []) = 0"
    using assms w(1) by (cases r) (auto simp: runLogDump_def exit_codes split: if_splits)
  have i: "walk_inv sf h client ?d ?m st" and f: "walk_final client ?d st"
    using w(2) st by (auto simp: walk_result_ok_def)
  let ?n = "wk_pagesFetched st" and ?rows = "served client (wk_pagesFetched st)"
  have tx: "file = as_lines (dump_lines sf ?rows)"
    using i unfolding walk_inv_def Let_def dumped_text fl by (simp add: as_lines_def dump_lines_def)
  have ex: "wk_cursorExhausted st" using code by (auto simp: summarizeWalk_def Let_def exit_code_0)
  have com: "complete_walk client ?n" using final_complete(2,4)[OF f refl] ex by auto
  have "\<exists>v v'. runLogVerifyFile sf h parse ?no (dump_lines sf ?rows) = Inr v \<and> runLogVerify sf h client ?no = Some (Inr v')
      \<and> fst v = fst v' \<and> (fst v \<noteq> 3 \<longrightarrow> v = v')"
    if m: "parse (dumpManifestLine sf) = Some manifest_json" and r: "\<forall>e \<in> set ?rows. readable sf parse e"
      and o: "sorted_wrt (\<lambda>a b. sortsStrictlyBelow b a) ?rows"
  proof -
    obtain ds where ds: "verifyDumpLines sf h parse ?no (dump_lines sf ?rows) = Inr ds" "dump_inv sf h ds ?rows"
      "ds_batch ds = []" "ds_stopReason ds = StopExhausted"
      using verify_dump_lines[OF m r] by blast
    have dc: "checked sf h ds ?rows" "exact_breaks sf h ds ?rows" "ds_entriesSeen ds = length ?rows"
      using ds(2,3) o by (auto simp: dump_inv_def)
    have a: "wo_aborted ?v = wo_aborted ?d" by (simp add: verify_options_def dump_options_def)
    obtain v' wst where v': "runLogVerify sf h client ?no = Some (Inr v')" "v' = log_verdict (walk_summary_of wst) (wk_entriesSeen wst)"
      "walk_inv sf h client ?v () wst" "walk_final client ?v wst"
      using runLogVerify_returns[OF f i a] by blast
    have n: "wk_pagesFetched wst = ?n" using walk_final_unique[OF i f v'(3,4) a] by simp
    have wc: "checked sf h wst ?rows" "exact_breaks sf h wst ?rows" "wk_entriesSeen wst = length ?rows"
      using v'(3) n by (auto simp: walk_inv_def Let_def verify_options_def)
    have "wk_stopReason wst \<noteq> StopCancelled"
      using final_complete(1)[OF v'(4) refl] by (simp add: verify_options_def)
    then have e: "wk_cursorExhausted wst" "wk_stopReason wst = StopExhausted"
      using final_complete(2,4)[OF v'(4) refl] com n by auto
    let ?vd = "log_verdict (dump_summary_of ds) (ds_entriesSeen ds)"
    have "fst ?vd = row_code sf h ?rows False True" "fst v' = row_code sf h ?rows False True"
      unfolding v'(2) dump_summary_of_def walk_summary_of_def
      using log_verdict_code[OF dc(1,2), of StopExhausted True True] log_verdict_code[OF wc(1,2), of StopExhausted True True]
        ds(4) e by auto
    moreover have "?vd = v'" if "intact sf h (rev ?rows)"
      unfolding v'(2) using log_verdict_agree[OF dc(1,2) wc(1,2) refl refl that, of True StopExhausted "length ?rows"] dc(3) wc(3)
        ds(4) e by (simp add: dump_summary_of_def walk_summary_of_def)
    moreover have "runLogVerifyFile sf h parse ?no (dump_lines sf ?rows) = Inr ?vd"
      using ds(1) by (simp add: runLogVerifyFile_def try_bind_def)
    ultimately show ?thesis using v'(1) by (auto simp: row_code_def exit_codes split: if_splits)
  qed
  moreover have "\<forall>i < ?n. \<not> ended client i" using walk_inv_reaches[OF i] by (simp add: walk_reaches_def)
  ultimately show ?thesis using tx com by blast
qed

section \<open>Witnesses\<close>

text \<open>An engine with one row, and a parser that knows the two lines of its dump.\<close>

definition ex_client :: "jsstr audit_client" where
  "ex_client n limit cursor = Inr ([ex_row], None)"

definition ex_parse :: "jsstr \<Rightarrow> json option" where
  "ex_parse line = (if line ! 2 = 104 then Some manifest_json else Some (JObj (entry_members ex_row)))"

abbreviation ex_show :: "rat \<Rightarrow> jsstr" where "ex_show \<equiv> \<lambda>_. []"

abbreviation ex_sha :: "bytes \<Rightarrow> jsstr" where "ex_sha \<equiv> \<lambda>bs. map of_nat bs"

lemma ex_row_fields: "sequenceNum ex_row = 0" "epochPrevHash ex_row = None" "latencyMs ex_row = JInt 1"
  by (simp_all add: ex_row_def new_row_def link_to_prior_def conditioned_row_def order_desc_def first_row_def Let_def ex_params_def)

lemma ex_parse_lines: "ex_parse (dumpManifestLine ex_show) = Some manifest_json" "readable ex_show ex_parse ex_row"
proof -
  have "dumpManifestLine ex_show ! 2 = 104" by code_simp
  then show "ex_parse (dumpManifestLine ex_show) = Some manifest_json" by (simp add: ex_parse_def)
  have q: "json_quote (js ''epochId'') = [34, 101, 112, 111, 99, 104, 73, 100, 34]" by code_simp
  have "dumpEntryLine ex_show ex_row ! 2 = 101" by (simp add: dumpEntryLine_def entry_members_def q)
  then show "readable ex_show ex_parse ex_row"
    by (simp add: readable_def ex_parse_def ex_row_fields integral_def)
qed

lemma ex_row_intact: "intact ex_show ex_sha [ex_row]"
  using reachable_log_inv[OF ex_row_reachable] by (simp add: log_inv_def)

lemma ex_served: "ended ex_client 1" "served ex_client 1 = [ex_row]"
  by (simp_all add: ended_def served_def page_at_def answer_at_def ex_client_def)

lemma ex_file_code:
  "\<exists>report. runLogVerifyFile ex_show ex_sha ex_parse (\<lambda>_. False) (dump_lines ex_show [ex_row]) = Inr (0, report)"
proof -
  let ?ls = "dump_lines ex_show [ex_row]"
  obtain st where st: "verifyDumpLines ex_show ex_sha ex_parse (\<lambda>_. False) ?ls = Inr st" "dump_inv ex_show ex_sha st [ex_row]"
    "ds_batch st = []" "ds_stopReason st = StopExhausted"
    using verify_dump_lines[of ex_parse ex_show "[ex_row]" ex_sha] ex_parse_lines by auto
  have c: "checked ex_show ex_sha st [ex_row]" "exact_breaks ex_show ex_sha st [ex_row]" using st(2,3) by (auto simp: dump_inv_def)
  have "conflictedOnes (checkDecisionClosure (rev [ex_row]) [] True) = []"
    using closed_findings[of "[ex_row]" _ "[]", OF _ refl] by (simp add: checkDecisionClosure_def Let_def closers_above_def)
  then have "row_code ex_show ex_sha [ex_row] False True = 0"
    using ex_row_intact ex_row_fields by (simp add: row_code_def genesis_shaped_def)
  then have "fst (log_verdict (dump_summary_of st) (ds_entriesSeen st)) = 0"
    using log_verdict_code[OF c, of StopExhausted True True "ds_entriesSeen st"] st(4) by (simp add: dump_summary_of_def)
  then show ?thesis
    using st(1) by (cases "log_verdict (dump_summary_of st) (ds_entriesSeen st)") (auto simp: runLogVerifyFile_def try_bind_def)
qed


theorem dump_verifies_as_wire_witness:
  "\<exists>v. runLogDump ex_show ex_sha ex_client (\<lambda>_. False) (\<lambda>t s. Inr (s @ t)) []
         = Some (Inr (0, as_lines (dump_lines ex_show [ex_row])))
     \<and> runLogVerifyFile ex_show ex_sha ex_parse (\<lambda>_. False) (dump_lines ex_show [ex_row]) = Inr v
     \<and> runLogVerify ex_show ex_sha ex_client (\<lambda>_. False) = Some (Inr v)"
proof -
  have d: "runLogDump ex_show ex_sha ex_client (\<lambda>_. False) (\<lambda>t s. Inr (s @ t)) []
      = Some (Inr (0, as_lines (dump_lines ex_show [ex_row])))"
    unfolding runLogDump_def walkAuditChain_def
    by (subst walk_loop_unfold) (simp add: ex_client_def dump_options_def init_walk_def check_state.defs walk_state.defs stalls_def
        AUDIT_MAX_PAGES_def Let_def take_page_fields summarizeWalk_def exit_code_def head_unchecked_def as_lines_def dump_lines_def
        take_page_def count_page_def)
  obtain n where n: "complete_walk ex_client n" "\<forall>i < n. \<not> ended ex_client i"
    and v: "ex_parse (dumpManifestLine ex_show) = Some manifest_json \<and> (\<forall>e \<in> set (served ex_client n). readable ex_show ex_parse e)
        \<and> sorted_wrt (\<lambda>a b. sortsStrictlyBelow b a) (served ex_client n)
      \<longrightarrow> (\<exists>v v'. runLogVerifyFile ex_show ex_sha ex_parse (\<lambda>_. False) (dump_lines ex_show (served ex_client n)) = Inr v
          \<and> runLogVerify ex_show ex_sha ex_client (\<lambda>_. False) = Some (Inr v') \<and> fst v = fst v' \<and> (fst v \<noteq> 3 \<longrightarrow> v = v'))"
    using dump_verifies_as_wire[OF d, of ex_parse] by blast
  have "n \<le> 1" using n(2) ex_served(1) by (metis not_le)
  moreover have "n \<noteq> 0" using n(1) by (auto simp: complete_walk_def ended_def answer_at_def ex_client_def)
  ultimately have sv: "served ex_client n = [ex_row]" using ex_served(2) by (metis One_nat_def le_SucE le_zero_eq)
  have "\<exists>v v'. runLogVerifyFile ex_show ex_sha ex_parse (\<lambda>_. False) (dump_lines ex_show [ex_row]) = Inr v
      \<and> runLogVerify ex_show ex_sha ex_client (\<lambda>_. False) = Some (Inr v') \<and> fst v = fst v' \<and> (fst v \<noteq> 3 \<longrightarrow> v = v')"
    by (rule v[unfolded sv, THEN mp]) (use ex_parse_lines in simp)
  then obtain v' v'' where w: "runLogVerifyFile ex_show ex_sha ex_parse (\<lambda>_. False) (dump_lines ex_show [ex_row]) = Inr v'"
    "runLogVerify ex_show ex_sha ex_client (\<lambda>_. False) = Some (Inr v'')" "fst v' \<noteq> 3 \<longrightarrow> v' = v''"
    by blast
  moreover have "fst v' = 0" using ex_file_code w(1) by auto
  ultimately show ?thesis using d by auto
qed

end
