(* ===== verification/Budget.thy ===== *)
theory Budget
  imports Resolve
begin

text \<open>
  The model budget of a workflow run (\<open>packages/engine/src/workflows/model-budget.ts\<close>): the byte counter over
  request and response data, the reading of reported usage, and the object that admits, settles and
  seals the calls of one run. The asynchronous parts of \<open>createMessage\<close> are separate steps (admission,
  settlement of the provider, continuation of the caller), which any other call, the timer and
  \<open>cancel\<close> may interleave. The lemmas show that the counter is the length of the UTF-8 encoding of
  \<open>JSON.stringify\<close>, that every interleaving stays within the limits, what seals a budget, and that a
  sealed budget delivers nothing.
\<close>

section \<open>boundedCopy\<close>

text \<open>The calls of \<open>add\<close> in their order, and the places that throw the other error. The copy is the value
  itself: JSON data has no cycles, holes or accessors.\<close>

datatype charge = Add nat | Bad

fun string_charges :: "jsstr \<Rightarrow> charge list" where
  "string_charges [] = []"
| "string_charges (c # s) =
     (let n = unat c in
      if n \<in> {34, 92, 8, 9, 10, 12, 13} then Add 2 # string_charges s
      else if n < 32 then Add 6 # string_charges s
      else if n < 128 then Add 1 # string_charges s
      else if n < 2048 then Add 2 # string_charges s
      else if is_high c \<and> s \<noteq> [] \<and> is_low (hd s) then Add 4 # string_charges (tl s)
      else if is_surrogate c then Add 6 # string_charges s
      else Add 3 # string_charges s)"

definition text_charges :: "jsstr \<Rightarrow> charge list" where
  "text_charges s = Add 2 # string_charges s"

fun separated :: "charge list list \<Rightarrow> charge list" where
  "separated [] = []"
| "separated [x] = x"
| "separated (x # y # xs) = x @ [Add 1] @ separated (y # xs)"

fun visit :: "(rat \<Rightarrow> jsstr) \<Rightarrow> nat \<Rightarrow> json \<Rightarrow> charge list" where
  "visit sf depth JNull = (if depth > 32 then [Bad] else [Add 4])"
| "visit sf depth (JStr s) = (if depth > 32 then [Bad] else text_charges s)"
| "visit sf depth (JBool b) = (if depth > 32 then [Bad] else [Add (if b then 4 else 5)])"
| "visit sf depth (JNum n) =
     (if depth > 32 then [Bad] else if is_finite_num n then [Add (length (num_to_string sf n))] else [Bad])"
| "visit sf depth (JArr xs) =
     (if depth > 32 then [Bad] else Add 2 # separated (map (visit sf (depth + 1)) xs))"
| "visit sf depth (JObj ms) =
     (if depth > 32 then [Bad]
      else Add 2 # separated (map (\<lambda>m. text_charges (fst m) @ [Add 1] @ visit sf (depth + 1) (snd m)) ms))"

datatype copy_error = CopyInvalid | CopyExceeded nat

fun charge_all :: "nat \<Rightarrow> nat \<Rightarrow> charge list \<Rightarrow> copy_error + nat" where
  "charge_all limit bytes [] = Inr bytes"
| "charge_all limit bytes (Add n # cs) =
     (if bytes + n > limit then Inl (CopyExceeded (bytes + n)) else charge_all limit (bytes + n) cs)"
| "charge_all limit bytes (Bad # cs) = Inl CopyInvalid"

definition boundedCopy :: "(rat \<Rightarrow> jsstr) \<Rightarrow> nat \<Rightarrow> json \<Rightarrow> copy_error + nat" where
  "boundedCopy sf limit v = charge_all limit 0 (visit sf 0 v)"

subsection \<open>The counter is exact\<close>

text \<open>Data the counter accepts at a depth: finite numbers, nested at most to depth 32.\<close>

fun countable_data :: "nat \<Rightarrow> json \<Rightarrow> bool" where
  "countable_data d (JNum n) \<longleftrightarrow> d \<le> 32 \<and> is_finite_num n"
| "countable_data d (JArr xs) \<longleftrightarrow> d \<le> 32 \<and> (\<forall>x \<in> set xs. countable_data (d + 1) x)"
| "countable_data d (JObj ms) \<longleftrightarrow> d \<le> 32 \<and> (\<forall>m \<in> set ms. countable_data (d + 1) (snd m))"
| "countable_data d v \<longleftrightarrow> d \<le> 32"

fun charge_sum :: "charge list \<Rightarrow> nat" where
  "charge_sum [] = 0"
| "charge_sum (Add n # cs) = n + charge_sum cs"
| "charge_sum (Bad # cs) = charge_sum cs"

lemma charge_sum_append [simp]: "charge_sum (xs @ ys) = charge_sum xs + charge_sum ys"
  by (induction xs rule: charge_sum.induct) auto

lemma charge_all_iff: "charge_all limit b cs = Inr n \<longleftrightarrow> Bad \<notin> set cs \<and> n = b + charge_sum cs \<and> (n \<le> limit \<or> cs = [])"
  by (induction limit b cs rule: charge_all.induct) auto

lemma Bad_separated: "Bad \<in> set (separated xs) \<longleftrightarrow> (\<exists>x \<in> set xs. Bad \<in> set x)"
  by (induction xs rule: separated.induct) auto

lemma Bad_string: "Bad \<notin> set (string_charges s)"
  by (induction s rule: string_charges.induct) (auto simp: Let_def)

lemma Bad_visit: "Bad \<in> set (visit sf d v) \<longleftrightarrow> \<not> countable_data d v"
  by (induction sf d v rule: visit.induct) (auto simp: Bad_separated Bad_string text_charges_def)


abbreviation size8 :: "jsstr \<Rightarrow> nat" where
  "size8 s \<equiv> length (utf8 s)"

lemma size8_append: "t = [] \<or> \<not> is_low (hd t) \<Longrightarrow> size8 (s @ t) = size8 s + size8 t"
  by (simp add: utf8_append)

lemma size8_ascii: "ascii s \<Longrightarrow> size8 s = length s"
  by (simp add: utf8_ascii ascii_def)

lemma size8_Cons: "\<not> is_surrogate c \<Longrightarrow>
  size8 (c # s) = (if unat c < 128 then 1 else if unat c < 2048 then 2 else 3) + size8 s"
  using unat_u16[of c] by (simp add: utf8_def code_points_Cons utf8_cp_def)

lemma size8_pair: "is_high c \<Longrightarrow> is_low d \<Longrightarrow> size8 (c # d # s) = 4 + size8 s"
  by (simp add: utf8_def utf8_cp_def is_high_def is_low_def word_le_nat_alt)

lemma hex_digit_ascii: "n < 16 \<Longrightarrow> unat (hex_digit n) < 128"
  by (auto simp: hex_digit_def unat_of_nat take_bit_nat_eq_self simp del: of_nat_add)

lemma unicode_escape_ascii: "ascii (unicode_escape c)" "length (unicode_escape c) = 6"
  using unat_u16[of c] by (auto simp: ascii_def unicode_escape_def intro!: hex_digit_ascii)


lemma size8_escape_unit:
  assumes "t = [] \<or> \<not> is_low (hd t)"
  shows "size8 (escape_unit c @ t) =
    (if unat c \<in> {34, 92, 8, 9, 10, 12, 13} then 2 else if unat c < 32 then 6 else if unat c < 128 then 1
     else if unat c < 2048 then 2 else if is_surrogate c then 6 else 3) + size8 t"
proof -
  have esc: "size8 (unicode_escape c @ t) = 6 + size8 t"
    using assms unicode_escape_ascii[of c] by (simp add: size8_append size8_ascii)
  have two: "size8 ([92, d] @ t) = 2 + size8 t" if "unat d < 128" for d
    using assms that by (subst size8_append) (auto simp: size8_ascii ascii_def)
  have plain: "\<not> is_surrogate c \<Longrightarrow> size8 ([c] @ t) = (if unat c < 128 then 1 else if unat c < 2048 then 2 else 3) + size8 t"
    by (simp add: size8_Cons)
  have sur: "is_surrogate c \<Longrightarrow> \<not> unat c < 2048" by (auto simp: is_surrogate_def is_high_def is_low_def word_le_nat_alt)
  have eqs: "c = 34 \<longleftrightarrow> unat c = 34" "c = 92 \<longleftrightarrow> unat c = 92" "c = 8 \<longleftrightarrow> unat c = 8" "c = 9 \<longleftrightarrow> unat c = 9"
    "c = 10 \<longleftrightarrow> unat c = 10" "c = 12 \<longleftrightarrow> unat c = 12" "c = 13 \<longleftrightarrow> unat c = 13"
    by (simp_all add: word_unat_eq_iff)
  show ?thesis
    using esc two[of 34] two[of 92] two[of 98] two[of 116] two[of 110] two[of 102] two[of 114] plain sur
    unfolding escape_unit_def eqs by auto
qed

lemma hd_escape_units: "escape_units s = [] \<or> \<not> is_low (hd (escape_units s))"
  by (induction s rule: escape_units.induct)
    (auto simp: escape_unit_def unicode_escape_def is_surrogate_def is_high_def is_low_def word_le_nat_alt)

lemma string_charges_pair:
  assumes "is_high c" "is_low d"
  shows "string_charges (c # d # s) = Add 4 # string_charges s"
  using assms by (auto simp: is_high_def word_le_nat_alt)

lemma string_charges_single:
  assumes "\<not> (is_high c \<and> s \<noteq> [] \<and> is_low (hd s))"
  shows "string_charges (c # s) =
    Add (if unat c \<in> {34, 92, 8, 9, 10, 12, 13} then 2 else if unat c < 32 then 6 else if unat c < 128 then 1
     else if unat c < 2048 then 2 else if is_surrogate c then 6 else 3) # string_charges s"
  using assms by (auto simp: Let_def)

lemma size8_escape_units:
  "t = [] \<or> \<not> is_low (hd t) \<Longrightarrow> size8 (escape_units s @ t) = charge_sum (string_charges s) + size8 t"
proof (induction s rule: escape_units.induct)
  case (2 c)
  then show ?case using string_charges_single[of c "[]"] size8_escape_unit[of t c] by simp
next
  case (3 c d s)
  show ?case
  proof (cases "is_high c \<and> is_low d")
    case True
    then have "escape_units (c # d # s) @ t = c # d # (escape_units s @ t)" by simp
    moreover have "size8 (c # d # (escape_units s @ t)) = 4 + size8 (escape_units s @ t)"
      using True by (simp only: size8_pair)
    moreover have "string_charges (c # d # s) = Add 4 # string_charges s"
      using True string_charges_pair by blast
    ultimately show ?thesis using 3(1)[OF True 3(3)] by (simp only: charge_sum.simps)
  next
    case False
    have e: "escape_units (c # d # s) @ t = escape_unit c @ (escape_units (d # s) @ t)"
      using False by auto
    have h: "escape_units (d # s) @ t = [] \<or> \<not> is_low (hd (escape_units (d # s) @ t))"
      using hd_escape_units[of "d # s"] 3(3) by (cases "escape_units (d # s)") auto
    have "string_charges (c # d # s) = Add (if unat c \<in> {34, 92, 8, 9, 10, 12, 13} then 2 else if unat c < 32 then 6
       else if unat c < 128 then 1 else if unat c < 2048 then 2 else if is_surrogate c then 6 else 3) # string_charges (d # s)"
      using string_charges_single[of c "d # s"] False by simp
    then show ?thesis
      using 3(2)[OF False 3(3)] size8_escape_unit[OF h, of c] unfolding e by (simp only: charge_sum.simps)
  qed
qed simp


lemma size8_json_quote:
  assumes "t = [] \<or> \<not> is_low (hd t)"
  shows "size8 (json_quote s @ t) = charge_sum (text_charges s) + size8 t"
proof -
  have l: "\<not> is_low 34" "\<not> is_surrogate 34" by (simp_all add: is_surrogate_def is_low_def is_high_def)
  have "size8 (34 # (escape_units s @ (34 # t))) = 2 + charge_sum (string_charges s) + size8 t"
    using size8_escape_units[of "34 # t" s] l by (simp add: size8_Cons)
  then show ?thesis by (simp add: json_quote_def text_charges_def)
qed

text \<open>What follows a value in the text is a comma, a closing bracket or nothing.\<close>

definition tail_ok :: "jsstr \<Rightarrow> bool" where
  "tail_ok t \<longleftrightarrow> t = [] \<or> \<not> is_low (hd t)"

lemma punctuation: "\<not> is_surrogate 44" "\<not> is_surrogate 58" "\<not> is_surrogate 91" "\<not> is_surrogate 93" "\<not> is_surrogate 123"
  "\<not> is_surrogate 125" "\<not> is_low 44" "\<not> is_low 58" "\<not> is_low 93" "\<not> is_low 125"
  by (simp_all add: is_surrogate_def is_low_def is_high_def)

lemma size8_commas:
  assumes "\<And>x t. x \<in> set xs \<Longrightarrow> tail_ok t \<Longrightarrow> size8 (f x @ t) = charge_sum (g x) + size8 t" "tail_ok t"
  shows "size8 (commas (map f xs) @ t) = charge_sum (separated (map g xs)) + size8 t"
  using assms
proof (induction "map f xs" arbitrary: xs rule: commas.induct)
  case (3 a b zs)
  then obtain x y ys where xs: "xs = x # y # ys" by (cases xs rule: remdups_adj.cases) auto
  have tl: "tail_ok (44 # commas (map f (y # ys)) @ t)" by (simp add: tail_ok_def punctuation)
  have "size8 (f x @ (44 # commas (map f (y # ys)) @ t)) = charge_sum (g x) + size8 (44 # commas (map f (y # ys)) @ t)"
    using 3(3)[of x, OF _ tl] xs by simp
  moreover have "size8 (commas (map f (y # ys)) @ t) = charge_sum (separated (map g (y # ys))) + size8 t"
    by (rule 3(1)) (use 3(2-4) xs in auto)
  ultimately show ?case by (simp add: xs size8_Cons punctuation)
qed auto

lemma ascii_num_to_string:
  assumes "\<And>q. ascii (sf q)"
  shows "ascii (num_to_string sf n)"
proof -
  have d: "ascii (js_of_nat m)" for m
    using digits_js_of_nat by (fastforce simp: ascii_def is_digit_def word_le_nat_alt)
  have "ascii (js ''-'' @ js_of_nat m)" for m using d[of m] by (auto simp: ascii_def js_def)
  then show ?thesis
    using assms d by (auto simp: num_to_string_def split: jsnum.split) (simp_all add: ascii_def js_def)
qed

lemma size8_word: "tail_ok t \<Longrightarrow> ascii s \<Longrightarrow> size8 (s @ t) = length s + size8 t"
  by (simp add: size8_append tail_ok_def size8_ascii)

lemma ascii_words: "ascii (js ''null'')" "ascii (js ''true'')" "ascii (js ''false'')"
  by (simp_all add: ascii_def js_def)

lemma size8_visit:
  "\<forall>q. ascii (sf q) \<Longrightarrow> countable_data d v \<Longrightarrow> tail_ok t \<Longrightarrow> size8 (stringify sf v @ t) = charge_sum (visit sf d v) + size8 t"
proof (induction sf d v arbitrary: t rule: visit.induct)
  case (4 sf d n)
  then show ?case by (simp add: size8_word ascii_num_to_string)
next
  case (5 sf d xs)
  have "size8 (commas (map (stringify sf) xs) @ (93 # t)) = charge_sum (separated (map (visit sf (d + 1)) xs)) + size8 (93 # t)"
    by (rule size8_commas) (use 5 in \<open>auto simp: tail_ok_def punctuation\<close>)
  then show ?case using 5(3) by (simp add: size8_Cons punctuation)
next
  case (6 sf d ms)
  have "size8 (commas (map (\<lambda>m. json_quote (fst m) @ [58] @ stringify sf (snd m)) ms) @ (125 # t))
      = charge_sum (separated (map (\<lambda>m. text_charges (fst m) @ [Add 1] @ visit sf (d + 1) (snd m)) ms)) + size8 (125 # t)"
  proof (rule size8_commas)
    fix m u assume m: "m \<in> set ms" "tail_ok u"
    have "size8 (stringify sf (snd m) @ u) = charge_sum (visit sf (d + 1) (snd m)) + size8 u"
      using 6 m by auto
    then show "size8 ((json_quote (fst m) @ [58] @ stringify sf (snd m)) @ u)
        = charge_sum (text_charges (fst m) @ [Add 1] @ visit sf (d + 1) (snd m)) + size8 u"
      using size8_json_quote[of "58 # stringify sf (snd m) @ u" "fst m"] by (simp add: size8_Cons punctuation)
  qed (simp add: tail_ok_def punctuation)
  then show ?case using 6(3) by (simp add: size8_Cons punctuation)
next
  case (1 sf d)
  then show ?case using size8_word[OF _ ascii_words(1)] by (simp add: js_def)
next
  case (2 sf d s)
  then show ?case by (simp add: size8_json_quote tail_ok_def)
next
  case (3 sf d b)
  then show ?case using size8_word[OF _ ascii_words(2)] size8_word[OF _ ascii_words(3)] by (simp add: js_def)
qed


section \<open>Reported usage\<close>

fun safe_nat :: "json \<Rightarrow> nat option" where
  "safe_nat (JNum (Fin q)) = (if is_safe_integer (Fin q) \<and> 0 \<le> q then Some (nat \<lfloor>q\<rfloor>) else None)"
| "safe_nat _ = None"

definition validToken :: "json option \<Rightarrow> nat option" where
  "validToken v = (case v of None \<Rightarrow> None | Some w \<Rightarrow> safe_nat w)"

record attempt_usage =
  mu_inputTokens :: "nat option"
  mu_outputTokens :: "nat option"
  mu_uncached :: "nat option"
  mu_cacheRead :: "nat option"
  mu_cacheCreation :: "nat option"

definition empty_usage :: attempt_usage where
  "empty_usage = \<lparr>mu_inputTokens = None, mu_outputTokens = None, mu_uncached = None, mu_cacheRead = None, mu_cacheCreation = None\<rparr>"

definition cache_tokens :: "json \<Rightarrow> jsstr \<Rightarrow> nat option" where
  "cache_tokens usage k = (case jget usage k of None \<Rightarrow> Some 0 | Some v \<Rightarrow> safe_nat v)"

definition readUsage :: "json option \<Rightarrow> attempt_usage" where
  "readUsage response =
     (case response of None \<Rightarrow> empty_usage
      | Some r \<Rightarrow> (case jget r (js ''usage'') of
          Some (JObj ms) \<Rightarrow>
            (let u = JObj ms in
             if jget u (js ''reported'') \<notin> {None, Some (JBool True)} then empty_usage
             else
               (let inp = validToken (jget u (js ''input_tokens'')); out = validToken (jget u (js ''output_tokens''));
                    rd = cache_tokens u (js ''cache_read_input_tokens''); cw = cache_tokens u (js ''cache_creation_input_tokens'')
                in \<lparr>mu_inputTokens = (case (inp, rd, cw) of (Some a, Some b, Some c) \<Rightarrow> Some (a + b + c) | _ \<Rightarrow> None),
                    mu_outputTokens = out, mu_uncached = inp, mu_cacheRead = rd, mu_cacheCreation = cw\<rparr>))
        | _ \<Rightarrow> empty_usage))"

text \<open>A count goes out as a number, or as decimal text above the safe range.\<close>

datatype token_count = CountNum nat | CountText jsstr

definition tokenCount :: "nat \<Rightarrow> token_count" where
  "tokenCount n = (if int n \<le> max_safe then CountNum n else CountText (js_of_nat n))"

section \<open>Shapes\<close>

fun is_str :: "json option \<Rightarrow> bool" where
  "is_str (Some (JStr _)) = True"
| "is_str _ = False"

fun is_rec :: "json option \<Rightarrow> bool" where
  "is_rec (Some (JObj _)) = True"
| "is_rec _ = False"

definition validBlock :: "json \<Rightarrow> bool" where
  "validBlock b =
     (case b of JObj _ \<Rightarrow>
        (let ty = jget b (js ''type'') in
         if ty = Some (JStr (js ''text'')) then is_str (jget b (js ''text''))
         else if ty = Some (JStr (js ''tool_use''))
           then is_str (jget b (js ''id'')) \<and> is_str (jget b (js ''name'')) \<and> is_rec (jget b (js ''input''))
         else if ty = Some (JStr (js ''tool_result''))
           then is_str (jget b (js ''tool_use_id'')) \<and> is_str (jget b (js ''content''))
             \<and> (case jget b (js ''is_error'') of None \<Rightarrow> True | Some (JBool _) \<Rightarrow> True | _ \<Rightarrow> False)
         else False)
      | _ \<Rightarrow> False)"

fun validContent :: "json option \<Rightarrow> bool" where
  "validContent (Some (JArr bs)) = list_all validBlock bs"
| "validContent _ = False"

definition validMessage :: "json \<Rightarrow> bool" where
  "validMessage m =
     (case m of JObj _ \<Rightarrow>
        jget m (js ''role'') \<in> {Some (JStr (js ''user'')), Some (JStr (js ''assistant''))}
        \<and> (is_str (jget m (js ''content'')) \<or> validContent (jget m (js ''content'')))
      | _ \<Rightarrow> False)"

definition validTool :: "json \<Rightarrow> bool" where
  "validTool t =
     (case t of JObj _ \<Rightarrow> is_str (jget t (js ''name'')) \<and> is_str (jget t (js ''description'')) \<and> is_rec (jget t (js ''input_schema''))
      | _ \<Rightarrow> False)"

definition validRequest :: "json \<Rightarrow> bool" where
  "validRequest r \<longleftrightarrow>
     (jget r (js ''system'') = None \<or> is_str (jget r (js ''system'')))
     \<and> (case jget r (js ''messages'') of Some (JArr ms) \<Rightarrow> list_all validMessage ms | _ \<Rightarrow> False)
     \<and> (case jget r (js ''tools'') of None \<Rightarrow> True | Some (JArr ts) \<Rightarrow> list_all validTool ts | _ \<Rightarrow> False)"

definition validResponse :: "json \<Rightarrow> bool" where
  "validResponse r =
     (case r of JObj _ \<Rightarrow> is_str (jget r (js ''id'')) \<and> validContent (jget r (js ''content''))
        \<and> (case jget r (js ''stop_reason'') of
             Some JNull \<Rightarrow> True
           | Some (JStr s) \<Rightarrow> s \<in> {js ''end_turn'', js ''tool_use'', js ''max_tokens'', js ''stop_sequence''}
           | _ \<Rightarrow> False)
      | _ \<Rightarrow> False)"

section \<open>Limits\<close>

record budget_limits =
  maxAttempts :: nat
  maxConcurrent :: nat
  maxInputBytesPerCall :: nat
  maxTotalInputBytes :: nat
  maxObservedInputTokens :: nat
  maxObservedOutputTokens :: nat
  maxOutputTokensPerCall :: nat
  maxResponseBytesPerCall :: nat
  wallTimeMs :: nat

definition MODEL_BUDGET_DEFAULTS :: budget_limits where
  "MODEL_BUDGET_DEFAULTS = \<lparr>maxAttempts = 10, maxConcurrent = 2, maxInputBytesPerCall = 512 * 1024,
     maxTotalInputBytes = 2 * 1024 * 1024, maxObservedInputTokens = 120000, maxObservedOutputTokens = 12000,
     maxOutputTokensPerCall = 4096, maxResponseBytesPerCall = 256 * 1024, wallTimeMs = 300000\<rparr>"

definition MAX_RESPONSE_BYTES :: nat where
  "MAX_RESPONSE_BYTES = 1024 * 1024"

definition MODEL_BUDGET_HARD_CEILINGS :: budget_limits where
  "MODEL_BUDGET_HARD_CEILINGS = \<lparr>maxAttempts = 64, maxConcurrent = 8, maxInputBytesPerCall = 1024 * 1024,
     maxTotalInputBytes = 8 * 1024 * 1024, maxObservedInputTokens = 1000000, maxObservedOutputTokens = 64000,
     maxOutputTokensPerCall = 16384, maxResponseBytesPerCall = MAX_RESPONSE_BYTES, wallTimeMs = 900000\<rparr>"

datatype budget_code = INVALID_LIMITS | INVALID_MODEL | MODEL_MISMATCH | INVALID_REQUEST | ATTEMPT_LIMIT
  | CONCURRENCY_LIMIT | REQUEST_BYTES_LIMIT | INPUT_TOKEN_LIMIT | OUTPUT_TOKEN_LIMIT | RESPONSE_BYTES_LIMIT
  | INVALID_RESPONSE | UNKNOWN_USAGE | PROVIDER_ERROR | CANCELLED | DEADLINE | DISPOSED

text \<open>\<open>{ ...MODEL_BUDGET_DEFAULTS, ...overrides }\<close> with the check of each field; no other key is allowed.\<close>

definition limit_keys :: "jsstr list" where
  "limit_keys = map js [''maxAttempts'', ''maxConcurrent'', ''maxInputBytesPerCall'', ''maxTotalInputBytes'',
     ''maxObservedInputTokens'', ''maxObservedOutputTokens'', ''maxOutputTokensPerCall'', ''maxResponseBytesPerCall'',
     ''wallTimeMs'']"

definition limit_of :: "(jsstr \<times> json) list \<Rightarrow> string \<Rightarrow> nat \<Rightarrow> nat \<Rightarrow> nat option" where
  "limit_of overrides k dflt top_value =
     (case map_of overrides (js k) of
        None \<Rightarrow> if 0 < dflt \<and> dflt \<le> top_value then Some dflt else None
      | Some v \<Rightarrow> (case safe_nat v of
          Some n \<Rightarrow> if 0 < n \<and> n \<le> top_value then Some n else None
        | None \<Rightarrow> None))"

definition budget_limits_of :: "(jsstr \<times> json) list \<Rightarrow> budget_limits option" where
  "budget_limits_of overrides =
     (let d = MODEL_BUDGET_DEFAULTS; c = MODEL_BUDGET_HARD_CEILINGS;
          lim = (\<lambda>k f. limit_of overrides k (f d) (f c))
      in if \<exists>k \<in> fst ` set overrides. k \<notin> set limit_keys then None
         else (case (lim ''maxAttempts'' maxAttempts, lim ''maxConcurrent'' maxConcurrent,
                 lim ''maxInputBytesPerCall'' maxInputBytesPerCall, lim ''maxTotalInputBytes'' maxTotalInputBytes,
                 lim ''maxObservedInputTokens'' maxObservedInputTokens, lim ''maxObservedOutputTokens'' maxObservedOutputTokens,
                 lim ''maxOutputTokensPerCall'' maxOutputTokensPerCall, lim ''maxResponseBytesPerCall'' maxResponseBytesPerCall,
                 lim ''wallTimeMs'' wallTimeMs) of
             (Some a, Some b, Some e, Some f, Some g, Some h, Some i, Some j, Some k) \<Rightarrow>
               Some \<lparr>maxAttempts = a, maxConcurrent = b, maxInputBytesPerCall = e, maxTotalInputBytes = f,
                 maxObservedInputTokens = g, maxObservedOutputTokens = h, maxOutputTokensPerCall = i,
                 maxResponseBytesPerCall = j, wallTimeMs = k\<rparr>
           | _ \<Rightarrow> None))"

section \<open>State\<close>

datatype call_role = RootCall | ChildCall
datatype provider_settlement = ProviderPending | ProviderFulfilled | ProviderRejected
datatype usage_status = UsagePending | UsageReported | UsageUnknown
datatype call_outcome = CallPending | CallSucceeded | CallRejected

record budget_attempt =
  at_id :: nat
  at_role :: call_role
  at_requestInputBytes :: nat
  at_requestedOutputTokens :: nat
  at_responseBytes :: "nat option"
  at_responseBytesComplete :: bool
  at_startedAfterMs :: nat
  at_settledAfterMs :: "nat option"
  at_providerSettlement :: provider_settlement
  at_usageStatus :: usage_status
  at_outcome :: call_outcome
  at_reason :: "budget_code option"
  at_late :: bool
  at_usage :: attempt_usage

text \<open>\<open>mb_native\<close> is \<open>None\<close> without an observer, otherwise whether its scope is sealed.\<close>

record model_budget =
  mb_limits :: budget_limits
  mb_model :: jsstr
  mb_startedAt :: int
  mb_closed :: "budget_code option"
  mb_ledger :: "budget_attempt list"
  mb_active :: nat
  mb_peak :: nat
  mb_requestBytes :: nat
  mb_requestedOutput :: nat
  mb_reservedOutput :: nat
  mb_observedInput :: nat
  mb_observedOutput :: nat
  mb_native :: "bool option"

definition elapsed :: "int \<Rightarrow> model_budget \<Rightarrow> nat" where
  "elapsed clk b = nat (max 0 (min max_safe (clk - mb_startedAt b)))"

text \<open>The abort listener of one call, and \<open>close\<close>, which runs the listeners of all calls that still wait.\<close>

definition abortRun :: "budget_code \<Rightarrow> budget_attempt \<Rightarrow> budget_attempt" where
  "abortRun code e =
     (let e1 = (if at_outcome e = CallPending then e\<lparr>at_outcome := CallRejected, at_reason := Some code\<rparr> else e)
      in if at_providerSettlement e1 = ProviderPending then e1\<lparr>at_usageStatus := UsageUnknown\<rparr> else e1)"

definition close :: "budget_code \<Rightarrow> model_budget \<Rightarrow> model_budget" where
  "close code b =
     (if mb_closed b \<noteq> None then b
      else b\<lparr>mb_closed := Some code, mb_ledger := map (abortRun code) (mb_ledger b),
             mb_native := map_option (\<lambda>_. True) (mb_native b)\<rparr>)"

text \<open>\<open>checkOpen\<close>: the code it throws, with the state it leaves.\<close>

definition checkOpen :: "int \<Rightarrow> model_budget \<Rightarrow> budget_code option \<times> model_budget" where
  "checkOpen clk b =
     (let b' = (if mb_closed b = None \<and> elapsed clk b \<ge> wallTimeMs (mb_limits b) then close DEADLINE b else b)
      in (mb_closed b', b'))"

text \<open>The constructor.\<close>

definition new_budget :: "jsstr \<Rightarrow> (jsstr \<times> json) list \<Rightarrow> bool \<Rightarrow> bool \<Rightarrow> int \<Rightarrow> budget_code + model_budget" where
  "new_budget model overrides aborted native clk =
     (case budget_limits_of overrides of None \<Rightarrow> Inl INVALID_LIMITS
      | Some lims \<Rightarrow>
        if length model > 256 \<or> js_trim model = [] then Inl INVALID_MODEL
        else
          (let b = \<lparr>mb_limits = lims, mb_model = model, mb_startedAt = clk, mb_closed = None, mb_ledger = [], mb_active = 0,
             mb_peak = 0, mb_requestBytes = 0, mb_requestedOutput = 0, mb_reservedOutput = 0, mb_observedInput = 0,
             mb_observedOutput = 0, mb_native = (if native then Some False else None)\<rparr>
           in Inr (if aborted then close CANCELLED b else b)))"

definition cancel_budget :: "model_budget \<Rightarrow> model_budget" where
  "cancel_budget = close CANCELLED"

definition dispose_budget :: "model_budget \<Rightarrow> model_budget" where
  "dispose_budget = close DISPOSED"

definition sealNativeOperations :: "model_budget \<Rightarrow> budget_code + model_budget" where
  "sealNativeOperations b = (case mb_native b of None \<Rightarrow> Inl INVALID_REQUEST | Some _ \<Rightarrow> Inr (b\<lparr>mb_native := Some True\<rparr>))"

section \<open>Admission\<close>

text \<open>The synchronous part of \<open>createMessage\<close>, up to the call of the provider: the id of the new entry and
  the request that is sent, or the error. The signal, the retry flag and the response cap that go
  with the request are not data of the budget. \<open>clk0\<close>, \<open>clk1\<close> and \<open>clk\<close> are the clock at the first check, at the
  check after the copy, and when the entry is made.\<close>

record create_params =
  cp_model :: jsstr
  cp_max_tokens :: json
  cp_messages :: json
  cp_system :: "json option"
  cp_tools :: "json option"
  cp_aborted :: bool

definition request_json :: "jsstr \<Rightarrow> nat \<Rightarrow> create_params \<Rightarrow> json" where
  "request_json model maxTokens p =
     JObj ([(js ''model'', JStr model), (js ''max_tokens'', JNum (JInt (int maxTokens))), (js ''messages'', cp_messages p)]
       @ (case cp_system p of None \<Rightarrow> [] | Some v \<Rightarrow> [(js ''system'', v)])
       @ (case cp_tools p of None \<Rightarrow> [] | Some v \<Rightarrow> [(js ''tools'', v)]))"

definition reserve :: "int \<Rightarrow> call_role \<Rightarrow> nat \<Rightarrow> nat \<Rightarrow> model_budget \<Rightarrow> model_budget" where
  "reserve clk role bytes maxTokens b =
     b\<lparr>mb_ledger := mb_ledger b @ [\<lparr>at_id = length (mb_ledger b) + 1, at_role = role, at_requestInputBytes = bytes,
         at_requestedOutputTokens = maxTokens, at_responseBytes = None, at_responseBytesComplete = False,
         at_startedAfterMs = elapsed clk b, at_settledAfterMs = None, at_providerSettlement = ProviderPending,
         at_usageStatus = UsagePending, at_outcome = CallPending, at_reason = None, at_late = False,
         at_usage = readUsage None\<rparr>],
       mb_active := mb_active b + 1, mb_peak := max (mb_peak b) (mb_active b + 1),
       mb_requestBytes := mb_requestBytes b + bytes, mb_requestedOutput := mb_requestedOutput b + maxTokens,
       mb_reservedOutput := mb_reservedOutput b + maxTokens\<rparr>"

definition available_output :: "model_budget \<Rightarrow> int" where
  "available_output b =
     int (maxObservedOutputTokens (mb_limits b)) - int (mb_reservedOutput b) - int (mb_observedOutput b)"

definition admission_refusal :: "create_params \<Rightarrow> model_budget \<Rightarrow> budget_code option" where
  "admission_refusal p b =
     (let l = mb_limits b in
      if cp_model p \<noteq> mb_model b then Some MODEL_MISMATCH
      else if (case safe_nat (cp_max_tokens p) of None \<Rightarrow> True | Some n \<Rightarrow> n = 0) then Some INVALID_REQUEST
      else if length (mb_ledger b) \<ge> maxAttempts l then Some ATTEMPT_LIMIT
      else if mb_active b \<ge> maxConcurrent l then Some CONCURRENCY_LIMIT
      else if mb_observedInput b \<ge> maxObservedInputTokens l then Some INPUT_TOKEN_LIMIT
      else if available_output b \<le> 0 then Some OUTPUT_TOKEN_LIMIT
      else None)"

definition admit_request ::
  "(rat \<Rightarrow> jsstr) \<Rightarrow> int \<Rightarrow> int \<Rightarrow> call_role \<Rightarrow> create_params \<Rightarrow> model_budget \<Rightarrow> (budget_code + nat \<times> json) \<times> model_budget" where
  "admit_request sf clk1 clk role p b =
     (case admission_refusal p b of Some code \<Rightarrow> (Inl code, b)
      | None \<Rightarrow>
        (let l = mb_limits b;
             maxTokens = min (the (safe_nat (cp_max_tokens p))) (min (maxOutputTokensPerCall l) (nat (available_output b)));
             request = request_json (mb_model b) maxTokens p
         in case boundedCopy sf (min (maxInputBytesPerCall l) (maxTotalInputBytes l - mb_requestBytes b)) request of
              Inl CopyInvalid \<Rightarrow> (Inl INVALID_REQUEST, b)
            | Inl (CopyExceeded _) \<Rightarrow> (Inl REQUEST_BYTES_LIMIT, b)
            | Inr bytes \<Rightarrow>
                if \<not> validRequest request then (Inl INVALID_REQUEST, b)
                else (case checkOpen clk1 b of
                    (Some code, b') \<Rightarrow> (Inl code, b')
                  | (None, b') \<Rightarrow> (Inr (length (mb_ledger b') + 1, request), reserve clk role bytes maxTokens b'))))"

definition admit ::
  "(rat \<Rightarrow> jsstr) \<Rightarrow> int \<Rightarrow> int \<Rightarrow> int \<Rightarrow> call_role \<Rightarrow> create_params \<Rightarrow> model_budget \<Rightarrow> (budget_code + nat \<times> json) \<times> model_budget" where
  "admit sf clk0 clk1 clk role p b =
     (case checkOpen clk0 b of
        (Some code, b') \<Rightarrow> (Inl code, b')
      | (None, b') \<Rightarrow>
          if mb_native b' = Some True then (Inl DISPOSED, b')
          else if cp_aborted p then (Inl CANCELLED, close CANCELLED b')
          else admit_request sf clk1 clk role p b')"

section \<open>Settlement\<close>

definition entry_at :: "nat \<Rightarrow> model_budget \<Rightarrow> budget_attempt" where
  "entry_at i b = mb_ledger b ! (i - 1)"

definition set_entry :: "nat \<Rightarrow> (budget_attempt \<Rightarrow> budget_attempt) \<Rightarrow> model_budget \<Rightarrow> model_budget" where
  "set_entry i f b = b\<lparr>mb_ledger := (mb_ledger b)[i - 1 := f (entry_at i b)]\<rparr>"

text \<open>The method \<open>reject\<close>: the state and the code of the error it returns.\<close>

definition reject :: "nat \<Rightarrow> budget_code \<Rightarrow> model_budget \<Rightarrow> budget_code \<times> model_budget" where
  "reject i code b =
     (let b' = close code (set_entry i (\<lambda>e. if at_outcome e = CallPending
                 then e\<lparr>at_outcome := CallRejected, at_reason := Some code\<rparr> else e) b)
      in (case at_reason (entry_at i b') of Some r \<Rightarrow> r | None \<Rightarrow> code, b'))"

definition tokens0 :: "nat option \<Rightarrow> nat" where
  "tokens0 n = (case n of None \<Rightarrow> 0 | Some k \<Rightarrow> k)"

definition usage_input :: "attempt_usage \<Rightarrow> nat" where
  "usage_input u = tokens0 (mu_uncached u) + tokens0 (mu_cacheRead u) + tokens0 (mu_cacheCreation u)"

definition usage_output :: "attempt_usage \<Rightarrow> nat" where
  "usage_output u = tokens0 (mu_outputTokens u)"

text \<open>The first half of \<open>receive\<close>: the entry and the counters take the usage over.\<close>

definition book :: "int \<Rightarrow> nat \<Rightarrow> json \<Rightarrow> model_budget \<Rightarrow> model_budget" where
  "book clk i raw b =
     (let u = readUsage (Some raw); e = entry_at i b;
          ok = mu_inputTokens u \<noteq> None \<and> mu_outputTokens u \<noteq> None
      in (set_entry i (\<lambda>e. e\<lparr>at_providerSettlement := ProviderFulfilled, at_settledAfterMs := Some (elapsed clk b),
            at_late := at_outcome e = CallRejected, at_usage := u,
            at_usageStatus := (if ok then UsageReported else UsageUnknown)\<rparr>) b)
         \<lparr>mb_active := mb_active b - 1, mb_observedInput := mb_observedInput b + usage_input u,
          mb_observedOutput := mb_observedOutput b + usage_output u,
          mb_reservedOutput := (if ok then mb_reservedOutput b - at_requestedOutputTokens e else mb_reservedOutput b)\<rparr>)"

definition receipt_refusal :: "nat \<Rightarrow> model_budget \<Rightarrow> budget_code option" where
  "receipt_refusal i b =
     (let l = mb_limits b; e = entry_at i b in
      case mb_closed b of Some code \<Rightarrow> Some code
      | None \<Rightarrow>
        if at_usageStatus e = UsageUnknown then Some UNKNOWN_USAGE
        else if mb_observedInput b > maxObservedInputTokens l then Some INPUT_TOKEN_LIMIT
        else if mb_observedOutput b > maxObservedOutputTokens l \<or> usage_output (at_usage e) > at_requestedOutputTokens e
          then Some OUTPUT_TOKEN_LIMIT
        else None)"

text \<open>\<open>receive\<close>, with the clock when the entry settles and at the check after the copy.\<close>

definition receive :: "(rat \<Rightarrow> jsstr) \<Rightarrow> int \<Rightarrow> int \<Rightarrow> nat \<Rightarrow> json \<Rightarrow> model_budget \<Rightarrow> (budget_code + json) \<times> model_budget" where
  "receive sf clk clk1 i raw b0 =
     (let b = book clk i raw b0; throw_code = (\<lambda>code b. case reject i code b of (r, b') \<Rightarrow> (Inl r, b')) in
      case receipt_refusal i b of Some code \<Rightarrow> throw_code code b
      | None \<Rightarrow>
        (case boundedCopy sf (maxResponseBytesPerCall (mb_limits b)) raw of
           Inl CopyInvalid \<Rightarrow> throw_code INVALID_RESPONSE b
         | Inl (CopyExceeded n) \<Rightarrow> throw_code RESPONSE_BYTES_LIMIT (set_entry i (\<lambda>e. e\<lparr>at_responseBytes := Some n\<rparr>) b)
         | Inr bytes \<Rightarrow>
             (let b1 = set_entry i (\<lambda>e. e\<lparr>at_responseBytes := Some bytes, at_responseBytesComplete := True\<rparr>) b in
              if \<not> validResponse raw then throw_code INVALID_RESPONSE b1
              else (case checkOpen clk1 b1 of
                  (Some code, b2) \<Rightarrow> throw_code code b2
                | (None, b2) \<Rightarrow> (Inr raw, b2)))))"

text \<open>The rejection handler of the provider's promise.\<close>

definition provider_failed :: "int \<Rightarrow> nat \<Rightarrow> model_budget \<Rightarrow> budget_code \<times> model_budget" where
  "provider_failed clk i b =
     reject i PROVIDER_ERROR
       ((set_entry i (\<lambda>e. e\<lparr>at_providerSettlement := ProviderRejected, at_settledAfterMs := Some (elapsed clk b),
           at_usageStatus := UsageUnknown, at_late := at_outcome e = CallRejected\<rparr>) b)
        \<lparr>mb_active := mb_active b - 1\<rparr>)"

text \<open>The continuation of the caller after the race: a call settled by \<open>receive\<close> is handed over only while
  the budget is open.\<close>

definition hand_over :: "int \<Rightarrow> nat \<Rightarrow> model_budget \<Rightarrow> (budget_code + unit) \<times> model_budget" where
  "hand_over clk i b =
     (case checkOpen clk b of
        (Some code, b') \<Rightarrow> (Inl code, b')
      | (None, b') \<Rightarrow> (Inr (), set_entry i (\<lambda>e. e\<lparr>at_outcome := CallSucceeded\<rparr>) b'))"

section \<open>snapshot\<close>

datatype snapshot_status = UsageComplete | UsageStillPending | UsageNotKnown

record budget_snapshot =
  bs_model :: jsstr
  bs_limits :: budget_limits
  bs_closedReason :: "budget_code option"
  bs_elapsedMs :: nat
  bs_attempts :: nat
  bs_activeCalls :: nat
  bs_peakConcurrent :: nat
  bs_totalRequestInputBytes :: nat
  bs_totalRequestedOutputTokens :: nat
  bs_reservedOutputTokens :: nat
  bs_observedInputTokens :: token_count
  bs_observedOutputTokens :: token_count
  bs_usageStatus :: snapshot_status
  bs_unknownUsageAttempts :: nat
  bs_ledger :: "budget_attempt list"

definition budget_snapshot_of :: "int \<Rightarrow> model_budget \<Rightarrow> budget_snapshot" where
  "budget_snapshot_of clk b =
     (let unknown = length (filter (\<lambda>e. at_usageStatus e = UsageUnknown) (mb_ledger b)) in
      \<lparr>bs_model = mb_model b, bs_limits = mb_limits b, bs_closedReason = mb_closed b, bs_elapsedMs = elapsed clk b,
       bs_attempts = length (mb_ledger b), bs_activeCalls = mb_active b, bs_peakConcurrent = mb_peak b,
       bs_totalRequestInputBytes = mb_requestBytes b, bs_totalRequestedOutputTokens = mb_requestedOutput b,
       bs_reservedOutputTokens = mb_reservedOutput b, bs_observedInputTokens = tokenCount (mb_observedInput b),
       bs_observedOutputTokens = tokenCount (mb_observedOutput b),
       bs_usageStatus = (if unknown > 0 then UsageNotKnown else if mb_active b > 0 then UsageStillPending else UsageComplete),
       bs_unknownUsageAttempts = unknown, bs_ledger = mb_ledger b\<rparr>)"

section \<open>Steps\<close>

definition in_flight :: "nat \<Rightarrow> model_budget \<Rightarrow> bool" where
  "in_flight i b \<longleftrightarrow> 0 < i \<and> i \<le> length (mb_ledger b) \<and> at_providerSettlement (entry_at i b) = ProviderPending"

definition answered_call :: "nat \<Rightarrow> model_budget \<Rightarrow> bool" where
  "answered_call i b \<longleftrightarrow> 0 < i \<and> i \<le> length (mb_ledger b) \<and> at_providerSettlement (entry_at i b) = ProviderFulfilled
     \<and> at_outcome (entry_at i b) = CallPending"

text \<open>Whatever the callers, the provider, the timer and the owner do, in any order.\<close>

inductive budget_step :: "(rat \<Rightarrow> jsstr) \<Rightarrow> model_budget \<Rightarrow> model_budget \<Rightarrow> bool" for sf where
  admitting: "budget_step sf b (snd (admit sf clk0 clk1 clk role p b))"
| receiving: "in_flight i b \<Longrightarrow> budget_step sf b (snd (receive sf clk clk1 i raw b))"
| failing: "in_flight i b \<Longrightarrow> budget_step sf b (snd (provider_failed clk i b))"
| handing: "answered_call i b \<Longrightarrow> budget_step sf b (snd (hand_over clk i b))"
| closing: "code \<in> {CANCELLED, DEADLINE, DISPOSED} \<Longrightarrow> budget_step sf b (close code b)"
| sealing: "sealNativeOperations b = Inr b' \<Longrightarrow> budget_step sf b b'"

inductive budget_reachable :: "(rat \<Rightarrow> jsstr) \<Rightarrow> model_budget \<Rightarrow> bool" for sf where
  fresh: "new_budget model overrides aborted native clk = Inr b \<Longrightarrow> budget_reachable sf b"
| step: "budget_reachable sf b \<Longrightarrow> budget_step sf b b' \<Longrightarrow> budget_reachable sf b'"

section \<open>The invariant\<close>

definition ledger_sum :: "(budget_attempt \<Rightarrow> nat) \<Rightarrow> model_budget \<Rightarrow> nat" where
  "ledger_sum f b = sum_list (map f (mb_ledger b))"

definition waiting_call :: "budget_attempt \<Rightarrow> nat" where
  "waiting_call e = (if at_providerSettlement e = ProviderPending then 1 else 0)"

definition reserved_by :: "budget_attempt \<Rightarrow> nat" where
  "reserved_by e = (if at_usageStatus e = UsageReported then 0 else at_requestedOutputTokens e)"

definition known_usage :: "attempt_usage \<Rightarrow> bool" where
  "known_usage u \<longleftrightarrow> mu_inputTokens u = Some (usage_input u) \<and> mu_outputTokens u = Some (usage_output u)"

fun status_ok :: "provider_settlement \<Rightarrow> usage_status \<Rightarrow> call_outcome \<Rightarrow> attempt_usage \<Rightarrow> bool" where
  "status_ok ProviderPending u out usage \<longleftrightarrow> u \<noteq> UsageReported \<and> out \<noteq> CallSucceeded \<and> usage = empty_usage"
| "status_ok ProviderFulfilled UsageReported out usage \<longleftrightarrow> known_usage usage"
| "status_ok ProviderFulfilled UsageUnknown out usage \<longleftrightarrow> out \<noteq> CallSucceeded"
| "status_ok ProviderFulfilled UsagePending out usage \<longleftrightarrow> False"
| "status_ok ProviderRejected u out usage \<longleftrightarrow> u = UsageUnknown \<and> out \<noteq> CallSucceeded"

definition entry_ok :: "budget_limits \<Rightarrow> budget_attempt \<Rightarrow> bool" where
  "entry_ok l e \<longleftrightarrow> at_requestInputBytes e \<le> maxInputBytesPerCall l \<and> at_requestedOutputTokens e \<le> maxOutputTokensPerCall l
     \<and> status_ok (at_providerSettlement e) (at_usageStatus e) (at_outcome e) (at_usage e)"

text \<open>What holds at every point, also inside a step: the counters are sums over the ledger.\<close>

definition books :: "model_budget \<Rightarrow> bool" where
  "books b \<longleftrightarrow> mb_active b = ledger_sum waiting_call b
     \<and> mb_requestBytes b = ledger_sum at_requestInputBytes b
     \<and> mb_requestedOutput b = ledger_sum at_requestedOutputTokens b
     \<and> mb_reservedOutput b = ledger_sum reserved_by b
     \<and> mb_observedInput b = ledger_sum (\<lambda>e. usage_input (at_usage e)) b
     \<and> mb_observedOutput b = ledger_sum (\<lambda>e. usage_output (at_usage e)) b
     \<and> (\<forall>e \<in> set (mb_ledger b). entry_ok (mb_limits b) e)"

definition within_caps :: "model_budget \<Rightarrow> bool" where
  "within_caps b \<longleftrightarrow> length (mb_ledger b) \<le> maxAttempts (mb_limits b) \<and> mb_active b \<le> mb_peak b
     \<and> mb_peak b \<le> maxConcurrent (mb_limits b) \<and> mb_requestBytes b \<le> maxTotalInputBytes (mb_limits b)"

text \<open>What holds between steps.\<close>

definition open_ok :: "model_budget \<Rightarrow> bool" where
  "open_ok b \<longleftrightarrow> mb_observedInput b \<le> maxObservedInputTokens (mb_limits b)
     \<and> mb_observedOutput b + mb_reservedOutput b \<le> maxObservedOutputTokens (mb_limits b)
     \<and> (\<forall>e \<in> set (mb_ledger b). at_outcome e \<noteq> CallRejected \<and> at_usageStatus e \<noteq> UsageUnknown)"

definition sealed_ok :: "model_budget \<Rightarrow> bool" where
  "sealed_ok b \<longleftrightarrow> (\<forall>e \<in> set (mb_ledger b). at_outcome e \<noteq> CallPending)"

definition budget_inv :: "model_budget \<Rightarrow> bool" where
  "budget_inv b \<longleftrightarrow> books b \<and> within_caps b \<and> (if mb_closed b = None then open_ok b else sealed_ok b)"

subsection \<open>Ledgers\<close>

lemma sum_list_update_nat:
  fixes f :: "'a \<Rightarrow> nat"
  shows "k < length xs \<Longrightarrow> sum_list (map f (xs[k := y])) + f (xs ! k) = sum_list (map f xs) + f y"
  by (induction xs arbitrary: k) (auto split: nat.split)

lemma ledger_sum_set_entry:
  assumes "0 < i" "i \<le> length (mb_ledger b)"
  shows "ledger_sum f (set_entry i g b) + f (entry_at i b) = ledger_sum f b + f (g (entry_at i b))"
  using assms sum_list_update_nat[of "i - 1" "mb_ledger b" f] by (simp add: ledger_sum_def set_entry_def entry_at_def)

lemma ledger_sum_le: "e \<in> set (mb_ledger b) \<Longrightarrow> f e \<le> ledger_sum f b"
  by (auto simp: ledger_sum_def intro: member_le_sum_list)

lemma set_entry_fields [simp]:
  "mb_limits (set_entry i g b) = mb_limits b" "mb_closed (set_entry i g b) = mb_closed b"
  "mb_active (set_entry i g b) = mb_active b" "mb_peak (set_entry i g b) = mb_peak b"
  "mb_requestBytes (set_entry i g b) = mb_requestBytes b" "mb_requestedOutput (set_entry i g b) = mb_requestedOutput b"
  "mb_reservedOutput (set_entry i g b) = mb_reservedOutput b" "mb_observedInput (set_entry i g b) = mb_observedInput b"
  "mb_observedOutput (set_entry i g b) = mb_observedOutput b" "length (mb_ledger (set_entry i g b)) = length (mb_ledger b)"
  "mb_native (set_entry i g b) = mb_native b"
  by (simp_all add: set_entry_def)

lemma entry_at_set_entry:
  "0 < i \<Longrightarrow> i \<le> length (mb_ledger b) \<Longrightarrow> entry_at i (set_entry i g b) = g (entry_at i b)"
  by (simp add: entry_at_def set_entry_def)

lemma entry_in_ledger: "0 < i \<Longrightarrow> i \<le> length (mb_ledger b) \<Longrightarrow> entry_at i b \<in> set (mb_ledger b)"
  by (simp add: entry_at_def)

lemma set_set_entry: "e \<in> set (mb_ledger (set_entry i g b)) \<Longrightarrow> e = g (entry_at i b) \<or> e \<in> set (mb_ledger b)"
  using set_update_subset_insert[of "mb_ledger b" "i - 1"] by (auto simp: set_entry_def)

lemma ledger_sum_cong:
  "mb_ledger b = mb_ledger b' \<Longrightarrow> ledger_sum f b = ledger_sum f b'"
  by (simp add: ledger_sum_def)

lemma ledger_sum_map:
  "(\<And>e. e \<in> set (mb_ledger b) \<Longrightarrow> f (h e) = f e) \<Longrightarrow> ledger_sum f (b\<lparr>mb_ledger := map h (mb_ledger b)\<rparr>) = ledger_sum f b"
  by (simp add: ledger_sum_def comp_def cong: map_cong)


subsection \<open>Closing\<close>

lemma abortRun_fields [simp]:
  "at_providerSettlement (abortRun code e) = at_providerSettlement e" "at_usage (abortRun code e) = at_usage e"
  "at_requestInputBytes (abortRun code e) = at_requestInputBytes e"
  "at_requestedOutputTokens (abortRun code e) = at_requestedOutputTokens e"
  "at_outcome (abortRun code e) \<noteq> CallPending" "at_id (abortRun code e) = at_id e"
  by (simp_all add: abortRun_def)

lemma entry_ok_rejected: "entry_ok l e \<Longrightarrow> entry_ok l (e\<lparr>at_outcome := CallRejected, at_reason := r\<rparr>)"
  by (cases "at_providerSettlement e"; cases "at_usageStatus e") (auto simp: entry_ok_def)

lemma entry_ok_abortRun: "entry_ok l e \<Longrightarrow> entry_ok l (abortRun code e)"
  by (cases "at_providerSettlement e"; cases "at_usageStatus e") (auto simp: entry_ok_def abortRun_def)

lemma close_open:
  "mb_closed b = None \<Longrightarrow> close code b = b\<lparr>mb_closed := Some code, mb_ledger := map (abortRun code) (mb_ledger b),
     mb_native := map_option (\<lambda>_. True) (mb_native b)\<rparr>"
  by (simp add: close_def)

lemma close_fields [simp]:
  "mb_limits (close code b) = mb_limits b" "mb_active (close code b) = mb_active b" "mb_peak (close code b) = mb_peak b"
  "mb_requestBytes (close code b) = mb_requestBytes b" "length (mb_ledger (close code b)) = length (mb_ledger b)"
  "mb_closed (close code b) \<noteq> None"
  by (simp_all add: close_def)

lemma books_close:
  assumes "books b"
  shows "books (close code b)"
proof (cases "mb_closed b = None")
  case True
  have e: "entry_ok (mb_limits b) x" if "x \<in> set (mb_ledger b)" for x using assms that by (simp add: books_def)
  have r: "reserved_by (abortRun code x) = reserved_by x" if "x \<in> set (mb_ledger b)" for x
    using e[OF that] by (cases "at_providerSettlement x"; cases "at_usageStatus x") (simp_all add: reserved_by_def abortRun_def entry_ok_def)
  have s: "ledger_sum f (close code b) = ledger_sum f b" if "\<And>x. x \<in> set (mb_ledger b) \<Longrightarrow> f (abortRun code x) = f x" for f
    using ledger_sum_map[of b f "abortRun code"] that by (simp add: close_open[OF True] ledger_sum_def)
  have "ledger_sum waiting_call (close code b) = ledger_sum waiting_call b"
    "ledger_sum at_requestInputBytes (close code b) = ledger_sum at_requestInputBytes b"
    "ledger_sum at_requestedOutputTokens (close code b) = ledger_sum at_requestedOutputTokens b"
    "ledger_sum reserved_by (close code b) = ledger_sum reserved_by b"
    "ledger_sum (\<lambda>e. usage_input (at_usage e)) (close code b) = ledger_sum (\<lambda>e. usage_input (at_usage e)) b"
    "ledger_sum (\<lambda>e. usage_output (at_usage e)) (close code b) = ledger_sum (\<lambda>e. usage_output (at_usage e)) b"
    by (intro s; simp add: waiting_call_def r)+
  moreover have "\<forall>x \<in> set (mb_ledger (close code b)). entry_ok (mb_limits b) x"
    using e entry_ok_abortRun by (auto simp: close_open[OF True])
  ultimately show ?thesis using assms by (simp add: books_def close_open[OF True])
qed (use assms in \<open>simp add: close_def\<close>)

lemma close_inv:
  assumes "books b" "within_caps b" "mb_closed b \<noteq> None \<Longrightarrow> sealed_ok b"
  shows "budget_inv (close code b)"
proof -
  have "sealed_ok (close code b)"
    using assms(3) by (cases "mb_closed b = None") (auto simp: sealed_ok_def close_def)
  moreover have "within_caps (close code b)" using assms(2) by (simp add: within_caps_def)
  ultimately show ?thesis using books_close[OF assms(1)] by (simp add: budget_inv_def)
qed

lemma inv_close: "budget_inv b \<Longrightarrow> budget_inv (close code b)"
  by (rule close_inv) (auto simp: budget_inv_def split: if_splits)

lemma inv_checkOpen: "budget_inv b \<Longrightarrow> checkOpen clk b = (r, b') \<Longrightarrow> budget_inv b' \<and> r = mb_closed b'"
  using inv_close by (auto simp: checkOpen_def Let_def split: if_splits)

lemma checkOpen_None: "checkOpen clk b = (None, b') \<Longrightarrow> b' = b \<and> mb_closed b = None"
  by (auto simp: checkOpen_def Let_def split: if_splits)

text \<open>\<open>reject\<close> leaves a sealed budget: from an open one by closing it, from a sealed one by settling the entry.\<close>

lemma inv_reject:
  assumes "books b" "within_caps b" "mb_closed b \<noteq> None \<Longrightarrow> sealed_ok b" "0 < i" "i \<le> length (mb_ledger b)"
  shows "budget_inv (snd (reject i code b))"
proof -
  let ?g = "\<lambda>e. if at_outcome e = CallPending then e\<lparr>at_outcome := CallRejected, at_reason := Some code\<rparr> else e"
  let ?b = "set_entry i ?g b" and ?e = "entry_at i b"
  have eo: "entry_ok (mb_limits b) ?e" using assms(1) entry_in_ledger[OF assms(4,5)] by (simp add: books_def)
  have same: "ledger_sum f ?b = ledger_sum f b" if "f (?g ?e) = f ?e" for f
    using ledger_sum_set_entry[OF assms(4,5), of f ?g] that by simp
  have "entry_ok (mb_limits b) (?g ?e)" using eo entry_ok_rejected by simp
  then have "\<forall>x \<in> set (mb_ledger ?b). entry_ok (mb_limits b) x"
    using assms(1) by (auto simp: books_def dest!: set_set_entry)
  then have "books ?b"
    using assms(1) unfolding books_def by (simp add: same waiting_call_def reserved_by_def)
  moreover have "within_caps ?b" using assms(2) by (simp add: within_caps_def)
  moreover have "sealed_ok ?b" if "mb_closed ?b \<noteq> None"
    using assms(3) that by (auto simp: sealed_ok_def split: if_splits dest!: set_set_entry)
  ultimately have "budget_inv (close code ?b)" by (rule close_inv)
  then show ?thesis by (simp add: reject_def Let_def)
qed


subsection \<open>Settlement\<close>

lemma empty_usage_tokens [simp]: "usage_input empty_usage = 0" "usage_output empty_usage = 0"
  by (simp_all add: empty_usage_def usage_input_def usage_output_def tokens0_def)

lemma readUsage_known:
  "mu_inputTokens (readUsage r) \<noteq> None \<Longrightarrow> mu_outputTokens (readUsage r) \<noteq> None \<Longrightarrow> known_usage (readUsage r)"
  by (auto simp: readUsage_def known_usage_def empty_usage_def usage_input_def usage_output_def tokens0_def Let_def
      split: option.splits json.splits if_splits)

lemma book_facts:
  fixes clk :: int and raw :: json
  assumes f: "in_flight i b" and bk: "books b"
  defines "c \<equiv> book clk i raw b" and "u \<equiv> readUsage (Some raw)"
  shows "books c" "entry_at i c = (entry_at i b)\<lparr>at_providerSettlement := ProviderFulfilled,
      at_settledAfterMs := Some (elapsed clk b), at_late := at_outcome (entry_at i b) = CallRejected, at_usage := u,
      at_usageStatus := (if mu_inputTokens u \<noteq> None \<and> mu_outputTokens u \<noteq> None then UsageReported else UsageUnknown)\<rparr>"
    and "reserved_by (entry_at i b) = at_requestedOutputTokens (entry_at i b)"
    and "at_requestedOutputTokens (entry_at i b) \<le> mb_reservedOutput b"
proof -
  let ?e = "entry_at i b"
  let ?ok = "mu_inputTokens u \<noteq> None \<and> mu_outputTokens u \<noteq> None"
  let ?g = "\<lambda>e. e\<lparr>at_providerSettlement := ProviderFulfilled, at_settledAfterMs := Some (elapsed clk b),
            at_late := at_outcome e = CallRejected, at_usage := u,
            at_usageStatus := (if ?ok then UsageReported else UsageUnknown)\<rparr>"
  have i: "0 < i" "i \<le> length (mb_ledger b)" "at_providerSettlement ?e = ProviderPending" using f by (simp_all add: in_flight_def)
  have c: "c = (set_entry i ?g b)\<lparr>mb_active := mb_active b - 1, mb_observedInput := mb_observedInput b + usage_input u,
      mb_observedOutput := mb_observedOutput b + usage_output u,
      mb_reservedOutput := (if ?ok then mb_reservedOutput b - at_requestedOutputTokens ?e else mb_reservedOutput b)\<rparr>"
    by (simp add: c_def book_def u_def Let_def)
  have eo: "entry_ok (mb_limits b) ?e" using bk entry_in_ledger[OF i(1,2)] by (simp add: books_def)
  have eu: "at_usageStatus ?e \<noteq> UsageReported" "at_usage ?e = empty_usage" "at_outcome ?e \<noteq> CallSucceeded"
    using eo i(3) by (simp_all add: entry_ok_def)
  show r: "reserved_by ?e = at_requestedOutputTokens ?e" using eu(1) by (simp add: reserved_by_def)
  show rl: "at_requestedOutputTokens ?e \<le> mb_reservedOutput b"
    using ledger_sum_le[OF entry_in_ledger[OF i(1,2)], of reserved_by] bk r by (simp add: books_def)
  show "entry_at i c = ?g ?e" using entry_at_set_entry[OF i(1,2)] by (simp add: c entry_at_def)
  have sm: "ledger_sum h c + h ?e = ledger_sum h b + h (?g ?e)" for h
    using ledger_sum_set_entry[OF i(1,2), of h ?g] by (simp add: c ledger_sum_def)
  have "entry_ok (mb_limits b) (?g ?e)"
    using eo eu(3) readUsage_known[of "Some raw"] by (simp add: entry_ok_def u_def)
  then have "\<forall>x \<in> set (mb_ledger c). entry_ok (mb_limits b) x"
    using bk by (auto simp: books_def c dest!: set_set_entry)
  moreover have "ledger_sum waiting_call c = ledger_sum waiting_call b - 1" using sm[of waiting_call] i(3) by (simp add: waiting_call_def)
  moreover have "ledger_sum at_requestInputBytes c = ledger_sum at_requestInputBytes b"
    "ledger_sum at_requestedOutputTokens c = ledger_sum at_requestedOutputTokens b"
    using sm[of at_requestInputBytes] sm[of at_requestedOutputTokens] by simp_all
  moreover have "ledger_sum (\<lambda>e. usage_input (at_usage e)) c = ledger_sum (\<lambda>e. usage_input (at_usage e)) b + usage_input u"
    "ledger_sum (\<lambda>e. usage_output (at_usage e)) c = ledger_sum (\<lambda>e. usage_output (at_usage e)) b + usage_output u"
    using sm[of "\<lambda>e. usage_input (at_usage e)"] sm[of "\<lambda>e. usage_output (at_usage e)"] eu(2) by simp_all
  moreover have "ledger_sum reserved_by c = (if ?ok then ledger_sum reserved_by b - at_requestedOutputTokens ?e else ledger_sum reserved_by b)"
    using sm[of reserved_by] r by (cases ?ok) (auto simp: reserved_by_def)
  ultimately show "books c" using bk unfolding books_def by (simp add: c)
qed


lemma book_fields [simp]:
  "mb_limits (book clk i raw b) = mb_limits b" "mb_closed (book clk i raw b) = mb_closed b"
  "length (mb_ledger (book clk i raw b)) = length (mb_ledger b)" "mb_peak (book clk i raw b) = mb_peak b"
  "mb_requestBytes (book clk i raw b) = mb_requestBytes b" "mb_active (book clk i raw b) = mb_active b - 1"
  by (simp_all add: book_def Let_def)

lemma book_caps: "within_caps b \<Longrightarrow> within_caps (book clk i raw b)"
  by (auto simp: within_caps_def)

lemma book_sealed: "sealed_ok b \<Longrightarrow> 0 < i \<Longrightarrow> i \<le> length (mb_ledger b) \<Longrightarrow> sealed_ok (book clk i raw b)"
  using entry_in_ledger[of i b] by (auto simp: sealed_ok_def book_def Let_def dest!: set_set_entry)

text \<open>A receipt that passes the checks keeps the budget within its token limits.\<close>

lemma book_open:
  assumes "in_flight i b" "budget_inv b" "receipt_refusal i (book clk i raw b) = None"
  shows "budget_inv (book clk i raw b) \<and> mb_closed (book clk i raw b) = None"
proof -
  let ?c = "book clk i raw b" and ?u = "readUsage (Some raw)" and ?e = "entry_at i b"
  have b: "books b" "within_caps b" using assms(2) by (simp_all add: budget_inv_def)
  note f = book_facts(1,2)[OF assms(1) b(1), where clk = clk and raw = raw] book_facts(3,4)[OF assms(1) b(1)]
  have i: "0 < i" "i \<le> length (mb_ledger b)" using assms(1) by (simp_all add: in_flight_def)
  have op: "mb_closed b = None" using assms(3) by (auto simp: receipt_refusal_def Let_def split: option.splits)
  then have o: "open_ok b" using assms(2) by (simp add: budget_inv_def)
  have ok: "mu_inputTokens ?u \<noteq> None \<and> mu_outputTokens ?u \<noteq> None"
    using assms(3) op f(2) by (auto simp: receipt_refusal_def Let_def split: if_splits)
  have lim: "mb_observedInput ?c \<le> maxObservedInputTokens (mb_limits b)" "usage_output ?u \<le> at_requestedOutputTokens ?e"
    using assms(3) op f(2) by (auto simp: receipt_refusal_def Let_def split: if_splits)
  have "mb_observedOutput ?c = mb_observedOutput b + usage_output ?u"
    "mb_reservedOutput ?c = mb_reservedOutput b - at_requestedOutputTokens ?e"
    using ok by (simp_all add: book_def Let_def)
  then have "mb_observedOutput ?c + mb_reservedOutput ?c \<le> maxObservedOutputTokens (mb_limits b)"
    using o f(4) lim(2) unfolding open_ok_def by linarith
  moreover have "at_outcome x \<noteq> CallRejected \<and> at_usageStatus x \<noteq> UsageUnknown" if "x \<in> set (mb_ledger ?c)" for x
  proof -
    have "x = entry_at i ?c \<or> x \<in> set (mb_ledger b)"
      using that set_set_entry entry_at_set_entry[OF i] by (fastforce simp: book_def Let_def entry_at_def)
    then show ?thesis using o ok f(2) entry_in_ledger[OF i] by (auto simp: open_ok_def)
  qed
  ultimately have "open_ok ?c" using lim(1) by (simp add: open_ok_def)
  then show ?thesis using f(1) book_caps[OF b(2)] op by (simp add: budget_inv_def)
qed

lemma inv_set_response:
  assumes "0 < i" "i \<le> length (mb_ledger b)" "budget_inv b"
  shows "budget_inv (set_entry i (\<lambda>e. e\<lparr>at_responseBytes := n, at_responseBytesComplete := k\<rparr>) b)"
proof -
  let ?g = "\<lambda>e. e\<lparr>at_responseBytes := n, at_responseBytesComplete := k\<rparr>"
  have same: "ledger_sum f (set_entry i ?g b) = ledger_sum f b" if "f (?g (entry_at i b)) = f (entry_at i b)" for f
    using ledger_sum_set_entry[OF assms(1,2), of f ?g] that by simp
  have m: "P x" if "x \<in> set (mb_ledger (set_entry i ?g b))" "\<forall>y \<in> set (mb_ledger b). P y" "\<And>y. P (?g y) = P y" for P x
    using set_set_entry[OF that(1)] that(2,3) entry_in_ledger[OF assms(1,2)] by auto
  have "books (set_entry i ?g b)"
    using assms(3) m[of _ "entry_ok (mb_limits b)"]
    by (simp add: budget_inv_def books_def same waiting_call_def reserved_by_def) (simp add: entry_ok_def)
  moreover have "open_ok b \<Longrightarrow> open_ok (set_entry i ?g b)"
    using m[of _ "\<lambda>e. at_outcome e \<noteq> CallRejected \<and> at_usageStatus e \<noteq> UsageUnknown"] by (simp add: open_ok_def)
  moreover have "sealed_ok b \<Longrightarrow> sealed_ok (set_entry i ?g b)"
    using m[of _ "\<lambda>e. at_outcome e \<noteq> CallPending"] by (simp add: sealed_ok_def)
  ultimately show ?thesis using assms(3) by (auto simp: budget_inv_def within_caps_def split: if_splits)
qed


lemma inv_receive:
  assumes "in_flight i b" "budget_inv b"
  shows "budget_inv (snd (receive sf clk clk1 i raw b))"
proof -
  let ?c = "book clk i raw b"
  have i: "0 < i" "i \<le> length (mb_ledger b)" using assms(1) by (simp_all add: in_flight_def)
  have b: "books b" "within_caps b" "mb_closed b \<noteq> None \<Longrightarrow> sealed_ok b"
    using assms(2) by (auto simp: budget_inv_def split: if_splits)
  have rej: "budget_inv (snd (reject i code x))" if "budget_inv x" "length (mb_ledger x) = length (mb_ledger b)" for x code
    using that i by (intro inv_reject) (auto simp: budget_inv_def split: if_splits)
  have rc: "budget_inv (snd (reject i code ?c))" for code
    using i b book_sealed book_facts(1)[OF assms(1) b(1)] by (intro inv_reject book_caps) auto
  show ?thesis
  proof (cases "receipt_refusal i ?c")
    case None
    then have c: "budget_inv ?c" using book_open[OF assms] by blast
    have r: "budget_inv (set_entry i (\<lambda>e. e\<lparr>at_responseBytes := n, at_responseBytesComplete := k\<rparr>) ?c)" for n k
      using inv_set_response[OF _ _ c] i by simp
    have r1: "budget_inv (set_entry i (\<lambda>e. e\<lparr>at_responseBytes := n\<rparr>) ?c)" for n
      using r[where n = n and k = "at_responseBytesComplete (entry_at i ?c)"] by (simp add: set_entry_def)
    show ?thesis
    proof (cases "boundedCopy sf (maxResponseBytesPerCall (mb_limits b)) raw")
      case (Inl err)
      then show ?thesis using None rej[OF c] rej[OF r1]
        by (cases err) (simp_all add: receive_def Let_def case_prod_unfold)
    next
      case (Inr n)
      let ?d = "set_entry i (\<lambda>e. e\<lparr>at_responseBytes := Some n, at_responseBytesComplete := True\<rparr>) ?c"
      obtain x b2 where ch: "checkOpen clk1 ?d = (x, b2)" by fastforce
      have "budget_inv b2" "length (mb_ledger b2) = length (mb_ledger b)"
        using inv_checkOpen[OF r ch] ch by (auto simp: checkOpen_def Let_def)
      then show ?thesis using None Inr rej[OF r] rej ch
        by (cases x) (simp_all add: receive_def Let_def case_prod_unfold)
    qed
  qed (use rc in \<open>auto simp: receive_def Let_def case_prod_unfold\<close>)
qed

lemma inv_provider_failed:
  assumes "in_flight i b" "budget_inv b"
  shows "budget_inv (snd (provider_failed clk i b))"
proof -
  let ?g = "\<lambda>e. e\<lparr>at_providerSettlement := ProviderRejected, at_settledAfterMs := Some (elapsed clk b),
           at_usageStatus := UsageUnknown, at_late := at_outcome e = CallRejected\<rparr>"
  let ?e = "entry_at i b" and ?c = "(set_entry i ?g b)\<lparr>mb_active := mb_active b - 1\<rparr>"
  have i: "0 < i" "i \<le> length (mb_ledger b)" "at_providerSettlement ?e = ProviderPending"
    using assms(1) by (simp_all add: in_flight_def)
  have b: "books b" "within_caps b" using assms(2) by (auto simp: budget_inv_def)
  have eo: "entry_ok (mb_limits b) ?e" using b(1) entry_in_ledger[OF i(1,2)] by (simp add: books_def)
  then have eu: "at_usageStatus ?e \<noteq> UsageReported" "at_outcome ?e \<noteq> CallSucceeded" using i(3) by (simp_all add: entry_ok_def)
  have sm: "ledger_sum h ?c + h ?e = ledger_sum h b + h (?g ?e)" for h
    using ledger_sum_set_entry[OF i(1,2), of h ?g] by (simp add: ledger_sum_def)
  have "entry_ok (mb_limits b) (?g ?e)" using eo eu by (simp add: entry_ok_def)
  then have "\<forall>x \<in> set (mb_ledger ?c). entry_ok (mb_limits b) x"
    using b(1) by (auto simp: books_def dest!: set_set_entry)
  moreover have "ledger_sum waiting_call ?c = ledger_sum waiting_call b - 1" using sm[of waiting_call] i(3) by (simp add: waiting_call_def)
  moreover have "ledger_sum at_requestInputBytes ?c = ledger_sum at_requestInputBytes b"
    "ledger_sum at_requestedOutputTokens ?c = ledger_sum at_requestedOutputTokens b"
    "ledger_sum (\<lambda>e. usage_input (at_usage e)) ?c = ledger_sum (\<lambda>e. usage_input (at_usage e)) b"
    "ledger_sum (\<lambda>e. usage_output (at_usage e)) ?c = ledger_sum (\<lambda>e. usage_output (at_usage e)) b"
    "ledger_sum reserved_by ?c = ledger_sum reserved_by b"
    using sm[of at_requestInputBytes] sm[of at_requestedOutputTokens] sm[of "\<lambda>e. usage_input (at_usage e)"]
      sm[of "\<lambda>e. usage_output (at_usage e)"] sm[of reserved_by] eu(1) by (simp_all add: reserved_by_def)
  ultimately have "books ?c" using b(1) unfolding books_def by simp
  moreover have "within_caps ?c" using b(2) by (auto simp: within_caps_def)
  moreover have "sealed_ok ?c" if "mb_closed ?c \<noteq> None"
    using assms(2) that entry_in_ledger[OF i(1,2)] by (auto simp: budget_inv_def sealed_ok_def split: if_splits dest!: set_set_entry)
  ultimately show ?thesis using i inv_reject[of ?c i PROVIDER_ERROR] by (simp add: provider_failed_def)
qed


subsection \<open>Admission\<close>

lemma inv_reserve:
  assumes "budget_inv b" "mb_closed b = None" "length (mb_ledger b) < maxAttempts (mb_limits b)"
    "mb_active b < maxConcurrent (mb_limits b)" "bytes \<le> maxInputBytesPerCall (mb_limits b)"
    "bytes \<le> maxTotalInputBytes (mb_limits b) - mb_requestBytes b" "n \<le> maxOutputTokensPerCall (mb_limits b)"
    "int n \<le> available_output b"
  shows "budget_inv (reserve clk role bytes n b)"
proof -
  have b: "books b" "within_caps b" "open_ok b" using assms(1,2) by (simp_all add: budget_inv_def)
  have "books (reserve clk role bytes n b)"
    using b(1) assms(5,7)
    by (simp add: books_def reserve_def ledger_sum_def waiting_call_def reserved_by_def entry_ok_def readUsage_def)
  moreover have "within_caps (reserve clk role bytes n b)"
    using b(2) assms(3,4,6) by (auto simp: within_caps_def reserve_def)
  moreover have "open_ok (reserve clk role bytes n b)"
    using b(3) assms(8) by (auto simp: open_ok_def reserve_def available_output_def)
  ultimately show ?thesis using assms(2) by (simp add: budget_inv_def reserve_def)
qed

lemma boundedCopy_le: "boundedCopy sf limit v = Inr n \<Longrightarrow> n \<le> limit"
  by (cases v) (auto simp: boundedCopy_def charge_all_iff text_charges_def split: if_splits)

lemma inv_admit_request:
  assumes "budget_inv b" "mb_closed b = None"
  shows "budget_inv (snd (admit_request sf clk1 clk role p b))"
proof (cases "admission_refusal p b")
  case None
  let ?l = "mb_limits b"
  let ?n = "min (the (safe_nat (cp_max_tokens p))) (min (maxOutputTokensPerCall ?l) (nat (available_output b)))"
  let ?v = "boundedCopy sf (min (maxInputBytesPerCall ?l) (maxTotalInputBytes ?l - mb_requestBytes b)) (request_json (mb_model b) ?n p)"
  have g: "length (mb_ledger b) < maxAttempts ?l" "mb_active b < maxConcurrent ?l" "0 < available_output b"
    using None by (auto simp: admission_refusal_def Let_def split: if_splits)
  obtain x b' where ch: "checkOpen clk1 b = (x, b')" by fastforce
  have ok: "budget_inv b'" using inv_checkOpen[OF assms(1) ch] by simp
  show ?thesis
  proof (cases ?v)
    case (Inl err)
    then show ?thesis using None assms(1) by (cases err) (simp_all add: admit_request_def Let_def)
  next
    case (Inr bytes)
    have "budget_inv (reserve clk role bytes ?n b)"
      using boundedCopy_le[OF Inr] g assms by (intro inv_reserve) auto
    then show ?thesis
      using None Inr assms(1) ch ok checkOpen_None[of clk1 b b'] by (cases x) (simp_all add: admit_request_def Let_def)
  qed
qed (use assms in \<open>simp add: admit_request_def\<close>)

lemma inv_admit:
  assumes "budget_inv b"
  shows "budget_inv (snd (admit sf clk0 clk1 clk role p b))"
proof -
  obtain x b' where ch: "checkOpen clk0 b = (x, b')" by fastforce
  have "budget_inv b'" "x = mb_closed b'" using inv_checkOpen[OF assms ch] by simp_all
  then show ?thesis
    using ch inv_close inv_admit_request by (auto simp: admit_def split: option.split)
qed

lemma inv_hand_over:
  assumes "answered_call i b" "budget_inv b"
  shows "budget_inv (snd (hand_over clk i b))"
proof -
  obtain x b' where ch: "checkOpen clk b = (x, b')" by fastforce
  let ?g = "\<lambda>e. e\<lparr>at_outcome := CallSucceeded\<rparr>" and ?e = "entry_at i b"
  have i: "0 < i" "i \<le> length (mb_ledger b)" "at_providerSettlement ?e = ProviderFulfilled" using assms(1) by (simp_all add: answered_call_def)
  show ?thesis
  proof (cases x)
    case None
    then have op: "b' = b" "mb_closed b = None" using checkOpen_None ch by blast+
    then have b: "books b" "within_caps b" "open_ok b" using assms(2) by (simp_all add: budget_inv_def)
    have e: "entry_ok (mb_limits b) ?e" "at_usageStatus ?e \<noteq> UsageUnknown"
      using b entry_in_ledger[OF i(1,2)] by (simp_all add: books_def open_ok_def)
    then have "entry_ok (mb_limits b) (?g ?e)" using i(3) by (cases "at_usageStatus ?e") (simp_all add: entry_ok_def)
    then have el: "\<forall>x \<in> set (mb_ledger (set_entry i ?g b)). entry_ok (mb_limits b) x"
      using b(1) by (auto simp: books_def dest!: set_set_entry)
    have same: "ledger_sum f (set_entry i ?g b) = ledger_sum f b" if "f (?g ?e) = f ?e" for f
      using ledger_sum_set_entry[OF i(1,2), of f ?g] that by simp
    have "books (set_entry i ?g b)"
      using b(1) el unfolding books_def by (simp add: same waiting_call_def reserved_by_def)
    moreover have "open_ok (set_entry i ?g b)"
      using b(3) e(2) by (auto simp: open_ok_def dest!: set_set_entry)
    ultimately have "budget_inv (set_entry i ?g b)" using b(2) op(2) by (simp add: budget_inv_def within_caps_def)
    then show ?thesis using ch None op by (simp add: hand_over_def)
  next
    case (Some code)
    then show ?thesis using ch inv_checkOpen[OF assms(2) ch] by (simp add: hand_over_def)
  qed
qed

lemma inv_seal: "sealNativeOperations b = Inr b' \<Longrightarrow> budget_inv b \<Longrightarrow> budget_inv b'"
  by (auto simp: sealNativeOperations_def budget_inv_def books_def within_caps_def open_ok_def sealed_ok_def ledger_sum_def
      split: option.splits)

lemma inv_step: "budget_step sf b b' \<Longrightarrow> budget_inv b \<Longrightarrow> budget_inv b'"
  by (induction rule: budget_step.induct)
    (auto intro: inv_admit inv_receive inv_provider_failed inv_hand_over inv_close inv_seal)

lemma inv_new: "new_budget model overrides aborted native clk = Inr b \<Longrightarrow> budget_inv b"
  by (auto simp: new_budget_def Let_def budget_inv_def books_def within_caps_def open_ok_def sealed_ok_def ledger_sum_def close_def
      split: option.splits if_splits)

lemma budget_reachable_inv: "budget_reachable sf b \<Longrightarrow> budget_inv b"
  by (induction rule: budget_reachable.induct) (auto intro: inv_new inv_step)


lemma limit_of_bounds: "limit_of overrides k d c = Some n \<Longrightarrow> 0 < n \<and> n \<le> c"
  by (auto simp: limit_of_def split: option.splits if_splits)

lemma budget_limits_bounds:
  assumes "budget_limits_of overrides = Some l"
  shows "0 < maxAttempts l \<and> maxAttempts l \<le> maxAttempts MODEL_BUDGET_HARD_CEILINGS
     \<and> maxConcurrent l \<le> maxConcurrent MODEL_BUDGET_HARD_CEILINGS
     \<and> maxTotalInputBytes l \<le> maxTotalInputBytes MODEL_BUDGET_HARD_CEILINGS
     \<and> maxInputBytesPerCall l \<le> maxInputBytesPerCall MODEL_BUDGET_HARD_CEILINGS
     \<and> maxOutputTokensPerCall l \<le> maxOutputTokensPerCall MODEL_BUDGET_HARD_CEILINGS
     \<and> maxObservedOutputTokens l \<le> maxObservedOutputTokens MODEL_BUDGET_HARD_CEILINGS"
  using assms by (auto simp: budget_limits_of_def Let_def split: option.splits if_splits dest!: limit_of_bounds)

lemma limits_fixed [simp]:
  "mb_limits (snd (checkOpen clk b)) = mb_limits b" "mb_limits (snd (reject i code b)) = mb_limits b"
  "mb_limits (snd (provider_failed clk i b)) = mb_limits b" "mb_limits (reserve clk role n m b) = mb_limits b"
  by (simp_all add: checkOpen_def reject_def provider_failed_def reserve_def Let_def)

lemma checkOpen_limits: "checkOpen clk b = (x, b') \<Longrightarrow> mb_limits b' = mb_limits b"
  using limits_fixed(1)[of clk b] by simp

lemma step_limits: "budget_step sf b b' \<Longrightarrow> mb_limits b' = mb_limits b"
proof (induction rule: budget_step.induct)
  case (admitting b clk0 clk1 clk role p)
  have "mb_limits (snd (admit_request sf clk1 clk role p x)) = mb_limits x" for x
    by (auto simp: admit_request_def Let_def split: option.split sum.split copy_error.split prod.split dest!: checkOpen_limits)
  then show ?case by (auto simp: admit_def split: option.split prod.split dest!: checkOpen_limits)
next
  case (receiving i b clk clk1 raw)
  then show ?case
    by (auto simp: receive_def Let_def case_prod_unfold split: option.split sum.split copy_error.split)
next
  case (handing i b clk)
  then show ?case by (auto simp: hand_over_def split: option.split prod.split dest!: checkOpen_limits)
qed (auto simp: sealNativeOperations_def split: option.splits)

lemma reachable_limits: "budget_reachable sf b \<Longrightarrow> \<exists>overrides. budget_limits_of overrides = Some (mb_limits b)"
  by (induction rule: budget_reachable.induct) (auto simp: new_budget_def Let_def step_limits split: option.splits if_splits)

subsection \<open>Sealing\<close>

text \<open>What \<open>receive\<close> asks of an answer before it delivers it.\<close>

definition acceptable_answer :: "(rat \<Rightarrow> jsstr) \<Rightarrow> int \<Rightarrow> nat \<Rightarrow> json \<Rightarrow> model_budget \<Rightarrow> bool" where
  "acceptable_answer sf clk1 i raw b \<longleftrightarrow>
     (let u = readUsage (Some raw); l = mb_limits b in
      mu_inputTokens u \<noteq> None \<and> mu_outputTokens u \<noteq> None
      \<and> mb_observedInput b + usage_input u \<le> maxObservedInputTokens l
      \<and> mb_observedOutput b + usage_output u \<le> maxObservedOutputTokens l
      \<and> usage_output u \<le> at_requestedOutputTokens (entry_at i b)
      \<and> (\<exists>n. boundedCopy sf (maxResponseBytesPerCall l) raw = Inr n) \<and> validResponse raw
      \<and> elapsed clk1 b < wallTimeMs l)"

lemma elapsed_cong: "mb_startedAt b = mb_startedAt b' \<Longrightarrow> elapsed clk b = elapsed clk b'"
  by (simp add: elapsed_def)

lemma reject_open:
  assumes "mb_closed b = None" "at_outcome (entry_at i b) = CallPending" "0 < i" "i \<le> length (mb_ledger b)"
  shows "fst (reject i code b) = code \<and> mb_closed (snd (reject i code b)) = Some code"
  using assms by (simp add: reject_def close_open Let_def entry_at_def set_entry_def abortRun_def nth_list_update)

lemma reject_closed_by:
  assumes "mb_closed b = Some code" "at_outcome (entry_at i b) = CallRejected" "at_reason (entry_at i b) = Some code"
    "0 < i" "i \<le> length (mb_ledger b)"
  shows "fst (reject i code b) = code \<and> mb_closed (snd (reject i code b)) = Some code"
  using assms by (simp add: reject_def close_def Let_def entry_at_def set_entry_def)

lemma checkOpen_open:
  "mb_closed b = None \<Longrightarrow> checkOpen clk b =
     (if elapsed clk b < wallTimeMs (mb_limits b) then (None, b) else (Some DEADLINE, close DEADLINE b))"
  by (simp add: checkOpen_def close_open Let_def)

lemma checkOpen_closed: "mb_closed b = Some code \<Longrightarrow> checkOpen clk b = (Some code, b)"
  by (simp add: checkOpen_def Let_def)

lemma in_flight_open:
  assumes "budget_inv b" "mb_closed b = None" "in_flight i b"
  shows "at_outcome (entry_at i b) = CallPending" "0 < i" "i \<le> length (mb_ledger b)"
proof -
  show i: "0 < i" "i \<le> length (mb_ledger b)" using assms(3) by (simp_all add: in_flight_def)
  have "entry_ok (mb_limits b) (entry_at i b)" "at_outcome (entry_at i b) \<noteq> CallRejected"
    using assms(1,2) entry_in_ledger[OF i] by (simp_all add: budget_inv_def books_def open_ok_def)
  then show "at_outcome (entry_at i b) = CallPending"
    using assms(3) by (cases "at_outcome (entry_at i b)") (simp_all add: entry_ok_def in_flight_def)
qed

lemma book_started [simp]: "mb_startedAt (book clk i raw b) = mb_startedAt b" "mb_startedAt (set_entry i g b) = mb_startedAt b"
  by (simp_all add: book_def set_entry_def Let_def)

lemma receive_open:
  assumes "budget_inv b" "mb_closed b = None" "in_flight i b"
  shows "if acceptable_answer sf clk1 i raw b then fst (receive sf clk clk1 i raw b) = Inr raw \<and> mb_closed (snd (receive sf clk clk1 i raw b)) = None
    else (\<exists>code. fst (receive sf clk clk1 i raw b) = Inl code \<and> mb_closed (snd (receive sf clk clk1 i raw b)) = Some code)"
proof -
  let ?c = "book clk i raw b" and ?u = "readUsage (Some raw)"
  have bk: "books b" using assms(1) by (simp add: budget_inv_def)
  note pd = in_flight_open[OF assms]
  have e: "at_outcome (entry_at i ?c) = CallPending" "at_usage (entry_at i ?c) = ?u"
    "at_requestedOutputTokens (entry_at i ?c) = at_requestedOutputTokens (entry_at i b)"
    "at_usageStatus (entry_at i ?c) = UsageUnknown \<longleftrightarrow> \<not> (mu_inputTokens ?u \<noteq> None \<and> mu_outputTokens ?u \<noteq> None)"
    using book_facts(2)[OF assms(3) bk, of clk raw] pd(1) by simp_all
  have o: "mb_observedInput ?c = mb_observedInput b + usage_input ?u" "mb_observedOutput ?c = mb_observedOutput b + usage_output ?u"
    by (simp_all add: book_def Let_def)
  have op: "mb_closed ?c = None" "length (mb_ledger ?c) = length (mb_ledger b)" using assms(2) by simp_all
  have rf: "receipt_refusal i ?c = None \<longleftrightarrow> mu_inputTokens ?u \<noteq> None \<and> mu_outputTokens ?u \<noteq> None
      \<and> mb_observedInput b + usage_input ?u \<le> maxObservedInputTokens (mb_limits b)
      \<and> mb_observedOutput b + usage_output ?u \<le> maxObservedOutputTokens (mb_limits b)
      \<and> usage_output ?u \<le> at_requestedOutputTokens (entry_at i b)"
    using op(1) e by (auto simp: receipt_refusal_def Let_def o)
  have rj: "fst (reject i code x) = code \<and> mb_closed (snd (reject i code x)) = Some code"
    if "x = ?c \<or> (\<exists>g. x = set_entry i g ?c \<and> at_outcome (g (entry_at i ?c)) = CallPending)" for x code
    using that op pd e(1) by (intro reject_open) (auto simp: entry_at_set_entry)
  show ?thesis
  proof (cases "receipt_refusal i ?c")
    case (Some code)
    have na: "\<not> acceptable_answer sf clk1 i raw b"
      using Some rf by (auto simp: acceptable_answer_def Let_def)
    have "receive sf clk clk1 i raw b = (Inl (fst (reject i code ?c)), snd (reject i code ?c))"
      using Some by (simp add: receive_def Let_def case_prod_unfold)
    then show ?thesis using rj[of ?c code] na by simp
  next
    case None
    show ?thesis
    proof (cases "boundedCopy sf (maxResponseBytesPerCall (mb_limits b)) raw")
      case (Inl err)
      have na: "\<not> acceptable_answer sf clk1 i raw b" using Inl by (auto simp: acceptable_answer_def Let_def)
      obtain x code where x: "receive sf clk clk1 i raw b = (Inl (fst (reject i code x)), snd (reject i code x))"
        and "x = ?c \<or> (\<exists>g. x = set_entry i g ?c \<and> at_outcome (g (entry_at i ?c)) = CallPending)"
      proof (cases err)
        case CopyInvalid
        then show ?thesis using that[of INVALID_RESPONSE ?c] None Inl by (simp add: receive_def Let_def case_prod_unfold)
      next
        case (CopyExceeded n)
        show ?thesis
          by (rule that[of RESPONSE_BYTES_LIMIT "set_entry i (\<lambda>e. e\<lparr>at_responseBytes := Some n\<rparr>) ?c"])
            (use None Inl CopyExceeded e(1) in \<open>auto simp: receive_def Let_def case_prod_unfold\<close>)
      qed
      then show ?thesis using rj na by simp
    next
      case (Inr n)
      let ?g = "\<lambda>e. e\<lparr>at_responseBytes := Some n, at_responseBytesComplete := True\<rparr>"
      let ?d = "set_entry i ?g ?c"
      have d: "mb_closed ?d = None" "elapsed clk1 ?d = elapsed clk1 b" "mb_limits ?d = mb_limits b"
        using op by (simp_all add: elapsed_def)
      have ap: "acceptable_answer sf clk1 i raw b \<longleftrightarrow> validResponse raw \<and> elapsed clk1 b < wallTimeMs (mb_limits b)"
        using None rf Inr by (auto simp: acceptable_answer_def Let_def)
      have "at_outcome (?g (entry_at i ?c)) = CallPending" using e(1) by simp
      then have rd: "fst (reject i code ?d) = code \<and> mb_closed (snd (reject i code ?d)) = Some code" for code
        using rj[of ?d code] by blast
      show ?thesis
      proof (cases "validResponse raw \<and> \<not> elapsed clk1 b < wallTimeMs (mb_limits b)")
        case True
        have i': "i - 1 < length (mb_ledger ?d)" "at_outcome (entry_at i ?d) = CallPending"
          using pd e(1) by (simp_all add: entry_at_set_entry)
        then have "fst (reject i DEADLINE (close DEADLINE ?d)) = DEADLINE
            \<and> mb_closed (snd (reject i DEADLINE (close DEADLINE ?d))) = Some DEADLINE"
          using pd d(1) by (intro reject_closed_by) (auto simp: close_open entry_at_def abortRun_def Let_def)
        moreover have "receive sf clk clk1 i raw b
            = (Inl (fst (reject i DEADLINE (close DEADLINE ?d))), snd (reject i DEADLINE (close DEADLINE ?d)))"
          using True None Inr checkOpen_open[OF d(1), of clk1] d(2,3) by (simp add: receive_def Let_def case_prod_unfold)
        ultimately show ?thesis using True ap by simp
      next
        case False
        then show ?thesis using None Inr ap rd[of INVALID_RESPONSE] d checkOpen_open[OF d(1), of clk1]
          by (cases "validResponse raw") (simp_all add: receive_def Let_def case_prod_unfold)
      qed
    qed
  qed
qed

lemma admit_open:
  assumes "mb_closed b = None"
  shows "case admit sf clk0 clk1 clk role p b of
      (Inr _, b') \<Rightarrow> mb_closed b' = None \<and> elapsed clk0 b < wallTimeMs (mb_limits b) \<and> elapsed clk1 b < wallTimeMs (mb_limits b)
        \<and> mb_native b \<noteq> Some True \<and> \<not> cp_aborted p
    | (Inl code, b') \<Rightarrow> (b' = b \<and> code \<noteq> DEADLINE \<and> code \<noteq> CANCELLED)
        \<or> (mb_closed b' = Some code \<and> length (mb_ledger b') = length (mb_ledger b)
           \<and> (code = DEADLINE \<and> (wallTimeMs (mb_limits b) \<le> elapsed clk0 b \<or> wallTimeMs (mb_limits b) \<le> elapsed clk1 b)
              \<or> code = CANCELLED \<and> cp_aborted p))"
proof (cases "elapsed clk0 b < wallTimeMs (mb_limits b)")
  case False
  then show ?thesis using assms by (simp add: admit_def checkOpen_open close_open)
next
  case True
  then have a: "admit sf clk0 clk1 clk role p b = (if mb_native b = Some True then (Inl DISPOSED, b)
      else if cp_aborted p then (Inl CANCELLED, close CANCELLED b) else admit_request sf clk1 clk role p b)"
    using assms by (simp add: admit_def checkOpen_open)
  have rf: "admission_refusal p b = Some code \<Longrightarrow> code \<noteq> DEADLINE \<and> code \<noteq> CANCELLED" for code
    by (auto simp: admission_refusal_def Let_def split: if_splits)
  have "case admit_request sf clk1 clk role p b of
      (Inr _, b') \<Rightarrow> mb_closed b' = None \<and> elapsed clk1 b < wallTimeMs (mb_limits b)
    | (Inl code, b') \<Rightarrow> (b' = b \<and> code \<noteq> DEADLINE \<and> code \<noteq> CANCELLED)
        \<or> (mb_closed b' = Some code \<and> length (mb_ledger b') = length (mb_ledger b)
           \<and> code = DEADLINE \<and> wallTimeMs (mb_limits b) \<le> elapsed clk1 b)"
    using assms rf
    by (simp add: admit_request_def Let_def checkOpen_open close_open reserve_def split: option.split sum.split copy_error.split)
  then show ?thesis using True a assms by (cases "admit_request sf clk1 clk role p b") (auto simp: close_open split: sum.splits)
qed

text \<open>After sealing: the reason, the number of calls and the outcome of each stay.\<close>

definition settled_as :: "budget_code \<Rightarrow> call_outcome list \<Rightarrow> model_budget \<Rightarrow> bool" where
  "settled_as code outs b \<longleftrightarrow> mb_closed b = Some code \<and> map at_outcome (mb_ledger b) = outs \<and> CallPending \<notin> set outs"

lemma settled_set_entry:
  assumes "settled_as code outs b" "0 < i" "i \<le> length (mb_ledger b)" "at_outcome (g (entry_at i b)) = at_outcome (entry_at i b)"
  shows "settled_as code outs (set_entry i g b)"
proof -
  have "map at_outcome ((mb_ledger b)[i - 1 := g (entry_at i b)]) = map at_outcome (mb_ledger b)"
    using assms(2-4) by (simp add: map_update entry_at_def list_update_same_conv)
  then show ?thesis using assms(1) by (simp add: settled_as_def set_entry_def)
qed

lemma settled_reject:
  assumes "settled_as code outs b" "0 < i" "i \<le> length (mb_ledger b)"
  shows "settled_as code outs (snd (reject i k b))"
proof -
  have "at_outcome (entry_at i b) \<in> set outs" using assms entry_in_ledger[OF assms(2,3)] by (auto simp: settled_as_def)
  then have "at_outcome (entry_at i b) \<noteq> CallPending" using assms(1) by (auto simp: settled_as_def)
  then have "settled_as code outs (set_entry i (\<lambda>e. if at_outcome e = CallPending
      then e\<lparr>at_outcome := CallRejected, at_reason := Some k\<rparr> else e) b)"
    by (intro settled_set_entry[OF assms]) simp
  then show ?thesis by (simp add: reject_def close_def Let_def settled_as_def)
qed

lemma settled_step:
  assumes "budget_step sf b b'" "settled_as code outs b"
  shows "settled_as code outs b'"
  using assms(1)
proof (cases rule: budget_step.cases)
  case (admitting clk0 clk1 clk role p)
  then show ?thesis using assms(2) by (simp add: settled_as_def admit_def checkOpen_closed)
next
  case (receiving i clk clk1 raw)
  have i: "0 < i" "i \<le> length (mb_ledger b)" using receiving(2) by (simp_all add: in_flight_def)
  have "settled_as code outs (set_entry i g b)" if "\<And>e. at_outcome (g e) = at_outcome e" for g
    using settled_set_entry[OF assms(2) i] that by simp
  then have "settled_as code outs (book clk i raw b)" by (simp add: book_def Let_def settled_as_def)
  then show ?thesis using receiving(1) settled_reject[of code outs "book clk i raw b"] i
    by (simp add: receive_def receipt_refusal_def Let_def case_prod_unfold settled_as_def)
next
  case (failing i clk)
  have i: "0 < i" "i \<le> length (mb_ledger b)" using failing(2) by (simp_all add: in_flight_def)
  have "settled_as code outs ((set_entry i (\<lambda>e. e\<lparr>at_providerSettlement := ProviderRejected, at_settledAfterMs := Some (elapsed clk b),
           at_usageStatus := UsageUnknown, at_late := at_outcome e = CallRejected\<rparr>) b)\<lparr>mb_active := mb_active b - 1\<rparr>)"
    using settled_set_entry[OF assms(2) i, of "\<lambda>e. e\<lparr>at_providerSettlement := ProviderRejected, at_settledAfterMs := Some (elapsed clk b),
           at_usageStatus := UsageUnknown, at_late := at_outcome e = CallRejected\<rparr>"] by (simp add: settled_as_def)
  then show ?thesis using failing(1) settled_reject i by (simp add: provider_failed_def)
next
  case (handing i clk)
  then show ?thesis using assms(2) by (simp add: settled_as_def hand_over_def checkOpen_closed)
next
  case (closing k)
  then show ?thesis using assms(2) by (simp add: close_def settled_as_def)
next
  case sealing
  then show ?thesis using assms(2) by (auto simp: sealNativeOperations_def settled_as_def split: option.splits)
qed

lemma settled_steps: "(budget_step sf)\<^sup>*\<^sup>* b b' \<Longrightarrow> settled_as code outs b \<Longrightarrow> settled_as code outs b'"
  by (induction rule: rtranclp_induct) (auto intro: settled_step)

section \<open>Properties\<close>

text \<open>C18: Whatever root and child calls, provider answers, failures, cancellation and timer do, and in any order, a
  budget stays within its limits, and these within the host's ceilings: the number of calls that were
  sent, the number in flight at a time, the bytes sent in total, the bytes and the requested output of
  each call. While the budget is open, the output tokens observed and still reserved together stay
  under the output limit, which is under its ceiling too.\<close>

theorem budget_stays_within_limits:
  assumes "budget_reachable sf b"
  defines "l \<equiv> mb_limits b" and "c \<equiv> MODEL_BUDGET_HARD_CEILINGS"
  shows "length (mb_ledger b) \<le> maxAttempts l \<and> maxAttempts l \<le> maxAttempts c
     \<and> length (filter (\<lambda>e. at_providerSettlement e = ProviderPending) (mb_ledger b)) \<le> maxConcurrent l \<and> maxConcurrent l \<le> maxConcurrent c
     \<and> sum_list (map at_requestInputBytes (mb_ledger b)) \<le> maxTotalInputBytes l \<and> maxTotalInputBytes l \<le> maxTotalInputBytes c
     \<and> (\<forall>e \<in> set (mb_ledger b). at_requestInputBytes e \<le> maxInputBytesPerCall l
          \<and> at_requestedOutputTokens e \<le> maxOutputTokensPerCall l)
     \<and> maxInputBytesPerCall l \<le> maxInputBytesPerCall c \<and> maxOutputTokensPerCall l \<le> maxOutputTokensPerCall c
     \<and> (mb_closed b = None \<longrightarrow> mb_observedOutput b + mb_reservedOutput b \<le> maxObservedOutputTokens l)
     \<and> maxObservedOutputTokens l \<le> maxObservedOutputTokens c"
proof -
  have inv: "books b" "within_caps b" "mb_closed b = None \<Longrightarrow> open_ok b"
    using budget_reachable_inv[OF assms(1)] by (auto simp: budget_inv_def split: if_splits)
  obtain overrides where "budget_limits_of overrides = Some (mb_limits b)" using reachable_limits[OF assms(1)] by blast
  note lim = budget_limits_bounds[OF this]
  have "length (filter (\<lambda>e. at_providerSettlement e = ProviderPending) es) = sum_list (map waiting_call es)" for es
    by (induction es) (auto simp: waiting_call_def)
  then have "length (filter (\<lambda>e. at_providerSettlement e = ProviderPending) (mb_ledger b)) = mb_active b"
    using inv(1) by (simp add: books_def ledger_sum_def)
  moreover have "\<forall>e \<in> set (mb_ledger b). at_requestInputBytes e \<le> maxInputBytesPerCall l
          \<and> at_requestedOutputTokens e \<le> maxOutputTokensPerCall l"
    using inv(1) by (simp add: books_def entry_ok_def l_def)
  ultimately show ?thesis
    using inv lim by (auto simp: books_def within_caps_def open_ok_def ledger_sum_def l_def c_def)
qed


text \<open>C20: A complete snapshot is exact: when it reports usage as complete, every call that was sent has been
  answered with known usage, nothing is reserved, and the two totals are the sums of what the provider
  reported for the calls.\<close>

theorem complete_usage_exact:
  assumes "budget_reachable sf b" "bs_usageStatus (budget_snapshot_of clk b) = UsageComplete"
  shows "(\<forall>e \<in> set (mb_ledger b). at_usageStatus e = UsageReported \<and> known_usage (at_usage e)) \<and> mb_reservedOutput b = 0
     \<and> mb_observedInput b = sum_list (map (\<lambda>e. the (mu_inputTokens (at_usage e))) (mb_ledger b))
     \<and> mb_observedOutput b = sum_list (map (\<lambda>e. the (mu_outputTokens (at_usage e))) (mb_ledger b))"
proof -
  have bk: "books b" using budget_reachable_inv[OF assms(1)] by (simp add: budget_inv_def)
  have s: "\<forall>e \<in> set (mb_ledger b). at_usageStatus e \<noteq> UsageUnknown" "mb_active b = 0"
    using assms(2) by (auto simp: budget_snapshot_of_def Let_def filter_empty_conv split: if_splits)
  have e: "at_usageStatus e = UsageReported \<and> known_usage (at_usage e)" if "e \<in> set (mb_ledger b)" for e
  proof -
    have "waiting_call e = 0" using bk s(2) that ledger_sum_le[OF that, of waiting_call] by (simp add: books_def)
    moreover have "entry_ok (mb_limits b) e" using bk that by (simp add: books_def)
    ultimately show ?thesis using s(1) that
      by (cases "at_providerSettlement e"; cases "at_usageStatus e") (auto simp: waiting_call_def entry_ok_def)
  qed
  then have "ledger_sum (\<lambda>e. usage_input (at_usage e)) b = sum_list (map (\<lambda>e. the (mu_inputTokens (at_usage e))) (mb_ledger b))"
    "ledger_sum (\<lambda>e. usage_output (at_usage e)) b = sum_list (map (\<lambda>e. the (mu_outputTokens (at_usage e))) (mb_ledger b))"
    "ledger_sum reserved_by b = 0"
    by (auto simp: known_usage_def ledger_sum_def reserved_by_def intro!: arg_cong[of _ _ sum_list])
  then show ?thesis using bk e by (simp add: books_def)
qed

text \<open>C21: The byte counter is exact without encoding the data: it accepts a value at a limit if and only if the
  value has finite numbers and at most 32 levels of nesting and the UTF-8 encoding of its
  \<open>JSON.stringify\<close> text has at most that many bytes, and its count is that length. Numbers are printed
  in ASCII.\<close>

theorem bounded_copy_exact:
  assumes "\<forall>q. ascii (sf q)"
  shows "boundedCopy sf limit v = Inr n \<longleftrightarrow>
    countable_data 0 v \<and> n = length (utf8 (stringify sf v)) \<and> n \<le> limit"
proof (cases "countable_data 0 v")
  case True
  have "visit sf 0 v \<noteq> []" by (cases v) (auto simp: text_charges_def)
  then show ?thesis
    using size8_visit[OF assms True, of "[]"] True
    by (auto simp: boundedCopy_def charge_all_iff Bad_visit tail_ok_def) (simp_all add: utf8_def)
next
  case False
  then have "Bad \<in> set (visit sf 0 v)" using Bad_visit by blast
  then show ?thesis using False by (simp add: boundedCopy_def charge_all_iff)
qed

section \<open>Witnesses\<close>

text \<open>A run with one call, answered and handed over.\<close>

definition ex_fresh :: model_budget where
  "ex_fresh = \<lparr>mb_limits = MODEL_BUDGET_DEFAULTS, mb_model = js ''m'', mb_startedAt = 0, mb_closed = None, mb_ledger = [],
     mb_active = 0, mb_peak = 0, mb_requestBytes = 0, mb_requestedOutput = 0, mb_reservedOutput = 0, mb_observedInput = 0,
     mb_observedOutput = 0, mb_native = None\<rparr>"

definition ex_create :: create_params where
  "ex_create = \<lparr>cp_model = js ''m'', cp_max_tokens = JNum (JInt 100), cp_messages = JArr [], cp_system = None, cp_tools = None,
     cp_aborted = False\<rparr>"

definition ex_reply :: json where
  "ex_reply = JObj [(js ''id'', JStr (js ''r'')), (js ''content'', JArr []), (js ''stop_reason'', JNull),
     (js ''usage'', JObj [(js ''input_tokens'', JNum (JInt 7)), (js ''output_tokens'', JNum (JInt 5))])]"

lemma default_limits: "budget_limits_of [] = Some MODEL_BUDGET_DEFAULTS" 
  by (simp add: budget_limits_of_def limit_keys_def MODEL_BUDGET_DEFAULTS_def MODEL_BUDGET_HARD_CEILINGS_def limit_of_def MAX_RESPONSE_BYTES_def)

lemma ex_fresh_new: "new_budget (js ''m'') [] False False 0 = Inr ex_fresh"
proof -
  have "js_trim (js ''m'') \<noteq> []" by code_simp
  moreover have "length (js ''m'') = 1" by code_simp
  ultimately show ?thesis by (simp add: new_budget_def default_limits ex_fresh_def)
qed

definition ex_request :: json where
  "ex_request = request_json (js ''m'') 100 ex_create"

lemma ex_request_bytes:
  assumes "44 \<le> n"
  shows "boundedCopy (\<lambda>_. []) n ex_request = Inr 44"
proof -
  have "Bad \<notin> set (visit (\<lambda>_. []) 0 ex_request)" by code_simp
  moreover have "charge_sum (visit (\<lambda>_. []) 0 ex_request) = 44" by code_simp
  ultimately show ?thesis using assms by (simp add: boundedCopy_def charge_all_iff)
qed

lemma ex_reply_bytes:
  assumes "87 \<le> n"
  shows "boundedCopy (\<lambda>_. []) n ex_reply = Inr 87"
proof -
  have "Bad \<notin> set (visit (\<lambda>_. []) 0 ex_reply)" by code_simp
  moreover have "charge_sum (visit (\<lambda>_. []) 0 ex_reply) = 87" by code_simp
  ultimately show ?thesis using assms by (simp add: boundedCopy_def charge_all_iff)
qed

definition ex_entry :: budget_attempt where
  "ex_entry = \<lparr>at_id = 1, at_role = RootCall, at_requestInputBytes = 44,
         at_requestedOutputTokens = 100, at_responseBytes = None, at_responseBytesComplete = False,
         at_startedAfterMs = 1, at_settledAfterMs = None, at_providerSettlement = ProviderPending,
         at_usageStatus = UsagePending, at_outcome = CallPending, at_reason = None, at_late = False,
         at_usage = readUsage None\<rparr>"

definition ex_sent :: model_budget where
  "ex_sent = ex_fresh\<lparr>mb_ledger := [ex_entry], mb_active := 1, mb_peak := 1, mb_requestBytes := 44, mb_requestedOutput := 100,
     mb_reservedOutput := 100\<rparr>"

lemma ex_num: "safe_nat (JNum (JInt 100)) = Some 100" by (simp add: integral_def max_safe_def)

lemma ex_admit: "admit (\<lambda>_. []) 1 1 1 RootCall ex_create ex_fresh = (Inr (1, ex_request), ex_sent)"
proof -
  have v: "validRequest ex_request" by code_simp
  have r: "admission_refusal ex_create ex_fresh = None"
    by (simp add: admission_refusal_def ex_create_def ex_fresh_def ex_num[simplified] available_output_def MODEL_BUDGET_DEFAULTS_def)
  have el: "elapsed 1 ex_fresh = 1" by (simp add: elapsed_def ex_fresh_def max_safe_def)
  have o: "checkOpen 1 ex_fresh = (None, ex_fresh)"
    by (simp add: checkOpen_def el) (simp add: ex_fresh_def MODEL_BUDGET_DEFAULTS_def)
  have f: "mb_limits ex_fresh = MODEL_BUDGET_DEFAULTS" "mb_requestBytes ex_fresh = 0" "mb_model ex_fresh = js ''m''"
    "available_output ex_fresh = 12000" "mb_ledger ex_fresh = []" "safe_nat (cp_max_tokens ex_create) = Some 100"
    using ex_num by (simp_all add: ex_fresh_def MODEL_BUDGET_DEFAULTS_def available_output_def ex_create_def)
  have a: "admit_request (\<lambda>_. []) 1 1 RootCall ex_create ex_fresh = (Inr (1, ex_request), reserve 1 RootCall 44 100 ex_fresh)"
    using v ex_request_bytes[of "524288"] by (simp add: admit_request_def o r f MODEL_BUDGET_DEFAULTS_def Let_def ex_request_def)
  have "reserve 1 RootCall 44 100 ex_fresh = ex_sent"
    unfolding reserve_def el by (simp add: ex_sent_def ex_entry_def ex_fresh_def)
  moreover have "\<not> cp_aborted ex_create" "mb_native ex_fresh = None" by (simp_all add: ex_create_def ex_fresh_def)
  ultimately show ?thesis using a by (simp add: admit_def o)
qed

definition ex_done :: budget_attempt where
  "ex_done = ex_entry\<lparr>at_providerSettlement := ProviderFulfilled, at_settledAfterMs := Some 2, at_usage := readUsage (Some ex_reply),
     at_usageStatus := UsageReported, at_responseBytes := Some 87, at_responseBytesComplete := True\<rparr>"

definition ex_answered :: model_budget where
  "ex_answered = ex_sent\<lparr>mb_ledger := [ex_done], mb_active := 0, mb_observedInput := 7, mb_observedOutput := 5, mb_reservedOutput := 0\<rparr>"

lemma ex_usage:
  "readUsage (Some ex_reply) = \<lparr>mu_inputTokens = Some 7, mu_outputTokens = Some 5, mu_uncached = Some 7, mu_cacheRead = Some 0,
     mu_cacheCreation = Some 0\<rparr>"
  by code_simp

lemma ex_receive: "receive (\<lambda>_. []) 2 2 1 ex_reply ex_sent = (Inr ex_reply, ex_answered)"
proof -
  have v: "validResponse ex_reply" by code_simp
  have el: "elapsed 2 ex_sent = 2" by (simp add: elapsed_def ex_sent_def ex_fresh_def max_safe_def)
  let ?b = "book 2 1 ex_reply ex_sent"
  have b: "?b = ex_answered\<lparr>mb_ledger := [ex_done\<lparr>at_responseBytes := None, at_responseBytesComplete := False\<rparr>]\<rparr>"
    unfolding book_def ex_usage el 
    by (simp add: ex_sent_def ex_answered_def ex_done_def ex_usage set_entry_def entry_at_def ex_entry_def usage_input_def usage_output_def tokens0_def ex_fresh_def)
  have r: "receipt_refusal 1 ?b = None"
    unfolding b by (simp add: receipt_refusal_def entry_at_def ex_answered_def ex_sent_def ex_fresh_def ex_done_def ex_entry_def
       ex_usage usage_output_def tokens0_def MODEL_BUDGET_DEFAULTS_def)
  have l: "maxResponseBytesPerCall (mb_limits ?b) = 262144"
    unfolding b by (simp add: ex_answered_def ex_sent_def ex_fresh_def MODEL_BUDGET_DEFAULTS_def)
  have s: "set_entry 1 (\<lambda>e. e\<lparr>at_responseBytes := Some 87, at_responseBytesComplete := True\<rparr>) ?b = ex_answered"
    unfolding b by (simp add: set_entry_def entry_at_def ex_answered_def ex_done_def ex_entry_def)
  have "checkOpen 2 ex_answered = (None, ex_answered)"
    by (simp add: checkOpen_def elapsed_def ex_answered_def ex_sent_def ex_fresh_def max_safe_def MODEL_BUDGET_DEFAULTS_def)
  then show ?thesis unfolding receive_def Let_def l r using v ex_reply_bytes[of 262144] s by simp
qed

lemma ex_sent_reachable: "budget_reachable (\<lambda>_. []) ex_sent"
  using budget_reachable.step[OF budget_reachable.fresh[OF ex_fresh_new] budget_step.admitting, of "\<lambda>_. []" 1 1 1 RootCall ex_create]
  by (simp add: ex_admit)

lemma ex_answered_reachable: "budget_reachable (\<lambda>_. []) ex_answered"
proof -
  have "in_flight 1 ex_sent" by (simp add: in_flight_def ex_sent_def entry_at_def ex_entry_def)
  from budget_reachable.step[OF ex_sent_reachable budget_step.receiving[OF this], of 2 2 ex_reply]
  show ?thesis unfolding ex_receive by simp
qed

lemma ex_answered_facts: "bs_usageStatus (budget_snapshot_of 3 ex_answered) = UsageComplete" "mb_observedOutput ex_answered = 5"
  "mb_closed ex_answered = None"
  by (simp_all add: budget_snapshot_of_def ex_answered_def ex_sent_def ex_done_def ex_fresh_def)

theorem budget_stays_within_limits_witness:
  "length (mb_ledger ex_sent) = 1 \<and> length (mb_ledger ex_sent) \<le> maxAttempts (mb_limits ex_sent)
   \<and> sum_list (map at_requestInputBytes (mb_ledger ex_sent)) \<le> maxTotalInputBytes (mb_limits ex_sent)"
  using budget_stays_within_limits[OF ex_sent_reachable] by (simp add: ex_sent_def)


theorem complete_usage_exact_witness:
  "mb_observedOutput ex_answered = 5
   \<and> mb_observedOutput ex_answered = sum_list (map (\<lambda>e. the (mu_outputTokens (at_usage e))) (mb_ledger ex_answered))"
  using complete_usage_exact[OF ex_answered_reachable ex_answered_facts(1)] ex_answered_facts(2) by blast

theorem bounded_copy_exact_witness:
  "boundedCopy (\<lambda>_. []) 11 (JArr [JStr (js ''hi''), JNull])
   = Inr (length (utf8 (stringify (\<lambda>_. []) (JArr [JStr (js ''hi''), JNull]))))"
proof -
  have "countable_data 0 (JArr [JStr (js ''hi''), JNull])" by simp
  moreover have "length (utf8 (stringify (\<lambda>_. []) (JArr [JStr (js ''hi''), JNull]))) = 11" by code_simp
  moreover have "\<forall>q::rat. ascii ((\<lambda>_. []) q)" by (simp add: ascii_def)
  ultimately show ?thesis using bounded_copy_exact[of "\<lambda>_. []" 11] by fastforce
qed

end
