(* ===== verification/Handoff.thy ===== *)
theory Handoff
  imports Budget "HOL-Library.Monad_Syntax"
begin

text \<open>
  The commitment-handoff workflow's data contract: the schemas of \<open>packages/contracts/src/workflows.ts\<close>
  as decoders from parsed JSON to records, and the validators of
  \<open>packages/engine/src/workflows/commitment-handoff.ts\<close>: hashing and freezing a snapshot, the line
  index over its messages, and the check that a ledger cites exactly what the snapshot says.

  The library zod is not part of the repository. A schema is modelled by the values it accepts; which
  issues it lists for a value it rejects is a parameter, and so is the set of texts its
  \<open>datetime\<close> format takes together with the instant \<open>Date.parse\<close> gives them.
\<close>

section \<open>Parameters\<close>

record handoff_env =
  he_timestamp :: "jsstr \<Rightarrow> int option"
  he_timezone :: "jsstr \<Rightarrow> bool"
  he_sha :: "bytes \<Rightarrow> jsstr"
  he_num :: "rat \<Rightarrow> jsstr"
  he_snapshotIssues :: "json \<Rightarrow> (jsstr list \<times> jsstr) list"
  he_ledgerIssues :: "json \<Rightarrow> (jsstr list \<times> jsstr) list"

section \<open>Scalars\<close>

definition alnum :: "u16 \<Rightarrow> bool" where
  "alnum c \<longleftrightarrow> 97 \<le> c \<and> c \<le> 122 \<or> 65 \<le> c \<and> c \<le> 90 \<or> 48 \<le> c \<and> c \<le> 57"

definition text_ok :: "nat \<Rightarrow> nat \<Rightarrow> jsstr \<Rightarrow> bool" where
  "text_ok mx mn s \<longleftrightarrow> mn \<le> length s \<and> length s \<le> mx \<and> is_well_formed s"

definition identifier_ok :: "jsstr \<Rightarrow> bool" where
  "identifier_ok s \<longleftrightarrow> length s \<le> 80 \<and>
     (case s of [] \<Rightarrow> False | c # cs \<Rightarrow> alnum c \<and> (\<forall>d \<in> set cs. alnum d \<or> d \<in> {46, 95, 45}))"

definition hash_text :: "jsstr \<Rightarrow> bool" where
  "hash_text s \<longleftrightarrow> length s = 64 \<and> (\<forall>c \<in> set s. 97 \<le> c \<and> c \<le> 102 \<or> 48 \<le> c \<and> c \<le> 57)"

definition nonBlank :: "nat \<Rightarrow> jsstr \<Rightarrow> bool" where
  "nonBlank mx s \<longleftrightarrow> text_ok mx 1 s \<and> js_trim s \<noteq> []"

definition timestamp_ok :: "'a handoff_env_scheme \<Rightarrow> jsstr \<Rightarrow> bool" where
  "timestamp_ok h s \<longleftrightarrow> he_timestamp h s \<noteq> None"

text \<open>\<open>/^[^\s<>@]+@[^\s<>@]+\.[^\s<>@]+$/\<close>: an inner dot after the only \<open>@\<close>.\<close>

definition address_unit :: "u16 \<Rightarrow> bool" where
  "address_unit c \<longleftrightarrow> \<not> js_space c \<and> c \<notin> {60, 62, 64}"

definition bare_address :: "jsstr \<Rightarrow> bool" where
  "bare_address s \<longleftrightarrow>
     (let local = takeWhile (\<lambda>c. c \<noteq> 64) s; domain = drop (length local + 1) s in
      local \<noteq> [] \<and> length local < length s \<and> list_all address_unit local \<and> list_all address_unit domain
      \<and> 46 \<in> set (butlast (drop 1 domain)))"

section \<open>Objects\<close>

text \<open>A strict object has the listed keys and no others; \<open>parse_str\<close> to \<open>parse_list\<close> are the field
  schemas. A field that is not there is not any of the accepted values.\<close>

fun strict_object :: "jsstr list \<Rightarrow> json \<Rightarrow> bool" where
  "strict_object ks (JObj ms) \<longleftrightarrow> fst ` set ms \<subseteq> set ks"
| "strict_object ks _ \<longleftrightarrow> False"

fun parse_str :: "(jsstr \<Rightarrow> bool) \<Rightarrow> json option \<Rightarrow> jsstr option" where
  "parse_str P (Some (JStr s)) = (if P s then Some s else None)"
| "parse_str P _ = None"

fun parse_bool :: "json option \<Rightarrow> bool option" where
  "parse_bool (Some (JBool b)) = Some b"
| "parse_bool _ = None"

fun parse_nat :: "nat \<Rightarrow> nat \<Rightarrow> json option \<Rightarrow> nat option" where
  "parse_nat mn mx (Some v) = (case safe_nat v of Some n \<Rightarrow> if mn \<le> n \<and> n \<le> mx then Some n else None | None \<Rightarrow> None)"
| "parse_nat mn mx None = None"

fun parse_nullable :: "(json option \<Rightarrow> 'a option) \<Rightarrow> json option \<Rightarrow> 'a option option" where
  "parse_nullable f (Some JNull) = Some None"
| "parse_nullable f v = map_option Some (f v)"

fun parse_list :: "nat \<Rightarrow> nat \<Rightarrow> (json \<Rightarrow> 'a option) \<Rightarrow> json option \<Rightarrow> 'a list option" where
  "parse_list mn mx f (Some (JArr xs)) = (if mn \<le> length xs \<and> length xs \<le> mx then those (map f xs) else None)"
| "parse_list mn mx f _ = None"

definition parse_enum :: "(jsstr \<times> 'a) list \<Rightarrow> json option \<Rightarrow> 'a option" where
  "parse_enum table v = Option.bind (parse_str (\<lambda>_. True) v) (map_of table)"

definition guard :: "bool \<Rightarrow> unit option" where
  "guard b = (if b then Some () else None)"

subsection \<open>Bounds\<close>

definition MESSAGES :: nat where "MESSAGES = 32"

definition BODY_CHARS :: nat where "BODY_CHARS = 12000"

definition TOTAL_BODY_CHARS :: nat where "TOTAL_BODY_CHARS = 96000"

definition LEDGER_ITEMS :: nat where "LEDGER_ITEMS = 12"

definition EVIDENCE_PER_ITEM :: nat where "EVIDENCE_PER_ITEM = 6"

definition QUOTE_CHARS :: nat where "QUOTE_CHARS = 1000"

definition REPLY_CHARS :: nat where "REPLY_CHARS = 1200"

definition ISSUES :: nat where "ISSUES = 64"

lemmas bounds_defs = MESSAGES_def BODY_CHARS_def TOTAL_BODY_CHARS_def LEDGER_ITEMS_def EVIDENCE_PER_ITEM_def
  QUOTE_CHARS_def REPLY_CHARS_def ISSUES_def

definition COMMITMENT_WORKFLOW_ID :: jsstr where
  "COMMITMENT_WORKFLOW_ID = js ''mail.commitment-handoff.v1''"

definition COMMITMENT_SCHEMA_VERSION :: nat where
  "COMMITMENT_SCHEMA_VERSION = 1"

section \<open>Messages and snapshots\<close>

record commitment_message =
  cm_id :: jsstr
  cm_threadId :: jsstr
  cm_subject :: jsstr
  cm_sender :: jsstr
  cm_to :: jsstr
  cm_timestamp :: jsstr
  cm_body :: jsstr
  cm_bodyHash :: jsstr
  cm_truncated :: bool
  cm_omittedChars :: "nat option"

definition message_keys :: "jsstr list" where
  "message_keys = map js [''id'', ''threadId'', ''subject'', ''sender'', ''to'', ''timestamp'', ''body'', ''bodyHash'',
     ''truncated'', ''omittedChars'']"

definition parse_message :: "'a handoff_env_scheme \<Rightarrow> json \<Rightarrow> commitment_message option" where
  "parse_message h v = do {
     guard (strict_object message_keys v);
     i \<leftarrow> parse_str identifier_ok (jget v (js ''id''));
     th \<leftarrow> parse_str identifier_ok (jget v (js ''threadId''));
     su \<leftarrow> parse_str (text_ok 240 0) (jget v (js ''subject''));
     se \<leftarrow> parse_str (nonBlank 320) (jget v (js ''sender''));
     t \<leftarrow> parse_str (text_ok 640 0) (jget v (js ''to''));
     ts \<leftarrow> parse_str (timestamp_ok h) (jget v (js ''timestamp''));
     bo \<leftarrow> parse_str (text_ok BODY_CHARS 0) (jget v (js ''body''));
     bh \<leftarrow> parse_str hash_text (jget v (js ''bodyHash''));
     tr \<leftarrow> parse_bool (jget v (js ''truncated''));
     om \<leftarrow> parse_nullable (parse_nat 0 100000000) (jget v (js ''omittedChars''));
     guard (tr \<longleftrightarrow> om \<noteq> Some 0);
     Some \<lparr>cm_id = i, cm_threadId = th, cm_subject = su, cm_sender = se, cm_to = t, cm_timestamp = ts, cm_body = bo,
       cm_bodyHash = bh, cm_truncated = tr, cm_omittedChars = om\<rparr>
   }"

datatype snapshot_source = SyntheticFixture | UserSupplied

record commitment_snapshot =
  cs_snapshotId :: jsstr
  cs_snapshotHash :: jsstr
  cs_userAddress :: jsstr
  cs_cutoff :: jsstr
  cs_timezone :: jsstr
  cs_source :: snapshot_source
  cs_omittedMessages :: "nat option"
  cs_note :: jsstr
  cs_messages :: "commitment_message list"

definition source_table :: "(jsstr \<times> snapshot_source) list" where
  "source_table = [(js ''synthetic-fixture'', SyntheticFixture), (js ''user-supplied'', UserSupplied)]"

definition coverage_keys :: "jsstr list" where
  "coverage_keys = map js [''scope'', ''source'', ''omittedMessages'', ''note'']"

definition parse_coverage :: "json option \<Rightarrow> (snapshot_source \<times> nat option \<times> jsstr) option" where
  "parse_coverage c = do {
     v \<leftarrow> c;
     guard (strict_object coverage_keys v);
     parse_str (\<lambda>s. s = js ''supplied-snapshot'') (jget v (js ''scope''));
     so \<leftarrow> parse_enum source_table (jget v (js ''source''));
     om \<leftarrow> parse_nullable (parse_nat 0 1000000) (jget v (js ''omittedMessages''));
     nt \<leftarrow> parse_str (text_ok 500 0) (jget v (js ''note''));
     Some (so, om, nt)
   }"

definition snapshot_keys :: "jsstr list" where
  "snapshot_keys = map js [''workflowId'', ''schemaVersion'', ''snapshotId'', ''snapshotHash'', ''userAddress'', ''cutoff'',
     ''timezone'', ''coverage'', ''messages'']"

text \<open>The refinement of the whole snapshot.\<close>

definition snapshot_refined :: "'a handoff_env_scheme \<Rightarrow> commitment_snapshot \<Rightarrow> bool" where
  "snapshot_refined h s \<longleftrightarrow> sum_list (map (length \<circ> cm_body) (cs_messages s)) \<le> TOTAL_BODY_CHARS
     \<and> distinct (map cm_id (cs_messages s))
     \<and> (\<forall>m \<in> set (cs_messages s). the (he_timestamp h (cm_timestamp m)) \<le> the (he_timestamp h (cs_cutoff s)))"

definition parse_snapshot :: "'a handoff_env_scheme \<Rightarrow> json \<Rightarrow> commitment_snapshot option" where
  "parse_snapshot h v = do {
     guard (strict_object snapshot_keys v);
     parse_str (\<lambda>s. s = COMMITMENT_WORKFLOW_ID) (jget v (js ''workflowId''));
     parse_nat COMMITMENT_SCHEMA_VERSION COMMITMENT_SCHEMA_VERSION (jget v (js ''schemaVersion''));
     i \<leftarrow> parse_str identifier_ok (jget v (js ''snapshotId''));
     sh \<leftarrow> parse_str hash_text (jget v (js ''snapshotHash''));
     ua \<leftarrow> parse_str (\<lambda>s. text_ok 254 3 s \<and> bare_address s) (jget v (js ''userAddress''));
     cu \<leftarrow> parse_str (timestamp_ok h) (jget v (js ''cutoff''));
     tz \<leftarrow> parse_str (nonBlank 80) (jget v (js ''timezone''));
     (so, om, nt) \<leftarrow> parse_coverage (jget v (js ''coverage''));
     ms \<leftarrow> parse_list 0 MESSAGES (parse_message h) (jget v (js ''messages''));
     let s = \<lparr>cs_snapshotId = i, cs_snapshotHash = sh, cs_userAddress = ua, cs_cutoff = cu, cs_timezone = tz, cs_source = so,
       cs_omittedMessages = om, cs_note = nt, cs_messages = ms\<rparr>;
     guard (snapshot_refined h s);
     Some s
   }"

section \<open>Evidence, items and ledgers\<close>

record commitment_evidence =
  ce_messageId :: jsstr
  ce_bodyHash :: jsstr
  ce_start :: nat
  ce_end :: nat
  ce_quote :: jsstr

definition evidence_keys :: "jsstr list" where
  "evidence_keys = map js [''messageId'', ''bodyHash'', ''start'', ''end'', ''quote'']"

definition parse_evidence :: "json \<Rightarrow> commitment_evidence option" where
  "parse_evidence v = do {
     guard (strict_object evidence_keys v);
     i \<leftarrow> parse_str identifier_ok (jget v (js ''messageId''));
     bh \<leftarrow> parse_str hash_text (jget v (js ''bodyHash''));
     st \<leftarrow> parse_nat 0 BODY_CHARS (jget v (js ''start''));
     en \<leftarrow> parse_nat 1 BODY_CHARS (jget v (js ''end''));
     qu \<leftarrow> parse_str (text_ok QUOTE_CHARS 1) (jget v (js ''quote''));
     guard (st < en);
     Some \<lparr>ce_messageId = i, ce_bodyHash = bh, ce_start = st, ce_end = en, ce_quote = qu\<rparr>
   }"

datatype item_state = ItemDue | ItemWaiting | ItemClosed | ItemUncertain

record commitment_item =
  ci_itemId :: jsstr
  ci_title :: jsstr
  ci_owner :: "jsstr option"
  ci_state :: item_state
  ci_dueAt :: "jsstr option"
  ci_changed :: bool
  ci_evidence :: "commitment_evidence list"
  ci_priorEvidence :: "commitment_evidence list"
  ci_uncertainty :: "jsstr option"
  ci_nextAction :: jsstr
  ci_replyText :: "jsstr option"

definition item_keys :: "jsstr list" where
  "item_keys = map js [''itemId'', ''title'', ''owner'', ''state'', ''dueAt'', ''changed'', ''evidence'', ''priorEvidence'',
     ''uncertainty'', ''nextAction'', ''replyText'']"

definition item_state_table :: "(jsstr \<times> item_state) list" where
  "item_state_table = [(js ''due'', ItemDue), (js ''waiting'', ItemWaiting), (js ''closed'', ItemClosed),
     (js ''uncertain'', ItemUncertain)]"

definition item_refined :: "commitment_item \<Rightarrow> bool" where
  "item_refined it \<longleftrightarrow> \<not> ((ci_state it = ItemUncertain \<or> ci_owner it = None) \<and> ci_uncertainty it = None)
     \<and> \<not> (ci_changed it \<and> ci_priorEvidence it = [])"

definition parse_item :: "'a handoff_env_scheme \<Rightarrow> json \<Rightarrow> commitment_item option" where
  "parse_item h v = do {
     guard (strict_object item_keys v);
     i \<leftarrow> parse_str identifier_ok (jget v (js ''itemId''));
     ti \<leftarrow> parse_str (nonBlank 160) (jget v (js ''title''));
     ow \<leftarrow> parse_nullable (parse_str (nonBlank 320)) (jget v (js ''owner''));
     st \<leftarrow> parse_enum item_state_table (jget v (js ''state''));
     du \<leftarrow> parse_nullable (parse_str (timestamp_ok h)) (jget v (js ''dueAt''));
     ch \<leftarrow> parse_bool (jget v (js ''changed''));
     ev \<leftarrow> parse_list 1 EVIDENCE_PER_ITEM parse_evidence (jget v (js ''evidence''));
     pe \<leftarrow> parse_list 0 EVIDENCE_PER_ITEM parse_evidence (jget v (js ''priorEvidence''));
     un \<leftarrow> parse_nullable (parse_str (nonBlank 500)) (jget v (js ''uncertainty''));
     na \<leftarrow> parse_str (nonBlank 500) (jget v (js ''nextAction''));
     re \<leftarrow> parse_nullable (parse_str (nonBlank REPLY_CHARS)) (jget v (js ''replyText''));
     let it = \<lparr>ci_itemId = i, ci_title = ti, ci_owner = ow, ci_state = st, ci_dueAt = du, ci_changed = ch, ci_evidence = ev,
       ci_priorEvidence = pe, ci_uncertainty = un, ci_nextAction = na, ci_replyText = re\<rparr>;
     guard (item_refined it);
     Some it
   }"

record commitment_ledger =
  cl_snapshotId :: jsstr
  cl_snapshotHash :: jsstr
  cl_items :: "commitment_item list"
  cl_omittedMessages :: "nat option"
  cl_truncatedMessageIds :: "jsstr list"
  cl_limitations :: "jsstr list"

definition ledger_coverage_keys :: "jsstr list" where
  "ledger_coverage_keys = map js [''scope'', ''omittedMessages'', ''truncatedMessageIds'', ''limitations'']"

definition parse_ledger_coverage :: "json option \<Rightarrow> (nat option \<times> jsstr list \<times> jsstr list) option" where
  "parse_ledger_coverage c = do {
     v \<leftarrow> c;
     guard (strict_object ledger_coverage_keys v);
     parse_str (\<lambda>s. s = js ''supplied-snapshot'') (jget v (js ''scope''));
     om \<leftarrow> parse_nullable (parse_nat 0 1000000) (jget v (js ''omittedMessages''));
     tr \<leftarrow> parse_list 0 MESSAGES (parse_str identifier_ok \<circ> Some) (jget v (js ''truncatedMessageIds''));
     li \<leftarrow> parse_list 0 12 (parse_str (nonBlank 500) \<circ> Some) (jget v (js ''limitations''));
     Some (om, tr, li)
   }"

definition ledger_keys :: "jsstr list" where
  "ledger_keys = map js [''workflowId'', ''snapshotId'', ''snapshotHash'', ''items'', ''coverage'']"

definition ledger_refined :: "commitment_ledger \<Rightarrow> bool" where
  "ledger_refined l \<longleftrightarrow> distinct (map ci_itemId (cl_items l)) \<and> distinct (cl_truncatedMessageIds l)"

definition parse_ledger :: "'a handoff_env_scheme \<Rightarrow> json \<Rightarrow> commitment_ledger option" where
  "parse_ledger h v = do {
     guard (strict_object ledger_keys v);
     parse_str (\<lambda>s. s = COMMITMENT_WORKFLOW_ID) (jget v (js ''workflowId''));
     i \<leftarrow> parse_str identifier_ok (jget v (js ''snapshotId''));
     sh \<leftarrow> parse_str hash_text (jget v (js ''snapshotHash''));
     its \<leftarrow> parse_list 0 LEDGER_ITEMS (parse_item h) (jget v (js ''items''));
     (om, tr, li) \<leftarrow> parse_ledger_coverage (jget v (js ''coverage''));
     let l = \<lparr>cl_snapshotId = i, cl_snapshotHash = sh, cl_items = its, cl_omittedMessages = om, cl_truncatedMessageIds = tr,
       cl_limitations = li\<rparr>;
     guard (ledger_refined l);
     Some l
   }"

section \<open>Hashing\<close>

text \<open>Writing a parsed value back, the keys in the order of the schema: this is the object zod returns.\<close>

definition nat_json :: "nat \<Rightarrow> json" where
  "nat_json n = JNum (JInt (int n))"

definition nullable_json :: "('a \<Rightarrow> json) \<Rightarrow> 'a option \<Rightarrow> json" where
  "nullable_json f x = (case x of None \<Rightarrow> JNull | Some y \<Rightarrow> f y)"

definition message_json :: "commitment_message \<Rightarrow> json" where
  "message_json m = JObj [(js ''id'', JStr (cm_id m)), (js ''threadId'', JStr (cm_threadId m)),
     (js ''subject'', JStr (cm_subject m)), (js ''sender'', JStr (cm_sender m)), (js ''to'', JStr (cm_to m)),
     (js ''timestamp'', JStr (cm_timestamp m)), (js ''body'', JStr (cm_body m)), (js ''bodyHash'', JStr (cm_bodyHash m)),
     (js ''truncated'', JBool (cm_truncated m)), (js ''omittedChars'', nullable_json nat_json (cm_omittedChars m))]"

fun source_name :: "snapshot_source \<Rightarrow> jsstr" where
  "source_name SyntheticFixture = js ''synthetic-fixture''"
| "source_name UserSupplied = js ''user-supplied''"

definition coverage_json :: "commitment_snapshot \<Rightarrow> json" where
  "coverage_json s = JObj [(js ''scope'', JStr (js ''supplied-snapshot'')), (js ''source'', JStr (source_name (cs_source s))),
     (js ''omittedMessages'', nullable_json nat_json (cs_omittedMessages s)), (js ''note'', JStr (cs_note s))]"

definition snapshot_head :: "commitment_snapshot \<Rightarrow> (jsstr \<times> json) list" where
  "snapshot_head s = [(js ''workflowId'', JStr COMMITMENT_WORKFLOW_ID), (js ''schemaVersion'', nat_json COMMITMENT_SCHEMA_VERSION),
     (js ''snapshotId'', JStr (cs_snapshotId s))]"

definition snapshot_rest :: "commitment_snapshot \<Rightarrow> (jsstr \<times> json) list" where
  "snapshot_rest s = [(js ''userAddress'', JStr (cs_userAddress s)), (js ''cutoff'', JStr (cs_cutoff s)),
     (js ''timezone'', JStr (cs_timezone s)), (js ''coverage'', coverage_json s),
     (js ''messages'', JArr (map message_json (cs_messages s)))]"

definition snapshot_json :: "commitment_snapshot \<Rightarrow> json" where
  "snapshot_json s = JObj (snapshot_head s @ [(js ''snapshotHash'', JStr (cs_snapshotHash s))] @ snapshot_rest s)"

definition ZERO_HASH :: jsstr where
  "ZERO_HASH = replicate 64 48"

text \<open>\<open>None\<close> is the error for text that is not well formed.\<close>

definition hashWorkflowText :: "'a handoff_env_scheme \<Rightarrow> jsstr \<Rightarrow> jsstr option" where
  "hashWorkflowText h s = (if is_well_formed s then Some (he_sha h (utf8 s)) else None)"

text \<open>On a snapshot that has been parsed, the second parse of the source, under \<open>ZERO_HASH\<close>, changes nothing.\<close>

definition hashCommitmentSnapshot :: "'a handoff_env_scheme \<Rightarrow> commitment_snapshot \<Rightarrow> jsstr option" where
  "hashCommitmentSnapshot h s =
     hashWorkflowText h (js ''habenula:commitment-snapshot:v1'' @ [10]
       @ stringify (he_num h) (JObj (snapshot_head s @ snapshot_rest s)))"

section \<open>Reports\<close>

record validation_issue =
  vi_code :: jsstr
  vi_path :: jsstr
  vi_message :: jsstr

record validation_report =
  vr_valid :: bool
  vr_issues :: "validation_issue list"

datatype 'v validation_result = Accepted (accepted_value: 'v) (result_report: validation_report)
  | Refused (result_report: validation_report)

definition issue :: "string \<Rightarrow> jsstr \<Rightarrow> string \<Rightarrow> validation_issue" where
  "issue code path message = \<lparr>vi_code = js code, vi_path = path, vi_message = js message\<rparr>"

definition report :: "validation_issue list \<Rightarrow> validation_report" where
  "report issues = \<lparr>vr_valid = (issues = []), vr_issues = take ISSUES issues\<rparr>"

definition failure :: "validation_issue list \<Rightarrow> 'v validation_result" where
  "failure issues = Refused (report issues)"

definition diagnostic :: "jsstr \<Rightarrow> jsstr" where
  "diagnostic v =
     (let b = take 500 (to_well_formed v);
          bounded = (if b \<noteq> [] \<and> is_high (last b) then butlast b else b)
      in if bounded = [] then js ''Validation failed'' else bounded)"

fun join_dots :: "jsstr list \<Rightarrow> jsstr" where
  "join_dots [] = []"
| "join_dots [x] = x"
| "join_dots (x # y # xs) = x @ [46] @ join_dots (y # xs)"

definition schemaIssues :: "(jsstr list \<times> jsstr) list \<Rightarrow> validation_issue list" where
  "schemaIssues es =
     map (\<lambda>(path, message). \<lparr>vi_code = js ''schema'', vi_path = join_dots path, vi_message = diagnostic message\<rparr>)
       (take ISSUES es)"

section \<open>validateCommitmentSnapshot, createCommitmentSnapshot\<close>

text \<open>The size of an array member, looked at before the value is parsed.\<close>

definition array_member :: "json \<Rightarrow> jsstr \<Rightarrow> nat" where
  "array_member v k = (case jget v k of Some (JArr xs) \<Rightarrow> length xs | _ \<Rightarrow> 0)"

definition source_issue :: "'a handoff_env_scheme \<Rightarrow> nat \<Rightarrow> commitment_message \<Rightarrow> validation_issue list" where
  "source_issue h i m =
     (if hashWorkflowText h (cm_body m) \<noteq> Some (cm_bodyHash m)
      then [issue ''source_hash'' (js ''messages.'' @ js_of_nat i @ js ''.bodyHash'') ''Source body hash mismatch''] else [])"

definition snapshot_issues :: "'a handoff_env_scheme \<Rightarrow> commitment_snapshot \<Rightarrow> validation_issue list" where
  "snapshot_issues h s =
     (if he_timezone h (cs_timezone s) then [] else [issue ''timezone'' (js ''timezone'') ''Unknown IANA timezone''])
     @ concat (map (\<lambda>(i, m). source_issue h i m) (enumerate 0 (cs_messages s)))
     @ (if hashCommitmentSnapshot h s \<noteq> Some (cs_snapshotHash s)
        then [issue ''snapshot_hash'' (js ''snapshotHash'') ''Snapshot hash mismatch''] else [])"

definition validateCommitmentSnapshot :: "'a handoff_env_scheme \<Rightarrow> json \<Rightarrow> commitment_snapshot validation_result" where
  "validateCommitmentSnapshot h raw =
     (if array_member raw (js ''messages'') > MESSAGES
      then failure [issue ''bounds'' (js ''messages'') ''Snapshot message bound exceeded'']
      else case parse_snapshot h raw of
        None \<Rightarrow> failure (schemaIssues (he_snapshotIssues h raw))
      | Some s \<Rightarrow> (case snapshot_issues h s of [] \<Rightarrow> Accepted s (report []) | issues \<Rightarrow> failure issues))"

text \<open>A draft is a snapshot without its hashes; the hash fields of the record are not looked at.\<close>

definition hashed_message :: "'a handoff_env_scheme \<Rightarrow> commitment_message \<Rightarrow> commitment_message option" where
  "hashed_message h m = map_option (\<lambda>bh. m\<lparr>cm_bodyHash := bh\<rparr>) (hashWorkflowText h (cm_body m))"

definition zeroed :: "commitment_snapshot \<Rightarrow> commitment_snapshot" where
  "zeroed d = d\<lparr>cs_snapshotHash := ZERO_HASH, cs_messages := map (\<lambda>m. m\<lparr>cm_bodyHash := ZERO_HASH\<rparr>) (cs_messages d)\<rparr>"

definition createCommitmentSnapshot :: "'a handoff_env_scheme \<Rightarrow> commitment_snapshot \<Rightarrow> commitment_snapshot option" where
  "createCommitmentSnapshot h draft = do {
     guard (length (cs_messages draft) \<le> MESSAGES);
     c \<leftarrow> parse_snapshot h (snapshot_json (zeroed draft));
     ms \<leftarrow> those (map (hashed_message h) (cs_messages c));
     sh \<leftarrow> hashCommitmentSnapshot h (c\<lparr>cs_messages := ms\<rparr>);
     (case validateCommitmentSnapshot h (snapshot_json (c\<lparr>cs_messages := ms, cs_snapshotHash := sh\<rparr>)) of
        Accepted v _ \<Rightarrow> Some v | Refused _ \<Rightarrow> None)
   }"

section \<open>createCommitmentSourceIndex\<close>

definition INDEXED_LINES :: nat where "INDEXED_LINES = 256"

definition INDEX_BYTES :: nat where "INDEX_BYTES = 128 * 1024"

definition line_break :: "u16 \<Rightarrow> bool" where
  "line_break c \<longleftrightarrow> c \<in> {13, 10, 0x85, 0x2028, 0x2029}"

text \<open>The loop over the body: the lines kept so far and the count of all lines.\<close>

definition append_line :: "nat \<Rightarrow> nat \<Rightarrow> (nat \<times> nat) list \<times> nat \<Rightarrow> (nat \<times> nat) list \<times> nat" where
  "append_line start stop acc =
     (case acc of (lines, n) \<Rightarrow> (if length lines < INDEXED_LINES then lines @ [(start, stop)] else lines, n + 1))"

fun line_loop :: "nat \<Rightarrow> nat \<Rightarrow> jsstr \<Rightarrow> (nat \<times> nat) list \<times> nat \<Rightarrow> (nat \<times> nat) list \<times> nat" where
  "line_loop offset start [] acc = append_line start offset acc"
| "line_loop offset start (c # s) acc =
     (if \<not> line_break c then line_loop (offset + 1) start s acc
      else if c = 13 \<and> s \<noteq> [] \<and> hd s = 10 then line_loop (offset + 2) (offset + 2) (tl s) (append_line start offset acc)
      else line_loop (offset + 1) (offset + 1) s (append_line start offset acc))"

record message_index =
  mi_messageId :: jsstr
  mi_bodyHash :: jsstr
  mi_fullBody :: "nat \<times> nat"
  mi_lineCount :: nat
  mi_lines :: "(nat \<times> nat) list"
  mi_omittedLineCount :: nat

definition index_message :: "commitment_message \<Rightarrow> message_index" where
  "index_message m =
     (case line_loop 0 0 (cm_body m) ([], 0) of (lines, n) \<Rightarrow>
        \<lparr>mi_messageId = cm_id m, mi_bodyHash = cm_bodyHash m, mi_fullBody = (0, length (cm_body m)), mi_lineCount = n,
         mi_lines = lines, mi_omittedLineCount = n - length lines\<rparr>)"

record source_index =
  si_snapshotId :: jsstr
  si_snapshotHash :: jsstr
  si_lineIndexComplete :: bool
  si_messages :: "message_index list"

definition range_json :: "nat \<times> nat \<Rightarrow> json" where
  "range_json r = JArr [nat_json (fst r), nat_json (snd r)]"

definition message_index_json :: "message_index \<Rightarrow> json" where
  "message_index_json m = JObj [(js ''messageId'', JStr (mi_messageId m)), (js ''bodyHash'', JStr (mi_bodyHash m)),
     (js ''fullBody'', range_json (mi_fullBody m)), (js ''lineCount'', nat_json (mi_lineCount m)),
     (js ''lines'', JArr (map range_json (mi_lines m))), (js ''omittedLineCount'', nat_json (mi_omittedLineCount m))]"

definition source_index_json :: "source_index \<Rightarrow> json" where
  "source_index_json x = JObj [(js ''schemaVersion'', nat_json 1), (js ''kind'', JStr (js ''source-offset-index'')),
     (js ''snapshotId'', JStr (si_snapshotId x)), (js ''snapshotHash'', JStr (si_snapshotHash x)),
     (js ''spanUnit'', JStr (js ''utf16-code-units-half-open'')), (js ''lineBreaks'', JStr (js ''CRLF|CR|LF|NEL|LS|PS'')),
     (js ''lineLimitPerMessage'', nat_json INDEXED_LINES), (js ''lineIndexComplete'', JBool (si_lineIndexComplete x)),
     (js ''messages'', JArr (map message_index_json (si_messages x)))]"

definition createCommitmentSourceIndex :: "'a handoff_env_scheme \<Rightarrow> json \<Rightarrow> source_index option" where
  "createCommitmentSourceIndex h input =
     (case validateCommitmentSnapshot h input of Refused _ \<Rightarrow> None
      | Accepted s _ \<Rightarrow>
        (let ms = map index_message (cs_messages s);
             x = \<lparr>si_snapshotId = cs_snapshotId s, si_snapshotHash = cs_snapshotHash s,
                  si_lineIndexComplete = list_all (\<lambda>m. mi_omittedLineCount m = 0) ms, si_messages = ms\<rparr>
         in if length (utf8 (stringify (he_num h) (source_index_json x))) > INDEX_BYTES then None else Some x))"

section \<open>validateCommitmentLedger\<close>

definition isSurrogateBoundary :: "jsstr \<Rightarrow> nat \<Rightarrow> bool" where
  "isSurrogateBoundary s offset \<longleftrightarrow>
     offset = 0 \<or> offset \<ge> length s \<or> \<not> (is_high (s ! (offset - 1)) \<and> is_low (s ! offset))"

definition equalStringSets :: "jsstr list \<Rightarrow> jsstr list \<Rightarrow> bool" where
  "equalStringSets a b \<longleftrightarrow> length a = length b \<and> sort a = sort b"

definition js_slice :: "nat \<Rightarrow> nat \<Rightarrow> jsstr \<Rightarrow> jsstr" where
  "js_slice start stop s = take (stop - start) (drop start s)"

definition evidence_issues :: "commitment_snapshot \<Rightarrow> jsstr \<Rightarrow> commitment_evidence \<Rightarrow> validation_issue list" where
  "evidence_issues s path e =
     (case map_of (rev (map (\<lambda>m. (cm_id m, m)) (cs_messages s))) (ce_messageId e) of
        None \<Rightarrow> [issue ''source_membership'' path ''Evidence source is not in this snapshot'']
      | Some src \<Rightarrow>
        (if cm_bodyHash src \<noteq> ce_bodyHash e then [issue ''evidence_hash'' path ''Evidence body hash mismatch''] else [])
        @ (if ce_end e > length (cm_body src) \<or> \<not> isSurrogateBoundary (cm_body src) (ce_start e)
              \<or> \<not> isSurrogateBoundary (cm_body src) (ce_end e)
           then [issue ''span'' path ''Span exceeds the source or splits a UTF-16 surrogate pair'']
           else if js_slice (ce_start e) (ce_end e) (cm_body src) \<noteq> ce_quote e
           then [issue ''quote'' path ''Quote is not the exact text at the supplied UTF-16 span''] else []))"

definition evidence_path :: "nat \<Rightarrow> string \<Rightarrow> nat \<Rightarrow> jsstr" where
  "evidence_path i field j = js ''items.'' @ js_of_nat i @ js ''.'' @ js field @ js ''.'' @ js_of_nat j"

definition field_issues ::
  "commitment_snapshot \<Rightarrow> nat \<Rightarrow> string \<Rightarrow> commitment_evidence list \<Rightarrow> validation_issue list" where
  "field_issues s i field es = concat (map (\<lambda>(j, e). evidence_issues s (evidence_path i field j) e) (enumerate 0 es))"

definition item_issues :: "commitment_snapshot \<Rightarrow> nat \<Rightarrow> commitment_item \<Rightarrow> validation_issue list" where
  "item_issues s i it = field_issues s i ''evidence'' (ci_evidence it) @ field_issues s i ''priorEvidence'' (ci_priorEvidence it)"

definition truncated_ids :: "commitment_snapshot \<Rightarrow> jsstr list" where
  "truncated_ids s = map cm_id (filter cm_truncated (cs_messages s))"

definition coverage_issues :: "commitment_snapshot \<Rightarrow> commitment_ledger \<Rightarrow> validation_issue list" where
  "coverage_issues s l =
     (if \<not> equalStringSets (cl_truncatedMessageIds l) (truncated_ids s) \<or> cl_omittedMessages l \<noteq> cs_omittedMessages s
      then [issue ''coverage'' (js ''coverage'') ''Reported omissions/truncation do not match the snapshot''] else [])
     @ (if (truncated_ids s \<noteq> [] \<or> cs_omittedMessages s \<noteq> Some 0) \<and> cl_limitations l = []
        then [issue ''coverage'' (js ''coverage.limitations'') ''Incomplete or unknown coverage needs an explicit limitation'']
        else [])"

definition ledger_issues :: "commitment_snapshot \<Rightarrow> commitment_ledger \<Rightarrow> validation_issue list" where
  "ledger_issues s l =
     (if cl_snapshotId l \<noteq> cs_snapshotId s \<or> cl_snapshotHash l \<noteq> cs_snapshotHash s
      then [issue ''source_binding'' (js ''snapshotHash'') ''Ledger is not bound to this snapshot''] else [])
     @ concat (map (\<lambda>(i, it). item_issues s i it) (enumerate 0 (cl_items l)))
     @ coverage_issues s l"

definition under_snapshot :: "validation_issue \<Rightarrow> validation_issue" where
  "under_snapshot x = x\<lparr>vi_path := js ''snapshot.'' @ vi_path x\<rparr>"

definition validateCommitmentLedger ::
  "'a handoff_env_scheme \<Rightarrow> json \<Rightarrow> json \<Rightarrow> commitment_ledger validation_result" where
  "validateCommitmentLedger h input raw =
     (case validateCommitmentSnapshot h input of
        Refused r \<Rightarrow> failure (map under_snapshot (vr_issues r))
      | Accepted s _ \<Rightarrow>
        if array_member raw (js ''items'') > LEDGER_ITEMS
        then failure [issue ''bounds'' (js ''items'') ''Ledger item bound exceeded'']
        else (case parse_ledger h raw of
            None \<Rightarrow> failure (schemaIssues (he_ledgerIssues h raw))
          | Some l \<Rightarrow> (case ledger_issues s l of [] \<Rightarrow> Accepted l (report []) | issues \<Rightarrow> failure issues)))"

section \<open>Decoding\<close>

named_theorems schema_simps \<open>the field schemas on values of the right shape\<close>

lemma guard_Some [schema_simps]: "guard b = Some u \<longleftrightarrow> b"
  by (simp add: guard_def)

lemma guard_True [simp]: "guard True = Some ()"
  by (simp add: guard_def)

lemma parse_str_Some [schema_simps]: "parse_str P v = Some s \<longleftrightarrow> v = Some (JStr s) \<and> P s"
  by (cases "(P, v)" rule: parse_str.cases) auto

lemma parse_bool_Some [schema_simps]: "parse_bool v = Some b \<longleftrightarrow> v = Some (JBool b)"
  by (cases v rule: parse_bool.cases) auto

lemma safe_nat_json [simp]: "safe_nat (nat_json n) = (if int n \<le> max_safe then Some n else None)"
proof -
  have "integral (rat_of_nat n)" by (simp add: integral_def)
  moreover have "rat_of_nat n \<le> of_int max_safe \<longleftrightarrow> int n \<le> max_safe" by linarith
  ultimately show ?thesis by (simp add: nat_json_def)
qed

lemma parse_nat_range: "parse_nat mn mx v = Some n \<Longrightarrow> mn \<le> n \<and> n \<le> mx"
  by (cases "(mn, mx, v)" rule: parse_nat.cases) (auto split: option.splits if_splits)

lemma parse_nat_json: "int mx \<le> max_safe \<Longrightarrow> mn \<le> n \<Longrightarrow> n \<le> mx \<Longrightarrow> parse_nat mn mx (Some (nat_json n)) = Some n"
  by simp

lemma nat_json_not_null [simp]: "nat_json n \<noteq> JNull"
  by (simp add: nat_json_def)

lemma parse_nullable_Some: "parse_nullable f v = Some x \<Longrightarrow> x = None \<or> (\<exists>y. x = Some y \<and> f v = Some y)"
  by (cases "(f, v)" rule: parse_nullable.cases) auto

lemma parse_nullable_json:
  "(\<And>y. x = Some y \<Longrightarrow> g y \<noteq> JNull \<and> f (Some (g y)) = Some y) \<Longrightarrow> parse_nullable f (Some (nullable_json g x)) = Some x"
  by (cases x; cases "g (the x)") (auto simp: nullable_json_def)

lemma those_Some: "those xs = Some ys \<longleftrightarrow> xs = map Some ys"
  by (induction xs arbitrary: ys) (auto split: option.splits)

lemma those_map_Some: "those (map f xs) = Some ys \<longleftrightarrow> length xs = length ys \<and> (\<forall>i < length xs. f (xs ! i) = Some (ys ! i))"
  by (auto simp: those_Some list_eq_iff_nth_eq)

lemma parse_list_Some:
  assumes "parse_list mn mx f v = Some ys"
  shows "mn \<le> length ys \<and> length ys \<le> mx \<and> (\<forall>y \<in> set ys. \<exists>x. f x = Some y)"
  using assms
  by (cases "(mn, mx, f, v)" rule: parse_list.cases) (fastforce simp: those_map_Some in_set_conv_nth split: if_splits)+

lemma parse_list_json:
  assumes "mn \<le> length ys" "length ys \<le> mx" "\<And>y. y \<in> set ys \<Longrightarrow> f (g y) = Some y"
  shows "parse_list mn mx f (Some (JArr (map g ys))) = Some ys"
  using assms by (simp add: those_map_Some)

lemma parse_enum_Some: "parse_enum t v = Some x \<longleftrightarrow> (\<exists>s. v = Some (JStr s) \<and> map_of t s = Some x)"
  by (auto simp: parse_enum_def bind_eq_Some_conv parse_str_Some)

declare js_eq_iff [simp]

text \<open>What the schemas say of the records.\<close>

definition message_ok :: "'a handoff_env_scheme \<Rightarrow> commitment_message \<Rightarrow> bool" where
  "message_ok h m \<longleftrightarrow> identifier_ok (cm_id m) \<and> identifier_ok (cm_threadId m) \<and> text_ok 240 0 (cm_subject m)
     \<and> nonBlank 320 (cm_sender m) \<and> text_ok 640 0 (cm_to m) \<and> timestamp_ok h (cm_timestamp m)
     \<and> text_ok BODY_CHARS 0 (cm_body m) \<and> hash_text (cm_bodyHash m)
     \<and> (cm_omittedChars m = None \<or> the (cm_omittedChars m) \<le> 100000000)
     \<and> (cm_truncated m \<longleftrightarrow> cm_omittedChars m \<noteq> Some 0)"

definition snapshot_ok :: "'a handoff_env_scheme \<Rightarrow> commitment_snapshot \<Rightarrow> bool" where
  "snapshot_ok h s \<longleftrightarrow> identifier_ok (cs_snapshotId s) \<and> hash_text (cs_snapshotHash s)
     \<and> text_ok 254 3 (cs_userAddress s) \<and> bare_address (cs_userAddress s) \<and> timestamp_ok h (cs_cutoff s)
     \<and> nonBlank 80 (cs_timezone s) \<and> (cs_omittedMessages s = None \<or> the (cs_omittedMessages s) \<le> 1000000)
     \<and> text_ok 500 0 (cs_note s) \<and> length (cs_messages s) \<le> MESSAGES \<and> (\<forall>m \<in> set (cs_messages s). message_ok h m)
     \<and> snapshot_refined h s"

lemma parse_message_ok: "parse_message h v = Some m \<Longrightarrow> message_ok h m"
  by (auto simp: parse_message_def bind_eq_Some_conv schema_simps message_ok_def dest!: parse_nullable_Some parse_nat_range)

lemma parse_message_json: "message_ok h m \<Longrightarrow> parse_message h (message_json m) = Some m"
proof -
  assume m: "message_ok h m"
  have "parse_nullable (parse_nat 0 100000000) (Some (nullable_json nat_json (cm_omittedChars m))) = Some (cm_omittedChars m)"
    using m by (intro parse_nullable_json) (auto simp: message_ok_def max_safe_def)
  then show ?thesis
    using m by (simp add: parse_message_def message_json_def message_keys_def message_ok_def)
qed

lemma parse_coverage_ok:
  "parse_coverage c = Some (so, om, nt) \<Longrightarrow> (om = None \<or> the om \<le> 1000000) \<and> text_ok 500 0 nt"
  by (auto simp: parse_coverage_def bind_eq_Some_conv schema_simps dest!: parse_nullable_Some parse_nat_range)

lemma parse_coverage_json:
  assumes "snapshot_ok h s"
  shows "parse_coverage (Some (coverage_json s)) = Some (cs_source s, cs_omittedMessages s, cs_note s)"
proof -
  have "parse_nullable (parse_nat 0 1000000) (Some (nullable_json nat_json (cs_omittedMessages s))) = Some (cs_omittedMessages s)"
    using assms by (intro parse_nullable_json) (auto simp: snapshot_ok_def max_safe_def)
  then show ?thesis
    using assms by (cases "cs_source s")
      (simp_all add: parse_coverage_def coverage_json_def coverage_keys_def snapshot_ok_def parse_enum_def source_table_def)
qed

lemma parse_snapshot_ok: "parse_snapshot h v = Some s \<Longrightarrow> snapshot_ok h s"
  by (auto simp: parse_snapshot_def bind_eq_Some_conv schema_simps snapshot_ok_def Let_def
      dest!: parse_coverage_ok parse_list_Some dest: parse_message_ok)

lemma parse_snapshot_json:
  assumes "snapshot_ok h s"
  shows "parse_snapshot h (snapshot_json s) = Some s"
proof -
  have "parse_list 0 MESSAGES (parse_message h) (Some (JArr (map message_json (cs_messages s)))) = Some (cs_messages s)"
    using assms by (intro parse_list_json) (auto simp: snapshot_ok_def parse_message_json)
  moreover have "safe_nat (nat_json COMMITMENT_SCHEMA_VERSION) = Some COMMITMENT_SCHEMA_VERSION"
    by (simp add: COMMITMENT_SCHEMA_VERSION_def max_safe_def)
  ultimately show ?thesis
    using assms parse_coverage_json[OF assms]
    by (simp add: parse_snapshot_def snapshot_json_def snapshot_head_def snapshot_rest_def snapshot_keys_def snapshot_ok_def Let_def snapshot_refined_def)
qed

text \<open>Whatever is read from a written value is that value.\<close>

lemma parse_nat_written: "parse_nat mn mx (Some (nat_json n)) = Some k \<Longrightarrow> k = n"
  by (simp split: if_splits)

lemma parse_nullable_written:
  assumes "parse_nullable f (Some (nullable_json g x)) = Some y" "\<And>z w. f (Some (g z)) = Some w \<Longrightarrow> w = z" "\<And>z. g z \<noteq> JNull"
  shows "y = x"
  using assms by (cases x; cases "g (the x)") (auto simp: nullable_json_def)

lemma parse_message_written: "parse_message h (message_json m) = Some k \<Longrightarrow> k = m"
  by (auto simp: parse_message_def message_json_def bind_eq_Some_conv schema_simps message_keys_def
      split: if_splits dest: parse_nullable_written[OF _ parse_nat_written nat_json_not_null])

lemma parse_messages_written: "those (map (parse_message h \<circ> message_json) xs) = Some ys \<Longrightarrow> ys = xs"
  by (auto simp: those_map_Some list_eq_iff_nth_eq dest: parse_message_written)

lemma parse_coverage_written:
  "parse_coverage (Some (coverage_json s)) = Some (so, om, nt) \<Longrightarrow> so = cs_source s \<and> om = cs_omittedMessages s \<and> nt = cs_note s"
  by (cases "cs_source s")
    (auto simp: parse_coverage_def coverage_json_def bind_eq_Some_conv schema_simps coverage_keys_def parse_enum_Some source_table_def
      split: if_splits dest: parse_nullable_written[OF _ parse_nat_written nat_json_not_null])

lemma parse_snapshot_written: "parse_snapshot h (snapshot_json s) = Some c \<Longrightarrow> c = s"
  by (auto simp: parse_snapshot_def snapshot_json_def snapshot_head_def snapshot_rest_def bind_eq_Some_conv schema_simps Let_def
      snapshot_keys_def split: if_splits dest!: parse_coverage_written parse_messages_written)

subsection \<open>Hashing is total on what has been parsed\<close>

lemma well_formed_escape_unit: "is_well_formed (escape_unit c)"
proof -
  have "ascii (escape_unit c) \<or> escape_unit c = [c] \<and> \<not> is_surrogate c"
    unfolding escape_unit_def using unicode_escape_ascii(1)[of c] by (simp add: ascii_def)
  then show ?thesis using ascii_well_formed by auto
qed

lemma well_formed_escape: "is_well_formed (escape_units s)"
proof (induction s rule: escape_units.induct)
  case (3 c d s)
  then show ?case
    by (auto simp: well_formed_escape_unit intro: is_well_formed_append)
qed (simp_all add: well_formed_escape_unit)

lemma well_formed_quote: "is_well_formed (json_quote s)"
proof -
  have "is_well_formed [34]" by (simp add: is_surrogate_def is_high_def is_low_def)
  then show ?thesis unfolding json_quote_def by (intro is_well_formed_append well_formed_escape)
qed

lemma well_formed_commas: "(\<And>x. x \<in> set xs \<Longrightarrow> is_well_formed x) \<Longrightarrow> is_well_formed (commas xs)"
  by (induction xs rule: commas.induct) (auto simp: is_well_formed_Cons punctuation intro!: is_well_formed_append)

lemma well_formed_stringify: "(\<And>q. ascii (sf q)) \<Longrightarrow> is_well_formed (stringify sf v)"
proof (induction sf v rule: stringify.induct)
  case (3 sf n)
  then show ?case using ascii_num_to_string[of sf n] ascii_words by (simp add: ascii_well_formed)
next
  case (5 sf xs)
  then show ?case
    by (auto simp: is_well_formed_Cons punctuation intro!: is_well_formed_append well_formed_commas)
next
  case (6 sf ms)
  then show ?case
    by (auto simp: is_well_formed_Cons punctuation intro!: is_well_formed_append well_formed_commas well_formed_quote)
qed (use ascii_words in \<open>auto simp: well_formed_quote ascii_well_formed\<close>)

lemma hashCommitmentSnapshot_total:
  assumes "\<And>q. ascii (he_num h q)"
  shows "\<exists>x. hashCommitmentSnapshot h s = Some x \<and> (\<exists>b. x = he_sha h b)"
proof -
  have "ascii (js ''habenula:commitment-snapshot:v1'' @ [10])" by code_simp
  then have "is_well_formed ((js ''habenula:commitment-snapshot:v1'' @ [10])
      @ stringify (he_num h) (JObj (snapshot_head s @ snapshot_rest s)))"
    by (intro is_well_formed_append ascii_well_formed well_formed_stringify assms)
  then show ?thesis by (auto simp: hashCommitmentSnapshot_def hashWorkflowText_def)
qed

lemma message_hashable: "message_ok h m \<Longrightarrow> hashWorkflowText h (cm_body m) = Some (he_sha h (utf8 (cm_body m)))"
  by (simp add: message_ok_def text_ok_def hashWorkflowText_def)

section \<open>Accepted snapshots\<close>

lemma concat_enumerate_Nil:
  "concat (map (\<lambda>(i, x). f i x) (enumerate n xs)) = [] \<longleftrightarrow> (\<forall>k < length xs. f (n + k) (xs ! k) = [])"
proof -
  have "concat (map (\<lambda>(i, x). f i x) (enumerate n xs)) = [] \<longleftrightarrow> (\<forall>p \<in> set (enumerate n xs). f (fst p) (snd p) = [])"
    by (auto simp: concat_eq_Nil_conv)
  then show ?thesis by (auto simp: set_conv_nth nth_enumerate_eq)
qed

lemma snapshot_issues_Nil:
  "snapshot_issues h s = [] \<longleftrightarrow> he_timezone h (cs_timezone s)
     \<and> (\<forall>m \<in> set (cs_messages s). hashWorkflowText h (cm_body m) = Some (cm_bodyHash m))
     \<and> hashCommitmentSnapshot h s = Some (cs_snapshotHash s)"
proof -
  have "concat (map (\<lambda>(i, m). source_issue h i m) (enumerate 0 (cs_messages s))) = []
      \<longleftrightarrow> (\<forall>m \<in> set (cs_messages s). hashWorkflowText h (cm_body m) = Some (cm_bodyHash m))"
    unfolding concat_enumerate_Nil by (auto simp: source_issue_def all_set_conv_all_nth split: if_splits)
  then show ?thesis unfolding snapshot_issues_def append_is_Nil_conv by auto
qed

lemma validateCommitmentSnapshot_Accepted:
  "validateCommitmentSnapshot h raw = Accepted s r \<longleftrightarrow>
     parse_snapshot h raw = Some s \<and> snapshot_issues h s = [] \<and> r = report []"
proof -
  have "array_member raw (js ''messages'') \<le> MESSAGES" if "parse_snapshot h raw = Some s"
    using that by (auto simp: parse_snapshot_def bind_eq_Some_conv array_member_def split: option.splits json.splits if_splits)
  then show ?thesis
    by (auto simp: validateCommitmentSnapshot_def failure_def split: option.splits list.splits)
qed

definition sound_snapshot :: "'a handoff_env_scheme \<Rightarrow> commitment_snapshot \<Rightarrow> bool" where
  "sound_snapshot h s \<longleftrightarrow> snapshot_ok h s \<and> snapshot_issues h s = []"

lemma accepted_sound: "validateCommitmentSnapshot h raw = Accepted s r \<Longrightarrow> sound_snapshot h s"
  by (auto simp: validateCommitmentSnapshot_Accepted sound_snapshot_def dest: parse_snapshot_ok)

lemma sound_accepted: "sound_snapshot h s \<Longrightarrow> validateCommitmentSnapshot h (snapshot_json s) = Accepted s (report [])"
  by (simp add: validateCommitmentSnapshot_Accepted sound_snapshot_def parse_snapshot_json)

subsection \<open>Created snapshots\<close>

lemma zero_hash_ok: "hash_text ZERO_HASH"
  by (simp add: ZERO_HASH_def hash_text_def)

lemma hash_message_ok: "message_ok h m \<Longrightarrow> hash_text x \<Longrightarrow> message_ok h (m\<lparr>cm_bodyHash := x\<rparr>)"
  by (simp add: message_ok_def)

lemma snapshot_refined_hashes:
  "snapshot_refined h (s\<lparr>cs_messages := map (\<lambda>m. m\<lparr>cm_bodyHash := f m\<rparr>) (cs_messages s), cs_snapshotHash := x\<rparr>)
   = snapshot_refined h s"
  by (simp add: snapshot_refined_def comp_def)

text \<open>A draft the schema takes, whatever is in its hash fields.\<close>

definition draft_ok :: "'a handoff_env_scheme \<Rightarrow> commitment_snapshot \<Rightarrow> bool" where
  "draft_ok h d \<longleftrightarrow> snapshot_ok h (zeroed d) \<and> he_timezone h (cs_timezone d)"

definition with_hashes :: "'a handoff_env_scheme \<Rightarrow> commitment_snapshot \<Rightarrow> commitment_snapshot" where
  "with_hashes h d =
     (let s = d\<lparr>cs_messages := map (\<lambda>m. m\<lparr>cm_bodyHash := he_sha h (utf8 (cm_body m))\<rparr>) (cs_messages d)\<rparr>
      in s\<lparr>cs_snapshotHash := the (hashCommitmentSnapshot h s)\<rparr>)"

lemma those_hashed:
  assumes "\<forall>m \<in> set ms. message_ok h m"
  shows "those (map (hashed_message h) ms) = Some (map (\<lambda>m. m\<lparr>cm_bodyHash := he_sha h (utf8 (cm_body m))\<rparr>) ms)"
proof -
  have "hashed_message h m = Some (m\<lparr>cm_bodyHash := he_sha h (utf8 (cm_body m))\<rparr>)" if "m \<in> set ms" for m
    using assms that by (simp add: hashed_message_def message_hashable)
  then show ?thesis by (simp add: those_map_Some)
qed

lemma hashCommitmentSnapshot_hash [simp]:
  "hashCommitmentSnapshot h (s\<lparr>cs_snapshotHash := x\<rparr>) = hashCommitmentSnapshot h s"
  "hashCommitmentSnapshot h (s\<lparr>cs_snapshotHash := x, cs_messages := ms\<rparr>) = hashCommitmentSnapshot h (s\<lparr>cs_messages := ms\<rparr>)"
  by (simp_all add: hashCommitmentSnapshot_def snapshot_head_def snapshot_rest_def coverage_json_def)

lemma with_hashes_zeroed: "with_hashes h (zeroed d) = with_hashes h d" "zeroed (with_hashes h d) = zeroed d"
proof -
  have "map ((\<lambda>m. m\<lparr>cm_bodyHash := he_sha h (utf8 (cm_body m))\<rparr>) \<circ> (\<lambda>m. m\<lparr>cm_bodyHash := ZERO_HASH\<rparr>)) ms
      = map (\<lambda>m. m\<lparr>cm_bodyHash := he_sha h (utf8 (cm_body m))\<rparr>) ms" for ms
    by (simp add: comp_def)
  then show "with_hashes h (zeroed d) = with_hashes h d" by (simp add: with_hashes_def zeroed_def Let_def comp_def)
  show "zeroed (with_hashes h d) = zeroed d" by (simp add: with_hashes_def zeroed_def Let_def comp_def)
qed

lemma with_hashes_eq:
  assumes "ms = map (\<lambda>m. m\<lparr>cm_bodyHash := he_sha h (utf8 (cm_body m))\<rparr>) (cs_messages z)"
    and "hashCommitmentSnapshot h (z\<lparr>cs_messages := ms\<rparr>) = Some x"
  shows "z\<lparr>cs_messages := ms, cs_snapshotHash := x\<rparr> = with_hashes h z"
  unfolding with_hashes_def Let_def assms(1)[symmetric] assms(2) option.sel ..

lemma with_hashes_sound:
  assumes "\<And>q. ascii (he_num h q)" "\<And>b. hash_text (he_sha h b)" "draft_ok h d"
  shows "sound_snapshot h (with_hashes h d)"
proof -
  let ?z = "zeroed d"
  let ?s = "with_hashes h ?z"
  have z: "snapshot_ok h ?z" and tz: "he_timezone h (cs_timezone ?z)"
    using assms(3) by (auto simp: draft_ok_def zeroed_def)
  obtain x where x: "hashCommitmentSnapshot h (?z\<lparr>cs_messages := cs_messages ?s\<rparr>) = Some x" "hash_text x"
    using hashCommitmentSnapshot_total[OF assms(1)] assms(2) by metis
  have s: "?s = ?z\<lparr>cs_messages := map (\<lambda>m. m\<lparr>cm_bodyHash := he_sha h (utf8 (cm_body m))\<rparr>) (cs_messages ?z),
      cs_snapshotHash := x\<rparr>"
    using x(1) by (simp add: with_hashes_def Let_def)
  have m: "\<forall>m \<in> set (cs_messages ?z). message_ok h m" using z by (simp add: snapshot_ok_def)
  have "snapshot_ok h ?s"
    unfolding s using z x(2) assms(2) snapshot_refined_hashes[of h _ _ ?z]
    by (auto simp: snapshot_ok_def intro: hash_message_ok)
  moreover have "snapshot_issues h ?s = []"
    unfolding snapshot_issues_Nil s using tz m x(1) by (auto simp: message_hashable with_hashes_def Let_def)
  ultimately show ?thesis by (simp add: sound_snapshot_def with_hashes_zeroed)
qed

lemma create_with_hashes:
  assumes "createCommitmentSnapshot h d = Some s"
  shows "sound_snapshot h s" "s = with_hashes h d"
proof -
  obtain c ms sh where c: "parse_snapshot h (snapshot_json (zeroed d)) = Some c"
      "those (map (hashed_message h) (cs_messages c)) = Some ms"
      "hashCommitmentSnapshot h (c\<lparr>cs_messages := ms\<rparr>) = Some sh"
      and v: "(case validateCommitmentSnapshot h (snapshot_json (c\<lparr>cs_messages := ms, cs_snapshotHash := sh\<rparr>)) of
        Accepted v _ \<Rightarrow> Some v | Refused _ \<Rightarrow> None) = Some s"
    using assms unfolding createCommitmentSnapshot_def bind_eq_Some_conv by blast
  then obtain r where r: "validateCommitmentSnapshot h (snapshot_json (c\<lparr>cs_messages := ms, cs_snapshotHash := sh\<rparr>)) = Accepted s r"
    by (auto split: validation_result.splits)
  show "sound_snapshot h s" using accepted_sound r by blast
  have z: "c = zeroed d" using c(1) by (rule parse_snapshot_written)
  have "snapshot_ok h c" using c(1) by (rule parse_snapshot_ok)
  then have "ms = map (\<lambda>m. m\<lparr>cm_bodyHash := he_sha h (utf8 (cm_body m))\<rparr>) (cs_messages c)"
    using c(2) by (simp add: those_hashed snapshot_ok_def)
  then have "c\<lparr>cs_messages := ms, cs_snapshotHash := sh\<rparr> = with_hashes h d"
    using with_hashes_eq[OF _ c(3)] z by (simp add: with_hashes_zeroed)
  then show "s = with_hashes h d"
    using r parse_snapshot_written by (auto simp: validateCommitmentSnapshot_Accepted)
qed

lemma create_total:
  assumes "\<And>q. ascii (he_num h q)" "\<And>b. hash_text (he_sha h b)" "draft_ok h d"
  shows "createCommitmentSnapshot h d = Some (with_hashes h d)"
proof -
  let ?z = "zeroed d"
  let ?ms = "map (\<lambda>m. m\<lparr>cm_bodyHash := he_sha h (utf8 (cm_body m))\<rparr>) (cs_messages ?z)"
  have z: "snapshot_ok h ?z" using assms(3) by (simp add: draft_ok_def)
  obtain x where x: "hashCommitmentSnapshot h (?z\<lparr>cs_messages := ?ms\<rparr>) = Some x"
    using hashCommitmentSnapshot_total[OF assms(1), of "?z\<lparr>cs_messages := ?ms\<rparr>"] by blast
  have w: "?z\<lparr>cs_messages := ?ms, cs_snapshotHash := x\<rparr> = with_hashes h d"
    using with_hashes_eq[OF refl x] unfolding with_hashes_zeroed .
  have "those (map (hashed_message h) (cs_messages ?z)) = Some ?ms"
    using z by (intro those_hashed) (simp add: snapshot_ok_def)
  moreover have "(length (cs_messages d) \<le> MESSAGES) = True" using z by (simp add: snapshot_ok_def zeroed_def)
  moreover have "validateCommitmentSnapshot h (snapshot_json (?z\<lparr>cs_messages := ?ms, cs_snapshotHash := x\<rparr>))
      = Accepted (with_hashes h d) (report [])"
    unfolding w by (rule sound_accepted[OF with_hashes_sound[OF assms]])
  ultimately show ?thesis
    by (simp only: createCommitmentSnapshot_def guard_True bind.simps x parse_snapshot_json[OF z] validation_result.case)
qed

section \<open>The line index\<close>

text \<open>The lines of a text: split at each delimiter, a carriage return with the line feed after it being one.\<close>

fun split_lines :: "jsstr \<Rightarrow> jsstr list" where
  "split_lines [] = [[]]"
| "split_lines (c # s) =
     (if \<not> line_break c then (case split_lines s of l # ls \<Rightarrow> (c # l) # ls | [] \<Rightarrow> [[c]])
      else if c = 13 \<and> s \<noteq> [] \<and> hd s = 10 then [] # split_lines (tl s)
      else [] # split_lines s)"

text \<open>All ranges, in order, with no bound.\<close>

fun line_ranges :: "nat \<Rightarrow> nat \<Rightarrow> jsstr \<Rightarrow> (nat \<times> nat) list" where
  "line_ranges offset start [] = [(start, offset)]"
| "line_ranges offset start (c # s) =
     (if \<not> line_break c then line_ranges (offset + 1) start s
      else if c = 13 \<and> s \<noteq> [] \<and> hd s = 10 then (start, offset) # line_ranges (offset + 2) (offset + 2) (tl s)
      else (start, offset) # line_ranges (offset + 1) (offset + 1) s)"

lemma split_lines_neq_Nil [simp]: "split_lines s \<noteq> []"
  by (induction s rule: split_lines.induct) (auto split: list.splits)

lemma line_loop_ranges:
  assumes "ls = take INDEXED_LINES xs" "n = length xs"
  shows "line_loop offset start s (ls, n) = (take INDEXED_LINES (xs @ line_ranges offset start s), n + length (line_ranges offset start s))"
proof -
  have app: "append_line a b (take INDEXED_LINES ys, length ys) = (take INDEXED_LINES (ys @ [(a, b)]), length (ys @ [(a, b)]))" for a b ys
    by (auto simp: append_line_def)
  show ?thesis
    using assms
  proof (induction offset start s "(ls, n)" arbitrary: xs ls n rule: line_loop.induct)
    case (1 offset start)
    then show ?case by (simp add: app)
  next
    case (2 offset start c s)
    show ?case
    proof (cases "line_break c")
      case False
      then show ?thesis using 2(1)[OF False 2(4,5)] by simp
    next
      case True
      show ?thesis
      proof (cases "c = 13 \<and> s \<noteq> [] \<and> hd s = 10")
        case cr: True
        then show ?thesis
          using True 2(2)[OF _ cr, of "take INDEXED_LINES (xs @ [(start, offset)])" "length (xs @ [(start, offset)])" "xs @ [(start, offset)]"] app
          by (simp add: 2(4,5))
      next
        case ncr: False
        then show ?thesis
          using True 2(3)[OF _ ncr, of "take INDEXED_LINES (xs @ [(start, offset)])" "length (xs @ [(start, offset)])" "xs @ [(start, offset)]"] app
          by (auto simp: 2(4,5))
      qed
    qed
  qed
qed

lemma slice_split: "start \<le> length pre \<Longrightarrow> js_slice start (length pre) (pre @ s) = drop start pre"
  by (simp add: js_slice_def)

lemma ranges_lines:
  assumes "start \<le> length pre"
  shows "map (\<lambda>(a, b). js_slice a b (pre @ s)) (line_ranges (length pre) start s)
    = (case split_lines s of l # ls \<Rightarrow> (drop start pre @ l) # ls | [] \<Rightarrow> [])
   \<and> (\<forall>(a, b) \<in> set (line_ranges (length pre) start s). a \<le> b \<and> b \<le> length (pre @ s))"
  using assms
proof (induction s arbitrary: pre start rule: split_lines.induct)
  case 1
  then show ?case by (simp add: slice_split[of _ _ "[]", simplified])
next
  case (2 c s)
  obtain l ls where l: "split_lines s = l # ls" by (metis split_lines_neq_Nil neq_Nil_conv)
  show ?case
  proof (cases "line_break c")
    case False
    then show ?thesis using 2(1)[OF False, of start "pre @ [c]"] 2(4) l by simp
  next
    case True
    show ?thesis
    proof (cases "c = 13 \<and> s \<noteq> [] \<and> hd s = 10")
      case cr: True
      then obtain s' where s': "s = 10 # s'" by (cases s) auto
      obtain l' ls' where l': "split_lines s' = l' # ls'" by (metis split_lines_neq_Nil neq_Nil_conv)
      show ?thesis
        using True cr 2(2)[OF _ cr, of "length (pre @ [c, 10])" "pre @ [c, 10]"] 2(4) l' slice_split[OF 2(4), of "c # s"]
        by (simp add: s')
    next
      case ncr: False
      have r: "line_ranges (length pre) start (c # s) = (start, length pre) # line_ranges (length pre + 1) (length pre + 1) s"
        and sp: "split_lines (c # s) = [] # split_lines s"
        using True ncr by auto
      show ?thesis
        unfolding r sp
        using True 2(3)[OF _ ncr, of "length (pre @ [c])" "pre @ [c]"] 2(4) l slice_split[OF 2(4), of "c # s"] by simp
    qed
  qed
qed

lemma index_message_lines:
  "mi_lines (index_message m) = take INDEXED_LINES (line_ranges 0 0 (cm_body m))"
  "mi_lineCount (index_message m) = length (line_ranges 0 0 (cm_body m))"
  "mi_omittedLineCount (index_message m) = length (line_ranges 0 0 (cm_body m)) - INDEXED_LINES"
  "mi_messageId (index_message m) = cm_id m" "mi_bodyHash (index_message m) = cm_bodyHash m"
  using line_loop_ranges[of "[]" "[]" 0 0 0 "cm_body m"] by (auto simp: index_message_def)

lemma line_ranges_split:
  "map (\<lambda>(a, b). js_slice a b s) (line_ranges 0 0 s) = split_lines s"
  "\<forall>(a, b) \<in> set (line_ranges 0 0 s). a \<le> b \<and> b \<le> length s"
  "length (line_ranges 0 0 s) = length (split_lines s)"
proof -
  have "split_lines s = hd (split_lines s) # tl (split_lines s)" by simp
  then show *: "map (\<lambda>(a, b). js_slice a b s) (line_ranges 0 0 s) = split_lines s"
    using ranges_lines[of 0 "[]" s] by (cases "split_lines s") auto
  show "\<forall>(a, b) \<in> set (line_ranges 0 0 s). a \<le> b \<and> b \<le> length s" using ranges_lines[of 0 "[]" s] by simp
  show "length (line_ranges 0 0 s) = length (split_lines s)" using arg_cong[OF *, of length] by simp
qed

section \<open>Accepted ledgers\<close>

lemma equalStringSets_mset: "equalStringSets a b \<longleftrightarrow> mset a = mset b"
  by (auto simp: equalStringSets_def) (metis mset_sort, metis size_mset, metis mset_sort sorted_sort properties_for_sort)

lemma message_lookup:
  assumes "distinct (map cm_id ms)"
  shows "map_of (rev (map (\<lambda>m. (cm_id m, m)) ms)) i = Some m \<longleftrightarrow> m \<in> set ms \<and> cm_id m = i"
proof -
  have "distinct (map fst (rev (map (\<lambda>m. (cm_id m, m)) ms)))" using assms by (simp add: rev_map[symmetric] comp_def)
  then have "map_of (rev (map (\<lambda>m. (cm_id m, m)) ms)) i = Some m \<longleftrightarrow> (i, m) \<in> set (rev (map (\<lambda>m. (cm_id m, m)) ms))"
    by (rule map_of_eq_Some_iff)
  then show ?thesis by auto
qed

text \<open>What a citation has to be.\<close>

definition exact_citation :: "commitment_snapshot \<Rightarrow> commitment_evidence \<Rightarrow> bool" where
  "exact_citation s e \<longleftrightarrow> (\<exists>m \<in> set (cs_messages s). cm_id m = ce_messageId e \<and> cm_bodyHash m = ce_bodyHash e
     \<and> ce_end e \<le> length (cm_body m) \<and> ce_quote e = take (ce_end e - ce_start e) (drop (ce_start e) (cm_body m))
     \<and> isSurrogateBoundary (cm_body m) (ce_start e) \<and> isSurrogateBoundary (cm_body m) (ce_end e))"

lemma evidence_issues_Nil:
  assumes "distinct (map cm_id (cs_messages s))"
  shows "evidence_issues s path e = [] \<longleftrightarrow> exact_citation s e"
proof (cases "map_of (rev (map (\<lambda>m. (cm_id m, m)) (cs_messages s))) (ce_messageId e)")
  case None
  then have "\<nexists>m. m \<in> set (cs_messages s) \<and> cm_id m = ce_messageId e"
    using message_lookup[OF assms, of "ce_messageId e"] by auto
  then show ?thesis using None by (auto simp: evidence_issues_def exact_citation_def)
next
  case (Some m)
  then have m: "m \<in> set (cs_messages s)" "cm_id m = ce_messageId e" using message_lookup[OF assms] by auto
  have "k = m" if "k \<in> set (cs_messages s)" "cm_id k = ce_messageId e" for k
    using message_lookup[OF assms, of "ce_messageId e" k] that Some by simp
  then have "exact_citation s e \<longleftrightarrow> cm_bodyHash m = ce_bodyHash e
     \<and> ce_end e \<le> length (cm_body m) \<and> ce_quote e = take (ce_end e - ce_start e) (drop (ce_start e) (cm_body m))
     \<and> isSurrogateBoundary (cm_body m) (ce_start e) \<and> isSurrogateBoundary (cm_body m) (ce_end e)"
    using m unfolding exact_citation_def by metis
  then show ?thesis using Some by (auto simp: evidence_issues_def js_slice_def)
qed

definition item_evidence :: "commitment_item \<Rightarrow> commitment_evidence set" where
  "item_evidence it = set (ci_evidence it) \<union> set (ci_priorEvidence it)"

lemma field_issues_Nil:
  assumes "distinct (map cm_id (cs_messages s))"
  shows "field_issues s i f es = [] \<longleftrightarrow> (\<forall>e \<in> set es. exact_citation s e)"
  unfolding field_issues_def concat_enumerate_Nil evidence_issues_Nil[OF assms] by (simp add: all_set_conv_all_nth)

lemma ledger_issues_Nil:
  assumes "distinct (map cm_id (cs_messages s))"
  shows "ledger_issues s l = [] \<longleftrightarrow> cl_snapshotId l = cs_snapshotId s \<and> cl_snapshotHash l = cs_snapshotHash s
    \<and> (\<forall>it \<in> set (cl_items l). \<forall>e \<in> item_evidence it. exact_citation s e)
    \<and> mset (cl_truncatedMessageIds l) = mset (truncated_ids s) \<and> cl_omittedMessages l = cs_omittedMessages s
    \<and> (truncated_ids s = [] \<and> cs_omittedMessages s = Some 0 \<or> cl_limitations l \<noteq> [])"
proof -
  have "concat (map (\<lambda>(i, it). item_issues s i it) (enumerate 0 (cl_items l))) = []
      \<longleftrightarrow> (\<forall>it \<in> set (cl_items l). \<forall>e \<in> item_evidence it. exact_citation s e)"
    unfolding concat_enumerate_Nil item_issues_def append_is_Nil_conv field_issues_Nil[OF assms] item_evidence_def
    by (simp add: all_set_conv_all_nth[of "cl_items l"] ball_Un)
  then show ?thesis
    unfolding ledger_issues_def append_is_Nil_conv coverage_issues_def equalStringSets_mset by auto
qed

lemma validateCommitmentLedger_Accepted:
  "validateCommitmentLedger h input raw = Accepted l r \<longleftrightarrow>
     (\<exists>s. validateCommitmentSnapshot h input = Accepted s (report []) \<and> parse_ledger h raw = Some l \<and> ledger_issues s l = [])
     \<and> r = report []"
proof -
  have "array_member raw (js ''items'') \<le> LEDGER_ITEMS" if "parse_ledger h raw = Some l"
    using that by (auto simp: parse_ledger_def bind_eq_Some_conv array_member_def split: option.splits json.splits if_splits)
  moreover have "r' = report []" if "validateCommitmentSnapshot h input = Accepted s r'" for s r'
    using that by (simp add: validateCommitmentSnapshot_Accepted)
  ultimately show ?thesis
    by (auto simp: validateCommitmentLedger_def failure_def split: validation_result.splits option.splits list.splits)
qed

section \<open>Reports conform to their schema\<close>

definition issue_ok :: "validation_issue \<Rightarrow> bool" where
  "issue_ok x \<longleftrightarrow> identifier_ok (vi_code x) \<and> text_ok 300 0 (vi_path x) \<and> text_ok 500 1 (vi_message x)"

definition report_ok :: "validation_report \<Rightarrow> bool" where
  "report_ok r \<longleftrightarrow> list_all issue_ok (vr_issues r) \<and> length (vr_issues r) \<le> ISSUES \<and> (vr_valid r \<longleftrightarrow> vr_issues r = [])"

text \<open>What is relied on of zod: a rejection lists an issue, and a path is made of keys and indices of the schema,
  far below the bound.\<close>

definition zod_issues_ok :: "'a handoff_env_scheme \<Rightarrow> bool" where
  "zod_issues_ok h \<longleftrightarrow>
     (\<forall>v. parse_snapshot h v = None \<longrightarrow> he_snapshotIssues h v \<noteq> [])
     \<and> (\<forall>v. parse_ledger h v = None \<longrightarrow> he_ledgerIssues h v \<noteq> [])
     \<and> (\<forall>v. \<forall>(p, m) \<in> set (he_snapshotIssues h v) \<union> set (he_ledgerIssues h v). text_ok 200 0 (join_dots p))"

lemma well_formed_last: "is_well_formed s \<Longrightarrow> s \<noteq> [] \<Longrightarrow> \<not> is_high (last s)"
  by (induction s rule: is_well_formed.induct) (auto simp: is_surrogate_def is_high_not_low split: if_splits)

lemma well_formed_take:
  "is_well_formed s \<Longrightarrow> is_well_formed (if take n s \<noteq> [] \<and> is_high (last (take n s)) then butlast (take n s) else take n s)"
proof (induction s arbitrary: n rule: is_well_formed.induct)
  case (3 c d s)
  show ?case
  proof (cases "is_high c \<and> is_low d")
    case True
    then show ?thesis using 3(1)[OF True, of "n - 2"] 3(3)
      by (cases n; cases "n - 1"; cases "take (n - 2) s = []") (auto simp: is_high_not_low is_surrogate_def)
  next
    case False
    then have c: "\<not> is_surrogate c" "is_well_formed (d # s)" using 3(3) by auto
    then show ?thesis using 3(2)[OF False c(2), of "n - 1"]
      by (cases n; cases "take (n - 1) (d # s) = []") (auto simp: is_well_formed_Cons is_surrogate_def)
  qed
qed (auto simp: take_Cons' is_surrogate_def)

lemma diagnostic_ok: "text_ok 500 1 (diagnostic v)"
proof -
  let ?b = "take 500 (to_well_formed v)"
  let ?c = "if ?b \<noteq> [] \<and> is_high (last ?b) then butlast ?b else ?b"
  have "is_well_formed ?c" by (rule well_formed_take[OF is_well_formed_to_well_formed])
  moreover have "length ?c \<le> 500" by auto
  moreover have "text_ok 500 1 (js ''Validation failed'')" by code_simp
  moreover have "1 \<le> length ?c" if "?c \<noteq> []" using that by (cases ?c) auto
  ultimately show ?thesis by (auto simp: diagnostic_def Let_def text_ok_def)
qed

lemma ascii_js_of_nat: "ascii (js_of_nat n)"
  using digits_js_of_nat by (fastforce simp: ascii_def is_digit_def word_le_nat_alt)

lemma ascii_Cons: "ascii (c # s) \<longleftrightarrow> unat c < 128 \<and> ascii s"
  by (auto simp: ascii_def)

lemma short_js_of_nat: "n < 100 \<Longrightarrow> length (js_of_nat n) \<le> 2"
  by (auto simp: js_of_nat_def dec_digits.simps[of n] dec_digits.simps[of "n div 10"])

definition short_path :: "jsstr \<Rightarrow> bool" where
  "short_path s \<longleftrightarrow> text_ok 200 0 s"

lemma short_pathI: "ascii s \<Longrightarrow> length s \<le> 200 \<Longrightarrow> short_path s"
  by (simp add: short_path_def text_ok_def ascii_well_formed)

lemma short_paths:
  "short_path (js ''messages'')" "short_path (js ''items'')" "short_path (js ''timezone'')" "short_path (js ''snapshotHash'')"
  "short_path (js ''coverage'')" "short_path (js ''coverage.limitations'')"
  by code_simp+

lemma short_source_path: "i < 100 \<Longrightarrow> short_path (js ''messages.'' @ js_of_nat i @ js ''.bodyHash'')"
proof (rule short_pathI)
  have "ascii (js ''messages.'')" "ascii (js ''.bodyHash'')" by code_simp+
  then show "ascii (js ''messages.'' @ js_of_nat i @ js ''.bodyHash'')" using ascii_js_of_nat by (simp add: ascii_append)
qed (use short_js_of_nat[of i] in \<open>simp add: js_def\<close>)

lemma short_evidence_path:
  assumes "i < 100" "j < 100" "f \<in> {''evidence'', ''priorEvidence''}"
  shows "short_path (evidence_path i f j)"
proof (rule short_pathI)
  have "ascii (js ''items.'')" "ascii (js ''.'')" "ascii (js ''evidence'')" "ascii (js ''priorEvidence'')" by code_simp+
  then show "ascii (evidence_path i f j)"
    using ascii_js_of_nat assms(3) unfolding evidence_path_def by (auto simp: ascii_append ascii_Cons)
  show "length (evidence_path i f j) \<le> 200"
    using assms short_js_of_nat[of i] short_js_of_nat[of j] by (auto simp: evidence_path_def js_def)
qed

text \<open>An issue with a fixed code, a fixed message and a short path.\<close>

definition fixed_issue :: "validation_issue \<Rightarrow> bool" where
  "fixed_issue x \<longleftrightarrow> identifier_ok (vi_code x) \<and> short_path (vi_path x) \<and> text_ok 500 1 (vi_message x)"

lemma codes_ok: "identifier_ok (js c)"
  if "c \<in> {''bounds'', ''schema'', ''timezone'', ''source_hash'', ''snapshot_hash'', ''source_binding'', ''source_membership'',
    ''evidence_hash'', ''span'', ''quote'', ''coverage''}"
proof -
  have "list_all (identifier_ok \<circ> js) [''bounds'', ''schema'', ''timezone'', ''source_hash'', ''snapshot_hash'',
    ''source_binding'', ''source_membership'', ''evidence_hash'', ''span'', ''quote'', ''coverage'']"
    by code_simp
  then show ?thesis using that by (auto simp: list_all_iff)
qed

lemma messages_ok: "text_ok 500 1 (js m)" if "length m \<le> 100" "m \<noteq> []" "\<forall>c \<in> set m. of_char c < (128 :: nat)"
proof -
  have "ascii (js m)" using that(3) by (auto simp: ascii_def js_def unat_of_char)
  then show ?thesis using that ascii_well_formed by (cases m) (auto simp: text_ok_def js_def)
qed

lemma fixed_issueI:
  "identifier_ok (js c) \<Longrightarrow> short_path p \<Longrightarrow> text_ok 500 1 (js m) \<Longrightarrow> fixed_issue (issue c p m)"
  by (simp add: fixed_issue_def issue_def)

lemma fixed_issue_ok: "fixed_issue x \<Longrightarrow> issue_ok x" "fixed_issue x \<Longrightarrow> issue_ok (under_snapshot x)"
proof -
  show "fixed_issue x \<Longrightarrow> issue_ok x" by (auto simp: fixed_issue_def issue_ok_def short_path_def text_ok_def)
  have "ascii (js ''snapshot.'')" "length (js ''snapshot.'') = 9" by code_simp+
  then show "fixed_issue x \<Longrightarrow> issue_ok (under_snapshot x)"
    by (auto simp: fixed_issue_def issue_ok_def under_snapshot_def short_path_def text_ok_def
        ascii_well_formed intro!: is_well_formed_append)
qed

lemma in_concat_enumerate:
  "x \<in> set (concat (map (\<lambda>(i, y). f i y) (enumerate 0 ys))) \<Longrightarrow> \<exists>k < length ys. x \<in> set (f k (ys ! k))"
  by (fastforce simp: in_set_enumerate_eq)

lemma snapshot_issues_fixed:
  assumes "length (cs_messages s) \<le> MESSAGES" "x \<in> set (snapshot_issues h s)"
  shows "fixed_issue x"
proof -
  have src: "fixed_issue y" if "y \<in> set (source_issue h k m)" "k < 100" for y k m
    using that by (auto simp: source_issue_def intro!: fixed_issueI codes_ok messages_ok short_source_path split: if_splits)
  have "fixed_issue (issue ''timezone'' (js ''timezone'') ''Unknown IANA timezone'')"
    "fixed_issue (issue ''snapshot_hash'' (js ''snapshotHash'') ''Snapshot hash mismatch'')"
    by (intro fixed_issueI codes_ok messages_ok short_paths; simp)+
  moreover have "fixed_issue x" if "x \<in> set (concat (map (\<lambda>(i, m). source_issue h i m) (enumerate 0 (cs_messages s))))"
    using in_concat_enumerate[OF that] src assms(1) by (force simp: bounds_defs)
  ultimately show ?thesis using assms(2) unfolding snapshot_issues_def by (auto split: if_splits)
qed

lemma parse_item_bounds:
  "parse_item h v = Some it \<Longrightarrow> length (ci_evidence it) \<le> EVIDENCE_PER_ITEM \<and> length (ci_priorEvidence it) \<le> EVIDENCE_PER_ITEM
     \<and> ci_evidence it \<noteq> [] \<and> item_refined it"
  by (auto simp: parse_item_def bind_eq_Some_conv guard_Some Let_def dest!: parse_list_Some)

lemma parse_ledger_bounds:
  assumes "parse_ledger h v = Some l"
  shows "length (cl_items l) \<le> LEDGER_ITEMS \<and> (\<forall>it \<in> set (cl_items l). length (ci_evidence it) \<le> EVIDENCE_PER_ITEM
    \<and> length (ci_priorEvidence it) \<le> EVIDENCE_PER_ITEM \<and> ci_evidence it \<noteq> [] \<and> item_refined it) \<and> ledger_refined l"
  using assms
  by (auto simp: parse_ledger_def bind_eq_Some_conv guard_Some Let_def dest!: parse_list_Some dest: parse_item_bounds)

lemma evidence_issues_fixed: "short_path p \<Longrightarrow> x \<in> set (evidence_issues s p e) \<Longrightarrow> fixed_issue x"
  by (auto simp: evidence_issues_def intro!: fixed_issueI codes_ok messages_ok split: option.splits if_splits)

lemma field_issues_fixed:
  assumes "x \<in> set (field_issues s i f es)" "i < 100" "length es \<le> 100" "f \<in> {''evidence'', ''priorEvidence''}"
  shows "fixed_issue x"
proof -
  obtain j where "j < length es" "x \<in> set (evidence_issues s (evidence_path i f j) (es ! j))"
    using in_concat_enumerate[of x "\<lambda>j e. evidence_issues s (evidence_path i f j) e" es] assms(1) unfolding field_issues_def by blast
  then show ?thesis using evidence_issues_fixed short_evidence_path[of i j f] assms by auto
qed

lemma ledger_issues_fixed:
  assumes "length (cl_items l) \<le> LEDGER_ITEMS" "x \<in> set (ledger_issues s l)"
    "\<forall>it \<in> set (cl_items l). length (ci_evidence it) \<le> EVIDENCE_PER_ITEM \<and> length (ci_priorEvidence it) \<le> EVIDENCE_PER_ITEM"
  shows "fixed_issue x"
proof -
  have "fixed_issue (issue ''source_binding'' (js ''snapshotHash'') ''Ledger is not bound to this snapshot'')"
    "fixed_issue (issue ''coverage'' (js ''coverage'') ''Reported omissions/truncation do not match the snapshot'')"
    "fixed_issue (issue ''coverage'' (js ''coverage.limitations'') ''Incomplete or unknown coverage needs an explicit limitation'')"
    by (intro fixed_issueI codes_ok messages_ok short_paths; simp)+
  moreover have "fixed_issue x" if m: "x \<in> set (concat (map (\<lambda>(i, it). item_issues s i it) (enumerate 0 (cl_items l))))"
  proof -
    obtain k where k: "k < length (cl_items l)" "x \<in> set (item_issues s k (cl_items l ! k))"
      using in_concat_enumerate[OF m] by blast
    then have "length (ci_evidence (cl_items l ! k)) \<le> 100" "length (ci_priorEvidence (cl_items l ! k)) \<le> 100" "k < 100"
      using assms(1,3) nth_mem[OF k(1)] by (fastforce simp: bounds_defs)+
    then show ?thesis using k(2) field_issues_fixed by (auto simp: item_issues_def)
  qed
  ultimately show ?thesis using assms(2) unfolding ledger_issues_def coverage_issues_def by (auto split: if_splits)
qed

lemma schema_issues_fixed:
  assumes "zod_issues_ok h" "x \<in> set (schemaIssues es)" "es = he_snapshotIssues h v \<or> es = he_ledgerIssues h v"
  shows "fixed_issue x"
proof -
  obtain p m where pm: "(p, m) \<in> set es" "x = \<lparr>vi_code = js ''schema'', vi_path = join_dots p, vi_message = diagnostic m\<rparr>"
    using assms(2) by (auto simp: schemaIssues_def dest: in_set_takeD)
  then have "text_ok 200 0 (join_dots p)" using assms(1,3) unfolding zod_issues_ok_def by blast
  then show ?thesis using pm(2) diagnostic_ok codes_ok[of "''schema''"] by (simp add: fixed_issue_def short_path_def)
qed

lemma report_ok_fixed: "(\<And>x. x \<in> set xs \<Longrightarrow> issue_ok x) \<Longrightarrow> report_ok (report xs)"
  by (auto simp: report_ok_def report_def list_all_iff ISSUES_def dest: in_set_takeD)

lemma schemaIssues_Nil: "schemaIssues es = [] \<longleftrightarrow> es = []"
  by (auto simp: schemaIssues_def ISSUES_def)

lemma refused_issues:
  assumes "zod_issues_ok h" "validateCommitmentSnapshot h input = Refused r"
  shows "\<exists>xs. r = report xs \<and> xs \<noteq> [] \<and> (\<forall>x \<in> set xs. fixed_issue x)"
proof -
  have b: "fixed_issue (issue ''bounds'' (js ''messages'') ''Snapshot message bound exceeded'')"
    by (intro fixed_issueI codes_ok messages_ok short_paths; simp)
  have z: "schemaIssues (he_snapshotIssues h input) \<noteq> []" if "parse_snapshot h input = None"
    using assms(1) that by (simp add: zod_issues_ok_def schemaIssues_Nil)
  have m: "length (cs_messages s) \<le> MESSAGES" if "parse_snapshot h input = Some s" for s
    using parse_snapshot_ok[OF that] by (simp add: snapshot_ok_def)
  show ?thesis
  proof (cases "array_member input (js ''messages'') > MESSAGES")
    case True
    then have "r = report [issue ''bounds'' (js ''messages'') ''Snapshot message bound exceeded'']"
      using assms(2) by (simp add: validateCommitmentSnapshot_def failure_def)
    then show ?thesis using b by (intro exI conjI) auto
  next
    case False
    show ?thesis
    proof (cases "parse_snapshot h input")
      case None
      then have "r = report (schemaIssues (he_snapshotIssues h input))"
        using assms(2) False by (simp add: validateCommitmentSnapshot_def failure_def)
      then show ?thesis using z[OF None] schema_issues_fixed[OF assms(1)] by blast
    next
      case (Some s)
      then have "r = report (snapshot_issues h s) \<and> snapshot_issues h s \<noteq> []"
        using assms(2) False by (simp add: validateCommitmentSnapshot_def failure_def split: list.splits)
      then show ?thesis using snapshot_issues_fixed[OF m[OF Some]] by blast
    qed
  qed
qed

lemma report_fixed: "\<forall>x \<in> set xs. fixed_issue x \<Longrightarrow> report_ok (report xs) \<and> report_ok (report (map under_snapshot (vr_issues (report xs))))"
proof -
  assume f: "\<forall>x \<in> set xs. fixed_issue x"
  have "fixed_issue x" if "x \<in> set (vr_issues (report xs))" for x using f that by (auto simp: report_def dest: in_set_takeD)
  then show ?thesis using f fixed_issue_ok by (intro conjI report_ok_fixed) auto
qed

lemma refused_ledger_issues:
  assumes "zod_issues_ok h" "validateCommitmentSnapshot h input = Accepted s r'" "validateCommitmentLedger h input raw = Refused r"
  shows "\<exists>xs. r = report xs \<and> xs \<noteq> [] \<and> (\<forall>x \<in> set xs. fixed_issue x)"
proof -
  have b: "fixed_issue (issue ''bounds'' (js ''items'') ''Ledger item bound exceeded'')"
    by (intro fixed_issueI codes_ok messages_ok short_paths; simp)
  have z: "schemaIssues (he_ledgerIssues h raw) \<noteq> []" if "parse_ledger h raw = None"
    using assms(1) that by (simp add: zod_issues_ok_def schemaIssues_Nil)
  have l: "fixed_issue x" if "parse_ledger h raw = Some l" "x \<in> set (ledger_issues s l)" for l x
    using parse_ledger_bounds[OF that(1)] ledger_issues_fixed[OF _ that(2)] by blast
  show ?thesis
  proof (cases "array_member raw (js ''items'') > LEDGER_ITEMS")
    case True
    then have "r = report [issue ''bounds'' (js ''items'') ''Ledger item bound exceeded'']"
      using assms(2,3) by (simp add: validateCommitmentLedger_def failure_def)
    then show ?thesis using b by (intro exI conjI) auto
  next
    case False
    show ?thesis
    proof (cases "parse_ledger h raw")
      case None
      then have "r = report (schemaIssues (he_ledgerIssues h raw))"
        using assms(2,3) False by (simp add: validateCommitmentLedger_def failure_def)
      then show ?thesis using z[OF None] schema_issues_fixed[OF assms(1)] by blast
    next
      case (Some k)
      then have "r = report (ledger_issues s k) \<and> ledger_issues s k \<noteq> []"
        using assms(2,3) False by (simp add: validateCommitmentLedger_def failure_def split: list.splits)
      then show ?thesis using l[OF Some] by blast
    qed
  qed
qed

section \<open>Properties\<close>

text \<open>C22: A ledger is accepted if and only if it is bound to a snapshot that is itself sound (its schema, the hash of
  every body and the hash of the whole agree) and says only what the snapshot holds: every citation of every item, current
  or prior, names a message of the snapshot with that message's hash and quotes exactly the text at its span, which lies
  inside the body and cuts no surrogate pair; the reported omissions and truncations are those of the snapshot; and
  incomplete coverage comes with a stated limitation.\<close>

theorem ledger_accepted_iff:
  "(\<exists>r. validateCommitmentLedger h input raw = Accepted l r) \<longleftrightarrow>
   (\<exists>s. parse_snapshot h input = Some s \<and> he_timezone h (cs_timezone s)
      \<and> (\<forall>m \<in> set (cs_messages s). he_sha h (utf8 (cm_body m)) = cm_bodyHash m)
      \<and> hashCommitmentSnapshot h s = Some (cs_snapshotHash s)
      \<and> parse_ledger h raw = Some l \<and> cl_snapshotId l = cs_snapshotId s \<and> cl_snapshotHash l = cs_snapshotHash s
      \<and> (\<forall>it \<in> set (cl_items l). \<forall>e \<in> set (ci_evidence it) \<union> set (ci_priorEvidence it). exact_citation s e)
      \<and> mset (cl_truncatedMessageIds l) = mset (truncated_ids s) \<and> cl_omittedMessages l = cs_omittedMessages s
      \<and> (truncated_ids s = [] \<and> cs_omittedMessages s = Some 0 \<or> cl_limitations l \<noteq> []))"
proof -
  have "distinct (map cm_id (cs_messages s))" if "parse_snapshot h input = Some s" for s
    using parse_snapshot_ok[OF that] by (simp add: snapshot_ok_def snapshot_refined_def)
  note d = this
  have b: "(hashWorkflowText h (cm_body m) = Some (cm_bodyHash m)) = (he_sha h (utf8 (cm_body m)) = cm_bodyHash m)"
    if "parse_snapshot h input = Some s" "m \<in> set (cs_messages s)" for s m
    using parse_snapshot_ok[OF that(1)] that(2) by (simp add: snapshot_ok_def message_hashable)
  show ?thesis
    unfolding validateCommitmentLedger_Accepted validateCommitmentSnapshot_Accepted snapshot_issues_Nil
    using ledger_issues_Nil[OF d, unfolded item_evidence_def] b by (auto simp: ball_Un)
qed

text \<open>C25: Every report the two validators return conforms to the report schema of the contract: at most 64 issues, each
  with an identifier as its code, a bounded path and a bounded nonempty message in well-formed text, and the flag says valid
  exactly when there is no issue. A result is accepted exactly when its report says valid.\<close>

theorem reports_conform:
  assumes "zod_issues_ok h"
  shows "report_ok (result_report (validateCommitmentSnapshot h input))
    \<and> report_ok (result_report (validateCommitmentLedger h input raw))
    \<and> (vr_valid (result_report (validateCommitmentLedger h input raw)) \<longleftrightarrow> (\<exists>l r. validateCommitmentLedger h input raw = Accepted l r))"
proof -
  have ok: "report_ok (report [])" using report_ok_fixed[of "[]"] by simp
  have bad: "\<not> vr_valid (report xs)" if "xs \<noteq> []" for xs using that by (simp add: report_def)
  have no: "\<not> vr_valid (report (map under_snapshot (vr_issues (report xs))))" if "xs \<noteq> []" for xs
    using that by (simp add: report_def ISSUES_def)
  show ?thesis
  proof (cases "validateCommitmentSnapshot h input")
    case (Refused r)
    then have "validateCommitmentLedger h input raw = Refused (report (map under_snapshot (vr_issues r)))"
      by (simp add: validateCommitmentLedger_def failure_def)
    then show ?thesis using refused_issues[OF assms Refused] report_fixed no Refused by auto
  next
    case (Accepted s r')
    then have r': "r' = report []" by (simp add: validateCommitmentSnapshot_Accepted)
    show ?thesis
    proof (cases "validateCommitmentLedger h input raw")
      case (Refused r)
      then show ?thesis using refused_ledger_issues[OF assms Accepted Refused] report_fixed bad Accepted r' ok by auto
    next
      case (Accepted l r)
      then have "r = report []" by (simp add: validateCommitmentLedger_Accepted)
      then show ?thesis using Accepted r' \<open>validateCommitmentSnapshot h input = Accepted s r'\<close> ok by (simp add: report_def)
    qed
  qed
qed

text \<open>C23: Hashing a draft and validating the result are inverse to each other: a draft within the schema, with a known
  time zone, always becomes a snapshot; that snapshot keeps everything the draft says and differs only in the hashes; written
  as JSON it validates to itself; and nothing else is ever created.\<close>

theorem created_snapshot_validates:
  assumes "\<forall>q. ascii (he_num h q)" "\<forall>b. hash_text (he_sha h b)"
  shows "(createCommitmentSnapshot h d = Some s \<longleftrightarrow> draft_ok h d \<and> s = with_hashes h d)
    \<and> (draft_ok h d \<longrightarrow> zeroed (with_hashes h d) = zeroed d
        \<and> validateCommitmentSnapshot h (snapshot_json (with_hashes h d)) = Accepted (with_hashes h d) (report []))"
proof -
  have "draft_ok h d" if c: "createCommitmentSnapshot h d = Some s" for s
  proof -
    have s: "sound_snapshot h s" "s = with_hashes h d" using create_with_hashes[OF c] by auto
    obtain c where "parse_snapshot h (snapshot_json (zeroed d)) = Some c"
      using c by (auto simp: createCommitmentSnapshot_def bind_eq_Some_conv)
    then have "snapshot_ok h (zeroed d)" using parse_snapshot_written parse_snapshot_ok by blast
    moreover have "he_timezone h (cs_timezone d)"
      using s by (simp add: sound_snapshot_def snapshot_issues_Nil with_hashes_def Let_def)
    ultimately show ?thesis by (simp add: draft_ok_def)
  qed
  moreover have "createCommitmentSnapshot h d = Some (with_hashes h d)" if "draft_ok h d"
    using create_total[OF _ _ that] assms by blast
  moreover have "sound_snapshot h (with_hashes h d)" if "draft_ok h d" using with_hashes_sound[OF _ _ that] assms by blast
  ultimately show ?thesis using with_hashes_zeroed(2) sound_accepted by (metis option.inject)
qed

text \<open>C24: The source index is exact: for every message it lists, in order, the ranges of the first 256 lines of the body,
  where the text at each range is precisely the line (no delimiter, empty and trailing lines included) and lies inside the
  body; the line count is that of the whole body, the omitted count is the difference, and the index says complete exactly
  when nothing was left out.\<close>

theorem source_index_exact:
  assumes "createCommitmentSourceIndex h input = Some x"
  shows "\<exists>s. validateCommitmentSnapshot h input = Accepted s (report [])
    \<and> map mi_messageId (si_messages x) = map cm_id (cs_messages s)
    \<and> (\<forall>i < length (cs_messages s).
        let body = cm_body (cs_messages s ! i); m = si_messages x ! i in
          map (\<lambda>(a, b). js_slice a b body) (mi_lines m) = take 256 (split_lines body)
          \<and> (\<forall>(a, b) \<in> set (mi_lines m). a \<le> b \<and> b \<le> length body)
          \<and> mi_lineCount m = length (split_lines body) \<and> mi_omittedLineCount m = length (split_lines body) - 256)
    \<and> (si_lineIndexComplete x \<longleftrightarrow> (\<forall>m \<in> set (cs_messages s). length (split_lines (cm_body m)) \<le> 256))"
proof -
  obtain s where s: "validateCommitmentSnapshot h input = Accepted s (report [])" "si_messages x = map index_message (cs_messages s)"
      "si_lineIndexComplete x \<longleftrightarrow> list_all (\<lambda>m. mi_omittedLineCount m = 0) (map index_message (cs_messages s))"
    using assms
    by (auto simp: createCommitmentSourceIndex_def Let_def validateCommitmentSnapshot_Accepted split: validation_result.splits if_splits)
  have "map (\<lambda>(a, b). js_slice a b (cm_body m)) (mi_lines (index_message m)) = take 256 (split_lines (cm_body m))
      \<and> (\<forall>(a, b) \<in> set (mi_lines (index_message m)). a \<le> b \<and> b \<le> length (cm_body m))" for m
    using line_ranges_split(1,2)[of "cm_body m"]
    by (auto simp: index_message_lines INDEXED_LINES_def take_map[symmetric] dest: in_set_takeD)
  then show ?thesis
    using s by (intro exI[of _ s]) (auto simp: index_message_lines line_ranges_split(3) INDEXED_LINES_def Let_def list_all_iff comp_def)
qed

section \<open>Witnesses\<close>

definition ex_henv :: handoff_env where
  "ex_henv = \<lparr>he_timestamp = (\<lambda>_. Some 0), he_timezone = (\<lambda>_. True), he_sha = (\<lambda>_. ZERO_HASH), he_num = (\<lambda>_. []),
     he_snapshotIssues = (\<lambda>_. [([], [])]), he_ledgerIssues = (\<lambda>_. [([], [])])\<rparr>"

definition ex_message :: commitment_message where
  "ex_message = \<lparr>cm_id = js ''m1'', cm_threadId = js ''t1'', cm_subject = [], cm_sender = js ''ann'', cm_to = [],
     cm_timestamp = [], cm_body = js ''I will pay'', cm_bodyHash = ZERO_HASH, cm_truncated = False, cm_omittedChars = Some 0\<rparr>"

definition ex_snapshot :: commitment_snapshot where
  "ex_snapshot = \<lparr>cs_snapshotId = js ''s1'', cs_snapshotHash = ZERO_HASH, cs_userAddress = js ''a@b.c'', cs_cutoff = [],
     cs_timezone = js ''UTC'', cs_source = UserSupplied, cs_omittedMessages = Some 0, cs_note = [], cs_messages = [ex_message]\<rparr>"

definition ex_evidence :: json where
  "ex_evidence = JObj [(js ''messageId'', JStr (js ''m1'')), (js ''bodyHash'', JStr ZERO_HASH), (js ''start'', nat_json 7),
     (js ''end'', nat_json 10), (js ''quote'', JStr (js ''pay''))]"

definition ex_item :: json where
  "ex_item = JObj [(js ''itemId'', JStr (js ''i1'')), (js ''title'', JStr (js ''Pay'')), (js ''owner'', JStr (js ''ann'')),
     (js ''state'', JStr (js ''due'')), (js ''dueAt'', JNull), (js ''changed'', JBool False), (js ''evidence'', JArr [ex_evidence]),
     (js ''priorEvidence'', JArr []), (js ''uncertainty'', JNull), (js ''nextAction'', JStr (js ''ask'')), (js ''replyText'', JNull)]"

definition ex_ledger_json :: json where
  "ex_ledger_json = JObj [(js ''workflowId'', JStr COMMITMENT_WORKFLOW_ID), (js ''snapshotId'', JStr (js ''s1'')),
     (js ''snapshotHash'', JStr ZERO_HASH), (js ''items'', JArr [ex_item]),
     (js ''coverage'', JObj [(js ''scope'', JStr (js ''supplied-snapshot'')), (js ''omittedMessages'', nat_json 0),
       (js ''truncatedMessageIds'', JArr []), (js ''limitations'', JArr [])])]"


definition ex_cited :: commitment_item where
  "ex_cited = \<lparr>ci_itemId = js ''i1'', ci_title = js ''Pay'', ci_owner = Some (js ''ann''), ci_state = ItemDue, ci_dueAt = None,
     ci_changed = False, ci_evidence = [\<lparr>ce_messageId = js ''m1'', ce_bodyHash = ZERO_HASH, ce_start = 7, ce_end = 10,
       ce_quote = js ''pay''\<rparr>], ci_priorEvidence = [], ci_uncertainty = None, ci_nextAction = js ''ask'', ci_replyText = None\<rparr>"

definition ex_ledger :: commitment_ledger where
  "ex_ledger = \<lparr>cl_snapshotId = js ''s1'', cl_snapshotHash = ZERO_HASH, cl_items = [ex_cited], cl_omittedMessages = Some 0,
     cl_truncatedMessageIds = [], cl_limitations = []\<rparr>"

lemma ex_message_ok: "message_ok ex_henv ex_message"
proof -
  have "identifier_ok (cm_id ex_message)" "identifier_ok (cm_threadId ex_message)" "text_ok 240 0 (cm_subject ex_message)"
    "nonBlank 320 (cm_sender ex_message)" "text_ok 640 0 (cm_to ex_message)" "timestamp_ok ex_henv (cm_timestamp ex_message)"
    "text_ok BODY_CHARS 0 (cm_body ex_message)"
    by code_simp+
  then show ?thesis using zero_hash_ok by (simp add: message_ok_def) (simp add: ex_message_def)
qed

lemma ex_snapshot_sound: "sound_snapshot ex_henv ex_snapshot"
proof -
  have "identifier_ok (cs_snapshotId ex_snapshot)" "text_ok 254 3 (cs_userAddress ex_snapshot)"
    "bare_address (cs_userAddress ex_snapshot)" "nonBlank 80 (cs_timezone ex_snapshot)" "text_ok 500 0 (cs_note ex_snapshot)"
    by code_simp+
  then have "snapshot_ok ex_henv ex_snapshot"
    using ex_message_ok zero_hash_ok
    by (simp add: snapshot_ok_def) (simp add: ex_snapshot_def snapshot_refined_def timestamp_ok_def ex_henv_def bounds_defs
        ex_message_def js_def)
  moreover have "snapshot_issues ex_henv ex_snapshot = []"
  proof -
    obtain x where "hashCommitmentSnapshot ex_henv ex_snapshot = Some x" "\<exists>b. x = he_sha ex_henv b"
      using hashCommitmentSnapshot_total[of ex_henv ex_snapshot] by (auto simp: ex_henv_def ascii_def)
    then show ?thesis
      using message_hashable[OF ex_message_ok] unfolding snapshot_issues_Nil
      by (auto simp: ex_snapshot_def ex_henv_def ex_message_def)
  qed
  ultimately show ?thesis by (simp add: sound_snapshot_def)
qed

lemma ex_ledger_parsed: "parse_ledger ex_henv ex_ledger_json = Some ex_ledger"
proof -
  have "parse_item ex_henv ex_item = Some ex_cited" by code_simp
  moreover have "identifier_ok (js ''s1'')" by code_simp
  moreover have "identifier_ok (js ''i1'')" by code_simp
  ultimately show ?thesis
    using zero_hash_ok
    by (simp add: parse_ledger_def ex_ledger_json_def ledger_keys_def parse_ledger_coverage_def ledger_coverage_keys_def
        ledger_refined_def ex_ledger_def bounds_defs parse_nullable_json max_safe_def nat_json_def integral_def)
qed

lemma ex_citation: "exact_citation ex_snapshot (hd (ci_evidence ex_cited))"
  by code_simp

theorem ledger_accepted_iff_witness:
  "\<exists>r. validateCommitmentLedger ex_henv (snapshot_json ex_snapshot) ex_ledger_json = Accepted ex_ledger r"
proof -
  have p: "parse_snapshot ex_henv (snapshot_json ex_snapshot) = Some ex_snapshot"
    using ex_snapshot_sound by (simp add: sound_snapshot_def parse_snapshot_json)
  have i: "he_timezone ex_henv (cs_timezone ex_snapshot)" "hashCommitmentSnapshot ex_henv ex_snapshot = Some (cs_snapshotHash ex_snapshot)"
    "\<forall>m \<in> set (cs_messages ex_snapshot). he_sha ex_henv (utf8 (cm_body m)) = cm_bodyHash m"
    using ex_snapshot_sound by (simp_all add: sound_snapshot_def snapshot_issues_Nil) (simp add: ex_snapshot_def ex_message_def ex_henv_def)
  have "\<forall>it \<in> set (cl_items ex_ledger). \<forall>e \<in> set (ci_evidence it) \<union> set (ci_priorEvidence it). exact_citation ex_snapshot e"
    using ex_citation by (simp add: ex_ledger_def ex_cited_def)
  moreover have "truncated_ids ex_snapshot = []" "cs_omittedMessages ex_snapshot = Some 0" "cl_omittedMessages ex_ledger = Some 0"
    "cl_truncatedMessageIds ex_ledger = []" "cl_snapshotId ex_ledger = cs_snapshotId ex_snapshot"
    "cl_snapshotHash ex_ledger = cs_snapshotHash ex_snapshot"
    by (simp_all add: truncated_ids_def ex_snapshot_def ex_message_def ex_ledger_def)
  ultimately show ?thesis
    unfolding ledger_accepted_iff using p i ex_ledger_parsed by (intro exI[of _ ex_snapshot]) simp
qed

theorem reports_conform_witness:
  "report_ok (result_report (validateCommitmentLedger ex_henv JNull JNull))
   \<and> \<not> vr_valid (result_report (validateCommitmentLedger ex_henv JNull JNull))"
proof -
  have "zod_issues_ok ex_henv" by (simp add: zod_issues_ok_def ex_henv_def text_ok_def)
  note r = reports_conform[OF this, of JNull JNull]
  have "\<nexists>l r. validateCommitmentLedger ex_henv JNull JNull = Accepted l r"
    by (simp add: validateCommitmentLedger_Accepted validateCommitmentSnapshot_Accepted parse_snapshot_def guard_def)
  then show ?thesis using r by blast
qed

theorem created_snapshot_validates_witness:
  "createCommitmentSnapshot ex_henv ex_snapshot = Some (with_hashes ex_henv ex_snapshot)
   \<and> validateCommitmentSnapshot ex_henv (snapshot_json (with_hashes ex_henv ex_snapshot))
       = Accepted (with_hashes ex_henv ex_snapshot) (report [])"
proof -
  have "\<forall>q. ascii (he_num ex_henv q)" "\<forall>b. hash_text (he_sha ex_henv b)"
    using zero_hash_ok by (simp_all add: ex_henv_def ascii_def)
  note c = created_snapshot_validates[OF this]
  have "zeroed ex_snapshot = ex_snapshot" by (simp add: zeroed_def ex_snapshot_def ex_message_def)
  then have "draft_ok ex_henv ex_snapshot"
    using ex_snapshot_sound by (simp add: draft_ok_def sound_snapshot_def snapshot_issues_Nil)
  then show ?thesis using c by blast
qed

definition ex_index :: source_index where
  "ex_index = \<lparr>si_snapshotId = js ''s1'', si_snapshotHash = ZERO_HASH, si_lineIndexComplete = True, si_messages =
     [\<lparr>mi_messageId = js ''m1'', mi_bodyHash = ZERO_HASH, mi_fullBody = (0, 10), mi_lineCount = 1, mi_lines = [(0, 10)],
       mi_omittedLineCount = 0\<rparr>]\<rparr>"

theorem source_index_exact_witness:
  "createCommitmentSourceIndex ex_henv (snapshot_json ex_snapshot) = Some ex_index
   \<and> take 256 (split_lines (js ''I will pay'')) = [js_slice 0 10 (js ''I will pay'')]"
proof -
  have v: "validateCommitmentSnapshot ex_henv (snapshot_json ex_snapshot) = Accepted ex_snapshot (report [])"
    using ex_snapshot_sound by (rule sound_accepted)
  have m: "map index_message (cs_messages ex_snapshot) = si_messages ex_index" by code_simp
  have "length (utf8 (stringify (he_num ex_henv) (source_index_json ex_index))) \<le> 1000" by code_simp
  then have x: "createCommitmentSourceIndex ex_henv (snapshot_json ex_snapshot) = Some ex_index"
    unfolding createCommitmentSourceIndex_def v validation_result.case Let_def m
    by (simp add: ex_index_def ex_snapshot_def INDEX_BYTES_def)
  obtain s where s: "validateCommitmentSnapshot ex_henv (snapshot_json ex_snapshot) = Accepted s (report [])"
    "\<forall>i < length (cs_messages s). let body = cm_body (cs_messages s ! i); m = si_messages ex_index ! i in
        map (\<lambda>(a, b). js_slice a b body) (mi_lines m) = take 256 (split_lines body)"
    using source_index_exact[OF x] by (auto simp: Let_def)
  then have "s = ex_snapshot" using v by simp
  moreover have "length (cs_messages ex_snapshot) = 1" "cm_body (cs_messages ex_snapshot ! 0) = js ''I will pay''"
    "mi_lines (si_messages ex_index ! 0) = [(0, 10)]"
    by (simp_all add: ex_snapshot_def ex_message_def ex_index_def)
  ultimately have "[js_slice 0 10 (js ''I will pay'')] = take 256 (split_lines (js ''I will pay''))"
    using s(2)[rule_format, of 0] by (simp only: Let_def list.map prod.case)
  then show ?thesis using x by simp
qed

end
