(* ===== verification/RefineData.thy ===== *)
theory RefineData
  imports Handoff
begin

text \<open>
  The data of governed learning: canonical JSON and the hashes over it
  (\<open>packages/engine/src/refinements/canonical.ts\<close>), the schemas of
  \<open>packages/contracts/src/refinements.ts\<close> as records with a predicate each, the JSON form of what is
  hashed, and the check of a validation report (\<open>refinements/validation.ts\<close>).

  A canonical UTC timestamp text stands for one instant and is represented by it. A column that holds JSON
  text is represented by the value the text decodes to, with \<open>None\<close> for text that does not decode.
\<close>

section \<open>canonicalJson\<close>

text \<open>Object keys are walked like strings, one level deeper than the object; \<open>None\<close> is the error.\<close>

fun canonical_walk :: "(rat \<Rightarrow> jsstr) \<Rightarrow> nat \<Rightarrow> json \<Rightarrow> jsstr option" where
  "canonical_walk sf d JNull = (if d > 32 then None else Some (js ''null''))"
| "canonical_walk sf d (JStr s) = (if d > 32 \<or> \<not> is_well_formed s then None else Some (json_quote s))"
| "canonical_walk sf d (JBool b) = (if d > 32 then None else Some (if b then js ''true'' else js ''false''))"
| "canonical_walk sf d (JNum n) = (if d > 32 \<or> \<not> is_finite_num n then None else Some (num_to_string sf n))"
| "canonical_walk sf d (JArr xs) =
     (if d > 32 then None
      else map_option (\<lambda>ts. [91] @ commas ts @ [93]) (those (map (canonical_walk sf (d + 1)) xs)))"
| "canonical_walk sf d (JObj ms) =
     (if d > 32 then None
      else map_option (\<lambda>ts. [123] @ commas (map snd (sort_key fst ts)) @ [125])
        (those (map (\<lambda>m. if d + 1 > 32 \<or> \<not> is_well_formed (fst m) then None
            else map_option (\<lambda>t. (fst m, json_quote (fst m) @ [58] @ t)) (canonical_walk sf (d + 1) (snd m))) ms)))"

definition canonicalJson :: "(rat \<Rightarrow> jsstr) \<Rightarrow> json \<Rightarrow> jsstr option" where
  "canonicalJson sf v = canonical_walk sf 0 v"

definition refinementHash :: "(rat \<Rightarrow> jsstr) \<Rightarrow> (bytes \<Rightarrow> jsstr) \<Rightarrow> json \<Rightarrow> jsstr option" where
  "refinementHash sf h v = map_option (\<lambda>t. h (utf8 t)) (canonicalJson sf v)"

section \<open>Content, sources and envelopes\<close>

definition ref_text :: "nat \<Rightarrow> jsstr \<Rightarrow> bool" where
  "ref_text mx s \<longleftrightarrow> is_well_formed s \<and> 1 \<le> length s \<and> length s \<le> mx"

definition ref_id :: "jsstr \<Rightarrow> bool" where
  "ref_id = ref_text 160"

definition ref_count :: "nat \<Rightarrow> bool" where
  "ref_count n \<longleftrightarrow> int n \<le> max_safe"

definition opt_all :: "('a \<Rightarrow> bool) \<Rightarrow> 'a option \<Rightarrow> bool" where
  "opt_all P x = (case x of None \<Rightarrow> True | Some y \<Rightarrow> P y)"

definition REFINEMENT_CONTENT_MAX_BYTES :: nat where
  "REFINEMENT_CONTENT_MAX_BYTES = 16 * 1024"

definition REFINEMENT_REPORT_MAX_BYTES :: nat where
  "REFINEMENT_REPORT_MAX_BYTES = 128 * 1024"

record ref_scope =
  sc_workflowId :: jsstr
  sc_workflowContractHash :: jsstr

definition scope_ok :: "ref_scope \<Rightarrow> bool" where
  "scope_ok s \<longleftrightarrow> ref_text 64 (sc_workflowId s) \<and> hash_text (sc_workflowContractHash s)"

definition scope_json :: "ref_scope \<Rightarrow> json" where
  "scope_json s = JObj [(js ''workflowId'', JStr (sc_workflowId s)), (js ''slot'', JStr (js ''reasoning'')),
     (js ''workflowContractHash'', JStr (sc_workflowContractHash s))]"

record ref_content =
  ct_title :: jsstr
  ct_rationale :: jsstr
  ct_scope :: ref_scope
  ct_steps :: "jsstr list"

definition content_json :: "ref_content \<Rightarrow> json" where
  "content_json c = JObj [(js ''schemaVersion'', nat_json 1), (js ''kind'', JStr (js ''workflow-guidance'')),
     (js ''title'', JStr (ct_title c)), (js ''rationale'', JStr (ct_rationale c)), (js ''scope'', scope_json (ct_scope c)),
     (js ''procedure'', JObj [(js ''steps'', JArr (map JStr (ct_steps c)))])]"

definition content_ok :: "(rat \<Rightarrow> jsstr) \<Rightarrow> ref_content \<Rightarrow> bool" where
  "content_ok sf c \<longleftrightarrow> ref_text 80 (ct_title c) \<and> ref_text 1024 (ct_rationale c) \<and> scope_ok (ct_scope c)
     \<and> 1 \<le> length (ct_steps c) \<and> length (ct_steps c) \<le> 8 \<and> list_all (ref_text 512) (ct_steps c)
     \<and> length (utf8 (stringify sf (content_json c))) \<le> REFINEMENT_CONTENT_MAX_BYTES"

datatype source_kind = LearningFixture | Correction | RunOutcome

fun source_kind_name :: "source_kind \<Rightarrow> jsstr" where
  "source_kind_name LearningFixture = js ''learning_fixture''"
| "source_kind_name Correction = js ''correction''"
| "source_kind_name RunOutcome = js ''run_outcome''"

record ref_source_ref =
  so_kind :: source_kind
  so_id :: jsstr

record ref_source = ref_source_ref +
  so_sha256 :: "jsstr option"
  so_auditEntryId :: "jsstr option"
  so_resolved :: bool

definition source_ref_ok :: "'a ref_source_ref_scheme \<Rightarrow> bool" where
  "source_ref_ok s \<longleftrightarrow> ref_id (so_id s)"

definition source_ok :: "ref_source \<Rightarrow> bool" where
  "source_ok s \<longleftrightarrow> source_ref_ok s \<and> opt_all hash_text (so_sha256 s) \<and> opt_all ref_id (so_auditEntryId s)
     \<and> (so_resolved s \<longleftrightarrow> so_sha256 s \<noteq> None)"

definition source_ref_json :: "'a ref_source_ref_scheme \<Rightarrow> json" where
  "source_ref_json s = JObj [(js ''kind'', JStr (source_kind_name (so_kind s))), (js ''id'', JStr (so_id s))]"

definition source_json :: "ref_source \<Rightarrow> json" where
  "source_json s = JObj [(js ''kind'', JStr (source_kind_name (so_kind s))), (js ''id'', JStr (so_id s)),
     (js ''sha256'', nullable_json JStr (so_sha256 s)), (js ''auditEntryId'', nullable_json JStr (so_auditEntryId s)),
     (js ''resolved'', JBool (so_resolved s))]"

datatype producer_kind = OperatorImport | EngineModel | MockProducer

fun producer_name :: "producer_kind \<Rightarrow> jsstr" where
  "producer_name OperatorImport = js ''operator_import''"
| "producer_name EngineModel = js ''engine_model''"
| "producer_name MockProducer = js ''deterministic_mock''"

record ref_envelope =
  en_versionId :: jsstr
  en_familyId :: jsstr
  en_revision :: nat
  en_parentVersionId :: "jsstr option"
  en_content :: ref_content
  en_createdAt :: int
  en_producerKind :: producer_kind
  en_producerRunId :: "jsstr option"
  en_modelConfigHash :: "jsstr option"
  en_sources :: "ref_source list"

definition envelope_ok :: "(rat \<Rightarrow> jsstr) \<Rightarrow> ref_envelope \<Rightarrow> bool" where
  "envelope_ok sf e \<longleftrightarrow> ref_id (en_versionId e) \<and> ref_id (en_familyId e) \<and> ref_count (en_revision e) \<and> 0 < en_revision e
     \<and> opt_all ref_id (en_parentVersionId e) \<and> content_ok sf (en_content e) \<and> opt_all ref_id (en_producerRunId e)
     \<and> opt_all hash_text (en_modelConfigHash e) \<and> 1 \<le> length (en_sources e) \<and> length (en_sources e) \<le> 16
     \<and> list_all source_ok (en_sources e)"

definition envelope_json :: "ref_envelope \<Rightarrow> json" where
  "envelope_json e = JObj [(js ''versionId'', JStr (en_versionId e)), (js ''familyId'', JStr (en_familyId e)),
     (js ''revision'', nat_json (en_revision e)), (js ''parentVersionId'', nullable_json JStr (en_parentVersionId e)),
     (js ''content'', content_json (en_content e)),
     (js ''provenance'', JObj [(js ''createdAt'', JStr (iso (en_createdAt e))),
       (js ''producerKind'', JStr (producer_name (en_producerKind e))),
       (js ''producerRunId'', nullable_json JStr (en_producerRunId e)),
       (js ''modelConfigHash'', nullable_json JStr (en_modelConfigHash e)),
       (js ''sources'', JArr (map source_json (en_sources e)))])]"

section \<open>Lifecycle and transitions\<close>

datatype version_state = Proposed | Validated | Approved | Active | Disabled

datatype ref_action = Propose | Validate | Approve | Activate | Disable | Rollback

record mutation_response =
  mr_versionId :: jsstr
  mr_versionHash :: jsstr
  mr_state :: version_state
  mr_scopeGeneration :: nat
  mr_auditEntryId :: jsstr

definition response_ok :: "mutation_response \<Rightarrow> bool" where
  "response_ok r \<longleftrightarrow> ref_id (mr_versionId r) \<and> hash_text (mr_versionHash r) \<and> ref_count (mr_scopeGeneration r)
     \<and> ref_id (mr_auditEntryId r)"

record transition_record =
  tr_action :: ref_action
  tr_requestHash :: jsstr
  tr_response :: mutation_response

definition transition_ok :: "transition_record \<Rightarrow> bool" where
  "transition_ok t \<longleftrightarrow> hash_text (tr_requestHash t) \<and> response_ok (tr_response t)"

section \<open>Qualification and bindings\<close>

datatype execution_kind = SchemaContract | DeterministicMock | RealModel

fun execution_name :: "execution_kind \<Rightarrow> jsstr" where
  "execution_name SchemaContract = js ''schema_contract''"
| "execution_name DeterministicMock = js ''deterministic_mock''"
| "execution_name RealModel = js ''real_model''"

record ref_qualification =
  qu_suiteId :: jsstr
  qu_suiteHash :: jsstr
  qu_learningManifestHash :: jsstr
  qu_validationManifestHash :: jsstr
  qu_caseIds :: "jsstr list"
  qu_checkIds :: "jsstr list"
  qu_executionKind :: execution_kind
  qu_modelConfigHash :: "jsstr option"

definition qualification_ok :: "ref_qualification \<Rightarrow> bool" where
  "qualification_ok q \<longleftrightarrow> ref_id (qu_suiteId q) \<and> hash_text (qu_suiteHash q) \<and> hash_text (qu_learningManifestHash q)
     \<and> hash_text (qu_validationManifestHash q) \<and> 1 \<le> length (qu_caseIds q) \<and> length (qu_caseIds q) \<le> 128
     \<and> list_all ref_id (qu_caseIds q) \<and> 1 \<le> length (qu_checkIds q) \<and> length (qu_checkIds q) \<le> 32
     \<and> list_all ref_id (qu_checkIds q) \<and> opt_all hash_text (qu_modelConfigHash q)
     \<and> distinct (qu_caseIds q) \<and> distinct (qu_checkIds q) \<and> qu_learningManifestHash q \<noteq> qu_validationManifestHash q
     \<and> (qu_executionKind q = SchemaContract \<longleftrightarrow> qu_modelConfigHash q = None)"

definition qualification_json :: "ref_qualification \<Rightarrow> json" where
  "qualification_json q = JObj [(js ''suiteId'', JStr (qu_suiteId q)), (js ''suiteHash'', JStr (qu_suiteHash q)),
     (js ''learningManifestHash'', JStr (qu_learningManifestHash q)),
     (js ''validationManifestHash'', JStr (qu_validationManifestHash q)), (js ''caseIds'', JArr (map JStr (qu_caseIds q))),
     (js ''checkIds'', JArr (map JStr (qu_checkIds q))), (js ''executionKind'', JStr (execution_name (qu_executionKind q))),
     (js ''modelConfigHash'', nullable_json JStr (qu_modelConfigHash q))]"

record ref_bindings =
  bi_versionId :: jsstr
  bi_versionHash :: jsstr
  bi_scopeKey :: jsstr
  bi_workflowContractHash :: jsstr
  bi_workflowBuildHash :: jsstr
  bi_validatorBuildHash :: jsstr
  bi_qualification :: ref_qualification

definition bindings_ok :: "ref_bindings \<Rightarrow> bool" where
  "bindings_ok b \<longleftrightarrow> ref_id (bi_versionId b) \<and> hash_text (bi_versionHash b) \<and> hash_text (bi_scopeKey b)
     \<and> hash_text (bi_workflowContractHash b) \<and> hash_text (bi_workflowBuildHash b) \<and> hash_text (bi_validatorBuildHash b)
     \<and> qualification_ok (bi_qualification b)"

definition bindings_json :: "ref_bindings \<Rightarrow> json" where
  "bindings_json b = JObj [(js ''versionId'', JStr (bi_versionId b)), (js ''versionHash'', JStr (bi_versionHash b)),
     (js ''scopeKey'', JStr (bi_scopeKey b)), (js ''workflowContractHash'', JStr (bi_workflowContractHash b)),
     (js ''workflowBuildHash'', JStr (bi_workflowBuildHash b)), (js ''validatorBuildHash'', JStr (bi_validatorBuildHash b)),
     (js ''qualification'', qualification_json (bi_qualification b))]"

section \<open>Reports\<close>

record ref_case =
  rc_caseId :: jsstr
  rc_inputHash :: jsstr
  rc_outputHash :: jsstr
  rc_checks :: "(jsstr \<times> bool) list"

datatype ref_accounting = NoAccounting | SyntheticAccounting | ProviderReported

datatype ref_role = RootRole | ChildRole

record ref_call =
  rl_callId :: jsstr
  rl_parentCallId :: "jsstr option"
  rl_role :: ref_role
  rl_inputTokens :: nat
  rl_outputTokens :: nat

record ref_report =
  rp_cases :: "ref_case list"
  rp_elapsedMs :: nat
  rp_accounting :: ref_accounting
  rp_calls :: "ref_call list"
  rp_inputTokens :: nat
  rp_outputTokens :: nat

fun accounting_name :: "ref_accounting \<Rightarrow> jsstr" where
  "accounting_name NoAccounting = js ''none''"
| "accounting_name SyntheticAccounting = js ''synthetic''"
| "accounting_name ProviderReported = js ''provider_reported''"

fun role_name :: "ref_role \<Rightarrow> jsstr" where
  "role_name RootRole = js ''root''"
| "role_name ChildRole = js ''child''"

definition check_json :: "jsstr \<times> bool \<Rightarrow> json" where
  "check_json c = JObj [(js ''checkId'', JStr (fst c)), (js ''passed'', JBool (snd c))]"

definition case_json :: "ref_case \<Rightarrow> json" where
  "case_json c = JObj [(js ''caseId'', JStr (rc_caseId c)), (js ''inputHash'', JStr (rc_inputHash c)),
     (js ''outputHash'', JStr (rc_outputHash c)), (js ''checks'', JArr (map check_json (rc_checks c)))]"

definition call_json :: "ref_call \<Rightarrow> json" where
  "call_json c = JObj [(js ''callId'', JStr (rl_callId c)), (js ''parentCallId'', nullable_json JStr (rl_parentCallId c)),
     (js ''role'', JStr (role_name (rl_role c))), (js ''inputTokens'', nat_json (rl_inputTokens c)),
     (js ''outputTokens'', nat_json (rl_outputTokens c))]"

definition report_json :: "ref_report \<Rightarrow> json" where
  "report_json r = JObj [(js ''cases'', JArr (map case_json (rp_cases r))), (js ''elapsedMs'', nat_json (rp_elapsedMs r)),
     (js ''usage'', JObj [(js ''accounting'', JStr (accounting_name (rp_accounting r))),
       (js ''calls'', JArr (map call_json (rp_calls r))), (js ''inputTokens'', nat_json (rp_inputTokens r)),
       (js ''outputTokens'', nat_json (rp_outputTokens r))])]"

definition case_ok :: "ref_case \<Rightarrow> bool" where
  "case_ok c \<longleftrightarrow> ref_id (rc_caseId c) \<and> hash_text (rc_inputHash c) \<and> hash_text (rc_outputHash c)
     \<and> 1 \<le> length (rc_checks c) \<and> length (rc_checks c) \<le> 32 \<and> list_all (ref_id \<circ> fst) (rc_checks c)"

definition call_ok :: "ref_call \<Rightarrow> bool" where
  "call_ok c \<longleftrightarrow> ref_id (rl_callId c) \<and> opt_all ref_id (rl_parentCallId c) \<and> ref_count (rl_inputTokens c)
     \<and> ref_count (rl_outputTokens c)"

definition report_schema :: "(rat \<Rightarrow> jsstr) \<Rightarrow> ref_report \<Rightarrow> bool" where
  "report_schema sf r \<longleftrightarrow> 1 \<le> length (rp_cases r) \<and> length (rp_cases r) \<le> 128 \<and> list_all case_ok (rp_cases r)
     \<and> ref_count (rp_elapsedMs r) \<and> length (rp_calls r) \<le> 512 \<and> list_all call_ok (rp_calls r)
     \<and> ref_count (rp_inputTokens r) \<and> ref_count (rp_outputTokens r)
     \<and> length (utf8 (stringify sf (report_json r))) \<le> REFINEMENT_REPORT_MAX_BYTES"

definition sameSet :: "jsstr list \<Rightarrow> jsstr list \<Rightarrow> bool" where
  "sameSet xs expected \<longleftrightarrow> length xs = length expected \<and> distinct xs \<and> list_all (\<lambda>x. x \<in> set expected) xs"

fun accounting_of :: "execution_kind \<Rightarrow> ref_accounting" where
  "accounting_of SchemaContract = NoAccounting"
| "accounting_of DeterministicMock = SyntheticAccounting"
| "accounting_of RealModel = ProviderReported"

text \<open>The loop over the calls: ids not seen before, a child under a call seen before; the token sums are
  JavaScript additions.\<close>

fun call_loop :: "jsstr set \<Rightarrow> int \<Rightarrow> int \<Rightarrow> ref_call list \<Rightarrow> (int \<times> int) option" where
  "call_loop seen inp out [] = Some (inp, out)"
| "call_loop seen inp out (c # cs) =
     (if rl_callId c \<in> seen then None
      else if (case rl_role c of RootRole \<Rightarrow> rl_parentCallId c \<noteq> None
          | ChildRole \<Rightarrow> (case rl_parentCallId c of None \<Rightarrow> True | Some p \<Rightarrow> p \<notin> seen)) then None
      else call_loop (insert (rl_callId c) seen) (dbl_add inp (int (rl_inputTokens c))) (dbl_add out (int (rl_outputTokens c))) cs)"

text \<open>A report that does not conform to the schema is \<open>None\<close>; the result is the report with its verdict.\<close>

definition all_passed :: "ref_report \<Rightarrow> bool" where
  "all_passed r \<longleftrightarrow> list_all (\<lambda>c. list_all snd (rc_checks c)) (rp_cases r)"

definition report_consistent :: "ref_qualification \<Rightarrow> ref_report \<Rightarrow> bool" where
  "report_consistent p r \<longleftrightarrow>
     sameSet (map rc_caseId (rp_cases r)) (qu_caseIds p)
     \<and> list_all (\<lambda>c. sameSet (map fst (rc_checks c)) (qu_checkIds p)) (rp_cases r)
     \<and> rp_accounting r = accounting_of (qu_executionKind p)
     \<and> (if qu_executionKind p = SchemaContract then rp_calls r = [] else rp_calls r \<noteq> [])
     \<and> (case call_loop {} 0 0 (rp_calls r) of None \<Rightarrow> False
        | Some (inp, out) \<Rightarrow> inp \<le> max_safe \<and> out \<le> max_safe \<and> inp = int (rp_inputTokens r) \<and> out = int (rp_outputTokens r))"

definition inspectRefinementReport :: "(rat \<Rightarrow> jsstr) \<Rightarrow> ref_bindings \<Rightarrow> ref_report option \<Rightarrow> (bool \<times> ref_report) option" where
  "inspectRefinementReport sf b raw =
     (case raw of None \<Rightarrow> None
      | Some r \<Rightarrow> if bindings_ok b \<and> report_schema sf r \<and> report_consistent (bi_qualification b) r
          then Some (all_passed r, r) else None)"

end
