(* ===== verification/Refinements.thy ===== *)
theory Refinements
  imports RefineData
begin

text \<open>
  The refinement manager of governed learning (\<open>packages/engine/src/refinements/manager.ts\<close>) over its three
  tables (\<open>packages/engine/src/data/helpers/refinement-store.ts\<close>, constraints of \<open>data/ddl.ts\<close>) and
  the audit log. Every method runs in one transaction, which restores the tables on an error; validation runs in
  two, with the runner in between. A synchronous method reads one clock value; UUIDs come from a counted supply that
  a rollback does not reset. The registry of workflows and the runner are parameters of each call.
\<close>

section \<open>Tables\<close>

record version_row =
  vw_id :: jsstr
  vw_family_id :: jsstr
  vw_revision :: nat
  vw_parent_id :: "jsstr option"
  vw_scope_key :: jsstr
  vw_version_hash :: jsstr
  vw_proposal_request_hash :: jsstr
  vw_envelope :: "ref_envelope option"
  vw_state :: version_state
  vw_latest_attempt_id :: "jsstr option"
  vw_validated_attempt_id :: "jsstr option"
  vw_approval_audit_id :: "jsstr option"
  vw_last_transition_audit_id :: jsstr
  vw_last_transition :: "transition_record option"
  vw_created_at :: int
  vw_updated_at :: int

record scope_row =
  sw_scope_key :: jsstr
  sw_active_version_id :: "jsstr option"
  sw_generation :: nat
  sw_last_transition_audit_id :: "jsstr option"
  sw_last_transition :: "transition_record option option"

datatype attempt_status = Running | Passed | Failed | Errored

datatype attempt_assurance = ContractOnly | BehaviorMeasured

datatype attempt_reason = CheckFailed | ValidatorError | ValidatorTimeout | Incompatible | ProvenanceUnresolved
  | EvaluationOverlap | ReportInvalid

record validation_row =
  aw_id :: jsstr
  aw_version_id :: jsstr
  aw_version_hash :: jsstr
  aw_status :: attempt_status
  aw_assurance :: attempt_assurance
  aw_bindings :: "ref_bindings option"
  aw_report :: "ref_report option option"
  aw_report_hash :: "jsstr option"
  aw_reason :: "attempt_reason option"
  aw_started_at :: int
  aw_deadline_at :: int
  aw_completed_at :: "int option"

record ref_db =
  rd_versions :: "version_row list"
  rd_scopes :: "scope_row list"
  rd_validations :: "validation_row list"
  rd_audit :: audit_log
  rd_uuids :: nat

record ref_registration =
  rg_workflowId :: jsstr
  rg_workflowContractHash :: jsstr
  rg_workflowBuildHash :: jsstr
  rg_validatorBuildHash :: jsstr
  rg_qualification :: ref_qualification
  rg_runValidation :: bool

record ref_env =
  re_num :: "rat \<Rightarrow> jsstr"
  re_sha :: "bytes \<Rightarrow> jsstr"
  re_uuid :: "nat \<Rightarrow> jsstr"
  re_now :: int
  re_ownerId :: jsstr
  re_registry :: "jsstr \<Rightarrow> ref_registration option"
  re_timeoutMs :: int

section \<open>Actions\<close>

datatype ref_code = RefInvalidRequest | RefNotFound | RefConflict | RefIneligible | RefUnavailable | RefCorrupt
  | RefChanged | RefCapacity

text \<open>A \<open>RefinementError\<close>, or any other error of the host.\<close>

datatype ref_fault = RefError ref_code | HostError

type_synonym 'a ract = "ref_db \<Rightarrow> (ref_fault + 'a) \<times> ref_db"

definition rret :: "'a \<Rightarrow> 'a ract" where
  "rret x st = (Inr x, st)"

definition rfail :: "ref_code \<Rightarrow> 'a ract" where
  "rfail e st = (Inl (RefError e), st)"

definition rbind :: "'a ract \<Rightarrow> ('a \<Rightarrow> 'b ract) \<Rightarrow> 'b ract" where
  "rbind m f st = (case m st of (Inl e, st') \<Rightarrow> (Inl e, st') | (Inr x, st') \<Rightarrow> f x st')"

definition rread :: "(ref_db \<Rightarrow> 'a) \<Rightarrow> 'a ract" where
  "rread f st = (Inr (f st), st)"

text \<open>A computation on the tables that may throw.\<close>

definition rtry :: "(ref_db \<Rightarrow> ref_code + 'a) \<Rightarrow> 'a ract" where
  "rtry f st = (case f st of Inl e \<Rightarrow> (Inl (RefError e), st) | Inr x \<Rightarrow> (Inr x, st))"

text \<open>A write; a constraint violation is an error of the host.\<close>

definition rsql :: "(ref_db \<Rightarrow> sql_error + ref_db) \<Rightarrow> unit ract" where
  "rsql f st = (case f st of Inl e \<Rightarrow> (Inl HostError, st) | Inr st' \<Rightarrow> (Inr (), st'))"

definition runless :: "bool \<Rightarrow> ref_code \<Rightarrow> unit ract" where
  "runless b e = (if b then rret () else rfail e)"

definition atomic :: "'a ract \<Rightarrow> 'a ract" where
  "atomic m st =
     (case m st of
        (Inl f, st') \<Rightarrow> (Inl (RefError (case f of RefError c \<Rightarrow> c | HostError \<Rightarrow> RefUnavailable)), st\<lparr>rd_uuids := rd_uuids st'\<rparr>)
      | (Inr x, st') \<Rightarrow> (Inr x, st'))"

definition fresh_ref :: "ref_env \<Rightarrow> jsstr ract" where
  "fresh_ref env st = (Inr (re_uuid env (rd_uuids st)), st\<lparr>rd_uuids := rd_uuids st + 1\<rparr>)"

definition rhash :: "ref_env \<Rightarrow> json \<Rightarrow> jsstr ract" where
  "rhash env v = (case refinementHash (re_num env) (re_sha env) v of None \<Rightarrow> rfail RefInvalidRequest | Some x \<Rightarrow> rret x)"

section \<open>The store\<close>

definition readVersion :: "ref_db \<Rightarrow> jsstr \<Rightarrow> version_row option" where
  "readVersion st i = first_row (filter (\<lambda>r. vw_id r = i) (rd_versions st))"

definition readProposal :: "ref_db \<Rightarrow> jsstr \<Rightarrow> version_row option" where
  "readProposal st hh = first_row (filter (\<lambda>r. vw_proposal_request_hash r = hh) (rd_versions st))"

definition versionCount :: "ref_db \<Rightarrow> nat" where
  "versionCount st = length (rd_versions st)"

definition nextRevision :: "ref_db \<Rightarrow> jsstr \<Rightarrow> nat" where
  "nextRevision st family = Max (insert 0 (vw_revision ` {r \<in> set (rd_versions st). vw_family_id r = family})) + 1"

definition insertVersion :: "version_row \<Rightarrow> ref_db \<Rightarrow> sql_error + ref_db" where
  "insertVersion row st =
     try_bind (insert_row (\<lambda>r row. vw_id r = vw_id row \<or> vw_proposal_request_hash r = vw_proposal_request_hash row
         \<or> vw_family_id r = vw_family_id row \<and> vw_revision r = vw_revision row
         \<or> vw_scope_key r = vw_scope_key row \<and> vw_state r = Active \<and> vw_state row = Active) row (rd_versions st))
       (\<lambda>rows. Inr (st\<lparr>rd_versions := rows\<rparr>))"

definition set_version_state :: "version_row \<Rightarrow> version_row \<Rightarrow> version_row" where
  "set_version_state row r = r\<lparr>vw_state := vw_state row, vw_latest_attempt_id := vw_latest_attempt_id row,
     vw_validated_attempt_id := vw_validated_attempt_id row, vw_approval_audit_id := vw_approval_audit_id row,
     vw_last_transition_audit_id := vw_last_transition_audit_id row, vw_last_transition := vw_last_transition row,
     vw_updated_at := vw_updated_at row\<rparr>"

definition one_active :: "version_row list \<Rightarrow> bool" where
  "one_active rows \<longleftrightarrow> distinct (map vw_scope_key (filter (\<lambda>r. vw_state r = Active) rows))"

definition updateVersionState :: "version_row \<Rightarrow> ref_db \<Rightarrow> sql_error + ref_db" where
  "updateVersionState row st =
     (let rows = update_where (\<lambda>r. vw_id r = vw_id row) (set_version_state row) (rd_versions st)
      in if one_active rows then Inr (st\<lparr>rd_versions := rows\<rparr>) else Inl UniqueViolation)"

definition version_key :: "version_row \<Rightarrow> bytes \<times> bytes" where
  "version_key r = (utf8 (iso (vw_created_at r)), utf8 (vw_id r))"

definition listVersions :: "ref_db \<Rightarrow> nat \<Rightarrow> jsstr option \<Rightarrow> version_row option \<Rightarrow> version_row list" where
  "listVersions st n scopeKey cursor =
     take n (order_desc version_key (filter (\<lambda>r. (case scopeKey of None \<Rightarrow> True | Some k \<Rightarrow> vw_scope_key r = k)
       \<and> (case cursor of None \<Rightarrow> True | Some c \<Rightarrow> version_key r < version_key c)) (rd_versions st)))"

definition readScope :: "ref_db \<Rightarrow> jsstr \<Rightarrow> scope_row option" where
  "readScope st k = first_row (filter (\<lambda>r. sw_scope_key r = k) (rd_scopes st))"

definition insertScope :: "jsstr \<Rightarrow> ref_db \<Rightarrow> ref_db" where
  "insertScope k st =
     (if readScope st k = None
      then st\<lparr>rd_scopes := rd_scopes st @ [\<lparr>sw_scope_key = k, sw_active_version_id = None, sw_generation = 0,
         sw_last_transition_audit_id = None, sw_last_transition = None\<rparr>]\<rparr>
      else st)"

definition updateScope :: "scope_row \<Rightarrow> ref_db \<Rightarrow> ref_db" where
  "updateScope row st =
     st\<lparr>rd_scopes := update_where (\<lambda>r. sw_scope_key r = sw_scope_key row)
       (\<lambda>r. r\<lparr>sw_active_version_id := sw_active_version_id row, sw_generation := sw_generation row,
          sw_last_transition_audit_id := sw_last_transition_audit_id row, sw_last_transition := sw_last_transition row\<rparr>)
       (rd_scopes st)\<rparr>"

definition readValidation :: "ref_db \<Rightarrow> jsstr \<Rightarrow> validation_row option" where
  "readValidation st i = first_row (filter (\<lambda>r. aw_id r = i) (rd_validations st))"

definition listValidations :: "ref_db \<Rightarrow> jsstr \<Rightarrow> validation_row list" where
  "listValidations st v =
     take 33 (order_desc (\<lambda>r. (utf8 (iso (aw_started_at r)), utf8 (aw_id r)))
       (filter (\<lambda>r. aw_version_id r = v) (rd_validations st)))"

definition insertValidation :: "validation_row \<Rightarrow> ref_db \<Rightarrow> sql_error + ref_db" where
  "insertValidation row st =
     try_bind (insert_row (\<lambda>r row. aw_id r = aw_id row
         \<or> aw_version_id r = aw_version_id row \<and> aw_status r = Running \<and> aw_status row = Running) row (rd_validations st))
       (\<lambda>rows. Inr (st\<lparr>rd_validations := rows\<rparr>))"

definition finishValidation :: "validation_row \<Rightarrow> ref_db \<Rightarrow> bool \<times> ref_db" where
  "finishValidation row st =
     (length (filter (\<lambda>r. aw_id r = aw_id row \<and> aw_status r = Running) (rd_validations st)) = 1,
      st\<lparr>rd_validations := update_where (\<lambda>r. aw_id r = aw_id row \<and> aw_status r = Running)
        (\<lambda>r. r\<lparr>aw_status := aw_status row, aw_assurance := aw_assurance row, aw_report := aw_report row,
           aw_report_hash := aw_report_hash row, aw_reason := aw_reason row, aw_completed_at := aw_completed_at row\<rparr>)
        (rd_validations st)\<rparr>)"

section \<open>Registration and compatibility\<close>

definition MAX_VERSIONS :: nat where "MAX_VERSIONS = 128"

definition MAX_ATTEMPTS :: nat where "MAX_ATTEMPTS = 32"

definition descriptor_ok :: "ref_registration \<Rightarrow> bool" where
  "descriptor_ok r \<longleftrightarrow> ref_id (rg_workflowId r) \<and> hash_text (rg_workflowContractHash r) \<and> hash_text (rg_workflowBuildHash r)
     \<and> hash_text (rg_validatorBuildHash r) \<and> qualification_ok (rg_qualification r)"

definition registration :: "ref_env \<Rightarrow> jsstr \<Rightarrow> bool \<Rightarrow> ref_code + ref_registration" where
  "registration env workflowId requireRunner =
     (case re_registry env workflowId of None \<Rightarrow> Inl RefUnavailable
      | Some r \<Rightarrow> if \<not> descriptor_ok r \<or> rg_workflowId r \<noteq> workflowId \<or> requireRunner \<and> \<not> rg_runValidation r
          then Inl RefUnavailable else Inr r)"

text \<open>A decoded version is its row with the decoded envelope.\<close>

type_synonym ref_version = "version_row \<times> ref_envelope"

definition bindings :: "ref_env \<Rightarrow> ref_version \<Rightarrow> ref_code + ref_bindings" where
  "bindings env v =
     (case v of (row, en) \<Rightarrow>
      (let sc = ct_scope (en_content en) in
       try_bind (registration env (sc_workflowId sc) True) (\<lambda>r.
         if rg_workflowContractHash r \<noteq> sc_workflowContractHash sc then Inl RefIneligible
         else Inr \<lparr>bi_versionId = en_versionId en, bi_versionHash = vw_version_hash row, bi_scopeKey = vw_scope_key row,
           bi_workflowContractHash = rg_workflowContractHash r, bi_workflowBuildHash = rg_workflowBuildHash r,
           bi_validatorBuildHash = rg_validatorBuildHash r, bi_qualification = rg_qualification r\<rparr>)))"

record ref_attempt =
  va_id :: jsstr
  va_bindings :: ref_bindings
  va_status :: attempt_status
  va_assurance :: attempt_assurance
  va_report :: "ref_report option"
  va_reportHash :: "jsstr option"
  va_reason :: "attempt_reason option"
  va_startedAt :: int
  va_deadlineAt :: int
  va_completedAt :: "int option"

definition same_canonical :: "ref_env \<Rightarrow> json \<Rightarrow> json \<Rightarrow> bool" where
  "same_canonical env a b \<longleftrightarrow> canonicalJson (re_num env) a \<noteq> None \<and> canonicalJson (re_num env) a = canonicalJson (re_num env) b"

definition compatible :: "ref_env \<Rightarrow> ref_version \<Rightarrow> ref_attempt option \<Rightarrow> bool" where
  "compatible env v attempt =
     (case bindings env v of Inl _ \<Rightarrow> False
      | Inr b \<Rightarrow> (case attempt of None \<Rightarrow> True
          | Some a \<Rightarrow> same_canonical env (bindings_json b) (bindings_json (va_bindings a))))"

section \<open>Decoding rows\<close>

definition version_view_ok :: "version_row \<Rightarrow> bool" where
  "version_view_ok row \<longleftrightarrow> hash_text (vw_version_hash row) \<and> hash_text (vw_scope_key row)
     \<and> opt_all ref_id (vw_latest_attempt_id row) \<and> opt_all ref_id (vw_validated_attempt_id row)
     \<and> opt_all ref_id (vw_approval_audit_id row) \<and> ref_id (vw_last_transition_audit_id row)"

definition version_integrity :: "(rat \<Rightarrow> jsstr) \<Rightarrow> (bytes \<Rightarrow> jsstr) \<Rightarrow> version_row \<Rightarrow> ref_envelope \<Rightarrow> transition_record \<Rightarrow> bool" where
  "version_integrity sf h row en t \<longleftrightarrow>
     en_versionId en = vw_id row \<and> en_familyId en = vw_family_id row \<and> en_revision en = vw_revision row
     \<and> en_parentVersionId en = vw_parent_id row \<and> en_createdAt en = vw_created_at row
     \<and> refinementHash sf h (envelope_json en) = Some (vw_version_hash row)
     \<and> refinementHash sf h (scope_json (ct_scope (en_content en))) = Some (vw_scope_key row)
     \<and> mr_versionId (tr_response t) = vw_id row \<and> mr_versionHash (tr_response t) = vw_version_hash row
     \<and> mr_state (tr_response t) = vw_state row \<and> mr_auditEntryId (tr_response t) = vw_last_transition_audit_id row
     \<and> \<not> (vw_validated_attempt_id row \<noteq> None \<and> vw_latest_attempt_id row \<noteq> vw_validated_attempt_id row)
     \<and> \<not> (vw_approval_audit_id row \<noteq> None \<and> vw_validated_attempt_id row = None)
     \<and> \<not> (vw_state row \<in> {Approved, Active} \<and> vw_approval_audit_id row = None)
     \<and> \<not> (vw_state row = Validated \<and> (vw_validated_attempt_id row = None \<or> vw_approval_audit_id row \<noteq> None))
     \<and> \<not> (vw_state row = Proposed \<and> (vw_validated_attempt_id row \<noteq> None \<or> vw_approval_audit_id row \<noteq> None))"

definition decodeVersion :: "(rat \<Rightarrow> jsstr) \<Rightarrow> (bytes \<Rightarrow> jsstr) \<Rightarrow> version_row \<Rightarrow> ref_code + ref_version" where
  "decodeVersion sf h row =
     (case (vw_envelope row, vw_last_transition row) of
        (Some en, Some t) \<Rightarrow>
          if envelope_ok sf en \<and> transition_ok t \<and> version_view_ok row \<and> version_integrity sf h row en t
          then Inr (row, en) else Inl RefCorrupt
      | _ \<Rightarrow> Inl RefCorrupt)"

definition version_in :: "ref_env \<Rightarrow> jsstr \<Rightarrow> ref_db \<Rightarrow> ref_code + ref_version" where
  "version_in env i st =
     (case readVersion st i of None \<Rightarrow> Inl RefNotFound | Some row \<Rightarrow> decodeVersion (re_num env) (re_sha env) row)"

definition version :: "ref_env \<Rightarrow> jsstr \<Rightarrow> ref_version ract" where
  "version env i = rtry (version_in env i)"

definition scope_view_ok :: "scope_row \<Rightarrow> bool" where
  "scope_view_ok row \<longleftrightarrow> hash_text (sw_scope_key row) \<and> opt_all ref_id (sw_active_version_id row)
     \<and> ref_count (sw_generation row) \<and> opt_all ref_id (sw_last_transition_audit_id row)"

definition scope_integrity :: "scope_row \<Rightarrow> bool" where
  "scope_integrity row \<longleftrightarrow>
     (case sw_last_transition row of
        None \<Rightarrow> sw_last_transition_audit_id row = None
      | Some None \<Rightarrow> False
      | Some (Some t) \<Rightarrow> transition_ok t \<and> mr_scopeGeneration (tr_response t) = sw_generation row
          \<and> sw_last_transition_audit_id row = Some (mr_auditEntryId (tr_response t)))"

definition scope_in :: "ref_env \<Rightarrow> jsstr \<Rightarrow> ref_db \<Rightarrow> ref_code + scope_row" where
  "scope_in env k st =
     (case readScope st k of None \<Rightarrow> Inl RefCorrupt
      | Some row \<Rightarrow>
        if \<not> (scope_view_ok row \<and> scope_integrity row) then Inl RefCorrupt
        else (case sw_active_version_id row of None \<Rightarrow> Inr row
          | Some i \<Rightarrow> try_bind (version_in env i st) (\<lambda>(r, en).
              if vw_state r \<noteq> Active \<or> vw_scope_key r \<noteq> k then Inl RefCorrupt else Inr row)))"

definition scope :: "ref_env \<Rightarrow> jsstr \<Rightarrow> scope_row ract" where
  "scope env k = rtry (scope_in env k)"

definition attempt_view_ok :: "(rat \<Rightarrow> jsstr) \<Rightarrow> ref_attempt \<Rightarrow> bool" where
  "attempt_view_ok sf a \<longleftrightarrow> ref_id (va_id a) \<and> bindings_ok (va_bindings a) \<and> opt_all (report_schema sf) (va_report a)
     \<and> opt_all hash_text (va_reportHash a)"

definition assurance_of :: "ref_bindings \<Rightarrow> ref_report option \<Rightarrow> attempt_assurance" where
  "assurance_of b r =
     (if r \<noteq> None \<and> qu_executionKind (bi_qualification b) = RealModel then BehaviorMeasured else ContractOnly)"

definition attempt_integrity :: "(rat \<Rightarrow> jsstr) \<Rightarrow> (bytes \<Rightarrow> jsstr) \<Rightarrow> ref_attempt \<Rightarrow> bool" where
  "attempt_integrity sf h a \<longleftrightarrow>
     va_assurance a = assurance_of (va_bindings a) (va_report a)
     \<and> va_startedAt a < va_deadlineAt a \<and> va_deadlineAt a - va_startedAt a \<le> 300000
     \<and> (va_status a = Running \<longleftrightarrow> va_completedAt a = None)
     \<and> \<not> (va_status a = Running \<and> (va_report a \<noteq> None \<or> va_reportHash a \<noteq> None \<or> va_reason a \<noteq> None))
     \<and> \<not> (va_status a = Errored \<and> (va_reason a = None \<or> va_report a \<noteq> None \<or> va_reportHash a \<noteq> None))
     \<and> (va_status a \<in> {Passed, Failed} \<longrightarrow>
          (case inspectRefinementReport sf (va_bindings a) (va_report a) of None \<Rightarrow> False
           | Some (ok, r) \<Rightarrow> refinementHash sf h (report_json r) = va_reportHash a \<and> va_reportHash a \<noteq> None
               \<and> (ok \<longleftrightarrow> va_status a = Passed)
               \<and> (if va_status a = Passed then va_reason a = None else va_reason a = Some CheckFailed)))"

definition decodeValidation :: "(rat \<Rightarrow> jsstr) \<Rightarrow> (bytes \<Rightarrow> jsstr) \<Rightarrow> validation_row \<Rightarrow> ref_code + ref_attempt" where
  "decodeValidation sf h row =
     (case (aw_bindings row, aw_report row) of
        (None, _) \<Rightarrow> Inl RefCorrupt
      | (_, Some None) \<Rightarrow> Inl RefCorrupt
      | (Some b, rep) \<Rightarrow>
        (let a = \<lparr>va_id = aw_id row, va_bindings = b, va_status = aw_status row, va_assurance = aw_assurance row,
           va_report = (case rep of Some (Some r) \<Rightarrow> Some r | _ \<Rightarrow> None), va_reportHash = aw_report_hash row,
           va_reason = aw_reason row, va_startedAt = aw_started_at row, va_deadlineAt = aw_deadline_at row,
           va_completedAt = aw_completed_at row\<rparr>
         in if attempt_view_ok sf a \<and> bi_versionId b = aw_version_id row \<and> bi_versionHash b = aw_version_hash row
               \<and> attempt_integrity sf h a
            then Inr a else Inl RefCorrupt))"

definition attempt_in :: "ref_env \<Rightarrow> jsstr \<Rightarrow> ref_db \<Rightarrow> ref_code + ref_attempt" where
  "attempt_in env i st =
     (case readValidation st i of None \<Rightarrow> Inl RefCorrupt | Some row \<Rightarrow> decodeValidation (re_num env) (re_sha env) row)"

definition attempt :: "ref_env \<Rightarrow> jsstr \<Rightarrow> ref_attempt ract" where
  "attempt env i = rtry (attempt_in env i)"

section \<open>Audit events and transitions\<close>

definition audit_metadata_keys :: "jsstr list" where
  "audit_metadata_keys = map js [''versionHash'', ''requestHash'', ''scopeGeneration'', ''parentVersionId'', ''attemptId'',
     ''phase'', ''reportHash'', ''status'', ''reason'', ''validationId'', ''actorKind'', ''rollback'', ''replacementVersionId'',
     ''approvalAuditId'', ''reasonHash'', ''runId'']"

text \<open>No event of the manager has \<open>sourceIds\<close>; a count that is not one is dropped.\<close>

definition refinementAuditMetadata :: "jsstr \<Rightarrow> jsstr \<Rightarrow> (jsstr \<times> json) list \<Rightarrow> (jsstr \<times> json) list" where
  "refinementAuditMetadata versionId scopeKey metadata =
     [(js ''versionId'', JStr versionId), (js ''scopeKey'', JStr scopeKey)]
     @ concat (map (\<lambda>k. case map_of metadata k of None \<Rightarrow> [] | Some v \<Rightarrow> [(k, v)]) audit_metadata_keys)
     @ (case map_of metadata (js ''sourceCount'') of
          Some v \<Rightarrow> (case safe_nat v of Some _ \<Rightarrow> [(js ''sourceCount'', v)] | None \<Rightarrow> [])
        | None \<Rightarrow> [])"

definition ref_audit_env :: "ref_env \<Rightarrow> jsstr \<Rightarrow> audit_env" where
  "ref_audit_env env u = \<lparr>show_frac = re_num env, sha = re_sha env, today = take 10 (iso (re_now env)), now = iso (re_now env),
     uuid = u\<rparr>"

definition refinement_event :: "ref_env \<Rightarrow> jsstr \<Rightarrow> version_row \<Rightarrow> (jsstr \<times> json) list \<Rightarrow> audit_outcome \<Rightarrow> audit_params" where
  "refinement_event env action row metadata out =
     \<lparr>p_userId = re_ownerId env, p_agentId = js ''governed-learning'', p_sessionId = js ''refinement-control'',
      p_toolName = js ''refinement.'' @ action, p_service = js ''refinement'', p_verb = action, p_noun = vw_scope_key row,
      p_decision = Allow, p_origin = Some Human,
      p_parametersMetadata = refinementAuditMetadata (vw_id row) (vw_scope_key row)
        ((js ''versionHash'', JStr (vw_version_hash row)) # metadata),
      p_outcome = out, p_errorMessage = None, p_latencyMs = JInt 0, p_costUsd = None, p_epochId = None,
      p_timestamp = Some (iso (re_now env))\<rparr>"

definition emit :: "ref_env \<Rightarrow> string \<Rightarrow> version_row \<Rightarrow> (jsstr \<times> json) list \<Rightarrow> audit_outcome \<Rightarrow> jsstr ract" where
  "emit env action row metadata out =
     rbind (fresh_ref env) (\<lambda>u st.
       case insertAuditEntryInTxn (ref_audit_env env u) (refinement_event env (js action) row metadata out) (rd_audit st) of
         Inl e \<Rightarrow> (Inl HostError, st)
       | Inr (r, rows) \<Rightarrow>
           if r_id r = [] then (Inl (RefError RefUnavailable), st\<lparr>rd_audit := rows\<rparr>) else (Inr (r_id r), st\<lparr>rd_audit := rows\<rparr>))"

text \<open>The method \<open>transition\<close>: the changed row and the response.\<close>

definition transition :: "ref_env \<Rightarrow> version_row \<Rightarrow> nat \<Rightarrow> ref_action \<Rightarrow> jsstr \<Rightarrow> jsstr \<Rightarrow> version_row \<times> mutation_response" where
  "transition env row generation action requestHash auditId =
     (let response = \<lparr>mr_versionId = vw_id row, mr_versionHash = vw_version_hash row, mr_state = vw_state row,
        mr_scopeGeneration = generation, mr_auditEntryId = auditId\<rparr>
      in (row\<lparr>vw_last_transition_audit_id := auditId, vw_updated_at := re_now env,
            vw_last_transition := Some \<lparr>tr_action = action, tr_requestHash = requestHash, tr_response = response\<rparr>\<rparr>, response))"

definition repeated :: "version_row \<Rightarrow> scope_row \<Rightarrow> ref_action \<Rightarrow> jsstr \<Rightarrow> mutation_response option" where
  "repeated row sc action requestHash =
     (case vw_last_transition row of None \<Rightarrow> None
      | Some t \<Rightarrow> if tr_action t = action \<and> tr_requestHash t = requestHash
            \<and> mr_scopeGeneration (tr_response t) = sw_generation sc
          then Some (tr_response t) else None)"

definition boundVersion :: "ref_env \<Rightarrow> jsstr \<Rightarrow> jsstr \<Rightarrow> ref_version ract" where
  "boundVersion env versionId versionHash =
     rbind (version env versionId) (\<lambda>v.
       if vw_version_hash (fst v) \<noteq> versionHash then rfail RefConflict else rret v)"

definition passed :: "ref_env \<Rightarrow> ref_version \<Rightarrow> jsstr \<Rightarrow> jsstr option \<Rightarrow> ref_attempt ract" where
  "passed env v i hh =
     (if vw_validated_attempt_id (fst v) \<noteq> Some i \<or> vw_latest_attempt_id (fst v) \<noteq> Some i then rfail RefIneligible
      else rbind (attempt env i) (\<lambda>a.
        if va_status a \<noteq> Passed \<or> va_reportHash a \<noteq> hh \<or> bi_versionId (va_bindings a) \<noteq> en_versionId (snd v)
           \<or> bi_versionHash (va_bindings a) \<noteq> vw_version_hash (fst v) \<or> \<not> compatible env v (Some a)
        then rfail RefIneligible else rret a))"

section \<open>Completion of attempts\<close>

definition attemptRow :: "ref_attempt \<Rightarrow> validation_row" where
  "attemptRow a = \<lparr>aw_id = va_id a, aw_version_id = bi_versionId (va_bindings a), aw_version_hash = bi_versionHash (va_bindings a),
     aw_status = va_status a, aw_assurance = va_assurance a, aw_bindings = Some (va_bindings a),
     aw_report = map_option Some (va_report a), aw_report_hash = va_reportHash a, aw_reason = va_reason a,
     aw_started_at = va_startedAt a, aw_deadline_at = va_deadlineAt a, aw_completed_at = va_completedAt a\<rparr>"

fun status_name :: "attempt_status \<Rightarrow> jsstr" where
  "status_name Running = js ''running''"
| "status_name Passed = js ''passed''"
| "status_name Failed = js ''failed''"
| "status_name Errored = js ''error''"

fun reason_name :: "attempt_reason \<Rightarrow> jsstr" where
  "reason_name CheckFailed = js ''CHECK_FAILED''"
| "reason_name ValidatorError = js ''VALIDATOR_ERROR''"
| "reason_name ValidatorTimeout = js ''VALIDATOR_TIMEOUT''"
| "reason_name Incompatible = js ''INCOMPATIBLE''"
| "reason_name ProvenanceUnresolved = js ''PROVENANCE_UNRESOLVED''"
| "reason_name EvaluationOverlap = js ''EVALUATION_OVERLAP''"
| "reason_name ReportInvalid = js ''REPORT_INVALID''"

text \<open>Timeout and incompatibility override what the runner brought; then the report is inspected.\<close>

definition verdict ::
  "ref_env \<Rightarrow> ref_version \<Rightarrow> ref_attempt \<Rightarrow> ref_report option \<Rightarrow> attempt_reason option
   \<Rightarrow> attempt_reason option \<times> (bool \<times> ref_report) option" where
  "verdict env v a raw fail0 =
     (let f1 = (if re_now env \<ge> va_deadlineAt a then Some ValidatorTimeout else fail0);
          f2 = (if \<not> compatible env v (Some a) then Some Incompatible else f1);
          checked = (if f2 = None then inspectRefinementReport (re_num env) (va_bindings a) raw else None)
      in (if f2 = None \<and> checked = None then Some ReportInvalid else f2, checked))"

definition completed_attempt ::
  "ref_env \<Rightarrow> ref_attempt \<Rightarrow> attempt_reason option \<Rightarrow> (bool \<times> ref_report) option \<Rightarrow> jsstr option \<Rightarrow> ref_attempt" where
  "completed_attempt env a fault checked hh =
     (let rep = map_option snd checked; ok = (case checked of None \<Rightarrow> False | Some (b, _) \<Rightarrow> b)
      in a\<lparr>va_report := rep, va_assurance := assurance_of (va_bindings a) rep, va_reportHash := hh,
           va_status := (if fault \<noteq> None then Errored else if ok then Passed else Failed),
           va_reason := (if fault \<noteq> None then fault else if ok then None else Some CheckFailed),
           va_completedAt := Some (re_now env)\<rparr>)"

definition report_hash :: "ref_env \<Rightarrow> (bool \<times> ref_report) option \<Rightarrow> jsstr option ract" where
  "report_hash env checked =
     (case checked of None \<Rightarrow> rret None | Some (_, r) \<Rightarrow> rbind (rhash env (report_json r)) (\<lambda>x. rret (Some x)))"

definition completed_row :: "version_row \<Rightarrow> ref_attempt \<Rightarrow> version_row" where
  "completed_row row c =
     (if va_status c = Passed then row\<lparr>vw_state := Validated, vw_validated_attempt_id := Some (va_id c), vw_approval_audit_id := None\<rparr>
      else row\<lparr>vw_state := (if vw_state row = Disabled then Disabled else Proposed), vw_validated_attempt_id := None,
             vw_approval_audit_id := None\<rparr>)"

definition completion_json :: "ref_attempt \<Rightarrow> json" where
  "completion_json c = JObj [(js ''attemptId'', JStr (va_id c)), (js ''reportHash'', nullable_json JStr (va_reportHash c)),
     (js ''status'', JStr (status_name (va_status c)))]"

definition finish_attempt :: "ref_attempt \<Rightarrow> bool ract" where
  "finish_attempt c st = (case finishValidation (attemptRow c) st of (won, st') \<Rightarrow> (Inr won, st'))"

definition record_completion :: "ref_env \<Rightarrow> version_row \<Rightarrow> ref_attempt \<Rightarrow> unit ract" where
  "record_completion env row c =
     rbind (scope env (vw_scope_key row)) (\<lambda>sc.
     rbind (rhash env (completion_json c)) (\<lambda>requestHash.
     rbind (emit env ''validate'' row [(js ''phase'', JStr (js ''completed'')), (js ''attemptId'', JStr (va_id c)),
         (js ''reportHash'', nullable_json JStr (va_reportHash c)), (js ''status'', JStr (status_name (va_status c))),
         (js ''reason'', nullable_json (JStr \<circ> reason_name) (va_reason c)), (js ''requestHash'', JStr requestHash)]
         (if va_status c = Passed then Success else ErrorOutcome)) (\<lambda>audit.
     rsql (updateVersionState (fst (transition env (completed_row row c) (sw_generation sc) Validate requestHash audit))))))"

definition complete :: "ref_env \<Rightarrow> jsstr \<Rightarrow> ref_report option \<Rightarrow> attempt_reason option \<Rightarrow> unit ract" where
  "complete env i raw fail0 =
     rbind (attempt env i) (\<lambda>a.
       if va_status a \<noteq> Running then rret ()
       else rbind (version env (bi_versionId (va_bindings a))) (\<lambda>(row, en).
         if vw_latest_attempt_id row \<noteq> Some i \<or> vw_version_hash row \<noteq> bi_versionHash (va_bindings a) then rfail RefCorrupt
         else (case verdict env (row, en) a raw fail0 of (fault, checked) \<Rightarrow>
           rbind (report_hash env checked) (\<lambda>hh.
             (let c = completed_attempt env a fault checked hh in
              rbind (finish_attempt c) (\<lambda>won. if \<not> won then rret () else record_completion env row c))))))"

definition recover :: "ref_env \<Rightarrow> jsstr \<Rightarrow> unit ract" where
  "recover env versionId =
     rbind (version env versionId) (\<lambda>(row, en).
       case vw_latest_attempt_id row of None \<Rightarrow> rret ()
       | Some i \<Rightarrow> rbind (attempt env i) (\<lambda>a.
           if va_status a = Running \<and> va_deadlineAt a \<le> re_now env then complete env i None (Some ValidatorTimeout) else rret ()))"

section \<open>Reads\<close>

record ref_detail =
  dt_version :: ref_version
  dt_scope :: scope_row
  dt_validations :: "ref_attempt list"
  dt_compatible :: bool
  dt_qualification :: "ref_qualification option"

fun decode_all :: "(rat \<Rightarrow> jsstr) \<Rightarrow> (bytes \<Rightarrow> jsstr) \<Rightarrow> validation_row list \<Rightarrow> ref_code + ref_attempt list" where
  "decode_all sf h [] = Inr []"
| "decode_all sf h (r # rs) = try_bind (decodeValidation sf h r) (\<lambda>a. try_bind (decode_all sf h rs) (\<lambda>as. Inr (a # as)))"

definition detail :: "ref_env \<Rightarrow> jsstr \<Rightarrow> ref_detail ract" where
  "detail env i =
     rbind (version env i) (\<lambda>v.
     rbind (rtry (\<lambda>st. decode_all (re_num env) (re_sha env) (listValidations st i))) (\<lambda>vals.
       if length vals > MAX_ATTEMPTS then rfail RefCorrupt
       else
         rbind (case vw_latest_attempt_id (fst v) of None \<Rightarrow> rret None | Some j \<Rightarrow> rbind (attempt env j) (\<lambda>a. rret (Some a)))
           (\<lambda>latest.
             if (case latest of None \<Rightarrow> False
                 | Some a \<Rightarrow> bi_versionId (va_bindings a) \<noteq> i \<or> bi_versionHash (va_bindings a) \<noteq> vw_version_hash (fst v))
             then rfail RefCorrupt
             else rbind (scope env (vw_scope_key (fst v))) (\<lambda>sc.
               rret \<lparr>dt_version = v, dt_scope = sc, dt_validations = vals, dt_compatible = compatible env v latest,
                 dt_qualification = (case registration env (sc_workflowId (ct_scope (en_content (snd v)))) False of
                   Inl _ \<Rightarrow> None | Inr r \<Rightarrow> Some (rg_qualification r))\<rparr>))))"

definition get_refinement :: "ref_env \<Rightarrow> jsstr \<Rightarrow> ref_detail ract" where
  "get_refinement env i = atomic (rbind (recover env i) (\<lambda>_. detail env i))"

record list_request =
  lq_userId :: jsstr
  lq_scopeKey :: "jsstr option"
  lq_limit :: "nat option"
  lq_cursor :: "jsstr option"

definition list_request_ok :: "list_request \<Rightarrow> bool" where
  "list_request_ok r \<longleftrightarrow> is_well_formed (lq_userId r) \<and> opt_all hash_text (lq_scopeKey r)
     \<and> opt_all (\<lambda>n. 1 \<le> n \<and> n \<le> 50) (lq_limit r) \<and> opt_all ref_id (lq_cursor r)"

definition owned :: "ref_env \<Rightarrow> jsstr \<Rightarrow> unit ract" where
  "owned env user = runless (user = re_ownerId env) RefNotFound"

fun read_page :: "ref_env \<Rightarrow> version_row list \<Rightarrow> ref_version list ract" where
  "read_page env [] = rret []"
| "read_page env (r # rs) =
     rbind (recover env (vw_id r)) (\<lambda>_. rbind (version env (vw_id r)) (\<lambda>v. rbind (read_page env rs) (\<lambda>vs. rret (v # vs))))"

definition list_refinements :: "ref_env \<Rightarrow> list_request \<Rightarrow> (ref_version list \<times> jsstr option) ract" where
  "list_refinements env rq =
     rbind (runless (list_request_ok rq) RefInvalidRequest) (\<lambda>_.
     rbind (owned env (lq_userId rq)) (\<lambda>_.
     atomic
       (rbind (case lq_cursor rq of None \<Rightarrow> rret None | Some c \<Rightarrow> rbind (version env c) (\<lambda>v. rret (Some (fst v)))) (\<lambda>cursor.
        rbind (runless (case (cursor, lq_scopeKey rq) of (Some c, Some k) \<Rightarrow> vw_scope_key c = k | _ \<Rightarrow> True) RefInvalidRequest) (\<lambda>_.
        (let n = (case lq_limit rq of None \<Rightarrow> 20 | Some k \<Rightarrow> k) in
         rbind (rread (\<lambda>st. listVersions st (n + 1) (lq_scopeKey rq) cursor)) (\<lambda>rows.
         rbind (read_page env (take n rows)) (\<lambda>page.
           rret (page, if length rows > n then Some (en_versionId (snd (last page))) else None)))))))))"

section \<open>propose\<close>

record propose_request =
  pq_userId :: jsstr
  pq_content :: ref_content
  pq_parentVersionId :: "jsstr option"
  pq_sources :: "ref_source_ref list"

definition propose_request_ok :: "(rat \<Rightarrow> jsstr) \<Rightarrow> propose_request \<Rightarrow> bool" where
  "propose_request_ok sf r \<longleftrightarrow> is_well_formed (pq_userId r) \<and> content_ok sf (pq_content r)
     \<and> opt_all ref_id (pq_parentVersionId r) \<and> 1 \<le> length (pq_sources r) \<and> length (pq_sources r) \<le> 16
     \<and> list_all source_ref_ok (pq_sources r)"

definition propose_json :: "propose_request \<Rightarrow> json" where
  "propose_json r = JObj [(js ''userId'', JStr (pq_userId r)), (js ''content'', content_json (pq_content r)),
     (js ''parentVersionId'', nullable_json JStr (pq_parentVersionId r)), (js ''sources'', JArr (map source_ref_json (pq_sources r)))]"

text \<open>\<open>resolveSource\<close>: an error, or nothing, or the digest and the audit entry of the source.\<close>

type_synonym source_resolver = "ref_source_ref \<Rightarrow> (unit + (jsstr \<times> jsstr option) option)"

definition resolved_source :: "ref_source_ref \<Rightarrow> (jsstr \<times> jsstr option) option \<Rightarrow> ref_source" where
  "resolved_source s r = \<lparr>so_kind = so_kind s, so_id = so_id s, so_sha256 = map_option fst r,
     so_auditEntryId = Option.bind r snd, so_resolved = (r \<noteq> None)\<rparr>"

fun resolve_sources :: "source_resolver \<Rightarrow> ref_source_ref list \<Rightarrow> ref_code + ref_source list" where
  "resolve_sources f [] = Inr []"
| "resolve_sources f (s # ss) =
     (case f s of Inl _ \<Rightarrow> Inl RefUnavailable
      | Inr r \<Rightarrow> if \<not> source_ok (resolved_source s r) then Inl RefInvalidRequest
          else try_bind (resolve_sources f ss) (\<lambda>rest. Inr (resolved_source s r # rest)))"

definition new_envelope ::
  "ref_env \<Rightarrow> propose_request \<Rightarrow> ref_source list \<Rightarrow> jsstr \<Rightarrow> jsstr \<Rightarrow> nat \<Rightarrow> ref_envelope" where
  "new_envelope env rq sources versionId familyId revision =
     \<lparr>en_versionId = versionId, en_familyId = familyId, en_revision = revision, en_parentVersionId = pq_parentVersionId rq,
      en_content = pq_content rq, en_createdAt = re_now env, en_producerKind = OperatorImport, en_producerRunId = None,
      en_modelConfigHash = None, en_sources = sources\<rparr>"

definition new_version_row :: "ref_env \<Rightarrow> ref_envelope \<Rightarrow> jsstr \<Rightarrow> jsstr \<Rightarrow> jsstr \<Rightarrow> version_row" where
  "new_version_row env en scopeKey versionHash requestHash =
     \<lparr>vw_id = en_versionId en, vw_family_id = en_familyId en, vw_revision = en_revision en, vw_parent_id = en_parentVersionId en,
      vw_scope_key = scopeKey, vw_version_hash = versionHash, vw_proposal_request_hash = requestHash, vw_envelope = Some en,
      vw_state = Proposed, vw_latest_attempt_id = None, vw_validated_attempt_id = None, vw_approval_audit_id = None,
      vw_last_transition_audit_id = js ''pending'', vw_last_transition = None, vw_created_at = en_createdAt en,
      vw_updated_at = en_createdAt en\<rparr>"

definition propose_new :: "ref_env \<Rightarrow> propose_request \<Rightarrow> ref_source list \<Rightarrow> jsstr \<Rightarrow> ref_detail ract" where
  "propose_new env rq sources requestHash =
     rbind (rhash env (scope_json (ct_scope (pq_content rq)))) (\<lambda>scopeKey.
     rbind (case pq_parentVersionId rq of None \<Rightarrow> rret None | Some p \<Rightarrow> rbind (version env p) (\<lambda>v. rret (Some v))) (\<lambda>parent.
     rbind (runless (case parent of None \<Rightarrow> True | Some (r, _) \<Rightarrow> vw_scope_key r = scopeKey) RefIneligible) (\<lambda>_.
     rbind (case parent of Some (r, en) \<Rightarrow> rret (en_familyId en) | None \<Rightarrow> fresh_ref env) (\<lambda>familyId.
     rbind (fresh_ref env) (\<lambda>versionId.
     rbind (rread (\<lambda>st. nextRevision st familyId)) (\<lambda>revision.
     (let en = new_envelope env rq sources versionId familyId revision in
      rbind (runless (envelope_ok (re_num env) en) RefInvalidRequest) (\<lambda>_.
      rbind (\<lambda>st. (Inr (), insertScope scopeKey st)) (\<lambda>_.
      rbind (scope env scopeKey) (\<lambda>sc.
      rbind (rhash env (envelope_json en)) (\<lambda>versionHash.
      (let row = new_version_row env en scopeKey versionHash requestHash in
       rbind (emit env ''propose'' row [(js ''requestHash'', JStr requestHash), (js ''scopeGeneration'', nat_json (sw_generation sc)),
           (js ''sourceCount'', nat_json (length sources)), (js ''parentVersionId'', nullable_json JStr (pq_parentVersionId rq))] Success)
         (\<lambda>auditId.
       rbind (rsql (insertVersion (fst (transition env row (sw_generation sc) Propose requestHash auditId)))) (\<lambda>_.
         detail env versionId))))))))))))))"

text \<open>The registry may change while the sources are resolved: \<open>env0\<close> is read before, \<open>env\<close> after.\<close>

definition propose_commit :: "ref_env \<Rightarrow> propose_request \<Rightarrow> ref_registration \<Rightarrow> ref_source list \<Rightarrow> jsstr \<Rightarrow> ref_detail ract" where
  "propose_commit env rq r0 sources requestHash =
     rbind (rtry (\<lambda>_. registration env (sc_workflowId (ct_scope (pq_content rq))) False)) (\<lambda>r.
       if rg_workflowContractHash r \<noteq> rg_workflowContractHash r0 then rfail RefConflict
       else rbind (rread (\<lambda>st. readProposal st requestHash)) (\<lambda>prior.
         case prior of
           Some p \<Rightarrow> rbind (recover env (vw_id p)) (\<lambda>_. detail env (vw_id p))
         | None \<Rightarrow> rbind (rread versionCount) (\<lambda>n.
             if n \<ge> MAX_VERSIONS then rfail RefCapacity else propose_new env rq sources requestHash)))"

definition propose :: "ref_env \<Rightarrow> ref_env \<Rightarrow> source_resolver \<Rightarrow> propose_request \<Rightarrow> ref_detail ract" where
  "propose env0 env resolver rq =
     rbind (runless (propose_request_ok (re_num env0) rq) RefInvalidRequest) (\<lambda>_.
     rbind (owned env0 (pq_userId rq)) (\<lambda>_.
     rbind (rtry (\<lambda>_. registration env0 (sc_workflowId (ct_scope (pq_content rq))) False)) (\<lambda>r0.
     rbind (runless (rg_workflowContractHash r0 = sc_workflowContractHash (ct_scope (pq_content rq))) RefIneligible) (\<lambda>_.
     rbind (runless (distinct (map (\<lambda>s. canonicalJson (re_num env0) (source_ref_json s)) (pq_sources rq))) RefInvalidRequest) (\<lambda>_.
     rbind (rtry (\<lambda>_. resolve_sources resolver (pq_sources rq))) (\<lambda>sources.
     rbind (rhash env0 (JObj [(js ''request'', propose_json rq), (js ''sources'', JArr (map source_json sources))])) (\<lambda>requestHash.
     atomic (propose_commit env rq r0 sources requestHash))))))))"

section \<open>validate\<close>

record validate_request =
  vq_userId :: jsstr
  vq_versionId :: jsstr
  vq_versionHash :: jsstr
  vq_suiteId :: jsstr

definition validate_request_ok :: "validate_request \<Rightarrow> bool" where
  "validate_request_ok r \<longleftrightarrow> is_well_formed (vq_userId r) \<and> ref_id (vq_versionId r) \<and> hash_text (vq_versionHash r)
     \<and> ref_id (vq_suiteId r)"

definition validate_json :: "validate_request \<Rightarrow> json" where
  "validate_json r = JObj [(js ''userId'', JStr (vq_userId r)), (js ''versionId'', JStr (vq_versionId r)),
     (js ''versionHash'', JStr (vq_versionHash r)), (js ''suiteId'', JStr (vq_suiteId r))]"

text \<open>The admission: an attempt that exists already, or a new one with the envelope for the runner.\<close>

datatype admission = Existing jsstr | Admitted ref_attempt ref_envelope

definition new_attempt :: "ref_env \<Rightarrow> jsstr \<Rightarrow> ref_bindings \<Rightarrow> ref_attempt" where
  "new_attempt env i b = \<lparr>va_id = i, va_bindings = b, va_status = Running, va_assurance = ContractOnly, va_report = None,
     va_reportHash = None, va_reason = None, va_startedAt = re_now env, va_deadlineAt = re_now env + re_timeoutMs env,
     va_completedAt = None\<rparr>"

definition existing_attempt :: "ref_env \<Rightarrow> version_row \<Rightarrow> ref_bindings \<Rightarrow> ref_attempt option \<Rightarrow> bool" where
  "existing_attempt env row b previous =
     (case previous of None \<Rightarrow> False
      | Some a \<Rightarrow> same_canonical env (bindings_json (va_bindings a)) (bindings_json b)
          \<and> (va_status a = Running \<or> vw_state row \<noteq> Disabled \<and> va_status a \<in> {Passed, Failed}))"

definition start_attempt :: "ref_env \<Rightarrow> validate_request \<Rightarrow> ref_version \<Rightarrow> ref_bindings \<Rightarrow> admission ract" where
  "start_attempt env rq v b =
     (case v of (row, en) \<Rightarrow>
      rbind (fresh_ref env) (\<lambda>i.
        (let a = new_attempt env i b;
             row1 = row\<lparr>vw_latest_attempt_id := Some i, vw_validated_attempt_id := None, vw_approval_audit_id := None,
                      vw_state := (if vw_state row = Disabled then Disabled else Proposed)\<rparr>
         in rbind (rsql (insertValidation (attemptRow a))) (\<lambda>_.
            rbind (scope env (vw_scope_key row)) (\<lambda>sc.
            rbind (rhash env (validate_json rq)) (\<lambda>digest.
            rbind (emit env ''validate'' row [(js ''attemptId'', JStr i), (js ''phase'', JStr (js ''started'')),
                (js ''requestHash'', JStr digest)] Success) (\<lambda>audit.
            rbind (rsql (updateVersionState (fst (transition env row1 (sw_generation sc) Validate digest audit)))) (\<lambda>_.
            rret (Admitted a en)))))))))"

definition admit_validation :: "ref_env \<Rightarrow> validate_request \<Rightarrow> admission ract" where
  "admit_validation env rq =
     rbind (recover env (vq_versionId rq)) (\<lambda>_.
     rbind (boundVersion env (vq_versionId rq) (vq_versionHash rq)) (\<lambda>v.
     rbind (rtry (\<lambda>_. bindings env v)) (\<lambda>b.
       if qu_suiteId (bi_qualification b) \<noteq> vq_suiteId rq then rfail RefIneligible
       else if vw_state (fst v) \<in> {Active, Approved} then rfail RefIneligible
       else
         rbind (case vw_latest_attempt_id (fst v) of None \<Rightarrow> rret None | Some j \<Rightarrow> rbind (attempt env j) (\<lambda>a. rret (Some a)))
           (\<lambda>previous.
             if existing_attempt env (fst v) b previous then rret (Existing (va_id (the previous)))
             else if (case previous of None \<Rightarrow> False | Some a \<Rightarrow> va_status a = Running) then rfail RefConflict
             else rbind (rread (\<lambda>st. listValidations st (vq_versionId rq))) (\<lambda>rows.
               if length rows \<ge> MAX_ATTEMPTS then rfail RefCapacity else start_attempt env rq v b)))))"

definition validate_admission :: "ref_env \<Rightarrow> validate_request \<Rightarrow> admission ract" where
  "validate_admission env rq =
     rbind (runless (validate_request_ok rq) RefInvalidRequest) (\<lambda>_.
     rbind (owned env (vq_userId rq)) (\<lambda>_. atomic (admit_validation env rq)))"

text \<open>What the runner brings: nothing runs on unresolved provenance or when a source is a case of the evaluation.\<close>

datatype runner_result = Reported "ref_report option" | RunnerThrew | RunnerTimedOut

definition preflight :: "ref_envelope \<Rightarrow> ref_attempt \<Rightarrow> attempt_reason option" where
  "preflight en a =
     (if list_ex (\<lambda>s. \<not> so_resolved s) (en_sources en) then Some ProvenanceUnresolved
      else if list_ex (\<lambda>s. so_id s \<in> set (qu_caseIds (bi_qualification (va_bindings a)))) (en_sources en)
      then Some EvaluationOverlap else None)"

definition brought :: "ref_envelope \<Rightarrow> ref_attempt \<Rightarrow> runner_result \<Rightarrow> ref_report option \<times> attempt_reason option" where
  "brought en a res =
     (case preflight en a of Some r \<Rightarrow> (None, Some r)
      | None \<Rightarrow> (case res of Reported rep \<Rightarrow> (rep, None) | RunnerThrew \<Rightarrow> (None, Some ValidatorError)
          | RunnerTimedOut \<Rightarrow> (None, Some ValidatorTimeout)))"

definition finish_validation :: "ref_env \<Rightarrow> ref_attempt \<Rightarrow> ref_envelope \<Rightarrow> runner_result \<Rightarrow> unit ract" where
  "finish_validation env a en res = (case brought en a res of (rep, fault) \<Rightarrow> atomic (complete env (va_id a) rep fault))"

definition validationResponse :: "ref_env \<Rightarrow> jsstr \<Rightarrow> jsstr \<Rightarrow> (ref_attempt \<times> ref_version \<times> scope_row) ract" where
  "validationResponse env versionId attemptId =
     atomic (rbind (attempt env attemptId) (\<lambda>a. rbind (version env versionId) (\<lambda>v.
       rbind (scope env (vw_scope_key (fst v))) (\<lambda>sc. rret (a, v, sc)))))"

section \<open>approve, activate, rollback, disable\<close>

record bound_request =
  rq_userId :: jsstr
  rq_versionId :: jsstr
  rq_versionHash :: jsstr
  rq_validationId :: jsstr
  rq_reportHash :: jsstr
  rq_expectedScopeGeneration :: nat

record activate_request = bound_request +
  rq_approvalAuditId :: jsstr

record rollback_request = bound_request +
  rq_reason :: jsstr

record disable_request =
  dq_userId :: jsstr
  dq_versionId :: jsstr
  dq_versionHash :: jsstr
  dq_expectedScopeGeneration :: nat
  dq_reason :: jsstr

definition bound_request_ok :: "'a bound_request_scheme \<Rightarrow> bool" where
  "bound_request_ok r \<longleftrightarrow> is_well_formed (rq_userId r) \<and> ref_id (rq_versionId r) \<and> hash_text (rq_versionHash r)
     \<and> ref_id (rq_validationId r) \<and> hash_text (rq_reportHash r) \<and> ref_count (rq_expectedScopeGeneration r)"

definition disable_request_ok :: "disable_request \<Rightarrow> bool" where
  "disable_request_ok r \<longleftrightarrow> is_well_formed (dq_userId r) \<and> ref_id (dq_versionId r) \<and> hash_text (dq_versionHash r)
     \<and> ref_count (dq_expectedScopeGeneration r) \<and> ref_text 512 (dq_reason r)"

definition bound_members :: "'a bound_request_scheme \<Rightarrow> (jsstr \<times> json) list" where
  "bound_members r = [(js ''userId'', JStr (rq_userId r)), (js ''versionId'', JStr (rq_versionId r)),
     (js ''versionHash'', JStr (rq_versionHash r)), (js ''validationId'', JStr (rq_validationId r)),
     (js ''reportHash'', JStr (rq_reportHash r)), (js ''expectedScopeGeneration'', nat_json (rq_expectedScopeGeneration r))]"

definition approve_json :: "bound_request \<Rightarrow> json" where
  "approve_json r = JObj (bound_members r)"

definition activate_json :: "activate_request \<Rightarrow> json" where
  "activate_json r = JObj (bound_members r @ [(js ''approvalAuditId'', JStr (rq_approvalAuditId r))])"

definition rollback_json :: "rollback_request \<Rightarrow> json" where
  "rollback_json r = JObj (bound_members r @ [(js ''reason'', JStr (rq_reason r))])"

definition disable_json :: "disable_request \<Rightarrow> json" where
  "disable_json r = JObj [(js ''userId'', JStr (dq_userId r)), (js ''versionId'', JStr (dq_versionId r)),
     (js ''versionHash'', JStr (dq_versionHash r)), (js ''expectedScopeGeneration'', nat_json (dq_expectedScopeGeneration r)),
     (js ''reason'', JStr (dq_reason r))]"

definition expectGeneration :: "scope_row \<Rightarrow> nat \<Rightarrow> unit ract" where
  "expectGeneration sc expected = runless (sw_generation sc = expected) RefConflict"

text \<open>The start the mutating methods share: the version with its hash, its scope, and the response of a request that is
  repeated at the same generation.\<close>

definition mutation ::
  "ref_env \<Rightarrow> jsstr \<Rightarrow> jsstr \<Rightarrow> ref_action \<Rightarrow> json \<Rightarrow> (ref_version \<Rightarrow> scope_row \<Rightarrow> jsstr \<Rightarrow> mutation_response ract) \<Rightarrow> mutation_response ract" where
  "mutation env versionId versionHash action request go =
     rbind (boundVersion env versionId versionHash) (\<lambda>v.
     rbind (scope env (vw_scope_key (fst v))) (\<lambda>sc.
     rbind (rhash env request) (\<lambda>digest.
     case repeated (fst v) sc action digest of Some r \<Rightarrow> rret r | None \<Rightarrow> go v sc digest)))"

definition approve_fresh :: "ref_env \<Rightarrow> bound_request \<Rightarrow> ref_version \<Rightarrow> scope_row \<Rightarrow> jsstr \<Rightarrow> mutation_response ract" where
  "approve_fresh env rq v sc digest =
     rbind (expectGeneration sc (rq_expectedScopeGeneration rq)) (\<lambda>_.
     rbind (runless (vw_state (fst v) = Validated) RefIneligible) (\<lambda>_.
     rbind (passed env v (rq_validationId rq) (Some (rq_reportHash rq))) (\<lambda>_.
     rbind (emit env ''approve'' (fst v) [(js ''requestHash'', JStr digest), (js ''validationId'', JStr (rq_validationId rq)),
         (js ''reportHash'', JStr (rq_reportHash rq)), (js ''scopeGeneration'', nat_json (sw_generation sc)),
         (js ''actorKind'', JStr (js ''local_token_holder''))] Success) (\<lambda>audit.
     (case transition env ((fst v)\<lparr>vw_state := Approved, vw_approval_audit_id := Some audit\<rparr>) (sw_generation sc) Approve digest audit of
        (row1, response) \<Rightarrow> rbind (rsql (updateVersionState row1)) (\<lambda>_. rret response))))))"

definition approve :: "ref_env \<Rightarrow> bound_request \<Rightarrow> mutation_response ract" where
  "approve env rq =
     rbind (runless (bound_request_ok rq) RefInvalidRequest) (\<lambda>_.
     rbind (owned env (rq_userId rq)) (\<lambda>_. atomic (mutation env (rq_versionId rq) (rq_versionHash rq) Approve (approve_json rq) (approve_fresh env rq))))"

text \<open>What activation and rollback ask for, and the approval the version then has.\<close>

definition activation_approval :: "ref_env \<Rightarrow> version_row \<Rightarrow> jsstr \<Rightarrow> jsstr ract" where
  "activation_approval env row approvalAuditId =
     (if vw_state row \<noteq> Approved \<or> vw_approval_audit_id row \<noteq> Some approvalAuditId then rfail RefIneligible
      else rret approvalAuditId)"

definition rollback_approval ::
  "ref_env \<Rightarrow> ref_version \<Rightarrow> scope_row \<Rightarrow> 'a bound_request_scheme \<Rightarrow> jsstr \<Rightarrow> jsstr ract" where
  "rollback_approval env v sc rq digest =
     (case v of (row, en) \<Rightarrow>
      (case sw_active_version_id sc of None \<Rightarrow> rfail RefIneligible
       | Some cur \<Rightarrow>
         if vw_state row \<noteq> Disabled \<or> vw_approval_audit_id row = None then rfail RefIneligible
         else rbind (version env cur) (\<lambda>(crow, cen).
           if en_familyId cen \<noteq> en_familyId en \<or> en_revision cen \<le> en_revision en then rfail RefIneligible
           else emit env ''approve'' row [(js ''rollback'', JBool True), (js ''requestHash'', JStr digest),
             (js ''validationId'', JStr (rq_validationId rq)), (js ''reportHash'', JStr (rq_reportHash rq)),
             (js ''scopeGeneration'', nat_json (sw_generation sc)), (js ''actorKind'', JStr (js ''local_token_holder''))] Success)))"

definition supersede :: "ref_env \<Rightarrow> scope_row \<Rightarrow> nat \<Rightarrow> jsstr \<Rightarrow> jsstr \<Rightarrow> unit ract" where
  "supersede env sc generation replacement digest =
     (case sw_active_version_id sc of None \<Rightarrow> rret ()
      | Some cur \<Rightarrow>
        rbind (version env cur) (\<lambda>(prow, pen).
        rbind (emit env ''disable'' prow [(js ''reason'', JStr (js ''superseded'')), (js ''replacementVersionId'', JStr replacement),
            (js ''scopeGeneration'', nat_json generation), (js ''requestHash'', JStr digest)] Success) (\<lambda>audit.
        rsql (updateVersionState (fst (transition env (prow\<lparr>vw_state := Disabled\<rparr>) generation Disable digest audit))))))"

definition scope_after :: "scope_row \<Rightarrow> jsstr option \<Rightarrow> nat \<Rightarrow> version_row \<Rightarrow> scope_row" where
  "scope_after sc active generation row =
     sc\<lparr>sw_active_version_id := active, sw_generation := generation,
        sw_last_transition_audit_id := Some (vw_last_transition_audit_id row), sw_last_transition := Some (vw_last_transition row)\<rparr>"

definition rupdate_scope :: "scope_row \<Rightarrow> unit ract" where
  "rupdate_scope row st = (Inr (), updateScope row st)"

definition switch_fresh ::
  "ref_env \<Rightarrow> 'a bound_request_scheme \<Rightarrow> ref_action \<Rightarrow> string \<Rightarrow> jsstr option \<Rightarrow> ref_version \<Rightarrow> scope_row \<Rightarrow> jsstr \<Rightarrow> mutation_response ract" where
  "switch_fresh env rq action action_name approvalAuditId v sc digest =
     rbind (expectGeneration sc (rq_expectedScopeGeneration rq)) (\<lambda>_.
     rbind (passed env v (rq_validationId rq) (Some (rq_reportHash rq))) (\<lambda>_.
     rbind (case approvalAuditId of Some d \<Rightarrow> activation_approval env (fst v) d
            | None \<Rightarrow> rollback_approval env v sc rq digest) (\<lambda>approval.
     (let generation = sw_generation sc + 1 in
      rbind (runless (ref_count generation) RefCapacity) (\<lambda>_.
      rbind (supersede env sc generation (vw_id (fst v)) digest) (\<lambda>_.
      rbind (emit env action_name (fst v) [(js ''requestHash'', JStr digest), (js ''validationId'', JStr (rq_validationId rq)),
          (js ''reportHash'', JStr (rq_reportHash rq)), (js ''approvalAuditId'', JStr approval),
          (js ''scopeGeneration'', nat_json generation)] Success) (\<lambda>audit.
      (case transition env ((fst v)\<lparr>vw_state := Active, vw_approval_audit_id := Some approval\<rparr>) generation action digest audit of
         (row1, response) \<Rightarrow>
         rbind (rsql (updateVersionState row1)) (\<lambda>_.
         rbind (rupdate_scope (scope_after sc (Some (vw_id (fst v))) generation row1)) (\<lambda>_. rret response))))))))))"

definition switchVersion ::
  "ref_env \<Rightarrow> 'a bound_request_scheme \<Rightarrow> ref_action \<Rightarrow> string \<Rightarrow> json \<Rightarrow> jsstr option \<Rightarrow> mutation_response ract" where
  "switchVersion env rq action action_name request approvalAuditId =
     mutation env (rq_versionId rq) (rq_versionHash rq) action request (switch_fresh env rq action action_name approvalAuditId)"

definition activate :: "ref_env \<Rightarrow> activate_request \<Rightarrow> mutation_response ract" where
  "activate env rq =
     rbind (runless (bound_request_ok rq \<and> ref_id (rq_approvalAuditId rq)) RefInvalidRequest) (\<lambda>_.
     rbind (owned env (rq_userId rq)) (\<lambda>_.
     atomic (switchVersion env rq Activate ''activate'' (activate_json rq) (Some (rq_approvalAuditId rq)))))"

definition rollback :: "ref_env \<Rightarrow> rollback_request \<Rightarrow> mutation_response ract" where
  "rollback env rq =
     rbind (runless (bound_request_ok rq \<and> ref_text 512 (rq_reason rq)) RefInvalidRequest) (\<lambda>_.
     rbind (owned env (rq_userId rq)) (\<lambda>_. atomic (switchVersion env rq Rollback ''rollback'' (rollback_json rq) None)))"

definition disable_fresh :: "ref_env \<Rightarrow> disable_request \<Rightarrow> ref_version \<Rightarrow> scope_row \<Rightarrow> jsstr \<Rightarrow> mutation_response ract" where
  "disable_fresh env rq v sc digest =
     rbind (expectGeneration sc (dq_expectedScopeGeneration rq)) (\<lambda>_.
     rbind (runless (vw_state (fst v) \<in> {Active, Approved}) RefIneligible) (\<lambda>_.
     (let generation = sw_generation sc + 1;
          active = (if sw_active_version_id sc = Some (vw_id (fst v)) then None else sw_active_version_id sc)
      in rbind (runless (ref_count generation) RefCapacity) (\<lambda>_.
         rbind (rhash env (JStr (dq_reason rq))) (\<lambda>reasonHash.
         rbind (emit env ''disable'' (fst v) [(js ''requestHash'', JStr digest), (js ''reasonHash'', JStr reasonHash),
             (js ''scopeGeneration'', nat_json generation)] Success) (\<lambda>audit.
         (case transition env ((fst v)\<lparr>vw_state := Disabled\<rparr>) generation Disable digest audit of
            (row1, response) \<Rightarrow>
            rbind (rsql (updateVersionState row1)) (\<lambda>_.
            rbind (rupdate_scope (scope_after sc active generation row1)) (\<lambda>_. rret response)))))))))"

definition disable :: "ref_env \<Rightarrow> disable_request \<Rightarrow> mutation_response ract" where
  "disable env rq =
     rbind (runless (disable_request_ok rq) RefInvalidRequest) (\<lambda>_.
     rbind (owned env (dq_userId rq)) (\<lambda>_. atomic (mutation env (dq_versionId rq) (dq_versionHash rq) Disable (disable_json rq) (disable_fresh env rq))))"

section \<open>Pins\<close>

record ref_pin =
  pn_versionId :: jsstr
  pn_versionHash :: jsstr
  pn_validationId :: jsstr
  pn_scopeKey :: jsstr
  pn_scopeGeneration :: nat

definition pin_ok :: "ref_pin \<Rightarrow> bool" where
  "pin_ok p \<longleftrightarrow> ref_id (pn_versionId p) \<and> hash_text (pn_versionHash p) \<and> ref_id (pn_validationId p) \<and> hash_text (pn_scopeKey p)
     \<and> ref_count (pn_scopeGeneration p)"

definition text_of :: "jsstr option \<Rightarrow> jsstr" where
  "text_of x = (case x of None \<Rightarrow> [] | Some s \<Rightarrow> s)"

definition select_pin :: "ref_env \<Rightarrow> jsstr \<Rightarrow> ref_pin option ract" where
  "select_pin env k =
     rbind (rread (\<lambda>st. readScope st k)) (\<lambda>raw.
       if raw = None then rret None
       else rbind (scope env k) (\<lambda>sc.
         case sw_active_version_id sc of None \<Rightarrow> rret None
         | Some i \<Rightarrow>
           rbind (version env i) (\<lambda>v.
           case vw_validated_attempt_id (fst v) of None \<Rightarrow> rfail RefCorrupt
           | Some j \<Rightarrow>
             rbind (attempt env j) (\<lambda>a.
             rbind (passed env v (va_id a) (Some (text_of (va_reportHash a)))) (\<lambda>_.
             rret (Some \<lparr>pn_versionId = en_versionId (snd v), pn_versionHash = vw_version_hash (fst v), pn_validationId = va_id a,
               pn_scopeKey = k, pn_scopeGeneration = sw_generation sc\<rparr>))))))"

definition select :: "ref_env \<Rightarrow> ref_scope \<Rightarrow> ref_pin option ract" where
  "select env s =
     rbind (runless (scope_ok s) RefInvalidRequest) (\<lambda>_.
       atomic (rbind (rhash env (scope_json s)) (\<lambda>k. select_pin env k)))"

definition readPin :: "ref_env \<Rightarrow> ref_pin \<Rightarrow> ref_content ract" where
  "readPin env pin =
     rbind (scope env (pn_scopeKey pin)) (\<lambda>sc.
       if sw_generation sc \<noteq> pn_scopeGeneration pin \<or> sw_active_version_id sc \<noteq> Some (pn_versionId pin) then rfail RefChanged
       else rbind (version env (pn_versionId pin)) (\<lambda>v.
         if vw_version_hash (fst v) \<noteq> pn_versionHash pin \<or> vw_state (fst v) \<noteq> Active
            \<or> vw_validated_attempt_id (fst v) \<noteq> Some (pn_validationId pin) then rfail RefChanged
         else rbind (attempt env (pn_validationId pin)) (\<lambda>a.
           rbind (passed env v (pn_validationId pin) (Some (text_of (va_reportHash a)))) (\<lambda>_.
             rret (en_content (snd v))))))"

definition assertPin :: "ref_env \<Rightarrow> ref_pin \<Rightarrow> ref_content ract" where
  "assertPin env pin = rbind (runless (pin_ok pin) RefInvalidRequest) (\<lambda>_. atomic (readPin env pin))"

definition recordUse :: "ref_env \<Rightarrow> ref_pin \<Rightarrow> jsstr \<Rightarrow> jsstr ract" where
  "recordUse env pin runId =
     atomic (rbind (runless (pin_ok pin) RefInvalidRequest) (\<lambda>_.
       rbind (readPin env pin) (\<lambda>_.
       rbind (version env (pn_versionId pin)) (\<lambda>v.
         emit env ''use'' (fst v) [(js ''runId'', JStr runId), (js ''validationId'', JStr (pn_validationId pin)),
           (js ''scopeGeneration'', nat_json (pn_scopeGeneration pin))] Success))))"

end
