(* ===== verification/RefineInv.thy ===== *)
theory RefineInv
  imports Refinements
begin

text \<open>
  The invariant of the refinement store and the abstract life cycle of a method. The tables are read as maps; a method is
  \<open>sound\<close> when, returning, it keeps the invariant, changes only what may change, and follows the life cycle.
\<close>

section \<open>Executions that return\<close>

named_theorems ract_simps \<open>what a returning action did\<close>

lemma rret_Inr [ract_simps]: "rret x st = (Inr y, st') \<longleftrightarrow> y = x \<and> st' = st"
  by (auto simp: rret_def)

lemma rfail_Inr [ract_simps]: "rfail e st = (Inr y, st') \<longleftrightarrow> False"
  by (simp add: rfail_def)

lemma rbind_Inr [ract_simps]: "rbind m f st = (Inr y, st') \<longleftrightarrow> (\<exists>x st1. m st = (Inr x, st1) \<and> f x st1 = (Inr y, st'))"
  by (auto simp: rbind_def split: prod.splits sum.splits)

lemma rread_Inr [ract_simps]: "rread f st = (Inr y, st') \<longleftrightarrow> y = f st \<and> st' = st"
  by (auto simp: rread_def)

lemma rtry_Inr [ract_simps]: "rtry f st = (Inr y, st') \<longleftrightarrow> f st = Inr y \<and> st' = st"
  by (auto simp: rtry_def split: sum.splits)

lemma rsql_Inr [ract_simps]: "rsql f st = (Inr u, st') \<longleftrightarrow> f st = Inr st'"
  by (auto simp: rsql_def split: sum.splits)

lemma runless_Inr [ract_simps]: "runless b e st = (Inr u, st') \<longleftrightarrow> b \<and> st' = st"
  by (auto simp: runless_def rret_def rfail_def)

lemma fresh_ref_Inr [ract_simps]:
  "fresh_ref env st = (Inr u, st') \<longleftrightarrow> u = re_uuid env (rd_uuids st) \<and> st' = st\<lparr>rd_uuids := rd_uuids st + 1\<rparr>"
  by (auto simp: fresh_ref_def)

lemma rhash_Inr [ract_simps]:
  "rhash env v st = (Inr x, st') \<longleftrightarrow> refinementHash (re_num env) (re_sha env) v = Some x \<and> st' = st"
  by (auto simp: rhash_def rret_def rfail_def split: option.splits)

lemma if_Inr: "(if b then m else m') st = (Inr y, st') \<longleftrightarrow> (if b then m st = (Inr y, st') else m' st = (Inr y, st'))"
  by simp

lemma atomic_cases:
  obtains x st1 where "m st = (Inr x, st1)" "atomic m st = (Inr x, st1)"
  | c n where "atomic m st = (Inl (RefError c), st\<lparr>rd_uuids := n\<rparr>)"
  by (cases "m st"; cases "fst (m st)") (auto simp: atomic_def)

subsection \<open>The tables as maps\<close>

lemma reads_uuids [simp]:
  "readVersion (st\<lparr>rd_uuids := n\<rparr>) = readVersion st" "readScope (st\<lparr>rd_uuids := n\<rparr>) = readScope st"
  "readValidation (st\<lparr>rd_uuids := n\<rparr>) = readValidation st"
  by (simp_all add: fun_eq_iff readVersion_def readScope_def readValidation_def)

lemma reads_audit [simp]:
  "readVersion (st\<lparr>rd_audit := a\<rparr>) = readVersion st" "readScope (st\<lparr>rd_audit := a\<rparr>) = readScope st"
  "readValidation (st\<lparr>rd_audit := a\<rparr>) = readValidation st"
  by (simp_all add: fun_eq_iff readVersion_def readScope_def readValidation_def)

lemma reads_versions [simp]:
  "readScope (st\<lparr>rd_versions := rows\<rparr>) = readScope st" "readValidation (st\<lparr>rd_versions := rows\<rparr>) = readValidation st"
  by (simp_all add: fun_eq_iff readScope_def readValidation_def)

lemma reads_scopes [simp]:
  "readVersion (st\<lparr>rd_scopes := rows\<rparr>) = readVersion st" "readValidation (st\<lparr>rd_scopes := rows\<rparr>) = readValidation st"
  by (simp_all add: fun_eq_iff readVersion_def readValidation_def)

lemma reads_validations [simp]:
  "readVersion (st\<lparr>rd_validations := rows\<rparr>) = readVersion st" "readScope (st\<lparr>rd_validations := rows\<rparr>) = readScope st"
  by (simp_all add: fun_eq_iff readVersion_def readScope_def)

text \<open>How many versions there are, and which attempts with which versions.\<close>

definition shape :: "ref_db \<Rightarrow> nat \<times> (jsstr \<times> jsstr) list" where
  "shape st = (length (rd_versions st), map (\<lambda>r. (aw_id r, aw_version_id r)) (rd_validations st))"

lemma shape_frame [simp]:
  "shape (st\<lparr>rd_uuids := n\<rparr>) = shape st" "shape (st\<lparr>rd_audit := a\<rparr>) = shape st" "shape (st\<lparr>rd_scopes := rows\<rparr>) = shape st"
  by (simp_all add: shape_def)

lemma first_row_filter_update:
  assumes "\<And>r. f (g r) = f r"
  shows "first_row (filter (\<lambda>r. f r = i) (update_where (\<lambda>r. f r = k \<and> P r) g rows))
    = map_option (\<lambda>r. if i = k \<and> P r then g r else r) (first_row (filter (\<lambda>r. f r = i) rows))"
  using assms by (induction rows) (auto simp: update_where_def first_row_def)

lemma first_row_snoc: "first_row (rows @ [r]) = (case first_row rows of Some x \<Rightarrow> Some x | None \<Rightarrow> Some r)"
  by (auto simp: first_row_def split: list.splits option.splits)

lemma insertVersion_map:
  assumes "insertVersion row st = Inr st'"
  shows "readVersion st (vw_id row) = None" "readVersion st' = (readVersion st)(vw_id row \<mapsto> row)"
    "readScope st' = readScope st" "readValidation st' = readValidation st" "rd_audit st' = rd_audit st"
    "shape st' = (fst (shape st) + 1, snd (shape st))"
proof -
  have n: "\<forall>r \<in> set (rd_versions st). vw_id r \<noteq> vw_id row" and s: "st' = st\<lparr>rd_versions := rd_versions st @ [row]\<rparr>"
    using assms by (auto simp: insertVersion_def try_bind_def insert_row_def split: if_splits)
  show none: "readVersion st (vw_id row) = None"
    using n by (auto simp: readVersion_def first_row_def split: list.splits)
  show "readVersion st' = (readVersion st)(vw_id row \<mapsto> row)"
  proof
    fix i
    have "readVersion st' i = (case readVersion st i of Some x \<Rightarrow> Some x | None \<Rightarrow> if vw_id row = i then Some row else None)"
      unfolding s readVersion_def by (simp add: first_row_snoc split: option.split)
    then show "readVersion st' i = ((readVersion st)(vw_id row \<mapsto> row)) i" using none by (auto split: option.split)
  qed
qed (use assms in \<open>auto simp: shape_def insertVersion_def try_bind_def insert_row_def split: if_splits\<close>)

lemma readVersion_id: "readVersion st i = Some r \<Longrightarrow> vw_id r = i"
  by (auto simp: readVersion_def first_row_def split: list.splits) (metis (mono_tags, lifting) filter_eq_ConsD)

lemma readScope_key: "readScope st k = Some s \<Longrightarrow> sw_scope_key s = k"
  by (auto simp: readScope_def first_row_def split: list.splits) (metis (mono_tags, lifting) filter_eq_ConsD)

lemma readValidation_id: "readValidation st j = Some w \<Longrightarrow> aw_id w = j"
  by (auto simp: readValidation_def first_row_def split: list.splits) (metis (mono_tags, lifting) filter_eq_ConsD)

lemma set_version_state_fields [simp]:
  "vw_id (set_version_state row r) = vw_id r" "vw_scope_key (set_version_state row r) = vw_scope_key r"
  "vw_version_hash (set_version_state row r) = vw_version_hash r" "vw_envelope (set_version_state row r) = vw_envelope r"
  "vw_state (set_version_state row r) = vw_state row"
  by (simp_all add: set_version_state_def)

lemma updateVersionState_map:
  assumes "updateVersionState row st = Inr st'"
  shows "readVersion st' = (\<lambda>i. map_option (\<lambda>r. if i = vw_id row then set_version_state row r else r) (readVersion st i))"
    "readScope st' = readScope st" "readValidation st' = readValidation st" "rd_audit st' = rd_audit st" "shape st' = shape st"
proof -
  have s: "st' = st\<lparr>rd_versions := update_where (\<lambda>r. vw_id r = vw_id row) (set_version_state row) (rd_versions st)\<rparr>"
    using assms by (auto simp: updateVersionState_def Let_def split: if_splits)
  show "readVersion st' = (\<lambda>i. map_option (\<lambda>r. if i = vw_id row then set_version_state row r else r) (readVersion st i))"
  proof
    fix i
    show "readVersion st' i = map_option (\<lambda>r. if i = vw_id row then set_version_state row r else r) (readVersion st i)"
      unfolding s readVersion_def
      using first_row_filter_update[of vw_id "set_version_state row" i "vw_id row" "\<lambda>_. True" "rd_versions st"] by simp
  qed
  show "readScope st' = readScope st" "readValidation st' = readValidation st" "rd_audit st' = rd_audit st" "shape st' = shape st"
    unfolding s by (simp_all add: shape_def update_where_def)
qed

text \<open>The row a method writes is the row it read with other mutable columns.\<close>

definition moved :: "version_row \<Rightarrow> version_row \<Rightarrow> bool" where
  "moved r row \<longleftrightarrow> set_version_state row r = row"

lemma update_moved:
  assumes "updateVersionState row st = Inr st'" "readVersion st (vw_id row) = Some r" "moved r row"
  shows "readVersion st' = (readVersion st)(vw_id row \<mapsto> row)"
  using updateVersionState_map(1)[OF assms(1)] assms(2,3) by (auto simp: moved_def fun_eq_iff option.map_ident)

lemma updateScope_map:
  assumes "readScope st (sw_scope_key row) = Some s"
  shows "readScope (updateScope row st) = (readScope st)(sw_scope_key row \<mapsto> row)"
    "readVersion (updateScope row st) = readVersion st" "readValidation (updateScope row st) = readValidation st"
    "rd_audit (updateScope row st) = rd_audit st" "shape (updateScope row st) = shape st"
proof -
  let ?g = "\<lambda>r. r\<lparr>sw_active_version_id := sw_active_version_id row, sw_generation := sw_generation row,
          sw_last_transition_audit_id := sw_last_transition_audit_id row, sw_last_transition := sw_last_transition row\<rparr>"
  have key: "sw_scope_key s = sw_scope_key row" by (rule readScope_key[OF assms])
  then have "?g s = row" by simp
  moreover have "readScope (updateScope row st) k = map_option (\<lambda>r. if k = sw_scope_key row then ?g r else r) (readScope st k)" for k
    unfolding readScope_def updateScope_def
    using first_row_filter_update[of sw_scope_key ?g k "sw_scope_key row" "\<lambda>_. True" "rd_scopes st"] by simp
  ultimately show "readScope (updateScope row st) = (readScope st)(sw_scope_key row \<mapsto> row)"
    using assms by (auto simp: fun_eq_iff option.map_ident)
qed (simp_all add: updateScope_def)

lemma readScope_snoc:
  "readScope (st\<lparr>rd_scopes := rd_scopes st @ [n]\<rparr>) i
   = (case readScope st i of Some x \<Rightarrow> Some x | None \<Rightarrow> if sw_scope_key n = i then Some n else None)"
  unfolding readScope_def by (simp add: first_row_snoc split: option.split)

lemma insertScope_map:
  "readScope (insertScope k st) = (if readScope st k = None
     then (readScope st)(k \<mapsto> \<lparr>sw_scope_key = k, sw_active_version_id = None, sw_generation = 0, sw_last_transition_audit_id = None,
       sw_last_transition = None\<rparr>) else readScope st)"
  "readVersion (insertScope k st) = readVersion st" "readValidation (insertScope k st) = readValidation st"
  "rd_audit (insertScope k st) = rd_audit st" "shape (insertScope k st) = shape st"
proof -
  let ?new = "\<lparr>sw_scope_key = k, sw_active_version_id = None, sw_generation = 0, sw_last_transition_audit_id = None,
       sw_last_transition = None\<rparr> :: scope_row"
  show "readScope (insertScope k st) = (if readScope st k = None then (readScope st)(k \<mapsto> ?new) else readScope st)"
  proof (cases "readScope st k = None")
    case True
    have "readScope (insertScope k st) i = (case readScope st i of Some x \<Rightarrow> Some x | None \<Rightarrow> if k = i then Some ?new else None)" for i
      using True readScope_snoc[of st ?new i] by (simp add: insertScope_def)
    then show ?thesis using True by (auto simp: fun_eq_iff split: option.split)
  qed (auto simp: insertScope_def)
qed (simp_all add: insertScope_def)

lemma insertValidation_map:
  assumes "insertValidation row st = Inr st'"
  shows "readValidation st (aw_id row) = None" "readValidation st' = (readValidation st)(aw_id row \<mapsto> row)"
    "readScope st' = readScope st" "readVersion st' = readVersion st" "rd_audit st' = rd_audit st"
    "shape st' = (fst (shape st), snd (shape st) @ [(aw_id row, aw_version_id row)])" "aw_id row \<notin> fst ` set (snd (shape st))"
proof -
  have n: "\<forall>r \<in> set (rd_validations st). aw_id r \<noteq> aw_id row" and s: "st' = st\<lparr>rd_validations := rd_validations st @ [row]\<rparr>"
    using assms by (auto simp: insertValidation_def try_bind_def insert_row_def split: if_splits)
  show none: "readValidation st (aw_id row) = None"
    using n by (auto simp: readValidation_def first_row_def split: list.splits)
  have "readValidation st' i = (case readValidation st i of Some x \<Rightarrow> Some x | None \<Rightarrow> if aw_id row = i then Some row else None)" for i
    unfolding s readValidation_def by (simp add: first_row_snoc split: option.split)
  then show "readValidation st' = (readValidation st)(aw_id row \<mapsto> row)" using none by (auto simp: fun_eq_iff split: option.split)
qed (use assms in \<open>auto simp: shape_def insertValidation_def try_bind_def insert_row_def split: if_splits\<close>)

definition finish_row :: "validation_row \<Rightarrow> validation_row \<Rightarrow> validation_row" where
  "finish_row row r = r\<lparr>aw_status := aw_status row, aw_assurance := aw_assurance row, aw_report := aw_report row,
           aw_report_hash := aw_report_hash row, aw_reason := aw_reason row, aw_completed_at := aw_completed_at row\<rparr>"

lemma finishValidation_map:
  assumes "finishValidation row st = (won, st')"
  shows "readValidation st' = (\<lambda>j. map_option (\<lambda>r. if j = aw_id row \<and> aw_status r = Running then finish_row row r else r) (readValidation st j))"
    "readScope st' = readScope st" "readVersion st' = readVersion st" "rd_audit st' = rd_audit st" "shape st' = shape st"
proof -
  have s: "st' = st\<lparr>rd_validations := update_where (\<lambda>r. aw_id r = aw_id row \<and> aw_status r = Running) (finish_row row) (rd_validations st)\<rparr>"
    using assms by (auto simp: finishValidation_def finish_row_def[abs_def])
  show "readValidation st' = (\<lambda>j. map_option (\<lambda>r. if j = aw_id row \<and> aw_status r = Running then finish_row row r else r) (readValidation st j))"
  proof
    fix j
    show "readValidation st' j = map_option (\<lambda>r. if j = aw_id row \<and> aw_status r = Running then finish_row row r else r) (readValidation st j)"
      unfolding s readValidation_def
      using first_row_filter_update[of aw_id "finish_row row" j "aw_id row" "\<lambda>r. aw_status r = Running" "rd_validations st"]
      by (simp add: finish_row_def)
  qed
  show "readScope st' = readScope st" "readVersion st' = readVersion st" "rd_audit st' = rd_audit st" "shape st' = shape st"
    unfolding s by (simp_all add: shape_def update_where_def finish_row_def)
qed

text \<open>Exactly one row is finished when the attempt runs.\<close>

lemma finish_won:
  assumes "distinct (map fst (snd (shape st)))" "readValidation st (aw_id row) = Some w" "aw_status w = Running"
  shows "fst (finishValidation row st)"
proof -
  let ?P = "\<lambda>r. aw_id r = aw_id row \<and> aw_status r = Running"
  have d: "distinct (map aw_id (rd_validations st))" using assms(1) by (simp add: shape_def comp_def)
  have w: "w \<in> set (rd_validations st)" "aw_id w = aw_id row"
    using assms(2) readValidation_id[OF assms(2)]
    by (auto simp: readValidation_def first_row_def split: list.splits) (metis (no_types, lifting) filter_is_subset list.set_intros(1) subsetD)
  have inj: "inj_on aw_id (set (rd_validations st))" using d by (simp only: distinct_map)
  have "set (filter ?P (rd_validations st)) = {w}"
  proof (rule set_eqI, rule iffI)
    fix x
    assume "x \<in> set (filter ?P (rd_validations st))"
    then have "x \<in> set (rd_validations st)" "aw_id x = aw_id w" using w(2) by simp_all
    then show "x \<in> {w}" using inj_onD[OF inj _ _ w(1)] by blast
  qed (use w assms(3) in simp)
  moreover have "distinct (filter ?P (rd_validations st))" using d by (simp add: distinct_map)
  ultimately have "length (filter ?P (rd_validations st)) = 1" 
    using distinct_card[of "filter ?P (rd_validations st)"] by simp
  then show ?thesis by (simp add: finishValidation_def)
qed

section \<open>The invariant\<close>

text \<open>What is relied on of the host: UUIDs are identifiers, a digest is 64 hexadecimal digits, and the constructor
  has checked the time limit.\<close>

definition env_ok :: "ref_env \<Rightarrow> bool" where
  "env_ok env \<longleftrightarrow> (\<forall>n. ref_id (re_uuid env n)) \<and> (\<forall>b. hash_text (re_sha env b)) \<and> 1 \<le> re_timeoutMs env \<and> re_timeoutMs env \<le> 300000"

definition good_version :: "(rat \<Rightarrow> jsstr) \<Rightarrow> (bytes \<Rightarrow> jsstr) \<Rightarrow> version_row \<Rightarrow> bool" where
  "good_version sf h r \<longleftrightarrow> (\<exists>en. decodeVersion sf h r = Inr (r, en))"

definition good_attempt :: "(rat \<Rightarrow> jsstr) \<Rightarrow> (bytes \<Rightarrow> jsstr) \<Rightarrow> validation_row \<Rightarrow> bool" where
  "good_attempt sf h w \<longleftrightarrow> (\<exists>a. decodeValidation sf h w = Inr a)"

definition approved_in :: "jsstr \<Rightarrow> audit_log \<Rightarrow> bool" where
  "approved_in d rows \<longleftrightarrow> (\<exists>e \<in> set rows. entryId e = d \<and> toolName e = js ''refinement.approve'')"

type_synonym versions = "jsstr \<Rightarrow> version_row option"

type_synonym scopes = "jsstr \<Rightarrow> scope_row option"

type_synonym attempts = "jsstr \<Rightarrow> validation_row option"

text \<open>Every version decodes; its scope has a row, which points at it exactly when it is active.\<close>

definition vers_ok :: "(rat \<Rightarrow> jsstr) \<Rightarrow> (bytes \<Rightarrow> jsstr) \<Rightarrow> versions \<Rightarrow> bool" where
  "vers_ok sf h V \<longleftrightarrow> (\<forall>i r. V i = Some r \<longrightarrow> vw_id r = i \<and> good_version sf h r)"

definition links :: "versions \<Rightarrow> scopes \<Rightarrow> bool" where
  "links V S \<longleftrightarrow> (\<forall>i r. V i = Some r \<longrightarrow>
     (\<exists>s. S (vw_scope_key r) = Some s \<and> (vw_state r = Active \<longleftrightarrow> sw_active_version_id s = Some i)))"

definition scopes_ok :: "versions \<Rightarrow> scopes \<Rightarrow> bool" where
  "scopes_ok V S \<longleftrightarrow> (\<forall>k s. S k = Some s \<longrightarrow> sw_scope_key s = k \<and> scope_view_ok s \<and> scope_integrity s
     \<and> (\<forall>i. sw_active_version_id s = Some i \<longrightarrow> (\<exists>r. V i = Some r \<and> vw_scope_key r = k \<and> vw_state r = Active)))"

text \<open>The latest attempt of a version exists, and has passed when the version is validated by it.\<close>

definition latest_ok :: "versions \<Rightarrow> attempts \<Rightarrow> bool" where
  "latest_ok V W \<longleftrightarrow> (\<forall>i r j. V i = Some r \<longrightarrow> vw_latest_attempt_id r = Some j \<longrightarrow>
     (\<exists>w. W j = Some w \<and> aw_version_id w = i \<and> (vw_validated_attempt_id r = Some j \<longrightarrow> aw_status w = Passed)))"

definition attempts_ok :: "(rat \<Rightarrow> jsstr) \<Rightarrow> (bytes \<Rightarrow> jsstr) \<Rightarrow> versions \<Rightarrow> attempts \<Rightarrow> bool" where
  "attempts_ok sf h V W \<longleftrightarrow> (\<forall>j w. W j = Some w \<longrightarrow> aw_id w = j \<and> good_attempt sf h w
     \<and> (\<exists>r. V (aw_version_id w) = Some r \<and> vw_version_hash r = aw_version_hash w
          \<and> (aw_status w = Running \<longrightarrow> vw_latest_attempt_id r = Some j)))"

definition approvals_ok :: "versions \<Rightarrow> audit_log \<Rightarrow> bool" where
  "approvals_ok V A \<longleftrightarrow> (\<forall>i r d. V i = Some r \<longrightarrow> vw_approval_audit_id r = Some d \<longrightarrow> approved_in d A)"

text \<open>The capacities hold, and attempts have different ids.\<close>

definition shape_ok :: "nat \<times> (jsstr \<times> jsstr) list \<Rightarrow> bool" where
  "shape_ok s \<longleftrightarrow> fst s \<le> MAX_VERSIONS \<and> distinct (map fst (snd s))
     \<and> (\<forall>v. length (filter (\<lambda>a. snd a = v) (snd s)) \<le> MAX_ATTEMPTS)"

definition ref_inv :: "(rat \<Rightarrow> jsstr) \<Rightarrow> (bytes \<Rightarrow> jsstr) \<Rightarrow> ref_db \<Rightarrow> bool" where
  "ref_inv sf h st \<longleftrightarrow> vers_ok sf h (readVersion st) \<and> links (readVersion st) (readScope st)
     \<and> scopes_ok (readVersion st) (readScope st) \<and> latest_ok (readVersion st) (readValidation st)
     \<and> attempts_ok sf h (readVersion st) (readValidation st) \<and> approvals_ok (readVersion st) (rd_audit st)
     \<and> log_inv sf h (rd_audit st) \<and> shape_ok (shape st)"

subsection \<open>Decoded rows\<close>

lemma decodeVersion_Inr:
  "decodeVersion sf h row = Inr (r, en) \<longleftrightarrow> r = row \<and> vw_envelope row = Some en
     \<and> (\<exists>t. vw_last_transition row = Some t \<and> envelope_ok sf en \<and> transition_ok t \<and> version_view_ok row \<and> version_integrity sf h row en t)"
  by (auto simp: decodeVersion_def split: option.splits if_splits)

lemma decode_attemptRow:
  "decodeValidation sf h (attemptRow a)
   = (if attempt_view_ok sf a \<and> attempt_integrity sf h a then Inr a else Inl RefCorrupt)"
  by (cases a; cases "va_report a") (simp_all add: decodeValidation_def attemptRow_def Let_def)

lemma decodeValidation_row: "decodeValidation sf h w = Inr a \<Longrightarrow> w = attemptRow a"
  by (cases w) (auto simp: decodeValidation_def attemptRow_def Let_def split: if_splits option.splits)

lemma decodeValidation_Inr:
  "decodeValidation sf h w = Inr a \<longleftrightarrow> w = attemptRow a \<and> attempt_view_ok sf a \<and> attempt_integrity sf h a"
proof -
  have "decodeValidation sf h w = Inr a \<longleftrightarrow> w = attemptRow a \<and> decodeValidation sf h (attemptRow a) = Inr a"
    using decodeValidation_row by blast
  then show ?thesis by (auto simp: decode_attemptRow)
qed

lemma version_in_Inr:
  "version_in env i st = Inr (row, en) \<longleftrightarrow> readVersion st i = Some row \<and> decodeVersion (re_num env) (re_sha env) row = Inr (row, en)"
  by (auto simp: version_in_def decodeVersion_Inr split: option.splits)

lemma version_Inr [ract_simps]:
  "version env i st = (Inr v, st') \<longleftrightarrow> readVersion st i = Some (fst v)
     \<and> decodeVersion (re_num env) (re_sha env) (fst v) = Inr v \<and> st' = st"
  unfolding version_def rtry_Inr using version_in_Inr[of env i st "fst v" "snd v"] by auto

lemma ref_attempt_Inr [ract_simps]:
  "attempt env j st = (Inr a, st') \<longleftrightarrow> readValidation st j = Some (attemptRow a) \<and> attempt_view_ok (re_num env) a
     \<and> attempt_integrity (re_num env) (re_sha env) a \<and> st' = st"
  by (auto simp: attempt_def rtry_Inr attempt_in_def decodeValidation_Inr split: option.splits)

lemma scope_Inr:
  assumes "scope env k st = (Inr sc, st')"
  shows "readScope st k = Some sc" "st' = st" "scope_view_ok sc" "scope_integrity sc"
  using assms by (auto simp: scope_def rtry_Inr scope_in_def try_bind_def split: option.splits if_splits sum.splits)

lemma scope_Inr_iff:
  assumes "vers_ok (re_num env) (re_sha env) (readVersion st)" "scopes_ok (readVersion st) (readScope st)"
  shows "scope env k st = (Inr sc, st') \<longleftrightarrow> readScope st k = Some sc \<and> st' = st"
proof
  assume "scope env k st = (Inr sc, st')"
  then show "readScope st k = Some sc \<and> st' = st" using scope_Inr by blast
next
  assume a: "readScope st k = Some sc \<and> st' = st"
  then have s: "scope_view_ok sc" "scope_integrity sc"
      "\<And>i. sw_active_version_id sc = Some i \<Longrightarrow> \<exists>r. readVersion st i = Some r \<and> vw_scope_key r = k \<and> vw_state r = Active"
    using assms(2) unfolding scopes_ok_def by blast+
  have "scope_in env k st = Inr sc"
  proof (cases "sw_active_version_id sc")
    case None
    then show ?thesis using a s by (simp add: scope_in_def)
  next
    case (Some i)
    then obtain r where r: "readVersion st i = Some r" "vw_scope_key r = k" "vw_state r = Active" using s(3) by blast
    moreover obtain en where "decodeVersion (re_num env) (re_sha env) r = Inr (r, en)"
      using assms(1) r(1) unfolding vers_ok_def good_version_def by blast
    ultimately show ?thesis using a s Some by (simp add: scope_in_def version_in_def try_bind_def)
  qed
  then show "scope env k st = (Inr sc, st')" using a by (simp add: scope_def rtry_Inr)
qed

lemma refinementHash_hash: "env_ok env \<Longrightarrow> refinementHash (re_num env) (re_sha env) v = Some x \<Longrightarrow> hash_text x"
  by (auto simp: refinementHash_def env_ok_def)

subsection \<open>Audit events\<close>

lemma emit_effect:
  assumes "emit env act row md out st = (Inr d, st')" "env_ok env"
  obtains e n where "st' = st\<lparr>rd_audit := rd_audit st @ [e], rd_uuids := n\<rparr>" "ref_id d"
    "log_inv (re_num env) (re_sha env) (rd_audit st) \<longrightarrow> log_inv (re_num env) (re_sha env) (rd_audit st @ [e])"
    "act = ''approve'' \<longrightarrow> entryId e = d \<and> toolName e = js ''refinement.approve''"
proof -
  let ?u = "re_uuid env (rd_uuids st)"
  let ?ps = "refinement_event env (js act) row md out"
  obtain r rows where i: "insertAuditEntryInTxn (ref_audit_env env ?u) ?ps (rd_audit st) = Inr (r, rows)" "d = r_id r"
      "st' = st\<lparr>rd_audit := rows, rd_uuids := rd_uuids st + 1\<rparr>"
    using assms(1) by (auto simp: emit_def rbind_Inr fresh_ref_Inr split: sum.splits if_splits)
  note row = insertRow_Inr[OF i(1)[unfolded insertAuditEntryInTxn_def]]
  have d: "d = wellFormed ?u" using row(3) i(2) by (simp add: ref_audit_env_def)
  have wf: "is_well_formed ?u" "ref_id ?u" using assms(2) by (auto simp: env_ok_def ref_id_def ref_text_def)
  have id: "ref_id d" using wf d by (simp add: wellFormed_def to_well_formed_id)
  have today: "ascii (today (ref_audit_env env ?u))"
    using ascii_iso[of "re_now env"] set_take_subset[of 10 "iso (re_now env)"] by (auto simp: ref_audit_env_def ascii_def)
  have log: "log_inv (re_num env) (re_sha env) rows" if "log_inv (re_num env) (re_sha env) (rd_audit st)"
    using insertRow_log_inv[OF i(1)[unfolded insertAuditEntryInTxn_def]] that today
    by (simp add: ref_audit_env_def refinement_event_def)
  let ?e = "new_row (ref_audit_env env ?u) ?ps None (rd_audit st)"
  have app: "entryId ?e = d \<and> toolName ?e = js ''refinement.approve''" if "act = ''approve''"
  proof -
    have "ascii (js ''refinement.'' @ js ''approve'')" by code_simp
    then have "toolName (new_row (ref_audit_env env ?u) ?ps None (rd_audit st)) = js ''refinement.approve''"
      using that by (simp add: new_row_content refinement_event_def wellFormed_ascii) (simp add: js_def)
    then show ?thesis using row i(2) by simp
  qed
  show ?thesis using that[OF _ id] app i(3) log row(1) by simp
qed

lemma approvals_mono: "approvals_ok V A \<Longrightarrow> set A \<subseteq> set B \<Longrightarrow> approvals_ok V B"
  unfolding approvals_ok_def approved_in_def by blast

section \<open>Rows that change\<close>

text \<open>The part of a version that may change is consistent: the pointers go together and fit the state.\<close>

definition flags_ok :: "version_row \<Rightarrow> bool" where
  "flags_ok r \<longleftrightarrow> opt_all ref_id (vw_latest_attempt_id r) \<and> opt_all ref_id (vw_validated_attempt_id r) \<and> opt_all ref_id (vw_approval_audit_id r)
     \<and> (vw_validated_attempt_id r \<noteq> None \<longrightarrow> vw_latest_attempt_id r = vw_validated_attempt_id r)
     \<and> (vw_approval_audit_id r \<noteq> None \<longrightarrow> vw_validated_attempt_id r \<noteq> None)
     \<and> (vw_state r \<in> {Approved, Active} \<longrightarrow> vw_approval_audit_id r \<noteq> None)
     \<and> (vw_state r = Validated \<longrightarrow> vw_validated_attempt_id r \<noteq> None \<and> vw_approval_audit_id r = None)
     \<and> (vw_state r = Proposed \<longrightarrow> vw_validated_attempt_id r = None \<and> vw_approval_audit_id r = None)"

text \<open>The part that never changes is sealed by its hashes.\<close>

definition sealed :: "(rat \<Rightarrow> jsstr) \<Rightarrow> (bytes \<Rightarrow> jsstr) \<Rightarrow> version_row \<Rightarrow> ref_envelope \<Rightarrow> bool" where
  "sealed sf h r en \<longleftrightarrow> vw_envelope r = Some en \<and> envelope_ok sf en \<and> en_versionId en = vw_id r \<and> en_familyId en = vw_family_id r
     \<and> en_revision en = vw_revision r \<and> en_parentVersionId en = vw_parent_id r \<and> en_createdAt en = vw_created_at r
     \<and> hash_text (vw_version_hash r) \<and> hash_text (vw_scope_key r)
     \<and> refinementHash sf h (envelope_json en) = Some (vw_version_hash r)
     \<and> refinementHash sf h (scope_json (ct_scope (en_content en))) = Some (vw_scope_key r)"

definition stamped :: "version_row \<Rightarrow> transition_record \<Rightarrow> bool" where
  "stamped r t \<longleftrightarrow> vw_last_transition r = Some t \<and> transition_ok t \<and> mr_versionId (tr_response t) = vw_id r
     \<and> mr_versionHash (tr_response t) = vw_version_hash r \<and> mr_state (tr_response t) = vw_state r
     \<and> mr_auditEntryId (tr_response t) = vw_last_transition_audit_id r"

lemma decode_parts:
  "decodeVersion sf h r = Inr (r, en) \<longleftrightarrow> sealed sf h r en \<and> flags_ok r \<and> (\<exists>t. stamped r t)"
  unfolding decodeVersion_Inr version_view_ok_def version_integrity_def sealed_def flags_ok_def stamped_def transition_ok_def response_ok_def
  by auto

lemma decode_fst: "decodeVersion sf h r = Inr v \<Longrightarrow> fst v = r"
  using decodeVersion_Inr[of sf h r "fst v" "snd v"] by simp

lemma moved_sealed: "moved r r' \<Longrightarrow> sealed sf h r en \<Longrightarrow> sealed sf h r' en"
  unfolding moved_def sealed_def by (cases r, cases r') (simp add: set_version_state_def)

lemma moved_fields:
  "moved r r' \<Longrightarrow> vw_id r' = vw_id r \<and> vw_scope_key r' = vw_scope_key r \<and> vw_version_hash r' = vw_version_hash r \<and> vw_envelope r' = vw_envelope r"
  unfolding moved_def by (metis set_version_state_fields(1-4))

lemma moved_refl [simp]: "moved r r"
  by (simp add: moved_def set_version_state_def)

lemma moved_trans: "moved r r' \<Longrightarrow> moved r' r'' \<Longrightarrow> moved r r''"
  unfolding moved_def by (cases r, cases r', cases r'') (simp add: set_version_state_def)

lemma transition_fields [simp]:
  "vw_id (fst (transition env row g act dg au)) = vw_id row" "vw_state (fst (transition env row g act dg au)) = vw_state row"
  "vw_scope_key (fst (transition env row g act dg au)) = vw_scope_key row"
  "vw_latest_attempt_id (fst (transition env row g act dg au)) = vw_latest_attempt_id row"
  "vw_validated_attempt_id (fst (transition env row g act dg au)) = vw_validated_attempt_id row"
  "vw_approval_audit_id (fst (transition env row g act dg au)) = vw_approval_audit_id row"
  "vw_last_transition_audit_id (fst (transition env row g act dg au)) = au"
  "vw_last_transition (fst (transition env row g act dg au)) = Some \<lparr>tr_action = act, tr_requestHash = dg,
     tr_response = snd (transition env row g act dg au)\<rparr>"
  "mr_scopeGeneration (snd (transition env row g act dg au)) = g" "mr_auditEntryId (snd (transition env row g act dg au)) = au"
  "mr_state (snd (transition env row g act dg au)) = vw_state row" "mr_versionId (snd (transition env row g act dg au)) = vw_id row"
  "mr_versionHash (snd (transition env row g act dg au)) = vw_version_hash row"
  by (simp_all add: transition_def Let_def)

lemma transition_moved: "moved r row \<Longrightarrow> moved r (fst (transition env row g act dg au))"
  unfolding moved_def by (cases r, cases row) (simp add: set_version_state_def transition_def Let_def)

text \<open>A transition of a row that is sealed, with consistent pointers, decodes.\<close>

lemma transition_good:
  assumes "sealed sf h row en" "flags_ok row" "hash_text dg" "ref_id au" "ref_count g"
  shows "good_version sf h (fst (transition env row g act dg au))"
proof -
  let ?r = "fst (transition env row g act dg au)"
  have m: "moved row ?r" by (rule transition_moved[OF moved_refl])
  have "ref_id (vw_id row)" "hash_text (vw_version_hash row)" using assms(1) by (auto simp: sealed_def envelope_ok_def)
  then have "stamped ?r \<lparr>tr_action = act, tr_requestHash = dg, tr_response = snd (transition env row g act dg au)\<rparr>"
    using assms(3-5) moved_fields[OF m] by (simp add: stamped_def transition_ok_def response_ok_def)
  moreover have "flags_ok ?r" using assms(2) by (simp add: flags_ok_def)
  ultimately show ?thesis using moved_sealed[OF m assms(1)] by (auto simp: good_version_def decode_parts)
qed

subsection \<open>One version moves\<close>

lemma vers_upd: "vers_ok sf h V \<Longrightarrow> vw_id r' = i \<Longrightarrow> good_version sf h r' \<Longrightarrow> vers_ok sf h (V(i \<mapsto> r'))"
  unfolding vers_ok_def by simp

text \<open>The pointer of the scope after a version of it has moved from one row to another.\<close>

definition head_after :: "version_row \<Rightarrow> version_row \<Rightarrow> scope_row \<Rightarrow> jsstr option" where
  "head_after r r' s = (if vw_state r' = Active then Some (vw_id r) else if vw_state r = Active then None else sw_active_version_id s)"

lemma links_own:
  "links V S \<Longrightarrow> V i = Some r \<Longrightarrow> S (vw_scope_key r) = Some s \<Longrightarrow> vw_state r = Active \<longleftrightarrow> sw_active_version_id s = Some i"
  unfolding links_def by (metis option.inject)

lemma links_upd:
  assumes "links V S" "scopes_ok V S" "V i = Some r" "vw_id r = i" "moved r r'" "S (vw_scope_key r) = Some s"
    "sw_active_version_id s' = head_after r r' s" "vw_state r' = Active \<longrightarrow> vw_state r = Active \<or> sw_active_version_id s = None"
  shows "links (V(i \<mapsto> r')) (S(vw_scope_key r \<mapsto> s'))"
  unfolding links_def
proof (intro allI impI)
  fix j q
  assume q: "(V(i \<mapsto> r')) j = Some q"
  have own: "vw_state r = Active \<longleftrightarrow> sw_active_version_id s = Some i" by (rule links_own[OF assms(1,3,6)])
  show "\<exists>s''. (S(vw_scope_key r \<mapsto> s')) (vw_scope_key q) = Some s'' \<and> (vw_state q = Active \<longleftrightarrow> sw_active_version_id s'' = Some j)"
  proof (cases "j = i")
    case True
    then show ?thesis using q assms(4,5,7) own moved_fields[OF assms(5)] by (auto simp: head_after_def)
  next
    case False
    then have "V j = Some q" using q by simp
    then obtain s1 where s1: "S (vw_scope_key q) = Some s1" "vw_state q = Active \<longleftrightarrow> sw_active_version_id s1 = Some j"
      using assms(1) unfolding links_def by blast
    then show ?thesis using False assms(4,6,7,8) own by (cases "vw_scope_key q = vw_scope_key r") (auto simp: head_after_def)
  qed
qed

lemma scopes_upd:
  assumes "links V S" "scopes_ok V S" "V i = Some r" "vw_id r = i" "moved r r'" "S (vw_scope_key r) = Some s"
    "sw_active_version_id s' = head_after r r' s" "sw_scope_key s' = vw_scope_key r" "scope_view_ok s'" "scope_integrity s'"
  shows "scopes_ok (V(i \<mapsto> r')) (S(vw_scope_key r \<mapsto> s'))"
  unfolding scopes_ok_def
proof (intro allI impI)
  fix k t
  assume t: "(S(vw_scope_key r \<mapsto> s')) k = Some t"
  have own: "vw_state r = Active \<longleftrightarrow> sw_active_version_id s = Some i" by (rule links_own[OF assms(1,3,6)])
  have f: "vw_scope_key r' = vw_scope_key r" using moved_fields[OF assms(5)] by blast
  show "sw_scope_key t = k \<and> scope_view_ok t \<and> scope_integrity t
     \<and> (\<forall>j. sw_active_version_id t = Some j \<longrightarrow> (\<exists>q. (V(i \<mapsto> r')) j = Some q \<and> vw_scope_key q = k \<and> vw_state q = Active))"
  proof (cases "k = vw_scope_key r")
    case True
    then have [simp]: "t = s'" using t by simp
    have "\<exists>q. (V(i \<mapsto> r')) j = Some q \<and> vw_scope_key q = k \<and> vw_state q = Active" if a: "sw_active_version_id t = Some j" for j
    proof (cases "vw_state r' = Active")
      case act: True
      then have "j = i" using a assms(4,7) by (simp add: head_after_def)
      then show ?thesis using act f True by simp
    next
      case False
      then have n: "vw_state r \<noteq> Active" "sw_active_version_id s = Some j" using a assms(7) by (auto simp: head_after_def split: if_splits)
      then have "j \<noteq> i" using own by auto
      moreover obtain q where "V j = Some q" "vw_scope_key q = k" "vw_state q = Active"
        using n(2) assms(2,6) True unfolding scopes_ok_def by blast
      ultimately show ?thesis by auto
    qed
    then show ?thesis using True assms(8-10) by simp
  next
    case False
    then have tt: "S k = Some t" using t by simp
    then have o: "sw_scope_key t = k" "scope_view_ok t" "scope_integrity t" using assms(2) unfolding scopes_ok_def by blast+
    have "\<exists>q. (V(i \<mapsto> r')) j = Some q \<and> vw_scope_key q = k \<and> vw_state q = Active" if a: "sw_active_version_id t = Some j" for j
    proof -
      obtain q where q: "V j = Some q" "vw_scope_key q = k" "vw_state q = Active" using assms(2) tt a unfolding scopes_ok_def by blast
      then have "j \<noteq> i" using False assms(3) by auto
      then show ?thesis using q by auto
    qed
    then show ?thesis using o by blast
  qed
qed

lemma approvals_upd:
  assumes "approvals_ok V A" "V i = Some r" "set A \<subseteq> set B" "vw_approval_audit_id r' \<in> {None, vw_approval_audit_id r} \<or>
    (\<exists>d. vw_approval_audit_id r' = Some d \<and> approved_in d B)"
  shows "approvals_ok (V(i \<mapsto> r')) B"
  using approvals_mono[OF assms(1,3)] assms(2,4) unfolding approvals_ok_def by auto

lemma latest_upd:
  assumes "latest_ok V W" "V i = Some r" "vw_latest_attempt_id r' = vw_latest_attempt_id r" "vw_validated_attempt_id r' = vw_validated_attempt_id r"
  shows "latest_ok (V(i \<mapsto> r')) W"
  using assms unfolding latest_ok_def by simp

lemma attempts_upd:
  assumes "attempts_ok sf h V W" "V i = Some r" "vw_latest_attempt_id r' = vw_latest_attempt_id r" "moved r r'"
  shows "attempts_ok sf h (V(i \<mapsto> r')) W"
  unfolding attempts_ok_def
proof (intro allI impI)
  fix j w
  assume w: "W j = Some w"
  then obtain q where q: "aw_id w = j" "good_attempt sf h w" "V (aw_version_id w) = Some q" "vw_version_hash q = aw_version_hash w"
      "aw_status w = Running \<longrightarrow> vw_latest_attempt_id q = Some j"
    using assms(1) unfolding attempts_ok_def by blast
  then show "aw_id w = j \<and> good_attempt sf h w
     \<and> (\<exists>q. (V(i \<mapsto> r')) (aw_version_id w) = Some q \<and> vw_version_hash q = aw_version_hash w
          \<and> (aw_status w = Running \<longrightarrow> vw_latest_attempt_id q = Some j))"
    using assms(2,3) moved_fields[OF assms(4)] by (cases "aw_version_id w = i") auto
qed

text \<open>The invariant on the maps, and the move of one version with its scope.\<close>

definition maps_inv :: "(rat \<Rightarrow> jsstr) \<Rightarrow> (bytes \<Rightarrow> jsstr) \<Rightarrow> versions \<Rightarrow> scopes \<Rightarrow> attempts \<Rightarrow> audit_log \<Rightarrow> bool" where
  "maps_inv sf h V S W A \<longleftrightarrow> vers_ok sf h V \<and> links V S \<and> scopes_ok V S \<and> latest_ok V W \<and> attempts_ok sf h V W \<and> approvals_ok V A"

lemma ref_inv_maps:
  "ref_inv sf h st \<longleftrightarrow> maps_inv sf h (readVersion st) (readScope st) (readValidation st) (rd_audit st)
     \<and> log_inv sf h (rd_audit st) \<and> shape_ok (shape st)"
  by (auto simp: ref_inv_def maps_inv_def)

lemma maps_move:
  assumes "maps_inv sf h V S W A" "V i = Some r" "moved r r'" "good_version sf h r'" "S (vw_scope_key r) = Some s"
    "sw_active_version_id s' = head_after r r' s" "sw_scope_key s' = vw_scope_key r" "scope_view_ok s'" "scope_integrity s'"
    "vw_state r' = Active \<longrightarrow> vw_state r = Active \<or> sw_active_version_id s = None"
    "vw_latest_attempt_id r' = vw_latest_attempt_id r" "vw_validated_attempt_id r' = vw_validated_attempt_id r"
    "set A \<subseteq> set B" "vw_approval_audit_id r' \<in> {None, vw_approval_audit_id r} \<or> (\<exists>d. vw_approval_audit_id r' = Some d \<and> approved_in d B)"
  shows "maps_inv sf h (V(i \<mapsto> r')) (S(vw_scope_key r \<mapsto> s')) W B"
proof -
  note m = assms(1)[unfolded maps_inv_def]
  have i: "vw_id r = i" using m assms(2) unfolding vers_ok_def by blast
  show ?thesis unfolding maps_inv_def
  proof (intro conjI)
    show "vers_ok sf h (V(i \<mapsto> r'))" using vers_upd[of sf h V r' i] m i moved_fields[OF assms(3)] assms(4) by simp
    show "links (V(i \<mapsto> r')) (S(vw_scope_key r \<mapsto> s'))" using links_upd[of V S, OF _ _ assms(2) i assms(3,5,6,10)] m by blast
    show "scopes_ok (V(i \<mapsto> r')) (S(vw_scope_key r \<mapsto> s'))" using scopes_upd[of V S, OF _ _ assms(2) i assms(3,5,6,7,8,9)] m by blast
    show "latest_ok (V(i \<mapsto> r')) W" using latest_upd[of V W, OF _ assms(2,11,12)] m by blast
    show "attempts_ok sf h (V(i \<mapsto> r')) W" using attempts_upd[of sf h V W, OF _ assms(2,11,3)] m by blast
    show "approvals_ok (V(i \<mapsto> r')) B" using approvals_upd[of V A, OF _ assms(2,13,14)] m by blast
  qed
qed

section \<open>The abstract life cycle\<close>

text \<open>
  What governed learning promises of a store of methods: a version is proposed, qualifies, is approved and becomes the
  head of its scope, alone; a head that is replaced retires in the same step.
\<close>

record life =
  lf_state :: "jsstr \<Rightarrow> version_state option"
  lf_scope :: "jsstr \<Rightarrow> jsstr option"
  lf_head :: "jsstr \<Rightarrow> jsstr option"

definition retire :: "jsstr option \<Rightarrow> (jsstr \<Rightarrow> version_state option) \<Rightarrow> jsstr \<Rightarrow> version_state option" where
  "retire p m = (case p of None \<Rightarrow> m | Some i \<Rightarrow> m(i \<mapsto> Disabled))"

definition install :: "jsstr \<Rightarrow> jsstr \<Rightarrow> life \<Rightarrow> life" where
  "install i k L = L\<lparr>lf_state := (retire (lf_head L k) (lf_state L))(i \<mapsto> Active), lf_head := (lf_head L)(k \<mapsto> i)\<rparr>"

inductive life_step :: "life \<Rightarrow> life \<Rightarrow> bool" where
  proposes: "lf_state L i = None \<Longrightarrow> life_step L (L\<lparr>lf_state := (lf_state L)(i \<mapsto> Proposed), lf_scope := (lf_scope L)(i \<mapsto> k)\<rparr>)"
| reopens: "lf_state L i \<in> {Some Proposed, Some Validated} \<Longrightarrow> life_step L (L\<lparr>lf_state := (lf_state L)(i \<mapsto> Proposed)\<rparr>)"
| qualifies: "lf_state L i \<in> {Some Proposed, Some Disabled} \<Longrightarrow> life_step L (L\<lparr>lf_state := (lf_state L)(i \<mapsto> Validated)\<rparr>)"
| approves: "lf_state L i = Some Validated \<Longrightarrow> life_step L (L\<lparr>lf_state := (lf_state L)(i \<mapsto> Approved)\<rparr>)"
| activates: "lf_state L i = Some Approved \<Longrightarrow> lf_scope L i = Some k \<Longrightarrow> life_step L (install i k L)"
| rolls_back: "lf_state L i = Some Disabled \<Longrightarrow> lf_scope L i = Some k \<Longrightarrow> lf_head L k \<noteq> None \<Longrightarrow> life_step L (install i k L)"
| disables: "lf_state L i \<in> {Some Active, Some Approved} \<Longrightarrow> lf_scope L i = Some k \<Longrightarrow>
    life_step L (L\<lparr>lf_state := (lf_state L)(i \<mapsto> Disabled), lf_head := (if lf_head L k = Some i then (lf_head L)(k := None) else lf_head L)\<rparr>)"

definition lives :: "ref_db \<Rightarrow> life" where
  "lives st = \<lparr>lf_state = map_option vw_state \<circ> readVersion st, lf_scope = map_option vw_scope_key \<circ> readVersion st,
     lf_head = (\<lambda>k. Option.bind (readScope st k) sw_active_version_id)\<rparr>"

subsection \<open>What a method may change\<close>

definition attempt_kept :: "validation_row \<Rightarrow> validation_row \<Rightarrow> bool" where
  "attempt_kept w w' \<longleftrightarrow> aw_version_id w' = aw_version_id w \<and> aw_version_hash w' = aw_version_hash w \<and> aw_bindings w' = aw_bindings w
     \<and> aw_started_at w' = aw_started_at w \<and> aw_deadline_at w' = aw_deadline_at w \<and> (aw_status w \<noteq> Running \<longrightarrow> w' = w)"

definition scope_kept :: "scope_row \<Rightarrow> scope_row \<Rightarrow> bool" where
  "scope_kept s s' \<longleftrightarrow> sw_generation s \<le> sw_generation s' \<and> (sw_generation s = sw_generation s' \<longrightarrow> s' = s)"

definition extends :: "('a \<Rightarrow> 'a \<Rightarrow> bool) \<Rightarrow> (jsstr \<Rightarrow> 'a option) \<Rightarrow> (jsstr \<Rightarrow> 'a option) \<Rightarrow> bool" where
  "extends R m m' \<longleftrightarrow> (\<forall>i x. m i = Some x \<longrightarrow> (\<exists>y. m' i = Some y \<and> R x y))"

definition evolves :: "ref_db \<Rightarrow> ref_db \<Rightarrow> bool" where
  "evolves st st' \<longleftrightarrow> extends moved (readVersion st) (readVersion st') \<and> extends scope_kept (readScope st) (readScope st')
     \<and> extends attempt_kept (readValidation st) (readValidation st') \<and> (\<exists>ext. rd_audit st' = rd_audit st @ ext)"

lemma extends_refl: "(\<And>x. R x x) \<Longrightarrow> extends R m m"
  by (simp add: extends_def)

lemma extends_trans:
  assumes "extends R m m'" "extends R m' m''" "\<And>x y z. R x y \<Longrightarrow> R y z \<Longrightarrow> R x z"
  shows "extends R m m''"
  using assms unfolding extends_def by blast

lemma extends_upd: "(\<And>x. R x x) \<Longrightarrow> (\<And>x. m i = Some x \<Longrightarrow> R x y) \<Longrightarrow> extends R m (m(i \<mapsto> y))"
  by (simp add: extends_def)

lemma kept_refl [simp]: "attempt_kept w w" "scope_kept s s"
  by (simp_all add: attempt_kept_def scope_kept_def)

lemma attempt_kept_trans: "attempt_kept x y \<Longrightarrow> attempt_kept y z \<Longrightarrow> attempt_kept x z"
  unfolding attempt_kept_def by (cases "aw_status x = Running") auto

lemma scope_kept_trans: "scope_kept x y \<Longrightarrow> scope_kept y z \<Longrightarrow> scope_kept x z"
  unfolding scope_kept_def using le_antisym le_trans by metis

lemma evolves_refl [simp]: "evolves st st"
  by (simp add: evolves_def extends_refl)

lemma evolves_trans:
  assumes "evolves x y" "evolves y z"
  shows "evolves x z"
proof -
  obtain e1 e2 where "rd_audit y = rd_audit x @ e1" "rd_audit z = rd_audit y @ e2" using assms unfolding evolves_def by blast
  then have "\<exists>ext. rd_audit z = rd_audit x @ ext" by simp
  moreover have "extends moved (readVersion x) (readVersion z)"
    using assms extends_trans[of moved] moved_trans unfolding evolves_def by blast
  moreover have "extends scope_kept (readScope x) (readScope z)"
    using assms extends_trans[of scope_kept] scope_kept_trans unfolding evolves_def by blast
  moreover have "extends attempt_kept (readValidation x) (readValidation z)"
    using assms extends_trans[of attempt_kept] attempt_kept_trans unfolding evolves_def by blast
  ultimately show ?thesis unfolding evolves_def by blast
qed

subsection \<open>Sound actions\<close>

text \<open>An action that returns keeps the invariant, changes only what may change, and follows the life cycle.\<close>

definition follows :: "ref_db \<Rightarrow> ref_db \<Rightarrow> bool" where
  "follows st st' \<longleftrightarrow> evolves st st' \<and> life_step\<^sup>*\<^sup>* (lives st) (lives st')"

definition sound :: "ref_env \<Rightarrow> 'a ract \<Rightarrow> bool" where
  "sound env m \<longleftrightarrow> (\<forall>st x st'. ref_inv (re_num env) (re_sha env) st \<longrightarrow> m st = (Inr x, st')
     \<longrightarrow> ref_inv (re_num env) (re_sha env) st' \<and> follows st st')"

lemma follows_refl [simp]: "follows st st"
  by (simp add: follows_def)

lemma follows_trans: "follows x y \<Longrightarrow> follows y z \<Longrightarrow> follows x z"
  unfolding follows_def using evolves_trans by (meson rtranclp_trans)

lemma lives_frame [simp]: "lives (st\<lparr>rd_uuids := n\<rparr>) = lives st" "lives (st\<lparr>rd_audit := A\<rparr>) = lives st"
  by (simp_all add: lives_def)

lemma follows_audit: "follows st (st\<lparr>rd_audit := rd_audit st @ ext, rd_uuids := n\<rparr>)"
  by (simp add: follows_def evolves_def extends_refl)

lemma follows_uuids: "follows st (st\<lparr>rd_uuids := n\<rparr>)"
  by (simp add: follows_def evolves_def extends_refl)

lemma ref_inv_uuids [simp]: "ref_inv sf h (st\<lparr>rd_uuids := n\<rparr>) = ref_inv sf h st"
  by (simp add: ref_inv_def)

lemma sound_pure: "(\<And>st x st'. m st = (Inr x, st') \<Longrightarrow> st' = st) \<Longrightarrow> sound env m"
  unfolding sound_def by (metis follows_refl)

lemma sound_rbind: "sound env m \<Longrightarrow> (\<And>x. sound env (f x)) \<Longrightarrow> sound env (rbind m f)"
  unfolding sound_def rbind_Inr using follows_trans by blast

lemma sound_basic [simp, intro]:
  "sound env (rret x)" "sound env (rfail e)" "sound env (rread f)" "sound env (rtry g)" "sound env (runless b e)" "sound env (rhash env v)"
  "sound env (version env i)" "sound env (attempt env i)" "sound env (scope env k)"
  by (rule sound_pure; simp add: ract_simps)+ (rule sound_pure, erule scope_Inr(2))

lemma sound_fresh [simp, intro]: "sound env (fresh_ref env)"
  unfolding sound_def fresh_ref_Inr by (metis follows_uuids ref_inv_uuids)

lemma sound_emit: "env_ok env \<Longrightarrow> sound env (emit env act row md out)"
  unfolding sound_def
proof (intro allI impI)
  fix st d st'
  assume e: "env_ok env" and i: "ref_inv (re_num env) (re_sha env) st" and m: "emit env act row md out st = (Inr d, st')"
  obtain x n where s: "st' = st\<lparr>rd_audit := rd_audit st @ [x], rd_uuids := n\<rparr>"
      "log_inv (re_num env) (re_sha env) (rd_audit st) \<longrightarrow> log_inv (re_num env) (re_sha env) (rd_audit st @ [x])"
    using emit_effect[OF m e] by metis
  have "approvals_ok (readVersion st) (rd_audit st @ [x])" 
    using i approvals_mono[of "readVersion st" "rd_audit st" "rd_audit st @ [x]"] by (simp add: ref_inv_def subset_insertI)
  then have "ref_inv (re_num env) (re_sha env) st'" using i s by (simp add: ref_inv_def)
  then show "ref_inv (re_num env) (re_sha env) st' \<and> follows st st'" using s(1) follows_audit by simp
qed

lemma sound_atomic:
  assumes "sound env m" "ref_inv (re_num env) (re_sha env) st"
  shows "ref_inv (re_num env) (re_sha env) (snd (atomic m st)) \<and> follows st (snd (atomic m st))"
proof (cases m st rule: atomic_cases)
  case (1 x st1)
  then show ?thesis using assms unfolding sound_def by auto
next
  case (2 c n)
  then show ?thesis using assms(2) follows_uuids by simp
qed

end
