(* ===== verification/RefineSafe.thy ===== *)
theory RefineSafe
  imports RefineInv
begin

text \<open>
  Every method of the refinement manager is sound: what it does when it returns, the invariant it keeps and the steps of
  the life cycle it takes; then the reachable stores.
\<close>

section \<open>What the methods do when they return\<close>

lemma boundVersion_Inr [ract_simps]:
  "boundVersion env i hh st = (Inr v, st') \<longleftrightarrow> version env i st = (Inr v, st') \<and> vw_version_hash (fst v) = hh"
  unfolding boundVersion_def rbind_Inr by (cases "version env i st"; cases v) (auto simp: rret_def rfail_def)

lemma passed_Inr [ract_simps]:
  "passed env v i hh st = (Inr a, st') \<longleftrightarrow> vw_validated_attempt_id (fst v) = Some i \<and> vw_latest_attempt_id (fst v) = Some i
     \<and> attempt env i st = (Inr a, st') \<and> va_status a = Passed \<and> va_reportHash a = hh \<and> bi_versionId (va_bindings a) = en_versionId (snd v)
     \<and> bi_versionHash (va_bindings a) = vw_version_hash (fst v) \<and> compatible env v (Some a)"
  by (auto simp: passed_def rbind_Inr rret_Inr rfail_Inr if_Inr split: if_splits)

lemma expectGeneration_Inr [ract_simps]: "expectGeneration sc n st = (Inr u, st') \<longleftrightarrow> sw_generation sc = n \<and> st' = st"
  by (simp add: expectGeneration_def runless_Inr)

lemma owned_Inr [ract_simps]: "owned env user st = (Inr u, st') \<longleftrightarrow> user = re_ownerId env \<and> st' = st"
  by (simp add: owned_def runless_Inr)

lemma rupdate_scope_Inr [ract_simps]: "rupdate_scope row st = (Inr u, st') \<longleftrightarrow> st' = updateScope row st"
  by (auto simp: rupdate_scope_def)

lemma version_run:
  assumes "version env i st = (Inr v, st')"
  obtains row en where "v = (row, en)" "st' = st" "readVersion st i = Some row" "vw_id row = i"
    "sealed (re_num env) (re_sha env) row en" "flags_ok row"
proof -
  have *: "readVersion st i = Some (fst v)" "decodeVersion (re_num env) (re_sha env) (fst v) = Inr (fst v, snd v)" "st' = st"
    using assms version_Inr[of env i st v st'] by simp_all
  show ?thesis using that[of "fst v" "snd v"] * readVersion_id[OF *(1)] decode_parts[of "re_num env" "re_sha env" "fst v" "snd v"] by simp
qed

lemma mutation_run:
  assumes "mutation env i hh act request go st = (Inr x, st')"
  obtains (again) row en sc dg where "version env i st = (Inr (row, en), st)" "vw_version_hash row = hh"
      "scope env (vw_scope_key row) st = (Inr sc, st)" "refinementHash (re_num env) (re_sha env) request = Some dg"
      "repeated row sc act dg = Some x" "st' = st"
  | (fresh) row en sc dg where "version env i st = (Inr (row, en), st)" "vw_version_hash row = hh"
      "scope env (vw_scope_key row) st = (Inr sc, st)" "refinementHash (re_num env) (re_sha env) request = Some dg"
      "repeated row sc act dg = None" "go (row, en) sc dg st = (Inr x, st')"
proof -
  from assms obtain v sc dg st1 st2 where v: "version env i st = (Inr v, st1)" "vw_version_hash (fst v) = hh"
    and sc: "scope env (vw_scope_key (fst v)) st1 = (Inr sc, st2)" and dg: "refinementHash (re_num env) (re_sha env) request = Some dg"
    and r: "(case repeated (fst v) sc act dg of Some r \<Rightarrow> rret r | None \<Rightarrow> go v sc dg) st2 = (Inr x, st')"
    unfolding mutation_def rbind_Inr boundVersion_Inr rhash_Inr by blast
  have "st1 = st" "st2 = st" using v(1) sc scope_Inr(2) by (auto simp: version_Inr)
  then show ?thesis using again[of "fst v" "snd v"] fresh[of "fst v" "snd v"] v sc dg r
    by (cases "repeated (fst v) sc act dg") (auto simp: rret_Inr)
qed

lemma approve_fresh_run:
  assumes "approve_fresh env rq v sc dg st = (Inr x, st')"
  obtains a md au st1 where "sw_generation sc = rq_expectedScopeGeneration rq" "vw_state (fst v) = Validated"
      "passed env v (rq_validationId rq) (Some (rq_reportHash rq)) st = (Inr a, st)"
      "emit env ''approve'' (fst v) md Success st = (Inr au, st1)"
      "updateVersionState (fst (transition env ((fst v)\<lparr>vw_state := Approved, vw_approval_audit_id := Some au\<rparr>) (sw_generation sc) Approve dg au)) st1
        = Inr st'"
      "x = snd (transition env ((fst v)\<lparr>vw_state := Approved, vw_approval_audit_id := Some au\<rparr>) (sw_generation sc) Approve dg au)"
proof -
  from assms obtain a md au st0 st1 where g: "sw_generation sc = rq_expectedScopeGeneration rq" "vw_state (fst v) = Validated"
    and p: "passed env v (rq_validationId rq) (Some (rq_reportHash rq)) st = (Inr a, st0)"
    and e: "emit env ''approve'' (fst v) md Success st0 = (Inr au, st1)"
    and u: "(case transition env ((fst v)\<lparr>vw_state := Approved, vw_approval_audit_id := Some au\<rparr>) (sw_generation sc) Approve dg au of
        (row1, response) \<Rightarrow> rbind (rsql (updateVersionState row1)) (\<lambda>_. rret response)) st1 = (Inr x, st')"
    unfolding approve_fresh_def rbind_Inr runless_Inr expectGeneration_Inr by blast
  have "st0 = st" using p by (simp add: passed_Inr ref_attempt_Inr)
  then show ?thesis using that[OF g] p e u by (auto simp: rbind_Inr rsql_Inr rret_Inr split: prod.splits)
qed

lemma disable_fresh_run:
  assumes "disable_fresh env rq v sc dg st = (Inr x, st')"
  obtains md au st1 st2 where "sw_generation sc = dq_expectedScopeGeneration rq" "vw_state (fst v) \<in> {Active, Approved}"
      "ref_count (sw_generation sc + 1)" "emit env ''disable'' (fst v) md Success st = (Inr au, st1)"
      "updateVersionState (fst (transition env ((fst v)\<lparr>vw_state := Disabled\<rparr>) (sw_generation sc + 1) Disable dg au)) st1 = Inr st2"
      "st' = updateScope (scope_after sc (if sw_active_version_id sc = Some (vw_id (fst v)) then None else sw_active_version_id sc)
         (sw_generation sc + 1) (fst (transition env ((fst v)\<lparr>vw_state := Disabled\<rparr>) (sw_generation sc + 1) Disable dg au))) st2"
      "x = snd (transition env ((fst v)\<lparr>vw_state := Disabled\<rparr>) (sw_generation sc + 1) Disable dg au)"
proof -
  from assms obtain rh md au st1 where g: "sw_generation sc = dq_expectedScopeGeneration rq" "vw_state (fst v) \<in> {Active, Approved}"
      "ref_count (sw_generation sc + 1)"
    and e: "emit env ''disable'' (fst v) md Success st = (Inr au, st1)"
    and u: "(case transition env ((fst v)\<lparr>vw_state := Disabled\<rparr>) (sw_generation sc + 1) Disable dg au of
            (row1, response) \<Rightarrow>
            rbind (rsql (updateVersionState row1)) (\<lambda>_.
            rbind (rupdate_scope (scope_after sc (if sw_active_version_id sc = Some (vw_id (fst v)) then None else sw_active_version_id sc)
              (sw_generation sc + 1) row1)) (\<lambda>_. rret response))) st1 = (Inr x, st')"
    unfolding disable_fresh_def Let_def rbind_Inr runless_Inr expectGeneration_Inr rhash_Inr by blast
  then show ?thesis using that[OF g e] by (auto simp: rbind_Inr rsql_Inr rret_Inr rupdate_scope_Inr split: prod.splits)
qed

lemma supersede_run:
  assumes "supersede env sc g new dg st = (Inr x, st')"
  obtains (none) "sw_active_version_id sc = None" "st' = st"
  | (retires) p prow pen md au st1 where "sw_active_version_id sc = Some p" "version env p st = (Inr (prow, pen), st)"
      "emit env ''disable'' prow md Success st = (Inr au, st1)"
      "updateVersionState (fst (transition env (prow\<lparr>vw_state := Disabled\<rparr>) g Disable dg au)) st1 = Inr st'"
proof (cases "sw_active_version_id sc")
  case None
  then show ?thesis using none assms by (simp add: supersede_def rret_Inr)
next
  case (Some p)
  then obtain prow pen md au st0 st1 where v: "version env p st = (Inr (prow, pen), st0)" "emit env ''disable'' prow md Success st0 = (Inr au, st1)"
      "updateVersionState (fst (transition env (prow\<lparr>vw_state := Disabled\<rparr>) g Disable dg au)) st1 = Inr st'"
    using assms by (auto simp: supersede_def rbind_Inr rsql_Inr)
  moreover have "st0 = st" using v(1) by (simp add: version_Inr)
  ultimately show ?thesis using retires[OF Some] by blast
qed

lemma switch_fresh_run:
  assumes "switch_fresh env rq act nm d v sc dg st = (Inr x, st')"
  obtains a appr md au st1 st2 st3 st4 where "sw_generation sc = rq_expectedScopeGeneration rq"
      "passed env v (rq_validationId rq) (Some (rq_reportHash rq)) st = (Inr a, st)"
      "(case d of Some d \<Rightarrow> activation_approval env (fst v) d | None \<Rightarrow> rollback_approval env v sc rq dg) st = (Inr appr, st1)"
      "ref_count (sw_generation sc + 1)" "supersede env sc (sw_generation sc + 1) (vw_id (fst v)) dg st1 = (Inr (), st2)"
      "emit env nm (fst v) md Success st2 = (Inr au, st3)"
      "updateVersionState (fst (transition env ((fst v)\<lparr>vw_state := Active, vw_approval_audit_id := Some appr\<rparr>) (sw_generation sc + 1) act dg au)) st3
         = Inr st4"
      "st' = updateScope (scope_after sc (Some (vw_id (fst v))) (sw_generation sc + 1)
         (fst (transition env ((fst v)\<lparr>vw_state := Active, vw_approval_audit_id := Some appr\<rparr>) (sw_generation sc + 1) act dg au))) st4"
      "x = snd (transition env ((fst v)\<lparr>vw_state := Active, vw_approval_audit_id := Some appr\<rparr>) (sw_generation sc + 1) act dg au)"
proof -
  from assms obtain a appr md au st0 st1 st2 st3 u where g: "sw_generation sc = rq_expectedScopeGeneration rq"
    and p: "passed env v (rq_validationId rq) (Some (rq_reportHash rq)) st = (Inr a, st0)"
    and ap: "(case d of Some d \<Rightarrow> activation_approval env (fst v) d | None \<Rightarrow> rollback_approval env v sc rq dg) st0 = (Inr appr, st1)"
    and c: "ref_count (sw_generation sc + 1)" and s: "supersede env sc (sw_generation sc + 1) (vw_id (fst v)) dg st1 = (Inr u, st2)"
    and e: "emit env nm (fst v) md Success st2 = (Inr au, st3)"
    and t: "(case transition env ((fst v)\<lparr>vw_state := Active, vw_approval_audit_id := Some appr\<rparr>) (sw_generation sc + 1) act dg au of
         (row1, response) \<Rightarrow>
         rbind (rsql (updateVersionState row1)) (\<lambda>_.
         rbind (rupdate_scope (scope_after sc (Some (vw_id (fst v))) (sw_generation sc + 1) row1)) (\<lambda>_. rret response))) st3 = (Inr x, st')"
    unfolding switch_fresh_def Let_def rbind_Inr runless_Inr expectGeneration_Inr by blast
  have "st0 = st" using p by (simp add: passed_Inr ref_attempt_Inr)
  then show ?thesis using that[OF g _ _ c _ e] p ap s t by (auto simp: rbind_Inr rsql_Inr rret_Inr rupdate_scope_Inr split: prod.splits)
qed

lemma rollback_approval_run:
  assumes "rollback_approval env (row, en) sc rq dg st = (Inr appr, st')"
  obtains p crow cen md where "sw_active_version_id sc = Some p" "vw_state row = Disabled" "vw_approval_audit_id row \<noteq> None"
    "version env p st = (Inr (crow, cen), st)" "en_familyId cen = en_familyId en" "en_revision en < en_revision cen"
    "emit env ''approve'' row md Success st = (Inr appr, st')"
proof -
  from assms obtain p where p: "sw_active_version_id sc = Some p" "vw_state row = Disabled" "vw_approval_audit_id row \<noteq> None"
    unfolding rollback_approval_def by (auto simp: rfail_Inr split: option.splits if_splits)
  from assms p obtain crow cen md st0 where c: "version env p st = (Inr (crow, cen), st0)" "en_familyId cen = en_familyId en"
      "\<not> en_revision cen \<le> en_revision en" "emit env ''approve'' row md Success st0 = (Inr appr, st')"
    unfolding rollback_approval_def by (auto simp: rbind_Inr rfail_def split: if_splits)
  moreover have "st0 = st" using c(1) by (simp add: version_Inr)
  ultimately show ?thesis using that[OF p] by auto
qed

section \<open>Soundness of the mutating methods\<close>

lemma scope_after_ok:
  assumes "scope_view_ok sc" "hash_text dg" "ref_id au" "ref_id (vw_id row)" "hash_text (vw_version_hash row)" "ref_count g" "opt_all ref_id act"
  shows "scope_view_ok (scope_after sc act g (fst (transition env row g a dg au)))"
    "scope_integrity (scope_after sc act g (fst (transition env row g a dg au)))"
  using assms by (auto simp: scope_view_ok_def scope_integrity_def scope_after_def transition_ok_def response_ok_def opt_all_def)

lemma scope_after_fields [simp]:
  "sw_scope_key (scope_after sc act g row) = sw_scope_key sc" "sw_active_version_id (scope_after sc act g row) = act"
  "sw_generation (scope_after sc act g row) = g"
  by (simp_all add: scope_after_def)

lemma sealed_id: "sealed sf h r en \<Longrightarrow> ref_id (vw_id r) \<and> hash_text (vw_version_hash r)"
  by (auto simp: sealed_def envelope_ok_def)

lemma moved_state [simp]:
  "moved r (r\<lparr>vw_state := s\<rparr>)" "moved r (r\<lparr>vw_state := s, vw_approval_audit_id := d\<rparr>)"
  by (simp_all add: moved_def set_version_state_def)

lemma scope_own:
  assumes "ref_inv sf h st" "readVersion st i = Some r" "readScope st (vw_scope_key r) = Some sc"
  shows "vw_state r = Active \<longleftrightarrow> sw_active_version_id sc = Some i"
  using assms links_own unfolding ref_inv_def by blast

lemma lives_upd:
  assumes "readVersion st' = (readVersion st)(i \<mapsto> r')" "readScope st' = readScope st" "readVersion st i = Some r" "moved r r'"
  shows "lives st' = (lives st)\<lparr>lf_state := (lf_state (lives st))(i \<mapsto> vw_state r')\<rparr>"
  using assms moved_fields[OF assms(4)] by (simp add: lives_def fun_eq_iff)

lemma approve_fresh_sound:
  assumes "env_ok env" "ref_inv (re_num env) (re_sha env) st" "version env i st = (Inr (row, en), st)"
    "scope env (vw_scope_key row) st = (Inr sc, st)" "hash_text dg" "approve_fresh env rq (row, en) sc dg st = (Inr x, st')"
  shows "ref_inv (re_num env) (re_sha env) st' \<and> follows st st'"
proof -
  let ?row = "\<lambda>au. row\<lparr>vw_state := Approved, vw_approval_audit_id := Some au\<rparr>"
  let ?r' = "\<lambda>au. fst (transition env (?row au) (sw_generation sc) Approve dg au)"
  obtain a md au st1 where run: "vw_state row = Validated"
      "passed env (row, en) (rq_validationId rq) (Some (rq_reportHash rq)) st = (Inr a, st)"
      "emit env ''approve'' row md Success st = (Inr au, st1)" "updateVersionState (?r' au) st1 = Inr st'"
    using approve_fresh_run[OF assms(6)] by (metis fst_conv)
  obtain e n where em: "st1 = st\<lparr>rd_audit := rd_audit st @ [e], rd_uuids := n\<rparr>" "ref_id au"
      "log_inv (re_num env) (re_sha env) (rd_audit st) \<longrightarrow> log_inv (re_num env) (re_sha env) (rd_audit st @ [e])"
      "entryId e = au \<and> toolName e = js ''refinement.approve''"
    using emit_effect[OF run(3) assms(1)] by metis
  from assms(3) have v: "readVersion st i = Some row" "vw_id row = i" "sealed (re_num env) (re_sha env) row en" "flags_ok row"
    by (auto elim: version_run)
  note sc = scope_Inr[OF assms(4)]
  have m: "moved row (?r' au)" by (rule transition_moved) simp
  have V: "readVersion st' = (readVersion st)(i \<mapsto> ?r' au)"
    using update_moved[OF run(4) _ m] v(1,2) em(1) by simp
  have o: "readScope st' = readScope st" "readValidation st' = readValidation st" "rd_audit st' = rd_audit st @ [e]" "shape st' = shape st"
    using updateVersionState_map(2-5)[OF run(4)] em(1) by simp_all
  have val: "vw_validated_attempt_id row \<noteq> None" using v(4) run(1) by (auto simp: flags_ok_def)
  have good: "good_version (re_num env) (re_sha env) (?r' au)"
  proof (rule transition_good)
    show "sealed (re_num env) (re_sha env) (?row au) en" by (rule moved_sealed[OF _ v(3)]) simp
    show "flags_ok (?row au)" using v(4) val em(2) by (auto simp: flags_ok_def opt_all_def)
    show "hash_text dg" by (rule assms(5))
    show "ref_id au" by (rule em(2))
    show "ref_count (sw_generation sc)" using sc(3) by (simp add: scope_view_ok_def)
  qed
  have "maps_inv (re_num env) (re_sha env) ((readVersion st)(i \<mapsto> ?r' au)) ((readScope st)(vw_scope_key row \<mapsto> sc)) (readValidation st)
      (rd_audit st @ [e])"
    using assms(2)[unfolded ref_inv_maps, THEN conjunct1] v(1) m good sc(1)
  proof (rule maps_move)
    show "sw_active_version_id sc = head_after row (?r' au) sc" using run(1) by (simp add: head_after_def)
    show "sw_scope_key sc = vw_scope_key row" by (rule readScope_key[OF sc(1)])
    show "vw_approval_audit_id (?r' au) \<in> {None, vw_approval_audit_id row}
      \<or> (\<exists>d. vw_approval_audit_id (?r' au) = Some d \<and> approved_in d (rd_audit st @ [e]))"
      using em(4) by (auto simp: approved_in_def)
  qed (use sc in \<open>auto\<close>)
  moreover have "(readScope st)(vw_scope_key row \<mapsto> sc) = readScope st" using sc(1) by (rule map_upd_triv)
  ultimately have "ref_inv (re_num env) (re_sha env) st'" using V o em(3) assms(2) by (simp add: ref_inv_maps)
  moreover have "evolves st st'" unfolding evolves_def V o using v(1) m by (auto intro!: extends_upd extends_refl)
  moreover have "life_step (lives st) (lives st')"
    unfolding lives_upd[OF V o(1) v(1) m] using life_step.approves[of "lives st" i] v(1) run(1) by (simp add: lives_def)
  ultimately show ?thesis by (auto simp: follows_def)
qed

lemma disable_fresh_sound:
  assumes "env_ok env" "ref_inv (re_num env) (re_sha env) st" "version env i st = (Inr (row, en), st)"
    "scope env (vw_scope_key row) st = (Inr sc, st)" "hash_text dg" "disable_fresh env rq (row, en) sc dg st = (Inr x, st')"
  shows "ref_inv (re_num env) (re_sha env) st' \<and> follows st st'"
proof -
  let ?row = "row\<lparr>vw_state := Disabled\<rparr>" and ?g = "sw_generation sc + 1"
  let ?r' = "\<lambda>au. fst (transition env ?row ?g Disable dg au)"
  let ?act = "if sw_active_version_id sc = Some (vw_id row) then None else sw_active_version_id sc"
  let ?s' = "\<lambda>au. scope_after sc ?act ?g (?r' au)"
  obtain md au st1 st2 where run: "vw_state row \<in> {Active, Approved}" "ref_count ?g" "emit env ''disable'' row md Success st = (Inr au, st1)"
      "updateVersionState (?r' au) st1 = Inr st2" "st' = updateScope (?s' au) st2"
    using disable_fresh_run[OF assms(6)] by (metis fst_conv)
  obtain e n where em: "st1 = st\<lparr>rd_audit := rd_audit st @ [e], rd_uuids := n\<rparr>" "ref_id au"
      "log_inv (re_num env) (re_sha env) (rd_audit st) \<longrightarrow> log_inv (re_num env) (re_sha env) (rd_audit st @ [e])"
    using emit_effect[OF run(3) assms(1)] by metis
  from assms(3) have v: "readVersion st i = Some row" "vw_id row = i" "sealed (re_num env) (re_sha env) row en" "flags_ok row"
    by (auto elim: version_run)
  note sc = scope_Inr[OF assms(4)]
  have key: "sw_scope_key sc = vw_scope_key row" by (rule readScope_key[OF sc(1)])
  have own: "vw_state row = Active \<longleftrightarrow> sw_active_version_id sc = Some i" by (rule scope_own[OF assms(2) v(1) sc(1)])
  have m: "moved row (?r' au)" by (rule transition_moved) simp
  have V2: "readVersion st2 = (readVersion st)(i \<mapsto> ?r' au)"
    using update_moved[OF run(4) _ m] v(1,2) em(1) by simp
  have o2: "readScope st2 = readScope st" "readValidation st2 = readValidation st" "rd_audit st2 = rd_audit st @ [e]" "shape st2 = shape st"
    using updateVersionState_map(2-5)[OF run(4)] em(1) by simp_all
  have "readScope st2 (sw_scope_key (?s' au)) = Some sc" using o2(1) sc(1) key by simp
  note us = updateScope_map[OF this]
  have o: "readVersion st' = (readVersion st)(i \<mapsto> ?r' au)" "readScope st' = (readScope st)(vw_scope_key row \<mapsto> ?s' au)"
      "readValidation st' = readValidation st" "rd_audit st' = rd_audit st @ [e]" "shape st' = shape st"
    using us V2 o2 key unfolding run(5) by simp_all
  have good: "good_version (re_num env) (re_sha env) (?r' au)"
  proof (rule transition_good)
    show "sealed (re_num env) (re_sha env) ?row en" by (rule moved_sealed[OF _ v(3)]) simp
    show "flags_ok ?row" using v(4) by (auto simp: flags_ok_def)
    show "ref_count ?g" by (rule run(2))
  qed (fact assms(5) em(2))+
  have view: "scope_view_ok (?s' au)" "scope_integrity (?s' au)"
    using scope_after_ok[OF sc(3) assms(5) em(2), of ?row ?g ?act env Disable] sealed_id[OF v(3)] run(2) sc(3)
    by (simp_all add: scope_view_ok_def opt_all_def split: option.splits)
  have "maps_inv (re_num env) (re_sha env) ((readVersion st)(i \<mapsto> ?r' au)) ((readScope st)(vw_scope_key row \<mapsto> ?s' au)) (readValidation st)
      (rd_audit st @ [e])"
    using assms(2)[unfolded ref_inv_maps, THEN conjunct1] v(1) m good sc(1)
  proof (rule maps_move)
    show "sw_active_version_id (?s' au) = head_after row (?r' au) sc" using own v(2) by (simp add: head_after_def)
    show "sw_scope_key (?s' au) = vw_scope_key row" using key by simp
  qed (use view in \<open>auto\<close>)
  then have "ref_inv (re_num env) (re_sha env) st'" using o em(3) assms(2) by (simp add: ref_inv_maps)
  moreover have "evolves st st'" unfolding evolves_def o using v(1) m sc(1) by (auto intro!: extends_upd extends_refl simp: scope_kept_def)
  moreover have "life_step (lives st) (lives st')"
  proof -
    have "lives st' = (lives st)\<lparr>lf_state := (lf_state (lives st))(i \<mapsto> Disabled),
        lf_head := (if lf_head (lives st) (vw_scope_key row) = Some i then (lf_head (lives st))(vw_scope_key row := None) else lf_head (lives st))\<rparr>"
      using o v(1,2) sc(1) moved_fields[OF m] by (simp add: lives_def fun_eq_iff)
    then show ?thesis using life_step.disables[of "lives st" i "vw_scope_key row"] v(1) run(1) by (simp add: lives_def)
  qed
  ultimately show ?thesis by (auto simp: follows_def)
qed

text \<open>The approval a version is activated with: its own, or the one its rollback has just written.\<close>

lemma switch_approval:
  assumes "env_ok env" "log_inv (re_num env) (re_sha env) (rd_audit st)"
    "(case d of Some d \<Rightarrow> activation_approval env row d | None \<Rightarrow> rollback_approval env (row, en) sc rq dg) st = (Inr appr, st1)"
  obtains ext n where "st1 = st\<lparr>rd_audit := rd_audit st @ ext, rd_uuids := n\<rparr>" "log_inv (re_num env) (re_sha env) (rd_audit st @ ext)"
    "vw_approval_audit_id row = Some appr \<or> ref_id appr \<and> approved_in appr (rd_audit st @ ext)" "vw_approval_audit_id row \<noteq> None"
    "d \<noteq> None \<and> vw_state row = Approved \<or> d = None \<and> vw_state row = Disabled \<and> sw_active_version_id sc \<noteq> None"
proof (cases d)
  case None
  then obtain md where r: "sw_active_version_id sc \<noteq> None" "vw_state row = Disabled" "vw_approval_audit_id row \<noteq> None"
      "emit env ''approve'' row md Success st = (Inr appr, st1)"
    using assms(3) by (auto elim: rollback_approval_run)
  then obtain e n where "st1 = st\<lparr>rd_audit := rd_audit st @ [e], rd_uuids := n\<rparr>" "ref_id appr"
      "log_inv (re_num env) (re_sha env) (rd_audit st @ [e])" "entryId e = appr" "toolName e = js ''refinement.approve''"
    using emit_effect[OF r(4) assms(1)] assms(2) by metis
  then show ?thesis using that[of n "[e]"] r None by (auto simp: approved_in_def)
next
  case (Some c)
  then have "vw_state row = Approved" "vw_approval_audit_id row = Some appr" "st1 = st"
    using assms(3) by (auto simp: activation_approval_def rfail_def rret_def split: if_splits)
  then show ?thesis using that[of "rd_uuids st" "[]"] Some assms(2) by simp
qed

text \<open>The version that is replaced retires, and its scope has no head until the next one is installed.\<close>

lemma supersede_effect:
  assumes "env_ok env" "ref_inv (re_num env) (re_sha env) st" "readScope st k = Some sc" "scope_view_ok sc" "hash_text dg" "ref_count (sw_generation sc + 1)"
    "supersede env sc (sw_generation sc + 1) new dg st = (Inr x, st')"
  obtains s1 ext n V where "rd_audit st' = rd_audit st @ ext" "log_inv (re_num env) (re_sha env) (rd_audit st @ ext)" "readVersion st' = V"
    "readScope st' = readScope st" "readValidation st' = readValidation st"
    "maps_inv (re_num env) (re_sha env) V ((readScope st)(k \<mapsto> s1)) (readValidation st) (rd_audit st @ ext)" "sw_active_version_id s1 = None"
    "\<forall>i r. readVersion st i = Some r \<longrightarrow> vw_state r \<noteq> Active \<longrightarrow> V i = Some r"
    "map_option vw_state \<circ> V = retire (sw_active_version_id sc) (map_option vw_state \<circ> readVersion st)"
    "map_option vw_scope_key \<circ> V = map_option vw_scope_key \<circ> readVersion st" "extends moved (readVersion st) V"
    "shape st' = shape st"
  using assms(7)
proof (cases rule: supersede_run)
  case none
  have "(readScope st)(k \<mapsto> sc) = readScope st" using assms(3) by (rule map_upd_triv)
  then show ?thesis using that[of "[]" "readVersion st" sc] none assms(2) by (simp add: ref_inv_maps retire_def extends_refl)
next
  case (retires p prow pen md au st1)
  let ?row = "prow\<lparr>vw_state := Disabled\<rparr>" and ?g = "sw_generation sc + 1"
  let ?r' = "fst (transition env ?row ?g Disable dg au)"
  let ?s = "scope_after sc None ?g ?r'"
  from retires(2) have v: "readVersion st p = Some prow" "vw_id prow = p" "sealed (re_num env) (re_sha env) prow pen" "flags_ok prow"
    by (auto elim: version_run)
  obtain e n where em: "st1 = st\<lparr>rd_audit := rd_audit st @ [e], rd_uuids := n\<rparr>" "ref_id au"
      "log_inv (re_num env) (re_sha env) (rd_audit st @ [e])"
    using emit_effect[OF retires(3) assms(1)] assms(2) unfolding ref_inv_def by metis
  obtain q where "readVersion st p = Some q" "vw_scope_key q = k" "vw_state q = Active"
    using assms(2,3) retires(1) unfolding ref_inv_def scopes_ok_def by blast
  then have act: "vw_scope_key prow = k" "vw_state prow = Active" using v(1) by auto
  have m: "moved prow ?r'" by (rule transition_moved) simp
  have V: "readVersion st' = (readVersion st)(p \<mapsto> ?r')" using update_moved[OF retires(4) _ m] v(1,2) em(1) by simp
  have o: "readScope st' = readScope st" "readValidation st' = readValidation st" "rd_audit st' = rd_audit st @ [e]" "shape st' = shape st"
    using updateVersionState_map(2-5)[OF retires(4)] em(1) by simp_all
  have good: "good_version (re_num env) (re_sha env) ?r'"
  proof (rule transition_good)
    show "sealed (re_num env) (re_sha env) ?row pen" by (rule moved_sealed[OF _ v(3)]) simp
    show "flags_ok ?row" using v(4) by (auto simp: flags_ok_def)
  qed (fact assms(5,6) em(2))+
  have view: "scope_view_ok ?s" "scope_integrity ?s"
    using scope_after_ok[OF assms(4,5) em(2), of ?row ?g None env Disable] sealed_id[OF v(3)] assms(6) by (simp_all add: opt_all_def)
  have "maps_inv (re_num env) (re_sha env) ((readVersion st)(p \<mapsto> ?r')) ((readScope st)(vw_scope_key prow \<mapsto> ?s)) (readValidation st)
      (rd_audit st @ [e])"
    using assms(2)[unfolded ref_inv_maps, THEN conjunct1] v(1) m good
  proof (rule maps_move)
    show "readScope st (vw_scope_key prow) = Some sc" using assms(3) act by simp
    show "sw_active_version_id ?s = head_after prow ?r' sc" using act by (simp add: head_after_def)
    show "sw_scope_key ?s = vw_scope_key prow" using readScope_key[OF assms(3)] act by simp
  qed (use view in \<open>auto\<close>)
  moreover have "extends moved (readVersion st) ((readVersion st)(p \<mapsto> ?r'))" using v(1) m by (auto intro!: extends_upd)
  ultimately show ?thesis
    using that[OF o(3) em(3) V o(1,2), of ?s] act v(1) moved_fields[OF m] retires(1) o(4) by (simp add: retire_def fun_eq_iff)
qed

lemma ref_inv_audit:
  assumes "ref_inv sf h st" "log_inv sf h (rd_audit st @ ext)"
  shows "ref_inv sf h (st\<lparr>rd_audit := rd_audit st @ ext, rd_uuids := n\<rparr>)"
  using assms approvals_mono[of "readVersion st" "rd_audit st" "rd_audit st @ ext"] by (simp add: ref_inv_def)

lemma switch_fresh_sound:
  assumes "env_ok env" "ref_inv (re_num env) (re_sha env) st" "version env i st = (Inr (row, en), st)"
    "scope env (vw_scope_key row) st = (Inr sc, st)" "hash_text dg" "switch_fresh env rq act nm d (row, en) sc dg st = (Inr x, st')"
  shows "ref_inv (re_num env) (re_sha env) st' \<and> follows st st'"
proof -
  let ?sf = "re_num env" and ?h = "re_sha env" and ?g = "sw_generation sc + 1" and ?k = "vw_scope_key row"
  let ?row = "\<lambda>appr. row\<lparr>vw_state := Active, vw_approval_audit_id := Some appr\<rparr>"
  let ?r = "\<lambda>appr au. fst (transition env (?row appr) ?g act dg au)"
  let ?s = "\<lambda>appr au. scope_after sc (Some (vw_id row)) ?g (?r appr au)"
  obtain a appr md au st1 st2 st3 st4 where run: "passed env (row, en) (rq_validationId rq) (Some (rq_reportHash rq)) st = (Inr a, st)"
      "(case d of Some d \<Rightarrow> activation_approval env row d | None \<Rightarrow> rollback_approval env (row, en) sc rq dg) st = (Inr appr, st1)"
      "ref_count ?g" "supersede env sc ?g (vw_id row) dg st1 = (Inr (), st2)" "emit env nm row md Success st2 = (Inr au, st3)"
      "updateVersionState (?r appr au) st3 = Inr st4" "st' = updateScope (?s appr au) st4"
    using switch_fresh_run[OF assms(6)] by (metis fst_conv)
  from assms(3) have v: "readVersion st i = Some row" "vw_id row = i" "sealed ?sf ?h row en" "flags_ok row" by (auto elim: version_run)
  note sc = scope_Inr[OF assms(4)]
  have key: "sw_scope_key sc = ?k" by (rule readScope_key[OF sc(1)])
  have log: "log_inv ?sf ?h (rd_audit st)" using assms(2) by (simp add: ref_inv_def)
  obtain x1 n where s1: "st1 = st\<lparr>rd_audit := rd_audit st @ x1, rd_uuids := n\<rparr>" "log_inv ?sf ?h (rd_audit st @ x1)"
      "vw_approval_audit_id row = Some appr \<or> ref_id appr \<and> approved_in appr (rd_audit st @ x1)" "vw_approval_audit_id row \<noteq> None"
      "d \<noteq> None \<and> vw_state row = Approved \<or> d = None \<and> vw_state row = Disabled \<and> sw_active_version_id sc \<noteq> None"
    by (rule switch_approval[OF assms(1) log run(2)])
  have i1: "ref_inv ?sf ?h st1" unfolding s1(1) by (rule ref_inv_audit[OF assms(2) s1(2)])
  have r1: "readScope st1 ?k = Some sc" using sc(1) s1(1) by simp
  obtain sm x2 V where s2: "rd_audit st2 = rd_audit st1 @ x2" "log_inv ?sf ?h (rd_audit st1 @ x2)" "readVersion st2 = V"
      "readScope st2 = readScope st1" "readValidation st2 = readValidation st1"
      "maps_inv ?sf ?h V ((readScope st1)(?k \<mapsto> sm)) (readValidation st1) (rd_audit st1 @ x2)" "sw_active_version_id sm = None"
      "\<forall>i r. readVersion st1 i = Some r \<longrightarrow> vw_state r \<noteq> Active \<longrightarrow> V i = Some r"
      "map_option vw_state \<circ> V = retire (sw_active_version_id sc) (map_option vw_state \<circ> readVersion st1)"
      "map_option vw_scope_key \<circ> V = map_option vw_scope_key \<circ> readVersion st1" "extends moved (readVersion st1) V"
      "shape st2 = shape st1"
    by (rule supersede_effect[OF assms(1) i1 r1 sc(3) assms(5) run(3,4)])
  have Vi: "V i = Some row" using s2(8) v(1) s1(1,5) by auto
  obtain e n' where em: "st3 = st2\<lparr>rd_audit := rd_audit st2 @ [e], rd_uuids := n'\<rparr>" "ref_id au" "log_inv ?sf ?h (rd_audit st2 @ [e])"
    using emit_effect[OF run(5) assms(1)] s2(1,2) by metis
  have m: "moved row (?r appr au)" by (rule transition_moved) simp
  have V4: "readVersion st4 = V(i \<mapsto> ?r appr au)" using update_moved[OF run(6) _ m] Vi v(2) em(1) s2(3) by simp
  have o4: "readScope st4 = readScope st" "readValidation st4 = readValidation st" "rd_audit st4 = rd_audit st @ x1 @ x2 @ [e]"
      "shape st4 = shape st"
    using updateVersionState_map(2-5)[OF run(6)] em(1) s2 s1(1) by simp_all
  have "readScope st4 (sw_scope_key (?s appr au)) = Some sc" using o4(1) sc(1) key by simp
  note us = updateScope_map[OF this]
  have o: "readVersion st' = V(i \<mapsto> ?r appr au)" "readScope st' = (readScope st)(?k \<mapsto> ?s appr au)"
      "readValidation st' = readValidation st" "rd_audit st' = rd_audit st @ x1 @ x2 @ [e]" "shape st' = shape st"
    using us V4 o4 key unfolding run(7) by simp_all
  have appr: "ref_id appr" using s1(3) v(4) by (auto simp: flags_ok_def opt_all_def)
  have good: "good_version ?sf ?h (?r appr au)"
  proof (rule transition_good)
    show "sealed ?sf ?h (?row appr) en" by (rule moved_sealed[OF _ v(3)]) simp
    show "flags_ok (?row appr)" using v(4) s1(4) appr by (auto simp: flags_ok_def opt_all_def)
  qed (fact assms(5) em(2) run(3))+
  have view: "scope_view_ok (?s appr au)" "scope_integrity (?s appr au)"
    using scope_after_ok[OF sc(3) assms(5) em(2), of "?row appr" ?g "Some (vw_id row)" env act] sealed_id[OF v(3)] run(3) by (simp_all add: opt_all_def)
  have "maps_inv ?sf ?h (V(i \<mapsto> ?r appr au)) (((readScope st1)(?k \<mapsto> sm))(?k \<mapsto> ?s appr au)) (readValidation st1) (rd_audit st @ x1 @ x2 @ [e])"
    using s2(6) Vi m good
  proof (rule maps_move)
    show "sw_active_version_id (?s appr au) = head_after row (?r appr au) sm" by (simp add: head_after_def)
    show "vw_approval_audit_id (?r appr au) \<in> {None, vw_approval_audit_id row}
      \<or> (\<exists>d. vw_approval_audit_id (?r appr au) = Some d \<and> approved_in d (rd_audit st @ x1 @ x2 @ [e]))"
      using s1(3) by (auto simp: approved_in_def)
  qed (use view key s2(7) s1(1) in \<open>auto\<close>)
  then have "ref_inv ?sf ?h st'" using o em(3) s2(1) s1(1) assms(2) by (simp add: ref_inv_maps)
  moreover have "evolves st st'"
  proof -
    have "extends moved (readVersion st) (V(i \<mapsto> ?r appr au))"
      using s2(11) extends_upd[of moved V i "?r appr au"] Vi m s1(1) extends_trans[of moved "readVersion st" V] moved_trans by auto
    moreover have "extends scope_kept (readScope st) ((readScope st)(?k \<mapsto> ?s appr au))"
      using sc(1) by (auto intro!: extends_upd simp: scope_kept_def)
    ultimately show ?thesis unfolding evolves_def o by (auto intro!: extends_refl)
  qed
  moreover have "lives st' = install i ?k (lives st)"
  proof -
    have "map_option vw_state \<circ> readVersion st' = (retire (sw_active_version_id sc) (map_option vw_state \<circ> readVersion st))(i \<mapsto> Active)"
      using s2(9) s1(1) unfolding o(1) by (simp add: fun_eq_iff)
    moreover have "map_option vw_scope_key \<circ> readVersion st' = map_option vw_scope_key \<circ> readVersion st"
      using s2(10) s1(1) v(1) moved_fields[OF m] unfolding o(1) by (simp add: fun_eq_iff)
    ultimately show ?thesis using sc(1) v(2) o(2) by (simp add: lives_def install_def fun_eq_iff)
  qed
  then have "life_step (lives st) (lives st')"
    using s1(5) life_step.activates[of "lives st" i ?k] life_step.rolls_back[of "lives st" i ?k] v(1) sc(1) by (auto simp: lives_def)
  ultimately show ?thesis by (auto simp: follows_def)
qed

section \<open>Soundness of validation\<close>

lemma verdict_result:
  assumes "verdict env v a raw f = (fault, checked)"
  shows "fault \<noteq> None \<and> checked = None
    \<or> fault = None \<and> (\<exists>ok r. raw = Some r \<and> checked = Some (ok, r) \<and> inspectRefinementReport (re_num env) (va_bindings a) (Some r) = Some (ok, r))"
proof -
  have i: "inspectRefinementReport (re_num env) (va_bindings a) raw = Some c \<Longrightarrow> \<exists>ok r. raw = Some r \<and> c = (ok, r)" for c
    by (auto simp: inspectRefinementReport_def split: option.splits if_splits)
  show ?thesis
    using assms i unfolding verdict_def Let_def
    by (cases "inspectRefinementReport (re_num env) (va_bindings a) raw") (fastforce split: if_splits)+
qed

lemma inspect_schema:
  "inspectRefinementReport sf b (Some r) = Some (ok, r') \<Longrightarrow> r' = r \<and> report_schema sf r \<and> bindings_ok b"
  by (auto simp: inspectRefinementReport_def split: if_splits)

text \<open>The receipt of a completed attempt decodes.\<close>

lemma completed_ok:
  assumes "env_ok env" "attempt_view_ok (re_num env) a" "attempt_integrity (re_num env) (re_sha env) a"
    "verdict env v a raw f = (fault, checked)" "report_hash env checked st = (Inr hh, st')"
  shows "attempt_view_ok (re_num env) (completed_attempt env a fault checked hh)"
    "attempt_integrity (re_num env) (re_sha env) (completed_attempt env a fault checked hh)"
    "va_status (completed_attempt env a fault checked hh) \<noteq> Running"
proof -
  let ?sf = "re_num env" and ?h = "re_sha env" and ?c = "completed_attempt env a fault checked hh"
  have t: "va_startedAt a < va_deadlineAt a" "va_deadlineAt a - va_startedAt a \<le> 300000" "ref_id (va_id a)" "bindings_ok (va_bindings a)"
    using assms(2,3) by (simp_all add: attempt_view_ok_def attempt_integrity_def)
  have "attempt_view_ok ?sf ?c \<and> attempt_integrity ?sf ?h ?c \<and> va_status ?c \<noteq> Running"
    using verdict_result[OF assms(4)]
  proof (elim disjE conjE exE)
    assume f: "fault \<noteq> None" "checked = None"
    then have "hh = None" using assms(5) by (simp add: report_hash_def rret_Inr)
    then show ?thesis using f t
      by (auto simp: Let_def completed_attempt_def attempt_view_ok_def attempt_integrity_def assurance_of_def opt_all_def)
  next
    fix ok r
    assume f: "fault = None" "checked = Some (ok, r)" and i: "inspectRefinementReport ?sf (va_bindings a) (Some r) = Some (ok, r)"
    obtain x where x: "hh = Some x" "refinementHash ?sf ?h (report_json r) = Some x"
      using assms(5) f(2) by (auto simp: report_hash_def rbind_Inr rret_Inr rhash_Inr)
    have "hash_text x" by (rule refinementHash_hash[OF assms(1) x(2)])
    moreover have "report_schema ?sf r" using inspect_schema[OF i] by blast
    ultimately show ?thesis using f x i t
      by (cases ok) (simp_all add: Let_def completed_attempt_def attempt_view_ok_def attempt_integrity_def opt_all_def)
  qed
  then show "attempt_view_ok ?sf ?c" "attempt_integrity ?sf ?h ?c" "va_status ?c \<noteq> Running" by auto
qed

lemma completed_fields:
  "va_id (completed_attempt env a fault checked hh) = va_id a" "va_bindings (completed_attempt env a fault checked hh) = va_bindings a"
  "finish_row (attemptRow (completed_attempt env a fault checked hh)) (attemptRow a) = attemptRow (completed_attempt env a fault checked hh)"
  "va_status a = Running \<Longrightarrow> attempt_kept (attemptRow a) (attemptRow (completed_attempt env a fault checked hh))"
  by (auto simp: completed_attempt_def Let_def attemptRow_def finish_row_def attempt_kept_def)

text \<open>A version whose latest attempt still runs has no other pointer.\<close>

lemma running_clear:
  assumes "latest_ok V W" "V i = Some r" "flags_ok r" "vw_latest_attempt_id r = Some j" "W j = Some w" "aw_status w = Running"
  shows "vw_validated_attempt_id r = None" "vw_approval_audit_id r = None" "vw_state r \<in> {Proposed, Disabled}"
proof -
  have "vw_validated_attempt_id r \<noteq> Some j" using assms(1,2,4-6) unfolding latest_ok_def by fastforce
  then show v: "vw_validated_attempt_id r = None" using assms(3,4) by (auto simp: flags_ok_def)
  then show a: "vw_approval_audit_id r = None" using assms(3) by (auto simp: flags_ok_def)
  show "vw_state r \<in> {Proposed, Disabled}" using assms(3) v a by (cases "vw_state r") (auto simp: flags_ok_def)
qed

text \<open>A version and an attempt of it that becomes, or stays, its latest move together.\<close>

lemma maps_attempt:
  assumes "maps_inv sf h V S W A" "V i = Some r" "moved r r'" "good_version sf h r'" "vw_state r \<noteq> Active" "vw_state r' \<noteq> Active"
    "good_attempt sf h w" "aw_id w = j" "aw_version_id w = i" "aw_version_hash w = vw_version_hash r" "vw_latest_attempt_id r' = Some j"
    "vw_validated_attempt_id r' = None \<or> aw_status w = Passed" "vw_approval_audit_id r' = None" "set A \<subseteq> set B"
    "\<forall>k q. W k = Some q \<longrightarrow> aw_version_id q = i \<longrightarrow> aw_status q = Running \<longrightarrow> k = j" "\<forall>q. W j = Some q \<longrightarrow> aw_version_id q = i"
  shows "maps_inv sf h (V(i \<mapsto> r')) S (W(j \<mapsto> w)) B"
proof -
  note m = assms(1)[unfolded maps_inv_def]
  have i: "vw_id r = i" using m assms(2) unfolding vers_ok_def by blast
  obtain s where s: "S (vw_scope_key r) = Some s" using m assms(2) unfolding links_def by blast
  have S: "S(vw_scope_key r \<mapsto> s) = S" using s by (rule map_upd_triv)
  have hd: "sw_active_version_id s = head_after r r' s" using assms(5,6) by (simp add: head_after_def)
  have sk: "sw_scope_key s = vw_scope_key r" "scope_view_ok s" "scope_integrity s" using m s unfolding scopes_ok_def by blast+
  have latest: "latest_ok (V(i \<mapsto> r')) (W(j \<mapsto> w))" unfolding latest_ok_def
  proof (intro allI impI)
    fix i' q j'
    assume q: "(V(i \<mapsto> r')) i' = Some q" "vw_latest_attempt_id q = Some j'"
    show "\<exists>w'. (W(j \<mapsto> w)) j' = Some w' \<and> aw_version_id w' = i' \<and> (vw_validated_attempt_id q = Some j' \<longrightarrow> aw_status w' = Passed)"
    proof (cases "i' = i")
      case True
      then show ?thesis using q assms(9,11,12) by auto
    next
      case False
      then have "V i' = Some q" using q(1) by simp
      then obtain w' where w': "W j' = Some w'" "aw_version_id w' = i'" "vw_validated_attempt_id q = Some j' \<longrightarrow> aw_status w' = Passed"
        using m q(2) unfolding latest_ok_def by blast
      then have "j' \<noteq> j" using assms(16) False by auto
      then show ?thesis using w' by simp
    qed
  qed
  have att: "attempts_ok sf h (V(i \<mapsto> r')) (W(j \<mapsto> w))" unfolding attempts_ok_def
  proof (intro allI impI)
    fix k q
    assume q: "(W(j \<mapsto> w)) k = Some q"
    show "aw_id q = k \<and> good_attempt sf h q \<and> (\<exists>p. (V(i \<mapsto> r')) (aw_version_id q) = Some p \<and> vw_version_hash p = aw_version_hash q
        \<and> (aw_status q = Running \<longrightarrow> vw_latest_attempt_id p = Some k))"
    proof (cases "k = j")
      case True
      then show ?thesis using q assms(7-11) moved_fields[OF assms(3)] by simp
    next
      case False
      then have qq: "W k = Some q" using q by simp
      then obtain p where "aw_id q = k" "good_attempt sf h q" "V (aw_version_id q) = Some p" "vw_version_hash p = aw_version_hash q"
          "aw_status q = Running \<longrightarrow> vw_latest_attempt_id p = Some k"
        using m unfolding attempts_ok_def by blast
      then show ?thesis using qq False assms(2,15) moved_fields[OF assms(3)] by (cases "aw_version_id q = i") auto
    qed
  qed
  show ?thesis unfolding maps_inv_def
  proof (intro conjI)
    show "vers_ok sf h (V(i \<mapsto> r'))" using vers_upd[of sf h V r' i] m i moved_fields[OF assms(3)] assms(4) by simp
    show "links (V(i \<mapsto> r')) S" using links_upd[of V S, OF _ _ assms(2) i assms(3) s hd] m assms(6) S by simp
    show "scopes_ok (V(i \<mapsto> r')) S" using scopes_upd[of V S, OF _ _ assms(2) i assms(3) s hd sk] m S by simp
    show "approvals_ok (V(i \<mapsto> r')) B" using approvals_upd[of V A, OF _ assms(2,14)] m assms(13) by blast
  qed (fact latest att)+
qed

lemma record_completion_run:
  assumes "record_completion env row c st = (Inr u, st')"
  obtains sc dg md out au st1 where "scope env (vw_scope_key row) st = (Inr sc, st)"
    "refinementHash (re_num env) (re_sha env) (completion_json c) = Some dg" "emit env ''validate'' row md out st = (Inr au, st1)"
    "updateVersionState (fst (transition env (completed_row row c) (sw_generation sc) Validate dg au)) st1 = Inr st'"
proof -
  from assms obtain sc dg md out au st0 st1 where s: "scope env (vw_scope_key row) st = (Inr sc, st0)"
      "refinementHash (re_num env) (re_sha env) (completion_json c) = Some dg" "emit env ''validate'' row md out st0 = (Inr au, st1)"
      "updateVersionState (fst (transition env (completed_row row c) (sw_generation sc) Validate dg au)) st1 = Inr st'"
    unfolding record_completion_def rbind_Inr rhash_Inr rsql_Inr by blast
  moreover have "st0 = st" by (rule scope_Inr(2)[OF s(1)])
  ultimately show ?thesis using that by blast
qed

lemma complete_run:
  assumes "complete env i raw f st = (Inr u, st')" "distinct (map fst (snd (shape st)))"
  obtains (idle) "st' = st"
  | (finished) a row en fault checked hh st1 where "readValidation st i = Some (attemptRow a)" "va_id a = i"
      "attempt_view_ok (re_num env) a" "attempt_integrity (re_num env) (re_sha env) a" "va_status a = Running"
      "version env (bi_versionId (va_bindings a)) st = (Inr (row, en), st)" "vw_latest_attempt_id row = Some i"
      "vw_version_hash row = bi_versionHash (va_bindings a)" "verdict env (row, en) a raw f = (fault, checked)"
      "report_hash env checked st = (Inr hh, st)" "finishValidation (attemptRow (completed_attempt env a fault checked hh)) st = (True, st1)"
      "record_completion env row (completed_attempt env a fault checked hh) st1 = (Inr (), st')"
proof -
  from assms(1) obtain a sta where a: "attempt env i st = (Inr a, sta)"
    and r0: "(if va_status a \<noteq> Running then rret ()
       else rbind (version env (bi_versionId (va_bindings a))) (\<lambda>(row, en).
         if vw_latest_attempt_id row \<noteq> Some i \<or> vw_version_hash row \<noteq> bi_versionHash (va_bindings a) then rfail RefCorrupt
         else (case verdict env (row, en) a raw f of (fault, checked) \<Rightarrow>
           rbind (report_hash env checked) (\<lambda>hh.
             (let c = completed_attempt env a fault checked hh in
              rbind (finish_attempt c) (\<lambda>won. if \<not> won then rret () else record_completion env row c)))))) sta = (Inr u, st')"
    unfolding complete_def by (auto simp only: rbind_Inr)
  have "sta = st" using a by (simp add: ref_attempt_Inr)
  note r1 = r0[unfolded this]
  have ar: "readValidation st i = Some (attemptRow a)" "attempt_view_ok (re_num env) a" "attempt_integrity (re_num env) (re_sha env) a"
    using a by (simp_all add: ref_attempt_Inr)
  have id: "va_id a = i" using readValidation_id[OF ar(1)] by (simp add: attemptRow_def)
  show ?thesis
  proof (cases "va_status a = Running")
    case False
    then show ?thesis using r1 idle by (simp add: rret_Inr)
  next
    case True
    with r1 obtain row en where v: "version env (bi_versionId (va_bindings a)) st = (Inr (row, en), st)"
        "vw_latest_attempt_id row = Some i" "vw_version_hash row = bi_versionHash (va_bindings a)"
      and r2: "(case verdict env (row, en) a raw f of (fault, checked) \<Rightarrow>
           rbind (report_hash env checked) (\<lambda>hh.
             (let c = completed_attempt env a fault checked hh in
              rbind (finish_attempt c) (\<lambda>won. if \<not> won then rret () else record_completion env row c)))) st = (Inr u, st')"
      by (auto simp: rbind_Inr version_Inr rfail_def split: if_splits)
    obtain fault checked where vd: "verdict env (row, en) a raw f = (fault, checked)" by fastforce
    obtain hh st0 where h: "report_hash env checked st = (Inr hh, st0)"
      and r3: "rbind (finish_attempt (completed_attempt env a fault checked hh))
          (\<lambda>won. if \<not> won then rret () else record_completion env row (completed_attempt env a fault checked hh)) st0 = (Inr u, st')"
      using r2 vd by (auto simp: rbind_Inr Let_def)
    have "st0 = st" using h by (auto simp: report_hash_def rret_Inr rbind_Inr rhash_Inr split: option.splits)
    obtain won st1 where fin: "finishValidation (attemptRow (completed_attempt env a fault checked hh)) st = (won, st1)" by fastforce
    have "won"
      using finish_won[OF assms(2), of "attemptRow (completed_attempt env a fault checked hh)" "attemptRow a"] ar(1) id True fin
      by (simp add: attemptRow_def completed_fields)
    then have "record_completion env row (completed_attempt env a fault checked hh) st1 = (Inr u, st')"
      using r3 fin \<open>st0 = st\<close> by (auto simp: rbind_Inr finish_attempt_def)
    then show ?thesis using finished[OF ar(1) id ar(2,3) True v vd] h fin \<open>st0 = st\<close> \<open>won\<close> by simp
  qed
qed

lemma completed_row_fields:
  "moved row (completed_row row c)" "vw_latest_attempt_id (completed_row row c) = vw_latest_attempt_id row"
  "vw_approval_audit_id (completed_row row c) = None"
  "vw_validated_attempt_id (completed_row row c) = (if va_status c = Passed then Some (va_id c) else None)"
  "vw_state (completed_row row c) = (if va_status c = Passed then Validated else if vw_state row = Disabled then Disabled else Proposed)"
  by (simp_all add: completed_row_def moved_def set_version_state_def)

lemma complete_sound:
  assumes "env_ok env"
  shows "sound env (complete env j raw f)"
  unfolding sound_def
proof (intro allI impI)
  fix st u st'
  let ?sf = "re_num env" and ?h = "re_sha env"
  assume inv: "ref_inv ?sf ?h st" and run: "complete env j raw f st = (Inr u, st')"
  have d: "distinct (map fst (snd (shape st)))" using inv by (simp add: ref_inv_def shape_ok_def)
  from run d show "ref_inv ?sf ?h st' \<and> follows st st'"
  proof (cases rule: complete_run)
    case idle
    then show ?thesis using inv by simp
  next
    case (finished a row en fault checked hh st1)
    let ?c = "completed_attempt env a fault checked hh" and ?i = "bi_versionId (va_bindings a)"
    note c_ok = completed_ok[OF assms finished(3,4,9,10)]
    from finished(6) have v: "readVersion st ?i = Some row" "vw_id row = ?i" "sealed ?sf ?h row en" "flags_ok row" by (auto elim: version_run)
    have w: "readValidation st1 = (readValidation st)(j \<mapsto> attemptRow ?c)"
      using finishValidation_map(1)[OF finished(11)] finished(1,2,5) completed_fields(3)[of env a fault checked hh]
      by (auto simp: fun_eq_iff attemptRow_def completed_fields option.map_ident)
    note f1 = finishValidation_map(2-5)[OF finished(11)]
    obtain sc dg md out au st2 where rc: "scope env (vw_scope_key row) st1 = (Inr sc, st1)"
        "refinementHash ?sf ?h (completion_json ?c) = Some dg" "emit env ''validate'' row md out st1 = (Inr au, st2)"
        "updateVersionState (fst (transition env (completed_row row ?c) (sw_generation sc) Validate dg au)) st2 = Inr st'"
      by (rule record_completion_run[OF finished(12)])
    let ?r = "fst (transition env (completed_row row ?c) (sw_generation sc) Validate dg au)"
    have log: "log_inv ?sf ?h (rd_audit st1)" using inv f1 by (simp add: ref_inv_def)
    obtain e n where em: "st2 = st1\<lparr>rd_audit := rd_audit st1 @ [e], rd_uuids := n\<rparr>" "ref_id au" "log_inv ?sf ?h (rd_audit st1 @ [e])"
      using emit_effect[OF rc(3) assms] log by metis
    have m: "moved row ?r" by (rule transition_moved[OF completed_row_fields(1)])
    have V: "readVersion st' = (readVersion st)(?i \<mapsto> ?r)"
      using update_moved[OF rc(4) _ m] v(1,2) em(1) f1 moved_fields[OF completed_row_fields(1), of row ?c] by simp
    have o: "readScope st' = readScope st" "readValidation st' = (readValidation st)(j \<mapsto> attemptRow ?c)" "rd_audit st' = rd_audit st @ [e]"
        "shape st' = shape st"
      using updateVersionState_map(2-5)[OF rc(4)] em(1) f1 w by simp_all
    have clear: "vw_validated_attempt_id row = None" "vw_approval_audit_id row = None" "vw_state row \<in> {Proposed, Disabled}"
      using running_clear[of "readVersion st" "readValidation st", OF _ v(1,4) finished(7,1)] inv finished(5) by (simp_all add: ref_inv_def attemptRow_def)
    have jid: "ref_id j" using finished(2,3) by (simp add: attempt_view_ok_def)
    have good: "good_version ?sf ?h ?r"
    proof (rule transition_good)
      show "sealed ?sf ?h (completed_row row ?c) en" by (rule moved_sealed[OF completed_row_fields(1) v(3)])
      show "flags_ok (completed_row row ?c)"
        using v(4) clear finished(2,7) jid by (auto simp: flags_ok_def completed_row_fields completed_fields opt_all_def)
      show "hash_text dg" by (rule refinementHash_hash[OF assms rc(2)])
      show "ref_count (sw_generation sc)" using scope_Inr(3)[OF rc(1)] by (simp add: scope_view_ok_def)
    qed (fact em(2))
    have "maps_inv ?sf ?h ((readVersion st)(?i \<mapsto> ?r)) (readScope st) ((readValidation st)(j \<mapsto> attemptRow ?c)) (rd_audit st @ [e])"
      using inv[unfolded ref_inv_maps, THEN conjunct1] v(1) m good
    proof (rule maps_attempt)
      show "good_attempt ?sf ?h (attemptRow ?c)" using c_ok by (auto simp: good_attempt_def decode_attemptRow)
      show "\<forall>k q. readValidation st k = Some q \<longrightarrow> aw_version_id q = ?i \<longrightarrow> aw_status q = Running \<longrightarrow> k = j"
        using inv v(1) finished(7) unfolding ref_inv_def attempts_ok_def by fastforce
    qed (use clear finished(1,2,7,8) in \<open>auto simp: completed_row_fields completed_fields attemptRow_def\<close>)
    then have "ref_inv ?sf ?h st'" using V o em(3) f1 inv by (simp add: ref_inv_maps)
    moreover have "evolves st st'" unfolding evolves_def V o
      using v(1) m finished(1) completed_fields(4)[OF finished(5)] by (auto intro!: extends_upd extends_refl)
    moreover have "life_step\<^sup>*\<^sup>* (lives st) (lives st')"
    proof -
      have L: "lives st' = (lives st)\<lparr>lf_state := (lf_state (lives st))(?i \<mapsto> vw_state (completed_row row ?c))\<rparr>"
        using lives_upd[OF V o(1) v(1) m] by simp
      show ?thesis
      proof (cases "va_status ?c = Passed \<or> vw_state row \<noteq> Disabled")
        case True
        then show ?thesis unfolding L
          using life_step.qualifies[of "lives st" ?i] life_step.reopens[of "lives st" ?i] clear(3) v(1)
          by (auto simp: completed_row_fields lives_def intro!: r_into_rtranclp)
      next
        case False
        then have "(lf_state (lives st))(?i \<mapsto> vw_state (completed_row row ?c)) = lf_state (lives st)"
          using v(1) by (simp add: completed_row_fields lives_def fun_eq_iff)
        then show ?thesis unfolding L by simp
      qed
    qed
    ultimately show ?thesis by (simp add: follows_def)
  qed
qed

lemma recover_sound: "env_ok env \<Longrightarrow> sound env (recover env i)"
  unfolding recover_def by (auto intro!: sound_rbind complete_sound split: option.splits)

definition restarted :: "version_row \<Rightarrow> jsstr \<Rightarrow> version_row" where
  "restarted row i = row\<lparr>vw_latest_attempt_id := Some i, vw_validated_attempt_id := None, vw_approval_audit_id := None,
     vw_state := (if vw_state row = Disabled then Disabled else Proposed)\<rparr>"

lemma start_attempt_run:
  assumes "start_attempt env rq (row, en) b st = (Inr x, st')"
  obtains i st1 sc dg md au st2 where "i = re_uuid env (rd_uuids st)"
    "insertValidation (attemptRow (new_attempt env i b)) (st\<lparr>rd_uuids := rd_uuids st + 1\<rparr>) = Inr st1"
    "scope env (vw_scope_key row) st1 = (Inr sc, st1)" "refinementHash (re_num env) (re_sha env) (validate_json rq) = Some dg"
    "emit env ''validate'' row md Success st1 = (Inr au, st2)"
    "updateVersionState (fst (transition env (restarted row i) (sw_generation sc) Validate dg au)) st2 = Inr st'"
    "x = Admitted (new_attempt env i b) en"
proof -
  from assms obtain i st1 sc dg md au st1' st2 where s: "i = re_uuid env (rd_uuids st)"
    "insertValidation (attemptRow (new_attempt env i b)) (st\<lparr>rd_uuids := rd_uuids st + 1\<rparr>) = Inr st1"
    "scope env (vw_scope_key row) st1 = (Inr sc, st1')" "refinementHash (re_num env) (re_sha env) (validate_json rq) = Some dg"
    "emit env ''validate'' row md Success st1' = (Inr au, st2)"
    "updateVersionState (fst (transition env (restarted row i) (sw_generation sc) Validate dg au)) st2 = Inr st'"
    "x = Admitted (new_attempt env i b) en"
    unfolding start_attempt_def Let_def rbind_Inr rhash_Inr rsql_Inr fresh_ref_Inr rret_Inr restarted_def prod.case by blast
  moreover have "st1' = st1" by (rule scope_Inr(2)[OF s(3)])
  ultimately show ?thesis using that by blast
qed

lemma restarted_fields:
  "moved row (restarted row i)" "vw_latest_attempt_id (restarted row i) = Some i" "vw_validated_attempt_id (restarted row i) = None"
  "vw_approval_audit_id (restarted row i) = None" "vw_state (restarted row i) = (if vw_state row = Disabled then Disabled else Proposed)"
  by (simp_all add: restarted_def moved_def set_version_state_def)

text \<open>The bindings of an admitted attempt conform and name the version.\<close>

lemma bindings_Inr:
  assumes "bindings env (row, en) = Inr b" "sealed sf h row en"
  shows "bindings_ok b" "bi_versionId b = vw_id row" "bi_versionHash b = vw_version_hash row"
proof -
  from assms(1) obtain r where r: "registration env (sc_workflowId (ct_scope (en_content en))) True = Inr r"
      "b = \<lparr>bi_versionId = en_versionId en, bi_versionHash = vw_version_hash row, bi_scopeKey = vw_scope_key row,
           bi_workflowContractHash = rg_workflowContractHash r, bi_workflowBuildHash = rg_workflowBuildHash r,
           bi_validatorBuildHash = rg_validatorBuildHash r, bi_qualification = rg_qualification r\<rparr>"
    unfolding bindings_def by (auto simp: Let_def try_bind_def split: sum.splits if_splits)
  have "descriptor_ok r" using r(1) by (auto simp: registration_def split: option.splits if_splits)
  then show "bindings_ok b" "bi_versionId b = vw_id row" "bi_versionHash b = vw_version_hash row"
    using assms(2) unfolding r(2) by (auto simp: bindings_ok_def descriptor_ok_def sealed_def envelope_ok_def)
qed

lemma new_attempt_ok:
  assumes "env_ok env" "bindings_ok b" "ref_id i"
  shows "attempt_view_ok (re_num env) (new_attempt env i b)" "attempt_integrity (re_num env) (re_sha env) (new_attempt env i b)"
  using assms by (auto simp: new_attempt_def attempt_view_ok_def attempt_integrity_def assurance_of_def env_ok_def opt_all_def)

lemma start_attempt_sound:
  assumes env: "env_ok env" and inv: "ref_inv (re_num env) (re_sha env) st" and ver: "version env i0 st = (Inr (row, en), st)"
    and b: "bindings env (row, en) = Inr b" and st0: "vw_state row \<notin> {Active, Approved}"
    and idle: "\<And>j w. vw_latest_attempt_id row = Some j \<Longrightarrow> readValidation st j = Some w \<Longrightarrow> aw_status w \<noteq> Running"
    and cap: "length (listValidations st i0) < MAX_ATTEMPTS" and run: "start_attempt env rq (row, en) b st = (Inr x, st')"
  shows "ref_inv (re_num env) (re_sha env) st' \<and> follows st st'"
proof -
  let ?sf = "re_num env" and ?h = "re_sha env"
  obtain i st1 sc dg md au st2 where r: "i = re_uuid env (rd_uuids st)"
    "insertValidation (attemptRow (new_attempt env i b)) (st\<lparr>rd_uuids := rd_uuids st + 1\<rparr>) = Inr st1"
    "scope env (vw_scope_key row) st1 = (Inr sc, st1)" "refinementHash ?sf ?h (validate_json rq) = Some dg"
    "emit env ''validate'' row md Success st1 = (Inr au, st2)"
    "updateVersionState (fst (transition env (restarted row i) (sw_generation sc) Validate dg au)) st2 = Inr st'"
    by (rule start_attempt_run[OF run])
  let ?a = "attemptRow (new_attempt env i b)" and ?r = "fst (transition env (restarted row i) (sw_generation sc) Validate dg au)"
  from ver have v: "readVersion st i0 = Some row" "vw_id row = i0" "sealed ?sf ?h row en" "flags_ok row" by (auto elim: version_run)
  note bi = bindings_Inr[OF b v(3)]
  have iid: "ref_id i" using env r(1) by (simp add: env_ok_def)
  have a: "aw_id ?a = i" "aw_version_id ?a = i0" "aw_version_hash ?a = vw_version_hash row" "aw_status ?a = Running"
    using bi v(2) by (simp_all add: attemptRow_def new_attempt_def)
  note w = insertValidation_map[OF r(2)]
  have log: "log_inv ?sf ?h (rd_audit st1)" using inv w(5) by (simp add: ref_inv_def)
  obtain e n where em: "st2 = st1\<lparr>rd_audit := rd_audit st1 @ [e], rd_uuids := n\<rparr>" "ref_id au" "log_inv ?sf ?h (rd_audit st1 @ [e])"
    using emit_effect[OF r(5) env] log by metis
  have m: "moved row ?r" by (rule transition_moved[OF restarted_fields(1)])
  have V: "readVersion st' = (readVersion st)(i0 \<mapsto> ?r)"
    using update_moved[OF r(6) _ m] v(1,2) em(1) w(4) moved_fields[OF restarted_fields(1), of row i] by simp
  have o: "readScope st' = readScope st" "readValidation st' = (readValidation st)(i \<mapsto> ?a)" "rd_audit st' = rd_audit st @ [e]"
      "shape st' = (fst (shape st), snd (shape st) @ [(i, i0)])"
    using updateVersionState_map(2-5)[OF r(6)] em(1) w a by simp_all
  have good: "good_version ?sf ?h ?r"
  proof (rule transition_good)
    show "sealed ?sf ?h (restarted row i) en" by (rule moved_sealed[OF restarted_fields(1) v(3)])
    show "flags_ok (restarted row i)" using iid by (auto simp: flags_ok_def restarted_fields opt_all_def)
    show "hash_text dg" by (rule refinementHash_hash[OF env r(4)])
    show "ref_count (sw_generation sc)" using scope_Inr(3)[OF r(3)] by (simp add: scope_view_ok_def)
  qed (fact em(2))
  have "maps_inv ?sf ?h ((readVersion st)(i0 \<mapsto> ?r)) (readScope st) ((readValidation st)(i \<mapsto> ?a)) (rd_audit st @ [e])"
    using inv[unfolded ref_inv_maps, THEN conjunct1] v(1) m good
  proof (rule maps_attempt)
    show "good_attempt ?sf ?h ?a" using new_attempt_ok[OF env bi(1) iid] by (auto simp: good_attempt_def decode_attemptRow)
    show "\<forall>k q. readValidation st k = Some q \<longrightarrow> aw_version_id q = i0 \<longrightarrow> aw_status q = Running \<longrightarrow> k = i"
      using inv v(1) idle unfolding ref_inv_def attempts_ok_def by fastforce
    show "\<forall>q. readValidation st i = Some q \<longrightarrow> aw_version_id q = i0" using w(1) a(1) by simp
  qed (use st0 a in \<open>auto simp: restarted_fields\<close>)
  moreover have "shape_ok (shape st')"
  proof -
    have "length (filter (\<lambda>a. snd a = i0) (snd (shape st))) = length (filter (\<lambda>r. aw_version_id r = i0) (rd_validations st))"
      by (simp add: shape_def filter_map comp_def)
    moreover have "length (listValidations st i0) = min 33 (length (filter (\<lambda>r. aw_version_id r = i0) (rd_validations st)))"
      by (simp add: listValidations_def order_desc_def)
    ultimately have "length (filter (\<lambda>a. snd a = i0) (snd (shape st))) < MAX_ATTEMPTS" using cap by (simp add: MAX_ATTEMPTS_def)
    moreover have "i \<notin> fst ` set (snd (shape st))" using w(7) a(1) by simp
    ultimately show ?thesis using inv unfolding o(4) ref_inv_def shape_ok_def by auto
  qed
  ultimately have "ref_inv ?sf ?h st'" using V o em(3) w(5) by (simp add: ref_inv_maps)
  moreover have "evolves st st'" unfolding evolves_def V o
    using v(1) m w(1) a(1) by (auto intro!: extends_upd extends_refl)
  moreover have "life_step\<^sup>*\<^sup>* (lives st) (lives st')"
  proof -
    have L: "lives st' = (lives st)\<lparr>lf_state := (lf_state (lives st))(i0 \<mapsto> vw_state (restarted row i))\<rparr>"
      using lives_upd[OF V o(1) v(1) m] by simp
    show ?thesis
    proof (cases "vw_state row = Disabled")
      case True
      then have "(lf_state (lives st))(i0 \<mapsto> vw_state (restarted row i)) = lf_state (lives st)"
        using v(1) by (simp add: restarted_fields lives_def fun_eq_iff)
      then show ?thesis unfolding L by simp
    next
      case False
      then have "vw_state row \<in> {Proposed, Validated}" using st0 by (cases "vw_state row") auto
      then show ?thesis unfolding L using life_step.reopens[of "lives st" i0] False v(1)
        by (auto simp: restarted_fields lives_def intro!: r_into_rtranclp)
    qed
  qed
  ultimately show ?thesis by (simp add: follows_def)
qed

lemma admit_validation_sound:
  assumes env: "env_ok env"
  shows "sound env (admit_validation env rq)"
  unfolding admit_validation_def
proof (rule sound_rbind[OF recover_sound[OF env]])
  fix u
  show "sound env (rbind (boundVersion env (vq_versionId rq) (vq_versionHash rq)) (\<lambda>v.
     rbind (rtry (\<lambda>_. bindings env v)) (\<lambda>b.
       if qu_suiteId (bi_qualification b) \<noteq> vq_suiteId rq then rfail RefIneligible
       else if vw_state (fst v) \<in> {Active, Approved} then rfail RefIneligible
       else
         rbind (case vw_latest_attempt_id (fst v) of None \<Rightarrow> rret None | Some j \<Rightarrow> rbind (attempt env j) (\<lambda>a. rret (Some a)))
           (\<lambda>previous.
             if existing_attempt env (fst v) b previous then rret (Existing (va_id (the previous)))
             else if (case previous of None \<Rightarrow> False | Some a \<Rightarrow> va_status a = Running) then rfail RefConflict
             else rbind (rread (\<lambda>st. listValidations st (vq_versionId rq))) (\<lambda>rows.
               if length rows \<ge> MAX_ATTEMPTS then rfail RefCapacity else start_attempt env rq v b)))))"
    (is "sound env (rbind _ ?k)")
    unfolding sound_def
  proof (intro allI impI)
    fix st x st'
    assume inv: "ref_inv (re_num env) (re_sha env) st"
      and run: "rbind (boundVersion env (vq_versionId rq) (vq_versionHash rq)) ?k st = (Inr x, st')"
    then obtain row en where v: "version env (vq_versionId rq) st = (Inr (row, en), st)" and k: "?k (row, en) st = (Inr x, st')"
      by (auto simp: rbind_Inr boundVersion_Inr version_Inr)
    then obtain b where b: "bindings env (row, en) = Inr b" "vw_state row \<notin> {Active, Approved}"
      and p: "rbind (case vw_latest_attempt_id row of None \<Rightarrow> rret None | Some j \<Rightarrow> rbind (attempt env j) (\<lambda>a. rret (Some a)))
           (\<lambda>previous.
             if existing_attempt env row b previous then rret (Existing (va_id (the previous)))
             else if (case previous of None \<Rightarrow> False | Some a \<Rightarrow> va_status a = Running) then rfail RefConflict
             else rbind (rread (\<lambda>st. listValidations st (vq_versionId rq))) (\<lambda>rows.
               if length rows \<ge> MAX_ATTEMPTS then rfail RefCapacity else start_attempt env rq (row, en) b)) st = (Inr x, st')"
      by (auto simp: rbind_Inr[of "rtry _"] rtry_Inr rfail_Inr split: if_splits)
    obtain prev where prev: "case vw_latest_attempt_id row of None \<Rightarrow> prev = None
        | Some j \<Rightarrow> \<exists>a. prev = Some a \<and> readValidation st j = Some (attemptRow a)"
      and q: "(if existing_attempt env row b prev then rret (Existing (va_id (the prev)))
             else if (case prev of None \<Rightarrow> False | Some a \<Rightarrow> va_status a = Running) then rfail RefConflict
             else rbind (rread (\<lambda>st. listValidations st (vq_versionId rq))) (\<lambda>rows.
               if length rows \<ge> MAX_ATTEMPTS then rfail RefCapacity else start_attempt env rq (row, en) b)) st = (Inr x, st')"
      using p by (cases "vw_latest_attempt_id row") (auto simp: rbind_Inr[of "rbind _ _"] rbind_Inr[of "attempt _ _"] rbind_Inr[of "rret _"] rret_Inr ref_attempt_Inr)
    show "ref_inv (re_num env) (re_sha env) st' \<and> follows st st'"
    proof (cases "existing_attempt env row b prev")
      case True
      then show ?thesis using q inv by (simp add: rret_Inr)
    next
      case False
      have "\<not> (case prev of None \<Rightarrow> False | Some a \<Rightarrow> va_status a = Running)" using q False by (auto simp: rfail_Inr split: if_splits)
      then have idle: "aw_status w \<noteq> Running" if "vw_latest_attempt_id row = Some j" "readValidation st j = Some w" for j w
        using prev that by (auto simp: attemptRow_def)
      have c: "length (listValidations st (vq_versionId rq)) < MAX_ATTEMPTS" and r: "start_attempt env rq (row, en) b st = (Inr x, st')"
        using q False by (auto simp: rbind_Inr[of "rread _"] rread_Inr rfail_Inr split: if_splits)
      show ?thesis by (rule start_attempt_sound[OF env inv v b _ c r]) (rule idle)
    qed
  qed
qed

section \<open>Soundness of proposals\<close>

lemma maps_propose:
  assumes "maps_inv sf h V S W A" "V i = None" "good_version sf h r" "vw_id r = i" "vw_state r = Proposed" "vw_latest_attempt_id r = None"
    "vw_approval_audit_id r = None" "set A \<subseteq> set B" "S' = (if S k = None then S(k \<mapsto> s0) else S)" "vw_scope_key r = k"
    "sw_scope_key s0 = k" "scope_view_ok s0" "scope_integrity s0" "sw_active_version_id s0 = None"
  shows "maps_inv sf h (V(i \<mapsto> r)) S' W B"
proof -
  note m = assms(1)[unfolded maps_inv_def]
  have act: "sw_active_version_id s \<noteq> Some i" if "S k' = Some s" for k' s
    using m that assms(2) unfolding scopes_ok_def by force
  have S: "S' k' = (if k' = k \<and> S k = None then Some s0 else S k')" for k' using assms(9) by simp
  have kept: "S' k' = Some s" if "S k' = Some s" for k' s using S that by auto
  show ?thesis unfolding maps_inv_def
  proof (intro conjI)
    show "vers_ok sf h (V(i \<mapsto> r))" using vers_upd m assms(3,4) by blast
    show "links (V(i \<mapsto> r)) S'" unfolding links_def
    proof (intro allI impI)
      fix j q
      assume q: "(V(i \<mapsto> r)) j = Some q"
      show "\<exists>s. S' (vw_scope_key q) = Some s \<and> (vw_state q = Active \<longleftrightarrow> sw_active_version_id s = Some j)"
      proof (cases "j = i")
        case True
        then have "q = r" using q by simp
        then show ?thesis using True assms(5,10,14) S[of k] act[of k] by (cases "S k") auto
      next
        case False
        then show ?thesis using q m kept unfolding links_def by (metis fun_upd_other)
      qed
    qed
    show "scopes_ok (V(i \<mapsto> r)) S'" unfolding scopes_ok_def
    proof (intro allI impI)
      fix k' s
      assume s: "S' k' = Some s"
      show "sw_scope_key s = k' \<and> scope_view_ok s \<and> scope_integrity s
        \<and> (\<forall>j. sw_active_version_id s = Some j \<longrightarrow> (\<exists>q. (V(i \<mapsto> r)) j = Some q \<and> vw_scope_key q = k' \<and> vw_state q = Active))"
      proof (cases "S k'")
        case None
        then show ?thesis using s S[of k'] assms(11-14) by (auto split: if_splits)
      next
        case (Some t)
        then have "t = s" using kept s by fastforce
        then have o: "sw_scope_key s = k'" "scope_view_ok s" "scope_integrity s" using m Some unfolding scopes_ok_def by blast+
        have "\<exists>q. (V(i \<mapsto> r)) j = Some q \<and> vw_scope_key q = k' \<and> vw_state q = Active" if a: "sw_active_version_id s = Some j" for j
        proof -
          obtain q where "V j = Some q" "vw_scope_key q = k'" "vw_state q = Active" using m Some \<open>t = s\<close> a unfolding scopes_ok_def by blast
          moreover have "j \<noteq> i" using assms(2) calculation(1) by auto
          ultimately show ?thesis by simp
        qed
        then show ?thesis using o by blast
      qed
    qed
    show "latest_ok (V(i \<mapsto> r)) W" using m assms(6) unfolding latest_ok_def by simp
    show "attempts_ok sf h (V(i \<mapsto> r)) W" using m assms(2) unfolding attempts_ok_def by (metis fun_upd_other option.distinct(1))
    show "approvals_ok (V(i \<mapsto> r)) B" using approvals_mono[of V A B] m assms(7,8) unfolding approvals_ok_def by simp
  qed
qed

lemma sound_detail: "sound env (detail env i)"
  unfolding detail_def by (auto intro!: sound_rbind split: option.splits)

definition new_scope_row :: "jsstr \<Rightarrow> scope_row" where
  "new_scope_row k = \<lparr>sw_scope_key = k, sw_active_version_id = None, sw_generation = 0, sw_last_transition_audit_id = None, sw_last_transition = None\<rparr>"

lemma new_scope_row_ok: "hash_text k \<Longrightarrow> sw_scope_key (new_scope_row k) = k \<and> scope_view_ok (new_scope_row k) \<and> scope_integrity (new_scope_row k)
    \<and> sw_active_version_id (new_scope_row k) = None"
  by (simp add: new_scope_row_def scope_view_ok_def scope_integrity_def ref_count_def opt_all_def max_safe_def)

lemma propose_new_run:
  assumes "propose_new env rq sources rh st = (Inr x, st')"
  obtains k n en sc vh md au st2 st3 where "refinementHash (re_num env) (re_sha env) (scope_json (ct_scope (pq_content rq))) = Some k"
    "envelope_ok (re_num env) en" "en_content en = pq_content rq"
    "scope env k (insertScope k (st\<lparr>rd_uuids := n\<rparr>)) = (Inr sc, insertScope k (st\<lparr>rd_uuids := n\<rparr>))"
    "refinementHash (re_num env) (re_sha env) (envelope_json en) = Some vh"
    "emit env ''propose'' (new_version_row env en k vh rh) md Success (insertScope k (st\<lparr>rd_uuids := n\<rparr>)) = (Inr au, st2)"
    "insertVersion (fst (transition env (new_version_row env en k vh rh) (sw_generation sc) Propose rh au)) st2 = Inr st3"
    "detail env (en_versionId en) st3 = (Inr x, st')"
proof -
  from assms obtain k parent st1 where k: "refinementHash (re_num env) (re_sha env) (scope_json (ct_scope (pq_content rq))) = Some k"
    and p: "(case pq_parentVersionId rq of None \<Rightarrow> rret None | Some p \<Rightarrow> rbind (version env p) (\<lambda>v. rret (Some v))) st = (Inr parent, st1)"
    and r1: "rbind (runless (case parent of None \<Rightarrow> True | Some (r, _) \<Rightarrow> vw_scope_key r = k) RefIneligible) (\<lambda>_.
     rbind (case parent of Some (r, en) \<Rightarrow> rret (en_familyId en) | None \<Rightarrow> fresh_ref env) (\<lambda>familyId.
     rbind (fresh_ref env) (\<lambda>versionId.
     rbind (rread (\<lambda>st. nextRevision st familyId)) (\<lambda>revision.
     (let en = new_envelope env rq sources versionId familyId revision in
      rbind (runless (envelope_ok (re_num env) en) RefInvalidRequest) (\<lambda>_.
      rbind (\<lambda>st. (Inr (), insertScope k st)) (\<lambda>_.
      rbind (scope env k) (\<lambda>sc.
      rbind (rhash env (envelope_json en)) (\<lambda>versionHash.
      (let row = new_version_row env en k versionHash rh in
       rbind (emit env ''propose'' row [(js ''requestHash'', JStr rh), (js ''scopeGeneration'', nat_json (sw_generation sc)),
           (js ''sourceCount'', nat_json (length sources)), (js ''parentVersionId'', nullable_json JStr (pq_parentVersionId rq))] Success)
         (\<lambda>auditId.
       rbind (rsql (insertVersion (fst (transition env row (sw_generation sc) Propose rh auditId)))) (\<lambda>_.
         detail env versionId)))))))))))) st1 = (Inr x, st')"
    unfolding propose_new_def by (auto simp only: rbind_Inr[of "rhash _ _"] rbind_Inr[of "case_option _ _ _"] rhash_Inr)
  have s1: "st1 = st" using p by (cases "pq_parentVersionId rq") (auto simp: rret_Inr rbind_Inr version_Inr)
  from r1 obtain fid n0 where r2: "rbind (fresh_ref env) (\<lambda>versionId.
     rbind (rread (\<lambda>st. nextRevision st fid)) (\<lambda>revision.
     (let en = new_envelope env rq sources versionId fid revision in
      rbind (runless (envelope_ok (re_num env) en) RefInvalidRequest) (\<lambda>_.
      rbind (\<lambda>st. (Inr (), insertScope k st)) (\<lambda>_.
      rbind (scope env k) (\<lambda>sc.
      rbind (rhash env (envelope_json en)) (\<lambda>versionHash.
      (let row = new_version_row env en k versionHash rh in
       rbind (emit env ''propose'' row [(js ''requestHash'', JStr rh), (js ''scopeGeneration'', nat_json (sw_generation sc)),
           (js ''sourceCount'', nat_json (length sources)), (js ''parentVersionId'', nullable_json JStr (pq_parentVersionId rq))] Success)
         (\<lambda>auditId.
       rbind (rsql (insertVersion (fst (transition env row (sw_generation sc) Propose rh auditId)))) (\<lambda>_.
         detail env versionId)))))))))) (st\<lparr>rd_uuids := n0\<rparr>) = (Inr x, st')"
  proof (cases parent)
    case None
    then show ?thesis using r1 s1 that[of "re_uuid env (rd_uuids st)" "rd_uuids st + 1"]
      by (simp add: rbind_Inr[of "runless _ _"] rbind_Inr[of "fresh_ref _"] runless_Inr fresh_ref_Inr)
  next
    case (Some v)
    then show ?thesis using r1 s1 that[of "en_familyId (snd v)" "rd_uuids st"]
      by (cases v) (simp add: rbind_Inr[of "runless _ _"] rbind_Inr[of "rret _"] runless_Inr rret_Inr)
  qed
  let ?vid = "re_uuid env n0"
  obtain rev where rev: "rev = nextRevision (st\<lparr>rd_uuids := n0 + 1\<rparr>) fid" by simp
  define en where "en = new_envelope env rq sources ?vid fid rev"
  from r2 obtain sc stx vh md au st2 st3 where s: "envelope_ok (re_num env) en"
      "scope env k (insertScope k (st\<lparr>rd_uuids := n0 + 1\<rparr>)) = (Inr sc, stx)"
      "refinementHash (re_num env) (re_sha env) (envelope_json en) = Some vh"
      "emit env ''propose'' (new_version_row env en k vh rh) md Success stx = (Inr au, st2)"
      "insertVersion (fst (transition env (new_version_row env en k vh rh) (sw_generation sc) Propose rh au)) st2 = Inr st3"
      "detail env ?vid st3 = (Inr x, st')"
    unfolding en_def rev by (auto simp: rbind_Inr fresh_ref_Inr rread_Inr runless_Inr rhash_Inr rsql_Inr Let_def)
  have "stx = insertScope k (st\<lparr>rd_uuids := n0 + 1\<rparr>)" by (rule scope_Inr(2)[OF s(2)])
  moreover have "en_versionId en = ?vid" "en_content en = pq_content rq" by (simp_all add: en_def new_envelope_def)
  ultimately show ?thesis using that[OF k s(1)] s by metis
qed

lemma propose_new_sound:
  assumes env: "env_ok env" and inv: "ref_inv (re_num env) (re_sha env) st" and rh: "hash_text rh" and cap: "versionCount st < MAX_VERSIONS"
    and run: "propose_new env rq sources rh st = (Inr x, st')"
  shows "ref_inv (re_num env) (re_sha env) st' \<and> follows st st'"
proof -
  let ?sf = "re_num env" and ?h = "re_sha env"
  obtain k n en sc vh md au st2 st3 where r: "refinementHash ?sf ?h (scope_json (ct_scope (pq_content rq))) = Some k"
    "envelope_ok ?sf en" "en_content en = pq_content rq"
    "scope env k (insertScope k (st\<lparr>rd_uuids := n\<rparr>)) = (Inr sc, insertScope k (st\<lparr>rd_uuids := n\<rparr>))"
    "refinementHash ?sf ?h (envelope_json en) = Some vh"
    "emit env ''propose'' (new_version_row env en k vh rh) md Success (insertScope k (st\<lparr>rd_uuids := n\<rparr>)) = (Inr au, st2)"
    "insertVersion (fst (transition env (new_version_row env en k vh rh) (sw_generation sc) Propose rh au)) st2 = Inr st3"
    "detail env (en_versionId en) st3 = (Inr x, st')"
    by (rule propose_new_run[OF run])
  let ?row = "new_version_row env en k vh rh" and ?i = "en_versionId en"
  let ?r = "fst (transition env ?row (sw_generation sc) Propose rh au)"
  let ?S = "if readScope st k = None then (readScope st)(k \<mapsto> new_scope_row k) else readScope st"
  have kk: "hash_text k" "hash_text vh" using refinementHash_hash[OF env] r(1,5) by blast+
  note ins = insertScope_map[of k "st\<lparr>rd_uuids := n\<rparr>"]
  have log: "log_inv ?sf ?h (rd_audit (insertScope k (st\<lparr>rd_uuids := n\<rparr>)))" using inv ins by (simp add: ref_inv_def)
  obtain e n' where em: "st2 = (insertScope k (st\<lparr>rd_uuids := n\<rparr>))\<lparr>rd_audit := rd_audit st @ [e], rd_uuids := n'\<rparr>" "ref_id au"
      "log_inv ?sf ?h (rd_audit st @ [e])"
    using emit_effect[OF r(6) env] log ins(4) by (metis ref_db.select_convs(4) ref_db.surjective ref_db.update_convs(5))
  have f: "vw_id ?row = ?i" "vw_scope_key ?row = k" "vw_state ?row = Proposed" "vw_latest_attempt_id ?row = None"
      "vw_approval_audit_id ?row = None" "vw_validated_attempt_id ?row = None"
    by (simp_all add: new_version_row_def)
  note iv = insertVersion_map[OF r(7)]
  have o: "readVersion st ?i = None" "readVersion st3 = (readVersion st)(?i \<mapsto> ?r)" "readScope st3 = ?S" "readValidation st3 = readValidation st"
      "rd_audit st3 = rd_audit st @ [e]" "shape st3 = (fst (shape st) + 1, snd (shape st))"
    using iv ins em(1) f(1) by (simp_all add: new_scope_row_def)
  have good: "good_version ?sf ?h ?r"
  proof (rule transition_good)
    show "sealed ?sf ?h ?row en" using r(1,2,3,5) kk by (simp add: sealed_def new_version_row_def)
    show "flags_ok ?row" using f by (simp add: flags_ok_def opt_all_def)
    show "ref_count (sw_generation sc)" using scope_Inr(3)[OF r(4)] by (simp add: scope_view_ok_def)
  qed (fact rh em(2))+
  have "maps_inv ?sf ?h ((readVersion st)(?i \<mapsto> ?r)) ?S (readValidation st) (rd_audit st @ [e])"
    by (rule maps_propose[of _ _ _ "readScope st" _ "rd_audit st" ?i ?r _ _ k "new_scope_row k"])
      (use inv o(1) good f new_scope_row_ok[OF kk(1)] in \<open>auto simp: ref_inv_maps\<close>)
  moreover have "shape_ok (shape st3)"
    using inv cap unfolding o(6) ref_inv_def shape_ok_def by (simp add: shape_def versionCount_def)
  ultimately have i3: "ref_inv ?sf ?h st3" using o em(3) by (simp add: ref_inv_maps)
  have "evolves st st3" unfolding evolves_def o(2-5) using o(1) by (auto intro!: extends_upd extends_refl)
  moreover have "life_step (lives st) (lives st3)"
  proof -
    have "lives st3 = (lives st)\<lparr>lf_state := (lf_state (lives st))(?i \<mapsto> Proposed), lf_scope := (lf_scope (lives st))(?i \<mapsto> k)\<rparr>"
      using o(1-3) f by (auto simp: lives_def fun_eq_iff new_scope_row_def)
    then show ?thesis using life_step.proposes[of "lives st" ?i k] o(1) by (simp add: lives_def)
  qed
  ultimately have "follows st st3" by (auto simp: follows_def)
  moreover have "ref_inv ?sf ?h st' \<and> follows st3 st'" using sound_detail i3 r(8) unfolding sound_def by blast
  ultimately show ?thesis using follows_trans by blast
qed

lemma propose_commit_sound:
  assumes "env_ok env" "hash_text rh"
  shows "sound env (propose_commit env rq r0 sources rh)"
proof -
  have n: "sound env (rbind (rread versionCount) (\<lambda>n. if n \<ge> MAX_VERSIONS then rfail RefCapacity else propose_new env rq sources rh))"
    unfolding sound_def using propose_new_sound[OF assms(1) _ assms(2)] by (fastforce simp: rbind_Inr rread_Inr rfail_Inr split: if_splits)
  show ?thesis unfolding propose_commit_def using n recover_sound[OF assms(1)] sound_detail
    by (auto intro!: sound_rbind split: option.splits)
qed

section \<open>The methods\<close>

text \<open>A method is safe when it is sound whether it returns or throws.\<close>

definition safe :: "(rat \<Rightarrow> jsstr) \<Rightarrow> (bytes \<Rightarrow> jsstr) \<Rightarrow> 'a ract \<Rightarrow> bool" where
  "safe sf h m \<longleftrightarrow> (\<forall>st. ref_inv sf h st \<longrightarrow> ref_inv sf h (snd (m st)) \<and> follows st (snd (m st)))"

lemma safeD: "safe sf h m \<Longrightarrow> ref_inv sf h st \<Longrightarrow> ref_inv sf h (snd (m st)) \<and> follows st (snd (m st))"
  by (simp add: safe_def)

definition leaves :: "'a ract \<Rightarrow> bool" where
  "leaves m \<longleftrightarrow> (\<forall>st. snd (m st) = st)"

lemma leaves_basic [simp]:
  "leaves (runless b e)" "leaves (owned env u)" "leaves (rtry f)" "leaves (rhash env v)"
  by (auto simp: leaves_def runless_def rret_def rfail_def owned_def rtry_def rhash_def split: sum.splits option.splits)

lemma safe_atomic: "sound env m \<Longrightarrow> safe (re_num env) (re_sha env) (atomic m)"
  unfolding safe_def using sound_atomic by blast

lemma safe_rbind:
  assumes "leaves m" "\<And>x st. m st = (Inr x, st) \<Longrightarrow> safe sf h (f x)"
  shows "safe sf h (rbind m f)"
  unfolding safe_def
proof (intro allI impI)
  fix st
  assume i: "ref_inv sf h st"
  obtain y st1 where y: "m st = (y, st1)" by fastforce
  have "st1 = st" using assms(1) y unfolding leaves_def by (metis snd_conv)
  then show "ref_inv sf h (snd (rbind m f st)) \<and> follows st (snd (rbind m f st))"
    using y i assms(2)[where st = st] by (cases y) (auto simp: rbind_def safe_def)
qed

definition host :: "(rat \<Rightarrow> jsstr) \<Rightarrow> (bytes \<Rightarrow> jsstr) \<Rightarrow> ref_env \<Rightarrow> bool" where
  "host sf h env \<longleftrightarrow> env_ok env \<and> re_num env = sf \<and> re_sha env = h"

lemma mutation_sound:
  assumes "env_ok env"
    "\<And>st i row en sc dg x st'. ref_inv (re_num env) (re_sha env) st \<Longrightarrow> version env i st = (Inr (row, en), st) \<Longrightarrow>
      scope env (vw_scope_key row) st = (Inr sc, st) \<Longrightarrow> hash_text dg \<Longrightarrow> go (row, en) sc dg st = (Inr x, st') \<Longrightarrow>
      ref_inv (re_num env) (re_sha env) st' \<and> follows st st'"
  shows "sound env (mutation env i hh act request go)"
  unfolding sound_def
proof (intro allI impI)
  fix st x st'
  assume i: "ref_inv (re_num env) (re_sha env) st" and m: "mutation env i hh act request go st = (Inr x, st')"
  from m show "ref_inv (re_num env) (re_sha env) st' \<and> follows st st'"
  proof (cases rule: mutation_run)
    case (again row en sc dg)
    then show ?thesis using i by simp
  next
    case (fresh row en sc dg)
    then show ?thesis using assms(2)[OF i] refinementHash_hash[OF assms(1)] by blast
  qed
qed

lemma sound_select: "sound env (rbind (rhash env v) (\<lambda>k. select_pin env k))"
  unfolding select_pin_def passed_def by (auto intro!: sound_rbind split: option.splits)

lemma sound_readPin: "sound env (readPin env pin)"
  unfolding readPin_def passed_def by (auto intro!: sound_rbind)

lemma sound_read_page: "env_ok env \<Longrightarrow> sound env (read_page env rows)"
  by (induction rows) (auto intro!: sound_rbind recover_sound)

lemma methods_safe:
  assumes "host sf h env"
  shows "safe sf h (list_refinements env lr)" "safe sf h (get_refinement env i)" "safe sf h (validate_admission env vr)"
    "safe sf h (finish_validation env a en res)" "safe sf h (validationResponse env i j)" "safe sf h (approve env br)"
    "safe sf h (activate env ar)" "safe sf h (rollback env rr)" "safe sf h (disable env dr)" "safe sf h (select env s)"
    "safe sf h (assertPin env pin)" "safe sf h (recordUse env pin run)"
proof -
  have e: "env_ok env" and [simp]: "sf = re_num env" "h = re_sha env" using assms by (simp_all add: host_def)
  show "safe sf h (list_refinements env lr)" unfolding list_refinements_def Let_def using sound_read_page[OF e]
    by (auto intro!: safe_rbind safe_atomic sound_rbind split: option.splits)
  show "safe sf h (get_refinement env i)" unfolding get_refinement_def using recover_sound[OF e] sound_detail
    by (auto intro!: safe_atomic sound_rbind)
  show "safe sf h (validate_admission env vr)" unfolding validate_admission_def using admit_validation_sound[OF e]
    by (auto intro!: safe_rbind safe_atomic)
  show "safe sf h (finish_validation env a en res)" unfolding finish_validation_def using complete_sound[OF e]
    by (auto intro!: safe_atomic split: prod.splits)
  show "safe sf h (validationResponse env i j)" unfolding validationResponse_def by (auto intro!: safe_atomic sound_rbind)
  show "safe sf h (approve env br)" unfolding approve_def using mutation_sound[OF e approve_fresh_sound[OF e]]
    by (auto intro!: safe_rbind safe_atomic)
  show "safe sf h (activate env ar)" unfolding activate_def switchVersion_def using mutation_sound[OF e switch_fresh_sound[OF e]]
    by (auto intro!: safe_rbind safe_atomic)
  show "safe sf h (rollback env rr)" unfolding rollback_def switchVersion_def using mutation_sound[OF e switch_fresh_sound[OF e]]
    by (auto intro!: safe_rbind safe_atomic)
  show "safe sf h (disable env dr)" unfolding disable_def using mutation_sound[OF e disable_fresh_sound[OF e]]
    by (auto intro!: safe_rbind safe_atomic)
  show "safe sf h (select env s)" unfolding select_def using sound_select by (auto intro!: safe_rbind safe_atomic)
  show "safe sf h (assertPin env pin)" unfolding assertPin_def using sound_readPin by (auto intro!: safe_rbind safe_atomic)
  show "safe sf h (recordUse env pin run)" unfolding recordUse_def using sound_readPin sound_emit[OF e]
    by (auto intro!: safe_atomic sound_rbind)
qed

lemma propose_safe:
  assumes "host sf h env0" "host sf h env"
  shows "safe sf h (propose env0 env f rq)"
proof -
  have e: "env_ok env0" "env_ok env" "re_num env = sf" "re_sha env = h" using assms by (simp_all add: host_def)
  have "safe sf h (atomic (propose_commit env rq r0 sources rh))" if "hash_text rh" for r0 sources rh
    using safe_atomic[OF propose_commit_sound[OF e(2) that]] e(3,4) by simp
  then show ?thesis unfolding propose_def using refinementHash_hash[OF e(1)] by (auto intro!: safe_rbind simp: rhash_Inr)
qed

section \<open>Reachable stores\<close>

text \<open>Any order of calls, by any host that keeps its promises; the rest of the coordinator writes to the same audit log in
  between. A validation is the admission and, later, its completion.\<close>

inductive ref_step :: "(rat \<Rightarrow> jsstr) \<Rightarrow> (bytes \<Rightarrow> jsstr) \<Rightarrow> ref_db \<Rightarrow> ref_db \<Rightarrow> bool" for sf h where
  lists: "host sf h env \<Longrightarrow> ref_step sf h st (snd (list_refinements env lr st))"
| gets: "host sf h env \<Longrightarrow> ref_step sf h st (snd (get_refinement env i st))"
| proposal: "host sf h env0 \<Longrightarrow> host sf h env \<Longrightarrow> ref_step sf h st (snd (propose env0 env f pr st))"
| admits: "host sf h env \<Longrightarrow> ref_step sf h st (snd (validate_admission env vr st))"
| finishes: "host sf h env \<Longrightarrow> ref_step sf h st (snd (finish_validation env a en res st))"
| responds: "host sf h env \<Longrightarrow> ref_step sf h st (snd (validationResponse env i j st))"
| approval: "host sf h env \<Longrightarrow> ref_step sf h st (snd (approve env br st))"
| activation: "host sf h env \<Longrightarrow> ref_step sf h st (snd (activate env ar st))"
| rollbacks: "host sf h env \<Longrightarrow> ref_step sf h st (snd (rollback env rr st))"
| disabling: "host sf h env \<Longrightarrow> ref_step sf h st (snd (disable env dr st))"
| selects: "host sf h env \<Longrightarrow> ref_step sf h st (snd (select env s st))"
| asserts: "host sf h env \<Longrightarrow> ref_step sf h st (snd (assertPin env pin st))"
| uses: "host sf h env \<Longrightarrow> ref_step sf h st (snd (recordUse env pin run st))"
| others: "log_inv sf h (rd_audit st @ ext) \<Longrightarrow> ref_step sf h st (st\<lparr>rd_audit := rd_audit st @ ext, rd_uuids := n\<rparr>)"

definition ref_init :: "(rat \<Rightarrow> jsstr) \<Rightarrow> (bytes \<Rightarrow> jsstr) \<Rightarrow> ref_db \<Rightarrow> bool" where
  "ref_init sf h st \<longleftrightarrow> rd_versions st = [] \<and> rd_scopes st = [] \<and> rd_validations st = [] \<and> log_inv sf h (rd_audit st)"

definition ref_reachable :: "(rat \<Rightarrow> jsstr) \<Rightarrow> (bytes \<Rightarrow> jsstr) \<Rightarrow> ref_db \<Rightarrow> bool" where
  "ref_reachable sf h st \<longleftrightarrow> (\<exists>st0. ref_init sf h st0 \<and> (ref_step sf h)\<^sup>*\<^sup>* st0 st)"

lemma ref_step_sound:
  assumes "ref_step sf h st st'" "ref_inv sf h st"
  shows "ref_inv sf h st' \<and> follows st st'"
  using assms
proof cases
  case (others ext n)
  then show ?thesis using ref_inv_audit[OF assms(2)] follows_audit by blast
qed (use assms(2) in \<open>simp_all add: methods_safe[THEN safeD] propose_safe[THEN safeD]\<close>)

lemma ref_init_inv: "ref_init sf h st \<Longrightarrow> ref_inv sf h st"
  by (simp add: ref_init_def ref_inv_def readVersion_def readScope_def readValidation_def first_row_def shape_def shape_ok_def
      vers_ok_def links_def scopes_ok_def latest_ok_def attempts_ok_def approvals_ok_def)

lemma ref_steps_sound:
  assumes "(ref_step sf h)\<^sup>*\<^sup>* st st'" "ref_inv sf h st"
  shows "ref_inv sf h st' \<and> follows st st'"
  using assms
proof (induction rule: rtranclp_induct)
  case (step y z)
  then show ?case using ref_step_sound follows_trans by blast
qed simp

lemma ref_reachable_inv: "ref_reachable sf h st \<Longrightarrow> ref_inv sf h st"
  unfolding ref_reachable_def using ref_steps_sound ref_init_inv by blast

end
