(* ===== verification/RefineProps.thy ===== *)
theory RefineProps
  imports RefineSafe
begin

text \<open>
  The properties of governed learning: an example run from the empty store to an active method, which the witnesses use, and
  what holds of every store the manager can reach.
\<close>

section \<open>An example run\<close>

text \<open>A host for the examples: a constant digest, identifiers of different lengths, one registered workflow.\<close>

definition ex_digest :: jsstr where "ex_digest = replicate 64 97"

definition ex_id :: "nat \<Rightarrow> jsstr" where "ex_id n = replicate (n mod 100 + 1) 117"

definition ex_qualification :: ref_qualification where
  "ex_qualification = \<lparr>qu_suiteId = js ''su'', qu_suiteHash = ex_digest, qu_learningManifestHash = ex_digest,
     qu_validationManifestHash = replicate 64 98, qu_caseIds = [js ''ca''], qu_checkIds = [js ''ch''], qu_executionKind = SchemaContract,
     qu_modelConfigHash = None\<rparr>"

definition ex_registration :: ref_registration where
  "ex_registration = \<lparr>rg_workflowId = js ''wf'', rg_workflowContractHash = ex_digest, rg_workflowBuildHash = ex_digest,
     rg_validatorBuildHash = ex_digest, rg_qualification = ex_qualification, rg_runValidation = True\<rparr>"

definition ex_host :: ref_env where
  "ex_host = \<lparr>re_num = (\<lambda>_. []), re_sha = (\<lambda>_. ex_digest), re_uuid = ex_id, re_now = 0, re_ownerId = js ''me'',
     re_registry = (\<lambda>w. if w = js ''wf'' then Some ex_registration else None), re_timeoutMs = 1000\<rparr>"

definition ex_content :: ref_content where
  "ex_content = \<lparr>ct_title = js ''ti'', ct_rationale = js ''ra'', ct_scope = \<lparr>sc_workflowId = js ''wf'', sc_workflowContractHash = ex_digest\<rparr>,
     ct_steps = [js ''do'']\<rparr>"

definition ex_proposal :: propose_request where
  "ex_proposal = \<lparr>pq_userId = js ''me'', pq_content = ex_content, pq_parentVersionId = None,
     pq_sources = [\<lparr>so_kind = LearningFixture, so_id = js ''fi''\<rparr>]\<rparr>"

definition ex_resolver :: source_resolver where "ex_resolver = (\<lambda>_. Inr (Some (ex_digest, None)))"

definition ex_empty :: ref_db where
  "ex_empty = \<lparr>rd_versions = [], rd_scopes = [], rd_validations = [], rd_audit = [], rd_uuids = 10\<rparr>"

definition ex_source :: ref_source where
  "ex_source = \<lparr>so_kind = LearningFixture, so_id = js ''fi'', so_sha256 = Some ex_digest, so_auditEntryId = None, so_resolved = True\<rparr>"

definition ex_envelope :: ref_envelope where
  "ex_envelope = new_envelope ex_host ex_proposal [ex_source] (ex_id 11) (ex_id 10) 1"

definition ex_row1 :: version_row where
  "ex_row1 = fst (transition ex_host (new_version_row ex_host ex_envelope ex_digest ex_digest ex_digest) 0 Propose ex_digest (ex_id 12))"

lemma ex_digest_ok [simp]: "hash_text ex_digest" "is_well_formed ex_digest" "hash_text (replicate 64 98)" "replicate 64 98 \<noteq> ex_digest"
    "ex_digest \<noteq> replicate 64 98" "is_well_formed (replicate 64 98)"
  by (code_simp)+

lemma js_well_formed [simp]: "is_well_formed (js s)"
proof (rule is_well_formed_no_surrogates)
  have "\<not> is_surrogate (of_char c)" for c :: char
  proof -
    have "unat (of_char c :: u16) < 256" by (simp add: unat_of_char)
    then show ?thesis by (auto simp: is_surrogate_def unat_surrogates)
  qed
  then show "\<forall>c \<in> set (js s). \<not> is_surrogate c" by (auto simp: js_def)
qed

lemma ex_id_ok [simp]: "ref_id (ex_id n)" "is_well_formed (ex_id n)" "ex_id m = ex_id n \<longleftrightarrow> m mod 100 = n mod 100"
proof -
  have "\<not> is_surrogate 117" by code_simp
  then have "is_well_formed (replicate k 117)" for k :: nat by (induction k) (simp_all add: is_well_formed_Cons)
  then show "is_well_formed (ex_id n)" unfolding ex_id_def by blast
  then show "ref_id (ex_id n)" by (simp add: ref_id_def ref_text_def) (simp add: ex_id_def less_imp_le_nat add.commute)
  show "ex_id m = ex_id n \<longleftrightarrow> m mod 100 = n mod 100" by (auto simp: ex_id_def replicate_eq_replicate)
qed

lemma ex_host_fields [simp]:
  "re_num ex_host = (\<lambda>_. [])" "re_sha ex_host = (\<lambda>_. ex_digest)" "re_uuid ex_host = ex_id" "re_now ex_host = 0" "re_ownerId ex_host = js ''me''"
  "re_timeoutMs ex_host = 1000" "re_registry ex_host (js ''wf'') = Some ex_registration"
  by (simp_all add: ex_host_def)

lemma ex_host_ok [simp]: "env_ok ex_host" "host (\<lambda>_. []) (\<lambda>_. ex_digest) ex_host"
  by (simp_all add: env_ok_def host_def)

text \<open>When a value has a canonical form.\<close>

fun canonical_ok :: "nat \<Rightarrow> json \<Rightarrow> bool" where
  "canonical_ok d JNull = (d \<le> 32)"
| "canonical_ok d (JStr s) = (d \<le> 32 \<and> is_well_formed s)"
| "canonical_ok d (JBool b) = (d \<le> 32)"
| "canonical_ok d (JNum n) = (d \<le> 32 \<and> is_finite_num n)"
| "canonical_ok d (JArr xs) = (d \<le> 32 \<and> list_all (canonical_ok (d + 1)) xs)"
| "canonical_ok d (JObj ms) = (d \<le> 32 \<and> list_all (\<lambda>m. d + 1 \<le> 32 \<and> is_well_formed (fst m) \<and> canonical_ok (d + 1) (snd m)) ms)"

lemma those_defined: "those xs \<noteq> None \<longleftrightarrow> list_all (\<lambda>x. x \<noteq> None) xs"
  by (induction xs) (auto split: option.splits)

lemma canonical_walk_ok: "canonical_walk sf d v \<noteq> None \<longleftrightarrow> canonical_ok d v"
proof (induction d v rule: canonical_ok.induct)
  case (5 d xs)
  have "those (map (canonical_walk sf (d + 1)) xs) \<noteq> None \<longleftrightarrow> list_all (canonical_ok (d + 1)) xs"
    unfolding those_defined using 5 by (simp add: list_all_iff)
  then show ?case by auto
next
  case (6 d ms)
  let ?f = "\<lambda>m. if d + 1 > 32 \<or> \<not> is_well_formed (fst m) then None
            else map_option (\<lambda>t. (fst m, json_quote (fst m) @ [58] @ t)) (canonical_walk sf (d + 1) (snd m))"
  have "those (map ?f ms) \<noteq> None \<longleftrightarrow> list_all (\<lambda>m. d + 1 \<le> 32 \<and> is_well_formed (fst m) \<and> canonical_ok (d + 1) (snd m)) ms"
  proof -
    have one: "?f m \<noteq> None \<longleftrightarrow> d + 1 \<le> 32 \<and> is_well_formed (fst m) \<and> canonical_ok (d + 1) (snd m)" if "m \<in> set ms" for m
      using 6[OF that] by (auto simp: not_le)
    show ?thesis unfolding those_defined list_all_iff set_map using one by (simp only: ball_simps cong: ball_cong)
  qed
  then show ?case unfolding canonical_walk.simps canonical_ok.simps by (auto simp: not_le[symmetric])
qed auto

lemma ex_hash: "canonical_ok 0 v \<Longrightarrow> refinementHash sf (\<lambda>_. ex_digest) v = Some ex_digest"
  using canonical_walk_ok[of sf 0 v] by (auto simp: refinementHash_def canonicalJson_def)

lemma canonical_same: "canonical_ok 0 v \<Longrightarrow> same_canonical env v v"
  using canonical_walk_ok[of "re_num env" 0 v] by (auto simp: same_canonical_def canonicalJson_def)

text \<open>An audit event is written whenever its id is new.\<close>

lemma emit_returns:
  assumes "env_ok env" "log_inv (re_num env) (re_sha env) (rd_audit st)" "re_uuid env (rd_uuids st) \<notin> entryId ` set (rd_audit st)"
  obtains e where "emit env act row md out st
      = (Inr (re_uuid env (rd_uuids st)), st\<lparr>rd_audit := rd_audit st @ [e], rd_uuids := rd_uuids st + 1\<rparr>)"
    "entryId e = re_uuid env (rd_uuids st)" "log_inv (re_num env) (re_sha env) (rd_audit st @ [e])"
proof -
  let ?u = "re_uuid env (rd_uuids st)"
  let ?ps = "refinement_event env (js act) row md out"
  have "ref_id ?u" using assms(1) by (simp add: env_ok_def)
  then have wf: "wellFormed ?u = ?u" "?u \<noteq> []"
    by (auto simp: ref_id_def ref_text_def wellFormed_def to_well_formed_id)
  have today: "ascii (today (ref_audit_env env ?u))"
    using ascii_iso[of "re_now env"] set_take_subset[of 10 "iso (re_now env)"] by (auto simp: ref_audit_env_def ascii_def)
  have u: "uuid (ref_audit_env env ?u) = ?u" by (simp add: ref_audit_env_def)
  have "\<exists>r rows. insertRow (ref_audit_env env ?u) ?ps None (rd_audit st) = Inr (r, rows)"
    by (rule insertRow_total) (use assms(2,3) today wf u in \<open>auto simp: ref_audit_env_def refinement_event_def\<close>)
  then obtain r rows where i: "insertRow (ref_audit_env env ?u) ?ps None (rd_audit st) = Inr (r, rows)" by blast
  note row = insertRow_Inr[OF i]
  have id: "r_id r = ?u" using row(3) wf u by simp
  have "emit env act row md out st = (Inr ?u, st\<lparr>rd_audit := rows, rd_uuids := rd_uuids st + 1\<rparr>)"
    using i id wf(2) by (simp add: emit_def rbind_def fresh_ref_def insertAuditEntryInTxn_def)
  moreover have "log_inv (re_num env) (re_sha env) rows"
    using insertRow_log_inv[OF i] assms(2) today by (simp add: ref_audit_env_def refinement_event_def)
  ultimately show ?thesis using that row(1,3) id by simp
qed

text \<open>How long the text of a value can be.\<close>

fun text_bound :: "(rat \<Rightarrow> jsstr) \<Rightarrow> json \<Rightarrow> nat" where
  "text_bound sf JNull = 4"
| "text_bound sf (JBool b) = 5"
| "text_bound sf (JNum n) = length (num_to_string sf n) + 4"
| "text_bound sf (JStr s) = 6 * length s + 2"
| "text_bound sf (JArr xs) = sum_list (map (\<lambda>x. text_bound sf x + 1) xs) + 2"
| "text_bound sf (JObj ms) = sum_list (map (\<lambda>m. 6 * length (fst m) + 4 + text_bound sf (snd m)) ms) + 2"

lemma length_escape: "length (escape_unit c) \<le> 6" "length (escape_units s) \<le> 6 * length s"
proof -
  show e: "length (escape_unit c) \<le> 6" for c by (simp add: escape_unit_def unicode_escape_def)
  show "length (escape_units s) \<le> 6 * length s"
  proof (induction s rule: escape_units.induct)
    case (2 c)
    then show ?case using e[of c] by simp
  next
    case (3 c d s)
    then show ?case using e[of c] by (auto split: if_splits)
  qed simp
qed

lemma length_commas: "length (commas xs) \<le> sum_list (map (\<lambda>x. length x + 1) xs)"
  by (induction xs rule: commas.induct) auto

lemma length_stringify: "length (stringify sf v) \<le> text_bound sf v"
proof (induction v rule: stringify.induct)
  case (5 sf xs)
  have "sum_list (map (\<lambda>x. length (stringify sf x) + 1) xs) \<le> sum_list (map (\<lambda>x. text_bound sf x + 1) xs)"
    by (rule sum_list_mono) (simp add: 5)
  then show ?case using length_commas[of "map (stringify sf) xs"] by (simp add: comp_def)
next
  case (6 sf ms)
  have "sum_list (map (\<lambda>m. length (json_quote (fst m) @ [58] @ stringify sf (snd m)) + 1) ms)
      \<le> sum_list (map (\<lambda>m. 6 * length (fst m) + 4 + text_bound sf (snd m)) ms)"
    by (rule sum_list_mono) (use 6 length_escape(2) in \<open>auto simp: json_quote_def add_mono\<close>)
  then show ?case using length_commas[of "map (\<lambda>m. json_quote (fst m) @ [58] @ stringify sf (snd m)) ms"] by (simp add: comp_def)
qed (use length_escape(2) in \<open>auto simp: json_quote_def js_def\<close>)

lemma length_utf8: "length (utf8 s) \<le> 3 * length s"
proof -
  have cp: "length (utf8_cp n) \<le> 4" "n < 0x10000 \<Longrightarrow> length (utf8_cp n) \<le> 3" for n by (simp_all add: utf8_cp_def)
  have u: "unat c < 0x10000" for c :: u16 using unsigned_less[of c] by simp
  show ?thesis
  proof (induction s rule: code_points.induct)
    case (2 c)
    then show ?case using cp(2)[OF u[of c]] cp(2)[of "0xFFFD"] by (simp add: utf8_def)
  next
    case (3 c d s)
    let ?n = "0x10000 + (unat c - 0xD800) * 0x400 + (unat d - 0xDC00)"
    show ?case using 3 cp(1)[of ?n] cp(2)[OF u[of c]] cp(2)[of "0xFFFD"] by (auto simp: utf8_def)
  qed (simp add: utf8_def)
qed

lemma length_text: "3 * text_bound sf v \<le> n \<Longrightarrow> length (utf8 (stringify sf v)) \<le> n"
  using length_utf8[of "stringify sf v"] length_stringify[of sf v] by linarith

lemma length_js [simp]: "length (js s) = length s"
  by (simp add: js_def)

lemma ex_digest_length [simp]: "length ex_digest = 64"
  by (simp add: ex_digest_def)

lemma num_text [simp]: "length (num_to_string (\<lambda>_. []) (Fin 0)) = 1" "length (num_to_string (\<lambda>_. []) (Fin 1)) = 1"
  by code_simp+

lemma ex_content_ok: "content_ok (\<lambda>_. []) ex_content"
proof -
  have "length (utf8 (stringify (\<lambda>_. []) (content_json ex_content))) \<le> REFINEMENT_CONTENT_MAX_BYTES"
    by (rule length_text) (simp add: content_json_def scope_json_def ex_content_def nat_json_def REFINEMENT_CONTENT_MAX_BYTES_def)
  then show ?thesis by (simp add: content_ok_def) (simp add: ex_content_def scope_ok_def ref_text_def)
qed

lemma ex_registration_ok [simp]: "registration ex_host (js ''wf'') b = Inr ex_registration"
proof -
  have "descriptor_ok ex_registration" by code_simp
  then show ?thesis unfolding registration_def ex_host_fields by (simp add: ex_registration_def)
qed

lemma finite_nat_json [simp]: "canonical_ok d (nat_json n) \<longleftrightarrow> d \<le> 32"
  by (simp add: nat_json_def)

lemma iso_wf [simp]: "is_well_formed (iso t)"
  using ascii_iso[of t] by (simp add: ascii_well_formed)

lemmas ex_json = ex_proposal_def ex_content_def ex_source_def propose_json_def content_json_def scope_json_def source_ref_json_def source_json_def
  envelope_json_def new_envelope_def nullable_json_def

lemma ex_canonical:
  "canonical_ok 0 (JObj [(js ''request'', propose_json ex_proposal), (js ''sources'', JArr (map source_json [ex_source]))])"
  "canonical_ok 0 (scope_json (ct_scope ex_content))" "canonical_ok 0 (envelope_json ex_envelope)"
  by (simp_all add: ex_json ex_envelope_def is_surrogate_def is_high_def is_low_def)

lemma ex_text_ok [simp]:
  "ref_id (js ''wf'')" "ref_id (js ''su'')" "ref_id (js ''ca'')" "ref_id (js ''ch'')" "ref_id (js ''fi'')" "ref_text 64 (js ''wf'')"
  by (simp_all add: ref_id_def ref_text_def)

lemma ex_source_ok [simp]: "source_ok ex_source" "resolve_sources ex_resolver (pq_sources ex_proposal) = Inr [ex_source]"
  by (simp_all add: source_ok_def source_ref_ok_def ex_source_def opt_all_def ex_proposal_def ex_resolver_def resolved_source_def try_bind_def)

lemma ex_envelope_ok: "envelope_ok (\<lambda>_. []) ex_envelope"
  using ex_content_ok by (simp add: envelope_ok_def ex_envelope_def new_envelope_def ex_proposal_def ref_count_def max_safe_def opt_all_def)

lemma ex_row1_decodes: "decodeVersion (\<lambda>_. []) (\<lambda>_. ex_digest) ex_row1 = Inr (ex_row1, ex_envelope)"
proof -
  let ?new = "new_version_row ex_host ex_envelope ex_digest ex_digest ex_digest"
  have c: "en_content ex_envelope = ex_content" by (simp add: ex_envelope_def new_envelope_def ex_proposal_def)
  have "sealed (\<lambda>_. []) (\<lambda>_. ex_digest) ?new ex_envelope"
    using ex_envelope_ok ex_hash ex_canonical c by (simp add: sealed_def new_version_row_def)
  moreover have "flags_ok ?new" by (simp add: flags_ok_def new_version_row_def opt_all_def)
  ultimately have "good_version (\<lambda>_. []) (\<lambda>_. ex_digest) ex_row1"
    unfolding ex_row1_def by (rule transition_good) (simp_all add: ref_count_def max_safe_def)
  then obtain en where "decodeVersion (\<lambda>_. []) (\<lambda>_. ex_digest) ex_row1 = Inr (ex_row1, en)" by (auto simp: good_version_def)
  moreover have "vw_envelope ex_row1 = Some ex_envelope" by (simp add: ex_row1_def transition_def Let_def new_version_row_def)
  ultimately show ?thesis by (auto simp: decodeVersion_Inr)
qed

text \<open>The store after the proposal.\<close>

definition ex_store :: "version_row \<Rightarrow> scope_row \<Rightarrow> validation_row list \<Rightarrow> audit_log \<Rightarrow> nat \<Rightarrow> ref_db" where
  "ex_store r s w A n = \<lparr>rd_versions = [r], rd_scopes = [s], rd_validations = w, rd_audit = A, rd_uuids = n\<rparr>"

lemma ex_store_simps [simp]:
  "rd_validations (ex_store r s w A n) = w" "rd_audit (ex_store r s w A n) = A" "rd_uuids (ex_store r s w A n) = n"
  "(ex_store r s w A n)\<lparr>rd_audit := A', rd_uuids := n'\<rparr> = ex_store r s w A' n'"
  "(ex_store r s w A n)\<lparr>rd_uuids := n'\<rparr> = ex_store r s w A n'"
  "readVersion (ex_store r s w A n) i = (if vw_id r = i then Some r else None)"
  "readScope (ex_store r s w A n) k = (if sw_scope_key s = k then Some s else None)"
  "vw_id r' = vw_id r \<Longrightarrow> updateVersionState r' (ex_store r s w A n) = Inr (ex_store (set_version_state r' r) s w A n)"
  by (auto simp: ex_store_def readVersion_def readScope_def first_row_def updateVersionState_def update_where_def Let_def one_active_def)

lemma version_returns:
  "readVersion st i = Some r \<Longrightarrow> decodeVersion (\<lambda>_. []) (\<lambda>_. ex_digest) r = Inr (r, en) \<Longrightarrow> version ex_host i st = (Inr (r, en), st)"
  by (simp add: version_Inr)

lemma scope_returns:
  "readScope st k = Some s \<Longrightarrow> scope_view_ok s \<Longrightarrow> scope_integrity s \<Longrightarrow> sw_active_version_id s = None \<Longrightarrow> scope env k st = (Inr s, st)"
  by (simp add: scope_def rtry_def scope_in_def)

lemma rbind_returns: "m st = (Inr x, st1) \<Longrightarrow> rbind m f st = f x st1"
  by (simp add: rbind_def)

lemma ex_proposed:
  obtains A where "snd (propose ex_host ex_host ex_resolver ex_proposal ex_empty) = ex_store ex_row1 (new_scope_row ex_digest) [] A 13"
    "entryId ` set A = {ex_id 12}" "log_inv (\<lambda>_. []) (\<lambda>_. ex_digest) A"
proof -
  let ?st = "\<lparr>rd_versions = [], rd_scopes = [new_scope_row ex_digest], rd_validations = [], rd_audit = [], rd_uuids = 12\<rparr> :: ref_db"
  let ?new = "new_version_row ex_host ex_envelope ex_digest ex_digest ex_digest"
  let ?md = "[(js ''requestHash'', JStr ex_digest), (js ''scopeGeneration'', nat_json 0), (js ''sourceCount'', nat_json 1),
      (js ''parentVersionId'', nullable_json JStr None)]"
  note ok = new_scope_row_ok[OF ex_digest_ok(1)]
  obtain e where e: "emit ex_host ''propose'' ?new ?md Success ?st = (Inr (ex_id 12), ?st\<lparr>rd_audit := [e], rd_uuids := 13\<rparr>)"
      "entryId e = ex_id 12" "log_inv (\<lambda>_. []) (\<lambda>_. ex_digest) [e]"
    using emit_returns[of ex_host ?st "''propose''" ?new ?md Success] by (auto simp: log_inv_Nil)
  have env: "new_envelope ex_host ex_proposal [ex_source] (ex_id 11) (ex_id 10) 1 = ex_envelope" by (simp add: ex_envelope_def)
  have iscope: "insertScope ex_digest \<lparr>rd_versions = [], rd_scopes = [], rd_validations = [], rd_audit = [], rd_uuids = 12\<rparr> = ?st"
    by (simp add: insertScope_def readScope_def first_row_def new_scope_row_def)
  have ivers: "insertVersion ex_row1 (?st\<lparr>rd_audit := [e], rd_uuids := 13\<rparr>) = Inr (ex_store ex_row1 (new_scope_row ex_digest) [] [e] 13)"
    by (simp add: insertVersion_def try_bind_def insert_row_def ex_store_def)
  have sc: "scope ex_host ex_digest ?st = (Inr (new_scope_row ex_digest), ?st)" "sw_generation (new_scope_row ex_digest) = 0"
    using ok by (auto intro!: scope_returns simp: readScope_def first_row_def new_scope_row_def)
  have r1: "vw_id ex_row1 = ex_id 11" "vw_scope_key ex_row1 = ex_digest" "vw_latest_attempt_id ex_row1 = None"
    by (simp_all add: ex_row1_def new_version_row_def ex_envelope_def new_envelope_def)
  have det: "\<exists>x. detail ex_host (ex_id 11) (ex_store ex_row1 (new_scope_row ex_digest) [] [e] 13)
      = (Inr x, ex_store ex_row1 (new_scope_row ex_digest) [] [e] 13)"
    using ex_row1_decodes r1 ok
    by (simp add: detail_def rbind_def version_returns[OF _ ex_row1_decodes] rtry_def listValidations_def order_desc_def rret_def scope_returns MAX_ATTEMPTS_def)
  then obtain x where det: "detail ex_host (ex_id 11) (ex_store ex_row1 (new_scope_row ex_digest) [] [e] 13)
      = (Inr x, ex_store ex_row1 (new_scope_row ex_digest) [] [e] 13)" ..
  have p: "pq_content ex_proposal = ex_content" "pq_parentVersionId ex_proposal = None" "sc_workflowId (ct_scope ex_content) = js ''wf''"
      "sc_workflowContractHash (ct_scope ex_content) = rg_workflowContractHash ex_registration" "pq_userId ex_proposal = js ''me''"
    by (simp_all add: ex_proposal_def ex_content_def ex_registration_def)
  have new: "propose_new ex_host ex_proposal [ex_source] ex_digest ex_empty = (Inr x, ex_store ex_row1 (new_scope_row ex_digest) [] [e] 13)"
    unfolding propose_new_def p
    by (simp add: rbind_def rhash_def ex_hash[OF ex_canonical(2)] rret_def runless_def fresh_ref_def rread_def ex_empty_def nextRevision_def
        env[simplified] ex_envelope_ok Let_def iscope sc ex_hash[OF ex_canonical(3)] e(1)[simplified] rsql_def ex_row1_def[symmetric] ivers[simplified] det[simplified])
  have req: "propose_request_ok (\<lambda>_. []) ex_proposal"
    using ex_content_ok by (simp add: propose_request_ok_def p) (simp add: ex_proposal_def opt_all_def source_ref_ok_def)
  have "propose_commit ex_host ex_proposal ex_registration [ex_source] ex_digest ex_empty
      = (Inr x, ex_store ex_row1 (new_scope_row ex_digest) [] [e] 13)"
    unfolding propose_commit_def p using new
    by (simp add: rbind_def rtry_def rread_def readProposal_def first_row_def ex_empty_def versionCount_def MAX_VERSIONS_def)
  then have "propose ex_host ex_host ex_resolver ex_proposal ex_empty = (Inr x, ex_store ex_row1 (new_scope_row ex_digest) [] [e] 13)"
    unfolding propose_def p using req p(4) ex_hash[OF ex_canonical(1)]
    by (simp add: rbind_def runless_def rret_def owned_def rtry_def rhash_def atomic_def) (simp add: ex_proposal_def)
  then show ?thesis using that[of "[e]"] e by simp
qed

lemma ex_update: "moved r r' \<Longrightarrow> updateVersionState r' (ex_store r s w A n) = Inr (ex_store r' s w A n)"
  using moved_fields[of r r'] by (simp add: moved_def)

abbreviation ex_reachable :: "ref_db \<Rightarrow> bool" where
  "ex_reachable \<equiv> ref_reachable (\<lambda>_. []) (\<lambda>_. ex_digest)"

text \<open>In a reachable store the reads return.\<close>

lemma ex_version:
  assumes "ex_reachable (ex_store r s w A n)" "vw_id r = i" "vw_envelope r = Some en"
  shows "version ex_host i (ex_store r s w A n) = (Inr (r, en), ex_store r s w A n)"
proof -
  have "good_version (\<lambda>_. []) (\<lambda>_. ex_digest) r"
    using ref_reachable_inv[OF assms(1)] assms(2) unfolding ref_inv_def vers_ok_def by simp
  then show ?thesis using assms(2,3) by (auto simp: good_version_def decodeVersion_Inr version_Inr)
qed

lemma ex_scope:
  assumes "ex_reachable (ex_store r s w A n)" "sw_scope_key s = k"
  shows "scope ex_host k (ex_store r s w A n) = (Inr s, ex_store r s w A n)"
  using scope_Inr_iff[of ex_host "ex_store r s w A n" k s] ref_reachable_inv[OF assms(1)] assms(2) unfolding ref_inv_def by simp

lemma ex_emit:
  assumes "log_inv (\<lambda>_. []) (\<lambda>_. ex_digest) A" "ex_id n \<notin> entryId ` set A"
  obtains e where "emit ex_host act row md out (ex_store r s w A n) = (Inr (ex_id n), ex_store r s w (A @ [e]) (n + 1))"
    "entryId e = ex_id n" "log_inv (\<lambda>_. []) (\<lambda>_. ex_digest) (A @ [e])"
  using emit_returns[of ex_host "ex_store r s w A n" act row md out] assms by auto

lemma ex_step: "ex_reachable st \<Longrightarrow> ref_step (\<lambda>_. []) (\<lambda>_. ex_digest) st st' \<Longrightarrow> ex_reachable st'"
  unfolding ref_reachable_def by (meson rtranclp.rtrancl_into_rtrancl)

definition ex_bindings :: ref_bindings where
  "ex_bindings = \<lparr>bi_versionId = ex_id 11, bi_versionHash = ex_digest, bi_scopeKey = ex_digest, bi_workflowContractHash = ex_digest,
     bi_workflowBuildHash = ex_digest, bi_validatorBuildHash = ex_digest, bi_qualification = ex_qualification\<rparr>"

definition ex_validate :: validate_request where
  "ex_validate = \<lparr>vq_userId = js ''me'', vq_versionId = ex_id 11, vq_versionHash = ex_digest, vq_suiteId = js ''su''\<rparr>"

definition ex_row2 :: version_row where
  "ex_row2 = fst (transition ex_host (restarted ex_row1 (ex_id 13)) 0 Validate ex_digest (ex_id 14))"

definition ex_attempt :: ref_attempt where
  "ex_attempt = new_attempt ex_host (ex_id 13) ex_bindings"

lemma ex_row1_fields:
  "vw_id ex_row1 = ex_id 11" "vw_scope_key ex_row1 = ex_digest" "vw_version_hash ex_row1 = ex_digest" "vw_envelope ex_row1 = Some ex_envelope"
  "vw_latest_attempt_id ex_row1 = None" "vw_state ex_row1 = Proposed"
  by (simp_all add: ex_row1_def new_version_row_def ex_envelope_def new_envelope_def transition_def Let_def)

lemma ex_bindings_of:
  "vw_version_hash r = ex_digest \<Longrightarrow> vw_scope_key r = ex_digest \<Longrightarrow> bindings ex_host (r, ex_envelope) = Inr ex_bindings"
  by (simp add: bindings_def ex_envelope_def new_envelope_def ex_proposal_def ex_content_def try_bind_def ex_bindings_def)
    (simp add: ex_registration_def)

lemma ex_validate_fields:
  "vq_userId ex_validate = js ''me''" "vq_versionId ex_validate = ex_id 11" "vq_versionHash ex_validate = ex_digest" "vq_suiteId ex_validate = js ''su''"
  by (simp_all add: ex_validate_def)

lemma ex_bindings_fields:
  "bi_versionId ex_bindings = ex_id 11" "bi_versionHash ex_bindings = ex_digest" "qu_suiteId ex_qualification = js ''su''"
  "bi_qualification ex_bindings = ex_qualification"
  by (simp_all add: ex_bindings_def ex_qualification_def)

lemma ex_admitted:
  assumes "ex_reachable (ex_store ex_row1 (new_scope_row ex_digest) [] A 13)" "log_inv (\<lambda>_. []) (\<lambda>_. ex_digest) A" "entryId ` set A = {ex_id 12}"
  obtains A' where "snd (validate_admission ex_host ex_validate (ex_store ex_row1 (new_scope_row ex_digest) [] A 13))
      = ex_store ex_row2 (new_scope_row ex_digest) [attemptRow ex_attempt] A' 15"
    "entryId ` set A' = {ex_id 12, ex_id 14}" "log_inv (\<lambda>_. []) (\<lambda>_. ex_digest) A'"
proof -
  let ?s = "new_scope_row ex_digest"
  let ?md = "[(js ''attemptId'', JStr (ex_id 13)), (js ''phase'', JStr (js ''started'')), (js ''requestHash'', JStr ex_digest)]"
  obtain e where e: "emit ex_host ''validate'' ex_row1 ?md Success (ex_store ex_row1 ?s [attemptRow ex_attempt] A 14)
      = (Inr (ex_id 14), ex_store ex_row1 ?s [attemptRow ex_attempt] (A @ [e]) 15)" "entryId e = ex_id 14" "log_inv (\<lambda>_. []) (\<lambda>_. ex_digest) (A @ [e])"
    using ex_emit[of A 14 "''validate''" ex_row1 ?md Success ex_row1 ?s "[attemptRow ex_attempt]"] assms(2,3) by auto
  note v = ex_version[OF assms(1) ex_row1_fields(1,4)]
  have ins: "insertValidation (attemptRow ex_attempt) (ex_store ex_row1 ?s [] A 14) = Inr (ex_store ex_row1 ?s [attemptRow ex_attempt] A 14)"
    by (simp add: insertValidation_def insert_row_def try_bind_def ex_store_def)
  have sc: "scope ex_host ex_digest (ex_store ex_row1 ?s [attemptRow ex_attempt] A 14) = (Inr ?s, ex_store ex_row1 ?s [attemptRow ex_attempt] A 14)"
    using new_scope_row_ok[OF ex_digest_ok(1)] by (auto intro!: scope_returns)
  have up: "updateVersionState ex_row2 (ex_store ex_row1 ?s [attemptRow ex_attempt] (A @ [e]) 15) = Inr (ex_store ex_row2 ?s [attemptRow ex_attempt] (A @ [e]) 15)"
    unfolding ex_row2_def by (rule ex_update[OF transition_moved[OF restarted_fields(1)]])
  have h: "canonical_ok 0 (validate_json ex_validate)" by (simp add: validate_json_def ex_validate_def)
  have g: "sw_generation ?s = 0" by (simp add: new_scope_row_def)
  have "start_attempt ex_host ex_validate (ex_row1, ex_envelope) ex_bindings (ex_store ex_row1 ?s [] A 13)
      = (Inr (Admitted ex_attempt ex_envelope), ex_store ex_row2 ?s [attemptRow ex_attempt] (A @ [e]) 15)"
    unfolding start_attempt_def restarted_def[symmetric]
    by (simp add: rbind_def fresh_ref_def Let_def ex_attempt_def[symmetric] rsql_def ins ex_row1_fields sc rhash_def ex_hash[OF h] rret_def e(1) g
        ex_row2_def[symmetric] up)
  then have "admit_validation ex_host ex_validate (ex_store ex_row1 ?s [] A 13)
      = (Inr (Admitted ex_attempt ex_envelope), ex_store ex_row2 ?s [attemptRow ex_attempt] (A @ [e]) 15)"
    unfolding admit_validation_def recover_def boundVersion_def
    by (simp add: rbind_def ex_validate_fields v ex_row1_fields rret_def rtry_def ex_bindings_of existing_attempt_def rread_def listValidations_def
        order_desc_def MAX_ATTEMPTS_def ex_bindings_fields)
  then show ?thesis using that[of "A @ [e]"] e assms(3)
    by (simp add: validate_admission_def rbind_def runless_def validate_request_ok_def ex_validate_fields rret_def owned_def atomic_def insert_commute)
qed

definition ex_report :: ref_report where
  "ex_report = \<lparr>rp_cases = [\<lparr>rc_caseId = js ''ca'', rc_inputHash = ex_digest, rc_outputHash = ex_digest, rc_checks = [(js ''ch'', True)]\<rparr>],
     rp_elapsedMs = 0, rp_accounting = NoAccounting, rp_calls = [], rp_inputTokens = 0, rp_outputTokens = 0\<rparr>"

definition ex_done :: ref_attempt where
  "ex_done = completed_attempt ex_host ex_attempt None (Some (True, ex_report)) (Some ex_digest)"

definition ex_row3 :: version_row where
  "ex_row3 = fst (transition ex_host (completed_row ex_row2 ex_done) 0 Validate ex_digest (ex_id 15))"

lemma ex_report_ok: "inspectRefinementReport (\<lambda>_. []) ex_bindings (Some ex_report) = Some (True, ex_report)"
proof -
  have "length (utf8 (stringify (\<lambda>_. []) (report_json ex_report))) \<le> REFINEMENT_REPORT_MAX_BYTES"
    by (rule length_text) (simp add: report_json_def ex_report_def case_json_def check_json_def nat_json_def REFINEMENT_REPORT_MAX_BYTES_def)
  then have "report_schema (\<lambda>_. []) ex_report"
    by (simp add: report_schema_def) (simp add: ex_report_def case_ok_def ref_count_def max_safe_def)
  moreover have "bindings_ok ex_bindings" by (simp add: bindings_ok_def qualification_ok_def ex_bindings_def ex_qualification_def opt_all_def)
  moreover have "report_consistent ex_qualification ex_report" "all_passed ex_report"
    by (simp_all add: report_consistent_def all_passed_def ex_report_def ex_qualification_def sameSet_def max_safe_def)
  ultimately show ?thesis by (simp add: inspectRefinementReport_def ex_bindings_fields)
qed

lemma ex_bindings_canonical: "canonical_ok 0 (bindings_json ex_bindings)"
  by (simp add: bindings_json_def qualification_json_def ex_bindings_def ex_qualification_def nullable_json_def)

lemma ex_row2_fields:
  "vw_id ex_row2 = ex_id 11" "vw_scope_key ex_row2 = ex_digest" "vw_version_hash ex_row2 = ex_digest" "vw_envelope ex_row2 = Some ex_envelope"
  "vw_latest_attempt_id ex_row2 = Some (ex_id 13)" "vw_state ex_row2 = Proposed"
  using ex_row1_fields by (simp_all add: ex_row2_def transition_def Let_def restarted_def)

lemma ex_attempt_fields:
  "va_id ex_attempt = ex_id 13" "va_bindings ex_attempt = ex_bindings" "va_status ex_attempt = Running" "va_deadlineAt ex_attempt = 1000"
  by (simp_all add: ex_attempt_def new_attempt_def)

lemma ex_done_fields:
  "va_id ex_done = ex_id 13" "va_bindings ex_done = ex_bindings" "va_status ex_done = Passed" "va_reportHash ex_done = Some ex_digest"
  "va_report ex_done = Some ex_report"
  by (simp_all add: ex_done_def completed_attempt_def Let_def ex_attempt_fields)

lemma ex_readValidation: "readValidation (ex_store r s [w] A n) j = (if aw_id w = j then Some w else None)"
  by (simp add: readValidation_def ex_store_def first_row_def)

lemma ex_attempt_reads:
  assumes "ex_reachable (ex_store r s [attemptRow a] A n)" "va_id a = j"
  shows "attempt ex_host j (ex_store r s [attemptRow a] A n) = (Inr a, ex_store r s [attemptRow a] A n)"
proof -
  have i: "aw_id (attemptRow a) = j" using assms(2) by (simp add: attemptRow_def)
  then have "good_attempt (\<lambda>_. []) (\<lambda>_. ex_digest) (attemptRow a)"
    using ref_reachable_inv[OF assms(1)] unfolding ref_inv_def attempts_ok_def by (metis ex_readValidation)
  then show ?thesis using i by (auto simp: good_attempt_def decode_attemptRow ref_attempt_Inr ex_readValidation split: if_splits)
qed

lemma ex_compatible: "vw_version_hash r = ex_digest \<Longrightarrow> vw_scope_key r = ex_digest \<Longrightarrow> va_bindings a = ex_bindings \<Longrightarrow> compatible ex_host (r, ex_envelope) (Some a)"
  using canonical_same[OF ex_bindings_canonical] by (simp add: compatible_def ex_bindings_of)

lemma ex_finished:
  assumes "ex_reachable (ex_store ex_row2 (new_scope_row ex_digest) [attemptRow ex_attempt] A 15)" "log_inv (\<lambda>_. []) (\<lambda>_. ex_digest) A"
    "entryId ` set A = {ex_id 12, ex_id 14}"
  obtains A' where "snd (finish_validation ex_host ex_attempt ex_envelope (Reported (Some ex_report))
        (ex_store ex_row2 (new_scope_row ex_digest) [attemptRow ex_attempt] A 15))
      = ex_store ex_row3 (new_scope_row ex_digest) [attemptRow ex_done] A' 16"
    "entryId ` set A' = {ex_id 12, ex_id 14, ex_id 15}" "log_inv (\<lambda>_. []) (\<lambda>_. ex_digest) A'"
proof -
  let ?s = "new_scope_row ex_digest"
  let ?md = "[(js ''phase'', JStr (js ''completed'')), (js ''attemptId'', JStr (ex_id 13)), (js ''reportHash'', JStr ex_digest),
    (js ''status'', JStr (js ''passed'')), (js ''reason'', JNull), (js ''requestHash'', JStr ex_digest)]"
  obtain e where e: "emit ex_host ''validate'' ex_row2 ?md Success (ex_store ex_row2 ?s [attemptRow ex_done] A 15)
      = (Inr (ex_id 15), ex_store ex_row2 ?s [attemptRow ex_done] (A @ [e]) 16)" "entryId e = ex_id 15" "log_inv (\<lambda>_. []) (\<lambda>_. ex_digest) (A @ [e])"
    using ex_emit[of A 15 "''validate''" ex_row2 ?md Success ex_row2 ?s "[attemptRow ex_done]"] assms(2,3) by auto
  note v = ex_version[OF assms(1) ex_row2_fields(1,4)]
  note at = ex_attempt_reads[OF assms(1) ex_attempt_fields(1)]
  have ver: "verdict ex_host (ex_row2, ex_envelope) ex_attempt (Some ex_report) None = (None, Some (True, ex_report))"
    using ex_compatible[OF ex_row2_fields(3,2) ex_attempt_fields(2)] by (simp add: verdict_def Let_def ex_attempt_fields ex_report_ok)
  have fin: "finishValidation (attemptRow ex_done) (ex_store ex_row2 ?s [attemptRow ex_attempt] A 15) = (True, ex_store ex_row2 ?s [attemptRow ex_done] A 15)"
    using completed_fields(3)[of ex_host ex_attempt None "Some (True, ex_report)" "Some ex_digest"]
    by (simp add: finishValidation_def ex_store_def update_where_def ex_done_def[symmetric] finish_row_def)
      (simp add: attemptRow_def ex_done_fields ex_attempt_fields)
  have sc: "scope ex_host ex_digest (ex_store ex_row2 ?s [attemptRow ex_done] A 15) = (Inr ?s, ex_store ex_row2 ?s [attemptRow ex_done] A 15)"
    using new_scope_row_ok[OF ex_digest_ok(1)] by (auto intro!: scope_returns)
  have up: "updateVersionState ex_row3 (ex_store ex_row2 ?s [attemptRow ex_done] (A @ [e]) 16) = Inr (ex_store ex_row3 ?s [attemptRow ex_done] (A @ [e]) 16)"
    unfolding ex_row3_def by (rule ex_update[OF transition_moved[OF completed_row_fields(1)]])
  have h: "canonical_ok 0 (completion_json ex_done)" "canonical_ok 0 (report_json ex_report)"
    by (simp_all add: completion_json_def ex_done_fields nullable_json_def report_json_def ex_report_def case_json_def check_json_def)
  have g: "sw_generation ?s = 0" by (simp add: new_scope_row_def)
  have rsn: "va_reason ex_done = None" by (simp add: ex_done_def completed_attempt_def Let_def)
  have "record_completion ex_host ex_row2 ex_done (ex_store ex_row2 ?s [attemptRow ex_done] A 15) = (Inr (), ex_store ex_row3 ?s [attemptRow ex_done] (A @ [e]) 16)"
    unfolding record_completion_def
    by (simp add: rbind_def ex_row2_fields sc rhash_def ex_hash[OF h(1)] rret_def ex_done_fields nullable_json_def rsn e(1) rsql_def g ex_row3_def[symmetric] up)
  then have "complete ex_host (ex_id 13) (Some ex_report) None (ex_store ex_row2 ?s [attemptRow ex_attempt] A 15)
      = (Inr (), ex_store ex_row3 ?s [attemptRow ex_done] (A @ [e]) 16)"
    unfolding complete_def
    by (simp add: rbind_def at ex_attempt_fields ex_bindings_fields v ex_row2_fields ver report_hash_def rhash_def ex_hash[OF h(2)] rret_def Let_def ex_done_def[symmetric] finish_attempt_def fin)
  moreover have "brought ex_envelope ex_attempt (Reported (Some ex_report)) = (Some ex_report, None)"
    by (simp add: brought_def preflight_def ex_attempt_fields ex_envelope_def new_envelope_def ex_source_def ex_bindings_def ex_qualification_def)
  ultimately show ?thesis using that[of "A @ [e]"] e assms(3)
    by (simp add: finish_validation_def ex_attempt_fields atomic_def insert_commute)
qed

definition ex_approve :: bound_request where
  "ex_approve = \<lparr>rq_userId = js ''me'', rq_versionId = ex_id 11, rq_versionHash = ex_digest, rq_validationId = ex_id 13, rq_reportHash = ex_digest,
     rq_expectedScopeGeneration = 0\<rparr>"

definition ex_activate :: activate_request where
  "ex_activate = \<lparr>rq_userId = js ''me'', rq_versionId = ex_id 11, rq_versionHash = ex_digest, rq_validationId = ex_id 13, rq_reportHash = ex_digest,
     rq_expectedScopeGeneration = 0, rq_approvalAuditId = ex_id 16\<rparr>"

definition ex_row4 :: version_row where
  "ex_row4 = fst (transition ex_host (ex_row3\<lparr>vw_state := Approved, vw_approval_audit_id := Some (ex_id 16)\<rparr>) 0 Approve ex_digest (ex_id 16))"

definition ex_row5 :: version_row where
  "ex_row5 = fst (transition ex_host (ex_row4\<lparr>vw_state := Active, vw_approval_audit_id := Some (ex_id 16)\<rparr>) 1 Activate ex_digest (ex_id 17))"

definition ex_scope5 :: scope_row where
  "ex_scope5 = scope_after (new_scope_row ex_digest) (Some (ex_id 11)) 1 ex_row5"

lemma ex_row3_fields:
  "vw_id ex_row3 = ex_id 11" "vw_scope_key ex_row3 = ex_digest" "vw_version_hash ex_row3 = ex_digest" "vw_envelope ex_row3 = Some ex_envelope"
  "vw_latest_attempt_id ex_row3 = Some (ex_id 13)" "vw_validated_attempt_id ex_row3 = Some (ex_id 13)" "vw_state ex_row3 = Validated"
  "map_option tr_action (vw_last_transition ex_row3) = Some Validate"
  using ex_row2_fields ex_done_fields by (simp_all add: ex_row3_def transition_def Let_def completed_row_def)

lemma ex_row4_fields:
  "vw_id ex_row4 = ex_id 11" "vw_scope_key ex_row4 = ex_digest" "vw_version_hash ex_row4 = ex_digest" "vw_envelope ex_row4 = Some ex_envelope"
  "vw_latest_attempt_id ex_row4 = Some (ex_id 13)" "vw_validated_attempt_id ex_row4 = Some (ex_id 13)" "vw_state ex_row4 = Approved"
  "vw_approval_audit_id ex_row4 = Some (ex_id 16)" "map_option tr_action (vw_last_transition ex_row4) = Some Approve"
  using ex_row3_fields by (simp_all add: ex_row4_def transition_def Let_def)

lemma repeated_None: "map_option tr_action (vw_last_transition r) = Some a \<Longrightarrow> a \<noteq> act \<Longrightarrow> repeated r sc act dg = None"
  by (auto simp: repeated_def)

lemma ex_passed:
  assumes "ex_reachable (ex_store r s [attemptRow ex_done] A n)" "vw_version_hash r = ex_digest" "vw_scope_key r = ex_digest"
    "vw_latest_attempt_id r = Some (ex_id 13)" "vw_validated_attempt_id r = Some (ex_id 13)"
  shows "passed ex_host (r, ex_envelope) (ex_id 13) (Some ex_digest) (ex_store r s [attemptRow ex_done] A n)
    = (Inr ex_done, ex_store r s [attemptRow ex_done] A n)"
proof -
  have "en_versionId ex_envelope = ex_id 11" by (simp add: ex_envelope_def new_envelope_def)
  then show ?thesis
    using ex_attempt_reads[OF assms(1) ex_done_fields(1)] assms(2-5) ex_compatible[OF assms(2,3) ex_done_fields(2)]
    by (simp add: passed_Inr ex_done_fields ex_bindings_fields)
qed

lemma mutation_returns:
  assumes "ex_reachable (ex_store r s w A n)" "vw_id r = i" "vw_version_hash r = hh" "vw_envelope r = Some en" "vw_scope_key r = sw_scope_key s"
    "canonical_ok 0 request" "repeated r s act ex_digest = None"
  shows "mutation ex_host i hh act request go (ex_store r s w A n) = go (r, en) s ex_digest (ex_store r s w A n)"
  unfolding mutation_def boundVersion_def
  using ex_version[OF assms(1,2,4)] ex_scope[OF assms(1) refl] assms(3,5,7) ex_hash[OF assms(6)]
  by (simp add: rbind_def rhash_def rret_def)

lemma ex_approved:
  assumes "ex_reachable (ex_store ex_row3 (new_scope_row ex_digest) [attemptRow ex_done] A 16)" "log_inv (\<lambda>_. []) (\<lambda>_. ex_digest) A"
    "entryId ` set A = {ex_id 12, ex_id 14, ex_id 15}"
  obtains A' where "snd (approve ex_host ex_approve (ex_store ex_row3 (new_scope_row ex_digest) [attemptRow ex_done] A 16))
      = ex_store ex_row4 (new_scope_row ex_digest) [attemptRow ex_done] A' 17"
    "entryId ` set A' = {ex_id 12, ex_id 14, ex_id 15, ex_id 16}" "log_inv (\<lambda>_. []) (\<lambda>_. ex_digest) A'"
proof -
  let ?s = "new_scope_row ex_digest" and ?w = "[attemptRow ex_done]"
  let ?md = "[(js ''requestHash'', JStr ex_digest), (js ''validationId'', JStr (ex_id 13)), (js ''reportHash'', JStr ex_digest),
     (js ''scopeGeneration'', nat_json 0), (js ''actorKind'', JStr (js ''local_token_holder''))]"
  obtain e where e: "emit ex_host ''approve'' ex_row3 ?md Success (ex_store ex_row3 ?s ?w A 16) = (Inr (ex_id 16), ex_store ex_row3 ?s ?w (A @ [e]) 17)"
      "entryId e = ex_id 16" "log_inv (\<lambda>_. []) (\<lambda>_. ex_digest) (A @ [e])"
    using ex_emit[of A 16 "''approve''" ex_row3 ?md Success ex_row3 ?s ?w] assms(2,3) by auto
  have f: "rq_versionId ex_approve = ex_id 11" "rq_versionHash ex_approve = ex_digest" "rq_validationId ex_approve = ex_id 13"
      "rq_reportHash ex_approve = ex_digest" "rq_expectedScopeGeneration ex_approve = 0" "rq_userId ex_approve = js ''me''"
    by (simp_all add: ex_approve_def)
  have s: "sw_generation ?s = 0" "sw_scope_key ?s = ex_digest" by (simp_all add: new_scope_row_def)
  have c: "canonical_ok 0 (approve_json ex_approve)" by (simp add: approve_json_def bound_members_def f)
  have p: "passed ex_host (ex_row3, ex_envelope) (ex_id 13) (Some ex_digest) (ex_store ex_row3 ?s ?w A 16) = (Inr ex_done, ex_store ex_row3 ?s ?w A 16)"
    by (rule ex_passed[OF assms(1)]) (simp_all add: ex_row3_fields)
  have up: "updateVersionState ex_row4 (ex_store ex_row3 ?s ?w (A @ [e]) 17) = Inr (ex_store ex_row4 ?s ?w (A @ [e]) 17)"
    unfolding ex_row4_def by (rule ex_update[OF transition_moved]) simp
  have "approve_fresh ex_host ex_approve (ex_row3, ex_envelope) ?s ex_digest (ex_store ex_row3 ?s ?w A 16)
      = (Inr (snd (transition ex_host (ex_row3\<lparr>vw_state := Approved, vw_approval_audit_id := Some (ex_id 16)\<rparr>) 0 Approve ex_digest (ex_id 16))),
         ex_store ex_row4 ?s ?w (A @ [e]) 17)"
    using up unfolding approve_fresh_def ex_row4_def
    by (simp add: rbind_def expectGeneration_def runless_def rret_def f s ex_row3_fields p e(1) rsql_def split_beta)
  moreover have "mutation ex_host (ex_id 11) ex_digest Approve (approve_json ex_approve) (approve_fresh ex_host ex_approve) (ex_store ex_row3 ?s ?w A 16)
      = approve_fresh ex_host ex_approve (ex_row3, ex_envelope) ?s ex_digest (ex_store ex_row3 ?s ?w A 16)"
    using assms(1) by (rule mutation_returns) (simp_all add: ex_row3_fields s c repeated_None[OF ex_row3_fields(8)])
  ultimately show ?thesis using that[of "A @ [e]"] e assms(3)
    by (simp add: approve_def rbind_def runless_def bound_request_ok_def ref_count_def max_safe_def rret_def owned_def atomic_def insert_commute f)
qed

lemma ex_activated:
  assumes "ex_reachable (ex_store ex_row4 (new_scope_row ex_digest) [attemptRow ex_done] A 17)" "log_inv (\<lambda>_. []) (\<lambda>_. ex_digest) A"
    "entryId ` set A = {ex_id 12, ex_id 14, ex_id 15, ex_id 16}"
  obtains A' x where "activate ex_host ex_activate (ex_store ex_row4 (new_scope_row ex_digest) [attemptRow ex_done] A 17)
      = (Inr x, ex_store ex_row5 ex_scope5 [attemptRow ex_done] A' 18)"
proof -
  let ?s = "new_scope_row ex_digest" and ?w = "[attemptRow ex_done]"
  let ?md = "[(js ''requestHash'', JStr ex_digest), (js ''validationId'', JStr (ex_id 13)), (js ''reportHash'', JStr ex_digest),
     (js ''approvalAuditId'', JStr (ex_id 16)), (js ''scopeGeneration'', nat_json 1)]"
  obtain e where e: "emit ex_host ''activate'' ex_row4 ?md Success (ex_store ex_row4 ?s ?w A 17) = (Inr (ex_id 17), ex_store ex_row4 ?s ?w (A @ [e]) 18)"
    using ex_emit[of A 17 "''activate''" ex_row4 ?md Success ex_row4 ?s ?w] assms(2,3) by auto
  have f: "rq_versionId ex_activate = ex_id 11" "rq_versionHash ex_activate = ex_digest" "rq_validationId ex_activate = ex_id 13"
      "rq_reportHash ex_activate = ex_digest" "rq_expectedScopeGeneration ex_activate = 0" "rq_userId ex_activate = js ''me''"
      "rq_approvalAuditId ex_activate = ex_id 16"
    by (simp_all add: ex_activate_def)
  have s: "sw_generation ?s = 0" "sw_scope_key ?s = ex_digest" "sw_active_version_id ?s = None" by (simp_all add: new_scope_row_def)
  have c: "canonical_ok 0 (activate_json ex_activate)" by (simp add: activate_json_def bound_members_def f)
  have p: "passed ex_host (ex_row4, ex_envelope) (ex_id 13) (Some ex_digest) (ex_store ex_row4 ?s ?w A 17) = (Inr ex_done, ex_store ex_row4 ?s ?w A 17)"
    by (rule ex_passed[OF assms(1)]) (simp_all add: ex_row4_fields)
  have up: "updateVersionState ex_row5 (ex_store ex_row4 ?s ?w (A @ [e]) 18) = Inr (ex_store ex_row5 ?s ?w (A @ [e]) 18)"
    unfolding ex_row5_def by (rule ex_update[OF transition_moved]) simp
  have us: "updateScope ex_scope5 (ex_store ex_row5 ?s ?w (A @ [e]) 18) = ex_store ex_row5 ex_scope5 ?w (A @ [e]) 18"
    by (simp add: updateScope_def ex_store_def update_where_def ex_scope5_def scope_after_def)
  have "switch_fresh ex_host ex_activate Activate ''activate'' (Some (ex_id 16)) (ex_row4, ex_envelope) ?s ex_digest (ex_store ex_row4 ?s ?w A 17)
      = (Inr (snd (transition ex_host (ex_row4\<lparr>vw_state := Active, vw_approval_audit_id := Some (ex_id 16)\<rparr>) 1 Activate ex_digest (ex_id 17))),
         ex_store ex_row5 ex_scope5 ?w (A @ [e]) 18)"
    using up us e unfolding switch_fresh_def ex_row5_def ex_scope5_def
    by (simp add: rbind_def expectGeneration_def runless_def rret_def f s ex_row4_fields p rsql_def split_beta activation_approval_def supersede_def
        rupdate_scope_def ref_count_def max_safe_def)
  moreover have "switchVersion ex_host ex_activate Activate ''activate'' (activate_json ex_activate) (Some (ex_id 16)) (ex_store ex_row4 ?s ?w A 17)
      = switch_fresh ex_host ex_activate Activate ''activate'' (Some (ex_id 16)) (ex_row4, ex_envelope) ?s ex_digest (ex_store ex_row4 ?s ?w A 17)"
    unfolding switchVersion_def f using assms(1) by (rule mutation_returns) (simp_all add: ex_row4_fields s c repeated_None[OF ex_row4_fields(9)])
  ultimately show ?thesis using that
    by (simp add: activate_def rbind_def runless_def bound_request_ok_def ref_count_def max_safe_def rret_def owned_def atomic_def f)
qed

text \<open>A store with an active method is reachable.\<close>

lemma ex_run:
  obtains st A x where "ex_reachable st" "activate ex_host ex_activate st = (Inr x, ex_store ex_row5 ex_scope5 [attemptRow ex_done] A 18)"
    "ex_reachable (ex_store ex_row5 ex_scope5 [attemptRow ex_done] A 18)" "lf_state (lives st) (ex_id 11) = Some Approved"
proof -
  have 0: "ex_reachable ex_empty" unfolding ref_reachable_def
    by (rule exI[of _ ex_empty]) (simp add: ref_init_def ex_empty_def log_inv_Nil)
  note st = ex_host_ok(2)
  obtain A1 where a1: "snd (propose ex_host ex_host ex_resolver ex_proposal ex_empty) = ex_store ex_row1 (new_scope_row ex_digest) [] A1 13"
      "entryId ` set A1 = {ex_id 12}" "log_inv (\<lambda>_. []) (\<lambda>_. ex_digest) A1"
    by (rule ex_proposed)
  have r1: "ex_reachable (ex_store ex_row1 (new_scope_row ex_digest) [] A1 13)"
    using ex_step[OF 0 ref_step.proposal[OF st st]] a1(1) by metis
  obtain A2 where a2: "snd (validate_admission ex_host ex_validate (ex_store ex_row1 (new_scope_row ex_digest) [] A1 13))
      = ex_store ex_row2 (new_scope_row ex_digest) [attemptRow ex_attempt] A2 15"
      "entryId ` set A2 = {ex_id 12, ex_id 14}" "log_inv (\<lambda>_. []) (\<lambda>_. ex_digest) A2"
    by (rule ex_admitted[OF r1 a1(3,2)])
  have r2: "ex_reachable (ex_store ex_row2 (new_scope_row ex_digest) [attemptRow ex_attempt] A2 15)"
    using ex_step[OF r1 ref_step.admits[OF st]] a2(1) by metis
  obtain A3 where a3: "snd (finish_validation ex_host ex_attempt ex_envelope (Reported (Some ex_report))
        (ex_store ex_row2 (new_scope_row ex_digest) [attemptRow ex_attempt] A2 15))
      = ex_store ex_row3 (new_scope_row ex_digest) [attemptRow ex_done] A3 16"
      "entryId ` set A3 = {ex_id 12, ex_id 14, ex_id 15}" "log_inv (\<lambda>_. []) (\<lambda>_. ex_digest) A3"
    by (rule ex_finished[OF r2 a2(3,2)])
  have r3: "ex_reachable (ex_store ex_row3 (new_scope_row ex_digest) [attemptRow ex_done] A3 16)"
    using ex_step[OF r2 ref_step.finishes[OF st]] a3(1) by metis
  obtain A4 where a4: "snd (approve ex_host ex_approve (ex_store ex_row3 (new_scope_row ex_digest) [attemptRow ex_done] A3 16))
      = ex_store ex_row4 (new_scope_row ex_digest) [attemptRow ex_done] A4 17"
      "entryId ` set A4 = {ex_id 12, ex_id 14, ex_id 15, ex_id 16}" "log_inv (\<lambda>_. []) (\<lambda>_. ex_digest) A4"
    by (rule ex_approved[OF r3 a3(3,2)])
  have r4: "ex_reachable (ex_store ex_row4 (new_scope_row ex_digest) [attemptRow ex_done] A4 17)"
    using ex_step[OF r3 ref_step.approval[OF st]] a4(1) by metis
  obtain A5 x where a5: "activate ex_host ex_activate (ex_store ex_row4 (new_scope_row ex_digest) [attemptRow ex_done] A4 17)
      = (Inr x, ex_store ex_row5 ex_scope5 [attemptRow ex_done] A5 18)"
    by (rule ex_activated[OF r4 a4(3,2)])
  have "ex_reachable (ex_store ex_row5 ex_scope5 [attemptRow ex_done] A5 18)"
    using ex_step[OF r4 ref_step.activation[OF st]] a5 by (metis snd_conv)
  moreover have "lf_state (lives (ex_store ex_row4 (new_scope_row ex_digest) [attemptRow ex_done] A4 17)) (ex_id 11) = Some Approved"
    by (simp add: lives_def ex_row4_fields)
  ultimately show ?thesis using that r4 a5 by blast
qed

section \<open>Properties\<close>

lemma good_attempt_passed:
  assumes "good_attempt sf h w" "aw_status w = Passed"
  obtains a r where "w = attemptRow a" "aw_bindings w = Some (va_bindings a)" "aw_report w = Some (Some r)" "all_passed r"
    "report_consistent (bi_qualification (va_bindings a)) r" "refinementHash sf h (report_json r) = aw_report_hash w"
proof -
  obtain a where a: "w = attemptRow a" "attempt_integrity sf h a" using assms(1) by (auto simp: good_attempt_def decodeValidation_Inr)
  then have "va_status a = Passed" using assms(2) by (simp add: attemptRow_def)
  then obtain ok r where i: "inspectRefinementReport sf (va_bindings a) (va_report a) = Some (ok, r)"
      "refinementHash sf h (report_json r) = va_reportHash a" "ok"
    using a(2) by (auto simp: attempt_integrity_def split: option.splits)
  have "va_report a = Some r \<and> all_passed r \<and> report_consistent (bi_qualification (va_bindings a)) r"
    using i(1,3) by (auto simp: inspectRefinementReport_def split: option.splits if_splits)
  then show ?thesis using that a(1) i(2) by (simp add: attemptRow_def)
qed

text \<open>C26: Whatever the order of calls, a method is active only when it earned it: it is the head of its scope and the only
  active version there; its validation attempt has passed, is bound to the hash of this version, and its report covers every
  case and check of the suite with all checks passed; its approval is an entry of the audit log, and that log is intact.\<close>

theorem active_method_earned:
  assumes "ref_reachable sf h st" "readVersion st i = Some r" "vw_state r = Active"
  shows "\<exists>s w d b rep. readScope st (vw_scope_key r) = Some s \<and> sw_active_version_id s = Some i
    \<and> (\<forall>j q. readVersion st j = Some q \<and> vw_scope_key q = vw_scope_key r \<and> vw_state q = Active \<longrightarrow> j = i)
    \<and> vw_validated_attempt_id r = Some (aw_id w) \<and> readValidation st (aw_id w) = Some w \<and> aw_status w = Passed
    \<and> aw_version_id w = i \<and> aw_version_hash w = vw_version_hash r \<and> aw_bindings w = Some b
    \<and> aw_report w = Some (Some rep) \<and> report_consistent (bi_qualification b) rep \<and> all_passed rep
    \<and> refinementHash sf h (report_json rep) = aw_report_hash w
    \<and> vw_approval_audit_id r = Some d \<and> approved_in d (rd_audit st) \<and> log_inv sf h (rd_audit st)"
proof -
  note inv = ref_reachable_inv[OF assms(1), unfolded ref_inv_def]
  obtain s where s: "readScope st (vw_scope_key r) = Some s" "sw_active_version_id s = Some i"
    using inv assms(2,3) unfolding links_def by blast
  have only: "j = i" if "readVersion st j = Some q" "vw_scope_key q = vw_scope_key r" "vw_state q = Active" for j q
    using inv that s unfolding links_def by (metis option.inject)
  have "flags_ok r" using inv assms(2) unfolding vers_ok_def good_version_def decode_parts by blast
  then obtain d j where d: "vw_approval_audit_id r = Some d" "vw_validated_attempt_id r = Some j" "vw_latest_attempt_id r = Some j"
    using assms(3) by (auto simp: flags_ok_def)
  obtain w where w: "readValidation st j = Some w" "aw_version_id w = i" "aw_status w = Passed"
    using inv assms(2) d unfolding latest_ok_def by blast
  have g: "aw_id w = j" "good_attempt sf h w" "aw_version_hash w = vw_version_hash r"
    using inv w assms(2) unfolding attempts_ok_def by fastforce+
  obtain a rep where "w = attemptRow a" "aw_bindings w = Some (va_bindings a)" "aw_report w = Some (Some rep)" "all_passed rep"
      "report_consistent (bi_qualification (va_bindings a)) rep" "refinementHash sf h (report_json rep) = aw_report_hash w"
    by (rule good_attempt_passed[OF g(2) w(3)])
  moreover have "approved_in d (rd_audit st)" "log_inv sf h (rd_audit st)" using inv assms(2) d(1) unfolding approvals_ok_def by blast+
  ultimately show ?thesis using s only d w g by blast
qed


text \<open>C28: Nothing in the store is ever corrupt or over capacity: every version and every attempt decodes with all its
  hashes, its scope exists, there are at most 128 versions, and a version has at most 32 attempts.\<close>

theorem store_never_corrupt:
  assumes "ref_reachable sf h st" "host sf h env"
  shows "(\<forall>i r. readVersion st i = Some r \<longrightarrow> (\<exists>en sc. version env i st = (Inr (r, en), st) \<and> scope env (vw_scope_key r) st = (Inr sc, st)))
    \<and> (\<forall>j w. readValidation st j = Some w \<longrightarrow> (\<exists>a. attempt env j st = (Inr a, st) \<and> va_id a = j))
    \<and> versionCount st \<le> MAX_VERSIONS \<and> (\<forall>v. length (listValidations st v) \<le> MAX_ATTEMPTS)"
proof -
  note inv = ref_reachable_inv[OF assms(1), unfolded ref_inv_def]
  have e: "sf = re_num env" "h = re_sha env" using assms(2) by (simp_all add: host_def)
  have "\<exists>en sc. version env i st = (Inr (r, en), st) \<and> scope env (vw_scope_key r) st = (Inr sc, st)" if r: "readVersion st i = Some r" for i r
  proof -
    obtain en where "decodeVersion sf h r = Inr (r, en)" using inv r unfolding vers_ok_def good_version_def by blast
    moreover obtain sc where "readScope st (vw_scope_key r) = Some sc" using inv r unfolding links_def by blast
    moreover have "vers_ok (re_num env) (re_sha env) (readVersion st)" "scopes_ok (readVersion st) (readScope st)" using inv e by simp_all
    ultimately show ?thesis using r e scope_Inr_iff[of env st] by (auto simp: version_Inr)
  qed
  moreover have "\<exists>a. attempt env j st = (Inr a, st) \<and> va_id a = j" if w: "readValidation st j = Some w" for j w
  proof -
    obtain a where "w = attemptRow a" "attempt_view_ok sf a" "attempt_integrity sf h a" "aw_id w = j"
      using inv w unfolding attempts_ok_def good_attempt_def decodeValidation_Inr by blast
    moreover from this have "va_id a = j" by (simp add: attemptRow_def)
    ultimately show ?thesis using w e by (intro exI[of _ a] conjI) (simp_all add: ref_attempt_Inr)
  qed
  moreover have "length (listValidations st v) \<le> MAX_ATTEMPTS" for v
  proof -
    have "length (filter (\<lambda>a. snd a = v) (snd (shape st))) = length (filter (\<lambda>r. aw_version_id r = v) (rd_validations st))"
      by (simp add: shape_def filter_map comp_def)
    moreover have "length (filter (\<lambda>a. snd a = v) (snd (shape st))) \<le> MAX_ATTEMPTS" using inv unfolding shape_ok_def by blast
    moreover have "length (listValidations st v) \<le> length (filter (\<lambda>r. aw_version_id r = v) (rd_validations st))"
      by (simp add: listValidations_def order_desc_def)
    ultimately show ?thesis by linarith
  qed
  moreover have "versionCount st \<le> MAX_VERSIONS" using inv unfolding shape_ok_def by (simp add: shape_def versionCount_def)
  ultimately show ?thesis by blast
qed

text \<open>C31: Evidence is never rewritten: along any calls a version keeps its content, lineage and hashes, a finished attempt keeps
  its whole receipt, the generation of a scope never falls and a scope that changed has a later one, and the audit log only grows.\<close>

theorem evidence_immutable:
  assumes "ref_reachable sf h st" "(ref_step sf h)\<^sup>*\<^sup>* st st'"
  shows "(\<forall>i r. readVersion st i = Some r \<longrightarrow> (\<exists>r'. readVersion st' i = Some r' \<and> vw_envelope r' = vw_envelope r
        \<and> vw_version_hash r' = vw_version_hash r \<and> vw_scope_key r' = vw_scope_key r \<and> vw_created_at r' = vw_created_at r))
    \<and> (\<forall>j w. readValidation st j = Some w \<and> aw_status w \<noteq> Running \<longrightarrow> readValidation st' j = Some w)
    \<and> (\<forall>k s. readScope st k = Some s \<longrightarrow> (\<exists>s'. readScope st' k = Some s' \<and> sw_generation s \<le> sw_generation s'
        \<and> (sw_generation s' = sw_generation s \<longrightarrow> s' = s)))
    \<and> (\<exists>ext. rd_audit st' = rd_audit st @ ext)"
proof -
  have ev: "evolves st st'" using ref_steps_sound[OF assms(2) ref_reachable_inv[OF assms(1)]] by (simp add: follows_def)
  have created: "vw_created_at r' = vw_created_at r" if "moved r r'" for r r'
    using that unfolding moved_def by (cases r, cases r') (simp add: set_version_state_def)
  have "\<exists>r'. readVersion st' i = Some r' \<and> vw_envelope r' = vw_envelope r \<and> vw_version_hash r' = vw_version_hash r
      \<and> vw_scope_key r' = vw_scope_key r \<and> vw_created_at r' = vw_created_at r" if r: "readVersion st i = Some r" for i r
  proof -
    obtain r' where "readVersion st' i = Some r'" "moved r r'" using ev r unfolding evolves_def extends_def by blast
    then show ?thesis using moved_fields created by blast
  qed
  moreover have "readValidation st' j = Some w" if "readValidation st j = Some w" "aw_status w \<noteq> Running" for j w
    using ev that unfolding evolves_def extends_def attempt_kept_def by blast
  moreover have "\<exists>s'. readScope st' k = Some s' \<and> sw_generation s \<le> sw_generation s' \<and> (sw_generation s' = sw_generation s \<longrightarrow> s' = s)"
    if s: "readScope st k = Some s" for k s
  proof -
    obtain s' where "readScope st' k = Some s'" "scope_kept s s'" using ev s unfolding evolves_def extends_def by blast
    then show ?thesis unfolding scope_kept_def by (metis (full_types))
  qed
  moreover have "\<exists>ext. rd_audit st' = rd_audit st @ ext" using ev unfolding evolves_def by blast
  ultimately show ?thesis by blast
qed

lemma scope_state: "scope env k st = (Inr sc, st') \<longleftrightarrow> scope_in env k st = Inr sc \<and> st' = st"
  by (simp add: scope_def rtry_Inr)

lemma pin_selected:
  assumes "select env s st = (Inr (Some pin), st1)"
  shows "st1 = st" "\<exists>sc row en. readScope st (pn_scopeKey pin) = Some sc \<and> sw_generation sc = pn_scopeGeneration pin
    \<and> readVersion st (pn_versionId pin) = Some row \<and> vw_envelope row = Some en \<and> en_versionId en = pn_versionId pin"
proof -
  obtain k where k: "select_pin env k st = (Inr (Some pin), st1)"
    using assms unfolding select_def by (auto simp: rbind_Inr runless_Inr rhash_Inr atomic_def split: prod.splits sum.splits)
  then have "st1 = st \<and> (\<exists>sc i row en. scope_in env k st = Inr sc \<and> sw_active_version_id sc = Some i \<and> readVersion st i = Some row
      \<and> decodeVersion (re_num env) (re_sha env) row = Inr (row, en) \<and> pn_versionId pin = en_versionId en \<and> pn_scopeKey pin = k
      \<and> pn_scopeGeneration pin = sw_generation sc)"
    unfolding select_pin_def
    by (auto simp: rbind_Inr rread_Inr rret_Inr rfail_Inr if_Inr version_Inr ref_attempt_Inr passed_Inr scope_state split: if_splits option.splits)
  then obtain sc i row en where p: "scope_in env k st = Inr sc" "sw_active_version_id sc = Some i" "readVersion st i = Some row"
      "decodeVersion (re_num env) (re_sha env) row = Inr (row, en)" "pn_versionId pin = en_versionId en" "pn_scopeKey pin = k"
      "pn_scopeGeneration pin = sw_generation sc" and st: "st1 = st"
    by blast
  show "st1 = st" by (rule st)
  have "readScope st k = Some sc" by (rule scope_Inr(1)[of env _ _ _ st]) (simp add: scope_state p(1))
  moreover have "vw_envelope row = Some en" "en_versionId en = i"
    using p(4) readVersion_id[OF p(3)] by (auto simp: decode_parts sealed_def)
  ultimately show "\<exists>sc row en. readScope st (pn_scopeKey pin) = Some sc \<and> sw_generation sc = pn_scopeGeneration pin
    \<and> readVersion st (pn_versionId pin) = Some row \<and> vw_envelope row = Some en \<and> en_versionId en = pn_versionId pin"
    using p by simp
qed

lemma pin_asserted:
  assumes "assertPin env pin st = (Inr c, st1)"
  obtains sc row en where "readScope st (pn_scopeKey pin) = Some sc" "sw_generation sc = pn_scopeGeneration pin"
    "sw_active_version_id sc = Some (pn_versionId pin)" "readVersion st (pn_versionId pin) = Some row" "vw_state row = Active"
    "vw_envelope row = Some en" "c = en_content en" "st1 = st"
proof -
  have r: "readPin env pin st = (Inr c, st1)"
    using assms unfolding assertPin_def by (auto simp: rbind_Inr runless_Inr atomic_def split: prod.splits sum.splits)
  then obtain sc v where sc: "scope_in env (pn_scopeKey pin) st = Inr sc" "sw_generation sc = pn_scopeGeneration pin"
      "sw_active_version_id sc = Some (pn_versionId pin)" and v: "version env (pn_versionId pin) st = (Inr v, st)" "vw_state (fst v) = Active"
      "c = en_content (snd v)" "st1 = st"
    unfolding readPin_def
    by (auto simp: rbind_Inr rret_Inr rfail_Inr if_Inr version_Inr ref_attempt_Inr passed_Inr scope_state split: if_splits)
  obtain row en where "v = (row, en)" "readVersion st (pn_versionId pin) = Some row" "sealed (re_num env) (re_sha env) row en"
    using v(1) by (auto elim: version_run)
  moreover have "readScope st (pn_scopeKey pin) = Some sc" by (rule scope_Inr(1)[of env _ _ _ st]) (simp add: scope_state sc(1))
  ultimately show ?thesis using that sc(2,3) v by (auto simp: sealed_def)
qed

text \<open>C29: A pin never guides with anything but what was selected: when a pin is honoured after any calls in between, its scope is
  exactly as it was at the selection, the version is still active, and the content is that of the version that was selected.\<close>

theorem pin_content_stable:
  assumes "ref_reachable sf h st" "select env s st = (Inr (Some pin), st1)" "(ref_step sf h)\<^sup>*\<^sup>* st1 st2" "assertPin env' pin st2 = (Inr c, st3)"
  shows "\<exists>sc row en row'. readScope st (pn_scopeKey pin) = Some sc \<and> readScope st2 (pn_scopeKey pin) = Some sc
    \<and> readVersion st (pn_versionId pin) = Some row \<and> vw_envelope row = Some en \<and> c = en_content en
    \<and> readVersion st2 (pn_versionId pin) = Some row' \<and> vw_state row' = Active \<and> vw_envelope row' = Some en"
proof -
  obtain sc row en where a: "readScope st (pn_scopeKey pin) = Some sc" "sw_generation sc = pn_scopeGeneration pin"
      "readVersion st (pn_versionId pin) = Some row" "vw_envelope row = Some en" and st: "st1 = st"
    using pin_selected[OF assms(2)] by blast
  obtain sc' row' en' where b: "readScope st2 (pn_scopeKey pin) = Some sc'" "sw_generation sc' = pn_scopeGeneration pin"
      "readVersion st2 (pn_versionId pin) = Some row'" "vw_state row' = Active" "vw_envelope row' = Some en'" "c = en_content en'"
    using pin_asserted[OF assms(4)] by metis
  have "evolves st st2" using ref_steps_sound[OF assms(3)[unfolded st] ref_reachable_inv[OF assms(1)]] by (simp add: follows_def)
  then have "scope_kept sc sc'" "moved row row'" using a(1,3) b(1,3) unfolding evolves_def extends_def by (metis option.inject)+
  then have "sc' = sc" "en' = en" using a(2,4) b(2,5) moved_fields[of row row'] by (auto simp: scope_kept_def)
  then show ?thesis using a b by blast
qed

lemma atomic_Inr: "atomic m st = (Inr x, st') \<longleftrightarrow> m st = (Inr x, st')"
  by (auto simp: atomic_def split: prod.splits sum.splits)

text \<open>What a fresh mutation leaves behind: the transition with its response on the row, and its generation on the scope.\<close>

definition stamped_as :: "ref_db \<Rightarrow> jsstr \<Rightarrow> jsstr \<Rightarrow> ref_action \<Rightarrow> jsstr \<Rightarrow> mutation_response \<Rightarrow> bool" where
  "stamped_as st i k act dg x \<longleftrightarrow> (\<exists>r s. readVersion st i = Some r \<and> vw_last_transition r = Some \<lparr>tr_action = act, tr_requestHash = dg, tr_response = x\<rparr>
     \<and> readScope st k = Some s \<and> sw_generation s = mr_scopeGeneration x)"

lemma mutation_again:
  assumes "host sf h env" "ref_inv sf h st" "readVersion st i = Some r" "vw_version_hash r = hh" "refinementHash sf h request = Some dg"
    "stamped_as st i (vw_scope_key r) act dg x"
  shows "mutation env i hh act request go st = (Inr x, st)"
proof -
  have e: "sf = re_num env" "h = re_sha env" using assms(1) by (simp_all add: host_def)
  obtain en where "decodeVersion sf h r = Inr (r, en)" using assms(2,3) unfolding ref_inv_def vers_ok_def good_version_def by blast
  then have v: "version env i st = (Inr (r, en), st)" using assms(3) e by (simp add: version_Inr)
  obtain s where s: "readScope st (vw_scope_key r) = Some s" "sw_generation s = mr_scopeGeneration x"
      "vw_last_transition r = Some \<lparr>tr_action = act, tr_requestHash = dg, tr_response = x\<rparr>"
    using assms(3,6) unfolding stamped_as_def by auto
  have "scope env (vw_scope_key r) st = (Inr s, st)"
    using scope_Inr_iff[of env st] assms(2) s(1) e unfolding ref_inv_def by blast
  then show ?thesis unfolding mutation_def boundVersion_def using v assms(4,5) e s(2,3)
    by (simp add: rbind_def rret_def rhash_def repeated_def)
qed

lemma updated_stamp:
  assumes "updateVersionState (fst (transition env row g act dg au)) st = Inr st'" "readVersion st (vw_id row) = Some r0"
  shows "\<exists>r. readVersion st' (vw_id row) = Some r \<and> vw_last_transition r = Some \<lparr>tr_action = act, tr_requestHash = dg,
     tr_response = snd (transition env row g act dg au)\<rparr>"
  using updateVersionState_map(1)[OF assms(1)] assms(2) by (simp add: set_version_state_def)

lemma approve_stamps:
  assumes "env_ok env" "version env i st = (Inr (row, en), st)" "scope env (vw_scope_key row) st = (Inr sc, st)"
    "approve_fresh env rq (row, en) sc dg st = (Inr x, st')"
  shows "stamped_as st' i (vw_scope_key row) Approve dg x"
proof -
  let ?row = "\<lambda>au. row\<lparr>vw_state := Approved, vw_approval_audit_id := Some au\<rparr>"
  obtain md au st1 where run: "emit env ''approve'' row md Success st = (Inr au, st1)"
      "updateVersionState (fst (transition env (?row au) (sw_generation sc) Approve dg au)) st1 = Inr st'"
      "x = snd (transition env (?row au) (sw_generation sc) Approve dg au)"
    using approve_fresh_run[OF assms(4)] by (metis fst_conv)
  obtain e n where em: "st1 = st\<lparr>rd_audit := rd_audit st @ [e], rd_uuids := n\<rparr>" using emit_effect[OF run(1) assms(1)] by metis
  have v: "readVersion st i = Some row" "vw_id row = i" using assms(2) by (auto elim: version_run)
  then show ?thesis
    using updated_stamp[OF run(2), of row] updateVersionState_map(2)[OF run(2)] scope_Inr(1)[OF assms(3)] em run(3)
    by (auto simp: stamped_as_def)
qed

lemma disable_stamps:
  assumes "env_ok env" "version env i st = (Inr (row, en), st)" "scope env (vw_scope_key row) st = (Inr sc, st)"
    "disable_fresh env rq (row, en) sc dg st = (Inr x, st')"
  shows "stamped_as st' i (vw_scope_key row) Disable dg x"
proof -
  let ?row = "row\<lparr>vw_state := Disabled\<rparr>" and ?g = "sw_generation sc + 1"
  let ?r = "\<lambda>au. fst (transition env ?row ?g Disable dg au)"
  let ?act = "if sw_active_version_id sc = Some (vw_id row) then None else sw_active_version_id sc"
  obtain md au st1 st2 where run: "emit env ''disable'' row md Success st = (Inr au, st1)" "updateVersionState (?r au) st1 = Inr st2"
      "st' = updateScope (scope_after sc ?act ?g (?r au)) st2" "x = snd (transition env ?row ?g Disable dg au)"
    using disable_fresh_run[OF assms(4)] by (metis fst_conv)
  obtain e n where em: "st1 = st\<lparr>rd_audit := rd_audit st @ [e], rd_uuids := n\<rparr>" using emit_effect[OF run(1) assms(1)] by metis
  have v: "readVersion st i = Some row" "vw_id row = i" using assms(2) by (auto elim: version_run)
  note sc = scope_Inr(1)[OF assms(3)]
  have "readScope st2 (sw_scope_key (scope_after sc ?act ?g (?r au))) = Some sc"
    using updateVersionState_map(2)[OF run(2)] em sc readScope_key[OF sc] by simp
  from updateScope_map(1,2)[OF this] show ?thesis
    using updated_stamp[OF run(2), of row] v em run(3,4) readScope_key[OF sc] by (auto simp: stamped_as_def)
qed

lemma switch_stamps:
  assumes "env_ok env" "ref_inv (re_num env) (re_sha env) st" "version env i st = (Inr (row, en), st)" "scope env (vw_scope_key row) st = (Inr sc, st)"
    "hash_text dg" "switch_fresh env rq act nm d (row, en) sc dg st = (Inr x, st')"
  shows "stamped_as st' i (vw_scope_key row) act dg x"
proof -
  let ?g = "sw_generation sc + 1" and ?k = "vw_scope_key row"
  let ?row = "\<lambda>appr. row\<lparr>vw_state := Active, vw_approval_audit_id := Some appr\<rparr>"
  let ?r = "\<lambda>appr au. fst (transition env (?row appr) ?g act dg au)"
  let ?s = "\<lambda>appr au. scope_after sc (Some (vw_id row)) ?g (?r appr au)"
  obtain appr md au st1 st2 st3 st4 where run:
      "(case d of Some d \<Rightarrow> activation_approval env row d | None \<Rightarrow> rollback_approval env (row, en) sc rq dg) st = (Inr appr, st1)"
      "ref_count ?g" "supersede env sc ?g (vw_id row) dg st1 = (Inr (), st2)" "emit env nm row md Success st2 = (Inr au, st3)"
      "updateVersionState (?r appr au) st3 = Inr st4" "st' = updateScope (?s appr au) st4" "x = snd (transition env (?row appr) ?g act dg au)"
    using switch_fresh_run[OF assms(6)] by (metis fst_conv)
  from assms(3) have v: "readVersion st i = Some row" "vw_id row = i" by (auto elim: version_run)
  note sc = scope_Inr[OF assms(4)]
  have log: "log_inv (re_num env) (re_sha env) (rd_audit st)" using assms(2) by (simp add: ref_inv_def)
  obtain x1 n where s1: "st1 = st\<lparr>rd_audit := rd_audit st @ x1, rd_uuids := n\<rparr>" "log_inv (re_num env) (re_sha env) (rd_audit st @ x1)"
    using switch_approval[OF assms(1) log run(1)] by metis
  have i1: "ref_inv (re_num env) (re_sha env) st1" unfolding s1(1) by (rule ref_inv_audit[OF assms(2) s1(2)])
  have r1: "readScope st1 ?k = Some sc" using sc(1) s1(1) by simp
  have s2: "readScope st2 = readScope st1" "extends moved (readVersion st1) (readVersion st2)"
    by (rule supersede_effect[OF assms(1) i1 r1 sc(3) assms(5) run(2,3)], simp)+
  obtain r0 where r0: "readVersion st2 i = Some r0" using s2(2) v(1) s1(1) unfolding extends_def by auto
  obtain e n' where em: "st3 = st2\<lparr>rd_audit := rd_audit st2 @ [e], rd_uuids := n'\<rparr>" using emit_effect[OF run(4) assms(1)] by metis
  have "readScope st4 (sw_scope_key (?s appr au)) = Some sc"
    using updateVersionState_map(2)[OF run(5)] em s2(1) r1 readScope_key[OF sc(1)] by simp
  from updateScope_map(1,2)[OF this] show ?thesis
    using updated_stamp[OF run(5), of r0] v(2) r0 em run(6,7) readScope_key[OF sc(1)] by (auto simp: stamped_as_def)
qed

text \<open>A mutation that returned answers a repetition of its request with the same response and no change.\<close>

lemma mutation_retry:
  assumes "host sf h env" "host sf h env'" "ref_inv sf h st" "sound env (mutation env i hh act request go)"
    "\<And>row en sc dg x st'. version env i st = (Inr (row, en), st) \<Longrightarrow> scope env (vw_scope_key row) st = (Inr sc, st) \<Longrightarrow> hash_text dg \<Longrightarrow>
      go (row, en) sc dg st = (Inr x, st') \<Longrightarrow> stamped_as st' i (vw_scope_key row) act dg x"
    "mutation env i hh act request go st = (Inr x, st')"
  shows "mutation env' i hh act request go' st' = (Inr x, st')"
proof -
  have e: "sf = re_num env" "h = re_sha env" "env_ok env" using assms(1) by (simp_all add: host_def)
  have i': "ref_inv sf h st'" "evolves st st'" using assms(3,4,6) e unfolding sound_def follows_def by blast+
  from assms(6) show ?thesis
  proof (cases rule: mutation_run)
    case (again row en sc dg)
    have "stamped_as st i (vw_scope_key row) act dg x"
      using again(1,3,5) scope_Inr(1)[OF again(3)] by (auto simp: stamped_as_def repeated_def version_Inr split: option.splits if_splits)
    then show ?thesis using mutation_again[OF assms(2,3)] again e by (auto simp: version_Inr)
  next
    case (fresh row en sc dg)
    have "readVersion st i = Some row" using fresh(1) by (simp add: version_Inr)
    then obtain r' where r': "readVersion st' i = Some r'" "moved row r'" using i'(2) unfolding evolves_def extends_def by blast
    have "stamped_as st' i (vw_scope_key row) act dg x"
      using assms(5)[OF fresh(1,3) _ fresh(6)] refinementHash_hash[OF e(3) fresh(4)] by blast
    then show ?thesis using mutation_again[OF assms(2) i'(1) r'(1)] moved_fields[OF r'(2)] fresh(2,4) e by simp
  qed
qed

text \<open>C30: Retrying is safe: a request to approve, activate, roll back or disable that was answered is answered in the same way
  when it is sent again, by whatever host, and the second call changes nothing.\<close>

theorem retry_is_idempotent:
  assumes "ref_reachable sf h st" "host sf h env" "host sf h env'" "re_ownerId env' = re_ownerId env"
  shows "(\<forall>rq x st'. approve env rq st = (Inr x, st') \<longrightarrow> approve env' rq st' = (Inr x, st'))
    \<and> (\<forall>rq x st'. activate env rq st = (Inr x, st') \<longrightarrow> activate env' rq st' = (Inr x, st'))
    \<and> (\<forall>rq x st'. rollback env rq st = (Inr x, st') \<longrightarrow> rollback env' rq st' = (Inr x, st'))
    \<and> (\<forall>rq x st'. disable env rq st = (Inr x, st') \<longrightarrow> disable env' rq st' = (Inr x, st'))"
proof -
  note inv = ref_reachable_inv[OF assms(1)]
  have e: "env_ok env" "sf = re_num env" "h = re_sha env" using assms(2) by (simp_all add: host_def)
  note retry = mutation_retry[OF assms(2,3) inv]
  have a: "mutation env' i hh Approve rj (approve_fresh env' rq) st' = (Inr x, st')"
    if "mutation env i hh Approve rj (approve_fresh env rq) st = (Inr x, st')" for i hh rj rq x st'
    by (rule retry[OF mutation_sound[OF e(1) approve_fresh_sound[OF e(1)]] approve_stamps[OF e(1)] that])
  have s: "mutation env' i hh act rj (switch_fresh env' rq act nm d) st' = (Inr x, st')"
    if "mutation env i hh act rj (switch_fresh env rq act nm d) st = (Inr x, st')" for i hh act rj nm d x st' and rq :: activate_request
    by (rule retry[OF mutation_sound[OF e(1) switch_fresh_sound[OF e(1)]] switch_stamps[OF e(1) inv[unfolded e(2,3)]] that])
  have t: "mutation env' i hh act rj (switch_fresh env' rq act nm d) st' = (Inr x, st')"
    if "mutation env i hh act rj (switch_fresh env rq act nm d) st = (Inr x, st')" for i hh act rj nm d x st' and rq :: rollback_request
    by (rule retry[OF mutation_sound[OF e(1) switch_fresh_sound[OF e(1)]] switch_stamps[OF e(1) inv[unfolded e(2,3)]] that])
  have d: "mutation env' i hh Disable rj (disable_fresh env' rq) st' = (Inr x, st')"
    if "mutation env i hh Disable rj (disable_fresh env rq) st = (Inr x, st')" for i hh rj rq x st'
    by (rule retry[OF mutation_sound[OF e(1) disable_fresh_sound[OF e(1)]] disable_stamps[OF e(1)] that])
  show ?thesis
    using a s t d assms(4) unfolding approve_def activate_def rollback_def disable_def switchVersion_def
    by (auto simp: rbind_Inr runless_Inr owned_Inr atomic_Inr)
qed

section \<open>Witnesses\<close>

lemma ex_row5_fields:
  "vw_id ex_row5 = ex_id 11" "vw_scope_key ex_row5 = ex_digest" "vw_version_hash ex_row5 = ex_digest" "vw_envelope ex_row5 = Some ex_envelope"
  "vw_latest_attempt_id ex_row5 = Some (ex_id 13)" "vw_validated_attempt_id ex_row5 = Some (ex_id 13)" "vw_state ex_row5 = Active"
  using ex_row4_fields by (simp_all add: ex_row5_def transition_def Let_def)

lemma ex_scope5_fields: "sw_scope_key ex_scope5 = ex_digest" "sw_active_version_id ex_scope5 = Some (ex_id 11)" "sw_generation ex_scope5 = 1"
  by (simp_all add: ex_scope5_def new_scope_row_def)

definition ex_pin :: ref_pin where
  "ex_pin = \<lparr>pn_versionId = ex_id 11, pn_versionHash = ex_digest, pn_validationId = ex_id 13, pn_scopeKey = ex_digest, pn_scopeGeneration = 1\<rparr>"

lemma ex_selects:
  assumes "ex_reachable (ex_store ex_row5 ex_scope5 [attemptRow ex_done] A n)"
  shows "select ex_host (ct_scope ex_content) (ex_store ex_row5 ex_scope5 [attemptRow ex_done] A n)
      = (Inr (Some ex_pin), ex_store ex_row5 ex_scope5 [attemptRow ex_done] A n)"
    "assertPin ex_host ex_pin (ex_store ex_row5 ex_scope5 [attemptRow ex_done] A n)
      = (Inr ex_content, ex_store ex_row5 ex_scope5 [attemptRow ex_done] A n)"
proof -
  let ?st = "ex_store ex_row5 ex_scope5 [attemptRow ex_done] A n"
  note r = ex_version[OF assms ex_row5_fields(1,4)] ex_scope[OF assms ex_scope5_fields(1)] ex_attempt_reads[OF assms ex_done_fields(1)]
    ex_passed[OF assms ex_row5_fields(3,2,5,6)]
  have en: "en_versionId ex_envelope = ex_id 11" "en_content ex_envelope = ex_content" by (simp_all add: ex_envelope_def new_envelope_def ex_proposal_def)
  have ok: "scope_ok (ct_scope ex_content)" by (simp add: ex_content_def scope_ok_def)
  have "select_pin ex_host ex_digest ?st = (Inr (Some ex_pin), ?st)"
    unfolding select_pin_def
    by (simp add: rbind_def rread_def rret_def r ex_scope5_fields ex_row5_fields ex_done_fields text_of_def en ex_pin_def)
  then show "select ex_host (ct_scope ex_content) ?st = (Inr (Some ex_pin), ?st)"
    unfolding select_def using ok ex_hash[OF ex_canonical(2)] by (simp add: rbind_def runless_def rret_def rhash_def atomic_def)
  have p: "pn_versionId ex_pin = ex_id 11" "pn_versionHash ex_pin = ex_digest" "pn_validationId ex_pin = ex_id 13" "pn_scopeKey ex_pin = ex_digest"
      "pn_scopeGeneration ex_pin = 1"
    by (simp_all add: ex_pin_def)
  have "readPin ex_host ex_pin ?st = (Inr ex_content, ?st)"
    unfolding readPin_def by (simp add: rbind_def rret_def r p ex_scope5_fields ex_row5_fields ex_done_fields text_of_def en)
  then show "assertPin ex_host ex_pin ?st = (Inr ex_content, ?st)"
    unfolding assertPin_def by (simp add: rbind_def runless_def rret_def atomic_def pin_ok_def p ref_count_def max_safe_def)
qed

theorem active_method_earned_witness:
  "\<exists>st r w rep. ex_reachable st \<and> readVersion st (ex_id 11) = Some r \<and> vw_state r = Active
     \<and> readValidation st (ex_id 13) = Some w \<and> aw_report w = Some (Some rep) \<and> all_passed rep"
proof -
  obtain A where r: "ex_reachable (ex_store ex_row5 ex_scope5 [attemptRow ex_done] A 18)" by (rule ex_run)
  then show ?thesis
    using active_method_earned[OF r, of "ex_id 11" ex_row5] ex_row5_fields by (fastforce split: if_splits)
qed


theorem store_never_corrupt_witness:
  "\<exists>st en. ex_reachable st \<and> host (\<lambda>_. []) (\<lambda>_. ex_digest) ex_host \<and> version ex_host (ex_id 11) st = (Inr (ex_row5, en), st)
     \<and> versionCount st \<le> MAX_VERSIONS"
proof -
  obtain A where r: "ex_reachable (ex_store ex_row5 ex_scope5 [attemptRow ex_done] A 18)" by (rule ex_run)
  have "readVersion (ex_store ex_row5 ex_scope5 [attemptRow ex_done] A 18) (ex_id 11) = Some ex_row5" by (simp add: ex_row5_fields)
  then show ?thesis using r store_never_corrupt[OF r ex_host_ok(2)] ex_host_ok(2) by blast
qed

theorem evidence_immutable_witness:
  "\<exists>st st'. ex_reachable st \<and> (ref_step (\<lambda>_. []) (\<lambda>_. ex_digest))\<^sup>*\<^sup>* st st' \<and> readVersion st (ex_id 11) = Some ex_row5
     \<and> (\<exists>ext. rd_audit st' = rd_audit st @ ext)"
proof -
  obtain A where r: "ex_reachable (ex_store ex_row5 ex_scope5 [attemptRow ex_done] A 18)" by (rule ex_run)
  let ?st = "ex_store ex_row5 ex_scope5 [attemptRow ex_done] A 18"
  have s: "(ref_step (\<lambda>_. []) (\<lambda>_. ex_digest))\<^sup>*\<^sup>* ?st (snd (select ex_host (ct_scope ex_content) ?st))"
    using ref_step.selects[OF ex_host_ok(2)] by blast
  then show ?thesis using r evidence_immutable[OF r s] ex_row5_fields(1) by (metis ex_store_simps(6))
qed

theorem pin_content_stable_witness:
  "\<exists>st. ex_reachable st \<and> select ex_host (ct_scope ex_content) st = (Inr (Some ex_pin), st) \<and> assertPin ex_host ex_pin st = (Inr ex_content, st)
     \<and> (\<exists>row en. readVersion st (ex_id 11) = Some row \<and> vw_envelope row = Some en \<and> en_content en = ex_content)"
proof -
  obtain A where r: "ex_reachable (ex_store ex_row5 ex_scope5 [attemptRow ex_done] A 18)" by (rule ex_run)
  have "pn_versionId ex_pin = ex_id 11" by (simp add: ex_pin_def)
  then show ?thesis using r ex_selects[OF r] pin_content_stable[OF r ex_selects(1)[OF r] rtranclp.rtrancl_refl ex_selects(2)[OF r]] by metis
qed

theorem retry_is_idempotent_witness:
  "\<exists>st st' x. ex_reachable st \<and> activate ex_host ex_activate st = (Inr x, st') \<and> st' \<noteq> st \<and> activate ex_host ex_activate st' = (Inr x, st')"
proof -
  obtain st A x where r: "ex_reachable st" "activate ex_host ex_activate st = (Inr x, ex_store ex_row5 ex_scope5 [attemptRow ex_done] A 18)"
      "lf_state (lives st) (ex_id 11) = Some Approved"
    by (rule ex_run)
  have "activate ex_host ex_activate (ex_store ex_row5 ex_scope5 [attemptRow ex_done] A 18)
      = (Inr x, ex_store ex_row5 ex_scope5 [attemptRow ex_done] A 18)"
    using retry_is_idempotent[OF r(1) ex_host_ok(2) ex_host_ok(2) refl] r(2) by blast
  moreover have "lf_state (lives (ex_store ex_row5 ex_scope5 [attemptRow ex_done] A 18)) (ex_id 11) = Some Active"
    by (simp add: lives_def ex_row5_fields)
  moreover from this have "ex_store ex_row5 ex_scope5 [attemptRow ex_done] A 18 \<noteq> st" using r(3) by auto
  ultimately show ?thesis using r(1,2) by blast
qed

end
