(* ===== verification/Spec2Isabelle.thy ===== *)
theory Spec2Isabelle
  imports AuditWalk RefineProps
begin

text \<open>
  A verification development for the Habenula commitment workbench: an engine that lets a language model act on
  connected services under the user's policy, records every decision in a hash-chained audit log, and learns working
  methods only with evidence and approval. The sources are TypeScript, under \<open>src/packages/\<close>. The model is a shallow
  embedding: a struct is a record, a table is a list of rows with its constraints, a method is a function of the tables
  that returns an error or a result together with the new tables, and a loop is a recursive function.

  \<^bold>\<open>How the program is put together.\<close> The coordinator (\<open>engine/src/agent/user-agent.ts\<close>) holds the tables of
  \<open>engine/src/data/\<close>. A turn of the conversation loop asks the model, and every tool call of the model goes to
  \<open>executeTool\<close>: the control-plane boundary, data binding, the governance pipeline (policy entries through
  \<open>evaluatePolicy\<close>, the ledger through \<open>evaluateSpend\<close>), an audit row, and then the tool, a hold that waits for the
  user, or a denial. \<open>resolveConfirmation\<close> takes up a hold with the user's answer and resumes the turn. The command line
  walks the audit log and verifies it. Beside this, a workflow run spends model calls from a budget, produces a ledger of
  commitments that is checked against the snapshot it cites, and may be guided by a method that the refinement manager
  has validated, had approved and activated.

  \<^bold>\<open>Theories.\<close>

  \<^item> \<open>JsPrelude\<close>: the shared vocabulary. JavaScript text as UTF-16 code units with UTF-8, numbers as the code looks at
    them, stable sorting, tables with primary keys; the locales \<open>keyset_listing\<close> and \<open>pk_table\<close> for the listing and
    lookup interfaces, which the tables interpret. \<open>IsoDate\<close>: \<open>toISOString\<close> and the order of its texts. \<open>Json\<close>:
    \<open>JSON.stringify\<close>.
  \<^item> \<open>Policy\<close>, \<open>Spend\<close> (\<open>governance/src/\<close>): the two evaluators. The lemmas characterise the decision by the matching
    entries, and the spend decision by the caps, in double-precision arithmetic.
  \<^item> \<open>AuditHash\<close>, \<open>VerifyChain\<close>, \<open>DecisionClosure\<close> (\<open>audit/src/\<close>): the entry hash, the chain verifier and the closure
    check. The lemmas relate the lists of breaks and findings to declarative notions, show that framing can be read
    back, that the newest hash commits to the whole epoch, and that checking by pages equals checking at once.
  \<^item> \<open>AuditLog\<close>, \<open>PolicyTable\<close>, \<open>Sessions\<close>, \<open>HeldCalls\<close>, \<open>CommissionRuns\<close>, \<open>SpendLedger\<close>, \<open>Services\<close>
    (\<open>engine/src/data/helpers/\<close>): one theory per table, every helper, the states its writes can reach, and what holds
    there: written logs verify, grants decide, a status machine with absorbing ends, single-use OAuth states.
  \<^item> \<open>Agent\<close>: the coordinator's state (a record of the tables), its actions, and the calculus of invariants,
    postconditions and frames the next theories use. \<open>Lifecycle\<close>: sessions, the reaper and the kill switch; the locales
    \<open>session_invariant\<close> and \<open>kill_invariant\<close> say what it takes for a property to survive every session method.
  \<^item> \<open>Pipeline\<close>, \<open>Tools\<close>, \<open>Resolve\<close>: the governance pipeline with the outcome write, \<open>executeTool\<close>, and
    \<open>resolveConfirmation\<close> with every branch. The locales \<open>call_invariant\<close> and \<open>mint_invariant\<close> extend those of the
    sessions; interpreted on the audit chain, the grants and the policy table they give mediation, audit before
    execution, and that no answer mints more than it says.
  \<^item> \<open>Conversation\<close>, \<open>Turns\<close>, \<open>Tasks\<close>, \<open>Listings\<close> (\<open>engine/src/llm/conversation.ts\<close> and the coordinator): the loop,
    chat and commissions, task operations, paged listings with opaque cursors (locale \<open>cursor_listing\<close>). The lemmas keep
    the buffer answerable whatever the model does, bound rounds and queue, and show that following cursors reads
    everything.
  \<^item> \<open>AuditWalk\<close> (\<open>cli/src/audit/\<close>, \<open>cli/src/commands/log.ts\<close>): the paged walk over the audit route, its summary and
    exit codes, the dump file and its verification. The lemmas reduce a walk to one check of the rows it saw.
  \<^item> \<open>Budget\<close> (\<open>engine/src/workflows/model-budget.ts\<close>): limits, admission, settlement, cancellation, snapshot and the
    byte counter; a step relation over a run's events, its invariant by rule induction, and the counter equal to the
    length of the encoded text.
  \<^item> \<open>Handoff\<close> (\<open>contracts/src/workflows.ts\<close>, \<open>engine/src/workflows/commitment-handoff.ts\<close>): the schemas as decoders,
    snapshots with their hashes, the line index, ledgers checked citation by citation.
  \<^item> \<open>RefineData\<close>, \<open>Refinements\<close> (\<open>contracts/src/refinements.ts\<close>, \<open>engine/src/refinements/\<close>): the data of governed
    learning with its canonical hashes, and every method of the manager over its three tables and the audit log.
    \<open>RefineInv\<close> and \<open>RefineSafe\<close> hold the invariant, the abstract life cycle of a method, and the proof that every
    method of the manager is sound for them; \<open>RefineProps\<close> states what follows for every store that calls can reach.
  \<^item> This theory: the properties that span the engine and the command line.

  \<^bold>\<open>Parameters and what is assumed of them.\<close> Code outside the sources is an argument of the definitions: SHA-256 (any
  function; injectivity on the inputs at hand where a hash must bind), the printing of non-integral numbers, Unicode case
  mapping, time zones, the issue lists of zod and its datetime format, the tool registry and the tools, the provider
  client, the registry, runner and source resolver of governed learning, \<open>JSON.parse\<close> (its inverse relation to
  \<open>JSON.stringify\<close> on the values at hand). The clock and the supply of UUIDs are arguments too; a synchronous method
  reads the clock once. What may happen during an \<open>await\<close>, other requests included, is an arbitrary function on the state
  that issues its writes through the engine's own methods. Every property with such a hypothesis has a witness that
  instantiates it.

  \<^bold>\<open>Bounds and fuel.\<close> The conversation loop recurs on the rounds left of \<open>MAX_ITERATIONS\<close>, as the code counts them. The
  client that follows cursors has one unit of fuel for each row and one more, which is shown to be enough. The walk of
  the command line is a partial function, and that it returns for every server is a theorem. Sequence numbers are
  natural numbers; amounts of money and latencies are rationals with the rounding of doubles written out where sums are
  compared.

  \<^bold>\<open>Not modelled.\<close> Process start-up, sockets, HTTP routing and response shaping (\<open>engine/src/index.ts\<close>,
  \<open>engine/src/daemon/\<close>, \<open>engine/src/mcp/\<close>), network clients of providers and services (\<open>engine/src/llm/\<close> clients,
  \<open>tools/src/services/\<close>), encryption of credentials, terminal input and rendering of the command line, generated code,
  the recursive-model runtime, which drives a child process, and the workflow service, which composes the manager, the
  budget and the handoff contract with that runtime. They are boundary code: what they rely on of the engine is modelled,
  and what they add is input and output.
\<close>

section \<open>The engine as the client sees it\<close>

text \<open>\<open>GET /api/audit\<close> on the log \<open>es\<close>, with the parameters the client passes on.\<close>

definition engine_client :: "audit_log \<Rightarrow> jsstr audit_client" where
  "engine_client es n limit cursor =
     (case audit_page es (clampAuditPageLimit (Some limit)) cursor of
        None \<Rightarrow> Inl (js ''InvalidCharacterError'')
      | Some page \<Rightarrow> Inr page)"

lemma walk_limit: "clampAuditPageLimit (Some WALK_REQUEST_LIMIT) = 200"
  by code_simp

lemma engine_answer:
  "answer_at (engine_client es) n =
     (case audit_page es 200 (cursor_at (engine_client es) n) of
        None \<Rightarrow> Inl (js ''InvalidCharacterError'') | Some page \<Rightarrow> Inr page)"
  unfolding answer_at_def by (subst engine_client_def) (simp only: walk_limit)

text \<open>Page by page, while the cursor is open.\<close>

lemma engine_pages:
  assumes l: "log_inv sf h es" and c: "\<forall>r \<in> set es. codable_entry r"
  shows "n = 0 \<or> 200 * n < length es \<Longrightarrow>
    audit_pages.below (audit_before (cursor_at (engine_client es) n)) es = drop (200 * n) (rev es)
    \<and> (\<exists>nx. answer_at (engine_client es) n = Inr (take 200 (drop (200 * n) (rev es)), nx)
        \<and> (nx = None \<longleftrightarrow> length es \<le> 200 * Suc n))"
proof (induction n)
  case 0
  have b: "audit_pages.below (audit_before None) es = rev es"
    using log_inv_order[OF l] by (simp add: audit_pages.below_def audit_cursors.no_cursor)
  show ?case
    using audit_cursors.page_step[of es 200 None] log_inv_keys[OF l] c b
    by (auto simp: engine_answer split: if_splits)
next
  case (Suc n)
  then have n: "n = 0 \<or> 200 * n < length es" "200 * Suc n < length es" by auto
  let ?c = "cursor_at (engine_client es)"
  have b: "audit_pages.below (audit_before (?c n)) es = drop (200 * n) (rev es)" using Suc.IH[OF n(1)] by blast
  have step: "\<exists>nx. audit_page es 200 cur = Some (take 200 (audit_pages.below (audit_before cur) es), nx)
      \<and> (if length (audit_pages.below (audit_before cur) es) \<le> 200 then nx = None
         else nx \<noteq> None \<and> audit_pages.below (audit_before nx) es = drop 200 (audit_pages.below (audit_before cur) es))" for cur
    using audit_cursors.page_step[of es 200 cur] log_inv_keys[OF l] c by simp
  obtain nx where nx: "audit_page es 200 (?c n) = Some (take 200 (drop (200 * n) (rev es)), nx)"
    "nx \<noteq> None" "audit_pages.below (audit_before nx) es = drop (200 * Suc n) (rev es)"
    using step[of "?c n"] n(2) unfolding b by (auto simp: add.commute split: if_splits)
  then have cs: "?c (Suc n) = nx" by (intro cursor_at_Suc[of _ _ "take 200 (drop (200 * n) (rev es))"]) (simp add: engine_answer)
  then show ?case
    using step[of nx] nx(3) n(2) by (auto simp: engine_answer simp del: cursor_at.simps split: if_splits)
qed

lemma engine_ended:
  assumes "log_inv sf h es" "\<forall>r \<in> set es. codable_entry r" "n = 0 \<or> 200 * n < length es"
  shows "ended (engine_client es) (Suc n) \<longleftrightarrow> length es \<le> 200 * Suc n"
  using engine_pages[OF assms] cursor_at_Suc[of "engine_client es" n] by (auto simp: ended_def simp del: cursor_at.simps)

text \<open>As long as the cursor has not closed, the walk has a full page before it.\<close>

lemma engine_open:
  assumes "log_inv sf h es" "\<forall>r \<in> set es. codable_entry r" "\<forall>i \<le> n. \<not> ended (engine_client es) i"
  shows "n = 0 \<or> 200 * n < length es"
  using assms(3)
proof (induction n)
  case (Suc n)
  then show ?case using engine_ended[OF assms(1,2), of n] by (meson le_Suc_eq not_le order_refl)
qed simp

lemma engine_served:
  assumes "log_inv sf h es" "\<forall>r \<in> set es. codable_entry r" "\<forall>i < n. \<not> ended (engine_client es) i"
  shows "served (engine_client es) n = take (200 * n) (rev es)"
  using assms(3)
proof (induction n)
  case 0
  then show ?case by (simp add: served_def)
next
  case (Suc n)
  have "n = 0 \<or> 200 * n < length es" using Suc.prems by (intro engine_open[OF assms(1,2)]) auto
  then have "page_at (engine_client es) n = take 200 (drop (200 * n) (rev es))"
    using engine_pages[OF assms(1,2), of n] by (auto simp: page_at_def)
  moreover have "200 * Suc n = 200 * n + 200" by simp
  ultimately show ?case using Suc by (simp only: served_Suc take_add) simp
qed

lemma log_descends:
  assumes "log_inv sf h es"
  shows "sorted_wrt (\<lambda>a b. sortsStrictlyBelow b a) (rev es)"
proof -
  have "sorted_wrt (\<lambda>a b. chain_key a < chain_key b) es" and a: "\<forall>r \<in> set es. ascii (epochId r)"
    using assms by (auto simp: log_inv_def)
  then have "sorted_wrt sortsStrictlyBelow es"
    by (elim sorted_wrt_mono_rel[rotated])
      (auto simp: chain_key_def sortsStrictlyBelow_def utf8_less_ascii less_prod_def' utf8_inj ascii_well_formed)
  then show ?thesis by (simp add: sorted_wrt_rev)
qed

lemma reachable_head: "audit_reachable sf h es \<Longrightarrow> es = [] \<or> genesis_shaped (hd es)"
proof (induction rule: audit_reachable.induct)
  case (more rows rows')
  have grow: "rows' = [] \<or> genesis_shaped (hd rows')" if "insertRow env ps d rows = Inr (r, rows')" for env ps d r
    using insertRow_Inr(1)[OF that] more.IH new_row_link(1,3)[of env ps d "[]"]
    by (cases rows) (auto simp: genesis_shaped_def order_desc_def first_row_def)
  from more.hyps(2) show ?case
  proof cases
    case (entry env ps r)
    then show ?thesis using grow by (auto simp: insertAuditEntryInTxn_def)
  next
    case (close env ps d basis res)
    from close(5) show ?thesis by (cases rule: closeDecisionEntry_cases) (use more.IH grow in auto)
  qed
qed simp

text \<open>The walk over the engine's log ends where the log ends.\<close>

lemma engine_walk_complete:
  assumes l: "log_inv sf h es" "\<forall>r \<in> set es. codable_entry r" "length es \<le> 200 * AUDIT_MAX_PAGES"
    and i: "walk_inv sf h (engine_client es) opts w st" and f: "walk_final (engine_client es) opts st"
    and a: "\<forall>n. \<not> wo_aborted opts n"
  shows "served (engine_client es) (wk_pagesFetched st) = rev es
     \<and> complete_walk (engine_client es) (wk_pagesFetched st)"
proof -
  let ?c = "engine_client es" and ?n = "wk_pagesFetched st"
  have before: "\<forall>i < ?n. \<not> ended ?c i" using walk_inv_reaches[OF i] by (simp add: walk_reaches_def)
  have s: "served ?c ?n = take (200 * ?n) (rev es)" by (rule engine_served[OF l(1,2) before])
  show ?thesis
  proof (cases "ended ?c ?n")
    case True
    then obtain m where m: "?n = Suc m" by (cases ?n) (auto simp: ended_def)
    then have "m = 0 \<or> 200 * m < length es" using before by (intro engine_open[OF l(1,2)]) auto
    then have "length es \<le> 200 * ?n" using engine_ended[OF l(1,2)] True m by simp
    then show ?thesis using s True by (simp add: complete_walk_def)
  next
    case False
    then have o: "?n = 0 \<or> 200 * ?n < length es" using before by (intro engine_open[OF l(1,2)]) (auto simp: le_less)
    then obtain nx where an: "answer_at ?c ?n = Inr (take 200 (drop (200 * ?n) (rev es)), nx)"
      and nx: "nx = None \<longleftrightarrow> length es \<le> 200 * Suc ?n"
      using engine_pages[OF l(1,2)] by blast
    let ?p = "take 200 (drop (200 * ?n) (rev es))"
    have below: "sortsStrictlyBelow (hd ?p) (last (served ?c ?n))" if "?p \<noteq> []" "served ?c ?n \<noteq> []"
    proof (rule descending_seam[OF _ that(2,1)])
      have "served ?c ?n @ ?p = take (200 * ?n + 200) (rev es)" by (simp add: s take_add)
      then show "sorted_wrt (\<lambda>a b. sortsStrictlyBelow b a) (served ?c ?n @ ?p)"
        using log_descends[OF l(1)] by (metis append_take_drop_id sorted_wrt_append)
    qed
    have "?p = [] \<and> ?n < AUDIT_MAX_PAGES"
      using f False a below an o l(3)
      by (cases "wk_stopReason st") (auto simp: walk_final_def Let_def page_at_def AUDIT_MAX_PAGES_def)
    then have "es = []" "?n = 0" "?n < AUDIT_MAX_PAGES" using o by auto
    then show ?thesis using s an nx by (simp add: complete_walk_def)
  qed
qed

lemma engine_verify_returns:
  assumes "log_inv sf h es" "\<forall>r \<in> set es. codable_entry r"
  shows "\<exists>st. runLogVerify sf' h' (engine_client es) aborted
       = Some (Inr (log_verdict (walk_summary_of st) (wk_entriesSeen st)))
     \<and> walk_inv sf' h' (engine_client es) (verify_options aborted) () st
     \<and> walk_final (engine_client es) (verify_options aborted) st"
proof -
  let ?c = "engine_client es" and ?o = "verify_options aborted :: (jsstr, unit) walk_options"
  have no_error: "answer_at ?c n \<noteq> Inl e" if "walk_reaches ?c ?o n" "\<not> ended ?c n" for n e
  proof -
    have "n = 0 \<or> 200 * n < length es"
      using that by (intro engine_open[OF assms]) (auto simp: walk_reaches_def le_less)
    then show ?thesis using engine_pages[OF assms, of n] by auto
  qed
  obtain r where r: "runLogVerify sf' h' ?c aborted = Some r" and c: "case r of
      Inl e \<Rightarrow> \<exists>n < AUDIT_MAX_PAGES. walk_reaches ?c ?o n \<and> \<not> ended ?c n \<and> \<not> aborted n \<and> answer_at ?c n = Inl e
    | Inr v \<Rightarrow> \<exists>st. walk_inv sf' h' ?c ?o () st \<and> walk_final ?c ?o st
        \<and> v = log_verdict (walk_summary_of st) (wk_entriesSeen st)"
    using runLogVerify_state[of sf' h' ?c aborted] by blast
  show ?thesis using r c no_error by (cases r) auto
qed

lemma conflicts_of_rows:
  "distinct (map entryId es) \<Longrightarrow>
   map (\<lambda>d. (d_id d, d_closers d)) (conflictedOnes (checkDecisionClosure es carried True)) = conflicting_decisions carried es"
  using closed_findings[OF _ refl, of es carried] by (simp add: checkDecisionClosure_def Let_def rev_map)

section \<open>Properties\<close>

text \<open>C5: End to end, \<open>log verify\<close> on an engine is right and raises no false alarm. Over any log the engine's two writes can
  have produced, up to the two million rows of the page ceiling, the command reads every row through the engine's own
  pages and cursors and returns: 5 with exactly the decisions that carry two or more closers, if there are any, and
  otherwise 0 with a report that counts the whole log.\<close>

theorem engine_log_verifies:
  assumes "audit_reachable sf h es" "\<forall>r \<in> set es. codable_entry r" "length es \<le> 2000000"
  shows "\<exists>report. runLogVerify sf h (engine_client es) (\<lambda>_. False)
       = Some (Inr (if conflicting_decisions [] es = [] then 0 else 5, report))
     \<and> (if conflicting_decisions [] es \<noteq> []
        then \<exists>ds k us notes. report = ReportConflicted ds k us notes
          \<and> map (\<lambda>d. (d_id d, d_closers d)) ds = conflicting_decisions [] es \<and> us = []
        else if es = [] then report = ReportEmpty else \<exists>k notes. report = ReportOk (length es) k notes)"
proof -
  let ?c = "engine_client es" and ?no = "\<lambda>_. False"
  have l: "log_inv sf h es" by (rule reachable_log_inv[OF assms(1)])
  have max: "length es \<le> 200 * AUDIT_MAX_PAGES" using assms(3) by (simp add: AUDIT_MAX_PAGES_def)
  let ?o = "verify_options ?no :: (jsstr, unit) walk_options"
  obtain st where r: "runLogVerify sf h ?c ?no = Some (Inr (log_verdict (walk_summary_of st) (wk_entriesSeen st)))"
    and i: "walk_inv sf h ?c ?o () st" and f: "walk_final ?c ?o st"
    using engine_verify_returns[OF l assms(2), of sf h ?no] by blast
  let ?n = "wk_pagesFetched st"
  have rows: "served ?c ?n = rev es" and com: "complete_walk ?c ?n"
    using engine_walk_complete[OF l assms(2) max i f] by (simp_all add: verify_options_def)
  have c: "checked sf h st (rev es)" "exact_breaks sf h st (rev es)" "wk_entriesSeen st = length es"
    using i rows by (simp_all add: walk_inv_def Let_def verify_options_def)
  have stop: "wk_cursorExhausted st" "wk_stopReason st = StopExhausted"
    using final_complete[OF f refl] com by (auto simp: verify_options_def)
  define s where "s = summarizeWalk (ck_pages st) True StopExhausted (ck_closures st)"
  note su = summary_checked[OF c(1) s_def]
  have g: "rev es = [] \<or> genesis_shaped (last (rev es))" using reachable_head[OF assms(1)] by (auto simp: last_rev)
  have "all_breaks st = []" using exact_intact[OF c(2)] l by (simp add: log_inv_def)
  then have br: "su_breaks s = []" "su_exitCode s = exit_code [] (su_conflicted s) StopExhausted True False"
    using su(1,2,9) g by (simp_all only:) auto
  have confl: "map (\<lambda>d. (d_id d, d_closers d)) (su_conflicted s) = conflicting_decisions [] es"
    unfolding su(2) using conflicts_of_rows[of es "[]"] l by (simp add: log_inv_def)
  have "su_uncheckedReasons s = []" unfolding su(8) using g by (auto simp: unchecked_reasons_def)
  moreover have "su_conflicted s = [] \<longleftrightarrow> conflicting_decisions [] es = []" using confl by (metis map_is_Nil_conv)
  ultimately show ?thesis
    using r stop c(3) br confl su(5)
    by (auto simp: walk_summary_of_def s_def[symmetric] log_verdict_def exit_code_def exit_codes)
qed

section \<open>Witnesses\<close>

theorem engine_log_verifies_witness:
  "\<exists>k notes. runLogVerify ex_show ex_sha (engine_client [ex_row]) (\<lambda>_. False) = Some (Inr (0, ReportOk 1 k notes))"
proof -
  have "\<forall>r \<in> set [ex_row]. codable_entry r" by code_simp
  moreover have "conflicting_decisions [] [ex_row] = []" by (simp add: closers_above_def)
  ultimately show ?thesis using engine_log_verifies[OF ex_row_reachable] by auto
qed

end
